(* ===== verification/PyPrelude.thy ===== *)
theory PyPrelude
  imports Complex_Main "HOL-Library.AList" "HOL-Library.Sublist"
begin

section \<open>Prelude: Python values, strings, dictionaries and shared lemmas\<close>

text \<open>
  What every component theory shares: the JSON values that the program passes around as
  \<^verbatim>\<open>dict[str, Any]\<close>, the string methods of the Python standard library that the program
  calls, dictionaries in insertion order, the list loops \<^verbatim>\<open>while over: xs.pop(0)\<close>, and the
  lemma collections the component proofs use.

  Conventions.  A Python string is a \<^typ>\<open>string\<close>; a \<^typ>\<open>char\<close> is read as a code point
  in the range 0 to 255, and the two CJK characters of the one literal that is not Latin-1
  (the image placeholder) are written as question marks, which keeps its length.  A Python
  float is an exact rational.  A dictionary is an association list with distinct keys in
  insertion order: \<^const>\<open>map_of\<close> is \<^verbatim>\<open>d.get(k)\<close>, \<^const>\<open>AList.update\<close> is
  \<^verbatim>\<open>d[k] = v\<close> (an existing key keeps its position) and \<^const>\<open>AList.delete\<close> is
  \<^verbatim>\<open>d.pop(k, None)\<close>.
\<close>

named_theorems py_defs \<open>definitions of the string and dictionary operations\<close>

subsection \<open>JSON values\<close>

datatype json =
    JNull
  | JBool bool
  | JInt int
  | JFloat rat
  | JStr string
  | JList "json list"
  | JObj "(string \<times> json) list"

type_synonym jobj = "(string \<times> json) list"

text \<open>\<^verbatim>\<open>d.get(k)\<close>: the value, or \<^verbatim>\<open>None\<close>.\<close>

definition jget :: "string \<Rightarrow> jobj \<Rightarrow> json" where
  [py_defs]: "jget k d = (case map_of d k of None \<Rightarrow> JNull | Some v \<Rightarrow> v)"

text \<open>\<^verbatim>\<open>d.get(k, default)\<close>.\<close>

definition jget_or :: "json \<Rightarrow> string \<Rightarrow> jobj \<Rightarrow> json" where
  [py_defs]: "jget_or v0 k d = (case map_of d k of None \<Rightarrow> v0 | Some v \<Rightarrow> v)"

text \<open>Python truth of a JSON value.\<close>

fun truthy :: "json \<Rightarrow> bool" where
  "truthy JNull = False"
| "truthy (JBool b) = b"
| "truthy (JInt i) = (i \<noteq> 0)"
| "truthy (JFloat q) = (q \<noteq> 0)"
| "truthy (JStr s) = (s \<noteq> [])"
| "truthy (JList xs) = (xs \<noteq> [])"
| "truthy (JObj d) = (d \<noteq> [])"

fun is_jstr :: "json \<Rightarrow> bool" where
  "is_jstr (JStr _) = True"
| "is_jstr _ = False"

fun is_jobj :: "json \<Rightarrow> bool" where
  "is_jobj (JObj _) = True"
| "is_jobj _ = False"

text \<open>The object, list or string a value is; the empty one where it is something else.\<close>

fun as_obj :: "json \<Rightarrow> jobj" where
  "as_obj (JObj d) = d"
| "as_obj _ = []"

fun as_list :: "json \<Rightarrow> json list" where
  "as_list (JList xs) = xs"
| "as_list _ = []"

fun as_str :: "json \<Rightarrow> string" where
  "as_str (JStr s) = s"
| "as_str _ = []"

text \<open>The truth of an optional list or string (\<^verbatim>\<open>if x:\<close>).\<close>

definition opt_truthy :: "'a list option \<Rightarrow> bool" where
  "opt_truthy o' = (case o' of None \<Rightarrow> False | Some xs \<Rightarrow> xs \<noteq> [])"

lemma opt_truthy_simps [simp]:
  "\<not> opt_truthy None" "opt_truthy (Some xs) \<longleftrightarrow> xs \<noteq> []"
  by (simp_all add: opt_truthy_def)

subsection \<open>String methods\<close>

text \<open>\<^verbatim>\<open>str.isspace\<close> on code points below 256.\<close>

definition py_space :: "char \<Rightarrow> bool" where
  "py_space c = (let n = (of_char c :: nat) in
     (9 \<le> n \<and> n \<le> 13) \<or> (28 \<le> n \<and> n \<le> 32) \<or> n = 133 \<or> n = 160)"

definition py_lstrip :: "string \<Rightarrow> string" where
  "py_lstrip s = dropWhile py_space s"

definition py_strip :: "string \<Rightarrow> string" where
  "py_strip s = rev (dropWhile py_space (rev (dropWhile py_space s)))"

definition lower_char :: "char \<Rightarrow> char" where
  "lower_char c = (let n = (of_char c :: nat) in
     if (65 \<le> n \<and> n \<le> 90) \<or> (192 \<le> n \<and> n \<le> 222 \<and> n \<noteq> 215) then char_of (n + 32) else c)"

definition py_lower :: "string \<Rightarrow> string" where
  "py_lower s = map lower_char s"

fun starts_with :: "'a list \<Rightarrow> 'a list \<Rightarrow> bool" where
  "starts_with [] ys = True"
| "starts_with (x # xs) [] = False"
| "starts_with (x # xs) (y # ys) = (x = y \<and> starts_with xs ys)"

text \<open>\<^verbatim>\<open>s.find(p)\<close>, with \<^const>\<open>None\<close> for \<^verbatim>\<open>-1\<close>.\<close>

fun py_find :: "'a list \<Rightarrow> 'a list \<Rightarrow> nat option" where
  "py_find p [] = (if p = [] then Some 0 else None)"
| "py_find p (x # xs) =
     (if starts_with p (x # xs) then Some 0 else map_option Suc (py_find p xs))"

text \<open>\<^verbatim>\<open>p in s\<close>.\<close>

definition py_in :: "'a list \<Rightarrow> 'a list \<Rightarrow> bool" where
  "py_in p s = (py_find p s \<noteq> None)"

text \<open>\<^verbatim>\<open>s.replace(p, r, 1)\<close>.\<close>

definition py_replace1 :: "'a list \<Rightarrow> 'a list \<Rightarrow> 'a list \<Rightarrow> 'a list" where
  "py_replace1 p r s =
     (case py_find p s of None \<Rightarrow> s | Some i \<Rightarrow> take i s @ r @ drop (i + length p) s)"

text \<open>\<^verbatim>\<open>s.replace(c, d)\<close> for single characters, and \<^verbatim>\<open>sep.join(xs)\<close>.\<close>

definition replace_char :: "char \<Rightarrow> char \<Rightarrow> string \<Rightarrow> string" where
  "replace_char c d s = map (\<lambda>x. if x = c then d else x) s"

fun py_join :: "'a list \<Rightarrow> 'a list list \<Rightarrow> 'a list" where
  "py_join sep [] = []"
| "py_join sep [x] = x"
| "py_join sep (x # y # ys) = x @ sep @ py_join sep (y # ys)"

text \<open>The line feed, as the string \<^verbatim>\<open>"\n"\<close>.\<close>

definition nl :: string where
  "nl = [CHR 0x0A]"

text \<open>The decimal form of an integer, as an f-string prints it.\<close>

fun show_nat :: "nat \<Rightarrow> string" where
  "show_nat n =
     (if n < 10 then [char_of (48 + n)] else show_nat (n div 10) @ [char_of (48 + n mod 10)])"

declare show_nat.simps [simp del]

definition show_int :: "int \<Rightarrow> string" where
  "show_int i = (if i < 0 then ''-'' @ show_nat (nat (- i)) else show_nat (nat i))"

text \<open>\<^verbatim>\<open>s.replace(c, r)\<close> for a character and a string, and \<^verbatim>\<open>s.count(c)\<close>.\<close>

definition replace_char_str :: "char \<Rightarrow> string \<Rightarrow> string \<Rightarrow> string" where
  "replace_char_str c r s = List.maps (\<lambda>x. if x = c then r else [x]) s"

text \<open>\<^verbatim>\<open>repr(s)\<close>: the quotes, and the escapes of code points below 256.\<close>

definition hex_digit :: "nat \<Rightarrow> char" where
  "hex_digit n = (if n < 10 then char_of (48 + n) else char_of (87 + n))"

definition repr_char :: "char \<Rightarrow> char \<Rightarrow> string" where
  "repr_char q c =
     (let n = (of_char c :: nat) in
        if c = q \<or> c = CHR 0x5C then [CHR 0x5C, c]
        else if n = 9 then [CHR 0x5C, CHR ''t'']
        else if n = 10 then [CHR 0x5C, CHR ''n'']
        else if n = 13 then [CHR 0x5C, CHR ''r'']
        else if n < 32 \<or> (127 \<le> n \<and> n \<le> 160) \<or> n = 173
        then [CHR 0x5C, CHR ''x'', hex_digit (n div 16), hex_digit (n mod 16)]
        else [c])"

definition py_repr :: "string \<Rightarrow> string" where
  "py_repr s =
     (let q = (if CHR 0x27 \<in> set s \<and> CHR 0x22 \<notin> set s then CHR 0x22 else CHR 0x27)
      in [q] @ List.maps (repr_char q) s @ [q])"


subsection \<open>Lemmas on strings\<close>

lemma starts_with_iff: "starts_with p s \<longleftrightarrow> (\<exists>r. s = p @ r)"
  by (induction p s rule: starts_with.induct) auto

lemma starts_with_append [simp]: "starts_with p (p @ r)"
  by (simp add: starts_with_iff)

lemma py_find_Some:
  "py_find p s = Some i \<Longrightarrow> i + length p \<le> length s \<and> take (length p) (drop i s) = p"
proof (induction s arbitrary: i)
  case Nil
  then show ?case by (auto split: if_splits)
next
  case (Cons x xs)
  show ?case
  proof (cases "starts_with p (x # xs)")
    case True
    with Cons.prems have "i = 0" by simp
    moreover from True obtain r where r: "x # xs = p @ r"
      by (auto simp: starts_with_iff)
    ultimately show ?thesis
      by (metis add_0 append_eq_conv_conj drop0 length_append le_add1)
  next
    case False
    with Cons.prems obtain j where "i = Suc j" "py_find p xs = Some j"
      by auto
    with Cons.IH show ?thesis by auto
  qed
qed

lemma py_find_split:
  "py_find p s = Some i \<Longrightarrow> s = take i s @ p @ drop (i + length p) s"
proof -
  assume "py_find p s = Some i"
  then have "take (length p) (drop i s) = p"
    by (simp add: py_find_Some)
  then show ?thesis
    by (metis append_take_drop_id drop_drop add.commute)
qed

lemma py_find_None_iff: "py_find p s = None \<longleftrightarrow> (\<nexists>a b. s = a @ p @ b)"
proof (induction s)
  case Nil
  then show ?case by auto
next
  case (Cons x xs)
  show ?case
  proof (cases "starts_with p (x # xs)")
    case True
    then obtain b where "x # xs = [] @ p @ b"
      by (auto simp: starts_with_iff)
    with True show ?thesis
      by (metis option.distinct(1) py_find.simps(2))
  next
    case False
    have "(\<exists>a b. x # xs = a @ p @ b) \<longleftrightarrow> (\<exists>a b. xs = a @ p @ b)"
    proof
      assume "\<exists>a b. x # xs = a @ p @ b"
      then obtain a b where ab: "x # xs = a @ p @ b" by blast
      with False have "a \<noteq> []"
        by (auto simp: starts_with_iff)
      with ab show "\<exists>a b. xs = a @ p @ b"
        by (metis append_Cons list.exhaust list.inject)
    next
      assume "\<exists>a b. xs = a @ p @ b"
      then show "\<exists>a b. x # xs = a @ p @ b"
        by (metis append_Cons)
    qed
    with False Cons.IH show ?thesis by simp
  qed
qed

lemma py_in_iff: "py_in p s \<longleftrightarrow> (\<exists>a b. s = a @ p @ b)"
  using py_find_None_iff [of p s] by (auto simp: py_in_def)

lemma py_in_single [simp]: "py_in [c] s \<longleftrightarrow> c \<in> set s"
  by (auto simp: py_in_iff in_set_conv_decomp)

lemma length_py_strip_le: "length (py_strip s) \<le> length s"
  by (simp add: py_strip_def) (metis length_dropWhile_le length_rev order_trans)

lemma dropWhile_id: "xs = [] \<or> \<not> P (hd xs) \<Longrightarrow> dropWhile P xs = xs"
  by (cases xs) auto

lemma hd_py_strip: "py_strip s \<noteq> [] \<Longrightarrow> \<not> py_space (hd (py_strip s))"
proof -
  let ?d = "dropWhile py_space s"
  assume ne: "py_strip s \<noteq> []"
  then have "?d \<noteq> []" by (simp add: py_strip_def del: dropWhile_eq_Nil_conv) fastforce
  obtain t where "rev ?d = t @ dropWhile py_space (rev ?d)"
    by (metis takeWhile_dropWhile_id)
  then have d: "?d = py_strip s @ rev t"
    by (metis py_strip_def rev_append rev_rev_ident)
  with ne have "hd ?d = hd (py_strip s)"
    by (metis hd_append2)
  moreover from \<open>?d \<noteq> []\<close> have "\<not> py_space (hd ?d)"
    by (rule hd_dropWhile)
  ultimately show ?thesis by simp
qed

lemma last_py_strip: "py_strip s \<noteq> [] \<Longrightarrow> \<not> py_space (last (py_strip s))"
proof -
  let ?e = "dropWhile py_space (rev (dropWhile py_space s))"
  assume "py_strip s \<noteq> []"
  then have "?e \<noteq> []" by (simp add: py_strip_def)
  then have "\<not> py_space (hd ?e)" by (rule hd_dropWhile)
  then show ?thesis by (simp add: py_strip_def last_rev)
qed

lemma py_strip_id:
  "s = [] \<or> (\<not> py_space (hd s) \<and> \<not> py_space (last s)) \<Longrightarrow> py_strip s = s"
  by (cases s rule: rev_cases) (auto simp: py_strip_def dropWhile_id hd_append split: if_splits)

lemma py_strip_idem [simp]: "py_strip (py_strip s) = py_strip s"
  by (rule py_strip_id) (use hd_py_strip last_py_strip in blast)

lemma set_py_strip: "set (py_strip s) \<subseteq> set s"
  by (metis py_strip_def set_dropWhileD set_rev subsetI)

lemma py_strip_Nil [simp]: "py_strip [] = []"
  by (simp add: py_strip_def)

lemma length_py_join_ge:
  "x \<in> set xs \<Longrightarrow> length x \<le> length (py_join sep xs)"
  by (induction sep xs rule: py_join.induct) auto

lemma set_py_join: "set (py_join sep xs) \<subseteq> set sep \<union> \<Union> (set ` set xs)"
  by (induction sep xs rule: py_join.induct) auto

subsection \<open>Lemmas on dictionaries\<close>

lemma dict_update_fresh:
  "k \<notin> fst ` set d \<Longrightarrow> AList.update k v d = d @ [(k, v)]"
  by (induction d) auto

lemma dict_update_present:
  "k \<in> fst ` set d \<Longrightarrow> map fst (AList.update k v d) = map fst d"
  by (induction d) auto

lemma set_dict_update_fst [simp]:
  "fst ` set (AList.update k v d) = insert k (fst ` set d)"
  by (induction d) auto

lemma set_dict_update_subset: "set (AList.update k v d) \<subseteq> insert (k, v) (set d)"
  by (induction d) auto

lemma distinct_dict_update:
  "distinct (map fst d) \<Longrightarrow> distinct (map fst (AList.update k v d))"
  by (rule distinct_update)

lemma map_of_dict_update [simp]:
  "map_of (AList.update k v d) k' = (if k' = k then Some v else map_of d k')"
  by (simp add: update_conv')

lemma map_of_dict_delete [simp]:
  "map_of (AList.delete k d) k' = (if k' = k then None else map_of d k')"
  by (simp add: delete_conv')

lemma fst_set_delete [simp]: "fst ` set (AList.delete k d) = fst ` set d - {k}"
  by (induction d) auto

subsection \<open>Dropping the oldest entries while a bound is exceeded\<close>

text \<open>
  The loop \<^verbatim>\<open>while over(xs) and xs: xs.pop(0)\<close>, which the program writes for each of its
  bounded buffers: the steering buffer, the first-level memory index, the working memory and
  the working-memory prompt block.
\<close>

fun pop_while :: "('a list \<Rightarrow> bool) \<Rightarrow> 'a list \<Rightarrow> 'a list" where
  "pop_while over [] = []"
| "pop_while over (x # xs) = (if over (x # xs) then pop_while over xs else x # xs)"

lemma pop_while_suffix: "suffix (pop_while over xs) xs"
  by (induction xs) (auto simp: suffix_ConsI)

lemma pop_while_stops: "pop_while over xs = [] \<or> \<not> over (pop_while over xs)"
  by (induction xs) auto

lemma set_pop_while: "set (pop_while over xs) \<subseteq> set xs"
  by (rule set_mono_suffix [OF pop_while_suffix])

lemma length_pop_while_le: "length (pop_while over xs) \<le> length xs"
  by (rule suffix_length_le [OF pop_while_suffix])

lemma pop_while_id: "\<not> over xs \<Longrightarrow> pop_while over xs = xs"
  by (cases xs) auto

lemma pop_while_dropped:
  "suffix ys xs \<Longrightarrow> length (pop_while over xs) < length ys \<Longrightarrow> over ys"
proof (induction xs)
  case Nil
  then show ?case by simp
next
  case (Cons x xs)
  show ?case
  proof (cases "over (x # xs)")
    case True
    with Cons show ?thesis
      by (auto simp: suffix_Cons)
  next
    case False
    with Cons.prems have "length ys \<le> length (x # xs)" "length (x # xs) < length ys"
      by (auto simp: suffix_def dest: arg_cong [where f = length])
    then show ?thesis by simp
  qed
qed

text \<open>
  The contract of such a buffer: the empty buffer is within the bound, and adding an older
  entry to a buffer over the bound leaves it over the bound.  Then the loop keeps the longest
  suffix that is within the bound: it drops no more than it has to.
\<close>

locale fifo_bound =
  fixes over :: "'a list \<Rightarrow> bool"
  assumes empty_within: "\<not> over []"
    and over_Cons: "over xs \<Longrightarrow> over (x # xs)"
begin

lemma within: "\<not> over (pop_while over xs)"
  using pop_while_stops [of over xs] empty_within by auto

lemma over_suffix: "suffix ys xs \<Longrightarrow> over ys \<Longrightarrow> over xs"
  by (induction xs) (auto simp: suffix_Cons intro: over_Cons)

lemma longest: "suffix ys xs \<Longrightarrow> \<not> over ys \<Longrightarrow> suffix ys (pop_while over xs)"
  using pop_while_dropped pop_while_suffix
  by (metis not_le_imp_less suffix_length_suffix)

lemma noop_iff: "pop_while over xs = xs \<longleftrightarrow> \<not> over xs"
  using within [of xs] by (auto simp: pop_while_id)

end

end
