(* ===== verification/SessionTree.thy ===== *)
theory SessionTree
  imports PyPrelude
begin

section \<open>The session tree\<close>

text \<open>
  The data model of \<^verbatim>\<open>src/pyclaw/models/session.py\<close> and \<^verbatim>\<open>models/agent.py\<close>: content blocks, the four
  kinds of session entries, the tree of entries with its insertion order and its leaf, the
  walk from a leaf to the root (\<^verbatim>\<open>get_branch\<close>) and the message list the model is shown
  (\<^verbatim>\<open>build_session_context\<close>).  The walk is a loop over parent links that nothing in the
  class bounds; it is an option-valued partial function, and it is proved to return on every
  tree whose entries name earlier entries as their parents.
\<close>

subsection \<open>Content blocks and entries\<close>

datatype content_block =
    TextBlock string
  | ImageBlock (ib_data: string) (ib_mime: string)

datatype content =
    CText string
  | CBlocks "content_block list"

datatype role = RUser | RAssistant | RTool

fun role_name :: "role \<Rightarrow> string" where
  "role_name RUser = ''user''"
| "role_name RAssistant = ''assistant''"
| "role_name RTool = ''tool''"

datatype entry_body =
    MessageEntry (me_role: role) (me_content: content) (me_tool_calls: "jobj list option")
      (me_tool_call_id: "string option") (me_partial: bool)
  | CompactionEntry (ce_summary: string) (ce_first_kept: string) (ce_tokens_before: int)
      (ce_details: "jobj option")
  | ModelChangeEntry (mc_provider: string) (mc_model_id: string)
  | CustomEntry (cu_type: string) (cu_data: "jobj option")

record session_entry =
  entry_id :: string
  parent_id :: "string option"
  timestamp :: string
  body :: entry_body

definition is_message :: "session_entry \<Rightarrow> bool" where
  "is_message e = (case body e of MessageEntry _ _ _ _ _ \<Rightarrow> True | _ \<Rightarrow> False)"

definition is_compaction :: "session_entry \<Rightarrow> bool" where
  "is_compaction e = (case body e of CompactionEntry _ _ _ _ \<Rightarrow> True | _ \<Rightarrow> False)"

record session_header =
  hdr_version :: int
  hdr_id :: string
  workspace_id :: string
  agent_id :: string
  created_at :: string
  parent_session :: "string option"
  session_key :: string
  last_interaction_at :: "string option"
  idle_minutes_override :: "int option"
  model_override :: "string option"
  title :: "string option"

text \<open>\<^verbatim>\<open>SessionHeader(...)\<close> with its defaults; the creation time is the clock's reading.\<close>

definition mk_header ::
    "string \<Rightarrow> string \<Rightarrow> string \<Rightarrow> string \<Rightarrow> string option \<Rightarrow> string \<Rightarrow> session_header" where
  "mk_header i ws ag now par skey =
     \<lparr>hdr_version = 3, hdr_id = i, workspace_id = ws, agent_id = ag, created_at = now,
      parent_session = par, session_key = skey, last_interaction_at = None,
      idle_minutes_override = None, model_override = None, title = None\<rparr>"

record session_tree =
  header :: session_header
  entries :: "(string \<times> session_entry) list"
  order :: "string list"
  leaf_id :: "string option"

definition new_tree :: "session_header \<Rightarrow> session_tree" where
  "new_tree h = \<lparr>header = h, entries = [], order = [], leaf_id = None\<rparr>"

subsection \<open>Fresh entry ids\<close>

text \<open>
  \<^verbatim>\<open>secrets.token_hex\<close> is a parameter: the stream of its four-byte readings and the one
  sixteen-byte reading.
\<close>

definition generate_entry_id ::
    "string list \<Rightarrow> nat \<Rightarrow> (nat \<Rightarrow> string) \<Rightarrow> string \<Rightarrow> string" where
  "generate_entry_id existing_ids max_attempts token4 token16 =
     (case find (\<lambda>c. c \<notin> set existing_ids) (map token4 [0..<max_attempts]) of
        Some candidate \<Rightarrow> candidate
      | None \<Rightarrow> token16)"

subsection \<open>Operations of the tree\<close>

datatype tree_error = EntryExists string

text \<open>\<^verbatim>\<open>SessionTree.append\<close> raises on an id that is taken.\<close>

definition tree_append :: "session_tree \<Rightarrow> session_entry \<Rightarrow> tree_error + (session_tree \<times> string)" where
  "tree_append t e =
     (if entry_id e \<in> fst ` set (entries t) then Inl (EntryExists (entry_id e))
      else Inr (t\<lparr>entries := AList.update (entry_id e) e (entries t),
                  order := order t @ [entry_id e],
                  leaf_id := Some (entry_id e)\<rparr>, entry_id e))"

definition get_entry :: "session_tree \<Rightarrow> string \<Rightarrow> session_entry option" where
  "get_entry t i = map_of (entries t) i"

definition get_children :: "session_tree \<Rightarrow> string option \<Rightarrow> session_entry list" where
  "get_children t p = filter (\<lambda>e. parent_id e = p) (map snd (entries t))"

definition all_entry_ids :: "session_tree \<Rightarrow> string list" where
  "all_entry_ids t = map fst (entries t)"

text \<open>
  The loop of \<^verbatim>\<open>get_branch\<close>: the path is collected from the leaf up and reversed, so the
  accumulator holds it root first.  \<^const>\<open>None\<close> is a walk that never ends.
\<close>

partial_function (option) walk_up ::
    "(string \<times> session_entry) list \<Rightarrow> string option \<Rightarrow> session_entry list \<Rightarrow> session_entry list option"
  where
  "walk_up es cur path =
     (case cur of
        None \<Rightarrow> Some path
      | Some i \<Rightarrow>
          (case map_of es i of
             None \<Rightarrow> Some path
           | Some e \<Rightarrow> walk_up es (parent_id e) (e # path)))"

text \<open>The equation of the loop, for evaluation.\<close>

lemma walk_up_code [code]:
  "walk_up es cur path =
     (case cur of
        None \<Rightarrow> Some path
      | Some i \<Rightarrow>
          (case map_of es i of
             None \<Rightarrow> Some path
           | Some e \<Rightarrow> walk_up es (parent_id e) (e # path)))"
  by (rule walk_up.simps)

definition get_branch :: "session_tree \<Rightarrow> string option \<Rightarrow> session_entry list option" where
  "get_branch t from_id =
     (let start = (if opt_truthy from_id then from_id else leaf_id t)
      in case start of None \<Rightarrow> Some [] | Some _ \<Rightarrow> walk_up (entries t) start [])"

subsection \<open>The messages shown to the model\<close>

definition content_blocks_to_llm :: "content_block list \<Rightarrow> json list" where
  "content_blocks_to_llm blocks =
     List.maps (\<lambda>b. case b of
         ImageBlock d m \<Rightarrow>
           [JObj [(''type'', JStr ''image_url''),
                  (''image_url'', JObj [(''url'', JStr (''data:'' @ m @ '';base64,'' @ d))])]]
       | TextBlock tx \<Rightarrow>
           (if tx = [] \<or> py_strip tx = [] then []
            else [JObj [(''type'', JStr ''text''), (''text'', JStr tx)]])) blocks"

text \<open>\<^verbatim>\<open>_message_entry_to_dict\<close>; it is only called on message entries.\<close>

fun message_entry_to_dict :: "entry_body \<Rightarrow> jobj" where
  "message_entry_to_dict (MessageEntry r c tcs tcid p) =
     (let content =
        (case c of
           CText s \<Rightarrow>
             (if r = RTool then JList [JObj [(''type'', JStr ''text''), (''text'', JStr s)]]
              else JStr s)
         | CBlocks bs \<Rightarrow> JList (content_blocks_to_llm bs))
      in [(''role'', JStr (role_name r)), (''content'', content)]
         @ (if opt_truthy tcs then [(''tool_calls'', JList (map JObj (the tcs)))] else [])
         @ (if opt_truthy tcid then [(''tool_call_id'', JStr (the tcid))] else []))"
| "message_entry_to_dict _ = []"

definition entries_to_messages :: "session_entry list \<Rightarrow> jobj list" where
  "entries_to_messages es = map (\<lambda>e. message_entry_to_dict (body e)) (filter is_message es)"

text \<open>The index of the last compaction entry of the branch, and of the first entry with an id.\<close>

fun last_compaction :: "session_entry list \<Rightarrow> nat option" where
  "last_compaction [] = None"
| "last_compaction (e # es) =
     (case last_compaction es of
        Some i \<Rightarrow> Some (Suc i)
      | None \<Rightarrow> if is_compaction e then Some 0 else None)"

fun index_of_id :: "string \<Rightarrow> session_entry list \<Rightarrow> nat option" where
  "index_of_id i [] = None"
| "index_of_id i (e # es) =
     (if entry_id e = i then Some 0 else map_option Suc (index_of_id i es))"

definition summary_message :: "string \<Rightarrow> jobj" where
  "summary_message s =
     [(''role'', JStr ''assistant''),
      (''content'', JStr (''[Previous conversation summary]'' @ nl @ s))]"

definition context_of_branch :: "session_entry list \<Rightarrow> jobj list" where
  "context_of_branch branch =
     (case last_compaction branch of
        Some ci \<Rightarrow>
          (let compaction = branch ! ci;
               start = (case index_of_id (ce_first_kept (body compaction)) branch of
                          Some k \<Rightarrow> k | None \<Rightarrow> Suc ci)
           in summary_message (ce_summary (body compaction))
              # entries_to_messages
                  (filter (\<lambda>e. entry_id e \<noteq> entry_id compaction) (drop start branch)))
      | None \<Rightarrow> entries_to_messages branch)"

definition build_session_context :: "session_tree \<Rightarrow> jobj list option" where
  "build_session_context t = map_option context_of_branch (get_branch t None)"

subsection \<open>The text of a content value\<close>

definition image_placeholder :: string where
  "image_placeholder = ''[??]''"

text \<open>
  \<^verbatim>\<open>extract_text_from_content\<close> on the wire format (strings and lists of dictionaries) and
  on the stored format (strings and lists of blocks).
\<close>

definition wire_block_text :: "json \<Rightarrow> string list" where
  "wire_block_text b =
     (case b of
        JObj d \<Rightarrow>
          (if jget ''type'' d = JStr ''text'' then
             (case jget ''text'' d of JStr s \<Rightarrow> [s] | _ \<Rightarrow> [])
           else if jget ''type'' d \<in> {JStr ''image'', JStr ''image_url''} then [image_placeholder]
           else [])
      | _ \<Rightarrow> [])"

definition extract_text_wire :: "json \<Rightarrow> string" where
  "extract_text_wire c =
     (case c of
        JStr s \<Rightarrow> s
      | JList bs \<Rightarrow> py_join nl (List.maps wire_block_text bs)
      | _ \<Rightarrow> [])"

definition block_text :: "content_block \<Rightarrow> string" where
  "block_text b = (case b of TextBlock s \<Rightarrow> s | ImageBlock _ _ \<Rightarrow> image_placeholder)"

definition extract_text :: "content \<Rightarrow> string" where
  "extract_text c = (case c of CText s \<Rightarrow> s | CBlocks bs \<Rightarrow> py_join nl (map block_text bs))"

subsection \<open>Well-formed trees\<close>

text \<open>
  Every entry is stored under its own id, ids are distinct, and a parent is an earlier entry.
\<close>

fun links_ok :: "string set \<Rightarrow> (string \<times> session_entry) list \<Rightarrow> bool" where
  "links_ok seen [] = True"
| "links_ok seen ((i, e) # es) =
     (entry_id e = i \<and> i \<notin> seen
      \<and> (case parent_id e of None \<Rightarrow> True | Some p \<Rightarrow> p \<in> seen)
      \<and> links_ok (insert i seen) es)"

definition tree_ok :: "session_tree \<Rightarrow> bool" where
  "tree_ok t \<longleftrightarrow>
     links_ok {} (entries t) \<and> order t = map fst (entries t)
     \<and> (case leaf_id t of None \<Rightarrow> entries t = [] | Some l \<Rightarrow> l \<in> fst ` set (entries t))"

text \<open>A path from a starting id up to the root, leaf first: what the walk has to collect.\<close>

fun chain_up ::
    "(string \<times> session_entry) list \<Rightarrow> string option \<Rightarrow> session_entry list \<Rightarrow> bool" where
  "chain_up es cur [] = (case cur of None \<Rightarrow> True | Some i \<Rightarrow> map_of es i = None)"
| "chain_up es cur (e # p) =
     (case cur of None \<Rightarrow> False | Some i \<Rightarrow> map_of es i = Some e \<and> chain_up es (parent_id e) p)"

lemma links_ok_append:
  "links_ok seen (xs @ ys) \<longleftrightarrow> links_ok seen xs \<and> links_ok (seen \<union> fst ` set xs) ys"
  by (induction seen xs rule: links_ok.induct) (auto simp: insert_commute)

lemma links_ok_fresh: "links_ok seen es \<Longrightarrow> seen \<inter> fst ` set es = {}"
  by (induction seen es rule: links_ok.induct) auto

lemma links_ok_distinct: "links_ok seen es \<Longrightarrow> distinct (map fst es)"
  by (induction seen es rule: links_ok.induct) (auto dest!: links_ok_fresh)

lemma links_ok_id: "links_ok seen es \<Longrightarrow> map_of es i = Some e \<Longrightarrow> entry_id e = i"
  by (induction seen es rule: links_ok.induct) (auto split: if_splits)

lemma links_ok_parent:
  "links_ok seen es \<Longrightarrow> map_of es i = Some e \<Longrightarrow> parent_id e = Some p \<Longrightarrow>
   p \<in> seen \<union> fst ` set es"
  by (induction seen es rule: links_ok.induct) (auto split: if_splits)

lemma new_tree_ok: "tree_ok (new_tree h)"
  by (simp add: tree_ok_def new_tree_def)

lemma chain_up_unique: "chain_up es cur p \<Longrightarrow> chain_up es cur q \<Longrightarrow> p = q"
proof (induction es cur p arbitrary: q rule: chain_up.induct)
  case (1 es cur)
  then show ?case by (cases q) (auto split: option.splits)
next
  case (2 es cur e p)
  then show ?case by (cases q) (auto split: option.splits)
qed

text \<open>The walk returns the path, for every start, on a well-formed set of entries.\<close>

lemma walk_up_chain:
  assumes "links_ok {} es" and "es = pre @ suf"
    and "cur = None \<or> the cur \<in> fst ` set pre \<or> the cur \<notin> fst ` set es"
  shows "\<exists>p. walk_up es cur acc = Some (rev p @ acc) \<and> chain_up es cur p
             \<and> length p \<le> length pre \<and> set (map entry_id p) \<subseteq> fst ` set pre
             \<and> distinct (map entry_id p)"
  using assms(2,3)
proof (induction pre arbitrary: suf cur acc rule: rev_induct)
  case Nil
  then have "cur = None \<or> map_of es (the cur) = None"
    by (auto simp: map_of_eq_None_iff)
  then have "walk_up es cur acc = Some acc" "chain_up es cur []"
    by (auto simp: walk_up.simps [of es cur acc] split: option.splits)
  then show ?case
    by (intro exI [of _ "[]"]) simp
next
  case (snoc x pre)
  show ?case
  proof (cases "cur = Some (fst x)")
    case False
    have "es = pre @ (x # suf)" using snoc.prems(1) by simp
    moreover have "cur = None \<or> the cur \<in> fst ` set pre \<or> the cur \<notin> fst ` set es"
      using snoc.prems(2) False by (cases cur) auto
    ultimately obtain p where "walk_up es cur acc = Some (rev p @ acc)" "chain_up es cur p"
      "length p \<le> length pre" "set (map entry_id p) \<subseteq> fst ` set pre" "distinct (map entry_id p)"
      using snoc.IH by blast
    then show ?thesis by (intro exI [of _ p]) auto
  next
    case True
    obtain i e where x: "x = (i, e)" by (cases x)
    have links: "links_ok {} (pre @ (i, e) # suf)"
      using assms(1) snoc.prems(1) x by simp
    then have e: "entry_id e = i" "i \<notin> fst ` set pre"
      "case parent_id e of None \<Rightarrow> True | Some p \<Rightarrow> p \<in> fst ` set pre"
      by (auto simp: links_ok_append)
    then have look: "map_of es i = Some e"
      using snoc.prems(1) x by (simp add: map_add_def map_of_eq_None_iff [THEN iffD2])
    have "es = pre @ (x # suf)" using snoc.prems(1) by simp
    moreover have "parent_id e = None \<or> the (parent_id e) \<in> fst ` set pre
        \<or> the (parent_id e) \<notin> fst ` set es"
      using e(3) by (auto split: option.splits)
    ultimately obtain p where p: "walk_up es (parent_id e) (e # acc) = Some (rev p @ e # acc)"
      "chain_up es (parent_id e) p" "length p \<le> length pre"
      "set (map entry_id p) \<subseteq> fst ` set pre" "distinct (map entry_id p)"
      using snoc.IH [of "x # suf" "parent_id e" "e # acc"] by blast
    have "walk_up es cur acc = Some (rev (e # p) @ acc)"
      using True x look p(1) by (simp add: walk_up.simps [of es "Some i" acc])
    moreover have "chain_up es cur (e # p)"
      using True x look p(2) by simp
    ultimately show ?thesis
      using p e x by (intro exI [of _ "e # p"]) auto
  qed
qed

lemma get_branch_chain:
  assumes "tree_ok t"
  shows "\<exists>p. get_branch t None = Some (rev p) \<and> chain_up (entries t) (leaf_id t) p
             \<and> length p \<le> length (entries t) \<and> distinct (map entry_id p)"
proof (cases "leaf_id t")
  case None
  then show ?thesis
    by (intro exI [of _ "[]"]) (simp add: get_branch_def)
next
  case (Some l)
  have "links_ok {} (entries t)" "l \<in> fst ` set (entries t)"
    using assms Some by (auto simp: tree_ok_def)
  with walk_up_chain [of "entries t" "entries t" "[]" "leaf_id t" "[]"] Some
  show ?thesis by (auto simp: get_branch_def)
qed

lemma get_branch_rev_chain:
  "tree_ok t \<Longrightarrow> chain_up (entries t) (leaf_id t) p \<Longrightarrow> get_branch t None = Some (rev p)"
  using get_branch_chain chain_up_unique by metis

lemma chain_up_extend:
  assumes "links_ok {} es" "i \<notin> fst ` set es"
    and "chain_up es cur p" "cur \<noteq> Some i"
  shows "chain_up (es @ [(i, e)]) cur p"
  using assms(3,4)
proof (induction p arbitrary: cur)
  case Nil
  then show ?case by (auto simp: map_add_def split: option.splits)
next
  case (Cons f p)
  then obtain j where j: "cur = Some j" "map_of es j = Some f" "chain_up es (parent_id f) p"
    by (auto split: option.splits)
  have "parent_id f \<noteq> Some i"
    using links_ok_parent [OF assms(1) j(2)] assms(2) by auto
  with Cons.IH j(3) have "chain_up (es @ [(i, e)]) (parent_id f) p" by blast
  with j Cons.prems(2) show ?case by (simp add: map_add_def)
qed

lemma tree_append_Inr:
  "tree_append t e = Inr (t', i) \<longleftrightarrow>
     entry_id e \<notin> fst ` set (entries t) \<and> i = entry_id e
     \<and> t' = t\<lparr>entries := entries t @ [(entry_id e, e)], order := order t @ [entry_id e],
             leaf_id := Some (entry_id e)\<rparr>"
  by (auto simp: tree_append_def dict_update_fresh)

lemma tree_append_ok:
  assumes "tree_ok t" and "tree_append t e = Inr (t', i)"
    and "case parent_id e of None \<Rightarrow> True | Some p \<Rightarrow> p \<in> fst ` set (entries t)"
  shows "tree_ok t'"
  using assms by (auto simp: tree_ok_def tree_append_Inr links_ok_append)

lemma leaf_parent_ok:
  "tree_ok t \<Longrightarrow> parent_id e = leaf_id t \<Longrightarrow>
   case parent_id e of None \<Rightarrow> True | Some p \<Rightarrow> p \<in> fst ` set (entries t)"
  by (auto simp: tree_ok_def split: option.splits)

lemma tree_append_branch:
  assumes ok: "tree_ok t" and app: "tree_append t e = Inr (t', i)" and par: "parent_id e = leaf_id t"
  shows "\<exists>b. get_branch t None = Some b \<and> get_branch t' None = Some (b @ [e])
             \<and> set (map entry_id b) \<subseteq> fst ` set (entries t)"
proof -
  have links: "links_ok {} (entries t)" using ok by (simp add: tree_ok_def)
  from get_branch_chain [OF ok] obtain p where p: "get_branch t None = Some (rev p)"
    "chain_up (entries t) (leaf_id t) p" by blast
  have fresh: "entry_id e \<notin> fst ` set (entries t)" using app by (simp add: tree_append_Inr)
  have "leaf_id t \<noteq> Some (entry_id e)"
    using ok fresh by (cases "leaf_id t") (auto simp: tree_ok_def image_iff)
  with links fresh p(2) have "chain_up (entries t') (leaf_id t) p"
    using app by (simp add: tree_append_Inr chain_up_extend)
  then have "chain_up (entries t') (leaf_id t') (e # p)"
    using app par fresh by (simp add: tree_append_Inr map_add_def map_of_eq_None_iff [THEN iffD2])
  moreover have "tree_ok t'"
    using tree_append_ok [OF ok app] leaf_parent_ok [OF ok par] by blast
  ultimately have b': "get_branch t' None = Some (rev (e # p))"
    by (blast intro: get_branch_rev_chain)
  have sub: "set (map entry_id q) \<subseteq> fst ` set (entries t)" if "chain_up (entries t) c q" for c q
    using that
  proof (induction q arbitrary: c)
    case (Cons f q)
    then obtain j where "map_of (entries t) j = Some f" "chain_up (entries t) (parent_id f) q"
      by (auto split: option.splits)
    moreover from this(1) have "entry_id f = j" "j \<in> fst ` set (entries t)"
      using links_ok_id [OF links] by (auto dest!: map_of_SomeD intro: rev_image_eqI)
    ultimately show ?case using Cons.IH by auto
  qed simp
  from p b' sub [OF p(2)] show ?thesis by auto
qed

lemma chain_up_subset: "chain_up es c q \<Longrightarrow> set q \<subseteq> snd ` set es"
proof (induction q arbitrary: c)
  case (Cons f q)
  then obtain j where "map_of es j = Some f" "chain_up es (parent_id f) q"
    by (auto split: option.splits)
  moreover from this(1) have "f \<in> snd ` set es"
    by (metis map_of_SomeD image_eqI snd_conv)
  ultimately show ?case using Cons.IH by auto
qed simp

lemma branch_subset:
  "tree_ok t \<Longrightarrow> get_branch t None = Some b \<Longrightarrow> set b \<subseteq> snd ` set (entries t)"
  by (metis get_branch_chain chain_up_subset option.inject set_rev)

lemma last_compaction_snoc:
  "last_compaction (b @ [e]) =
     (if is_compaction e then Some (length b) else last_compaction b)"
  by (induction b) (auto split: option.splits)

lemma last_compaction_bound: "last_compaction b = Some i \<Longrightarrow> i < length b \<and> is_compaction (b ! i)"
  by (induction b arbitrary: i) (auto split: option.splits if_splits)

lemma index_of_id_append:
  "index_of_id i (xs @ ys) =
     (case index_of_id i xs of Some k \<Rightarrow> Some k
      | None \<Rightarrow> map_option (\<lambda>k. length xs + k) (index_of_id i ys))"
proof (induction xs)
  case Nil
  then show ?case by (cases "index_of_id i ys") auto
next
  case (Cons x xs)
  then show ?case by (cases "index_of_id i ys") (auto split: option.splits)
qed

lemma index_of_id_Some: "index_of_id i b = Some k \<Longrightarrow> k < length b \<and> entry_id (b ! k) = i"
  by (induction b arbitrary: k) (auto split: if_splits)

lemma index_of_id_None: "index_of_id i b = None \<longleftrightarrow> i \<notin> entry_id ` set b"
  by (induction b) auto

lemma entries_to_messages_append [simp]:
  "entries_to_messages (xs @ ys) = entries_to_messages xs @ entries_to_messages ys"
  by (simp add: entries_to_messages_def)

lemma entries_to_messages_Cons [simp]:
  "entries_to_messages (x # xs) =
     (if is_message x then message_entry_to_dict (body x) # entries_to_messages xs
      else entries_to_messages xs)"
  by (simp add: entries_to_messages_def)

lemma entries_to_messages_Nil [simp]: "entries_to_messages [] = []"
  by (simp add: entries_to_messages_def)

lemma is_message_not_compaction: "is_message e \<Longrightarrow> \<not> is_compaction e"
  by (auto simp: is_message_def is_compaction_def split: entry_body.splits)

lemma context_of_branch_snoc_message:
  assumes msg: "is_message e" and fresh: "entry_id e \<notin> entry_id ` set b"
    and kept: "\<forall>c \<in> set b. is_compaction c \<longrightarrow> ce_first_kept (body c) \<noteq> entry_id e"
  shows "context_of_branch (b @ [e]) = context_of_branch b @ [message_entry_to_dict (body e)]"
proof (cases "last_compaction b")
  case None
  with msg is_message_not_compaction [OF msg] show ?thesis
    by (simp add: context_of_branch_def last_compaction_snoc)
next
  case (Some ci)
  then have ci: "ci < length b" "is_compaction (b ! ci)" by (auto dest: last_compaction_bound)
  let ?c = "b ! ci"
  have "ce_first_kept (body ?c) \<noteq> entry_id e" using kept ci by auto
  then have idx: "index_of_id (ce_first_kept (body ?c)) (b @ [e]) = index_of_id (ce_first_kept (body ?c)) b"
    by (simp add: index_of_id_append split: option.splits)
  have "entry_id ?c \<noteq> entry_id e" using fresh ci(1) by (metis image_eqI nth_mem)
  moreover have "(case index_of_id (ce_first_kept (body ?c)) b of Some k \<Rightarrow> k | None \<Rightarrow> Suc ci)
      \<le> length b"
    using ci(1) by (auto dest!: index_of_id_Some split: option.splits)
  ultimately show ?thesis
    using Some ci msg is_message_not_compaction [OF msg] idx
    by (simp add: context_of_branch_def last_compaction_snoc nth_append Let_def)
qed

lemma generate_entry_id_fresh:
  assumes "k < max_attempts" "token4 k \<notin> set ids"
  shows "generate_entry_id ids max_attempts token4 token16 \<notin> set ids"
proof -
  have "token4 k \<in> set (map token4 [0..<max_attempts])" using assms(1) by simp
  with assms(2) have "find (\<lambda>c. c \<notin> set ids) (map token4 [0..<max_attempts]) \<noteq> None"
    unfolding find_None_iff by blast
  then obtain c where "find (\<lambda>c. c \<notin> set ids) (map token4 [0..<max_attempts]) = Some c"
    by blast
  moreover from this have "c \<notin> set ids" unfolding find_Some_iff by blast
  ultimately show ?thesis by (simp add: generate_entry_id_def)
qed

subsection \<open>Properties\<close>

text \<open>
  Property C13.  On a well-formed tree the walk of \<^verbatim>\<open>get_branch\<close> ends, and it returns, root
  first, exactly the chain of parents from the leaf: the first element collected is the leaf,
  each next one is the parent of the one before, the last has no stored parent, and no entry
  occurs twice.
\<close>

theorem get_branch_total:
  assumes "tree_ok t"
  shows "\<exists>p. get_branch t None = Some (rev p) \<and> chain_up (entries t) (leaf_id t) p
             \<and> distinct (map entry_id p) \<and> length p \<le> length (entries t)"
  using get_branch_chain [OF assms] by blast

definition demo_header :: session_header where
  "demo_header = mk_header ''s'' ''w'' ''a'' ''t0'' None ''k''"

definition demo_message :: "string \<Rightarrow> string option \<Rightarrow> role \<Rightarrow> string \<Rightarrow> session_entry" where
  "demo_message i p r tx =
     \<lparr>entry_id = i, parent_id = p, timestamp = ''t'',
      body = MessageEntry r (CText tx) None None False\<rparr>"

definition demo_tree :: session_tree where
  "demo_tree = \<lparr>header = demo_header,
     entries = [(''e1'', demo_message ''e1'' None RUser ''hi''),
                (''e2'', demo_message ''e2'' (Some ''e1'') RAssistant ''ho'')],
     order = [''e1'', ''e2''], leaf_id = Some ''e2''\<rparr>"

lemma demo_tree_ok: "tree_ok demo_tree"
  by (simp add: tree_ok_def demo_tree_def demo_message_def)

theorem get_branch_total_witness:
  "\<exists>p. get_branch demo_tree None = Some (rev p)
       \<and> chain_up (entries demo_tree) (leaf_id demo_tree) p
       \<and> distinct (map entry_id p) \<and> length p \<le> length (entries demo_tree)"
  using get_branch_total [OF demo_tree_ok] by blast

text \<open>
  Appending an entry under the leaf, with an id the tree does not hold, keeps
  the tree well-formed and extends the branch by exactly that entry; a message entry extends
  the conversation the model is shown by exactly its message, also after a compaction (whose
  cut must not name the new id).
\<close>

theorem append_message_extends_context:
  assumes "tree_ok t" and "tree_append t e = Inr (t', i)" and "parent_id e = leaf_id t"
    and "is_message e"
    and "\<forall>c \<in> snd ` set (entries t). is_compaction c \<longrightarrow> ce_first_kept (body c) \<noteq> entry_id e"
  shows "tree_ok t' \<and> (\<exists>m. build_session_context t = Some m
           \<and> build_session_context t' = Some (m @ [message_entry_to_dict (body e)]))"
proof -
  from tree_append_branch [OF assms(1-3)] obtain b where b: "get_branch t None = Some b"
    "get_branch t' None = Some (b @ [e])" "set (map entry_id b) \<subseteq> fst ` set (entries t)" by blast
  have "entry_id e \<notin> entry_id ` set b"
    using b(3) assms(2) by (auto simp: tree_append_Inr)
  moreover have "\<forall>c \<in> set b. is_compaction c \<longrightarrow> ce_first_kept (body c) \<noteq> entry_id e"
    using assms(5) branch_subset [OF assms(1) b(1)] by blast
  ultimately have "context_of_branch (b @ [e]) = context_of_branch b @ [message_entry_to_dict (body e)]"
    using assms(4) by (intro context_of_branch_snoc_message)
  with b tree_append_ok [OF assms(1,2) leaf_parent_ok [OF assms(1,3)]] show ?thesis
    by (simp add: build_session_context_def)
qed

theorem append_message_extends_context_witness:
  "\<exists>t' m. tree_append demo_tree (demo_message ''e3'' (Some ''e2'') RUser ''q'') = Inr (t', ''e3'')
     \<and> tree_ok t' \<and> build_session_context demo_tree = Some m
     \<and> build_session_context t' =
         Some (m @ [[(''role'', JStr ''user''), (''content'', JStr ''q'')]])"
proof -
  let ?e = "demo_message ''e3'' (Some ''e2'') RUser ''q''"
  obtain t' where t': "tree_append demo_tree ?e = Inr (t', ''e3'')"
    by (simp add: tree_append_def demo_tree_def demo_message_def)
  show ?thesis
    using append_message_extends_context [OF demo_tree_ok t'] t'
    by (auto simp: demo_tree_def demo_message_def is_message_def is_compaction_def)
qed

end
