(* ===== verification/Compaction.thy ===== *)
theory Compaction
  imports SessionTree
begin

section \<open>Compaction of the conversation\<close>

text \<open>
  \<^verbatim>\<open>src/pyclaw/core/agent/compaction/\<close>: token estimates, the choice of the cut point and the
  plan (\<^verbatim>\<open>planning.py\<close>), the removal of repeated user messages (\<^verbatim>\<open>dedup.py\<close>), the filters and
  the staged summary (\<^verbatim>\<open>hardening.py\<close>) and the classification of reasons (\<^verbatim>\<open>reasons.py\<close>);
  \<^verbatim>\<open>DefaultContextEngine.compact\<close> of \<^verbatim>\<open>core/context_engine.py\<close> composes them.  Messages are
  dictionaries of JSON values, as in the code.  The summarizer is the language model's client: a
  parameter.  The losing of the race against the timeout and the abort event is a parameter too.
\<close>

subsection \<open>Token estimates\<close>

definition estimate_tokens :: "string \<Rightarrow> int" where
  "estimate_tokens text' = (if text' = [] then 0 else max 1 (int (length text') div 4))"

definition IMAGE_TOKEN_ESTIMATE :: int where
  "IMAGE_TOKEN_ESTIMATE = 1600"

definition block_tokens :: "json \<Rightarrow> int" where
  "block_tokens b =
     (case b of
        JObj d \<Rightarrow>
          (if jget ''type'' d \<in> {JStr ''image_url'', JStr ''image''} then IMAGE_TOKEN_ESTIMATE
           else (case jget ''text'' d of JStr s \<Rightarrow> estimate_tokens s | _ \<Rightarrow> 0))
      | _ \<Rightarrow> 0)"

text \<open>
  The tokens of one tool call.  The text of a dictionary of arguments (\<^verbatim>\<open>str(args)\<close>) is the
  parameter \<open>show_obj\<close>.
\<close>

definition call_tokens :: "(jobj \<Rightarrow> string) \<Rightarrow> json \<Rightarrow> int" where
  "call_tokens show_obj c =
     (let fn = as_obj (jget ''function'' (as_obj c));
          name = as_str (jget ''name'' fn)
      in case jget ''arguments'' fn of
           JStr s \<Rightarrow> estimate_tokens name + estimate_tokens s
         | JObj d \<Rightarrow> estimate_tokens name + estimate_tokens (show_obj d)
         | _ \<Rightarrow> 0)"

definition estimate_message_tokens :: "(jobj \<Rightarrow> string) \<Rightarrow> jobj \<Rightarrow> int" where
  "estimate_message_tokens show_obj msg =
     8 + (case jget ''content'' msg of
            JStr s \<Rightarrow> estimate_tokens s
          | JList bs \<Rightarrow> (\<Sum>b\<leftarrow>bs. block_tokens b)
          | _ \<Rightarrow> 0)
       + (\<Sum>c\<leftarrow>as_list (jget ''tool_calls'' msg). call_tokens show_obj c)"

definition tokens_of :: "('m \<Rightarrow> int) \<Rightarrow> 'm list \<Rightarrow> int" where
  "tokens_of est messages = (\<Sum>m\<leftarrow>messages. est m)"

subsection \<open>The cut point and the plan\<close>

text \<open>
  The routines below use the estimate only through its value, so they take it as an
  argument.  The backwards loop \<^verbatim>\<open>for i in range(len(messages) - 1, -1, -1)\<close> runs with \<open>i + 1\<close>
  as its counter.
\<close>

fun cut_scan :: "('m \<Rightarrow> int) \<Rightarrow> 'm list \<Rightarrow> int \<Rightarrow> nat \<Rightarrow> int \<Rightarrow> nat option" where
  "cut_scan est messages keep 0 acc = None"
| "cut_scan est messages keep (Suc i) acc =
     (let acc' = acc + est (messages ! i)
      in if acc' \<ge> keep then Some i else cut_scan est messages keep i acc')"

definition msg_role :: "jobj \<Rightarrow> json" where
  "msg_role m = jget ''role'' m"

definition is_tool_msg :: "jobj \<Rightarrow> bool" where
  "is_tool_msg m = (msg_role m = JStr ''tool'')"

text \<open>The two loops of \<^verbatim>\<open>_adjust_for_tool_boundaries\<close>.\<close>

fun back_over_tools :: "jobj list \<Rightarrow> nat \<Rightarrow> nat" where
  "back_over_tools messages 0 = 0"
| "back_over_tools messages (Suc i) =
     (if is_tool_msg (messages ! Suc i) then back_over_tools messages i else Suc i)"

fun back_second :: "jobj list \<Rightarrow> nat \<Rightarrow> nat" where
  "back_second messages 0 = 0"
| "back_second messages (Suc i) =
     (if msg_role (messages ! i) = JStr ''assistant'' \<and> truthy (jget ''tool_calls'' (messages ! i))
      then Suc i
      else if Suc i \<ge> length messages then Suc i
      else if is_tool_msg (messages ! Suc i) then back_second messages i
      else Suc i)"

definition adjust_for_tool_boundaries :: "jobj list \<Rightarrow> nat \<Rightarrow> nat" where
  "adjust_for_tool_boundaries messages cut_index =
     back_second messages (back_over_tools messages cut_index)"

definition find_cut_point :: "(jobj \<Rightarrow> int) \<Rightarrow> jobj list \<Rightarrow> int \<Rightarrow> nat option" where
  "find_cut_point est messages keep =
     (if length messages \<le> 1 then None
      else case cut_scan est messages keep (length messages) 0 of
             None \<Rightarrow> None
           | Some c \<Rightarrow>
               if c = 0 then None
               else (let c' = adjust_for_tool_boundaries messages c
                     in if c' > 0 then Some c' else None))"

record compaction_plan =
  plan_should_compact :: bool
  plan_estimated :: int
  plan_cut :: "nat option"
  plan_kept :: int
  plan_reason :: "string option"

text \<open>\<^verbatim>\<open>int(context_window * threshold)\<close> truncates towards zero.\<close>

definition token_budget_of :: "int \<Rightarrow> rat \<Rightarrow> int" where
  "token_budget_of context_window threshold =
     (let q = of_int context_window * threshold in if q \<ge> 0 then \<lfloor>q\<rfloor> else \<lceil>q\<rceil>)"

definition should_compact :: "(jobj \<Rightarrow> int) \<Rightarrow> jobj list \<Rightarrow> int \<Rightarrow> rat \<Rightarrow> bool" where
  "should_compact est messages context_window threshold =
     (tokens_of est messages > token_budget_of context_window threshold)"

definition plan_compaction ::
    "(jobj \<Rightarrow> int) \<Rightarrow> jobj list \<Rightarrow> int \<Rightarrow> rat \<Rightarrow> int \<Rightarrow> compaction_plan" where
  "plan_compaction est messages context_window threshold keep =
     (let estimated = tokens_of est messages
      in if estimated \<le> token_budget_of context_window threshold
         then \<lparr>plan_should_compact = False, plan_estimated = estimated, plan_cut = None,
               plan_kept = 0, plan_reason = Some ''within-budget''\<rparr>
         else case find_cut_point est messages keep of
                None \<Rightarrow> \<lparr>plan_should_compact = False, plan_estimated = estimated, plan_cut = None,
                         plan_kept = 0, plan_reason = Some ''no-safe-cut-point''\<rparr>
              | Some c \<Rightarrow>
                  \<lparr>plan_should_compact = True, plan_estimated = estimated, plan_cut = Some c,
                   plan_kept = tokens_of est (drop c messages), plan_reason = None\<rparr>)"

subsection \<open>The summarizer's payload\<close>

definition SUMMARIZER_SYSTEM_PROMPT :: string where
  "SUMMARIZER_SYSTEM_PROMPT =
     ''You are a compaction summarizer. Given a conversation excerpt, produce a concise summary ''
     @ ''that preserves key decisions, facts the user revealed, files touched, and outstanding tasks. ''
     @ ''Omit small talk. Return plain text, no headings.''"

text \<open>An f-string prints a string as it is; any other value by the parameter \<open>show_json\<close>.\<close>

definition fmt :: "(json \<Rightarrow> string) \<Rightarrow> json \<Rightarrow> string" where
  "fmt show_json j = (case j of JStr s \<Rightarrow> s | _ \<Rightarrow> show_json j)"

definition transcript_lines :: "(json \<Rightarrow> string) \<Rightarrow> jobj \<Rightarrow> string list" where
  "transcript_lines show_json m =
     (let role = fmt show_json (jget_or (JStr ''user'') ''role'' m)
      in (case jget ''content'' m of
            JStr s \<Rightarrow> (if py_strip s \<noteq> [] then [role @ '': '' @ s] else [])
          | JList bs \<Rightarrow>
              List.maps (\<lambda>b. if is_jobj b \<and> jget ''type'' (as_obj b) = JStr ''text''
                then [role @ '': '' @ fmt show_json (jget_or (JStr []) ''text'' (as_obj b))] else []) bs
          | _ \<Rightarrow> [])
         @ map (\<lambda>c. let fn = as_obj (jget ''function'' (as_obj c))
              in role @ ''[tool_call]: '' @ fmt show_json (jget_or (JStr ''?'') ''name'' fn)
                 @ ''('' @ fmt show_json (jget_or (JStr []) ''arguments'' fn) @ '')'')
             (as_list (jget ''tool_calls'' m)))"

definition build_summarizer_payload :: "(json \<Rightarrow> string) \<Rightarrow> jobj list \<Rightarrow> jobj list" where
  "build_summarizer_payload show_json messages =
     (let ls = List.maps (transcript_lines show_json) messages;
          transcript = (if ls \<noteq> [] then py_join nl ls else ''(empty)'')
      in [[(''role'', JStr ''system''), (''content'', JStr SUMMARIZER_SYSTEM_PROMPT)],
          [(''role'', JStr ''user''),
           (''content'', JStr
             (''Summarize the following conversation so the assistant can continue without losing context:''
              @ nl @ nl @ transcript))]])"

subsection \<open>Repeated user messages\<close>

text \<open>
  \<^verbatim>\<open>normalize_for_dedup\<close>: on code points below 256 the normal form NFC is the identity.
\<close>

fun collapse_ws :: "bool \<Rightarrow> string \<Rightarrow> string" where
  "collapse_ws in_ws [] = []"
| "collapse_ws in_ws (c # cs) =
     (if py_space c then (if in_ws then collapse_ws True cs else CHR '' '' # collapse_ws True cs)
      else c # collapse_ws False cs)"

definition normalize_for_dedup :: "string \<Rightarrow> string" where
  "normalize_for_dedup tx = py_lower (py_strip (collapse_ws False tx))"

text \<open>\<^verbatim>\<open>_parse_timestamp\<close>; \<open>iso_time\<close> is \<^verbatim>\<open>datetime.fromisoformat(...).timestamp()\<close>.\<close>

definition parse_timestamp :: "(string \<Rightarrow> rat option) \<Rightarrow> json \<Rightarrow> rat option" where
  "parse_timestamp iso_time v =
     (case v of
        JInt i \<Rightarrow> Some (of_int i)
      | JBool b \<Rightarrow> Some (if b then 1 else 0)
      | JFloat q \<Rightarrow> Some q
      | JStr s \<Rightarrow> iso_time s
      | _ \<Rightarrow> None)"

text \<open>
  The loop of \<^verbatim>\<open>dedupe_duplicate_user_messages\<close>.  The dictionary \<open>last_seen\<close> maps a normalized text
  to the time it was last kept, \<^const>\<open>None\<close> standing for \<^verbatim>\<open>float("-inf")\<close>.
\<close>

definition is_dup :: "rat \<Rightarrow> rat option \<Rightarrow> rat option option \<Rightarrow> bool" where
  "is_dup window ts previous =
     (case previous of
        None \<Rightarrow> False
      | Some prev \<Rightarrow>
          (case ts of
             None \<Rightarrow> True
           | Some x \<Rightarrow> window \<le> 0 \<or> (case prev of None \<Rightarrow> False | Some y \<Rightarrow> x - y \<le> window)))"

fun dedupe_loop ::
    "(string \<Rightarrow> rat option) \<Rightarrow> rat \<Rightarrow> int \<Rightarrow> (string \<rightharpoonup> rat option) \<Rightarrow> jobj list \<Rightarrow> jobj list" where
  "dedupe_loop iso_time window min_chars last_seen [] = []"
| "dedupe_loop iso_time window min_chars last_seen (msg # msgs) =
     (if msg_role msg \<noteq> JStr ''user'' then msg # dedupe_loop iso_time window min_chars last_seen msgs
      else
        let tx = extract_text_wire (jget ''content'' msg);
            normalized = normalize_for_dedup tx;
            ts = parse_timestamp iso_time (jget ''timestamp'' msg)
        in if int (length tx) < min_chars \<or> normalized = []
           then msg # dedupe_loop iso_time window min_chars last_seen msgs
           else if is_dup window ts (last_seen normalized)
           then dedupe_loop iso_time window min_chars last_seen msgs
           else msg # dedupe_loop iso_time window min_chars (last_seen(normalized \<mapsto> ts)) msgs)"

definition dedupe_duplicate_user_messages ::
    "(string \<Rightarrow> rat option) \<Rightarrow> rat \<Rightarrow> int \<Rightarrow> jobj list \<Rightarrow> jobj list" where
  "dedupe_duplicate_user_messages iso_time window min_chars messages =
     dedupe_loop iso_time window min_chars Map.empty messages"

subsection \<open>Filters before the summary\<close>

definition HEARTBEAT_MARKERS :: "string list" where
  "HEARTBEAT_MARKERS = [''heartbeat'', ''ping'', ''pong'', ''[heartbeat]'', ''[system]'']"

text \<open>One message of the loop of \<^verbatim>\<open>has_real_conversation\<close>: does it make the answer true?\<close>

definition real_message :: "jobj \<Rightarrow> bool" where
  "real_message msg =
     (if msg_role msg = JStr ''system'' then False
      else
        let lowered = py_lower (py_strip (extract_text_wire (jget ''content'' msg)))
        in if lowered = [] then truthy (jget ''tool_calls'' msg)
           else if list_ex (\<lambda>mk. py_in mk lowered) HEARTBEAT_MARKERS then False
           else msg_role msg \<in> {JStr ''user'', JStr ''assistant'', JStr ''tool''})"

definition has_real_conversation :: "jobj list \<Rightarrow> bool" where
  "has_real_conversation messages = list_ex real_message messages"

definition drop_details :: "jobj \<Rightarrow> jobj" where
  "drop_details d = filter (\<lambda>(k, v). k \<noteq> ''details'') d"

definition strip_message :: "jobj \<Rightarrow> jobj" where
  "strip_message msg =
     (case (msg_role msg = JStr ''tool'', jget ''content'' msg) of
        (True, JList bs) \<Rightarrow>
          AList.update ''content''
            (JList (map (\<lambda>b. case b of JObj d \<Rightarrow> JObj (drop_details d) | _ \<Rightarrow> b) bs)) msg
      | _ \<Rightarrow> if ''details'' \<in> fst ` set msg then drop_details msg else msg)"

definition strip_tool_result_details :: "jobj list \<Rightarrow> jobj list" where
  "strip_tool_result_details messages = map strip_message messages"

text \<open>The default \<^verbatim>\<open>oversized_fraction\<close> is one half: the limit is twice the context window.\<close>

definition filter_oversized_messages ::
    "(json \<Rightarrow> string) \<Rightarrow> int \<Rightarrow> jobj list \<Rightarrow> jobj list" where
  "filter_oversized_messages show_json context_window messages =
     (if context_window \<le> 0 then messages
      else map (\<lambda>msg.
        if int (length (extract_text_wire (jget ''content'' msg))) > context_window * 2
        then (let role = jget_or (JStr ''unknown'') ''role'' msg
              in [(''role'', role),
                  (''content'', JStr (''[omitted oversized message from '' @ fmt show_json role @ '']''))])
        else msg) messages)"

fun chunk_loop :: "('m \<Rightarrow> int) \<Rightarrow> int \<Rightarrow> 'm list \<Rightarrow> int \<Rightarrow> 'm list \<Rightarrow> 'm list list" where
  "chunk_loop est budget current cur_tokens [] = (if current \<noteq> [] then [current] else [])"
| "chunk_loop est budget current cur_tokens (m # ms) =
     (if current \<noteq> [] \<and> cur_tokens + est m > budget
      then current # chunk_loop est budget [m] (est m) ms
      else chunk_loop est budget (current @ [m]) (cur_tokens + est m) ms)"

definition split_into_chunks :: "('m \<Rightarrow> int) \<Rightarrow> int \<Rightarrow> 'm list \<Rightarrow> 'm list list" where
  "split_into_chunks est budget messages =
     (if budget \<le> 0 then [messages]
      else (let cs = chunk_loop est budget [] 0 messages in if cs = [] then [[]] else cs))"

text \<open>The stages of the summary; the summarizer fails with an error of its own.\<close>

fun summarize_chunks ::
    "(jobj list \<Rightarrow> 'e + string) \<Rightarrow> jobj list list \<Rightarrow> 'e + string list" where
  "summarize_chunks summarizer [] = Inr []"
| "summarize_chunks summarizer (c # cs) =
     (case summarizer c of
        Inl e \<Rightarrow> Inl e
      | Inr s \<Rightarrow>
          (case summarize_chunks summarizer cs of Inl e \<Rightarrow> Inl e | Inr ss \<Rightarrow> Inr (s # ss)))"

definition merge_payload :: "string list \<Rightarrow> jobj list" where
  "merge_payload ss =
     map (\<lambda>(i, s). [(''role'', JStr ''user''),
            (''content'', JStr (''[summary of chunk '' @ show_nat (i + 1) @ '']'' @ nl @ s))])
       (enumerate 0 ss)"

definition summarize_in_stages ::
    "(jobj \<Rightarrow> int) \<Rightarrow> (jobj list \<Rightarrow> 'e + string) \<Rightarrow> int \<Rightarrow> jobj list \<Rightarrow> 'e + string" where
  "summarize_in_stages est summarizer budget messages =
     (let chunks = split_into_chunks est budget messages
      in if length chunks \<le> 1 then summarizer messages
         else case summarize_chunks summarizer chunks of
                Inl e \<Rightarrow> Inl e
              | Inr ss \<Rightarrow> summarizer (merge_payload ss))"

definition sanity_check_token_estimate :: "int \<Rightarrow> int option \<Rightarrow> int option" where
  "sanity_check_token_estimate tokens_before tokens_after =
     (case tokens_after of
        None \<Rightarrow> None
      | Some a \<Rightarrow> if a > tokens_before then None else Some a)"

subsection \<open>Classification of a reason text\<close>

definition classify_compaction_reason :: "string option \<Rightarrow> string" where
  "classify_compaction_reason tx =
     (case tx of
        None \<Rightarrow> ''unknown''
      | Some t \<Rightarrow>
          if t = [] then ''unknown''
          else (let l = py_lower t; has = (\<lambda>p. py_in p l) in
            if has ''already compacted'' \<or> has ''recent compaction'' then ''already_compacted_recently''
            else if has ''below threshold'' \<or> has ''within-budget'' \<or> has ''within budget''
            then ''below_threshold''
            else if has ''no compactable'' \<or> has ''no-safe-cut'' \<or> has ''nothing to compact''
            then ''no_compactable_entries''
            else if has ''guard'' \<and> (has ''block'' \<or> has ''policy'') then ''guard_blocked''
            else if has ''summary'' \<and> (has ''fail'' \<or> has ''error'') then ''summary_failed''
            else if has ''timeout'' \<or> has ''timed out'' then ''timeout''
            else if has ''abort'' \<or> has ''cancel'' then ''aborted''
            else if (has ''still exceeds'' \<or> has ''over budget'') \<and> has ''context''
            then ''live_context_still_exceeds_target''
            else if has ''4'' \<and> (has ''provider'' \<or> has ''api'') \<and> has ''error''
            then ''provider_error_4xx''
            else if has ''5'' \<and> (has ''provider'' \<or> has ''api'') \<and> has ''error''
            then ''provider_error_5xx''
            else if starts_with ''compacted-at-'' l \<or> l = ''compacted'' then ''compacted''
            else ''unknown''))"

definition ALL_REASON_CODES :: "string list" where
  "ALL_REASON_CODES =
     [''compacted'', ''no_compactable_entries'', ''below_threshold'', ''already_compacted_recently'',
      ''live_context_still_exceeds_target'', ''guard_blocked'', ''summary_failed'', ''timeout'',
      ''aborted'', ''provider_error_4xx'', ''provider_error_5xx'', ''unknown'']"

subsection \<open>The compaction of the context engine\<close>

record compact_result =
  cr_ok :: bool
  cr_compacted :: bool
  cr_reason :: "string option"
  cr_reason_code :: "string option"
  cr_summary :: "string option"
  cr_first_kept :: "string option"
  cr_tokens_before :: int
  cr_tokens_after :: "int option"

definition no_compact :: "bool \<Rightarrow> string option \<Rightarrow> string \<Rightarrow> int \<Rightarrow> compact_result" where
  "no_compact ok reason code before =
     \<lparr>cr_ok = ok, cr_compacted = False, cr_reason = reason, cr_reason_code = Some code,
      cr_summary = None, cr_first_kept = None, cr_tokens_before = before, cr_tokens_after = None\<rparr>"

text \<open>What the summarizer raises: a \<^verbatim>\<open>TypeError\<close> (no \<^verbatim>\<open>model\<close> keyword), or another exception.\<close>

datatype sum_error = SumTypeError string | SumOther string

fun sum_error_text :: "sum_error \<Rightarrow> string" where
  "sum_error_text (SumTypeError m) = m"
| "sum_error_text (SumOther m) = m"

text \<open>How the guarded summary ended: within its time, at the safety timeout, or at the abort event.\<close>

datatype race = RaceFinished | RaceTimeout | RaceAborted

record engine =
  eng_threshold :: rat
  eng_keep_recent :: int
  eng_summarize :: "(jobj list \<Rightarrow> string option \<Rightarrow> sum_error + string) option"
  eng_chunk_budget :: int

text \<open>The standard library's and the clock's part: printing values and reading time stamps.\<close>

record py_env =
  env_show_json :: "json \<Rightarrow> string"
  env_iso :: "string \<Rightarrow> rat option"

definition est_of :: "py_env \<Rightarrow> jobj \<Rightarrow> int" where
  "est_of pe = estimate_message_tokens (\<lambda>d. env_show_json pe (JObj d))"

definition HARDENED_SUMMARIZER_SYSTEM_PROMPT :: string where
  "HARDENED_SUMMARIZER_SYSTEM_PROMPT =
     ''You are a compaction summarizer. Given a conversation excerpt, produce a concise summary ''
     @ ''that preserves key decisions, facts the user revealed, files touched, tool results, and ''
     @ ''outstanding tasks. Omit small talk.'' @ nl @ nl
     @ ''Preserve identifiers verbatim in the summary: UUIDs, hashes, IDs, hostnames, ''
     @ ''IP addresses, ports, URLs, filenames, file paths, model names, session IDs, ''
     @ ''commit SHAs, error codes. Never rewrite, shorten, or paraphrase these tokens.'' @ nl @ nl
     @ ''Return plain text, no headings, no bullet points unless they improve clarity.''"

definition one_stage ::
    "py_env \<Rightarrow> (jobj list \<Rightarrow> string option \<Rightarrow> sum_error + string) \<Rightarrow> string option
     \<Rightarrow> jobj list \<Rightarrow> sum_error + string" where
  "one_stage pe summarize_fn model payload =
     (let p = (build_summarizer_payload (env_show_json pe) payload)
                [0 := [(''role'', JStr ''system''),
                       (''content'', JStr HARDENED_SUMMARIZER_SYSTEM_PROMPT)]]
      in case summarize_fn p model of
           Inl (SumTypeError m) \<Rightarrow> summarize_fn p None
         | r \<Rightarrow> r)"

definition run_summarizer_guarded ::
    "py_env \<Rightarrow> engine \<Rightarrow> (jobj list \<Rightarrow> string option \<Rightarrow> sum_error + string) \<Rightarrow> string option
     \<Rightarrow> jobj list \<Rightarrow> sum_error + string" where
  "run_summarizer_guarded pe eng summarize_fn model messages =
     (let chunks = split_into_chunks (est_of pe) (eng_chunk_budget eng) messages
      in if length chunks \<le> 1 then one_stage pe summarize_fn model messages
         else summarize_in_stages (est_of pe) (one_stage pe summarize_fn model)
                (eng_chunk_budget eng) messages)"

definition fallback_summary :: "(json \<Rightarrow> string) \<Rightarrow> jobj list \<Rightarrow> string" where
  "fallback_summary show_json messages =
     py_join nl
       ([''[summary of '' @ show_nat (length messages) @ '' prior messages]'']
        @ List.maps (\<lambda>m.
            let tx = extract_text_wire (jget ''content'' m)
            in if tx = [] then []
               else [''- '' @ fmt show_json (jget_or (JStr ''user'') ''role'' m) @ '': ''
                     @ replace_char (CHR 0x0A) (CHR '' '') (take 120 tx)]) (take 3 messages)
        @ (if length messages > 3
           then [''- ... ('' @ show_nat (length messages - 3) @ '' more)''] else []))"

text \<open>
  \<^verbatim>\<open>DefaultContextEngine.compact\<close>.  \<open>aborted\<close> is the abort event on entry; \<open>rc\<close> is how the
  guarded summary ends.  The window and the minimal length of the removal of repeated messages
  are the defaults, 60 seconds and 24 characters.
\<close>

definition engine_compact ::
    "py_env \<Rightarrow> engine \<Rightarrow> bool \<Rightarrow> race \<Rightarrow> jobj list \<Rightarrow> int \<Rightarrow> bool \<Rightarrow> string option
     \<Rightarrow> compact_result" where
  "engine_compact pe eng aborted rc messages token_budget force model =
     (if aborted then no_compact False (Some ''aborted'') ''aborted'' 0
      else if \<not> has_real_conversation messages
      then no_compact True (Some ''no real conversation'') ''no_compactable_entries'' 0
      else
        let deduped = dedupe_duplicate_user_messages (env_iso pe) 60 24 messages;
            plan = plan_compaction (est_of pe) deduped token_budget
                     (if force then 1 else eng_threshold eng) (eng_keep_recent eng);
            before = plan_estimated plan
        in if \<not> plan_should_compact plan \<or> plan_cut plan = None
           then no_compact True (plan_reason plan)
                  (if plan_reason plan = Some ''within-budget'' then ''below_threshold''
                   else ''no_compactable_entries'') before
           else
               let c = the (plan_cut plan);
                   to_summarize = filter_oversized_messages (env_show_json pe) token_budget
                                    (strip_tool_result_details (take c deduped));
                   outcome =
                     (case eng_summarize eng of
                        None \<Rightarrow> Inr (fallback_summary (env_show_json pe) to_summarize)
                      | Some f \<Rightarrow>
                          (case rc of
                             RaceTimeout \<Rightarrow> Inl (no_compact False (Some ''summarizer timeout'') ''timeout'' before)
                           | RaceAborted \<Rightarrow> Inl (no_compact False (Some ''aborted'') ''aborted'' before)
                           | RaceFinished \<Rightarrow>
                               (case run_summarizer_guarded pe eng f model to_summarize of
                                  Inr s \<Rightarrow> Inr s
                                | Inl e \<Rightarrow> Inl (no_compact False
                                    (Some (''summary failed: '' @ sum_error_text e)) ''summary_failed'' before))))
               in case outcome of
                    Inl r \<Rightarrow> r
                  | Inr s \<Rightarrow>
                      \<lparr>cr_ok = True, cr_compacted = True,
                       cr_reason = Some (''compacted-at-'' @ show_nat c),
                       cr_reason_code = Some ''compacted'', cr_summary = Some s,
                       cr_first_kept = None, cr_tokens_before = before,
                       cr_tokens_after = sanity_check_token_estimate before
                         (Some (plan_kept plan + tokens_of (est_of pe)
                            [[(''role'', JStr ''assistant''), (''content'', JStr s)]]))\<rparr>)"

subsection \<open>Checkpoints\<close>

text \<open>
  \<^verbatim>\<open>take_checkpoint\<close> copies the tree; \<^verbatim>\<open>restore_into\<close> writes its entries, order and leaf back
  and leaves the header alone.
\<close>

definition take_checkpoint :: "session_tree \<Rightarrow> session_tree" where
  "take_checkpoint t = t"

definition restore_into :: "session_tree \<Rightarrow> session_tree \<Rightarrow> session_tree" where
  "restore_into snapshot t =
     t\<lparr>entries := entries snapshot, order := order snapshot, leaf_id := leaf_id snapshot\<rparr>"

subsection \<open>Lemmas: estimates and cuts\<close>

text \<open>
  What the routines need of an estimate: every message weighs something.  The estimate of the
  program is at least eight for every message.
\<close>

locale token_weight =
  fixes est :: "'m \<Rightarrow> int"
  assumes est_pos: "0 < est m"
begin

lemma tokens_Nil [simp]: "tokens_of est [] = 0"
  by (simp add: tokens_of_def)

lemma tokens_Cons [simp]: "tokens_of est (m # ms) = est m + tokens_of est ms"
  by (simp add: tokens_of_def)

lemma tokens_append [simp]: "tokens_of est (xs @ ys) = tokens_of est xs + tokens_of est ys"
  by (simp add: tokens_of_def)

lemma tokens_nonneg: "0 \<le> tokens_of est ms"
  by (induction ms) (use est_pos in \<open>auto intro: add_nonneg_nonneg less_imp_le\<close>)

lemma tokens_drop_mono: "i \<le> j \<Longrightarrow> tokens_of est (drop j ms) \<le> tokens_of est (drop i ms)"
proof -
  assume "i \<le> j"
  then have "drop i ms = take (j - i) (drop i ms) @ drop j ms"
    by (metis add.commute append_take_drop_id drop_drop le_add_diff_inverse)
  then have "tokens_of est (drop i ms)
      = tokens_of est (take (j - i) (drop i ms)) + tokens_of est (drop j ms)"
    by (metis tokens_append)
  with tokens_nonneg show ?thesis by simp
qed

lemma tokens_drop_Suc:
  "i < length ms \<Longrightarrow> tokens_of est (drop i ms) = est (ms ! i) + tokens_of est (drop (Suc i) ms)"
  by (metis Cons_nth_drop_Suc tokens_Cons)

lemma cut_scan_Some:
  assumes "cut_scan est ms keep n (tokens_of est (drop n ms)) = Some i" and "n \<le> length ms"
  shows "i < n \<and> keep \<le> tokens_of est (drop i ms)
         \<and> (Suc i < n \<longrightarrow> tokens_of est (drop (Suc i) ms) < keep)"
  using assms
proof (induction n)
  case (Suc n)
  have acc: "tokens_of est (drop (Suc n) ms) + est (ms ! n) = tokens_of est (drop n ms)"
    using Suc.prems(2) tokens_drop_Suc [of n ms] by simp
  show ?case
  proof (cases "keep \<le> tokens_of est (drop n ms)")
    case True
    with Suc.prems(1) acc show ?thesis by (simp add: Let_def)
  next
    case False
    with Suc.prems acc have "cut_scan est ms keep n (tokens_of est (drop n ms)) = Some i"
      by (simp add: Let_def)
    with Suc.IH Suc.prems(2) False show ?thesis
      by (cases "Suc i = n") auto
  qed
qed simp

lemma cut_scan_None:
  assumes "cut_scan est ms keep n (tokens_of est (drop n ms)) = None" and "n \<le> length ms" and "i < n"
  shows "tokens_of est (drop i ms) < keep"
  using assms
proof (induction n)
  case (Suc n)
  have acc: "tokens_of est (drop (Suc n) ms) + est (ms ! n) = tokens_of est (drop n ms)"
    using Suc.prems(2) tokens_drop_Suc [of n ms] by simp
  with Suc.prems(1) have small: "tokens_of est (drop n ms) < keep"
    and rec: "cut_scan est ms keep n (tokens_of est (drop n ms)) = None"
    by (auto simp: Let_def split: if_splits)
  show ?case
    using Suc.IH [OF rec] Suc.prems(2,3) small by (cases "i = n") auto
qed simp

lemma chunk_loop_bound:
  assumes "c \<in> set (chunk_loop est budget current (tokens_of est current) ms)"
    and "tokens_of est current \<le> budget \<or> length current \<le> 1"
  shows "c \<noteq> [] \<and> (tokens_of est c \<le> budget \<or> length c = 1)"
  using assms
proof (induction ms arbitrary: current)
  case Nil
  then show ?case by (cases current) (auto split: if_splits)
next
  case (Cons m ms)
  show ?case
  proof (cases "current \<noteq> [] \<and> tokens_of est current + est m > budget")
    case True
    have "[m] \<noteq> [] \<and> tokens_of est [m] = est m" by simp
    with True Cons.prems Cons.IH [of "[m]"] show ?thesis
      by (cases current) (auto simp: le_Suc_eq)
  next
    case False
    then have "tokens_of est (current @ [m]) \<le> budget \<or> length (current @ [m]) \<le> 1" by auto
    moreover have "c \<in> set (chunk_loop est budget (current @ [m]) (tokens_of est (current @ [m])) ms)"
      using False Cons.prems(1) by auto
    ultimately show ?thesis by (rule Cons.IH [rotated])
  qed
qed

end

lemma chunk_loop_concat: "concat (chunk_loop est budget current n ms) = current @ ms"
  by (induction ms arbitrary: current n) auto

lemma sum_list_nonneg_map: "(\<And>x. x \<in> set xs \<Longrightarrow> 0 \<le> f x) \<Longrightarrow> (0::int) \<le> sum_list (map f xs)"
  by (induction xs) auto

lemma estimate_tokens_nonneg: "0 \<le> estimate_tokens s"
  by (auto simp: estimate_tokens_def max_def)

lemma block_tokens_nonneg: "0 \<le> block_tokens b"
  by (auto simp: block_tokens_def IMAGE_TOKEN_ESTIMATE_def estimate_tokens_nonneg
      split: json.splits)

lemma call_tokens_nonneg: "0 \<le> call_tokens sh c"
  by (auto simp: call_tokens_def Let_def estimate_tokens_nonneg split: json.splits)

lemma estimate_message_tokens_ge: "8 \<le> estimate_message_tokens sh m"
proof -
  have "0 \<le> (\<Sum>c\<leftarrow>as_list (jget ''tool_calls'' m). call_tokens sh c)"
    by (rule sum_list_nonneg_map) (rule call_tokens_nonneg)
  moreover have "0 \<le> (case jget ''content'' m of JStr s \<Rightarrow> estimate_tokens s
      | JList bs \<Rightarrow> (\<Sum>b\<leftarrow>bs. block_tokens b) | _ \<Rightarrow> 0)"
    by (auto simp: estimate_tokens_nonneg intro!: sum_list_nonneg_map block_tokens_nonneg
        split: json.splits)
  ultimately show ?thesis
    unfolding estimate_message_tokens_def by linarith
qed

interpretation msg_weight: token_weight "est_of pe" for pe
proof unfold_locales
  show "0 < est_of pe m" for m
    using estimate_message_tokens_ge [of "\<lambda>d. env_show_json pe (JObj d)" m]
    by (simp add: est_of_def)
qed

lemma back_over_tools_props:
  "back_over_tools ms c \<le> c
   \<and> (back_over_tools ms c = 0 \<or> \<not> is_tool_msg (ms ! back_over_tools ms c))
   \<and> (\<forall>j. back_over_tools ms c < j \<and> j \<le> c \<longrightarrow> is_tool_msg (ms ! j))"
proof (induction c)
  case (Suc c)
  show ?case
  proof (cases "is_tool_msg (ms ! Suc c)")
    case True
    with Suc show ?thesis by (auto simp: le_Suc_eq)
  qed auto
qed simp

lemma back_second_id: "c = 0 \<or> \<not> is_tool_msg (ms ! c) \<Longrightarrow> back_second ms c = c"
  by (cases c) auto

lemma adjust_eq: "adjust_for_tool_boundaries ms c = back_over_tools ms c"
  by (simp add: adjust_for_tool_boundaries_def back_second_id back_over_tools_props)

text \<open>
  The specification of the cut: an index is a safe cut when it is neither the first message nor
  a tool message, and the messages from it on weigh at least what is to be kept.
\<close>

definition safe_cut :: "(jobj \<Rightarrow> int) \<Rightarrow> jobj list \<Rightarrow> int \<Rightarrow> nat \<Rightarrow> bool" where
  "safe_cut est ms keep c =
     (0 < c \<and> c < length ms \<and> \<not> is_tool_msg (ms ! c) \<and> keep \<le> tokens_of est (drop c ms))"

context token_weight begin

lemma scan_is_last:
  assumes "cut_scan est ms keep (length ms) 0 = Some k"
  shows "k < length ms \<and> keep \<le> tokens_of est (drop k ms)
    \<and> (\<forall>j. k < j \<and> j < length ms \<longrightarrow> tokens_of est (drop j ms) < keep)"
proof -
  have k: "k < length ms" "keep \<le> tokens_of est (drop k ms)"
    "Suc k < length ms \<longrightarrow> tokens_of est (drop (Suc k) ms) < keep"
    using cut_scan_Some [of ms keep "length ms" k] assms by simp_all
  have "tokens_of est (drop j ms) < keep" if "k < j" "j < length ms" for j
    using k(3) tokens_drop_mono [of "Suc k" j ms] that by simp
  with k show ?thesis by blast
qed

end

lemma find_cut_point_Some:
  assumes "find_cut_point (est_of pe) ms keep = Some c"
  shows "safe_cut (est_of pe) ms keep c \<and> (\<forall>j>c. \<not> safe_cut (est_of pe) ms keep j)"
proof -
  from assms obtain k where scan: "cut_scan (est_of pe) ms keep (length ms) 0 = Some k"
    and c: "c = back_over_tools ms k" "0 < c"
    by (auto simp: find_cut_point_def adjust_eq Let_def split: if_splits option.splits)
  note K = msg_weight.scan_is_last [OF scan]
  note B = back_over_tools_props [of ms k]
  have "keep \<le> tokens_of (est_of pe) (drop c ms)"
    using K B c msg_weight.tokens_drop_mono [of c k pe ms] by simp
  with K B c have "safe_cut (est_of pe) ms keep c" by (auto simp: safe_cut_def)
  moreover have "\<not> safe_cut (est_of pe) ms keep j" if "c < j" for j
    using K B c that by (cases "j \<le> k") (auto simp: safe_cut_def not_le)
  ultimately show ?thesis by blast
qed

lemma find_cut_point_None:
  assumes "find_cut_point (est_of pe) ms keep = None"
  shows "\<not> safe_cut (est_of pe) ms keep j"
proof
  assume j: "safe_cut (est_of pe) ms keep j"
  show False
  proof (cases "cut_scan (est_of pe) ms keep (length ms) 0")
    case None
    with j msg_weight.cut_scan_None [of pe ms keep "length ms" j] show False
      by (simp add: safe_cut_def)
  next
    case (Some k)
    note K = msg_weight.scan_is_last [OF Some]
    from assms Some j have "back_over_tools ms k = 0"
      by (auto simp: find_cut_point_def adjust_eq Let_def safe_cut_def split: if_splits)
    with back_over_tools_props [of ms k] K j show False
      by (cases "j \<le> k") (auto simp: safe_cut_def not_le)
  qed
qed

subsection \<open>Properties\<close>

text \<open>
  The cut point is the last safe cut, and there is none exactly when no cut is
  safe: the search backwards over the estimates and the two repairs at tool messages together
  keep the shortest tail of the conversation that weighs at least \<open>keep\<close> and does not begin
  with a tool result.
\<close>

theorem find_cut_point_spec:
  "((find_cut_point (est_of pe) ms keep = Some c) =
     (safe_cut (est_of pe) ms keep c \<and> (\<forall>j>c. \<not> safe_cut (est_of pe) ms keep j)))
   \<and> ((find_cut_point (est_of pe) ms keep = None) = (\<forall>j. \<not> safe_cut (est_of pe) ms keep j))"
proof
  show "(find_cut_point (est_of pe) ms keep = Some c) =
     (safe_cut (est_of pe) ms keep c \<and> (\<forall>j>c. \<not> safe_cut (est_of pe) ms keep j))"
    by (metis find_cut_point_None find_cut_point_Some not_None_eq nat_neq_iff)
  show "(find_cut_point (est_of pe) ms keep = None) = (\<forall>j. \<not> safe_cut (est_of pe) ms keep j)"
    by (metis find_cut_point_None find_cut_point_Some not_None_eq)
qed

definition demo_env :: py_env where
  "demo_env = \<lparr>env_show_json = (\<lambda>_. []), env_iso = (\<lambda>_. None)\<rparr>"

definition say :: "string \<Rightarrow> string \<Rightarrow> jobj" where
  "say r tx = [(''role'', JStr r), (''content'', JStr tx)]"

theorem find_cut_point_spec_witness:
  "let ms = [say ''user'' ''a'', say ''assistant'' ''b'', say ''tool'' ''c'']
   in find_cut_point (est_of demo_env) ms 5 = Some 1
      \<and> safe_cut (est_of demo_env) ms 5 1 \<and> \<not> safe_cut (est_of demo_env) ms 5 2"
proof -
  let ?ms = "[say ''user'' ''a'', say ''assistant'' ''b'', say ''tool'' ''c'']"
  have "find_cut_point (est_of demo_env) ?ms 5 = Some 1"
    by code_simp
  with find_cut_point_spec [of demo_env ?ms 5 1] show ?thesis by simp
qed

text \<open>
  A plan that compacts is one where the conversation is over its budget; its cut
  is a safe cut, what it keeps is the weight of the tail from the cut on, and this tail weighs
  less than the whole conversation.  A conversation within its budget is left alone.
\<close>

theorem plan_compaction_sound:
  assumes "plan = plan_compaction (est_of pe) ms window th keep"
  shows "plan_should_compact plan = (plan_cut plan \<noteq> None)
    \<and> plan_estimated plan = tokens_of (est_of pe) ms
    \<and> (case plan_cut plan of
         None \<Rightarrow> plan_reason plan = Some (if should_compact (est_of pe) ms window th
                   then ''no-safe-cut-point'' else ''within-budget'')
       | Some c \<Rightarrow> should_compact (est_of pe) ms window th \<and> safe_cut (est_of pe) ms keep c
           \<and> plan_kept plan = tokens_of (est_of pe) (drop c ms)
           \<and> plan_kept plan < plan_estimated plan)"
proof (cases "tokens_of (est_of pe) ms \<le> token_budget_of window th")
  case True
  with assms show ?thesis by (simp add: plan_compaction_def Let_def should_compact_def)
next
  case False
  show ?thesis
  proof (cases "find_cut_point (est_of pe) ms keep")
    case None
    with False assms show ?thesis by (simp add: plan_compaction_def Let_def should_compact_def)
  next
    case (Some c)
    with find_cut_point_Some have c: "safe_cut (est_of pe) ms keep c" by blast
    then have "tokens_of (est_of pe) (drop c ms) \<le> tokens_of (est_of pe) (drop 1 ms)"
      by (intro msg_weight.tokens_drop_mono) (simp add: safe_cut_def)
    also have "\<dots> < tokens_of (est_of pe) ms"
      using c msg_weight.est_pos [of pe "hd ms"] by (cases ms) (auto simp: safe_cut_def)
    finally show ?thesis
      using Some False assms c by (simp add: plan_compaction_def Let_def should_compact_def)
  qed
qed

theorem plan_compaction_sound_witness:
  "let ms = [say ''user'' ''a'', say ''assistant'' ''b'', say ''tool'' ''c''];
       plan = plan_compaction (est_of demo_env) ms 20 1 5
   in plan_cut plan = Some 1 \<and> plan_kept plan < plan_estimated plan"
proof -
  let ?ms = "[say ''user'' ''a'', say ''assistant'' ''b'', say ''tool'' ''c'']"
  have "plan_cut (plan_compaction (est_of demo_env) ?ms 20 1 5) = Some 1"
    by code_simp
  with plan_compaction_sound [OF refl, of demo_env ?ms 20 1 5] show ?thesis
    by (simp add: Let_def)
qed

subsection \<open>Lemmas and properties: repeated user messages\<close>

definition is_user_msg :: "jobj \<Rightarrow> bool" where
  "is_user_msg m = (msg_role m = JStr ''user'')"

text \<open>The normalized texts of the user messages of a conversation.\<close>

definition norm_of :: "jobj \<Rightarrow> string" where
  "norm_of m = normalize_for_dedup (extract_text_wire (jget ''content'' m))"

definition user_norms :: "jobj list \<Rightarrow> string set" where
  "user_norms ms = norm_of ` set (filter is_user_msg ms)"

lemma user_norms_simps [simp]:
  "user_norms [] = {}"
  "user_norms (m # ms) = (if is_user_msg m then insert (norm_of m) (user_norms ms) else user_norms ms)"
  by (simp_all add: user_norms_def)

lemma dedupe_subseq: "subseq (dedupe_loop it w n seen ms) ms"
  by (induction ms arbitrary: seen) (auto simp: Let_def)

lemma dedupe_others:
  "filter (\<lambda>m. \<not> is_user_msg m) (dedupe_loop it w n seen ms) = filter (\<lambda>m. \<not> is_user_msg m) ms"
  by (induction ms arbitrary: seen) (auto simp: Let_def is_user_msg_def)

lemma dedupe_norms:
  "user_norms ms \<subseteq> user_norms (dedupe_loop it w n seen ms) \<union> dom seen"
proof (induction ms arbitrary: seen)
  case Nil
  then show ?case by simp
next
  case (Cons m ms)
  have dup: "norm_of m \<in> dom seen"
    if "is_dup w (parse_timestamp it (jget ''timestamp'' m)) (seen (norm_of m))"
    using that by (auto simp: is_dup_def split: option.splits)
  show ?case
    using Cons [of seen] dup
      Cons [of "seen(norm_of m \<mapsto> parse_timestamp it (jget ''timestamp'' m))"]
    by (auto simp: Let_def norm_of_def [symmetric] is_user_msg_def simp del: fun_upd_apply)
qed

lemma subseq_user_norms: "subseq xs ys \<Longrightarrow> user_norms xs \<subseteq> user_norms ys"
  by (induction rule: list_emb.induct) auto

lemma dedupe_window:
  assumes "\<forall>m \<in> set ms. parse_timestamp it (jget ''timestamp'' m) = None"
  shows "dedupe_loop it w n seen ms = dedupe_loop it w' n seen ms"
  using assms by (induction ms arbitrary: seen) (auto simp: Let_def is_dup_def split: option.splits)

lemma message_has_no_timestamp: "jget ''timestamp'' (message_entry_to_dict b) = JNull"
  by (cases b) (auto simp: jget_def split: content.splits option.splits)

text \<open>The messages the removal looks at: user messages that are long enough and not blank.\<close>

definition dedup_candidate :: "int \<Rightarrow> jobj \<Rightarrow> bool" where
  "dedup_candidate n m =
     (is_user_msg m \<and> n \<le> int (length (extract_text_wire (jget ''content'' m))) \<and> norm_of m \<noteq> [])"

lemma dedupe_distinct:
  assumes "\<forall>m \<in> set ms. parse_timestamp it (jget ''timestamp'' m) = None"
  shows "distinct (map norm_of (filter (dedup_candidate n) (dedupe_loop it w n seen ms)))
     \<and> dom seen \<inter> norm_of ` set (filter (dedup_candidate n) (dedupe_loop it w n seen ms)) = {}"
  using assms
proof (induction ms arbitrary: seen)
  case Nil
  then show ?case by simp
next
  case (Cons m ms)
  then have ts: "parse_timestamp it (jget ''timestamp'' m) = None" by simp
  note IH1 = Cons.IH [of seen] and IH2 = Cons.IH [of "seen(norm_of m \<mapsto> None)"]
  show ?case
  proof (cases "dedup_candidate n m")
    case False
    with IH1 Cons.prems show ?thesis
      by (auto simp: Let_def norm_of_def [symmetric] dedup_candidate_def is_user_msg_def)
  next
    case True
    show ?thesis
    proof (cases "seen (norm_of m)")
      case None
      with True ts IH2 Cons.prems show ?thesis
        by (auto simp: Let_def norm_of_def [symmetric] dedup_candidate_def is_user_msg_def is_dup_def
            simp del: fun_upd_apply)
    next
      case (Some y)
      with True ts IH1 Cons.prems show ?thesis
        by (auto simp: Let_def norm_of_def [symmetric] dedup_candidate_def is_user_msg_def is_dup_def)
    qed
  qed
qed

text \<open>
  The removal of repeated messages only deletes: the result is a subsequence,
  every message that is not a user's stays, and no user text is lost, up to case and white
  space.
\<close>

theorem dedupe_loses_no_text:
  "subseq (dedupe_duplicate_user_messages it w n ms) ms
   \<and> filter (\<lambda>m. \<not> is_user_msg m) (dedupe_duplicate_user_messages it w n ms)
       = filter (\<lambda>m. \<not> is_user_msg m) ms
   \<and> user_norms (dedupe_duplicate_user_messages it w n ms) = user_norms ms"
  using dedupe_subseq dedupe_others subseq_user_norms [OF dedupe_subseq [of it w n Map.empty ms]]
    dedupe_norms [of ms it w n Map.empty]
  by (simp add: dedupe_duplicate_user_messages_def)

text \<open>
  The messages of a session carry no time stamp, so the window of the removal
  plays no part: whatever its value, a user text that was said before is removed however long
  ago it was said, and the long texts that stay are pairwise different.
\<close>

theorem dedupe_window_has_no_effect:
  "dedupe_duplicate_user_messages it w n (entries_to_messages es)
     = dedupe_duplicate_user_messages it w' n (entries_to_messages es)
   \<and> distinct (map norm_of (filter (dedup_candidate n)
        (dedupe_duplicate_user_messages it w n (entries_to_messages es))))"
proof -
  have nots: "\<forall>m \<in> set (entries_to_messages es). parse_timestamp it (jget ''timestamp'' m) = None"
    by (auto simp: entries_to_messages_def message_has_no_timestamp parse_timestamp_def)
  from dedupe_window [OF nots] dedupe_distinct [OF nots] show ?thesis
    unfolding dedupe_duplicate_user_messages_def by blast
qed

subsection \<open>Lemmas and properties: chunks and stages\<close>

lemma chunk_loop_nonempty: "current \<noteq> [] \<Longrightarrow> chunk_loop est budget current n ms \<noteq> []"
  by (induction ms arbitrary: current n) auto

text \<open>
  The chunks of a conversation are the conversation cut into pieces: joined they
  are it again, there is at least one, and each fits the budget unless it is a single message.
\<close>

theorem split_into_chunks_spec:
  assumes "0 < budget"
  shows "concat (split_into_chunks (est_of pe) budget ms) = ms
    \<and> split_into_chunks (est_of pe) budget ms \<noteq> []
    \<and> (\<forall>c \<in> set (split_into_chunks (est_of pe) budget ms).
         tokens_of (est_of pe) c \<le> budget \<or> length c = 1)"
  using assms chunk_loop_concat [of "est_of pe" budget "[]" 0 ms]
    msg_weight.chunk_loop_bound [of _ pe budget "[]" ms]
  by (auto simp: split_into_chunks_def Let_def)

theorem split_into_chunks_spec_witness:
  "let cs = split_into_chunks (est_of demo_env) 20 [say ''user'' ''a'', say ''user'' ''b'', say ''user'' ''c'']
   in length cs = 2 \<and> concat cs = [say ''user'' ''a'', say ''user'' ''b'', say ''user'' ''c'']"
proof -
  let ?ms = "[say ''user'' ''a'', say ''user'' ''b'', say ''user'' ''c'']"
  have "length (split_into_chunks (est_of demo_env) 20 ?ms) = 2"
    by code_simp
  with split_into_chunks_spec [of 20 demo_env ?ms] show ?thesis
    by (simp add: Let_def)
qed

subsection \<open>Lemmas and properties: the engine\<close>

lemma classify_in_codes: "classify_compaction_reason t \<in> set ALL_REASON_CODES"
  by (auto simp: classify_compaction_reason_def ALL_REASON_CODES_def Let_def split: option.split)

lemma sanity_le: "sanity_check_token_estimate b a = Some x \<Longrightarrow> x \<le> b"
  by (auto simp: sanity_check_token_estimate_def split: option.splits if_splits)

text \<open>What \<^verbatim>\<open>compact\<close> summarizes when its plan cuts at \<open>c\<close>.\<close>

definition to_summarize :: "py_env \<Rightarrow> int \<Rightarrow> nat \<Rightarrow> jobj list \<Rightarrow> jobj list" where
  "to_summarize pe budget c deduped =
     filter_oversized_messages (env_show_json pe) budget (strip_tool_result_details (take c deduped))"

lemma engine_compact_cases:
  fixes pe eng ms budget force
  defines "deduped \<equiv> dedupe_duplicate_user_messages (env_iso pe) 60 24 ms"
  defines "plan \<equiv> plan_compaction (est_of pe) deduped budget
             (if force then 1 else eng_threshold eng) (eng_keep_recent eng)"
  obtains (refused) ok t cd n where "engine_compact pe eng ab rc ms budget force md
             = no_compact ok t cd n" "cd \<in> set ALL_REASON_CODES" "cd \<noteq> ''compacted''"
             "\<not> ok \<longrightarrow> cd \<in> {''aborted'', ''timeout'', ''summary_failed''}"
  | (compacted) c s where "\<not> ab" "has_real_conversation ms" "plan_cut plan = Some c"
      "eng_summarize eng = None \<and> s = fallback_summary (env_show_json pe) (to_summarize pe budget c deduped)
       \<or> (\<exists>f. eng_summarize eng = Some f \<and> rc = RaceFinished
            \<and> run_summarizer_guarded pe eng f md (to_summarize pe budget c deduped) = Inr s)"
      "engine_compact pe eng ab rc ms budget force md =
         \<lparr>cr_ok = True, cr_compacted = True, cr_reason = Some (''compacted-at-'' @ show_nat c),
          cr_reason_code = Some ''compacted'', cr_summary = Some s, cr_first_kept = None,
          cr_tokens_before = plan_estimated plan,
          cr_tokens_after = sanity_check_token_estimate (plan_estimated plan)
            (Some (plan_kept plan + tokens_of (est_of pe)
               [[(''role'', JStr ''assistant''), (''content'', JStr s)]]))\<rparr>"
proof -
  consider (ab) "ab" | (unreal) "\<not> ab" "\<not> has_real_conversation ms"
    | (noplan) "\<not> ab" "has_real_conversation ms" "plan_cut plan = None"
    | (cut) c where "\<not> ab" "has_real_conversation ms" "plan_cut plan = Some c"
    by (cases "plan_cut plan") auto
  then show thesis
  proof cases
    case ab
    then show thesis by (intro refused) (auto simp: engine_compact_def ALL_REASON_CODES_def)
  next
    case unreal
    then show thesis by (intro refused) (auto simp: engine_compact_def ALL_REASON_CODES_def)
  next
    case noplan
    then have "engine_compact pe eng ab rc ms budget force md
        = no_compact True (plan_reason plan)
            (if plan_reason plan = Some ''within-budget'' then ''below_threshold''
             else ''no_compactable_entries'') (plan_estimated plan)"
      unfolding engine_compact_def Let_def plan_def [symmetric] deduped_def [symmetric] by simp
    then show thesis by (rule refused) (auto simp: ALL_REASON_CODES_def)
  next
    case cut
    have pl: "plan_should_compact plan"
      using cut(3) plan_compaction_sound [OF plan_def [THEN meta_eq_to_obj_eq]] by simp
    note eq = engine_compact_def [of pe eng False _ ms budget force md, unfolded Let_def,
        folded plan_def deduped_def]
    show thesis
    proof (cases "eng_summarize eng")
      case None
      with cut pl show thesis
        by (intro compacted [where c = c]) (auto simp: eq Let_def to_summarize_def)
    next
      case f: (Some f)
      show thesis
      proof (cases rc)
        case RaceFinished
        show thesis
        proof (cases "run_summarizer_guarded pe eng f md (to_summarize pe budget c deduped)")
          case (Inl e)
          with RaceFinished f cut pl have "engine_compact pe eng ab rc ms budget force md
              = no_compact False (Some (''summary failed: '' @ sum_error_text e)) ''summary_failed''
                  (plan_estimated plan)"
            by (auto simp: eq to_summarize_def)
          then show thesis by (rule refused) (auto simp: ALL_REASON_CODES_def)
        next
          case (Inr s)
          with RaceFinished f cut pl show thesis
            by (intro compacted [where c = c and s = s]) (auto simp: eq to_summarize_def)
        qed
      next
        case RaceTimeout
        with f cut pl have "engine_compact pe eng ab rc ms budget force md
            = no_compact False (Some ''summarizer timeout'') ''timeout'' (plan_estimated plan)"
          by (auto simp: eq)
        then show thesis by (rule refused) (auto simp: ALL_REASON_CODES_def)
      next
        case RaceAborted
        with f cut pl have "engine_compact pe eng ab rc ms budget force md
            = no_compact False (Some ''aborted'') ''aborted'' (plan_estimated plan)"
          by (auto simp: eq)
        then show thesis by (rule refused) (auto simp: ALL_REASON_CODES_def)
      qed
    qed
  qed
qed

text \<open>
  Property C29.  Every outcome of a compaction carries a code of the closed list; there is a
  summary exactly when the code says so; a compaction fails only by abort, timeout or the
  summarizer; the estimate it reports never grows; and it only happens when the conversation,
  its repetitions removed, is over the budget and has a safe cut, at which the reason names it.
\<close>

theorem engine_compact_outcome:
  assumes "r = engine_compact pe eng ab rc ms budget force md"
    and "deduped = dedupe_duplicate_user_messages (env_iso pe) 60 24 ms"
  shows "(\<exists>cd. cr_reason_code r = Some cd \<and> cd \<in> set ALL_REASON_CODES
           \<and> cr_compacted r = (cd = ''compacted'')
           \<and> (cr_ok r \<or> cd \<in> {''aborted'', ''timeout'', ''summary_failed''}))
    \<and> cr_compacted r = (cr_summary r \<noteq> None)
    \<and> (case cr_tokens_after r of None \<Rightarrow> True | Some a \<Rightarrow> a \<le> cr_tokens_before r)
    \<and> (if cr_compacted r
       then \<not> ab \<and> has_real_conversation ms
         \<and> should_compact (est_of pe) deduped budget (if force then 1 else eng_threshold eng)
         \<and> (\<exists>c. cr_reason r = Some (''compacted-at-'' @ show_nat c)
              \<and> safe_cut (est_of pe) deduped (eng_keep_recent eng) c)
       else True)"
proof (cases rule: engine_compact_cases [where pe = pe and eng = eng and ms = ms and budget = budget
      and force = force and ab = ab and rc = rc and md = md])
  case (refused ok t cd n)
  then show ?thesis unfolding assms(1) by (auto simp: no_compact_def)
next
  case (compacted c s)
  note pl = plan_compaction_sound [OF refl, of pe deduped budget
      "if force then 1 else eng_threshold eng" "eng_keep_recent eng"]
  have "''compacted'' \<in> set ALL_REASON_CODES" by (simp add: ALL_REASON_CODES_def)
  with compacted pl show ?thesis
    unfolding assms(1) by (auto simp: assms(2) sanity_le split: option.split)
qed

definition demo_engine :: engine where
  "demo_engine = \<lparr>eng_threshold = 1, eng_keep_recent = 5,
     eng_summarize = Some (\<lambda>p md. Inr ''short''), eng_chunk_budget = 100\<rparr>"

theorem engine_compact_outcome_witness:
  "let r = engine_compact demo_env demo_engine False RaceFinished
             [say ''user'' ''first question'', say ''assistant'' ''b'', say ''tool'' ''c''] 20 False None
   in cr_compacted r \<and> cr_summary r \<noteq> None"
proof -
  let ?ms = "[say ''user'' ''first question'', say ''assistant'' ''b'', say ''tool'' ''c'']"
  have "cr_compacted (engine_compact demo_env demo_engine False RaceFinished ?ms 20 False None)"
    by code_simp
  with engine_compact_outcome [OF refl refl, of demo_env demo_engine False RaceFinished ?ms 20 False None]
  show ?thesis by (simp add: Let_def)
qed

text \<open>
  The heartbeat markers are looked for anywhere in a message, also inside a word:
  a conversation whose every message contains one of them, such as one about shopping, is
  taken for a heartbeat and is never compacted, however long it is and even when the
  compaction is forced.
\<close>

theorem marker_blocks_compaction:
  assumes "\<forall>m \<in> set ms. \<exists>mk \<in> set HEARTBEAT_MARKERS.
             py_in mk (py_lower (py_strip (extract_text_wire (jget ''content'' m))))"
  shows "engine_compact pe eng False rc ms budget True md
           = no_compact True (Some ''no real conversation'') ''no_compactable_entries'' 0"
proof -
  have "\<not> real_message m" if "m \<in> set ms" for m
    using assms that by (auto simp: real_message_def Let_def list_ex_iff HEARTBEAT_MARKERS_def py_in_def)
  then have "\<not> has_real_conversation ms"
    by (auto simp: has_real_conversation_def list_ex_iff)
  then show ?thesis by (simp add: engine_compact_def)
qed

theorem marker_blocks_compaction_witness:
  "engine_compact demo_env demo_engine False RaceFinished
     [say ''user'' ''Plan my shopping for the week'', say ''assistant'' ''Your shopping list: bread''] 1 True None
   = no_compact True (Some ''no real conversation'') ''no_compactable_entries'' 0"
proof (rule marker_blocks_compaction)
  have "py_in ''ping'' (py_lower (py_strip (extract_text_wire (jget ''content''
          (say ''user'' ''Plan my shopping for the week'')))))"
    "py_in ''ping'' (py_lower (py_strip (extract_text_wire (jget ''content''
          (say ''assistant'' ''Your shopping list: bread'')))))"
    by code_simp+
  then show "\<forall>m \<in> set [say ''user'' ''Plan my shopping for the week'',
      say ''assistant'' ''Your shopping list: bread'']. \<exists>mk \<in> set HEARTBEAT_MARKERS.
        py_in mk (py_lower (py_strip (extract_text_wire (jget ''content'' m))))"
    by (auto simp: HEARTBEAT_MARKERS_def)
qed

end
