(* ===== verification/Runtime.thy ===== *)
theory Runtime
  imports PyPrelude
begin

section \<open>Races against deadlines and the abort event\<close>

text \<open>
  \<^verbatim>\<open>src/pyclaw/core/agent/runtime_util.py\<close>.  Time is a rational number of seconds.  A piece of
  work ends at a time with a value, or never; an abort event, when there is one, is set at a
  time, or never.  \<^verbatim>\<open>asyncio.wait(..., return_when=FIRST_COMPLETED)\<close> with a timeout is
  \<open>race_wait\<close>; of two things at the same time the work is seen first, then the abort event,
  as the code asks for them in this order.
\<close>

subsection \<open>The race of one wait\<close>

datatype 'a raced = WorkDone rat 'a | AbortDone rat | WaitTimeout rat | WaitForever

text \<open>\<open>limit\<close> is at or after \<open>t\<close>; no limit is after everything.\<close>

definition not_after :: "rat \<Rightarrow> rat option \<Rightarrow> bool" where
  "not_after t limit = (case limit of None \<Rightarrow> True | Some u \<Rightarrow> t \<le> u)"

definition race_wait ::
    "rat option \<Rightarrow> rat option \<Rightarrow> (rat \<times> 'a) option \<Rightarrow> 'a raced" where
  "race_wait abort_at timeout_value work =
     (let rest = (case abort_at of
                    Some a \<Rightarrow>
                      if not_after a timeout_value then AbortDone a else WaitTimeout (the timeout_value)
                  | None \<Rightarrow>
                      (case timeout_value of Some t \<Rightarrow> WaitTimeout t | None \<Rightarrow> WaitForever))
      in case work of
           None \<Rightarrow> rest
         | Some (t, v) \<Rightarrow>
             if not_after t abort_at \<and> not_after t timeout_value then WorkDone t v else rest)"

subsection \<open>One awaitable\<close>

text \<open>
  The value of an awaitable under \<^verbatim>\<open>run_with_timeout\<close>: its result, \<^verbatim>\<open>AgentAbortedError\<close>,
  \<^verbatim>\<open>AgentTimeoutError(limit_seconds)\<close>, or the call does not return.  \<open>abort_event\<close> is
  \<^verbatim>\<open>None\<close>, or the time at which the event is set, if ever.
\<close>

datatype 'a timed = TimedValue 'a | TimedAborted | TimedOut rat | TimedNever

definition run_with_timeout ::
    "rat \<Rightarrow> rat option option \<Rightarrow> (rat \<times> 'a) option \<Rightarrow> 'a timed" where
  "run_with_timeout timeout_s abort_event work =
     (if timeout_s \<le> 0 \<and> abort_event = None
      then (case work of None \<Rightarrow> TimedNever | Some (t, v) \<Rightarrow> TimedValue v)
      else
        case race_wait (case abort_event of None \<Rightarrow> None | Some a \<Rightarrow> a)
               (if timeout_s > 0 then Some timeout_s else None) work of
          WorkDone t v \<Rightarrow> TimedValue v
        | AbortDone a \<Rightarrow> TimedAborted
        | WaitTimeout t \<Rightarrow> TimedOut timeout_s
        | WaitForever \<Rightarrow> TimedNever)"

definition race_abort :: "rat option \<Rightarrow> (rat \<times> 'a) option \<Rightarrow> 'a timed" where
  "race_abort abort_at work = run_with_timeout 0 (Some abort_at) work"

text \<open>\<^verbatim>\<open>is_abort_set\<close> at the time \<open>now\<close>.\<close>

definition is_abort_set :: "rat option option \<Rightarrow> rat \<Rightarrow> bool" where
  "is_abort_set abort_event now =
     (case abort_event of Some (Some a) \<Rightarrow> a \<le> now | _ \<Rightarrow> False)"

text \<open>
  \<^verbatim>\<open>with_safety_timeout\<close>: the value and whether \<^verbatim>\<open>on_cancel\<close> was called (what that callback
  raises is swallowed).
\<close>

definition with_safety_timeout ::
    "rat \<Rightarrow> rat option option \<Rightarrow> bool \<Rightarrow> (rat \<times> 'a) option \<Rightarrow> 'a timed \<times> bool" where
  "with_safety_timeout timeout_s abort_event has_on_cancel work =
     (let r = run_with_timeout timeout_s abort_event work
      in (r, (case r of TimedAborted \<Rightarrow> has_on_cancel | TimedOut _ \<Rightarrow> has_on_cancel | _ \<Rightarrow> False)))"

subsection \<open>Streams\<close>

text \<open>
  A stream: its items, each with the time it takes after the request for it, and whether it
  then ends (after some time) or stays silent for ever.  The result is what was yielded, how
  the iteration ended, and the time of the end.
\<close>

datatype stream_end =
    StreamExhausted
  | StreamAborted
  | StreamTimedOut rat
  | StreamSilent

record 'a stream_source =
  src_items :: "(rat \<times> 'a) list"
  src_end :: "rat option"

text \<open>The time left until the abort event at the time \<open>now\<close>.\<close>

definition abort_left :: "rat option option \<Rightarrow> rat \<Rightarrow> rat option" where
  "abort_left abort_event now =
     (case abort_event of Some (Some a) \<Rightarrow> Some (max 0 (a - now)) | _ \<Rightarrow> None)"

fun idle_loop ::
    "rat \<Rightarrow> rat option option \<Rightarrow> rat option \<Rightarrow> rat \<Rightarrow> (rat \<times> 'a) list
     \<Rightarrow> 'a list \<times> stream_end" where
  "idle_loop idle_seconds abort_event fin now [] =
     (case race_wait (abort_left abort_event now)
             (if idle_seconds > 0 then Some idle_seconds else None) (map_option (\<lambda>t. (t, ())) fin) of
        WorkDone t _ \<Rightarrow> ([], StreamExhausted)
      | AbortDone a \<Rightarrow> ([], StreamAborted)
      | WaitTimeout t \<Rightarrow> ([], StreamTimedOut idle_seconds)
      | WaitForever \<Rightarrow> ([], StreamSilent))"
| "idle_loop idle_seconds abort_event fin now ((gap, x) # items) =
     (case race_wait (abort_left abort_event now)
             (if idle_seconds > 0 then Some idle_seconds else None) (Some (gap, x)) of
        WorkDone t v \<Rightarrow>
          (let r = idle_loop idle_seconds abort_event fin (now + t) items in (v # fst r, snd r))
      | AbortDone a \<Rightarrow> ([], StreamAborted)
      | WaitTimeout t \<Rightarrow> ([], StreamTimedOut idle_seconds)
      | WaitForever \<Rightarrow> ([], StreamSilent))"

definition iterate_with_idle_timeout ::
    "rat \<Rightarrow> rat option option \<Rightarrow> 'a stream_source \<Rightarrow> 'a list \<times> stream_end" where
  "iterate_with_idle_timeout idle_seconds abort_event source =
     (if idle_seconds \<le> 0 \<and> abort_event = None
      then (map snd (src_items source),
            if src_end source = None then StreamSilent else StreamExhausted)
      else idle_loop idle_seconds abort_event (src_end source) 0 (src_items source))"

text \<open>
  \<^verbatim>\<open>iterate_with_deadline\<close> starts at time 0: its \<open>end_time\<close> is the deadline.  The reported
  number of seconds is the time that passed.
\<close>

definition deadline_left :: "rat \<Rightarrow> rat \<Rightarrow> rat option" where
  "deadline_left deadline_s now =
     (if deadline_s > 0 then Some (max (deadline_s - now) 0) else None)"

fun deadline_loop ::
    "rat \<Rightarrow> rat option option \<Rightarrow> rat option \<Rightarrow> rat \<Rightarrow> (rat \<times> 'a) list
     \<Rightarrow> 'a list \<times> stream_end" where
  "deadline_loop deadline_s abort_event fin now [] =
     (case race_wait (abort_left abort_event now) (deadline_left deadline_s now)
             (map_option (\<lambda>t. (t, ())) fin) of
        WorkDone t _ \<Rightarrow> ([], StreamExhausted)
      | AbortDone a \<Rightarrow> ([], StreamAborted)
      | WaitTimeout t \<Rightarrow> ([], StreamTimedOut (now + t))
      | WaitForever \<Rightarrow> ([], StreamSilent))"
| "deadline_loop deadline_s abort_event fin now ((gap, x) # items) =
     (case race_wait (abort_left abort_event now) (deadline_left deadline_s now) (Some (gap, x)) of
        WorkDone t v \<Rightarrow>
          (let r = deadline_loop deadline_s abort_event fin (now + t) items in (v # fst r, snd r))
      | AbortDone a \<Rightarrow> ([], StreamAborted)
      | WaitTimeout t \<Rightarrow> ([], StreamTimedOut (now + t))
      | WaitForever \<Rightarrow> ([], StreamSilent))"

definition iterate_with_deadline ::
    "rat \<Rightarrow> rat option option \<Rightarrow> 'a stream_source \<Rightarrow> 'a list \<times> stream_end" where
  "iterate_with_deadline deadline_s abort_event source =
     (if deadline_s \<le> 0 \<and> abort_event = None
      then (map snd (src_items source),
            if src_end source = None then StreamSilent else StreamExhausted)
      else deadline_loop deadline_s abort_event (src_end source) 0 (src_items source))"

subsection \<open>Lemmas\<close>

lemma race_wait_cases:
  "race_wait ab lm w = WorkDone t v \<longleftrightarrow> w = Some (t, v) \<and> not_after t ab \<and> not_after t lm"
  "race_wait ab lm w = AbortDone a \<Longrightarrow> ab = Some a \<and> not_after a lm"
  "race_wait ab lm w = WaitTimeout u \<Longrightarrow> lm = Some u"
  "race_wait ab lm w = WaitForever \<Longrightarrow> ab = None \<and> lm = None \<and> w = None"
  by (auto simp: race_wait_def Let_def not_after_def split: option.splits if_splits prod.splits)

lemma not_after_Some [simp]: "not_after t (Some u) \<longleftrightarrow> t \<le> u" "not_after t None"
  by (simp_all add: not_after_def)

text \<open>What both iterations yield is an initial part of the stream, all of it when they end normally.\<close>

lemma idle_loop_prefix:
  "idle_loop idle ab fin now items = (ys, e) \<Longrightarrow>
     (\<exists>k \<le> length items. ys = map snd (take k items)
        \<and> (0 < idle \<longrightarrow> (\<forall>(g, x) \<in> set (take k items). g \<le> idle))
        \<and> (e = StreamExhausted \<longrightarrow> k = length items \<and> fin \<noteq> None))
     \<and> (e = StreamSilent \<longrightarrow> idle \<le> 0)
     \<and> (e = StreamAborted \<longrightarrow> (\<exists>a. ab = Some (Some a)))
     \<and> (\<forall>l. e = StreamTimedOut l \<longrightarrow> l = idle \<and> 0 < idle)"
proof (induction idle ab fin now items arbitrary: ys e rule: idle_loop.induct)
  case (1 idle ab fin now)
  then show ?case
    by (auto simp: race_wait_cases abort_left_def split: raced.splits option.splits if_splits
        dest: race_wait_cases(2,3,4))
next
  case (2 idle ab fin now gap x items)
  show ?case
  proof (cases "race_wait (abort_left ab now) (if idle > 0 then Some idle else None) (Some (gap, x))")
    case (WorkDone t v)
    obtain zs e' where r: "idle_loop idle ab fin (now + t) items = (zs, e')" by fastforce
    from WorkDone have tv: "t = gap" "v = x" "0 < idle \<longrightarrow> gap \<le> idle"
      by (auto simp: race_wait_cases split: if_splits)
    from 2(2) WorkDone r have e: "ys = v # zs" "e = e'" by (simp_all add: Let_def)
    from 2(1) [OF WorkDone r] obtain k where "k \<le> length items" "zs = map snd (take k items)"
      "0 < idle \<longrightarrow> (\<forall>(g, x) \<in> set (take k items). g \<le> idle)"
      "e' = StreamExhausted \<longrightarrow> k = length items \<and> fin \<noteq> None" by blast
    with tv e have "\<exists>k \<le> length ((gap, x) # items). ys = map snd (take k ((gap, x) # items))
        \<and> (0 < idle \<longrightarrow> (\<forall>(g, x) \<in> set (take k ((gap, x) # items)). g \<le> idle))
        \<and> (e = StreamExhausted \<longrightarrow> k = length ((gap, x) # items) \<and> fin \<noteq> None)"
      by (intro exI [of _ "Suc k"]) auto
    with 2(1) [OF WorkDone r] e show ?thesis by blast
  next
    case (AbortDone a)
    with 2(2) show ?thesis
      by (auto dest!: race_wait_cases(2) simp: abort_left_def split: option.splits)
  next
    case (WaitTimeout u)
    with 2(2) show ?thesis by (auto dest!: race_wait_cases(3) split: if_splits)
  next
    case WaitForever
    with 2(2) show ?thesis by (auto dest!: race_wait_cases(4))
  qed
qed

definition gaps_total :: "(rat \<times> 'a) list \<Rightarrow> rat" where
  "gaps_total items = sum_list (map fst items)"

lemma deadline_loop_prefix:
  assumes "deadline_loop d ab fin now items = (ys, e)" and "0 < d" and "now \<le> d"
  shows "e \<noteq> StreamSilent
     \<and> (\<exists>k \<le> length items. ys = map snd (take k items) \<and> now + gaps_total (take k items) \<le> d
        \<and> (e = StreamExhausted \<longrightarrow> k = length items \<and> fin \<noteq> None))
     \<and> (\<forall>l. e = StreamTimedOut l \<longrightarrow> l = d)"
  using assms
proof (induction d ab fin now items arbitrary: ys e rule: deadline_loop.induct)
  case (1 d ab fin now)
  then show ?case
    by (auto simp: race_wait_cases deadline_left_def gaps_total_def max_def
        split: raced.splits option.splits if_splits dest: race_wait_cases(2,3,4))
next
  case (2 d ab fin now gap x items)
  show ?case
  proof (cases "race_wait (abort_left ab now) (deadline_left d now) (Some (gap, x))")
    case (WorkDone t v)
    obtain zs e' where r: "deadline_loop d ab fin (now + t) items = (zs, e')" by fastforce
    from WorkDone have tv: "t = gap" "v = x" and le: "now + gap \<le> d"
      using 2(3,4) by (auto simp: race_wait_cases deadline_left_def max_def split: if_splits)
    from 2(2) WorkDone r have e: "ys = v # zs" "e = e'" by (simp_all add: Let_def)
    note IH = 2(1) [OF WorkDone r 2(3), unfolded tv(1), OF le]
    then obtain k where "k \<le> length items" "zs = map snd (take k items)"
      "now + gap + gaps_total (take k items) \<le> d"
      "e' = StreamExhausted \<longrightarrow> k = length items \<and> fin \<noteq> None" by blast
    with tv e have "\<exists>k \<le> length ((gap, x) # items). ys = map snd (take k ((gap, x) # items))
        \<and> now + gaps_total (take k ((gap, x) # items)) \<le> d
        \<and> (e = StreamExhausted \<longrightarrow> k = length ((gap, x) # items) \<and> fin \<noteq> None)"
      by (intro exI [of _ "Suc k"]) (auto simp: gaps_total_def add.assoc)
    with IH e show ?thesis by blast
  next
    case (AbortDone a)
    with 2(2-) show ?thesis by (auto simp: gaps_total_def)
  next
    case (WaitTimeout u)
    with 2(2-) show ?thesis
      by (auto dest!: race_wait_cases(3) simp: deadline_left_def gaps_total_def max_def split: if_splits)
  next
    case WaitForever
    with 2(2-) show ?thesis by (auto dest!: race_wait_cases(4) simp: deadline_left_def)
  qed
qed

lemma iterate_with_deadline_eq:
  "0 < d \<Longrightarrow> iterate_with_deadline d ab src = deadline_loop d ab (src_end src) 0 (src_items src)"
  by (simp add: iterate_with_deadline_def)

lemma idle_full:
  assumes "iterate_with_idle_timeout idle ab src = (ys, e)" and "0 < idle"
  shows "idle_loop idle ab (src_end src) 0 (src_items src) = (ys, e)"
  using assms by (simp add: iterate_with_idle_timeout_def)

subsection \<open>Properties\<close>

text \<open>
  A stream read under an idle limit always ends; it has yielded an initial part
  of its items, none of which took longer than the limit, all of them when it ends normally;
  otherwise it ends by the abort event, if there is one to be set, or by the idle limit.
\<close>

theorem idle_stream_ends:
  assumes "iterate_with_idle_timeout idle ab src = (ys, e)" and "0 < idle"
  shows "e \<noteq> StreamSilent
    \<and> (\<exists>k \<le> length (src_items src). ys = map snd (take k (src_items src))
         \<and> (\<forall>(g, x) \<in> set (take k (src_items src)). g \<le> idle)
         \<and> (e = StreamExhausted \<longrightarrow> k = length (src_items src) \<and> src_end src \<noteq> None))
    \<and> (e = StreamAborted \<longrightarrow> (\<exists>a. ab = Some (Some a)))
    \<and> (e = StreamExhausted \<or> e = StreamAborted \<or> e = StreamTimedOut idle)"
  using idle_loop_prefix [OF idle_full [OF assms]] assms(2) by (cases e) auto

definition demo_source :: "nat stream_source" where
  "demo_source = \<lparr>src_items = [(1, 10), (2, 20), (9, 30)], src_end = Some 0\<rparr>"

theorem idle_stream_ends_witness:
  "\<exists>e. iterate_with_idle_timeout 5 (Some None) demo_source = ([10, 20], e) \<and> e = StreamTimedOut 5"
proof -
  have "iterate_with_idle_timeout 5 (Some None) demo_source = ([10, 20], StreamTimedOut 5)"
    by code_simp
  with idle_stream_ends [of 5 "Some None" demo_source "[10, 20]" "StreamTimedOut 5"] show ?thesis
    by simp
qed

text \<open>
  A stream read under a deadline always ends, its items were all yielded before the
  deadline, and a timeout reports the whole of it.
\<close>

theorem deadline_stream_ends:
  assumes "iterate_with_deadline d ab src = (ys, e)" and "0 < d"
  shows "e \<noteq> StreamSilent
    \<and> (\<exists>k \<le> length (src_items src). ys = map snd (take k (src_items src))
         \<and> gaps_total (take k (src_items src)) \<le> d
         \<and> (e = StreamExhausted \<longrightarrow> k = length (src_items src)))
    \<and> (\<forall>l. e = StreamTimedOut l \<longrightarrow> l = d)"
proof -
  from assms have "deadline_loop d ab (src_end src) 0 (src_items src) = (ys, e)"
    by (simp add: iterate_with_deadline_eq)
  from deadline_loop_prefix [OF this assms(2)] assms(2) show ?thesis by auto
qed

theorem deadline_stream_ends_witness:
  "\<exists>e. iterate_with_deadline 5 None demo_source = ([10, 20], e) \<and> e = StreamTimedOut 5"
proof -
  have "iterate_with_deadline 5 None demo_source = ([10, 20], StreamTimedOut 5)"
    by code_simp
  with deadline_stream_ends [of 5 None demo_source "[10, 20]" "StreamTimedOut 5"] show ?thesis
    by simp
qed

end
