(* ===== verification/Tools.thy ===== *)
theory Tools
  imports SessionTree Runtime "HOL-Library.Multiset"
begin

section \<open>Tools: registry, dispatch and the bounding of results\<close>

text \<open>
  \<^verbatim>\<open>src/pyclaw/core/agent/tools/registry.py\<close> (the registry with its rules for names, the
  parallel and the sequential batch of one round of tool calls, and the outcome of one call),
  \<^verbatim>\<open>tool_result_truncation.py\<close> (the bound on the text of a result) over the
  races of \<^verbatim>\<open>Runtime\<close>.  What a tool does is a parameter: a function from the tool, its
  arguments, its time limit and the state of the world to an outcome and the next state.
  The JSON reader and the printing of floats are parameters as well.
\<close>

subsection \<open>Results and their bound\<close>

record tool_result =
  tr_call_id :: string
  tr_content :: "content_block list"
  tr_error :: bool

definition DEFAULT_MAX_OUTPUT_CHARS :: int where
  "DEFAULT_MAX_OUTPUT_CHARS = 25000"

definition marker :: "int \<Rightarrow> string" where
  "marker dropped = ''[... '' @ show_int dropped @ '' more characters truncated]''"

fun block_len :: "content_block \<Rightarrow> nat" where
  "block_len (TextBlock s) = length s"
| "block_len (ImageBlock _ _) = 0"

definition text_length :: "content_block list \<Rightarrow> nat" where
  "text_length bs = sum_list (map block_len bs)"

text \<open>The loop of \<^verbatim>\<open>truncate_tool_result\<close>.\<close>

fun trunc_loop :: "nat \<Rightarrow> content_block list \<Rightarrow> content_block list" where
  "trunc_loop remaining [] = []"
| "trunc_loop remaining (TextBlock s # bs) =
     (if remaining = 0 then trunc_loop remaining bs
      else if length s \<le> remaining then TextBlock s # trunc_loop (remaining - length s) bs
      else TextBlock (take remaining s) # trunc_loop 0 bs)"
| "trunc_loop remaining (ImageBlock d m # bs) = ImageBlock d m # trunc_loop remaining bs"

definition truncate_tool_result :: "tool_result \<Rightarrow> int \<Rightarrow> tool_result" where
  "truncate_tool_result result max_chars =
     (if max_chars \<le> 0 then result
      else
        let total = text_length (tr_content result) in
        if int total \<le> max_chars then result
        else
          let new_blocks = trunc_loop (nat max_chars) (tr_content result);
              dropped = int total - max_chars
          in \<lparr>tr_call_id = tr_call_id result,
              tr_content = (if dropped > 0 then new_blocks @ [TextBlock (nl @ marker dropped)]
                            else new_blocks),
              tr_error = tr_error result\<rparr>)"

text \<open>
  An attribute of a tool that overrides a number: absent, a number, or a string or other value
  that \<^verbatim>\<open>int(...)\<close> and \<^verbatim>\<open>float(...)\<close> read (by the parameters) or refuse.
\<close>

definition trunc_rat :: "rat \<Rightarrow> int" where
  "trunc_rat q = (if q \<ge> 0 then \<lfloor>q\<rfloor> else \<lceil>q\<rceil>)"

fun to_int :: "(string \<Rightarrow> int option) \<Rightarrow> json \<Rightarrow> int option" where
  "to_int rd (JInt i) = Some i"
| "to_int rd (JBool b) = Some (if b then 1 else 0)"
| "to_int rd (JFloat q) = Some (trunc_rat q)"
| "to_int rd (JStr s) = rd s"
| "to_int rd _ = None"

fun to_float :: "(string \<Rightarrow> rat option) \<Rightarrow> json \<Rightarrow> rat option" where
  "to_float rd (JInt i) = Some (of_int i)"
| "to_float rd (JBool b) = Some (if b then 1 else 0)"
| "to_float rd (JFloat q) = Some q"
| "to_float rd (JStr s) = rd s"
| "to_float rd _ = None"

definition resolve_max_output_chars :: "(string \<Rightarrow> int option) \<Rightarrow> json \<Rightarrow> int \<Rightarrow> int" where
  "resolve_max_output_chars rd override default_cap =
     (if override = JNull then default_cap
      else case to_int rd override of
             None \<Rightarrow> default_cap
           | Some v \<Rightarrow> if v \<ge> 0 then v else default_cap)"

definition tool_timeout_seconds :: "(string \<Rightarrow> rat option) \<Rightarrow> json \<Rightarrow> rat \<Rightarrow> rat" where
  "tool_timeout_seconds rd override default_s =
     (if override = JNull then default_s
      else case to_float rd override of
             None \<Rightarrow> default_s
           | Some v \<Rightarrow> if v > 0 then v else 0)"

definition tool_result_to_llm_content :: "tool_result \<Rightarrow> string" where
  "tool_result_to_llm_content result =
     (let parts = List.maps (\<lambda>b. case b of TextBlock s \<Rightarrow> [s] | _ \<Rightarrow> []) (tr_content result)
      in if parts \<noteq> [] then py_join nl parts else [])"

definition error_result :: "string \<Rightarrow> string \<Rightarrow> tool_result" where
  "error_result call_id msg =
     \<lparr>tr_call_id = call_id, tr_content = [TextBlock msg], tr_error = True\<rparr>"

definition text_result :: "string \<Rightarrow> string \<Rightarrow> tool_result" where
  "text_result call_id msg =
     \<lparr>tr_call_id = call_id, tr_content = [TextBlock msg], tr_error = False\<rparr>"

subsection \<open>The registry\<close>

text \<open>
  A tool as the registry sees it.  \<open>t_class\<close> is its attribute \<^verbatim>\<open>tool_class\<close>, if it has one;
  \<open>t_mcp\<close> says whether it has a \<^verbatim>\<open>server_config\<close>, as imported tools do, and then \<open>t_forced\<close>
  is the tier this configuration forces and \<open>t_server\<close> the tool's server.
\<close>

datatype tier = ReadOnly | Approval | Yolo

record tool =
  t_name :: string
  t_description :: string
  t_params :: jobj
  t_side_effect :: bool
  t_class :: "string option"
  t_mcp :: bool
  t_timeout :: json
  t_max_output :: json
  t_forced :: "tier option"
  t_server :: "string option"

type_synonym registry = "(string \<times> tool) list"

datatype register_error =
    AlreadyRegistered string
  | InvalidToolClass string "string option"
  | ReservedDoubleUnderscore string
  | ReservedColon string
  | McpNameForm string
  | McpServerPrefix string

definition VALID_TOOL_CLASSES :: "string list" where
  "VALID_TOOL_CLASSES = [''read'', ''memory-write-safe'', ''write'']"

definition colon_count :: "string \<Rightarrow> nat" where
  "colon_count s = length (filter (\<lambda>c. c = CHR '':'') s)"

definition server_part :: "string \<Rightarrow> string" where
  "server_part s = takeWhile (\<lambda>c. c \<noteq> CHR '':'') s"

definition register :: "registry \<Rightarrow> tool \<Rightarrow> register_error + registry" where
  "register reg t =
     (let name = t_name t in
        if name \<in> fst ` set reg then Inl (AlreadyRegistered name)
        else if (case t_class t of None \<Rightarrow> True | Some c \<Rightarrow> c \<notin> set VALID_TOOL_CLASSES)
        then Inl (InvalidToolClass name (t_class t))
        else if \<not> t_mcp t \<and> py_in ''__'' name then Inl (ReservedDoubleUnderscore name)
        else if py_in '':'' name \<and> \<not> t_mcp t then Inl (ReservedColon name)
        else if t_mcp t \<and> colon_count name \<noteq> 1 then Inl (McpNameForm name)
        else if t_mcp t \<and> py_in ''__'' (server_part name) then Inl (McpServerPrefix name)
        else Inr (AList.update name t reg))"

definition unregister :: "registry \<Rightarrow> string \<Rightarrow> registry \<times> bool" where
  "unregister reg name =
     (if name \<in> fst ` set reg then (AList.delete name reg, True) else (reg, False))"

definition tool_get :: "registry \<Rightarrow> string option \<Rightarrow> tool option" where
  "tool_get reg name =
     (case name of
        None \<Rightarrow> None
      | Some n \<Rightarrow>
          if n = [] then None
          else case map_of reg n of
                 Some t \<Rightarrow> Some t
               | None \<Rightarrow>
                   if py_in ''__'' n then map_of reg (py_replace1 ''__'' '':'' n) else None)"

definition tool_names :: "registry \<Rightarrow> string list" where
  "tool_names reg = map fst reg"

definition registry_contains :: "registry \<Rightarrow> string \<Rightarrow> bool" where
  "registry_contains reg name = (name \<in> fst ` set reg)"

definition llm_name :: "tool \<Rightarrow> string" where
  "llm_name t =
     (if py_in '':'' (t_name t) then replace_char_str (CHR '':'') ''__'' (t_name t) else t_name t)"

definition to_openai_function :: "tool \<Rightarrow> jobj" where
  "to_openai_function t =
     (let params = (if t_params t \<noteq> [] then t_params t
                    else [(''type'', JStr ''object''), (''properties'', JObj [])]);
          params' = (if ''type'' \<notin> fst ` set params
                     then [(''type'', JStr ''object''),
                           (''properties'', jget_or (JObj params) ''properties'' params)]
                     else params)
      in [(''type'', JStr ''function''),
          (''function'', JObj
             [(''name'', JStr (llm_name t)),
              (''description'', JStr (t_description t)),
              (''parameters'', JObj params')])])"

definition list_for_llm :: "registry \<Rightarrow> jobj list" where
  "list_for_llm reg = map (\<lambda>(n, t). to_openai_function t) reg"

subsection \<open>The calls\<close>

text \<open>\<^verbatim>\<open>call.get("function") or {}\<close>; a name that is not a string is left to the type checker.\<close>

definition function_name :: "jobj \<Rightarrow> string option" where
  "function_name call =
     (case jget ''function'' call of
        JObj fn \<Rightarrow> (case jget ''name'' fn of JStr s \<Rightarrow> Some s | _ \<Rightarrow> None)
      | _ \<Rightarrow> None)"

definition function_args :: "(string \<Rightarrow> json option) \<Rightarrow> jobj \<Rightarrow> jobj" where
  "function_args loads call =
     (case jget ''function'' call of
        JObj fn \<Rightarrow>
          (case jget ''arguments'' fn of
             JObj d \<Rightarrow> d
           | JStr s \<Rightarrow>
               (case loads s of
                  Some (JObj d) \<Rightarrow> d
                | _ \<Rightarrow> [(''_raw'', JStr s)])
           | _ \<Rightarrow> [])
      | _ \<Rightarrow> [])"

text \<open>
  What the execution of a tool under its time limit comes to: a result, a timeout, an abort, a
  dead server of an imported tool, or another exception with its type and text.
\<close>

datatype tool_run =
    RunResult tool_result
  | RunTimedOut rat
  | RunAborted
  | RunServerDead string
  | RunRaised string string

text \<open>
  The surroundings of a dispatch: the JSON reader, the readers of numbers, the printing of
  floats, the tools, and the spawning of the handler for a dead server when both the task manager
  and the handler are there (what it raises is only logged).
\<close>

record 'w tool_env =
  te_loads :: "string \<Rightarrow> json option"
  te_float :: "string \<Rightarrow> rat option"
  te_show_float :: "rat \<Rightarrow> string"
  te_exec :: "tool \<Rightarrow> jobj \<Rightarrow> rat \<Rightarrow> 'w \<Rightarrow> tool_run \<times> 'w"
  te_death :: "(string \<Rightarrow> 'w \<Rightarrow> 'w) option"

definition call_id_of :: "jobj \<Rightarrow> string" where
  "call_id_of call = as_str (jget_or (JStr []) ''id'' call)"

definition dispatch_single ::
    "'w tool_env \<Rightarrow> registry \<Rightarrow> rat \<Rightarrow> jobj \<Rightarrow> 'w \<Rightarrow> tool_result \<times> 'w" where
  "dispatch_single env reg default_timeout_s call w =
     (let call_id = call_id_of call; args = function_args (te_loads env) call in
      case function_name call of
        None \<Rightarrow> (error_result call_id ''tool call missing function name'', w)
      | Some name \<Rightarrow>
          if name = [] then (error_result call_id ''tool call missing function name'', w)
          else
            case tool_get reg (Some name) of
              None \<Rightarrow> (error_result call_id (''tool '' @ py_repr name @ '' not registered''), w)
            | Some t \<Rightarrow>
                (case te_exec env t args
                        (tool_timeout_seconds (te_float env) (t_timeout t) default_timeout_s) w of
                   (RunResult r, w') \<Rightarrow> (r, w')
                 | (RunTimedOut s, w') \<Rightarrow>
                     (error_result call_id (name @ '' timed out after '' @ te_show_float env s @ ''s''), w')
                 | (RunAborted, w') \<Rightarrow> (error_result call_id (name @ '' aborted''), w')
                 | (RunServerDead srv, w') \<Rightarrow>
                     (error_result call_id
                        (''MCP server '' @ py_repr srv @ '' is unavailable. ''
                         @ ''Removed from this conversation. Use /mcp restart '' @ srv @ '' to retry.''),
                      (case te_death env of None \<Rightarrow> w' | Some f \<Rightarrow> f srv w'))
                 | (RunRaised ty msg, w') \<Rightarrow>
                     (error_result call_id (name @ '' raised '' @ ty @ '': '' @ msg), w')))"

text \<open>
  \<^verbatim>\<open>execute_tool_calls\<close>.  The calls of tools without side effects go to the parallel batch,
  which \<^verbatim>\<open>asyncio.gather\<close> runs first; the others run one after the other.  The parallel batch
  is run in an order chosen by the event loop: the function \<open>sched\<close>, which only reorders.
\<close>

definition is_sequential :: "registry \<Rightarrow> jobj \<Rightarrow> bool" where
  "is_sequential reg call =
     (case (case function_name call of
              None \<Rightarrow> None | Some n \<Rightarrow> if n = [] then None else tool_get reg (Some n)) of
        None \<Rightarrow> True
      | Some t \<Rightarrow> t_side_effect t)"

definition parallel_calls :: "registry \<Rightarrow> jobj list \<Rightarrow> (nat \<times> jobj) list" where
  "parallel_calls reg calls = filter (\<lambda>(i, c). \<not> is_sequential reg c) (enumerate 0 calls)"

definition sequential_calls :: "registry \<Rightarrow> jobj list \<Rightarrow> (nat \<times> jobj) list" where
  "sequential_calls reg calls = filter (\<lambda>(i, c). is_sequential reg c) (enumerate 0 calls)"

fun run_calls ::
    "'w tool_env \<Rightarrow> registry \<Rightarrow> rat \<Rightarrow> (nat \<times> jobj) list
     \<Rightarrow> tool_result option list \<times> 'w \<Rightarrow> tool_result option list \<times> 'w" where
  "run_calls env reg limit_s [] (results, w) = (results, w)"
| "run_calls env reg limit_s ((i, call) # cs) (results, w) =
     (let (r, w') = dispatch_single env reg limit_s call w
      in run_calls env reg limit_s cs (results[i := Some r], w'))"

definition execute_tool_calls ::
    "'w tool_env \<Rightarrow> ((nat \<times> jobj) list \<Rightarrow> (nat \<times> jobj) list) \<Rightarrow> registry \<Rightarrow> rat \<Rightarrow> jobj list
     \<Rightarrow> 'w \<Rightarrow> tool_result option list \<times> 'w" where
  "execute_tool_calls env sched reg default_tool_timeout_s tool_calls w =
     run_calls env reg default_tool_timeout_s (sequential_calls reg tool_calls)
       (run_calls env reg default_tool_timeout_s (sched (parallel_calls reg tool_calls))
          (replicate (length tool_calls) None, w))"

text \<open>
  The wrapper of \<^verbatim>\<open>wrap_tool_with_abort\<close>: it keeps the attributes (the class of a tool without
  one becomes \<^verbatim>\<open>write\<close>) and checks the abort event before it runs the tool.
\<close>

definition wrap_attributes :: "tool \<Rightarrow> tool" where
  "wrap_attributes t =
     t\<lparr>t_class := Some (case t_class t of None \<Rightarrow> ''write'' | Some c \<Rightarrow> c), t_mcp := False,
       t_forced := None, t_server := None\<rparr>"

definition check_abort_or_run ::
    "(tool \<Rightarrow> jobj \<Rightarrow> rat \<Rightarrow> 'w \<Rightarrow> tool_run \<times> 'w) \<Rightarrow> ('w \<Rightarrow> bool)
     \<Rightarrow> tool \<Rightarrow> jobj \<Rightarrow> rat \<Rightarrow> 'w \<Rightarrow> tool_run \<times> 'w" where
  "check_abort_or_run ex abort_set t args limit w =
     (if abort_set w
      then (RunResult (error_result (as_str (jget_or (JStr []) ''_call_id'' args))
              (t_name t @ '': aborted before execution'')), w)
      else ex t args limit w)"

subsection \<open>Lemmas: the registry\<close>

text \<open>What every tool of a registry has been checked for.\<close>

definition entry_ok :: "string \<times> tool \<Rightarrow> bool" where
  "entry_ok = (\<lambda>(n, t). n = t_name t
     \<and> (\<exists>c \<in> set VALID_TOOL_CLASSES. t_class t = Some c)
     \<and> (if t_mcp t then colon_count n = 1 \<and> \<not> py_in ''__'' (server_part n)
        else CHR '':'' \<notin> set n \<and> \<not> py_in ''__'' n))"

definition registry_ok :: "registry \<Rightarrow> bool" where
  "registry_ok reg = (distinct (map fst reg) \<and> list_all entry_ok reg)"

lemma registry_ok_Nil: "registry_ok []"
  by (simp add: registry_ok_def)

lemma register_ok_entry: "register reg t = Inr reg' \<Longrightarrow> t_name t \<notin> fst ` set reg \<and> entry_ok (t_name t, t)"
  by (auto simp: register_def Let_def entry_ok_def split: if_splits option.splits)

lemma register_Inr:
  "register reg t = Inr reg' \<longleftrightarrow>
     t_name t \<notin> fst ` set reg \<and> entry_ok (t_name t, t) \<and> reg' = reg @ [(t_name t, t)]"
proof -
  have "reg' = AList.update (t_name t) t reg" if "register reg t = Inr reg'"
    using that by (auto simp: register_def Let_def split: if_splits option.splits)
  moreover have "register reg t = Inr (AList.update (t_name t) t reg)"
    if "t_name t \<notin> fst ` set reg" "entry_ok (t_name t, t)"
    using that by (auto simp: register_def Let_def entry_ok_def split: if_splits)
  ultimately show ?thesis
    using register_ok_entry dict_update_fresh by (metis sum.inject(2))
qed

lemma register_registry_ok: "registry_ok reg \<Longrightarrow> register reg t = Inr reg' \<Longrightarrow> registry_ok reg'"
  by (auto simp: register_Inr registry_ok_def)

lemma registry_ok_lookup:
  "registry_ok reg \<Longrightarrow> (n, t) \<in> set reg \<Longrightarrow> map_of reg n = Some t \<and> entry_ok (n, t)"
  by (auto simp: registry_ok_def list_all_iff)

lemma registry_ok_map_of:
  "registry_ok reg \<Longrightarrow> map_of reg n = Some t \<Longrightarrow> entry_ok (n, t)"
  by (auto simp: registry_ok_def list_all_iff dest: map_of_SomeD)

lemma colon_count_append [simp]: "colon_count (a @ b) = colon_count a + colon_count b"
  by (simp add: colon_count_def)

lemma colon_count_simps [simp]:
  "colon_count [] = 0"
  "colon_count (c # s) = (if c = CHR '':'' then Suc (colon_count s) else colon_count s)"
  by (simp_all add: colon_count_def)

lemma colon_count_0: "colon_count s = 0 \<longleftrightarrow> CHR '':'' \<notin> set s"
  by (auto simp: colon_count_def filter_empty_conv)

lemma colon_count_1:
  assumes "colon_count n = 1"
  obtains s u where "n = s @ '':'' @ u" "CHR '':'' \<notin> set s" "CHR '':'' \<notin> set u" "server_part n = s"
proof -
  have "CHR '':'' \<in> set n" using assms colon_count_0 [of n] by auto
  then obtain s u where n: "n = s @ CHR '':'' # u" "CHR '':'' \<notin> set s"
    by (meson split_list_first)
  with assms have "CHR '':'' \<notin> set u" by (simp flip: colon_count_0)
  moreover have "server_part n = s"
    using n by (auto simp: server_part_def takeWhile_append)
  ultimately show thesis using n that by simp
qed

lemma replace_char_str_id: "c \<notin> set s \<Longrightarrow> replace_char_str c r s = s"
  by (induction s) (auto simp: replace_char_str_def)

lemma replace_char_str_append [simp]:
  "replace_char_str c r (a @ b) = replace_char_str c r a @ replace_char_str c r b"
  "replace_char_str c r (x # xs) = (if x = c then r else [x]) @ replace_char_str c r xs"
  "replace_char_str c r [] = []"
  by (simp_all add: replace_char_str_def)

lemma llm_name_mcp:
  "t_name t = s @ '':'' @ u \<Longrightarrow> CHR '':'' \<notin> set s \<Longrightarrow> CHR '':'' \<notin> set u
     \<Longrightarrow> llm_name t = s @ ''__'' @ u"
  by (simp add: llm_name_def replace_char_str_id)

lemma py_find_sep:
  assumes "\<not> py_in ''__'' s" and "s = [] \<or> last s \<noteq> CHR ''_''"
  shows "py_find ''__'' (s @ ''__'' @ u) = Some (length s)"
  using assms
proof (induction s)
  case (Cons c s)
  have "\<not> starts_with ''__'' (c # s @ ''__'' @ u)"
    using Cons.prems by (cases s) (auto simp: py_in_def split: if_splits)
  moreover have "\<not> py_in ''__'' s"
    using Cons.prems(1) by (auto simp: py_in_def split: if_splits)
  ultimately show ?case using Cons by (auto split: if_splits)
qed simp

lemma py_in_append: "py_in p b \<Longrightarrow> py_in p (a @ b)" "py_in p a \<Longrightarrow> py_in p (a @ b)"
  by (auto simp: py_in_iff) (metis append_assoc)+

lemma llm_name_not_mcp: "entry_ok (t_name t, t) \<Longrightarrow> \<not> t_mcp t \<Longrightarrow> llm_name t = t_name t"
  by (auto simp: entry_ok_def llm_name_def split: if_splits)

lemma get_llm_name_mcp:
  assumes "registry_ok reg" and "t_name t = s @ '':'' @ u" and "CHR '':'' \<notin> set s" and "CHR '':'' \<notin> set u"
  shows "tool_get reg (Some (llm_name t)) = map_of reg (py_replace1 ''__'' '':'' (s @ ''__'' @ u))"
proof -
  have name: "llm_name t = s @ ''__'' @ u" using llm_name_mcp [OF assms(2-4)] .
  have has: "py_in ''__'' (s @ ''__'' @ u)" by (auto simp: py_in_iff)
  have "map_of reg (s @ ''__'' @ u) = None"
  proof (rule ccontr)
    assume "map_of reg (s @ ''__'' @ u) \<noteq> None"
    then obtain t' where "map_of reg (s @ ''__'' @ u) = Some t'" by auto
    with assms(1) have ok: "entry_ok (s @ ''__'' @ u, t')" by (rule registry_ok_map_of)
    moreover have "colon_count (s @ ''__'' @ u) = 0" using assms(3,4) by (simp add: colon_count_0)
    ultimately show False using has
      by (auto simp: entry_ok_def simp del: colon_count_append split: if_splits)
  qed
  with has name show ?thesis by (simp add: tool_get_def)
qed

lemma get_llm_name:
  assumes "registry_ok reg" and "(n, t) \<in> set reg"
    and "t_mcp t \<longrightarrow> server_part n = [] \<or> last (server_part n) \<noteq> CHR ''_''"
    and "n \<noteq> []"
  shows "tool_get reg (Some (llm_name t)) = Some t"
proof -
  from registry_ok_lookup [OF assms(1,2)] have m: "map_of reg n = Some t" "entry_ok (n, t)" by auto
  then have n: "n = t_name t" by (simp add: entry_ok_def)
  show ?thesis
  proof (cases "t_mcp t")
    case False
    with m n assms(4) show ?thesis by (simp add: llm_name_not_mcp tool_get_def)
  next
    case True
    with m(2) have c: "colon_count n = 1" "\<not> py_in ''__'' (server_part n)"
      by (auto simp: entry_ok_def)
    from colon_count_1 [OF c(1)] obtain s u where su: "n = s @ '':'' @ u" "CHR '':'' \<notin> set s"
      "CHR '':'' \<notin> set u" "server_part n = s" by blast
    with c(2) assms(3) True have "py_find ''__'' (s @ ''__'' @ u) = Some (length s)"
      by (intro py_find_sep) auto
    then have "py_replace1 ''__'' '':'' (s @ ''__'' @ u) = n"
      using su(1) by (simp add: py_replace1_def)
    with get_llm_name_mcp [OF assms(1), of t s u] su n m show ?thesis by simp
  qed
qed

subsection \<open>Properties of the registry\<close>

text \<open>The tools whose server prefix, if they have one, does not end in an underscore.\<close>

definition clean_prefix :: "tool \<Rightarrow> bool" where
  "clean_prefix t = (t_name t \<noteq> [] \<and> (t_mcp t \<longrightarrow>
     server_part (t_name t) = [] \<or> last (server_part (t_name t)) \<noteq> CHR ''_''))"

text \<open>
  Registration keeps the naming rules of the registry, and the name a tool is
  shown to the model under leads back to that tool: a call by this name finds it.  So no two
  tools are shown under the same name.
\<close>

theorem registered_tool_is_found_by_llm_name:
  assumes "registry_ok reg" and "register reg t = Inr reg'"
    and "\<forall>u \<in> snd ` set reg'. clean_prefix u"
  shows "registry_ok reg'
    \<and> tool_names reg' = tool_names reg @ [t_name t]
    \<and> (\<forall>u \<in> snd ` set reg'. tool_get reg' (Some (llm_name u)) = Some u)
    \<and> inj_on llm_name (snd ` set reg')"
proof -
  from assms(1,2) have ok: "registry_ok reg'" by (rule register_registry_ok)
  have found: "tool_get reg' (Some (llm_name u)) = Some u" if u: "u \<in> snd ` set reg'" for u
  proof -
    from u obtain n where n: "(n, u) \<in> set reg'" by auto
    with ok have "n = t_name u" using registry_ok_lookup [OF ok n] by (simp add: entry_ok_def)
    with n ok assms(3) u show ?thesis
      by (intro get_llm_name [of reg' n u]) (auto simp: clean_prefix_def)
  qed
  then have "inj_on llm_name (snd ` set reg')"
    by (metis inj_onI option.inject)
  with ok found assms(2) show ?thesis
    by (simp add: register_Inr tool_names_def)
qed

definition demo_tool :: "string \<Rightarrow> bool \<Rightarrow> bool \<Rightarrow> tool" where
  "demo_tool n imported effect =
     \<lparr>t_name = n, t_description = ''d'', t_params = [], t_side_effect = effect,
      t_class = Some ''read'', t_mcp = imported, t_timeout = JNull, t_max_output = JNull,
      t_forced = None, t_server = None\<rparr>"

theorem registered_tool_is_found_by_llm_name_witness:
  "\<exists>reg'. register [(''read_file'', demo_tool ''read_file'' False False)] (demo_tool ''git:log__all'' True False)
     = Inr reg' \<and> tool_get reg' (Some ''git__log__all'') = Some (demo_tool ''git:log__all'' True False)"
proof -
  let ?r = "[(''read_file'', demo_tool ''read_file'' False False)]"
  let ?t = "demo_tool ''git:log__all'' True False"
  have ok: "registry_ok ?r"
    by (auto simp: registry_ok_def entry_ok_def demo_tool_def VALID_TOOL_CLASSES_def py_in_def)
  have reg: "register ?r ?t = Inr (?r @ [(''git:log__all'', ?t)])" by code_simp
  have nm: "llm_name ?t = ''git__log__all''" by code_simp
  have "\<forall>u \<in> snd ` set (?r @ [(''git:log__all'', ?t)]). clean_prefix u"
    by (simp add: clean_prefix_def demo_tool_def server_part_def)
  from registered_tool_is_found_by_llm_name [OF ok reg this] reg nm show ?thesis by auto
qed

text \<open>
  A server prefix that ends in an underscore passes registration, but its tools
  cannot be reached: the model is shown \<^verbatim>\<open>a___t\<close> for \<^verbatim>\<open>a_:t\<close>, and the lookup turns the
  first double underscore back into the colon and asks for \<^verbatim>\<open>a:_t\<close>.
\<close>

theorem trailing_underscore_tool_is_lost:
  assumes "registry_ok reg" and "register reg t = Inr reg'" and "t_mcp t"
    and "t_name t = s @ ''_:'' @ u" and "map_of reg (s @ '':_'' @ u) = None"
  shows "map_of reg' (t_name t) = Some t \<and> tool_get reg' (Some (llm_name t)) = None"
proof -
  from assms(2) have r: "t_name t \<notin> fst ` set reg" "entry_ok (t_name t, t)" "reg' = reg @ [(t_name t, t)]"
    by (simp_all add: register_Inr)
  from r(2) assms(3) have c: "colon_count (t_name t) = 1" "\<not> py_in ''__'' (server_part (t_name t))"
    by (auto simp: entry_ok_def)
  from c(1) assms(4) have "colon_count s = 0" "colon_count u = 0" by simp_all
  then have nc: "CHR '':'' \<notin> set (s @ ''_'')" "CHR '':'' \<notin> set u" by (simp_all add: colon_count_0)
  have "server_part (t_name t) = s @ ''_''"
    using nc(1) by (simp add: server_part_def assms(4) takeWhile_append)
  with c(2) have no: "\<not> py_in ''__'' (s @ ''_'')" by simp
  have ends: "s = [] \<or> last s \<noteq> CHR ''_''"
  proof (rule ccontr)
    assume "\<not> ?thesis"
    then obtain s' where "s = s' @ ''_''" by (metis append_butlast_last_id)
    with no show False by (auto simp: py_in_iff)
  qed
  from no have "\<not> py_in ''__'' s" using py_in_append(2) by blast
  from py_find_sep [OF this ends, of "''_'' @ u"]
  have "py_replace1 ''__'' '':'' ((s @ ''_'') @ ''__'' @ u) = s @ '':_'' @ u"
    by (simp add: py_replace1_def)
  moreover have "t_name t = (s @ ''_'') @ '':'' @ u" using assms(4) by simp
  ultimately have "tool_get reg' (Some (llm_name t)) = map_of reg' (s @ '':_'' @ u)"
    using get_llm_name_mcp [of reg' t "s @ ''_''" u] register_registry_ok [OF assms(1,2)] nc by simp
  moreover from r(1) have "map_of reg (t_name t) = None" by (simp add: map_of_eq_None_iff)
  ultimately show ?thesis using assms(4,5) r(3) by (simp add: map_add_def)
qed

theorem trailing_underscore_tool_is_lost_witness:
  "\<exists>reg'. register [] (demo_tool ''my_:run'' True False) = Inr reg'
     \<and> registry_contains reg' ''my_:run'' \<and> tool_get reg' (Some ''my___run'') = None"
proof -
  let ?t = "demo_tool ''my_:run'' True False"
  have reg: "register [] ?t = Inr [(''my_:run'', ?t)]" by code_simp
  have nm: "llm_name ?t = ''my___run''" by code_simp
  have "tool_get [(''my_:run'', ?t)] (Some (llm_name ?t)) = None"
    using trailing_underscore_tool_is_lost [OF registry_ok_Nil reg, of "''my''" "''run''"]
    by (simp add: demo_tool_def)
  with reg nm show ?thesis by (simp add: registry_contains_def)
qed

subsection \<open>Properties of the bound on results\<close>

definition texts_of :: "content_block list \<Rightarrow> string" where
  "texts_of bs = concat (map (\<lambda>b. case b of TextBlock s \<Rightarrow> s | _ \<Rightarrow> []) bs)"

definition images_of :: "content_block list \<Rightarrow> content_block list" where
  "images_of bs = filter (\<lambda>b. case b of ImageBlock _ _ \<Rightarrow> True | _ \<Rightarrow> False) bs"

lemma trunc_loop_texts: "texts_of (trunc_loop n bs) = take n (texts_of bs)"
  by (induction n bs rule: trunc_loop.induct) (auto simp: texts_of_def)

lemma trunc_loop_images: "images_of (trunc_loop n bs) = images_of bs"
  by (induction n bs rule: trunc_loop.induct) (auto simp: images_of_def)

lemma text_length_texts: "text_length bs = length (texts_of bs)"
  by (induction bs) (auto simp: text_length_def texts_of_def split: content_block.splits)

text \<open>
  A result over the bound keeps exactly the first \<open>max_chars\<close> characters of its
  text, whichever blocks they are spread over, then the note with the number of characters
  dropped; its images, its call and its error mark stay.  Any other result is left as it is,
  and a bound of zero or less is no bound.
\<close>

theorem truncation_spec:
  "let r' = truncate_tool_result r max_chars in
   tr_call_id r' = tr_call_id r \<and> tr_error r' = tr_error r
   \<and> images_of (tr_content r') = images_of (tr_content r)
   \<and> (if 0 < max_chars \<and> max_chars < int (length (texts_of (tr_content r)))
      then texts_of (tr_content r')
             = take (nat max_chars) (texts_of (tr_content r))
               @ nl @ marker (int (length (texts_of (tr_content r))) - max_chars)
      else r' = r)"
proof -
  have sn: "texts_of (bs @ [TextBlock s]) = texts_of bs @ s" "images_of (bs @ [TextBlock s]) = images_of bs"
    for bs s by (simp_all add: texts_of_def images_of_def)
  show ?thesis
    by (auto simp: truncate_tool_result_def Let_def text_length_texts trunc_loop_texts
        trunc_loop_images sn)
qed

subsection \<open>Properties of one round of calls\<close>

lemma run_calls_spec:
  assumes "distinct (map fst cs)" and "\<forall>(i, c) \<in> set cs. i < length rs"
  shows "length (fst (run_calls env reg l cs (rs, w))) = length rs
    \<and> (\<forall>i. i \<notin> fst ` set cs \<longrightarrow> fst (run_calls env reg l cs (rs, w)) ! i = rs ! i)
    \<and> (\<forall>(i, c) \<in> set cs. \<exists>v. fst (run_calls env reg l cs (rs, w)) ! i
          = Some (fst (dispatch_single env reg l c v)))"
  using assms
proof (induction cs arbitrary: rs w)
  case Nil
  then show ?case by simp
next
  case (Cons ic cs)
  obtain i c where ic: "ic = (i, c)" by fastforce
  obtain r w' where d: "dispatch_single env reg l c w = (r, w')" by fastforce
  have IH: "length (fst (run_calls env reg l cs (rs[i := Some r], w'))) = length rs
    \<and> (\<forall>j. j \<notin> fst ` set cs \<longrightarrow> fst (run_calls env reg l cs (rs[i := Some r], w')) ! j
          = rs[i := Some r] ! j)
    \<and> (\<forall>(j, c) \<in> set cs. \<exists>v. fst (run_calls env reg l cs (rs[i := Some r], w')) ! j
          = Some (fst (dispatch_single env reg l c v)))"
    using Cons.IH [of "rs[i := Some r]" w'] Cons.prems by simp
  have "i \<notin> fst ` set cs" "i < length rs" using Cons.prems ic by auto
  with IH have "fst (run_calls env reg l cs (rs[i := Some r], w')) ! i = Some r" by simp
  then have "\<exists>v. fst (run_calls env reg l cs (rs[i := Some r], w')) ! i
      = Some (fst (dispatch_single env reg l c v))"
    using d by (metis fst_conv)
  with IH ic d show ?case by auto
qed

lemma call_lists:
  "set (parallel_calls reg calls) = {(i, c). i < length calls \<and> c = calls ! i \<and> \<not> is_sequential reg c}"
  "set (sequential_calls reg calls) = {(i, c). i < length calls \<and> c = calls ! i \<and> is_sequential reg c}"
  "distinct (map fst (parallel_calls reg calls))"
  "distinct (map fst (sequential_calls reg calls))"
proof -
  have "set (enumerate 0 calls) = {(i, c). i < length calls \<and> c = calls ! i}"
    by (auto simp: enumerate_eq_zip set_zip) (metis nth_upt add_0)
  then show "set (parallel_calls reg calls) = {(i, c). i < length calls \<and> c = calls ! i \<and> \<not> is_sequential reg c}"
    "set (sequential_calls reg calls) = {(i, c). i < length calls \<and> c = calls ! i \<and> is_sequential reg c}"
    by (auto simp: parallel_calls_def sequential_calls_def)
  show "distinct (map fst (parallel_calls reg calls))" "distinct (map fst (sequential_calls reg calls))"
    unfolding parallel_calls_def sequential_calls_def
    by (rule distinct_map_filter, simp)+
qed

text \<open>What the event loop may do to the parallel batch: put it into another order.\<close>

definition reorders :: "('a list \<Rightarrow> 'a list) \<Rightarrow> bool" where
  "reorders f = (\<forall>xs. mset (f xs) = mset xs)"

lemma reorders_props: "reorders f \<Longrightarrow> set (f xs) = set xs \<and> distinct (map g (f xs)) = distinct (map g xs)"
  by (metis distinct_map mset_eq_imp_distinct_iff reorders_def set_mset_mset)

lemma execute_tool_calls_length:
  "length (fst (execute_tool_calls env sched reg limit_s calls w)) = length calls"
proof -
  have len: "length (fst (run_calls env reg limit_s cs st)) = length (fst st)" for cs st
  proof (induction cs arbitrary: st)
    case Nil
    then show ?case by (cases st) simp
  next
    case (Cons c cs)
    then show ?case by (cases st; cases c) (simp add: split_def Let_def)
  qed
  show ?thesis by (simp add: execute_tool_calls_def len)
qed

text \<open>
  One round of tool calls answers every call once, in the order of the calls and
  whatever the order in which the event loop runs the parallel batch: the result at each
  position is the outcome of dispatching the call at this position.
\<close>

theorem every_call_is_answered_in_order:
  assumes "reorders sched"
  shows "length (fst (execute_tool_calls env sched reg limit_s calls w)) = length calls
    \<and> (\<forall>i < length calls. \<exists>v. fst (execute_tool_calls env sched reg limit_s calls w) ! i
          = Some (fst (dispatch_single env reg limit_s (calls ! i) v)))"
proof -
  obtain rs v where par: "run_calls env reg limit_s (sched (parallel_calls reg calls))
      (replicate (length calls) None, w) = (rs, v)" by fastforce
  note P = run_calls_spec [of "sched (parallel_calls reg calls)" "replicate (length calls) None"
      env reg limit_s w, unfolded par]
  have p: "length rs = length calls"
    "\<forall>i < length calls. \<not> is_sequential reg (calls ! i) \<longrightarrow>
       (\<exists>u. rs ! i = Some (fst (dispatch_single env reg limit_s (calls ! i) u)))"
    using P reorders_props [OF assms, of "parallel_calls reg calls" fst]
    by (auto simp: call_lists)
  note S = run_calls_spec [of "sequential_calls reg calls" rs env reg limit_s v]
  have e: "execute_tool_calls env sched reg limit_s calls w
      = run_calls env reg limit_s (sequential_calls reg calls) (rs, v)"
    by (simp add: execute_tool_calls_def par)
  show ?thesis
  proof (intro conjI allI impI)
    show "length (fst (execute_tool_calls env sched reg limit_s calls w)) = length calls"
      using S p(1) by (auto simp: e call_lists)
    fix i assume i: "i < length calls"
    show "\<exists>v. fst (execute_tool_calls env sched reg limit_s calls w) ! i
          = Some (fst (dispatch_single env reg limit_s (calls ! i) v))"
    proof (cases "is_sequential reg (calls ! i)")
      case True
      with S p(1) i show ?thesis by (auto simp: e call_lists)
    next
      case False
      then have "i \<notin> fst ` set (sequential_calls reg calls)" by (auto simp: call_lists)
      with S p i False show ?thesis by (auto simp: e call_lists)
    qed
  qed
qed

definition demo_call :: "string \<Rightarrow> string \<Rightarrow> jobj" where
  "demo_call i n = [(''id'', JStr i),
     (''function'', JObj [(''name'', JStr n), (''arguments'', JObj [(''k'', JStr i)])])]"

text \<open>A world that counts; tools without effect report the count, the others also add one.\<close>

definition demo_tools :: "nat tool_env" where
  "demo_tools = \<lparr>te_loads = (\<lambda>_. None), te_float = (\<lambda>_. None), te_show_float = (\<lambda>_. ''1''),
     te_exec = (\<lambda>t args l w. (RunResult (text_result (as_str (jget ''k'' args)) (show_nat w)),
        if t_side_effect t then w + 1 else w)),
     te_death = None\<rparr>"

definition demo_registry :: registry where
  "demo_registry = [(''look'', demo_tool ''look'' False False), (''act'', demo_tool ''act'' False True)]"

theorem every_call_is_answered_in_order_witness:
  "let rs = fst (execute_tool_calls demo_tools rev demo_registry 1
                   [demo_call ''c1'' ''act'', demo_call ''c2'' ''look'', demo_call ''c3'' ''none''] 7)
   in length rs = 3
      \<and> rs ! 1 = Some (text_result ''c2'' ''7'')
      \<and> rs ! 2 = Some (error_result ''c3'' (''tool '' @ py_repr ''none'' @ '' not registered''))"
proof -
  let ?cs = "[demo_call ''c1'' ''act'', demo_call ''c2'' ''look'', demo_call ''c3'' ''none'']"
  let ?rs = "fst (execute_tool_calls demo_tools rev demo_registry 1 ?cs 7)"
  have "reorders rev" by (simp add: reorders_def)
  note A = every_call_is_answered_in_order [OF this, of demo_tools demo_registry 1 ?cs 7]
  have "?rs ! 1 = Some (text_result ''c2'' ''7'')"
    "?rs ! 2 = Some (error_result ''c3'' (''tool '' @ py_repr ''none'' @ '' not registered''))"
    by code_simp+
  with A show ?thesis by (simp add: Let_def)
qed

text \<open>
  The contract of a tool without side effects: dispatching it does not change the world.
\<close>

definition parallel_pure :: "'w tool_env \<Rightarrow> registry \<Rightarrow> rat \<Rightarrow> bool" where
  "parallel_pure env reg limit_s =
     (\<forall>call w. \<not> is_sequential reg call \<longrightarrow> snd (dispatch_single env reg limit_s call w) = w)"

lemma run_pure_calls:
  assumes "parallel_pure env reg l" and "\<forall>(i, c) \<in> set cs. \<not> is_sequential reg c"
  shows "run_calls env reg l cs (rs, w)
    = (fold (\<lambda>(i, c) rs. rs[i := Some (fst (dispatch_single env reg l c w))]) cs rs, w)"
  using assms(2)
proof (induction cs arbitrary: rs)
  case (Cons ic cs)
  obtain i c where ic: "ic = (i, c)" by fastforce
  with Cons.prems assms(1) have "snd (dispatch_single env reg l c w) = w"
    by (auto simp: parallel_pure_def)
  with Cons ic show ?case by (cases "dispatch_single env reg l c w") auto
qed simp

text \<open>
  When the tools that declare no side effect have none, the order in which the
  event loop runs the parallel batch cannot be observed: the results and the world after the
  round are the same for every order.
\<close>

theorem parallel_order_is_irrelevant:
  assumes "reorders sched" and "parallel_pure env reg limit_s"
  shows "execute_tool_calls env sched reg limit_s calls w
       = execute_tool_calls env (\<lambda>xs. xs) reg limit_s calls w"
proof -
  let ?par = "parallel_calls reg calls"
  let ?f = "\<lambda>(i, c) rs. rs[i := Some (fst (dispatch_single env reg limit_s c w))]"
  have pure: "\<forall>(i, c) \<in> set ?par. \<not> is_sequential reg c" by (auto simp: call_lists)
  have "mset (sched ?par) = mset ?par" using assms(1) by (simp add: reorders_def)
  moreover have "?f x \<circ> ?f y = ?f y \<circ> ?f x" if "x \<in> set ?par" "y \<in> set ?par" for x y
  proof -
    obtain i c j d where "x = (i, c)" "y = (j, d)" by fastforce
    with that show ?thesis
      by (cases "i = j") (auto simp: call_lists fun_eq_iff list_update_swap)
  qed
  ultimately have "fold ?f ?par = fold ?f (sched ?par)"
    by (intro fold_multiset_equiv) auto
  with run_pure_calls [OF assms(2) pure] run_pure_calls [OF assms(2), of "sched ?par"] pure
    reorders_props [OF assms(1), of ?par fst] show ?thesis
    by (simp add: execute_tool_calls_def)
qed

lemma demo_tools_pure: "parallel_pure demo_tools reg l"
  by (auto simp: parallel_pure_def dispatch_single_def is_sequential_def demo_tools_def Let_def
      split: option.splits if_splits)

theorem parallel_order_is_irrelevant_witness:
  "execute_tool_calls demo_tools rev demo_registry 1
     [demo_call ''c1'' ''act'', demo_call ''c2'' ''look'', demo_call ''c3'' ''look''] 7
   = execute_tool_calls demo_tools (\<lambda>xs. xs) demo_registry 1
     [demo_call ''c1'' ''act'', demo_call ''c2'' ''look'', demo_call ''c3'' ''look''] 7"
  by (rule parallel_order_is_irrelevant) (simp_all add: reorders_def demo_tools_pure)

end
