(* ===== verification/Llm.thy ===== *)
theory Llm
  imports SessionTree Runtime
begin

section \<open>The client of the language model\<close>

text \<open>
  \<^verbatim>\<open>src/pyclaw/core/agent/llm.py\<close>: error codes, the choice of the provider for a model, the
  request that is sent, the conversion of the chunks of a stream and the assembly of the text
  and of the tool calls from their fragments.  The completion service (\<^verbatim>\<open>litellm.acompletion\<close>)
  is a parameter: it refuses the request with an exception or answers with a timed stream of
  raw chunks, which are JSON objects here.  The JSON reader and writer are parameters too.
\<close>

subsection \<open>Errors\<close>

definition CONTEXT_OVERFLOW :: string where "CONTEXT_OVERFLOW = ''context_overflow''"
definition RATE_LIMIT :: string where "RATE_LIMIT = ''rate_limit''"
definition AUTH_ERROR :: string where "AUTH_ERROR = ''auth_error''"
definition TIMEOUT :: string where "TIMEOUT = ''timeout''"
definition PROVIDER_NOT_FOUND :: string where "PROVIDER_NOT_FOUND = ''provider_not_found''"
definition VISION_NOT_SUPPORTED :: string where "VISION_NOT_SUPPORTED = ''vision_not_support''"
definition UNKNOWN :: string where "UNKNOWN = ''unknown''"

text \<open>An exception: an \<^verbatim>\<open>LLMError\<close> with its code, or another one; both with their text.\<close>

datatype llm_exn = LLMError (exn_code: string) (exn_text: string) | RawError (exn_text: string)

definition classify_error :: "llm_exn \<Rightarrow> string" where
  "classify_error exc =
     (case exc of
        LLMError code _ \<Rightarrow> code
      | RawError msg \<Rightarrow>
          (let message = py_lower msg; has = (\<lambda>p. py_in p message) in
           if has ''context'' \<and> (has ''overflow'' \<or> has ''length'' \<or> has ''maximum'')
           then CONTEXT_OVERFLOW
           else if has ''rate limit'' \<or> has ''too many requests'' \<or> has ''429'' then RATE_LIMIT
           else if has ''auth'' \<or> has ''api key'' \<or> has ''unauthorized'' \<or> has ''401'' then AUTH_ERROR
           else if has ''timeout'' \<or> has ''timed out'' then TIMEOUT
           else UNKNOWN))"

subsection \<open>Providers\<close>

record provider =
  p_api_key :: "string option"
  p_base_url :: "string option"
  p_models :: "(string \<times> string list) list"
  p_prefixes :: "string list"
  p_litellm :: "string option"

text \<open>A provider's \<^verbatim>\<open>models\<close> maps a model to its input modalities.\<close>

type_synonym providers = "(string \<times> provider) list"

definition prefix_matches :: "string \<Rightarrow> string \<times> provider \<Rightarrow> bool" where
  "prefix_matches model np =
     list_ex (\<lambda>prefix. model = prefix \<or> starts_with (prefix @ ''/'') model)
       (if p_prefixes (snd np) \<noteq> [] then p_prefixes (snd np) else [fst np])"

definition first_segment :: "string \<Rightarrow> string" where
  "first_segment model = takeWhile (\<lambda>c. c \<noteq> CHR ''/'') model"

definition not_found :: "string \<Rightarrow> providers \<Rightarrow> llm_exn" where
  "not_found model providers =
     LLMError PROVIDER_NOT_FOUND
       (''No provider matches model '' @ [CHR 0x27] @ model @ [CHR 0x27] @ ''. Configured providers: [''
        @ py_join '', '' (map (\<lambda>np. py_repr (fst np)) providers) @ '']. ''
        @ ''Declare prefixes[] on a provider, or set agent.unknown_prefix_policy=''
        @ [CHR 0x27] @ ''default'' @ [CHR 0x27] @ '' and agent.default_provider='' @ [CHR 0x27]
        @ ''<name>'' @ [CHR 0x27] @ '' to route unknowns.'')"

definition resolve_provider_for_model ::
    "string \<Rightarrow> providers \<Rightarrow> string option \<Rightarrow> bool \<Rightarrow> llm_exn + (string \<times> provider)" where
  "resolve_provider_for_model model providers default_provider default_policy =
     (case find (\<lambda>np. model \<in> fst ` set (p_models (snd np))) providers of
        Some np \<Rightarrow> Inr np
      | None \<Rightarrow>
          (case find (prefix_matches model) providers of
             Some np \<Rightarrow> Inr np
           | None \<Rightarrow>
               (case map_of providers (first_segment model) of
                  Some ps \<Rightarrow> Inr (first_segment model, ps)
                | None \<Rightarrow>
                    if length providers = 1 then Inr (hd providers)
                    else
                      (case (default_policy, default_provider) of
                         (True, Some d) \<Rightarrow>
                           (case map_of providers d of
                              Some ps \<Rightarrow> Inr (d, ps)
                            | None \<Rightarrow> Inl (not_found model providers))
                       | _ \<Rightarrow> Inl (not_found model providers)))))"

definition model_supports_input ::
    "string \<Rightarrow> providers \<Rightarrow> string \<Rightarrow> string option \<Rightarrow> bool \<Rightarrow> llm_exn + bool" where
  "model_supports_input model providers modality default_provider default_policy =
     (case resolve_provider_for_model model providers default_provider default_policy of
        Inl e \<Rightarrow> Inl e
      | Inr (name, ps) \<Rightarrow>
          Inr (case map_of (p_models ps) model of None \<Rightarrow> False | Some ms \<Rightarrow> modality \<in> set ms))"

definition user_image_message :: "jobj \<Rightarrow> bool" where
  "user_image_message msg =
     (if jget ''role'' msg \<noteq> JStr ''user'' then False
      else case jget ''content'' msg of
             JList bs \<Rightarrow>
               list_ex (\<lambda>b. case b of
                 JObj d \<Rightarrow> jget ''type'' d \<in> {JStr ''image_url'', JStr ''image''} | _ \<Rightarrow> False) bs
           | _ \<Rightarrow> False)"

definition messages_have_user_image_content :: "jobj list \<Rightarrow> bool" where
  "messages_have_user_image_content messages = list_ex user_image_message messages"

text \<open>The symbol before a provider's name, outside the range of characters here, is a question mark.\<close>

definition format_vision_capable_models :: "providers \<Rightarrow> string" where
  "format_vision_capable_models providers =
     (let parts = List.maps (\<lambda>(name, ps).
            let vision_ids = map fst (filter (\<lambda>(mid, ms). ''image'' \<in> set ms) (p_models ps))
            in if vision_ids \<noteq> [] then [''? '' @ name @ '': '' @ py_join '', '' vision_ids] else [])
            providers
      in if parts \<noteq> [] then py_join ''; '' parts else ''(none configured)'')"

subsection \<open>The request\<close>

record client =
  c_default_model :: string
  c_providers :: providers
  c_fallback_key :: "string option"
  c_fallback_base :: "string option"
  c_default_provider :: "string option"
  c_default_policy :: bool

definition new_client ::
    "string \<Rightarrow> string option \<Rightarrow> string option \<Rightarrow> providers option \<Rightarrow> string option \<Rightarrow> bool \<Rightarrow> client" where
  "new_client default_model api_key api_base providers default_provider default_policy =
     (if opt_truthy providers
      then \<lparr>c_default_model = default_model, c_providers = the providers, c_fallback_key = None,
            c_fallback_base = None, c_default_provider = default_provider,
            c_default_policy = default_policy\<rparr>
      else \<lparr>c_default_model = default_model, c_providers = [], c_fallback_key = api_key,
            c_fallback_base = api_base, c_default_provider = default_provider,
            c_default_policy = default_policy\<rparr>)"

definition resolve_credentials ::
    "client \<Rightarrow> string \<Rightarrow> llm_exn + (string option \<times> string option \<times> string option)" where
  "resolve_credentials cl model =
     (if c_providers cl = [] then Inr (c_fallback_key cl, c_fallback_base cl, None)
      else case resolve_provider_for_model model (c_providers cl) (c_default_provider cl) (c_default_policy cl) of
             Inl e \<Rightarrow> Inl e
           | Inr (name, ps) \<Rightarrow>
               Inr (p_api_key ps, p_base_url ps,
                    Some (case p_litellm ps of None \<Rightarrow> name | Some l \<Rightarrow> l)))"

text \<open>The system prompt is text or a list of blocks.\<close>

datatype system_prompt = SysText string | SysBlocks "json list"

fun system_json :: "system_prompt \<Rightarrow> json" where
  "system_json (SysText s) = JStr s"
| "system_json (SysBlocks bs) = JList bs"

definition prepend_system :: "jobj list \<Rightarrow> system_prompt option \<Rightarrow> jobj list" where
  "prepend_system messages system =
     (case system of
        None \<Rightarrow> messages
      | Some s \<Rightarrow>
          if truthy (system_json s)
          then [(''role'', JStr ''system''), (''content'', system_json s)] # messages else messages)"

record llm_request =
  rq_model :: string
  rq_messages :: "jobj list"
  rq_tools :: "jobj list option"
  rq_extra :: "(string \<times> json) list"

definition opt_field :: "string \<Rightarrow> string option \<Rightarrow> (string \<times> json) list" where
  "opt_field k v = (if opt_truthy v then [(k, JStr (the v))] else [])"

text \<open>The part of \<^verbatim>\<open>LLMClient.stream\<close> before the call of the service.\<close>

definition build_request ::
    "client \<Rightarrow> jobj list \<Rightarrow> string option \<Rightarrow> jobj list option \<Rightarrow> system_prompt option
     \<Rightarrow> rat option \<Rightarrow> llm_exn + llm_request" where
  "build_request cl messages model tools system temperature =
     (let effective_model = (if opt_truthy model then the model else c_default_model cl);
          payload = prepend_system messages system
      in case resolve_credentials cl effective_model of
           Inl e \<Rightarrow> Inl e
         | Inr (api_key, api_base, litellm_provider) \<Rightarrow>
             (case (if c_providers cl \<noteq> [] \<and> messages_have_user_image_content payload
                    then model_supports_input effective_model (c_providers cl) ''image''
                           (c_default_provider cl) (c_default_policy cl)
                    else Inr True) of
                Inl e \<Rightarrow> Inl e
              | Inr False \<Rightarrow>
                  Inl (LLMError VISION_NOT_SUPPORTED
                    (''Model '' @ [CHR 0x27] @ effective_model @ [CHR 0x27]
                     @ '' does not have image input capability. Available vision-capable models: ''
                     @ format_vision_capable_models (c_providers cl)
                     @ ''. Use /model <model_id> to switch.''))
              | Inr True \<Rightarrow>
                  Inr \<lparr>rq_model = effective_model, rq_messages = payload,
                       rq_tools = (if opt_truthy tools then tools else None),
                       rq_extra = opt_field ''api_key'' api_key @ opt_field ''api_base'' api_base
                         @ opt_field ''custom_llm_provider'' litellm_provider
                         @ (case temperature of None \<Rightarrow> [] | Some t \<Rightarrow> [(''temperature'', JFloat t)])\<rparr>))"

subsection \<open>Chunks\<close>

record usage =
  u_input :: int
  u_output :: int
  u_total :: int
  u_cache_creation :: int
  u_cache_read :: int

definition zero_usage :: usage where
  "zero_usage = \<lparr>u_input = 0, u_output = 0, u_total = 0, u_cache_creation = 0, u_cache_read = 0\<rparr>"

text \<open>A fragment of a tool call, normalized.\<close>

record tc_delta =
  d_index :: int
  d_id :: "string option"
  d_type :: string
  d_name :: "string option"
  d_args :: string

record chunk =
  ck_text :: string
  ck_deltas :: "tc_delta list"
  ck_finish :: "string option"
  ck_usage :: "usage option"

text \<open>\<^verbatim>\<open>_get\<close> on a JSON value.\<close>

definition get_key :: "json \<Rightarrow> string \<Rightarrow> json" where
  "get_key obj k = (case obj of JObj d \<Rightarrow> jget k d | _ \<Rightarrow> JNull)"

definition as_int :: "json \<Rightarrow> int" where
  "as_int j = (case j of JInt i \<Rightarrow> i | JBool b \<Rightarrow> (if b then 1 else 0)
                | JFloat q \<Rightarrow> (if q \<ge> 0 then \<lfloor>q\<rfloor> else \<lceil>q\<rceil>) | _ \<Rightarrow> 0)"

definition str_option :: "json \<Rightarrow> string option" where
  "str_option j = (case j of JStr s \<Rightarrow> Some s | _ \<Rightarrow> None)"

text \<open>\<^verbatim>\<open>a or b\<close> of two values, and \<^verbatim>\<open>v or 0\<close> as a number.\<close>

definition j_or :: "json \<Rightarrow> json \<Rightarrow> json" where
  "j_or a b = (if truthy a then a else b)"

definition extract_usage :: "json \<Rightarrow> usage option" where
  "extract_usage raw =
     (let u = get_key raw ''usage'' in
      if u = JNull then None
      else
        let prompt = as_int (j_or (get_key u ''prompt_tokens'') (get_key u ''input_tokens''));
            completion = as_int (j_or (get_key u ''completion_tokens'') (get_key u ''output_tokens''));
            total = (if truthy (get_key u ''total_tokens'') then as_int (get_key u ''total_tokens'')
                     else prompt + completion);
            details = get_key u ''prompt_tokens_details'';
            read0 = (if details \<noteq> JNull then as_int (get_key details ''cached_tokens'') else 0);
            creation0 = (if details \<noteq> JNull then as_int (get_key details ''cache_creation_tokens'') else 0);
            cache_read = (if read0 = 0 then as_int (get_key u ''cache_read_input_tokens'') else read0);
            cache_creation = (if creation0 = 0 then as_int (get_key u ''cache_creation_input_tokens'')
                              else creation0)
        in Some \<lparr>u_input = prompt, u_output = completion, u_total = total,
                 u_cache_creation = cache_creation, u_cache_read = cache_read\<rparr>)"

definition normalize_delta :: "json \<Rightarrow> tc_delta" where
  "normalize_delta d =
     \<lparr>d_index = as_int (get_key d ''index''),
      d_id = str_option (get_key d ''id''),
      d_type = (if truthy (get_key d ''type'') then as_str (get_key d ''type'') else ''function''),
      d_name = str_option (get_key (get_key d ''function'') ''name''),
      d_args = as_str (get_key (get_key d ''function'') ''arguments'')\<rparr>"

definition convert_chunk :: "json \<Rightarrow> chunk option" where
  "convert_chunk raw =
     (let choices = get_key raw ''choices'' in
      if \<not> truthy choices then
        (case extract_usage raw of
           Some u \<Rightarrow> Some \<lparr>ck_text = [], ck_deltas = [], ck_finish = None, ck_usage = Some u\<rparr>
         | None \<Rightarrow> None)
      else
        let choice = hd (as_list choices);
            delta = get_key choice ''delta''
        in Some \<lparr>ck_text = as_str (get_key delta ''content''),
                 ck_deltas = map normalize_delta (as_list (get_key delta ''tool_calls'')),
                 ck_finish = str_option (get_key choice ''finish_reason''),
                 ck_usage = extract_usage raw\<rparr>)"

subsection \<open>The assembly of tool calls\<close>

record tc_slot =
  sl_id :: "string option"
  sl_type :: string
  sl_name :: string
  sl_args :: string

type_synonym tc_buffer = "(int \<times> tc_slot) list"

definition empty_slot :: tc_slot where
  "empty_slot = \<lparr>sl_id = None, sl_type = ''function'', sl_name = [], sl_args = []\<rparr>"

definition merge_slot :: "tc_slot \<Rightarrow> tc_delta \<Rightarrow> tc_slot" where
  "merge_slot slot d =
     \<lparr>sl_id = (if opt_truthy (d_id d) then d_id d else sl_id slot),
      sl_type = (if d_type d \<noteq> [] then d_type d else sl_type slot),
      sl_name = (if opt_truthy (d_name d) then the (d_name d) else sl_name slot),
      sl_args = sl_args slot @ d_args d\<rparr>"

definition slot_of :: "tc_buffer \<Rightarrow> int \<Rightarrow> tc_slot" where
  "slot_of buffer idx = (case map_of buffer idx of None \<Rightarrow> empty_slot | Some s \<Rightarrow> s)"

fun merge_tool_call_deltas :: "tc_buffer \<Rightarrow> tc_delta list \<Rightarrow> tc_buffer" where
  "merge_tool_call_deltas buffer [] = buffer"
| "merge_tool_call_deltas buffer (d # ds) =
     merge_tool_call_deltas
       (AList.update (d_index d) (merge_slot (slot_of buffer (d_index d)) d) buffer) ds"

definition slot_to_call ::
    "(string \<Rightarrow> json option) \<Rightarrow> (json \<Rightarrow> string) \<Rightarrow> int \<Rightarrow> tc_slot \<Rightarrow> jobj" where
  "slot_to_call loads dumps idx slot =
     (let args_raw = (if sl_args slot \<noteq> [] then sl_args slot else ''{}'');
          arguments_str = (case loads args_raw of Some j \<Rightarrow> dumps j | None \<Rightarrow> args_raw)
      in [(''id'', JStr (if opt_truthy (sl_id slot) then the (sl_id slot) else ''call_'' @ show_int idx)),
          (''type'', JStr ''function''),
          (''function'', JObj [(''name'', JStr (sl_name slot)), (''arguments'', JStr arguments_str)])])"

definition finalize_tool_calls ::
    "(string \<Rightarrow> json option) \<Rightarrow> (json \<Rightarrow> string) \<Rightarrow> tc_buffer \<Rightarrow> jobj list" where
  "finalize_tool_calls loads dumps buffer =
     map (\<lambda>idx. slot_to_call loads dumps idx (slot_of buffer idx)) (sort (map fst buffer))"

subsection \<open>The stream\<close>

text \<open>
  The service refuses a request with an exception, or answers with a stream of raw chunks.
  The stream ends with an \<^verbatim>\<open>LLMError\<close> on the idle limit and on the abort event.
\<close>

datatype llm_end = LlmOk | LlmFailed llm_exn | LlmSilent

definition convert_source :: "json stream_source \<Rightarrow> chunk option stream_source" where
  "convert_source s =
     \<lparr>src_items = map (\<lambda>(t, raw). (t, convert_chunk raw)) (src_items s), src_end = src_end s\<rparr>"

text \<open>
  Chunks that convert to nothing are skipped before the idle limit sees them: the time of a
  skipped chunk counts into the wait for the next one.
\<close>

fun skip_none :: "rat \<Rightarrow> (rat \<times> 'a option) list \<Rightarrow> rat option \<Rightarrow> (rat \<times> 'a) list \<times> rat option" where
  "skip_none carried [] fin = ([], map_option (\<lambda>t. carried + t) fin)"
| "skip_none carried ((t, None) # items) fin = skip_none (carried + t) items fin"
| "skip_none carried ((t, Some x) # items) fin =
     (let r = skip_none 0 items fin in ((carried + t, x) # fst r, snd r))"

definition raw_iter :: "json stream_source \<Rightarrow> chunk stream_source" where
  "raw_iter s =
     (let c = convert_source s; r = skip_none 0 (src_items c) (src_end c)
      in \<lparr>src_items = fst r, src_end = snd r\<rparr>)"

definition llm_stream ::
    "client \<Rightarrow> (llm_request \<Rightarrow> llm_exn + json stream_source) \<Rightarrow> (rat \<Rightarrow> string) \<Rightarrow> jobj list
     \<Rightarrow> string option \<Rightarrow> jobj list option \<Rightarrow> system_prompt option \<Rightarrow> rat \<Rightarrow> rat option option
     \<Rightarrow> rat option \<Rightarrow> chunk list \<times> llm_end" where
  "llm_stream cl acompletion show_float messages model tools system idle_seconds abort_event temperature =
     (case build_request cl messages model tools system temperature of
        Inl e \<Rightarrow> ([], LlmFailed e)
      | Inr rq \<Rightarrow>
          (case acompletion rq of
             Inl e \<Rightarrow> ([], LlmFailed (LLMError (classify_error e) (exn_text e)))
           | Inr source \<Rightarrow>
               (case iterate_with_idle_timeout idle_seconds abort_event (raw_iter source) of
                  (cs, StreamExhausted) \<Rightarrow> (cs, LlmOk)
                | (cs, StreamTimedOut l) \<Rightarrow>
                    (cs, LlmFailed (LLMError TIMEOUT (''idle timeout after '' @ show_float l @ ''s'')))
                | (cs, StreamAborted) \<Rightarrow> (cs, LlmFailed (LLMError ''aborted'' ''llm stream aborted''))
                | (cs, StreamSilent) \<Rightarrow> (cs, LlmSilent))))"

record collected =
  co_text :: string
  co_buffer :: tc_buffer
  co_finish :: "string option"
  co_usage :: usage

definition start_collect :: collected where
  "start_collect = \<lparr>co_text = [], co_buffer = [], co_finish = None, co_usage = zero_usage\<rparr>"

text \<open>The body of the loop over the chunks, in \<^verbatim>\<open>complete\<close> and in the runner.\<close>

definition collect_chunk :: "chunk \<Rightarrow> collected \<Rightarrow> collected" where
  "collect_chunk c acc =
     \<lparr>co_text = co_text acc @ ck_text c,
      co_buffer = merge_tool_call_deltas (co_buffer acc) (ck_deltas c),
      co_finish = (if opt_truthy (ck_finish c) then ck_finish c else co_finish acc),
      co_usage = (case ck_usage c of Some u \<Rightarrow> u | None \<Rightarrow> co_usage acc)\<rparr>"

record llm_response =
  lr_text :: string
  lr_tool_calls :: "jobj list"
  lr_usage :: usage
  lr_finish :: "string option"

definition response_of :: "(string \<Rightarrow> json option) \<Rightarrow> (json \<Rightarrow> string) \<Rightarrow> collected \<Rightarrow> llm_response" where
  "response_of loads dumps acc =
     \<lparr>lr_text = co_text acc, lr_tool_calls = finalize_tool_calls loads dumps (co_buffer acc),
      lr_usage = co_usage acc, lr_finish = co_finish acc\<rparr>"

text \<open>\<^verbatim>\<open>complete\<close>: the response, the error of the stream, or \<^const>\<open>None\<close> when it stays silent for ever.\<close>

definition llm_complete ::
    "(string \<Rightarrow> json option) \<Rightarrow> (json \<Rightarrow> string) \<Rightarrow> chunk list \<times> llm_end
     \<Rightarrow> (llm_exn + llm_response) option" where
  "llm_complete loads dumps stream =
     (case stream of
        (cs, LlmOk) \<Rightarrow> Some (Inr (response_of loads dumps (fold collect_chunk cs start_collect)))
      | (cs, LlmFailed e) \<Rightarrow> Some (Inl e)
      | (cs, LlmSilent) \<Rightarrow> None)"

definition session_entries_to_llm_messages :: "jobj list \<Rightarrow> jobj list" where
  "session_entries_to_llm_messages entries' =
     map (\<lambda>e. let r = jget_or (JStr ''user'') ''role'' e in
       [(''role'', r), (''content'', jget_or (JStr []) ''content'' e)]
       @ (if truthy (jget ''tool_calls'' e) then [(''tool_calls'', jget ''tool_calls'' e)] else [])
       @ (if r = JStr ''tool'' \<and> truthy (jget ''tool_call_id'' e)
          then [(''tool_call_id'', jget ''tool_call_id'' e)] else [])) entries'"

subsection \<open>Lemmas\<close>

lemma resolve_in_providers:
  "resolve_provider_for_model m ps d pol = Inr (n, p) \<Longrightarrow> (n, p) \<in> set ps"
  by (auto simp: resolve_provider_for_model_def find_Some_iff length_Suc_conv
      dest: map_of_SomeD split: option.splits if_splits bool.splits)

definition deltas_of :: "int \<Rightarrow> tc_delta list \<Rightarrow> tc_delta list" where
  "deltas_of i ds = filter (\<lambda>d. d_index d = i) ds"

lemma merge_keys:
  "fst ` set (merge_tool_call_deltas b ds) = fst ` set b \<union> d_index ` set ds"
  by (induction b ds rule: merge_tool_call_deltas.induct) auto

lemma merge_distinct:
  "distinct (map fst b) \<Longrightarrow> distinct (map fst (merge_tool_call_deltas b ds))"
  by (induction b ds rule: merge_tool_call_deltas.induct) (auto simp: distinct_update)

lemma slot_of_update: "slot_of (AList.update i s b) j = (if j = i then s else slot_of b j)"
  by (simp add: slot_of_def)

lemma merge_slot_of:
  "slot_of (merge_tool_call_deltas b ds) i = fold (\<lambda>d s. merge_slot s d) (deltas_of i ds) (slot_of b i)"
  by (induction b ds rule: merge_tool_call_deltas.induct) (auto simp: deltas_of_def slot_of_update)

lemma merge_append:
  "merge_tool_call_deltas b (ds @ es) = merge_tool_call_deltas (merge_tool_call_deltas b ds) es"
  by (induction b ds rule: merge_tool_call_deltas.induct) auto

lemma fold_merge_args:
  "sl_args (fold (\<lambda>d s. merge_slot s d) ds s0) = sl_args s0 @ concat (map d_args ds)"
  by (induction ds arbitrary: s0) (auto simp: merge_slot_def)

lemma start_collect_simps [simp]: "co_text start_collect = []" "co_buffer start_collect = []"
  by (simp_all add: start_collect_def)

lemma empty_slot_args [simp]: "sl_args empty_slot = []"
  by (simp add: empty_slot_def)

lemma collect_text: "co_text (fold collect_chunk cs acc) = co_text acc @ concat (map ck_text cs)"
  by (induction cs arbitrary: acc) (auto simp: collect_chunk_def)

lemma collect_buffer:
  "co_buffer (fold collect_chunk cs acc)
     = merge_tool_call_deltas (co_buffer acc) (concat (map ck_deltas cs))"
  by (induction cs arbitrary: acc) (auto simp: collect_chunk_def merge_append)

subsection \<open>Properties\<close>

text \<open>
  However the stream cuts the answer into chunks, the response holds the
  whole text and one tool call per index, in the order of the indices, whose arguments are all
  the fragments of this index in the order they came.
\<close>

theorem response_assembles_fragments:
  "let resp = response_of loads dumps (fold collect_chunk cs start_collect);
       ds = concat (map ck_deltas cs)
   in lr_text resp = concat (map ck_text cs)
    \<and> lr_tool_calls resp = map (\<lambda>i. slot_to_call loads dumps i
          (fold (\<lambda>d s. merge_slot s d) (deltas_of i ds) empty_slot)) (sorted_list_of_set (d_index ` set ds))
    \<and> (\<forall>i. sl_args (fold (\<lambda>d s. merge_slot s d) (deltas_of i ds) empty_slot)
          = concat (map d_args (deltas_of i ds)))"
proof -
  let ?ds = "concat (map ck_deltas cs)"
  let ?b = "merge_tool_call_deltas [] ?ds"
  have buf: "co_buffer (fold collect_chunk cs start_collect) = ?b"
    by (simp add: collect_buffer)
  have "set (map fst ?b) = d_index ` set ?ds" using merge_keys [of "[]" ?ds] by simp
  moreover have "distinct (map fst ?b)" by (rule merge_distinct) simp
  ultimately have "sort (map fst ?b) = sorted_list_of_set (d_index ` set ?ds)"
    by (metis sorted_list_of_set_sort_remdups distinct_remdups_id)
  moreover have "slot_of ?b i = fold (\<lambda>d s. merge_slot s d) (deltas_of i ?ds) empty_slot" for i
    by (simp add: merge_slot_of) (simp add: slot_of_def)
  ultimately show ?thesis
    by (simp add: Let_def response_of_def finalize_tool_calls_def buf collect_text fold_merge_args)
qed

text \<open>
  With providers configured, a request with an image of the user is only sent for a
  model whose provider declares images among the inputs of this model; and what is sent is the
  conversation itself, after the system prompt.
\<close>

theorem images_only_to_vision_models:
  assumes "build_request cl msgs model tools system temp = Inr rq" and "c_providers cl \<noteq> []"
    and "messages_have_user_image_content msgs"
  shows "\<exists>name ps ins. (name, ps) \<in> set (c_providers cl)
     \<and> map_of (p_models ps) (rq_model rq) = Some ins \<and> ''image'' \<in> set ins
     \<and> rq_messages rq = prepend_system msgs system"
proof -
  have img: "messages_have_user_image_content (prepend_system msgs system)"
    using assms(3) by (auto simp: prepend_system_def messages_have_user_image_content_def split: option.splits)
  with assms(1,2) have sup: "model_supports_input (rq_model rq) (c_providers cl) ''image''
      (c_default_provider cl) (c_default_policy cl) = Inr True"
    and "rq_messages rq = prepend_system msgs system"
    by (auto simp: build_request_def Let_def split: sum.splits bool.splits)
  then show ?thesis
    by (auto simp: model_supports_input_def split: sum.splits option.splits dest!: resolve_in_providers)
      blast
qed

definition demo_client :: client where
  "demo_client = new_client ''gpt'' None None
     (Some [(''acme'', \<lparr>p_api_key = Some ''k'', p_base_url = None,
               p_models = [(''acme/eye'', [''text'', ''image''])], p_prefixes = [], p_litellm = None\<rparr>),
            (''blind'', \<lparr>p_api_key = None, p_base_url = None,
               p_models = [(''blind/one'', [''text''])], p_prefixes = [], p_litellm = None\<rparr>)]) None False"

definition image_message :: jobj where
  "image_message = [(''role'', JStr ''user''),
     (''content'', JList [JObj [(''type'', JStr ''image_url'')]])]"

theorem images_only_to_vision_models_witness:
  "\<exists>rq ins. build_request demo_client [image_message] (Some ''acme/eye'') None None None = Inr rq
     \<and> ''image'' \<in> set ins
     \<and> (\<exists>p. (p, ins) \<in> (\<lambda>(n, ps). (n, the (map_of (p_models ps) (rq_model rq)))) ` set (c_providers demo_client))"
proof -
  obtain rq where rq: "build_request demo_client [image_message] (Some ''acme/eye'') None None None = Inr rq"
    by (cases "build_request demo_client [image_message] (Some ''acme/eye'') None None None")
      (code_simp, simp)+
  have "c_providers demo_client \<noteq> []" "messages_have_user_image_content [image_message]"
    by code_simp+
  from images_only_to_vision_models [OF rq this] rq show ?thesis by force
qed

text \<open>
  A resolved provider is one of the configured ones, and a model that some
  provider lists is never routed to a provider that does not list it, whatever the prefixes
  and the default say.
\<close>

theorem listed_model_routing:
  assumes "resolve_provider_for_model m ps d pol = Inr (n, p)"
  shows "(n, p) \<in> set ps
    \<and> (if \<exists>q \<in> snd ` set ps. m \<in> fst ` set (p_models q) then m \<in> fst ` set (p_models p) else True)"
proof -
  have "m \<in> fst ` set (p_models p)" if "(k, q) \<in> set ps" "m \<in> fst ` set (p_models q)" for k q
  proof -
    from that have "find (\<lambda>np. m \<in> fst ` set (p_models (snd np))) ps \<noteq> None"
      unfolding find_None_iff by (metis snd_conv)
    then obtain np where "find (\<lambda>np. m \<in> fst ` set (p_models (snd np))) ps = Some np" by auto
    moreover from this have "m \<in> fst ` set (p_models (snd np))"
      by (auto simp: find_Some_iff)
    ultimately show ?thesis using assms by (auto simp: resolve_provider_for_model_def)
  qed
  then have "m \<in> fst ` set (p_models p)" if "\<exists>q \<in> snd ` set ps. m \<in> fst ` set (p_models q)"
    using that by (metis imageE prod.collapse)
  with resolve_in_providers [OF assms] show ?thesis by simp
qed

theorem listed_model_routing_witness:
  "\<exists>p. resolve_provider_for_model ''blind/one'' (c_providers demo_client) None False = Inr (''blind'', p)
     \<and> (''blind'', p) \<in> set (c_providers demo_client)"
proof -
  obtain p where "resolve_provider_for_model ''blind/one'' (c_providers demo_client) None False = Inr (''blind'', p)"
    by (simp add: demo_client_def new_client_def resolve_provider_for_model_def)
  with listed_model_routing [OF this] show ?thesis by blast
qed

end
