(* ===== verification/TurnClass.thy ===== *)
theory TurnClass
  imports PyPrelude
begin

section \<open>Incomplete turns\<close>

text \<open>
  \<^verbatim>\<open>src/pyclaw/core/agent/incomplete_turn.py\<close>: an answer without tool calls is classified as
  complete, as only a plan, as only reasoning, or as empty.  The regular expressions of the
  file are written out as matchers; each of them has at most one way to match at a place, so no
  backtracking is lost.
\<close>

subsection \<open>Thinking blocks\<close>

definition open_tag :: string where "open_tag = ''<thinking>''"
definition close_tag :: string where "close_tag = ''</thinking>''"

text \<open>
  \<^verbatim>\<open><thinking>.*?</thinking>\<close>, ignoring case: the first match in a text, as what is before it,
  its length and what is behind it.
\<close>

definition first_block :: "string \<Rightarrow> (string \<times> string \<times> string) option" where
  "first_block s =
     (case py_find open_tag (py_lower s) of
        None \<Rightarrow> None
      | Some i \<Rightarrow>
          (let inner = drop (i + length open_tag) s in
           case py_find close_tag (py_lower inner) of
             None \<Rightarrow> None
           | Some j \<Rightarrow>
               (let n = i + length open_tag + j + length close_tag
                in Some (take i s, take (n - i) (drop i s), drop n s))))"

lemma length_py_lower [simp]: "length (py_lower s) = length s"
  by (simp add: py_lower_def)

lemma first_block_shorter: "first_block s = Some (a, b, c) \<Longrightarrow> length c < length s"
  by (auto simp: first_block_def Let_def open_tag_def split: option.splits dest!: py_find_Some)

lemma three_parts: "take i s @ take k (drop i s) @ drop (i + k) s = s"
proof -
  have "drop (i + k) s = drop k (drop i s)" by (simp add: add.commute)
  then show ?thesis by (simp del: drop_drop)
qed

lemma first_block_join:
  assumes "first_block s = Some (a, b, c)"
  shows "s = a @ b @ c"
proof -
  obtain i j where "a = take i s" "b = take j (drop i s)" "c = drop (i + j) s"
    using assms by (auto simp: first_block_def Let_def add.assoc split: option.splits)
  with three_parts [of i s j] show ?thesis by simp
qed

text \<open>\<^verbatim>\<open>_THINKING_BLOCK.sub("", text)\<close> and \<^verbatim>\<open>findall\<close>.\<close>

function remove_blocks :: "string \<Rightarrow> string" where
  "remove_blocks s =
     (case first_block s of None \<Rightarrow> s | Some (before, blk, rest) \<Rightarrow> before @ remove_blocks rest)"
  by auto
termination
  by (relation "measure length") (auto dest: first_block_shorter)

declare remove_blocks.simps [simp del]

function find_blocks :: "string \<Rightarrow> string list" where
  "find_blocks s =
     (case first_block s of None \<Rightarrow> [] | Some (before, blk, rest) \<Rightarrow> blk # find_blocks rest)"
  by auto
termination
  by (relation "measure length") (auto dest: first_block_shorter)

declare find_blocks.simps [simp del]

definition strip_thinking :: "string \<Rightarrow> string" where
  "strip_thinking tx = py_strip (remove_blocks tx)"

definition extract_thinking :: "string \<Rightarrow> string" where
  "extract_thinking tx = py_join nl (find_blocks tx)"

subsection \<open>Plans\<close>

definition is_digit :: "char \<Rightarrow> bool" where
  "is_digit c = (let n = (of_char c :: nat) in 48 \<le> n \<and> n \<le> 57)"

text \<open>The alternatives of \<^verbatim>\<open>_PLANNING_PHRASES\<close> on a lowered text without leading space.\<close>

definition apostrophe :: char where "apostrophe = CHR 0x27"

definition planning_phrase_at :: "string \<Rightarrow> bool" where
  "planning_phrase_at s =
     (starts_with (''i'' @ [apostrophe] @ ''ll'') s
      \<or> starts_with ''i will'' s
      \<or> starts_with (''i'' @ [apostrophe] @ ''m going to'') s
      \<or> starts_with ''let me'' s
      \<or> list_ex (\<lambda>p. starts_with p s)
          [''heres my plan'', ''heres the plan'',
           ''here'' @ [apostrophe] @ ''s my plan'', ''here'' @ [apostrophe] @ ''s the plan'']
      \<or> starts_with ''my plan'' s
      \<or> starts_with ''first, i'' s \<or> starts_with ''first i'' s
      \<or> (starts_with ''step'' s
         \<and> (case dropWhile py_space (drop 4 s) of [] \<Rightarrow> False | c # _ \<Rightarrow> is_digit c)))"

text \<open>A search with \<^verbatim>\<open>^\<close> tries the start of the text and the place after each line feed.\<close>

fun search_lines :: "(string \<Rightarrow> bool) \<Rightarrow> bool \<Rightarrow> string \<Rightarrow> bool" where
  "search_lines m at_start [] = (at_start \<and> m [])"
| "search_lines m at_start (c # cs) =
     ((at_start \<and> m (c # cs)) \<or> search_lines m (c = CHR 0x0A) cs)"

definition planning_phrase :: "string \<Rightarrow> bool" where
  "planning_phrase tx =
     search_lines (\<lambda>s. planning_phrase_at (dropWhile py_space s)) True (py_lower tx)"

text \<open>
  One match of \<^verbatim>\<open>_NUMBERED_LIST\<close> at the start of a line: the number of characters it takes.
\<close>

definition list_item_at :: "string \<Rightarrow> nat option" where
  "list_item_at s =
     (let s1 = dropWhile py_space s;
          s2 = (case s1 of
                  [] \<Rightarrow> None
                | c # cs \<Rightarrow>
                    if c = CHR ''-'' \<or> c = CHR ''*'' then Some cs
                    else if is_digit c then
                      (case dropWhile is_digit cs of
                         [] \<Rightarrow> None
                       | d # ds \<Rightarrow> if d = CHR ''.'' then Some ds else None)
                    else None)
      in case s2 of
           None \<Rightarrow> None
         | Some t \<Rightarrow>
             (let t' = dropWhile py_space t
              in if length t' < length t then Some (length s - length t') else None))"

text \<open>
  \<^verbatim>\<open>len(_NUMBERED_LIST.findall(text))\<close>: the search goes on behind a match; \<open>at_start\<close> says
  whether the place is the start of a line.  The fuel is the length of the text.
\<close>

fun count_items :: "nat \<Rightarrow> bool \<Rightarrow> string \<Rightarrow> nat" where
  "count_items 0 at_start s = 0"
| "count_items (Suc n) at_start [] = 0"
| "count_items (Suc n) at_start (c # cs) =
     (case (if at_start then list_item_at (c # cs) else None) of
        None \<Rightarrow> count_items n (c = CHR 0x0A) cs
      | Some k \<Rightarrow>
          Suc (count_items n (last (take k (c # cs)) = CHR 0x0A) (drop k (c # cs))))"

definition word_count :: "string \<Rightarrow> nat" where
  "word_count tx = length (filter (\<lambda>(a, b). py_space a \<and> \<not> py_space b) (zip (CHR '' '' # tx) tx))"

definition looks_like_planning :: "string \<Rightarrow> bool" where
  "looks_like_planning visible =
     (let tx = py_strip visible in
      if tx = [] then False
      else if \<not> planning_phrase tx then False
      else count_items (length tx) True tx \<ge> 2 \<or> (word_count tx < 200 \<and> planning_phrase tx))"

subsection \<open>The classification\<close>

datatype turn_class = TurnOk | TurnPlanning | TurnReasoning | TurnEmpty

definition classify_turn :: "string \<Rightarrow> bool \<Rightarrow> string option \<Rightarrow> turn_class" where
  "classify_turn tx has_tool_calls reasoning =
     (if has_tool_calls then TurnOk
      else
        let has_reasoning = (opt_truthy reasoning \<or> first_block tx \<noteq> None);
            visible = strip_thinking tx
        in if py_strip visible = [] \<and> \<not> has_reasoning then TurnEmpty
           else if has_reasoning \<and> py_strip visible = [] then TurnReasoning
           else if looks_like_planning visible then TurnPlanning
           else TurnOk)"

definition retry_message_for :: "turn_class \<Rightarrow> string option" where
  "retry_message_for c =
     (case c of
        TurnPlanning \<Rightarrow> Some ''Do not restate the plan. Act now by calling the appropriate tools.''
      | TurnReasoning \<Rightarrow> Some ''Continue and produce the visible answer now (outside of <thinking> tags).''
      | TurnEmpty \<Rightarrow> Some ''Produce the answer now.''
      | TurnOk \<Rightarrow> None)"

subsection \<open>Lemmas and properties\<close>

lemma list_item_pos:
  assumes "list_item_at s = Some k"
  shows "0 < k"
proof -
  from assms obtain c cs where s1: "dropWhile py_space s = c # cs"
    by (cases "dropWhile py_space s") (auto simp: list_item_at_def)
  then have len: "Suc (length cs) \<le> length s"
    using length_dropWhile_le [of py_space s] by simp
  have "\<exists>t. length t \<le> length cs \<and> length (dropWhile py_space t) < length t
      \<and> k = length s - length (dropWhile py_space t)"
    using assms s1 length_dropWhile_le [of is_digit cs]
    by (auto simp: list_item_at_def Let_def split: if_splits list.splits intro: exI [of _ cs])
      (metis Suc_leD)
  with len show ?thesis by auto
qed

lemma count_items_enough:
  "length s \<le> n \<Longrightarrow> length s \<le> m \<Longrightarrow> count_items n b s = count_items m b s"
proof (induction n b s arbitrary: m rule: count_items.induct)
  case (1 b s)
  then show ?case by (cases m) auto
next
  case (2 n b)
  then show ?case by (cases m) auto
next
  case (3 n b c cs)
  then obtain k where m: "m = Suc k" by (cases m) auto
  show ?case
  proof (cases "if b then list_item_at (c # cs) else None")
    case None
    have "length cs \<le> n" "length cs \<le> k" using 3(3,4) m by simp_all
    from 3(1) [OF None this] None m show ?thesis by simp
  next
    case (Some j)
    then have "0 < j" using list_item_pos by (auto split: if_splits)
    then obtain i where "j = Suc i" by (cases j) auto
    then have "length (drop j (c # cs)) \<le> n" "length (drop j (c # cs)) \<le> k"
      using 3(3,4) m by simp_all
    from 3(2) [OF Some this] show ?thesis
      unfolding m count_items.simps Some option.case by simp
  qed
qed

lemma blocks_partition: "length (remove_blocks s) + length (concat (find_blocks s)) = length s"
proof (induction s rule: remove_blocks.induct)
  case (1 s)
  show ?case
  proof (cases "first_block s")
    case None
    then show ?thesis by (simp add: remove_blocks.simps find_blocks.simps)
  next
    case (Some t)
    obtain a b c where t: "t = (a, b, c)" by (cases t)
    have "length s = length a + length b + length c"
      using first_block_join [of s a b c] Some t by (metis add.assoc length_append)
    moreover have "remove_blocks s = a @ remove_blocks c" "find_blocks s = b # find_blocks c"
      using Some t by (simp_all add: remove_blocks.simps [of s] find_blocks.simps [of s])
    ultimately show ?thesis using 1 [OF Some] t by simp
  qed
qed

text \<open>
  The classification of an answer without tool calls: empty when nothing is left
  beside white space and there was no thinking, reasoning when only thinking is left, planning
  only when there is a visible text with a planning phrase at the start of a line; a retry
  message exists exactly for the incomplete classes; and the thinking that is removed and the
  text that stays make up the answer.
\<close>

theorem classify_turn_spec:
  "(classify_turn tx False None = TurnEmpty \<longleftrightarrow> strip_thinking tx = [] \<and> find_blocks tx = [])
   \<and> (classify_turn tx False None = TurnReasoning \<longleftrightarrow> strip_thinking tx = [] \<and> find_blocks tx \<noteq> [])
   \<and> (classify_turn tx False None = TurnPlanning \<longleftrightarrow>
        strip_thinking tx \<noteq> [] \<and> looks_like_planning (strip_thinking tx))
   \<and> (retry_message_for c = None \<longleftrightarrow> c = TurnOk)
   \<and> classify_turn tx True r = TurnOk
   \<and> length (remove_blocks tx) + length (concat (find_blocks tx)) = length tx"
proof -
  have fb: "find_blocks tx = [] \<longleftrightarrow> first_block tx = None"
    by (cases "first_block tx") (auto simp: find_blocks.simps [of tx])
  have st: "py_strip (strip_thinking tx) = strip_thinking tx"
    by (simp add: strip_thinking_def)
  have "retry_message_for c = None \<longleftrightarrow> c = TurnOk"
    by (cases c) (simp_all add: retry_message_for_def)
  moreover have "looks_like_planning [] = False" by (simp add: looks_like_planning_def)
  ultimately show ?thesis
    by (cases "first_block tx = None") (auto simp: classify_turn_def Let_def fb st blocks_partition)
qed

end
