(* ===== verification/Gate.thy ===== *)
theory Gate
  imports Tools
begin

section \<open>The approval of tool calls\<close>

text \<open>
  The part of \<^verbatim>\<open>run_agent_stream\<close> (\<^verbatim>\<open>src/pyclaw/core/agent/runner.py\<close>) between the answer of the
  model and the execution of its tool calls: the parsing of the calls, the permission tier of
  each call, the automatic decisions with their audit records, the question to the approval
  hook and the calls that are denied.  The hook and the audit logger are parameters.
\<close>

subsection \<open>Parsed calls and their tiers\<close>

text \<open>
  The arguments as the runner reads them: an absent or empty value is the empty object, a string is read
  as JSON or kept under \<^verbatim>\<open>_raw\<close>.
\<close>

definition raw_args :: "(string \<Rightarrow> json option) \<Rightarrow> jobj \<Rightarrow> json" where
  "raw_args loads call =
     (let a = jget ''arguments'' (as_obj (jget ''function'' call)) in
      if \<not> truthy a then JObj []
      else case a of
             JStr s \<Rightarrow> (case loads s of Some j \<Rightarrow> j | None \<Rightarrow> JObj [(''_raw'', JStr s)])
           | _ \<Rightarrow> a)"

definition call_name :: "jobj \<Rightarrow> string" where
  "call_name call = as_str (jget ''name'' (as_obj (jget ''function'' call)))"

fun rank :: "tier \<Rightarrow> nat" where
  "rank ReadOnly = 2"
| "rank Approval = 1"
| "rank Yolo = 0"

fun tier_name :: "tier \<Rightarrow> string" where
  "tier_name ReadOnly = ''read-only''"
| "tier_name Approval = ''approval''"
| "tier_name Yolo = ''yolo''"

record evaluated =
  ev_call :: jobj
  ev_llm_name :: string
  ev_args :: json
  ev_canonical :: string
  ev_tier :: tier
  ev_source :: string
  ev_forced_server :: "string option"

definition find_tool :: "registry \<Rightarrow> string \<Rightarrow> tool option" where
  "find_tool reg n = (if n \<noteq> [] then tool_get reg (Some n) else None)"

definition forced_tier :: "tool option \<Rightarrow> tier option" where
  "forced_tier t = (case t of Some t0 \<Rightarrow> if t_mcp t0 then t_forced t0 else None | None \<Rightarrow> None)"

definition evaluate_call ::
    "(string \<Rightarrow> json option) \<Rightarrow> registry \<Rightarrow> tier option \<Rightarrow> jobj \<Rightarrow> evaluated" where
  "evaluate_call loads reg tier_override call =
     (let per_turn_tier = (case tier_override of Some t \<Rightarrow> t | None \<Rightarrow> Approval);
          per_turn_source = (if tier_override \<noteq> None then ''per-turn'' else ''channel-default'');
          name = call_name call;
          t0 = find_tool reg name;
          canonical = (case t0 of Some t \<Rightarrow> t_name t | None \<Rightarrow> name);
          forced = forced_tier t0
      in if forced \<noteq> None \<and> rank (the forced) > rank per_turn_tier
         then \<lparr>ev_call = call, ev_llm_name = name, ev_args = raw_args loads call, ev_canonical = canonical,
               ev_tier = the forced, ev_source = ''forced-by-server-config'',
               ev_forced_server = (case t0 of Some t \<Rightarrow> t_server t | None \<Rightarrow> None)\<rparr>
         else \<lparr>ev_call = call, ev_llm_name = name, ev_args = raw_args loads call, ev_canonical = canonical,
               ev_tier = per_turn_tier, ev_source = per_turn_source, ev_forced_server = None\<rparr>)"

subsection \<open>Audit records\<close>

text \<open>
  What \<^verbatim>\<open>_emit_runner_audit\<close> hands to the audit logger.  The logger is absent, or accepts the five
  optional fields or not (then it raises a \<^verbatim>\<open>TypeError\<close> and is called again without them); any
  other exception of it is only logged.
\<close>

record audit_env =
  ad_logger :: "bool option"
  ad_session :: string
  ad_channel :: string
  ad_user :: "string option"
  ad_role :: "string option"
  ad_backend :: "string option"

definition opt_kwarg :: "string \<Rightarrow> string option \<Rightarrow> (string \<times> string) list" where
  "opt_kwarg k v = (case v of None \<Rightarrow> [] | Some s \<Rightarrow> [(k, s)])"

definition emit_runner_audit ::
    "audit_env \<Rightarrow> string \<Rightarrow> string \<Rightarrow> string \<Rightarrow> string \<Rightarrow> string \<Rightarrow> string option \<Rightarrow> string option
     \<Rightarrow> (string \<times> string) list list" where
  "emit_runner_audit ad tool_nm call_id tier_nm decision decided_by tier_source forced_server =
     (case ad_logger ad of
        None \<Rightarrow> []
      | Some accepts_all \<Rightarrow>
          [[(''conv_id'', ad_session ad), (''session_id'', ad_session ad), (''channel'', ad_channel ad),
            (''tool_name'', tool_nm), (''tool_call_id'', call_id), (''tier'', tier_nm),
            (''decision'', decision), (''decided_by'', decided_by)]
           @ (if accepts_all
              then opt_kwarg ''tier_source'' tier_source @ opt_kwarg ''forced_server'' forced_server
                @ opt_kwarg ''user_id'' (ad_user ad) @ opt_kwarg ''role'' (ad_role ad)
                @ opt_kwarg ''sandbox_backend'' (ad_backend ad)
              else [])])"

subsection \<open>The first pass: automatic decisions\<close>

text \<open>What \<^verbatim>\<open>should_gate\<close> does when it is called with or without the tool context.\<close>

datatype gate_answer = GateSays bool | GateTypeError | GateRaises

record approval_hook =
  ah_gate_ctx :: "string \<Rightarrow> gate_answer"
  ah_gate :: "string \<Rightarrow> gate_answer"
  ah_decide :: "(string \<times> string \<times> json) list \<Rightarrow> string list"

definition hook_gates :: "approval_hook \<Rightarrow> string \<Rightarrow> bool" where
  "hook_gates h canonical =
     (case ah_gate_ctx h canonical of
        GateSays b \<Rightarrow> b
      | GateRaises \<Rightarrow> True
      | GateTypeError \<Rightarrow> (case ah_gate h canonical of GateSays b \<Rightarrow> b | _ \<Rightarrow> True))"

text \<open>
  The verdict on one call: it is allowed or denied at once, with the one who decides, or it
  has to be approved.
\<close>

datatype verdict = Allow string | Deny string string | NeedsApproval

definition deny_read_only :: "string \<Rightarrow> string" where
  "deny_read_only canonical =
     ''Tool '' @ [CHR 0x27] @ canonical @ [CHR 0x27]
     @ '' is not available in read-only mode. (Mode can be changed in the input footer.)''"

text \<open>A tool that is not found, or has no class, counts as one that writes.\<close>

definition class_of :: "tool option \<Rightarrow> string" where
  "class_of t = (case t of None \<Rightarrow> ''write'' | Some t0 \<Rightarrow> (case t_class t0 of None \<Rightarrow> ''write'' | Some c \<Rightarrow> c))"

definition first_verdict :: "registry \<Rightarrow> approval_hook option \<Rightarrow> evaluated \<Rightarrow> verdict" where
  "first_verdict reg hook ev =
     (case ev_tier ev of
        Yolo \<Rightarrow> Allow ''auto:yolo''
      | ReadOnly \<Rightarrow>
          if class_of (find_tool reg (ev_llm_name ev)) = ''write''
          then Deny ''auto:read-only'' (deny_read_only (ev_canonical ev))
          else Allow ''auto:read-only''
      | Approval \<Rightarrow>
          if ev_source ev = ''forced-by-server-config'' then NeedsApproval
          else (case hook of
                  Some h \<Rightarrow> if hook_gates h (ev_canonical ev) then NeedsApproval
                            else Allow ''auto:not-gated''
                | None \<Rightarrow> Allow ''auto:not-gated''))"

text \<open>The state of the pass: the denied ids with their messages, the gated calls, the audit records.\<close>

record gate_state =
  gs_denied :: "(string \<times> string) list"
  gs_gated :: "evaluated list"
  gs_audit :: "(string \<times> string) list list"

definition apply_verdict :: "audit_env \<Rightarrow> evaluated \<Rightarrow> verdict \<Rightarrow> gate_state \<Rightarrow> gate_state" where
  "apply_verdict ad ev v gs =
     (let cid = call_id_of (ev_call ev);
          record_as = (\<lambda>decision by. emit_runner_audit ad (ev_canonical ev) cid (tier_name (ev_tier ev))
                         decision by (Some (ev_source ev)) (ev_forced_server ev))
      in case v of
           Allow by \<Rightarrow> gs\<lparr>gs_audit := gs_audit gs @ record_as ''approve'' by\<rparr>
         | Deny by msg \<Rightarrow>
             gs\<lparr>gs_denied := AList.update cid msg (gs_denied gs),
                gs_audit := gs_audit gs @ record_as ''deny'' by\<rparr>
         | NeedsApproval \<Rightarrow> gs\<lparr>gs_gated := gs_gated gs @ [ev]\<rparr>)"

definition first_pass ::
    "audit_env \<Rightarrow> registry \<Rightarrow> approval_hook option \<Rightarrow> evaluated list \<Rightarrow> gate_state" where
  "first_pass ad reg hook evs =
     fold (\<lambda>ev. apply_verdict ad ev (first_verdict reg hook ev)) evs
       \<lparr>gs_denied = [], gs_gated = [], gs_audit = []\<rparr>"

subsection \<open>The second pass: the hook\<close>

definition deny_no_hook :: "audit_env \<Rightarrow> evaluated \<Rightarrow> gate_state \<Rightarrow> gate_state" where
  "deny_no_hook ad ev gs =
     (let cid = call_id_of (ev_call ev) in
      gs\<lparr>gs_denied := AList.update cid
           (''Tool '' @ [CHR 0x27] @ ev_canonical ev @ [CHR 0x27]
            @ '' requires approval but no approval hook is configured for this channel.'') (gs_denied gs),
         gs_audit := gs_audit gs @ emit_runner_audit ad (ev_canonical ev) cid ''approval'' ''deny''
           ''auto:no-hook'' (Some (ev_source ev)) (ev_forced_server ev)\<rparr>)"

text \<open>
  The decisions of the hook, position by position; a decision beyond the gated calls is an
  \<^verbatim>\<open>IndexError\<close>, for which the result is \<^const>\<open>None\<close>.
\<close>

fun apply_decisions ::
    "string list \<Rightarrow> evaluated list \<Rightarrow> (string \<times> string) list \<Rightarrow> (string \<times> string) list option" where
  "apply_decisions [] gated denied = Some denied"
| "apply_decisions (d # ds) [] denied = None"
| "apply_decisions (d # ds) (ev # evs) denied =
     apply_decisions ds evs
       (if d = ''deny''
        then AList.update (call_id_of (ev_call ev))
               (''Tool '' @ [CHR 0x27] @ ev_canonical ev @ [CHR 0x27] @ '' was denied by approval hook.'') denied
        else denied)"

text \<open>
  The outcome: the denied ids with their messages, the approval requests sent to the channel,
  and the audit records; \<^const>\<open>None\<close> for the exception.
\<close>

record gate_outcome =
  go_denied :: "(string \<times> string) list"
  go_requests :: "(string \<times> string \<times> json) list"
  go_audit :: "(string \<times> string) list list"

definition hook_question :: "evaluated \<Rightarrow> string \<times> string \<times> json" where
  "hook_question ev = (call_id_of (ev_call ev), ev_canonical ev, ev_args ev)"

definition gate_calls ::
    "audit_env \<Rightarrow> (string \<Rightarrow> json option) \<Rightarrow> registry \<Rightarrow> approval_hook option \<Rightarrow> tier option
     \<Rightarrow> jobj list \<Rightarrow> gate_outcome option" where
  "gate_calls ad loads reg hook tier_override calls =
     (let gs = first_pass ad reg hook (map (evaluate_call loads reg tier_override) calls) in
      if gs_gated gs = []
      then Some \<lparr>go_denied = gs_denied gs, go_requests = [], go_audit = gs_audit gs\<rparr>
      else case hook of
             None \<Rightarrow>
               (let gs' = fold (deny_no_hook ad) (gs_gated gs) gs
                in Some \<lparr>go_denied = gs_denied gs', go_requests = [], go_audit = gs_audit gs'\<rparr>)
           | Some h \<Rightarrow>
               (let qs = map hook_question (gs_gated gs) in
                case apply_decisions (ah_decide h qs) (gs_gated gs) (gs_denied gs) of
                  None \<Rightarrow> None
                | Some denied \<Rightarrow>
                    Some \<lparr>go_denied = denied, go_requests = qs, go_audit = gs_audit gs\<rparr>))"

text \<open>The calls that go on to be executed, and those answered with a denial.\<close>

definition denied_id :: "gate_outcome \<Rightarrow> jobj \<Rightarrow> bool" where
  "denied_id g call = (call_id_of call \<in> fst ` set (go_denied g))"

definition remaining_calls :: "gate_outcome \<Rightarrow> jobj list \<Rightarrow> jobj list" where
  "remaining_calls g calls = filter (\<lambda>c. \<not> denied_id g c) calls"

definition denied_results :: "gate_outcome \<Rightarrow> jobj list \<Rightarrow> tool_result list" where
  "denied_results g calls =
     map (\<lambda>c. error_result (call_id_of c) (the (map_of (go_denied g) (call_id_of c))))
       (filter (denied_id g) calls)"

subsection \<open>Lemmas\<close>

abbreviation ids_of :: "(string \<times> string) list \<Rightarrow> string set" where
  "ids_of d \<equiv> fst ` set d"

definition is_deny :: "verdict \<Rightarrow> bool" where
  "is_deny v = (case v of Deny _ _ \<Rightarrow> True | _ \<Rightarrow> False)"

lemma apply_verdict_simps [simp]:
  "gs_gated (apply_verdict ad ev v gs) = gs_gated gs @ (if v = NeedsApproval then [ev] else [])"
  "ids_of (gs_denied (apply_verdict ad ev v gs))
     = ids_of (gs_denied gs) \<union> (if is_deny v then {call_id_of (ev_call ev)} else {})"
  by (cases v; simp add: apply_verdict_def Let_def is_deny_def)+

lemma apply_verdict_audit:
  "ad_logger ad \<noteq> None \<Longrightarrow>
   length (gs_audit (apply_verdict ad ev v gs)) = length (gs_audit gs) + (if v = NeedsApproval then 0 else 1)"
  by (cases v) (auto simp: apply_verdict_def Let_def emit_runner_audit_def)

lemma first_pass_fold:
  fixes ad reg hook evs
  defines "f \<equiv> \<lambda>ev. apply_verdict ad ev (first_verdict reg hook ev)"
  shows "gs_gated (fold f evs gs) = gs_gated gs @ filter (\<lambda>ev. first_verdict reg hook ev = NeedsApproval) evs"
    and "ids_of (gs_denied (fold f evs gs)) = ids_of (gs_denied gs)
          \<union> (\<lambda>ev. call_id_of (ev_call ev)) ` {ev \<in> set evs. is_deny (first_verdict reg hook ev)}"
    and "ad_logger ad \<noteq> None \<Longrightarrow> length (gs_audit (fold f evs gs))
          + length (filter (\<lambda>ev. first_verdict reg hook ev = NeedsApproval) evs)
          = length (gs_audit gs) + length evs"
  unfolding f_def by (induction evs arbitrary: gs) (auto simp: apply_verdict_audit)

lemma first_pass_gated:
  "gs_gated (first_pass ad reg hook evs) = filter (\<lambda>ev. first_verdict reg hook ev = NeedsApproval) evs"
  by (simp add: first_pass_def first_pass_fold(1))

lemma first_pass_denied:
  "ids_of (gs_denied (first_pass ad reg hook evs))
     = (\<lambda>ev. call_id_of (ev_call ev)) ` {ev \<in> set evs. is_deny (first_verdict reg hook ev)}"
  unfolding first_pass_def first_pass_fold(2) by simp

lemma first_pass_audit:
  "ad_logger ad \<noteq> None \<Longrightarrow>
     length (gs_audit (first_pass ad reg hook evs)) + length (gs_gated (first_pass ad reg hook evs)) = length evs"
  using first_pass_fold(3) [of ad reg hook evs "\<lparr>gs_denied = [], gs_gated = [], gs_audit = []\<rparr>"]
  unfolding first_pass_gated by (simp add: first_pass_def)

lemma deny_no_hook_fold:
  "ids_of (gs_denied (fold (deny_no_hook ad) evs gs))
     = ids_of (gs_denied gs) \<union> (\<lambda>ev. call_id_of (ev_call ev)) ` set evs"
  "ad_logger ad \<noteq> None \<Longrightarrow>
     length (gs_audit (fold (deny_no_hook ad) evs gs)) = length (gs_audit gs) + length evs"
  by (induction evs arbitrary: gs) (auto simp: deny_no_hook_def Let_def emit_runner_audit_def)

lemma apply_decisions_ids:
  "apply_decisions ds evs denied = Some denied' \<Longrightarrow>
     length ds \<le> length evs
     \<and> ids_of denied' = ids_of denied
         \<union> (\<lambda>i. call_id_of (ev_call (evs ! i))) ` {i. i < length ds \<and> ds ! i = ''deny''}"
proof (induction ds evs denied rule: apply_decisions.induct)
  case (3 d ds ev evs denied)
  have split0: "{i. i < length (d # ds) \<and> (d # ds) ! i = ''deny''}
      = (if d = ''deny'' then {0} else {}) \<union> Suc ` {i. i < length ds \<and> ds ! i = ''deny''}"
  proof (rule set_eqI)
    fix i show "(i \<in> {i. i < length (d # ds) \<and> (d # ds) ! i = ''deny''})
      = (i \<in> (if d = ''deny'' then {0} else {}) \<union> Suc ` {i. i < length ds \<and> ds ! i = ''deny''})"
      by (cases i) auto
  qed
  have "(\<lambda>i. call_id_of (ev_call ((ev # evs) ! i))) ` {i. i < length (d # ds) \<and> (d # ds) ! i = ''deny''}
      = (if d = ''deny'' then {call_id_of (ev_call ev)} else {})
        \<union> (\<lambda>i. call_id_of (ev_call (evs ! i))) ` {i. i < length ds \<and> ds ! i = ''deny''}"
    unfolding split0 image_Un image_image by simp
  with 3 show ?case by simp
qed auto

lemma apply_decisions_some:
  "length ds \<le> length evs \<Longrightarrow> \<exists>d'. apply_decisions ds evs denied = Some d'"
  by (induction ds evs denied rule: apply_decisions.induct) auto

text \<open>Where the denied ids of a round come from.\<close>

lemma gate_calls_denied:
  assumes "gate_calls ad loads reg hook ov calls = Some g"
  defines "evs \<equiv> map (evaluate_call loads reg ov) calls"
  defines "gated \<equiv> filter (\<lambda>ev. first_verdict reg hook ev = NeedsApproval) evs"
  shows "ids_of (go_denied g) =
      (\<lambda>ev. call_id_of (ev_call ev)) ` {ev \<in> set evs. is_deny (first_verdict reg hook ev)}
      \<union> (case hook of
           None \<Rightarrow> (\<lambda>ev. call_id_of (ev_call ev)) ` set gated
         | Some h \<Rightarrow>
             if gated = [] then {}
             else (\<lambda>i. call_id_of (ev_call (gated ! i)))
                    ` {i. i < length (ah_decide h (map hook_question gated))
                          \<and> ah_decide h (map hook_question gated) ! i = ''deny''})"
proof -
  have g: "gs_gated (first_pass ad reg hook evs) = gated"
    by (simp add: first_pass_gated gated_def)
  note d = first_pass_denied [of ad reg hook evs]
  show ?thesis
  proof (cases "gated = []")
    case True
    with assms(1) g have "go_denied g = gs_denied (first_pass ad reg hook evs)"
      by (auto simp: gate_calls_def evs_def [symmetric] Let_def)
    with True d show ?thesis by (cases hook) simp_all
  next
    case False
    show ?thesis
    proof (cases hook)
      case None
      with assms(1) False g have "go_denied g
          = gs_denied (fold (deny_no_hook ad) gated (first_pass ad reg hook evs))"
        by (auto simp: gate_calls_def evs_def [symmetric] Let_def)
      with None d show ?thesis by (simp add: deny_no_hook_fold)
    next
      case (Some h)
      with assms(1) False g obtain denied where
        "apply_decisions (ah_decide h (map hook_question gated)) gated
           (gs_denied (first_pass ad reg hook evs)) = Some denied" "go_denied g = denied"
        by (auto simp: gate_calls_def evs_def [symmetric] Let_def split: option.splits)
      with apply_decisions_ids [OF this(1)] False Some d show ?thesis by simp
    qed
  qed
qed

lemma evaluate_simps [simp]:
  "ev_call (evaluate_call loads reg ov c) = c"
  "ev_llm_name (evaluate_call loads reg ov c) = call_name c"
  by (simp_all add: evaluate_call_def Let_def)

text \<open>The verdict on a call of a round.\<close>

definition verdict_of ::
    "(string \<Rightarrow> json option) \<Rightarrow> registry \<Rightarrow> approval_hook option \<Rightarrow> tier option \<Rightarrow> jobj \<Rightarrow> verdict" where
  "verdict_of loads reg hook ov c = first_verdict reg hook (evaluate_call loads reg ov c)"

lemma remaining_not_denied:
  assumes "gate_calls ad loads reg hook ov calls = Some g" and "c \<in> set (remaining_calls g calls)"
  shows "c \<in> set calls \<and> \<not> is_deny (verdict_of loads reg hook ov c)
    \<and> (hook = None \<longrightarrow> verdict_of loads reg hook ov c \<noteq> NeedsApproval)"
proof -
  from assms(2) have c: "c \<in> set calls" "call_id_of c \<notin> ids_of (go_denied g)"
    by (auto simp: remaining_calls_def denied_id_def)
  let ?ev = "evaluate_call loads reg ov c"
  have mem: "call_id_of c \<in> (\<lambda>ev. call_id_of (ev_call ev)) ` {ev \<in> set (map (evaluate_call loads reg ov) calls). P ev}"
    if "P ?ev" for P
    using c(1) that by (intro rev_image_eqI [of ?ev]) auto
  note d = gate_calls_denied [OF assms(1)]
  have "\<not> is_deny (first_verdict reg hook ?ev)"
    using c(2) mem [of "\<lambda>ev. is_deny (first_verdict reg hook ev)"] d by auto
  moreover have "first_verdict reg hook ?ev \<noteq> NeedsApproval" if "hook = None"
    using c(2) mem [of "\<lambda>ev. first_verdict reg hook ev = NeedsApproval"] d that by auto
  ultimately show ?thesis
    using c(1) by (simp add: verdict_of_def)
qed

subsection \<open>Properties\<close>

text \<open>
  The tier of a call is the stricter one of the tier of the turn and the tier the
  server of the tool forces: a server can only restrict.
\<close>

theorem forced_tier_only_restricts:
  "rank (ev_tier (evaluate_call loads reg ov c))
     = max (rank (case ov of Some t \<Rightarrow> t | None \<Rightarrow> Approval))
           (case forced_tier (find_tool reg (call_name c)) of Some f \<Rightarrow> rank f | None \<Rightarrow> 0)
   \<and> (ev_source (evaluate_call loads reg ov c) = ''forced-by-server-config''
        \<longleftrightarrow> ev_tier (evaluate_call loads reg ov c) \<noteq> (case ov of Some t \<Rightarrow> t | None \<Rightarrow> Approval))"
proof -
  have "(rank a < rank b) \<Longrightarrow> a \<noteq> b" for a b by auto
  then show ?thesis
    by (auto simp: evaluate_call_def Let_def max_def split: option.splits)
qed

text \<open>
  Property C6.  Under the read-only tier no call of a tool that writes is executed, nor one of a
  tool that is not known: a call that remains after the gate has a tool whose class is not
  \<^verbatim>\<open>write\<close>.
\<close>

theorem read_only_executes_no_write:
  assumes "gate_calls ad loads reg hook ov calls = Some g"
    and "c \<in> set (remaining_calls g calls)"
    and "ev_tier (evaluate_call loads reg ov c) = ReadOnly"
  shows "\<exists>t cl. find_tool reg (call_name c) = Some t \<and> t_class t = Some cl \<and> cl \<noteq> ''write''"
  using remaining_not_denied [OF assms(1,2)] assms(3)
  by (auto simp: verdict_of_def first_verdict_def is_deny_def class_of_def split: option.splits if_splits)

definition demo_writer :: tool where
  "demo_writer = (demo_tool ''act'' False True)\<lparr>t_class := Some ''write''\<rparr>"

definition demo_audit :: audit_env where
  "demo_audit = \<lparr>ad_logger = Some True, ad_session = ''s'', ad_channel = ''web'', ad_user = None,
                 ad_role = None, ad_backend = None\<rparr>"

theorem read_only_executes_no_write_witness:
  "\<exists>g. gate_calls demo_audit (\<lambda>_. None) [(''act'', demo_writer), (''look'', demo_tool ''look'' False False)]
         None (Some ReadOnly) [demo_call ''c1'' ''act'', demo_call ''c2'' ''look''] = Some g
     \<and> remaining_calls g [demo_call ''c1'' ''act'', demo_call ''c2'' ''look''] = [demo_call ''c2'' ''look'']
     \<and> (\<exists>cl. t_class (demo_tool ''look'' False False) = Some cl \<and> cl \<noteq> ''write'')"
proof -
  let ?reg = "[(''act'', demo_writer), (''look'', demo_tool ''look'' False False)]"
  let ?calls = "[demo_call ''c1'' ''act'', demo_call ''c2'' ''look'']"
  have "map_option (\<lambda>g. remaining_calls g ?calls)
      (gate_calls demo_audit (\<lambda>_. None) ?reg None (Some ReadOnly) ?calls) = Some [demo_call ''c2'' ''look'']"
    by code_simp
  then obtain g where g: "gate_calls demo_audit (\<lambda>_. None) ?reg None (Some ReadOnly) ?calls = Some g"
    "remaining_calls g ?calls = [demo_call ''c2'' ''look'']" by blast
  have "ev_tier (evaluate_call (\<lambda>_. None) ?reg (Some ReadOnly) (demo_call ''c2'' ''look'')) = ReadOnly"
    "find_tool ?reg (call_name (demo_call ''c2'' ''look'')) = Some (demo_tool ''look'' False False)"
    by code_simp+
  with read_only_executes_no_write [OF g(1), of "demo_call ''c2'' ''look''"] g show ?thesis by auto
qed

definition gated_of ::
    "(string \<Rightarrow> json option) \<Rightarrow> registry \<Rightarrow> approval_hook option \<Rightarrow> tier option \<Rightarrow> jobj list \<Rightarrow> evaluated list" where
  "gated_of loads reg hook ov calls =
     filter (\<lambda>ev. first_verdict reg hook ev = NeedsApproval) (map (evaluate_call loads reg ov) calls)"

text \<open>The hook's answer to a round of calls; it is not asked when nothing is gated.\<close>

definition decisions_of ::
    "(string \<Rightarrow> json option) \<Rightarrow> registry \<Rightarrow> approval_hook \<Rightarrow> tier option \<Rightarrow> jobj list \<Rightarrow> string list" where
  "decisions_of loads reg h ov calls =
     (let gated = gated_of loads reg (Some h) ov calls
      in if gated = [] then [] else ah_decide h (map hook_question gated))"

text \<open>
  Property C7.  A call that needs approval is not executed when there is no hook to ask, nor when
  the hook answers \<^verbatim>\<open>deny\<close> at its position.
\<close>

theorem denied_call_is_not_executed:
  assumes "gate_calls ad loads reg hook ov calls = Some g" and "c \<in> set (remaining_calls g calls)"
  shows "case hook of
      None \<Rightarrow> verdict_of loads reg hook ov c \<noteq> NeedsApproval
    | Some h \<Rightarrow> (\<forall>i < length (decisions_of loads reg h ov calls).
        decisions_of loads reg h ov calls ! i = ''deny''
        \<longrightarrow> gated_of loads reg hook ov calls ! i \<noteq> evaluate_call loads reg ov c)"
proof (cases hook)
  case None
  with remaining_not_denied [OF assms] show ?thesis by simp
next
  case (Some h)
  have notin: "call_id_of c \<notin> ids_of (go_denied g)"
    using assms(2) by (simp add: remaining_calls_def denied_id_def)
  have "call_id_of c \<in> ids_of (go_denied g)"
    if i: "i < length (decisions_of loads reg h ov calls)" "decisions_of loads reg h ov calls ! i = ''deny''"
      "gated_of loads reg hook ov calls ! i = evaluate_call loads reg ov c" for i
  proof -
    from Some i(1) have "gated_of loads reg hook ov calls \<noteq> []"
      by (auto simp: decisions_of_def Let_def)
    moreover have "call_id_of c = call_id_of (ev_call (gated_of loads reg hook ov calls ! i))"
      using i(3) by simp
    ultimately show ?thesis
      unfolding gate_calls_denied [OF assms(1)] using Some i(1,2)
      by (auto simp: gated_of_def decisions_of_def Let_def)
  qed
  with notin Some show ?thesis by auto
qed

text \<open>A hook that gates everything and denies the first of the calls it is asked about.\<close>

definition demo_hook :: approval_hook where
  "demo_hook = \<lparr>ah_gate_ctx = (\<lambda>_. GateSays True), ah_gate = (\<lambda>_. GateSays True),
                ah_decide = (\<lambda>qs. [''deny''])\<rparr>"

theorem denied_call_is_not_executed_witness:
  "\<exists>g. gate_calls demo_audit (\<lambda>_. None) demo_registry (Some demo_hook) None
         [demo_call ''c1'' ''act'', demo_call ''c2'' ''look''] = Some g
     \<and> remaining_calls g [demo_call ''c1'' ''act'', demo_call ''c2'' ''look''] = [demo_call ''c2'' ''look'']
     \<and> gated_of (\<lambda>_. None) demo_registry (Some demo_hook) None
          [demo_call ''c1'' ''act'', demo_call ''c2'' ''look''] ! 0
         \<noteq> evaluate_call (\<lambda>_. None) demo_registry None (demo_call ''c2'' ''look'')"
proof -
  let ?calls = "[demo_call ''c1'' ''act'', demo_call ''c2'' ''look'']"
  have "map_option (\<lambda>g. remaining_calls g ?calls)
      (gate_calls demo_audit (\<lambda>_. None) demo_registry (Some demo_hook) None ?calls) = Some [demo_call ''c2'' ''look'']"
    by code_simp
  then obtain g where g: "gate_calls demo_audit (\<lambda>_. None) demo_registry (Some demo_hook) None ?calls = Some g"
    "remaining_calls g ?calls = [demo_call ''c2'' ''look'']" by blast
  have "decisions_of (\<lambda>_. None) demo_registry demo_hook None ?calls = [''deny'']"
    by code_simp
  with denied_call_is_not_executed [OF g(1), of "demo_call ''c2'' ''look''"] g show ?thesis by auto
qed

text \<open>
  Only the word \<^verbatim>\<open>deny\<close> denies: when the hook answers anything else, such as \<^verbatim>\<open>wait\<close>, or
  leaves calls without an answer, the calls that wait for approval are executed.
\<close>

theorem unanswered_calls_are_executed:
  assumes "''deny'' \<notin> set (decisions_of loads reg h ov calls)"
    and "length (decisions_of loads reg h ov calls) \<le> length (gated_of loads reg (Some h) ov calls)"
    and "\<forall>c \<in> set calls. verdict_of loads reg (Some h) ov c = NeedsApproval"
  shows "\<exists>g. gate_calls ad loads reg (Some h) ov calls = Some g \<and> remaining_calls g calls = calls"
proof -
  obtain g where g: "gate_calls ad loads reg (Some h) ov calls = Some g"
  proof (cases "gated_of loads reg (Some h) ov calls = []")
    case True
    then show thesis using that
      by (simp add: gate_calls_def Let_def first_pass_gated gated_of_def)
  next
    case False
    obtain d where "apply_decisions (decisions_of loads reg h ov calls) (gated_of loads reg (Some h) ov calls)
        (gs_denied (first_pass ad reg (Some h) (map (evaluate_call loads reg ov) calls))) = Some d"
      using apply_decisions_some [OF assms(2)] by blast
    with False show thesis using that
      by (simp add: gate_calls_def Let_def first_pass_gated gated_of_def decisions_of_def)
  qed
  have none: "{i. i < length (decisions_of loads reg h ov calls)
      \<and> decisions_of loads reg h ov calls ! i = ''deny''} = {}"
    using assms(1) by (auto simp: in_set_conv_nth)
  have "{ev \<in> set (map (evaluate_call loads reg ov) calls). is_deny (first_verdict reg (Some h) ev)} = {}"
    using assms(3) by (auto simp: verdict_of_def is_deny_def)
  with gate_calls_denied [OF g] none have "ids_of (go_denied g) = {}"
    by (auto simp: gated_of_def decisions_of_def Let_def split: if_splits simp del: Collect_empty_eq)
  then have "remaining_calls g calls = calls"
    by (auto simp: remaining_calls_def denied_id_def)
  with g show ?thesis by blast
qed

definition waiting_hook :: approval_hook where
  "waiting_hook = demo_hook\<lparr>ah_decide := (\<lambda>qs. [''wait''])\<rparr>"

theorem unanswered_calls_are_executed_witness:
  "\<exists>g. gate_calls demo_audit (\<lambda>_. None) demo_registry (Some waiting_hook) None
         [demo_call ''c1'' ''act'', demo_call ''c2'' ''look''] = Some g
     \<and> remaining_calls g [demo_call ''c1'' ''act'', demo_call ''c2'' ''look'']
         = [demo_call ''c1'' ''act'', demo_call ''c2'' ''look'']"
proof (rule unanswered_calls_are_executed)
  let ?calls = "[demo_call ''c1'' ''act'', demo_call ''c2'' ''look'']"
  show "''deny'' \<notin> set (decisions_of (\<lambda>_. None) demo_registry waiting_hook None ?calls)"
    "length (decisions_of (\<lambda>_. None) demo_registry waiting_hook None ?calls)
       \<le> length (gated_of (\<lambda>_. None) demo_registry (Some waiting_hook) None ?calls)"
    "\<forall>c \<in> set ?calls. verdict_of (\<lambda>_. None) demo_registry (Some waiting_hook) None c = NeedsApproval"
    by code_simp+
qed



end
