(* ===== verification/Runner.thy ===== *)
theory Runner
  imports Compaction Llm TurnClass Gate "HOL-Library.List_Lexorder" "HOL-Library.Char_ord"
begin

section \<open>The runner\<close>

text \<open>
  \<^verbatim>\<open>run_agent_stream\<close> of \<^verbatim>\<open>src/pyclaw/core/agent/runner.py\<close>: one run of the agent, from the
  user's message to the event that ends it.  The state is what the coroutine changes: the
  session tree, the events it yields, the entries it hands to the session store, its counters.
  What it meets (the model's answers, the clock, the abort event, the tools, the store, the hooks) is the
  record \<open>run_env\<close>, which gives for each iteration of the loop what happens in it, in all
  the ways it can; the theorems hold for every such environment.
\<close>

subsection \<open>Events, state and environment\<close>

datatype agent_event =
    TextChunk string
  | ToolCallStart string string json
  | ToolCallEnd string tool_result
  | ApprovalRequest string string json
  | DoneEvent string usage
  | ErrorEvent string string

fun terminal :: "agent_event \<Rightarrow> bool" where
  "terminal (DoneEvent _ _) = True"
| "terminal (ErrorEvent _ _) = True"
| "terminal _ = False"

text \<open>What the hooks and the context engine are told.\<close>

datatype notice =
    RunStarted
  | ResponseSeen string "jobj list"
  | BeforeCompaction nat int
  | AfterCompaction compact_result
  | AfterTurn "jobj list"
  | RunEnded string

record 'w run_state =
  rs_tree :: session_tree
  rs_events :: "agent_event list"
  rs_store :: "session_entry list"
  rs_sent :: "(jobj list \<times> system_prompt) list"
  rs_notices :: "notice list"
  rs_audit :: "(string \<times> string) list list"
  rs_world :: 'w
  rs_iter :: nat
  rs_totals :: usage
  rs_retry :: "turn_class \<Rightarrow> int"
  rs_unknown :: "string option"
  rs_count :: int
  rs_warned :: bool
  rs_term :: string

text \<open>An answer of the context engine to \<^verbatim>\<open>compact\<close>: a result or an exception.\<close>

datatype compact_answer = CompactAnswer compact_result | CompactRaises string string

text \<open>
  How the stream of the model ends for the runner; the last case is an exception that is none of
  those the runner handles.
\<close>

datatype stream_fin =
    FinDone
  | FinTimeout string
  | FinAborted
  | FinError string string
  | FinRaises

text \<open>
  One iteration: the readings of the clock and of the abort event at the top of the loop, the
  hooks' part of the prompt, the assembled messages with the memory context, the answers of the
  engine to the two places that compact, whether the time is up before the model is asked,
  the chunks of the stream with the readings before each of them, and its end; the order in
  which the event loop runs the parallel batch of tools.
\<close>

record turn =
  tu_timed_out :: bool
  tu_aborted :: bool
  tu_suffix :: string
  tu_assemble :: "jobj list \<Rightarrow> jobj list"
  tu_addition :: "string option"
  tu_pretrim :: compact_answer
  tu_overflow :: compact_answer
  tu_time_up :: bool
  tu_chunks :: "(bool \<times> bool \<times> chunk) list"
  tu_fin :: stream_fin
  tu_sched :: "(nat \<times> jobj) list \<Rightarrow> (nat \<times> jobj) list"

record 'w run_env =
  re_max_iterations :: nat
  re_run_seconds :: rat
  re_tool_seconds :: rat
  re_history_budget :: int
  re_max_output_chars :: int
  re_limits :: "turn_class \<Rightarrow> int"
  re_unknown_threshold :: int
  re_model :: string
  re_frozen :: string
  re_extra_system :: string
  re_tools :: "'w tool_env"
  re_int :: "string \<Rightarrow> int option"
  re_dumps :: "json \<Rightarrow> string"
  re_registry :: registry
  re_hook :: "approval_hook option"
  re_audit :: audit_env
  re_override :: "tier option"
  re_pe :: py_env
  re_token4 :: "string list \<Rightarrow> nat \<Rightarrow> string"
  re_token16 :: "string list \<Rightarrow> string"
  re_now :: "nat \<Rightarrow> string"
  re_store_fails :: "session_entry \<Rightarrow> bool"
  re_turn :: "nat \<Rightarrow> turn"

text \<open>
  How a stretch of the coroutine ends: it goes on with a value, it continues with the next
  iteration, it returns, or an exception leaves it.
\<close>

datatype ('s, 'a) flow = Go 's 'a | NextTurn 's | Return 's | Crash 's

fun flow_bind :: "('s, 'a) flow \<Rightarrow> ('s \<Rightarrow> 'a \<Rightarrow> ('s, 'b) flow) \<Rightarrow> ('s, 'b) flow" where
  "flow_bind (Go s a) f = f s a"
| "flow_bind (NextTurn s) f = NextTurn s"
| "flow_bind (Return s) f = Return s"
| "flow_bind (Crash s) f = Crash s"

subsection \<open>Entries and events\<close>

definition emit :: "agent_event \<Rightarrow> 'w run_state \<Rightarrow> 'w run_state" where
  "emit ev st = st\<lparr>rs_events := rs_events st @ [ev]\<rparr>"

definition notify :: "notice \<Rightarrow> 'w run_state \<Rightarrow> 'w run_state" where
  "notify n st = st\<lparr>rs_notices := rs_notices st @ [n]\<rparr>"

text \<open>\<^verbatim>\<open>yield ErrorEvent(...); return\<close>, with \<^verbatim>\<open>terminated_by\<close> set before.\<close>

definition fail_with :: "string \<Rightarrow> string \<Rightarrow> 'w run_state \<Rightarrow> ('w run_state, 'a) flow" where
  "fail_with code msg st = Return (emit (ErrorEvent code msg) (st\<lparr>rs_term := code\<rparr>))"

definition new_id :: "'w run_env \<Rightarrow> session_tree \<Rightarrow> string" where
  "new_id env t =
     (let ids = all_entry_ids t
      in generate_entry_id ids 100 (re_token4 env ids) (re_token16 env ids))"

definition new_entry :: "'w run_env \<Rightarrow> entry_body \<Rightarrow> session_tree \<Rightarrow> session_entry" where
  "new_entry env b t =
     \<lparr>entry_id = new_id env t, parent_id = leaf_id t, timestamp = re_now env (length (order t)), body = b\<rparr>"

text \<open>\<^verbatim>\<open>_append\<close> writes the entry into the tree itself, without the check of \<^verbatim>\<open>SessionTree.append\<close>.\<close>

definition put_entry :: "session_entry \<Rightarrow> session_tree \<Rightarrow> session_tree" where
  "put_entry e t =
     t\<lparr>entries := AList.update (entry_id e) e (entries t), order := order t @ [entry_id e],
       leaf_id := Some (entry_id e)\<rparr>"

definition append_body :: "'w run_env \<Rightarrow> entry_body \<Rightarrow> 'w run_state \<Rightarrow> ('w run_state, unit) flow" where
  "append_body env b st =
     (let e = new_entry env b (rs_tree st);
          st' = st\<lparr>rs_tree := put_entry e (rs_tree st)\<rparr>
      in if re_store_fails env e then Crash st'
         else Go (st'\<lparr>rs_store := rs_store st' @ [e]\<rparr>) ())"

definition message_body :: "role \<Rightarrow> content \<Rightarrow> jobj list option \<Rightarrow> string option \<Rightarrow> entry_body" where
  "message_body r c tcs tcid = MessageEntry r c tcs tcid False"

text \<open>\<^verbatim>\<open>_persist_partial_assistant\<close>: an exception of the store is only logged.\<close>

definition persist_partial :: "'w run_env \<Rightarrow> string \<Rightarrow> 'w run_state \<Rightarrow> 'w run_state" where
  "persist_partial env tx st =
     (if tx = [] then st
      else case append_body env (MessageEntry RAssistant (CText tx) None None True) st of
             Go st' _ \<Rightarrow> st' | Crash st' \<Rightarrow> st' | _ \<Rightarrow> st)"

subsection \<open>The system prompt\<close>

definition is_anthropic_model :: "string \<Rightarrow> bool" where
  "is_anthropic_model model =
     list_ex (\<lambda>p. starts_with p (py_lower model))
       [''anthropic/'', ''claude-'', ''bedrock/anthropic.'', ''vertex_ai/claude-'']"

definition MIN_CACHE_TOKENS :: nat where "MIN_CACHE_TOKENS = 1024"

definition build_effective_system :: "string \<Rightarrow> string list \<Rightarrow> string \<Rightarrow> system_prompt" where
  "build_effective_system frozen_text other_parts model =
     (let rest = py_join (nl @ nl) (filter (\<lambda>p. p \<noteq> []) other_parts);
          full = (if rest \<noteq> [] then py_join (nl @ nl) [frozen_text, rest] else frozen_text)
      in if \<not> is_anthropic_model model then SysText full
         else if length frozen_text div 4 < MIN_CACHE_TOKENS then SysText full
         else SysBlocks
           ([JObj [(''type'', JStr ''text''), (''text'', JStr frozen_text),
                   (''cache_control'', JObj [(''type'', JStr ''ephemeral'')])]]
            @ (if rest \<noteq> [] then [JObj [(''type'', JStr ''text''), (''text'', JStr rest)]] else [])))"

subsection \<open>Compaction within a run\<close>

record compaction_outcome =
  oc_ok :: bool
  oc_compacted :: bool
  oc_code :: "string option"
  oc_message :: "string option"

definition or_default :: "string option \<Rightarrow> string \<Rightarrow> string" where
  "or_default o' d = (if opt_truthy o' then the o' else d)"

definition try_compaction ::
    "'w run_env \<Rightarrow> compact_answer \<Rightarrow> jobj list \<Rightarrow> 'w run_state
     \<Rightarrow> ('w run_state, compaction_outcome) flow" where
  "try_compaction env answer base st =
     (let checkpoint = take_checkpoint (rs_tree st);
          st1 = notify (BeforeCompaction (length base) (tokens_of (est_of (re_pe env)) base)) st
      in case answer of
           CompactRaises ty msg \<Rightarrow>
             Go (st1\<lparr>rs_tree := restore_into checkpoint (rs_tree st1)\<rparr>)
               \<lparr>oc_ok = False, oc_compacted = False, oc_code = Some ''compaction_failed'',
                oc_message = Some (''compaction raised '' @ ty @ '': '' @ msg)\<rparr>
         | CompactAnswer r \<Rightarrow>
             (let st2 = notify (AfterCompaction r) st1
              in if \<not> cr_ok r
                 then Go (st2\<lparr>rs_tree := restore_into checkpoint (rs_tree st2)\<rparr>)
                   \<lparr>oc_ok = False, oc_compacted = False,
                    oc_code = Some (or_default (cr_reason_code r) ''compaction_failed''),
                    oc_message = Some (or_default (cr_reason r) ''compaction failed'')\<rparr>
                 else if cr_compacted r \<and> opt_truthy (cr_summary r)
                 then flow_bind
                   (append_body env
                      (CompactionEntry (the (cr_summary r)) (or_default (leaf_id (rs_tree st2)) [])
                         (cr_tokens_before r) None) st2)
                   (\<lambda>st3 _. Go st3 \<lparr>oc_ok = True, oc_compacted = True, oc_code = None, oc_message = None\<rparr>)
                 else Go st2 \<lparr>oc_ok = True, oc_compacted = False, oc_code = None, oc_message = None\<rparr>))"

subsection \<open>The top of an iteration\<close>

definition show_secs :: "'w run_env \<Rightarrow> string" where
  "show_secs env = te_show_float (re_tools env) (re_run_seconds env)"

text \<open>The checks of the loop; then the iteration counts.\<close>

definition turn_guard :: "'w run_env \<Rightarrow> 'w run_state \<Rightarrow> ('w run_state, turn) flow" where
  "turn_guard env st =
     (let tu = re_turn env (rs_iter st) in
      if tu_timed_out tu
      then fail_with ''timeout'' (''run exceeded '' @ show_secs env @ ''s run_seconds'') st
      else if tu_aborted tu then fail_with ''aborted'' ''run aborted'' st
      else Go (st\<lparr>rs_iter := rs_iter st + 1\<rparr>) tu)"

definition system_of :: "'w run_env \<Rightarrow> turn \<Rightarrow> system_prompt" where
  "system_of env tu =
     build_effective_system (re_frozen env)
       ([tu_suffix tu]
        @ (if opt_truthy (tu_addition tu) then [the (tu_addition tu)] else [])
        @ (if re_extra_system env \<noteq> [] then [re_extra_system env] else []))
       (re_model env)"

text \<open>
  The conversation of the tree, the assembled messages, and the compaction before the request when
  the messages are over the budget.  A walk through the tree that never ends is counted as a
  crash; it is excluded on well-formed trees.
\<close>

definition failed_compaction ::
    "compaction_outcome \<Rightarrow> 'w run_state \<Rightarrow> ('w run_state, 'a) flow" where
  "failed_compaction oc st =
     fail_with (or_default (oc_code oc) ''compaction_failed'')
       (or_default (oc_message oc) ''compaction failed'') st"

definition prepare ::
    "'w run_env \<Rightarrow> turn \<Rightarrow> 'w run_state \<Rightarrow> ('w run_state, jobj list \<times> jobj list) flow" where
  "prepare env tu st =
     (case build_session_context (rs_tree st) of
        None \<Rightarrow> Crash st
      | Some base \<Rightarrow>
          (let assembled = tu_assemble tu base in
           flow_bind
             (if re_history_budget env > 0
                 \<and> tokens_of (est_of (re_pe env)) assembled > re_history_budget env
              then flow_bind (try_compaction env (tu_pretrim tu) base st)
                (\<lambda>st' oc. if \<not> oc_ok oc then failed_compaction oc st'
                          else if oc_compacted oc then NextTurn st' else Go st' ())
              else Go st ())
             (\<lambda>st' _. if tu_time_up tu then fail_with ''timeout'' ''run exceeded run_seconds'' st'
                      else Go st' (base, assembled))))"

subsection \<open>The stream of the model\<close>

text \<open>The loop over the chunks; each is preceded by a reading of the clock and of the abort event.\<close>

fun stream_loop ::
    "'w run_env \<Rightarrow> (bool \<times> bool \<times> chunk) list \<Rightarrow> collected \<Rightarrow> 'w run_state
     \<Rightarrow> ('w run_state, collected) flow" where
  "stream_loop env [] acc st = Go st acc"
| "stream_loop env ((late, aborted, c) # cs) acc st =
     (if late
      then fail_with ''timeout'' (''run exceeded '' @ show_secs env @ ''s run_seconds during stream'')
             (persist_partial env (co_text acc) st)
      else if aborted
      then fail_with ''aborted'' ''run aborted during llm stream'' (persist_partial env (co_text acc) st)
      else stream_loop env cs (collect_chunk c acc)
             (if ck_text c \<noteq> [] then emit (TextChunk (ck_text c)) st else st))"

definition stream_finish ::
    "'w run_env \<Rightarrow> turn \<Rightarrow> jobj list \<Rightarrow> 'w run_state \<Rightarrow> collected
     \<Rightarrow> ('w run_state, llm_response) flow" where
  "stream_finish env tu base st acc =
     (case tu_fin tu of
        FinDone \<Rightarrow> Go st (response_of (te_loads (re_tools env)) (re_dumps env) acc)
      | FinTimeout msg \<Rightarrow> fail_with ''timeout'' msg (persist_partial env (co_text acc) st)
      | FinAborted \<Rightarrow>
          fail_with ''aborted'' ''run aborted during llm call'' (persist_partial env (co_text acc) st)
      | FinError code msg \<Rightarrow>
          (if code = CONTEXT_OVERFLOW
           then flow_bind (try_compaction env (tu_overflow tu) base st)
             (\<lambda>st' oc.
                if \<not> oc_ok oc then failed_compaction oc (persist_partial env (co_text acc) st')
                else if oc_compacted oc then NextTurn st'
                else fail_with code msg (persist_partial env (co_text acc) st'))
           else fail_with code msg (persist_partial env (co_text acc) st))
      | FinRaises \<Rightarrow> Crash st)"

definition ask_model ::
    "'w run_env \<Rightarrow> turn \<Rightarrow> jobj list \<times> jobj list \<Rightarrow> 'w run_state
     \<Rightarrow> ('w run_state, llm_response) flow" where
  "ask_model env tu msgs st =
     (let st1 = st\<lparr>rs_sent := rs_sent st @ [(snd msgs, system_of env tu)]\<rparr>
      in flow_bind (stream_loop env (tu_chunks tu) start_collect st1)
           (stream_finish env tu (fst msgs)))"

definition add_usage :: "usage \<Rightarrow> usage \<Rightarrow> usage" where
  "add_usage a b =
     \<lparr>u_input = u_input a + u_input b, u_output = u_output a + u_output b, u_total = u_total a,
      u_cache_creation = u_cache_creation a + u_cache_creation b,
      u_cache_read = u_cache_read a + u_cache_read b\<rparr>"

subsection \<open>An answer without tool calls\<close>

definition retry_limit_for :: "'w run_env \<Rightarrow> turn_class \<Rightarrow> int" where
  "retry_limit_for env c = (if c = TurnOk then 0 else re_limits env c)"

definition text_turn ::
    "'w run_env \<Rightarrow> llm_response \<Rightarrow> 'w run_state \<Rightarrow> ('w run_state, unit) flow" where
  "text_turn env resp st =
     (let c = classify_turn (lr_text resp) False None; limit = retry_limit_for env c;
          answer = message_body RAssistant (CText (lr_text resp)) None None
      in if c \<noteq> TurnOk \<and> limit > 0 \<and> rs_retry st c < limit
         then flow_bind (append_body env answer (st\<lparr>rs_retry := (rs_retry st)(c := rs_retry st c + 1)\<rparr>))
           (\<lambda>st1 _. case retry_message_for c of
              None \<Rightarrow> NextTurn st1
            | Some p \<Rightarrow> flow_bind (append_body env (message_body RUser (CText p) None None) st1)
                (\<lambda>st2 _. NextTurn st2))
         else flow_bind (append_body env answer st)
           (\<lambda>st1 _. let st2 = notify (ResponseSeen (lr_text resp) []) st1 in
              case build_session_context (rs_tree st2) of
                None \<Rightarrow> Crash st2
              | Some ctx \<Rightarrow>
                  Return (emit (DoneEvent (lr_text resp) (rs_totals st2))
                    ((notify (AfterTurn ctx) st2)\<lparr>rs_term := ''done''\<rparr>))))"

subsection \<open>Unknown tools\<close>

datatype loop_action = Proceed | Warn string | Terminate

definition unknown_tool_guidance :: "registry \<Rightarrow> string \<Rightarrow> string" where
  "unknown_tool_guidance reg n =
     (let available = py_join '', '' (sort (tool_names reg)) in
      ''You called `'' @ n @ ''` which does not exist. Available tools: [''
      @ (if available \<noteq> [] then available else ''(none)'')
      @ '']. Stop calling `'' @ n @ ''`.'')"

text \<open>\<^verbatim>\<open>_update_tool_loop_state\<close>: the new state and what to do.\<close>

definition update_tool_loop_state ::
    "jobj list \<Rightarrow> registry \<Rightarrow> string option \<Rightarrow> int \<Rightarrow> bool \<Rightarrow> int
     \<Rightarrow> string option \<times> int \<times> bool \<times> loop_action" where
  "update_tool_loop_state calls reg current_unknown unknown_count warned threshold =
     (let unknown = filter (\<lambda>n. n \<noteq> [] \<and> \<not> registry_contains reg n) (map call_name calls) in
      if threshold \<le> 0 \<or> calls = [] then (None, 0, False, Proceed)
      else if unknown = [] then (None, 0, False, Proceed)
      else
        let first = hd unknown;
            changed = (current_unknown \<noteq> None \<and> current_unknown \<noteq> Some first);
            count' = (if changed then 0 else unknown_count) + 1;
            warned' = (if changed then False else warned)
        in if warned' then (Some first, count', warned', Terminate)
           else if count' \<ge> threshold
           then (Some first, count', True, Warn (unknown_tool_guidance reg first))
           else (Some first, count', warned', Proceed))"

subsection \<open>A round of tool calls\<close>

text \<open>The entries and the events for a list of results, in their order.\<close>

definition tool_body :: "string \<Rightarrow> tool_result \<Rightarrow> entry_body" where
  "tool_body cid r =
     message_body RTool (CText (tool_result_to_llm_content r)) None (Some cid)"

fun append_results ::
    "'w run_env \<Rightarrow> (string \<times> tool_result) list \<Rightarrow> 'w run_state \<Rightarrow> ('w run_state, unit) flow" where
  "append_results env [] st = Go st ()"
| "append_results env ((cid, r) # rs) st =
     flow_bind (append_body env (tool_body cid r) st)
       (\<lambda>st' _. append_results env rs (emit (ToolCallEnd cid r) st'))"

fun emit_all :: "agent_event list \<Rightarrow> 'w run_state \<Rightarrow> 'w run_state" where
  "emit_all [] st = st"
| "emit_all (ev # evs) st = emit_all evs (emit ev st)"

text \<open>
  The announcement of the calls.  The event's \<^verbatim>\<open>arguments\<close> are declared a dictionary and validated: for
  arguments that are another JSON value its construction raises.
\<close>

fun start_calls :: "'w run_env \<Rightarrow> jobj list \<Rightarrow> 'w run_state \<Rightarrow> ('w run_state, unit) flow" where
  "start_calls env [] st = Go st ()"
| "start_calls env (call # calls) st =
     (case raw_args (te_loads (re_tools env)) call of
        JObj d \<Rightarrow> start_calls env calls (emit (ToolCallStart (call_id_of call) (call_name call) (JObj d)) st)
      | _ \<Rightarrow> Crash st)"

definition result_cap :: "'w run_env \<Rightarrow> jobj \<Rightarrow> int" where
  "result_cap env call =
     (case find_tool (re_registry env) (call_name call) of
        Some t \<Rightarrow> resolve_max_output_chars (re_int env) (t_max_output t) (re_max_output_chars env)
      | None \<Rightarrow> re_max_output_chars env)"

text \<open>The execution of the calls that are left, and the results cut to their bounds.\<close>

definition run_tools ::
    "'w run_env \<Rightarrow> turn \<Rightarrow> jobj list \<Rightarrow> 'w run_state \<Rightarrow> (string \<times> tool_result) list \<times> 'w run_state" where
  "run_tools env tu calls st =
     (let (results, w) = execute_tool_calls (re_tools env) (tu_sched tu) (re_registry env)
             (re_tool_seconds env) calls (rs_world st)
      in (map (\<lambda>(call, r). (call_id_of call, truncate_tool_result (the r) (result_cap env call)))
            (zip calls results),
          st\<lparr>rs_world := w\<rparr>))"

text \<open>
  The round after the checks: starts, gate, denials, execution, results.  An \<^verbatim>\<open>IndexError\<close> from
  too many decisions of the hook leaves the coroutine, after the approval requests are sent.
\<close>

definition gate_of :: "'w run_env \<Rightarrow> jobj list \<Rightarrow> gate_outcome option" where
  "gate_of env calls =
     gate_calls (re_audit env) (te_loads (re_tools env)) (re_registry env) (re_hook env) (re_override env) calls"

definition request_event :: "string \<times> string \<times> json \<Rightarrow> agent_event" where
  "request_event q = ApprovalRequest (fst q) (fst (snd q)) (snd (snd q))"

definition no_retries :: "turn_class \<Rightarrow> int" where
  "no_retries = (\<lambda>_. 0)"

definition gated_round ::
    "'w run_env \<Rightarrow> turn \<Rightarrow> jobj list \<Rightarrow> 'w run_state \<Rightarrow> ('w run_state, unit) flow" where
  "gated_round env tu calls st1 =
     (case gate_of env calls of
        None \<Rightarrow>
          Crash ((emit_all (map (request_event \<circ> hook_question)
            (gated_of (te_loads (re_tools env)) (re_registry env) (re_hook env) (re_override env) calls)) st1)
              \<lparr>rs_audit := rs_audit st1 @ gs_audit (first_pass (re_audit env) (re_registry env) (re_hook env)
                 (map (evaluate_call (te_loads (re_tools env)) (re_registry env) (re_override env)) calls))\<rparr>)
      | Some g \<Rightarrow>
          (let st2 = (emit_all (map request_event (go_requests g)) st1)
                       \<lparr>rs_audit := rs_audit st1 @ go_audit g\<rparr>;
               left = remaining_calls g calls
           in flow_bind
                (append_results env
                   (map (\<lambda>r. (tr_call_id r, r)) (denied_results g calls)) st2)
                (\<lambda>st3 _.
                   if go_denied g \<noteq> [] \<and> left = [] then NextTurn st3
                   else (let (rs, st4) = run_tools env tu left st3
                         in flow_bind (append_results env rs st4)
                              (\<lambda>st5 _. NextTurn (st5\<lparr>rs_retry := no_retries\<rparr>))))))"

definition tool_round ::
    "'w run_env \<Rightarrow> turn \<Rightarrow> jobj list \<Rightarrow> 'w run_state \<Rightarrow> ('w run_state, unit) flow" where
  "tool_round env tu calls st =
     flow_bind (start_calls env calls st) (\<lambda>st1 _. gated_round env tu calls st1)"

definition call_turn ::
    "'w run_env \<Rightarrow> turn \<Rightarrow> llm_response \<Rightarrow> 'w run_state \<Rightarrow> ('w run_state, unit) flow" where
  "call_turn env tu resp st =
     flow_bind
       (append_body env
          (message_body RAssistant (CText (lr_text resp)) (Some (lr_tool_calls resp)) None) st)
       (\<lambda>st1 _.
          let st2 = notify (ResponseSeen (lr_text resp) (lr_tool_calls resp)) st1;
              (un, cnt, warned, act) = update_tool_loop_state (lr_tool_calls resp) (re_registry env)
                 (rs_unknown st2) (rs_count st2) (rs_warned st2) (re_unknown_threshold env);
              st3 = st2\<lparr>rs_unknown := un, rs_count := cnt, rs_warned := warned\<rparr>
          in case act of
               Terminate \<Rightarrow>
                 fail_with ''tool_loop''
                   (''tool '' @ (case un of None \<Rightarrow> ''None'' | Some n \<Rightarrow> py_repr n)
                    @ '' called after unknown-tool guidance'') st3
             | Warn guidance \<Rightarrow>
                 flow_bind (append_body env (message_body RUser (CText guidance) None None) st3)
                   (\<lambda>st4 _. NextTurn st4)
             | Proceed \<Rightarrow> tool_round env tu (lr_tool_calls resp) st3)"

subsection \<open>The loop and the run\<close>

definition answer_turn ::
    "'w run_env \<Rightarrow> turn \<Rightarrow> llm_response \<Rightarrow> 'w run_state \<Rightarrow> ('w run_state, unit) flow" where
  "answer_turn env tu resp st =
     (let st1 = st\<lparr>rs_totals := add_usage (rs_totals st) (lr_usage resp)\<rparr> in
      if lr_tool_calls resp = [] then text_turn env resp st1 else call_turn env tu resp st1)"

definition one_turn :: "'w run_env \<Rightarrow> 'w run_state \<Rightarrow> ('w run_state, unit) flow" where
  "one_turn env st =
     flow_bind (turn_guard env st) (\<lambda>st1 tu.
       flow_bind (prepare env tu st1) (\<lambda>st2 msgs.
         flow_bind (ask_model env tu msgs st2) (\<lambda>st3 resp.
           answer_turn env tu resp st3)))"

text \<open>\<open>n\<close> is the number of iterations left of \<^verbatim>\<open>max_iterations\<close>.\<close>

fun run_loop :: "'w run_env \<Rightarrow> nat \<Rightarrow> 'w run_state \<Rightarrow> ('w run_state, unit) flow" where
  "run_loop env 0 st =
     fail_with ''max_iterations'' (''reached max_iterations='' @ show_nat (re_max_iterations env)) st"
| "run_loop env (Suc n) st =
     (case one_turn env st of
        Go st' _ \<Rightarrow> run_loop env n st'
      | NextTurn st' \<Rightarrow> run_loop env n st'
      | Return st' \<Rightarrow> Return st'
      | Crash st' \<Rightarrow> Crash st')"

record run_request =
  rr_user_message :: string
  rr_attachments :: "content_block list"
  rr_providers :: providers

definition user_content :: "run_request \<Rightarrow> content" where
  "user_content rq =
     (if rr_attachments rq \<noteq> []
      then CBlocks (rr_attachments rq
        @ (if rr_user_message rq \<noteq> [] \<and> py_strip (rr_user_message rq) \<noteq> []
           then [TextBlock (rr_user_message rq)] else []))
      else CText (rr_user_message rq))"

definition start_state :: "session_tree \<Rightarrow> 'w \<Rightarrow> 'w run_state" where
  "start_state t w =
     \<lparr>rs_tree = t, rs_events = [], rs_store = [], rs_sent = [], rs_notices = [RunStarted], rs_audit = [],
      rs_world = w, rs_iter = 0, rs_totals = zero_usage, rs_retry = no_retries, rs_unknown = None,
      rs_count = 0, rs_warned = False, rs_term = ''done''\<rparr>"

text \<open>
  The request with attachments is refused for a model without image input: the error event is sent
  while \<^verbatim>\<open>terminated_by\<close> is still \<^verbatim>\<open>done\<close>.  An error of the lookup of the provider leaves the coroutine.
\<close>

definition vision_refusal :: "'w run_env \<Rightarrow> run_request \<Rightarrow> agent_event" where
  "vision_refusal env rq =
     ErrorEvent VISION_NOT_SUPPORTED
       (''Model '' @ [CHR 0x27] @ re_model env @ [CHR 0x27]
        @ '' does not have image input capability. Available vision-capable models: ''
        @ format_vision_capable_models (rr_providers rq) @ ''. Use /model <model_id> to switch.'')"

definition run_body ::
    "'w run_env \<Rightarrow> run_request \<Rightarrow> 'w run_state \<Rightarrow> ('w run_state, unit) flow" where
  "run_body env rq st =
     (case (if rr_attachments rq \<noteq> [] \<and> rr_providers rq \<noteq> []
            then model_supports_input (re_model env) (rr_providers rq) ''image'' None False
            else Inr True) of
        Inl e \<Rightarrow> Crash st
      | Inr False \<Rightarrow> Return (emit (vision_refusal env rq) st)
      | Inr True \<Rightarrow>
          flow_bind (append_body env (message_body RUser (user_content rq) None None) st)
            (\<lambda>st1 _. run_loop env (re_max_iterations env) st1))"

text \<open>The \<^verbatim>\<open>finally\<close> clause: the hooks learn how the run ended, also after an exception.\<close>

definition run_end :: "('w run_state, unit) flow \<Rightarrow> ('w run_state, unit) flow" where
  "run_end f =
     (case f of
        Go st _ \<Rightarrow> Return (notify (RunEnded (rs_term st)) st)
      | NextTurn st \<Rightarrow> Return (notify (RunEnded (rs_term st)) st)
      | Return st \<Rightarrow> Return (notify (RunEnded (rs_term st)) st)
      | Crash st \<Rightarrow> Crash (notify (RunEnded (rs_term st)) st))"

definition run_agent_stream ::
    "'w run_env \<Rightarrow> run_request \<Rightarrow> session_tree \<Rightarrow> 'w \<Rightarrow> ('w run_state, unit) flow" where
  "run_agent_stream env rq t w = run_end (run_body env rq (start_state t w))"

text \<open>\<^verbatim>\<open>ensure_session\<close> and the model of the run.\<close>

definition ensure_session ::
    "session_tree option \<Rightarrow> string \<Rightarrow> string \<Rightarrow> string \<Rightarrow> string \<Rightarrow> session_tree \<times> bool" where
  "ensure_session loaded sid ws ag now =
     (case loaded of
        Some t \<Rightarrow> (t, False)
      | None \<Rightarrow> (new_tree (mk_header sid ws ag now None []), True))"

definition effective_model :: "string option \<Rightarrow> session_tree \<Rightarrow> string \<Rightarrow> string" where
  "effective_model requested t default_model =
     (if opt_truthy requested then the requested
      else if opt_truthy (model_override (header t)) then the (model_override (header t))
      else default_model)"

text \<open>\<^verbatim>\<open>run_agent\<close> reads its result off the events; what it counts are the results of tools.\<close>

record run_result =
  rres_text :: string
  rres_iterations :: nat
  rres_terminated_by :: string

fun result_step :: "agent_event \<Rightarrow> run_result \<Rightarrow> run_result" where
  "result_step (DoneEvent tx u) r = r\<lparr>rres_text := tx, rres_terminated_by := ''done''\<rparr>"
| "result_step (ErrorEvent code msg) r = r\<lparr>rres_terminated_by := code\<rparr>"
| "result_step (ToolCallEnd i x) r = r\<lparr>rres_iterations := rres_iterations r + 1\<rparr>"
| "result_step _ r = r"

definition run_agent :: "agent_event list \<Rightarrow> run_result" where
  "run_agent evs =
     fold result_step evs \<lparr>rres_text = [], rres_iterations = 0, rres_terminated_by = ''done''\<rparr>"

text \<open>The frozen part's index of the memory: active entries with a content.\<close>

definition format_l1_snapshot :: "(string \<times> string) list \<Rightarrow> string" where
  "format_l1_snapshot es =
     (if es = [] then []
      else py_join nl ([''<memory_index>'']
        @ map (\<lambda>(status, c). ''- '' @ c) (filter (\<lambda>(status, c). status = ''active'' \<and> c \<noteq> []) es)
        @ [''</memory_index>'']))"

subsection \<open>Invariants of a run\<close>

text \<open>
  \<open>flow_ok I F f\<close>: wherever the stretch \<open>f\<close> goes on or is left by an exception, \<open>I\<close> holds, and
  where it returns, \<open>F\<close> holds.
\<close>

definition flow_ok :: "('s \<Rightarrow> bool) \<Rightarrow> ('s \<Rightarrow> bool) \<Rightarrow> ('s, 'a) flow \<Rightarrow> bool" where
  "flow_ok I F f =
     (case f of Go s _ \<Rightarrow> I s | NextTurn s \<Rightarrow> I s | Return s \<Rightarrow> F s | Crash s \<Rightarrow> I s)"

lemma flow_ok_simps [simp]:
  "flow_ok I F (Go s a) = I s" "flow_ok I F (NextTurn s) = I s"
  "flow_ok I F (Return s) = F s" "flow_ok I F (Crash s) = I s"
  by (simp_all add: flow_ok_def)

lemma flow_ok_bind:
  "flow_ok I F f \<Longrightarrow> (\<And>s a. I s \<Longrightarrow> flow_ok I F (g s a)) \<Longrightarrow> flow_ok I F (flow_bind f g)"
  by (cases f) auto

text \<open>The parts of the state that the stretches of a run change in no other way than these.\<close>

definition same_core :: "'w run_state \<Rightarrow> 'w run_state \<Rightarrow> bool" where
  "same_core st st' =
     (rs_tree st' = rs_tree st \<and> rs_store st' = rs_store st \<and> rs_events st' = rs_events st
      \<and> rs_sent st' = rs_sent st)"

lemma restore_checkpoint [simp]: "restore_into (take_checkpoint t) t = t"
  by (simp add: restore_into_def take_checkpoint_def)

text \<open>
  The contract of an invariant \<open>I\<close> of a run, with \<open>F\<close> for its end: appending an entry keeps it,
  also when the store fails; so does yielding an event that ends nothing; an event that ends
  the run leads from \<open>I\<close> to \<open>F\<close>; and nothing else of the state matters.
\<close>

locale run_steps =
  fixes env :: "'w run_env"
    and I :: "'w run_state \<Rightarrow> bool"
    and F :: "'w run_state \<Rightarrow> bool"
  assumes append_inv: "I st \<Longrightarrow> flow_ok I F (append_body env b st)"
    and emit_inv: "I st \<Longrightarrow> \<not> terminal ev \<Longrightarrow> I (emit ev st)"
    and finish_inv: "I st \<Longrightarrow> terminal ev \<Longrightarrow> F (emit ev st)"
    and frame: "I st \<Longrightarrow> same_core st st' \<Longrightarrow> I st'"
    and frame_end: "F st \<Longrightarrow> same_core st st' \<Longrightarrow> F st'"
begin

lemma notify_ok: "I st \<Longrightarrow> I (notify n st)"
  by (erule frame) (simp add: notify_def same_core_def)

lemma fail_ok: "I st \<Longrightarrow> flow_ok I F (fail_with c m st)"
  by (simp add: fail_with_def) (rule finish_inv, erule frame, simp_all add: same_core_def)

lemma persist_ok: "I st \<Longrightarrow> I (persist_partial env tx st)"
  using append_inv [of st "MessageEntry RAssistant (CText tx) None None True"]
  by (auto simp: persist_partial_def flow_ok_def split: flow.splits)

lemma emit_all_ok: "I st \<Longrightarrow> (\<And>ev. ev \<in> set evs \<Longrightarrow> \<not> terminal ev) \<Longrightarrow> I (emit_all evs st)"
  by (induction evs arbitrary: st) (auto intro: emit_inv)

lemma try_compaction_ok: "I st \<Longrightarrow> flow_ok I F (try_compaction env ans base st)"
proof -
  assume "I st"
  note n1 = notify_ok [OF this]
  note n2 = notify_ok [OF n1]
  have tr: "rs_tree (notify n st) = rs_tree st" for n and st :: "'w run_state"
    by (simp add: notify_def)
  show ?thesis
  proof (cases ans)
    case (CompactRaises ty msg)
    then show ?thesis
      by (simp add: try_compaction_def Let_def tr) (rule frame [OF n1], simp add: same_core_def tr)
  next
    case (CompactAnswer r)
    have "I ((notify (AfterCompaction r) s)\<lparr>rs_tree := rs_tree st\<rparr>)" if "I s" "rs_tree s = rs_tree st" for s
      by (rule frame [OF notify_ok [OF that(1)]]) (simp add: same_core_def tr that(2))
    with CompactAnswer n1 n2 show ?thesis
      by (auto simp: try_compaction_def Let_def tr intro!: flow_ok_bind append_inv)
  qed
qed

lemma turn_guard_ok: "I st \<Longrightarrow> flow_ok I F (turn_guard env st)"
  by (auto simp: turn_guard_def Let_def same_core_def intro!: fail_ok elim: frame)

lemma prepare_ok: "I st \<Longrightarrow> flow_ok I F (prepare env tu st)"
  by (auto simp: prepare_def Let_def failed_compaction_def
      intro!: flow_ok_bind try_compaction_ok fail_ok split: option.split)

lemma stream_loop_ok: "I st \<Longrightarrow> flow_ok I F (stream_loop env cs acc st)"
proof (induction cs arbitrary: acc st)
  case (Cons x cs)
  obtain late aborted c where x: "x = (late, aborted, c)" by (cases x)
  have "I (if ck_text c \<noteq> [] then emit (TextChunk (ck_text c)) st else st)"
    using Cons.prems by (auto intro: emit_inv)
  from Cons.IH [OF this] show ?case
    using Cons.prems by (simp add: x fail_ok persist_ok)
qed simp

lemma stream_finish_ok: "I st \<Longrightarrow> flow_ok I F (stream_finish env tu base st acc)"
  by (cases "tu_fin tu")
    (auto simp: stream_finish_def failed_compaction_def
      intro!: fail_ok persist_ok flow_ok_bind try_compaction_ok)

lemma text_turn_ok: "I st \<Longrightarrow> flow_ok I F (text_turn env resp st)"
proof -
  assume I: "I st"
  have retry: "I (st\<lparr>rs_retry := r\<rparr>)" for r
    by (rule frame [OF I]) (simp add: same_core_def)
  have fin: "F (emit (DoneEvent t u) ((notify n s)\<lparr>rs_term := ''done''\<rparr>))" if "I s" for n s t u
    by (rule finish_inv [OF frame [OF notify_ok [OF that]]]) (simp_all add: same_core_def)
  show ?thesis
    using I unfolding text_turn_def Let_def
    by (auto intro!: flow_ok_bind append_inv notify_ok retry fin split: option.split)
qed

lemma append_results_ok: "I st \<Longrightarrow> flow_ok I F (append_results env rs st)"
proof (induction rs arbitrary: st)
  case (Cons x rs)
  obtain cid r where x: "x = (cid, r)" by (cases x)
  show ?case
    unfolding x append_results.simps
    by (rule flow_ok_bind [OF append_inv [OF Cons.prems]], rule Cons.IH, rule emit_inv) simp_all
qed simp

lemma run_tools_ok: "I st \<Longrightarrow> run_tools env tu calls st = (rs, st') \<Longrightarrow> I st'"
  by (auto simp: run_tools_def same_core_def split: prod.splits elim!: frame)

lemma start_calls_ok: "I st \<Longrightarrow> flow_ok I F (start_calls env calls st)"
proof (induction calls arbitrary: st)
  case (Cons c cs)
  have "I (emit (ToolCallStart i n a) st)" for i n a
    by (rule emit_inv [OF Cons.prems]) simp
  with Cons show ?case by (auto split: json.split)
qed simp

lemma gated_round_ok: "I st \<Longrightarrow> flow_ok I F (gated_round env tu calls st)"
proof -
  let ?st1 = st
  assume n1: "I ?st1"
  have n2: "I (emit_all (map (request_event \<circ> f) qs) ?st1)" for f :: "'q \<Rightarrow> _" and qs
    using n1 by (rule emit_all_ok) (auto simp: request_event_def)
  have n2': "I (emit_all (map request_event qs) ?st1)" for qs
    using n1 by (rule emit_all_ok) (auto simp: request_event_def)
  have aud: "I (s\<lparr>rs_audit := a\<rparr>)" if "I s" for s a
    by (rule frame [OF that]) (simp add: same_core_def)
  have ret: "I (s\<lparr>rs_retry := r\<rparr>)" if "I s" for s r
    by (rule frame [OF that]) (simp add: same_core_def)
  have left: "flow_ok I F (let (rs, st4) = run_tools env tu l s
      in flow_bind (append_results env rs st4) (\<lambda>st5 _. NextTurn (st5\<lparr>rs_retry := no_retries\<rparr>)))"
    if "I s" for l s
    by (cases "run_tools env tu l s")
      (auto intro!: flow_ok_bind append_results_ok ret dest: run_tools_ok [OF that])
  show ?thesis
  proof (cases "gate_of env calls")
    case None
    then show ?thesis
      unfolding gated_round_def Let_def by (simp add: aud n2)
  next
    case (Some g)
    have step: "flow_ok I F (flow_bind (append_results env rs s)
        (\<lambda>st3 _. if go_denied g \<noteq> [] \<and> remaining_calls g calls = [] then NextTurn st3
           else (let (rs, st4) = run_tools env tu (remaining_calls g calls) st3
                 in flow_bind (append_results env rs st4)
                      (\<lambda>st5 _. NextTurn (st5\<lparr>rs_retry := no_retries\<rparr>)))))" if "I s" for rs s
      by (rule flow_ok_bind [OF append_results_ok [OF that]]) (simp add: left [unfolded Let_def] Let_def)
    show ?thesis
      unfolding gated_round_def Let_def Some option.case
      by (rule step [unfolded Let_def], rule aud, rule n2')
  qed
qed

lemma tool_round_ok: "I st \<Longrightarrow> flow_ok I F (tool_round env tu calls st)"
  unfolding tool_round_def by (intro flow_ok_bind start_calls_ok gated_round_ok)

lemma call_turn_ok: "I st \<Longrightarrow> flow_ok I F (call_turn env tu resp st)"
proof -
  assume I: "I st"
  have upd: "I (s\<lparr>rs_unknown := u, rs_count := c, rs_warned := w\<rparr>)" if "I s" for s u c w
    by (rule frame [OF that]) (simp add: same_core_def)
  show ?thesis
    unfolding call_turn_def Let_def
    by (auto intro!: flow_ok_bind append_inv fail_ok tool_round_ok upd notify_ok I
        split: prod.split loop_action.split)
qed

lemma answer_turn_ok: "I st \<Longrightarrow> flow_ok I F (answer_turn env tu resp st)"
proof -
  assume I: "I st"
  have "I (st\<lparr>rs_totals := u\<rparr>)" for u
    by (rule frame [OF I]) (simp add: same_core_def)
  then show ?thesis
    unfolding answer_turn_def Let_def by (simp add: text_turn_ok call_turn_ok)
qed

end

text \<open>An invariant that also survives the sending of a request holds in the whole run.\<close>

locale run_invariant = run_steps +
  assumes sent_inv: "I st \<Longrightarrow> I (st\<lparr>rs_sent := rs_sent st @ [x]\<rparr>)"
begin

lemma ask_model_ok: "I st \<Longrightarrow> flow_ok I F (ask_model env tu msgs st)"
  by (auto simp: ask_model_def Let_def intro!: flow_ok_bind stream_loop_ok stream_finish_ok sent_inv)

lemma one_turn_ok: "I st \<Longrightarrow> flow_ok I F (one_turn env st)"
  unfolding one_turn_def
  by (intro flow_ok_bind turn_guard_ok prepare_ok ask_model_ok answer_turn_ok)

lemma run_loop_ok: "I st \<Longrightarrow> flow_ok I F (run_loop env n st)"
proof (induction n arbitrary: st)
  case (Suc n)
  with one_turn_ok [of st] show ?case by (cases "one_turn env st") auto
qed (simp add: fail_ok)

lemma run_loop_returns: "(\<exists>s. run_loop env n st = Return s) \<or> (\<exists>s. run_loop env n st = Crash s)"
  by (induction n arbitrary: st) (auto simp: fail_with_def split: flow.split)

lemma run_body_ok: "I st \<Longrightarrow> flow_ok I F (run_body env rq st)"
  by (auto simp: run_body_def vision_refusal_def intro!: flow_ok_bind append_inv run_loop_ok finish_inv
      split: sum.split bool.split)

lemma stream_ok:
  "I (start_state t w) \<Longrightarrow> flow_ok I F (run_agent_stream env rq t w)"
proof -
  assume I: "I (start_state t w)"
  have fr: "F (notify n s)" if "F s" for n s
    by (rule frame_end [OF that]) (simp add: notify_def same_core_def)
  have "run_body env rq (start_state t w) \<noteq> Go s u \<and> run_body env rq (start_state t w) \<noteq> NextTurn s" for s u
  proof -
    have "flow_bind (append_body env b s0) (\<lambda>st1 _. run_loop env n st1) \<noteq> Go s u
        \<and> flow_bind (append_body env b s0) (\<lambda>st1 _. run_loop env n st1) \<noteq> NextTurn s" for b s0 n
      using run_loop_returns [of n] by (cases "append_body env b s0") (auto simp: append_body_def Let_def split: if_splits, (metis flow.distinct)+)
    then show ?thesis by (auto simp: run_body_def split: sum.split bool.split)
  qed
  with run_body_ok [OF I, of rq] show ?thesis
    by (cases "run_body env rq (start_state t w)") (auto simp: run_agent_stream_def run_end_def fr notify_ok)
qed

end

subsection \<open>The invariants\<close>

text \<open>The events: nothing that ends a run before its end, one that does at the end.\<close>

definition quiet :: "'w run_state \<Rightarrow> bool" where
  "quiet st = (\<forall>ev \<in> set (rs_events st). \<not> terminal ev)"

definition closed :: "'w run_state \<Rightarrow> bool" where
  "closed st = (\<exists>evs ev. rs_events st = evs @ [ev] \<and> terminal ev \<and> (\<forall>e \<in> set evs. \<not> terminal e))"

interpretation run_events: run_invariant env quiet closed for env
  by unfold_locales
    (auto simp: quiet_def closed_def append_body_def Let_def emit_def same_core_def flow_ok_def)

text \<open>
  The tree.  The sixteen random bytes that are taken when a hundred short ids are all in use are
  assumed not to be the id of an entry: the code does not check them.
\<close>

definition fresh_ids :: "'w run_env \<Rightarrow> bool" where
  "fresh_ids env = (\<forall>ids. re_token16 env ids \<notin> set ids)"

lemma new_id_fresh:
  assumes "fresh_ids env"
  shows "new_id env t \<notin> fst ` set (entries t)"
proof -
  let ?ids = "all_entry_ids t"
  have "new_id env t \<notin> set ?ids"
  proof (cases "find (\<lambda>c. c \<notin> set ?ids) (map (re_token4 env ?ids) [0..<100])")
    case None
    with assms show ?thesis by (simp add: new_id_def generate_entry_id_def fresh_ids_def)
  next
    case (Some c)
    then have "c \<notin> set ?ids" unfolding find_Some_iff by blast
    with Some show ?thesis by (simp add: new_id_def generate_entry_id_def)
  qed
  then show ?thesis by (simp add: all_entry_ids_def)
qed

lemma put_entry_append:
  "entry_id e \<notin> fst ` set (entries t) \<Longrightarrow> tree_append t e = Inr (put_entry e t, entry_id e)"
  by (simp add: tree_append_def put_entry_def)

lemma put_new_entry_ok:
  assumes "fresh_ids env" and "tree_ok t"
  shows "tree_ok (put_entry (new_entry env b t) t)"
proof -
  let ?e = "new_entry env b t"
  have "entry_id ?e \<notin> fst ` set (entries t)"
    using new_id_fresh [OF assms(1)] by (simp add: new_entry_def)
  note ap = put_entry_append [OF this]
  have "parent_id ?e = leaf_id t" by (simp add: new_entry_def)
  from tree_append_ok [OF assms(2) ap leaf_parent_ok [OF assms(2) this]] show ?thesis .
qed

definition tree_inv :: "'w run_env \<Rightarrow> session_tree \<Rightarrow> 'w run_state \<Rightarrow> bool" where
  "tree_inv env t0 st =
     (if fresh_ids env \<and> tree_ok t0
      then tree_ok (rs_tree st) \<and> prefix (order t0) (order (rs_tree st)) \<and> header (rs_tree st) = header t0
      else True)"

lemma append_body_states:
  "flow_ok (\<lambda>s. rs_tree s = put_entry (new_entry env b (rs_tree st)) (rs_tree st)
      \<and> rs_events s = rs_events st \<and> rs_sent s = rs_sent st
      \<and> (re_store_fails env (new_entry env b (rs_tree st))
         \<or> rs_store s = rs_store st @ [new_entry env b (rs_tree st)])) (\<lambda>_. False) (append_body env b st)"
  by (simp add: append_body_def Let_def)

lemma flow_ok_mono:
  "flow_ok P Q f \<Longrightarrow> (\<And>s. P s \<Longrightarrow> I s) \<Longrightarrow> (\<And>s. Q s \<Longrightarrow> F s) \<Longrightarrow> flow_ok I F f"
  by (cases f) auto

lemma tree_inv_put:
  "tree_inv env t0 st \<Longrightarrow> rs_tree s = put_entry (new_entry env b (rs_tree st)) (rs_tree st)
     \<Longrightarrow> tree_inv env t0 s"
  by (auto simp: tree_inv_def put_new_entry_ok) (auto simp: put_entry_def)

interpretation run_tree: run_invariant env "tree_inv env t0" "tree_inv env t0" for env t0
proof unfold_locales
  show "tree_inv env t0 st \<Longrightarrow> flow_ok (tree_inv env t0) (tree_inv env t0) (append_body env b st)"
    for st :: "'a run_state" and b
    by (rule flow_ok_mono [OF append_body_states]) (auto intro: tree_inv_put)
qed (auto simp: tree_inv_def emit_def same_core_def)

text \<open>The store: what it was given rebuilds the tree, as long as it does not fail.\<close>

definition store_inv :: "'w run_env \<Rightarrow> session_tree \<Rightarrow> 'w run_state \<Rightarrow> bool" where
  "store_inv env t0 st =
     ((\<exists>e. re_store_fails env e) \<or> rs_tree st = fold put_entry (rs_store st) t0)"

interpretation run_store: run_invariant env "store_inv env t0" "store_inv env t0" for env t0
proof unfold_locales
  show "store_inv env t0 st \<Longrightarrow> flow_ok (store_inv env t0) (store_inv env t0) (append_body env b st)"
    for st :: "'a run_state" and b
    by (rule flow_ok_mono [OF append_body_states]) (auto simp: store_inv_def)
qed (auto simp: store_inv_def emit_def same_core_def)

text \<open>The number of requests sent to the model, which one stretch of an iteration changes.\<close>

definition sent_count :: "nat \<Rightarrow> 'w run_state \<Rightarrow> bool" where
  "sent_count n st = (length (rs_sent st) = n)"

interpretation run_count: run_steps env "sent_count n" "sent_count n" for env n
proof unfold_locales
  show "sent_count n st \<Longrightarrow> flow_ok (sent_count n) (sent_count n) (append_body env b st)"
    for st :: "'a run_state" and b
    by (rule flow_ok_mono [OF append_body_states]) (auto simp: sent_count_def)
qed (auto simp: sent_count_def emit_def same_core_def)

subsection \<open>Properties\<close>

lemma start_quiet: "quiet (start_state t w)"
  by (simp add: quiet_def start_state_def)

text \<open>
  Property C1.  A run that returns has yielded exactly one event that ends a run, an error or the
  final answer, as its last event; and the hooks were told of the end last.
\<close>

theorem run_ends_with_one_terminal_event:
  assumes "run_agent_stream env rq t w = Return st"
  shows "(\<exists>evs ev. rs_events st = evs @ [ev] \<and> terminal ev \<and> (\<forall>e \<in> set evs. \<not> terminal e))
    \<and> (\<exists>ns. rs_notices st = ns @ [RunEnded (rs_term st)])"
proof -
  have "closed st"
    using run_events.stream_ok [OF start_quiet, of env rq t w] assms by simp
  moreover have "\<exists>ns. rs_notices st = ns @ [RunEnded (rs_term st)]"
    using assms by (auto simp: run_agent_stream_def run_end_def notify_def split: flow.splits)
  ultimately show ?thesis by (simp add: closed_def)
qed

definition demo_chunk :: "string \<Rightarrow> tc_delta list \<Rightarrow> chunk" where
  "demo_chunk tx ds = \<lparr>ck_text = tx, ck_deltas = ds, ck_finish = None, ck_usage = None\<rparr>"

definition demo_turn :: "(bool \<times> bool \<times> chunk) list \<Rightarrow> turn" where
  "demo_turn cs = \<lparr>tu_timed_out = False, tu_aborted = False, tu_suffix = [], tu_assemble = (\<lambda>m. m),
     tu_addition = None, tu_pretrim = CompactRaises [] [], tu_overflow = CompactRaises [] [],
     tu_time_up = False, tu_chunks = cs, tu_fin = FinDone, tu_sched = (\<lambda>x. x)\<rparr>"

text \<open>
  A small world: the tools of \<^const>\<open>demo_registry\<close> and an answer that comes in two chunks.
\<close>

definition demo_run :: "nat run_env" where
  "demo_run = \<lparr>re_max_iterations = 3, re_run_seconds = 0, re_tool_seconds = 1, re_history_budget = 0,
     re_max_output_chars = 100, re_limits = (\<lambda>_. 1), re_unknown_threshold = 2, re_model = ''m'',
     re_frozen = ''f'', re_extra_system = [], re_tools = demo_tools, re_int = (\<lambda>_. None),
     re_dumps = (\<lambda>_. ''{}''), re_registry = demo_registry, re_hook = None, re_audit = demo_audit,
     re_override = None, re_pe = demo_env,
     re_token4 = (\<lambda>ids k. ''e''), re_token16 = (\<lambda>ids. CHR ''n'' # concat ids),
     re_now = (\<lambda>n. []), re_store_fails = (\<lambda>_. False),
     re_turn = (\<lambda>n. demo_turn [(False, False, demo_chunk ''All is '' []), (False, False, demo_chunk ''well'' [])])\<rparr>"

lemma demo_run_fresh: "fresh_ids demo_run"
proof -
  have len: "length x \<le> length (concat ids)" if "x \<in> set ids" for x :: string and ids
    using that by (induction ids) auto
  have "CHR ''n'' # concat ids \<notin> set ids" for ids :: "string list"
    using len [of "CHR ''n'' # concat ids" ids] by auto
  then show ?thesis by (simp add: fresh_ids_def demo_run_def)
qed

definition demo_request :: run_request where
  "demo_request = \<lparr>rr_user_message = ''hello'', rr_attachments = [], rr_providers = []\<rparr>"

definition returned :: "('w run_state, 'a) flow \<Rightarrow> 'w run_state option" where
  "returned f = (case f of Return s \<Rightarrow> Some s | _ \<Rightarrow> None)"

lemma returned_Some: "returned f = Some s \<longleftrightarrow> f = Return s"
  by (cases f) (auto simp: returned_def)

definition demo_result :: "nat run_state option" where
  "demo_result = returned (run_agent_stream demo_run demo_request (new_tree demo_header) 5)"

lemma demo_result_facts:
  "map_option (\<lambda>s. (rs_events s, length (order (rs_tree s)), length (rs_sent s))) demo_result
     = Some ([TextChunk ''All is '', TextChunk ''well'', DoneEvent ''All is well'' zero_usage], 2, 1)"
  by code_simp

lemma demo_returns:
  obtains s where "run_agent_stream demo_run demo_request (new_tree demo_header) 5 = Return s"
    "rs_events s = [TextChunk ''All is '', TextChunk ''well'', DoneEvent ''All is well'' zero_usage]"
    "length (order (rs_tree s)) = 2" "length (rs_sent s) = 1"
  using demo_result_facts unfolding demo_result_def by (auto simp: returned_Some)

theorem run_ends_with_one_terminal_event_witness:
  "\<exists>s evs. run_agent_stream demo_run demo_request (new_tree demo_header) 5 = Return s
     \<and> rs_events s = evs @ [DoneEvent ''All is well'' zero_usage] \<and> (\<forall>e \<in> set evs. \<not> terminal e)"
proof -
  obtain s where s: "run_agent_stream demo_run demo_request (new_tree demo_header) 5 = Return s"
    "rs_events s = [TextChunk ''All is '', TextChunk ''well'', DoneEvent ''All is well'' zero_usage]"
    by (rule demo_returns)
  with run_ends_with_one_terminal_event [OF s(1)] show ?thesis by auto
qed

text \<open>
  Property C2.  A run keeps the session tree well-formed, whatever happens in it and also when an
  exception leaves it: the entries there were stay, in their order, and the new ones come after them.
\<close>

theorem run_keeps_tree_well_formed:
  assumes "fresh_ids env" and "tree_ok t"
  shows "flow_ok (\<lambda>s. tree_ok (rs_tree s) \<and> prefix (order t) (order (rs_tree s)))
           (\<lambda>s. tree_ok (rs_tree s) \<and> prefix (order t) (order (rs_tree s)))
           (run_agent_stream env rq t w)"
proof (rule flow_ok_mono)
  have "tree_inv env t (start_state t w)"
    by (simp add: tree_inv_def start_state_def)
  then show "flow_ok (tree_inv env t) (tree_inv env t) (run_agent_stream env rq t w)"
    by (rule run_tree.stream_ok)
qed (use assms in \<open>auto simp: tree_inv_def\<close>)

theorem run_keeps_tree_well_formed_witness:
  "\<exists>s. run_agent_stream demo_run demo_request (new_tree demo_header) 5 = Return s
     \<and> tree_ok (rs_tree s) \<and> length (order (rs_tree s)) = 2"
proof -
  obtain s where s: "run_agent_stream demo_run demo_request (new_tree demo_header) 5 = Return s"
    "length (order (rs_tree s)) = 2" by (rule demo_returns)
  with run_keeps_tree_well_formed [OF demo_run_fresh new_tree_ok, of demo_header demo_request 5]
  show ?thesis by simp
qed

lemma run_rebuilds_tree:
  assumes "\<forall>e. \<not> re_store_fails env e"
  shows "flow_ok (\<lambda>s. rs_tree s = fold put_entry (rs_store s) t)
           (\<lambda>s. rs_tree s = fold put_entry (rs_store s) t) (run_agent_stream env rq t w)"
proof (rule flow_ok_mono)
  have "store_inv env t (start_state t w)"
    by (simp add: store_inv_def start_state_def)
  then show "flow_ok (store_inv env t) (store_inv env t) (run_agent_stream env rq t w)"
    by (rule run_store.stream_ok)
qed (use assms in \<open>auto simp: store_inv_def\<close>)

text \<open>
  Property C3.  As long as the store does not fail, what a run hands to it, put into the old tree
  in the same order, gives the tree of the run: the store and the memory do not diverge, also
  over failed compactions, partial answers and exceptions.
\<close>

theorem store_rebuilds_tree:
  assumes "\<forall>e. \<not> re_store_fails env e"
  shows "flow_ok (\<lambda>s. rs_tree s = fold put_entry (rs_store s) t)
           (\<lambda>s. rs_tree s = fold put_entry (rs_store s) t) (run_agent_stream env rq t w)"
  by (rule run_rebuilds_tree [OF assms])

theorem store_rebuilds_tree_witness:
  "\<exists>s. run_agent_stream demo_run demo_request (new_tree demo_header) 5 = Return s
     \<and> rs_tree s = fold put_entry (rs_store s) (new_tree demo_header)"
proof -
  obtain s where s: "run_agent_stream demo_run demo_request (new_tree demo_header) 5 = Return s"
    by (rule demo_returns)
  have "\<forall>e. \<not> re_store_fails demo_run e" by (simp add: demo_run_def)
  from store_rebuilds_tree [OF this, of "new_tree demo_header" demo_request 5] s show ?thesis by simp
qed

end
