(* ===== verification/RunnerProps.thy ===== *)
theory RunnerProps
  imports Runner
begin

section \<open>What a run does: requests, tool calls, unknown tools, compaction\<close>

text \<open>
  Properties of the stretches of \<^verbatim>\<open>run_agent_stream\<close> modelled in \<^verbatim>\<open>Runner\<close>: the number of
  requests, the answers to the tool calls of a round, the state machine of unknown tools, and
  what a compaction leaves of the conversation.
\<close>

subsection \<open>The number of requests\<close>

text \<open>A bind whose second part has its own postcondition.\<close>

lemma flow_ok_bind2:
  "flow_ok I F f \<Longrightarrow> (\<And>s a. I s \<Longrightarrow> flow_ok J G (g s a)) \<Longrightarrow> (\<And>s. I s \<Longrightarrow> J s) \<Longrightarrow> (\<And>s. F s \<Longrightarrow> G s)
     \<Longrightarrow> flow_ok J G (flow_bind f g)"
  by (cases f) auto

definition sent_at_most :: "nat \<Rightarrow> 'w run_state \<Rightarrow> bool" where
  "sent_at_most n st = (length (rs_sent st) \<le> n)"

lemma sent_at_most_mono: "sent_at_most n st \<Longrightarrow> n \<le> m \<Longrightarrow> sent_at_most m st"
  by (simp add: sent_at_most_def)

lemma ask_model_count:
  "sent_count n st \<Longrightarrow> flow_ok (sent_count (Suc n)) (sent_count (Suc n)) (ask_model env tu msgs st)"
  unfolding ask_model_def Let_def
  by (intro flow_ok_bind run_count.stream_loop_ok run_count.stream_finish_ok) (simp_all add: sent_count_def)

lemma one_turn_count:
  assumes "sent_count n st"
  shows "flow_ok (sent_at_most (Suc n)) (sent_at_most (Suc n)) (one_turn env st)"
proof -
  have weak: "flow_ok (sent_at_most (Suc n)) (sent_at_most (Suc n)) f"
    if "flow_ok (sent_count (Suc n)) (sent_count (Suc n)) f" for f :: "('a run_state, 'b) flow"
    using that by (rule flow_ok_mono) (simp_all add: sent_count_def sent_at_most_def)
  have rest: "flow_ok (sent_at_most (Suc n)) (sent_at_most (Suc n))
      (flow_bind (ask_model env tu msgs s) (\<lambda>st3 resp. answer_turn env tu resp st3))"
    if "sent_count n s" for tu msgs s
    by (intro weak flow_ok_bind ask_model_count run_count.answer_turn_ok that)
  show ?thesis
    unfolding one_turn_def
    by (intro flow_ok_bind2 [OF run_count.turn_guard_ok [OF assms]]
        flow_ok_bind2 [OF run_count.prepare_ok] rest)
      (auto simp: sent_count_def sent_at_most_def)
qed

lemma run_loop_count:
  "flow_ok (sent_at_most (length (rs_sent st) + k)) (sent_at_most (length (rs_sent st) + k)) (run_loop env k st)"
proof (induction k arbitrary: st)
  case 0
  then show ?case by (simp add: fail_with_def sent_at_most_def emit_def)
next
  case (Suc k)
  have "sent_count (length (rs_sent st)) st" by (simp add: sent_count_def)
  note T = one_turn_count [OF this, of env]
  have step: "flow_ok (sent_at_most (length (rs_sent st) + Suc k)) (sent_at_most (length (rs_sent st) + Suc k))
      (run_loop env k s)" if "sent_at_most (Suc (length (rs_sent st))) s" for s
    by (rule flow_ok_mono [OF Suc.IH [of s]]) (use that in \<open>auto simp: sent_at_most_def\<close>)
  show ?case
    using T by (cases "one_turn env st") (auto intro: step [simplified] sent_at_most_mono)
qed

text \<open>
  A run asks the model at most \<^verbatim>\<open>max_iterations\<close> times, retries, compactions and tool
  rounds included.
\<close>

theorem requests_are_bounded:
  "flow_ok (sent_at_most (re_max_iterations env)) (sent_at_most (re_max_iterations env))
     (run_agent_stream env rq t w)"
proof -
  let ?P = "sent_at_most (re_max_iterations env) :: 'a run_state \<Rightarrow> bool"
  have "flow_ok ?P ?P (run_loop env (re_max_iterations env) s)" if "sent_count 0 s" for s
    using run_loop_count [of s "re_max_iterations env" env] that by (simp add: sent_count_def)
  moreover have "sent_count 0 (start_state t w)" by (simp add: sent_count_def start_state_def)
  ultimately have "flow_ok ?P ?P (run_body env rq (start_state t w))"
    unfolding run_body_def
    by (auto intro!: flow_ok_bind2 [OF run_count.append_inv] split: sum.split bool.split)
      (auto simp: sent_count_def sent_at_most_def emit_def)
  then show ?thesis
    by (cases "run_body env rq (start_state t w)")
      (auto simp: run_agent_stream_def run_end_def notify_def sent_at_most_def)
qed

subsection \<open>The answers to the tool calls of a round\<close>

lemma append_body_Go:
  "append_body env b st = Go st' u \<Longrightarrow>
     (\<exists>e. body e = b \<and> rs_store st' = rs_store st @ [e]) \<and> rs_events st' = rs_events st"
  by (auto simp: append_body_def Let_def new_entry_def split: if_splits)

lemma append_results_Go:
  "append_results env rs st = Go st' u \<Longrightarrow>
     \<exists>es. rs_store st' = rs_store st @ es \<and> map body es = map (\<lambda>(cid, r). tool_body cid r) rs
       \<and> rs_events st' = rs_events st @ map (\<lambda>(cid, r). ToolCallEnd cid r) rs"
proof (induction rs arbitrary: st)
  case Nil
  then show ?case by simp
next
  case (Cons x rs)
  obtain cid r where x: "x = (cid, r)" by (cases x)
  from Cons.prems obtain st1 where a: "append_body env (tool_body cid r) st = Go st1 ()"
    and b: "append_results env rs (emit (ToolCallEnd cid r) st1) = Go st' u"
    by (cases "append_body env (tool_body cid r) st") (auto simp: x)
  from append_body_Go [OF a] obtain e where e: "body e = tool_body cid r" "rs_store st1 = rs_store st @ [e]"
    "rs_events st1 = rs_events st" by blast
  from Cons.IH [OF b] obtain es where "rs_store st' = rs_store st1 @ es"
    "map body es = map (\<lambda>(cid, r). tool_body cid r) rs"
    "rs_events st' = rs_events st1 @ [ToolCallEnd cid r] @ map (\<lambda>(cid, r). ToolCallEnd cid r) rs"
    by (auto simp: emit_def)
  with e show ?case by (intro exI [of _ "e # es"]) (simp add: x)
qed

lemma append_results_ends:
  "(\<exists>s. append_results env rs st = Go s ()) \<or> (\<exists>s. append_results env rs st = Crash s)"
proof (induction rs arbitrary: st)
  case (Cons x rs)
  obtain cid r where x: "x = (cid, r)" by (cases x)
  show ?case
    by (cases "append_body env (tool_body cid r) st")
      (auto simp: x Cons append_body_def Let_def split: if_splits)
qed simp

lemma mset_filter_split: "mset (filter P xs) + mset (filter (\<lambda>x. \<not> P x) xs) = mset xs"
  by (induction xs) auto

text \<open>The ids of the calls that a list of entries answers, and of the results among events.\<close>

definition answered :: "session_entry list \<Rightarrow> string option list" where
  "answered es = map (\<lambda>e. me_tool_call_id (body e)) es"

lemma answered_bodies:
  "map body es = map (\<lambda>(cid, r). tool_body cid r) rs \<Longrightarrow> answered es = map (\<lambda>(cid, r). Some cid) rs"
proof -
  assume "map body es = map (\<lambda>(cid, r). tool_body cid r) rs"
  then have "map me_tool_call_id (map body es) = map me_tool_call_id (map (\<lambda>(cid, r). tool_body cid r) rs)"
    by (rule arg_cong)
  then show ?thesis
    by (simp add: answered_def comp_def tool_body_def message_body_def split_def)
qed

lemma run_tools_ids:
  assumes "run_tools env tu calls st = (rs, st')"
  shows "map fst rs = map call_id_of calls \<and> rs_store st' = rs_store st"
proof -
  let ?ex = "execute_tool_calls (re_tools env) (tu_sched tu) (re_registry env) (re_tool_seconds env)
      calls (rs_world st)"
  have "length (fst ?ex) = length calls"
    by (rule execute_tool_calls_length)
  then have "map (call_id_of \<circ> fst) (zip calls (fst ?ex)) = map call_id_of calls"
    by (simp add: map_fst_zip flip: map_map)
  moreover have "run_tools env tu calls st =
      (map (\<lambda>cr. (call_id_of (fst cr), truncate_tool_result (the (snd cr)) (result_cap env (fst cr))))
         (zip calls (fst ?ex)), st\<lparr>rs_world := snd ?ex\<rparr>)"
    by (simp add: run_tools_def split_def Let_def)
  moreover from this assms have "rs = map (\<lambda>cr. (call_id_of (fst cr),
        truncate_tool_result (the (snd cr)) (result_cap env (fst cr)))) (zip calls (fst ?ex))"
    "st' = st\<lparr>rs_world := snd ?ex\<rparr>" by simp_all
  ultimately show ?thesis by (simp add: comp_def)
qed

lemma emit_all_store [simp]: "rs_store (emit_all evs st) = rs_store st"
  by (induction evs arbitrary: st) (auto simp: emit_def)

lemma gated_round_answers:
  assumes "gated_round env tu calls st = NextTurn st'"
  shows "\<exists>es. rs_store st' = rs_store st @ es
    \<and> (\<forall>e \<in> set es. me_role (body e) = RTool)
    \<and> mset (answered es) = mset (map (\<lambda>c. Some (call_id_of c)) calls)"
proof -
  from assms obtain g where g: "gate_of env calls = Some g"
    by (cases "gate_of env calls") (auto simp: gated_round_def Let_def)
  let ?st2 = "(emit_all (map request_event (go_requests g)) st)
      \<lparr>rs_audit := rs_audit st @ go_audit g\<rparr>"
  let ?den = "map (\<lambda>r. (tr_call_id r, r)) (denied_results g calls)"
  let ?left = "remaining_calls g calls"
  from append_results_ends [of env ?den ?st2] assms g obtain st3 where
    a: "append_results env ?den ?st2 = Go st3 ()"
    by (auto simp: gated_round_def Let_def)
  from append_results_Go [OF a] obtain es1 where es1: "rs_store st3 = rs_store st @ es1"
    "map body es1 = map (\<lambda>(cid, r). tool_body cid r) ?den" by auto
  have d: "map (\<lambda>(cid, r). Some cid) ?den = map (\<lambda>c. Some (call_id_of c)) (filter (denied_id g) calls)"
    by (simp add: denied_results_def error_result_def comp_def)
  have parts: "mset (filter (denied_id g) calls) + mset ?left = mset calls"
    unfolding remaining_calls_def by (rule mset_filter_split)
  have role: "me_role b = RTool" if "b \<in> set (map (\<lambda>(cid, r). tool_body cid r) rs)" for b rs
    using that by (auto simp: tool_body_def message_body_def)
  show ?thesis
  proof (cases "go_denied g \<noteq> [] \<and> ?left = []")
    case True
    with a g assms have "st' = st3" by (simp add: gated_round_def Let_def)
    moreover have "mset (answered es1) = mset (map (\<lambda>c. Some (call_id_of c)) calls)"
      using parts True by (simp add: answered_bodies [OF es1(2)] d del: map_map)
    moreover have "\<forall>e \<in> set es1. me_role (body e) = RTool"
      using role es1(2) by (metis imageI list.set_map)
    ultimately show ?thesis using es1(1) by blast
  next
    case False
    obtain rs st4 where rt: "run_tools env tu ?left st3 = (rs, st4)" by fastforce
    note ids = run_tools_ids [OF rt]
    from append_results_ends [of env rs st4] assms g a False rt obtain st5 where
      b: "append_results env rs st4 = Go st5 ()" and st': "rs_store st' = rs_store st5"
      by (auto simp: gated_round_def Let_def)
    from append_results_Go [OF b] obtain es2 where es2: "rs_store st5 = rs_store st4 @ es2"
      "map body es2 = map (\<lambda>(cid, r). tool_body cid r) rs" by auto
    have "map (\<lambda>(cid, r). Some cid) rs = map Some (map fst rs)"
      by (simp add: split_def)
    then have "answered es2 = map (\<lambda>c. Some (call_id_of c)) ?left"
      using answered_bodies [OF es2(2)] ids by (simp add: comp_def)
    moreover have "answered (es1 @ es2) = answered es1 @ answered es2" by (simp add: answered_def)
    ultimately have "mset (answered (es1 @ es2))
        = image_mset (\<lambda>c. Some (call_id_of c)) (mset (filter (denied_id g) calls) + mset ?left)"
      by (simp add: answered_bodies [OF es1(2)] d del: map_map)
    moreover have "\<forall>e \<in> set (es1 @ es2). me_role (body e) = RTool"
      using role es1(2) es2(2) by (metis Un_iff imageI list.set_map set_append)
    moreover have "rs_store st' = rs_store st @ es1 @ es2"
      using st' es2(1) es1(1) ids by simp
    ultimately show ?thesis unfolding parts by (intro exI [of _ "es1 @ es2"]) simp
  qed
qed

lemma start_calls_Go: "start_calls env calls st = Go st1 u \<Longrightarrow> rs_store st1 = rs_store st"
  by (induction calls arbitrary: st) (auto simp: emit_def split: json.splits)

lemma start_calls_not: "start_calls env calls st \<noteq> NextTurn s"
  by (induction calls arbitrary: st) (auto split: json.splits)

text \<open>
  Property C5.  A round of tool calls that ends normally has stored exactly one answer for each call of
  the model, denied calls included, and nothing else: the entries it appends are tool messages
  whose call ids are, counted with their multiplicity, those of the calls.
\<close>

theorem every_call_gets_one_answer:
  assumes "tool_round env tu calls st = NextTurn st'"
  shows "\<exists>es. rs_store st' = rs_store st @ es
    \<and> (\<forall>e \<in> set es. me_role (body e) = RTool)
    \<and> mset (answered es) = mset (map (\<lambda>c. Some (call_id_of c)) calls)"
proof -
  from assms obtain st1 where "start_calls env calls st = Go st1 ()" "gated_round env tu calls st1 = NextTurn st'"
    by (cases "start_calls env calls st") (auto simp: tool_round_def start_calls_not)
  with gated_round_answers start_calls_Go show ?thesis by metis
qed

theorem every_call_gets_one_answer_witness:
  "\<exists>st'. tool_round demo_run (demo_turn []) [demo_call ''c1'' ''look'']
       (start_state (new_tree demo_header) 5) = NextTurn st'
     \<and> mset (answered (rs_store st')) = {#Some ''c1''#}"
proof -
  let ?calls = "[demo_call ''c1'' ''look'']"
  let ?st = "start_state (new_tree demo_header) (5 :: nat)"
  have "case tool_round demo_run (demo_turn []) ?calls ?st of NextTurn s \<Rightarrow> True | _ \<Rightarrow> False"
    by code_simp
  then obtain st' where st': "tool_round demo_run (demo_turn []) ?calls ?st = NextTurn st'"
    by (cases "tool_round demo_run (demo_turn []) ?calls ?st") auto
  have "rs_store ?st = []" by (simp add: start_state_def)
  with every_call_gets_one_answer [OF st'] st' show ?thesis
    by (auto simp: demo_call_def call_id_of_def jget_or_def)
qed

subsection \<open>Unknown tools\<close>

text \<open>
  The state after \<open>k\<close> turns that all make the same calls, and what the last of them asks for.
\<close>

fun loop_state ::
    "jobj list \<Rightarrow> registry \<Rightarrow> int \<Rightarrow> nat \<Rightarrow> string option \<times> int \<times> bool \<times> loop_action" where
  "loop_state calls reg th 0 = (None, 0, False, Proceed)"
| "loop_state calls reg th (Suc k) =
     (case loop_state calls reg th k of (un, c, warned, act) \<Rightarrow>
        update_tool_loop_state calls reg un c warned th)"

lemma update_unknown_call:
  assumes "call_name call \<noteq> []" and "\<not> registry_contains reg (call_name call)" and "0 < th"
    and "un = None \<or> un = Some (call_name call)"
  shows "update_tool_loop_state [call] reg un c w th =
    (if w then (Some (call_name call), c + 1, True, Terminate)
     else if c + 1 \<ge> th
     then (Some (call_name call), c + 1, True, Warn (unknown_tool_guidance reg (call_name call)))
     else (Some (call_name call), c + 1, False, Proceed))"
  using assms by (auto simp: update_tool_loop_state_def Let_def)

lemma loop_state_below:
  assumes "call_name call \<noteq> []" and "\<not> registry_contains reg (call_name call)" and "int k < th"
  shows "loop_state [call] reg th k = (if k = 0 then None else Some (call_name call), int k, False, Proceed)"
  using assms(3)
proof (induction k)
  case (Suc k)
  then show ?case
    using update_unknown_call [OF assms(1,2), of th "if k = 0 then None else Some (call_name call)"] by simp
qed simp

text \<open>
  The names that count as known are the names of the registry, not the names the model is
  shown.  So a tool of a server, which the model can only call by the rewritten name, and which the registry
  finds and would run under it, counts as unknown: when it is all that is called, it is executed
  for the first turns, then the model is told that it does not exist, and the next call ends
  the run.
\<close>

theorem imported_tool_is_taken_for_unknown:
  assumes "find_tool reg (call_name call) = Some t" and "\<not> registry_contains reg (call_name call)"
    and "0 < th"
  shows "(\<forall>k. int k < th \<longrightarrow> snd (snd (snd (loop_state [call] reg th k))) = Proceed)
    \<and> (\<exists>g. snd (snd (snd (loop_state [call] reg th (nat th)))) = Warn g)
    \<and> snd (snd (snd (loop_state [call] reg th (Suc (nat th))))) = Terminate"
proof -
  have ne: "call_name call \<noteq> []" using assms(1) by (auto simp: find_tool_def)
  define m where "m = nat (th - 1)"
  then have m: "nat th = Suc m" "int m < th" "th = int m + 1" using assms(3) by linarith+
  note below = loop_state_below [OF ne assms(2)]
  have g: "loop_state [call] reg th (nat th)
      = (Some (call_name call), th, True, Warn (unknown_tool_guidance reg (call_name call)))"
    using below [OF m(2)] m
      update_unknown_call [OF ne assms(2,3), of "if m = 0 then None else Some (call_name call)"] by simp
  then have "snd (snd (snd (loop_state [call] reg th (Suc (nat th))))) = Terminate"
    using update_unknown_call [OF ne assms(2,3), of "Some (call_name call)"] by simp
  with g below show ?thesis by auto
qed

theorem imported_tool_is_taken_for_unknown_witness:
  "let reg = [(''git:log'', demo_tool ''git:log'' True False)]; call = demo_call ''c1'' ''git__log''
   in find_tool reg ''git__log'' = Some (demo_tool ''git:log'' True False)
      \<and> llm_name (demo_tool ''git:log'' True False) = ''git__log''
      \<and> snd (snd (snd (loop_state [call] reg 3 4))) = Terminate"
proof -
  let ?reg = "[(''git:log'', demo_tool ''git:log'' True False)]"
  let ?call = "demo_call ''c1'' ''git__log''"
  have n: "call_name ?call = ''git__log''" "llm_name (demo_tool ''git:log'' True False) = ''git__log''"
    by code_simp+
  have f: "find_tool ?reg ''git__log'' = Some (demo_tool ''git:log'' True False)" by code_simp
  have "\<not> registry_contains ?reg ''git__log''" by code_simp
  with imported_tool_is_taken_for_unknown [of ?reg ?call "demo_tool ''git:log'' True False" 3] n f
  show ?thesis by (simp add: Let_def numeral_eq_Suc)
qed

subsection \<open>What a compaction leaves\<close>

lemma index_of_id_at:
  "i \<notin> entry_id ` set xs \<Longrightarrow> entry_id x = i \<Longrightarrow> index_of_id i (xs @ x # ys) = Some (length xs)"
  by (induction xs) auto

lemma context_after_compaction:
  assumes "distinct (map entry_id (bs @ [e, ce]))" and "is_message e" and "is_compaction ce"
    and "ce_first_kept (body ce) = entry_id e"
  shows "context_of_branch (bs @ [e, ce])
    = [summary_message (ce_summary (body ce)), message_entry_to_dict (body e)]"
proof -
  have last: "last_compaction ((bs @ [e]) @ [ce]) = Some (length (bs @ [e]))"
    using assms(3) by (simp add: last_compaction_snoc del: append_assoc)
  have "index_of_id (entry_id e) (bs @ e # [ce]) = Some (length bs)"
    using assms(1) by (intro index_of_id_at) auto
  with last assms show ?thesis
    by (simp add: context_of_branch_def Let_def nth_append is_message_def is_compaction_def
        split: entry_body.splits)
qed

lemma branch_ends_at_leaf:
  assumes "tree_ok t" and "leaf_id t = Some l"
  shows "\<exists>bs e. get_branch t None = Some (bs @ [e]) \<and> entry_id e = l \<and> distinct (map entry_id (bs @ [e]))
    \<and> get_entry t l = Some e"
proof -
  from get_branch_chain [OF assms(1)] obtain p where p: "get_branch t None = Some (rev p)"
    "chain_up (entries t) (leaf_id t) p" "distinct (map entry_id p)" by blast
  from assms have "map_of (entries t) l \<noteq> None" by (auto simp: tree_ok_def map_of_eq_None_iff)
  with p(2) assms(2) obtain e q where pq: "p = e # q" "map_of (entries t) l = Some e"
    by (cases p) auto
  moreover have "entry_id e = l"
    using assms(1) pq(2) by (auto simp: tree_ok_def dest: links_ok_id)
  moreover have "distinct (map entry_id (rev p))" using p(3) by (simp add: distinct_rev flip: rev_map)
  ultimately show ?thesis using p(1) by (auto simp: get_entry_def)
qed

text \<open>
  The entry of a compaction names the leaf as the first entry to keep, whatever cut the
  engine chose: after it the model is shown the summary and the single last message.  What the
  plan meant to keep between its cut and the leaf is neither in the summary nor in the conversation.
\<close>

theorem compaction_keeps_only_the_leaf:
  assumes "fresh_ids env" and "tree_ok (rs_tree st)" and "leaf_id (rs_tree st) = Some l"
    and "get_entry (rs_tree st) l = Some e" and "is_message e" and "l \<noteq> []"
    and "try_compaction env (CompactAnswer r) base st = Go st' oc" and "oc_compacted oc"
  shows "build_session_context (rs_tree st')
    = Some [summary_message (the (cr_summary r)), message_entry_to_dict (body e)]"
proof -
  let ?b = "CompactionEntry (the (cr_summary r)) l (cr_tokens_before r) None"
  let ?t = "rs_tree st"
  let ?ce = "new_entry env ?b ?t"
  have tr: "rs_tree (notify n s) = rs_tree s" for n and s :: "'a run_state" by (simp add: notify_def)
  have t': "rs_tree st' = put_entry ?ce ?t"
    using assms(3,6,7,8)
    by (auto simp: try_compaction_def Let_def tr append_body_def or_default_def split: if_splits)
  have fresh: "entry_id ?ce \<notin> fst ` set (entries ?t)"
    using new_id_fresh [OF assms(1)] by (simp add: new_entry_def)
  note ap = put_entry_append [OF fresh]
  have "parent_id ?ce = leaf_id ?t" by (simp add: new_entry_def)
  from tree_append_branch [OF assms(2) ap this] obtain b where
    b: "get_branch ?t None = Some b" "get_branch (put_entry ?ce ?t) None = Some (b @ [?ce])"
      "set (map entry_id b) \<subseteq> fst ` set (entries ?t)" by blast
  from branch_ends_at_leaf [OF assms(2,3)] assms(4) b(1) obtain bs where
    bs: "b = bs @ [e]" "entry_id e = l" "distinct (map entry_id b)" by auto
  have new: "entry_id ?ce \<notin> set (map entry_id b)"
    using b(3) fresh by blast
  have "context_of_branch (bs @ [e, ?ce])
      = [summary_message (ce_summary (body ?ce)), message_entry_to_dict (body e)]"
  proof (rule context_after_compaction)
    show "distinct (map entry_id (bs @ [e, ?ce]))"
      using bs(1,3) new by (simp add: eq_commute)
  qed (use assms(5) bs in \<open>simp_all add: new_entry_def is_compaction_def\<close>)
  with b(2) bs(1) t' show ?thesis
    by (simp add: build_session_context_def) (simp add: new_entry_def)
qed

definition demo_answer :: compact_result where
  "demo_answer = \<lparr>cr_ok = True, cr_compacted = True, cr_reason = None, cr_reason_code = Some ''compacted'',
     cr_summary = Some ''short'', cr_first_kept = None, cr_tokens_before = 9, cr_tokens_after = None\<rparr>"

theorem compaction_keeps_only_the_leaf_witness:
  "\<exists>st' oc. try_compaction demo_run (CompactAnswer demo_answer) [] (start_state demo_tree 5) = Go st' oc
     \<and> oc_compacted oc
     \<and> build_session_context (rs_tree st')
         = Some [summary_message ''short'', [(''role'', JStr ''assistant''), (''content'', JStr ''ho'')]]"
proof -
  let ?st = "start_state demo_tree (5 :: nat)"
  obtain st' oc where go: "try_compaction demo_run (CompactAnswer demo_answer) [] ?st = Go st' oc"
    "oc_compacted oc"
    by (simp add: try_compaction_def demo_answer_def append_body_def demo_run_def Let_def)
  obtain e where e: "get_entry demo_tree ''e2'' = Some e" "is_message e"
    "message_entry_to_dict (body e) = [(''role'', JStr ''assistant''), (''content'', JStr ''ho'')]"
    by (simp add: get_entry_def demo_tree_def demo_message_def is_message_def)
  have "rs_tree ?st = demo_tree" "leaf_id demo_tree = Some ''e2''"
    by (simp_all add: start_state_def demo_tree_def)
  with compaction_keeps_only_the_leaf [OF demo_run_fresh, of ?st "''e2''" e, OF _ _ _ e(2) _ go]
    demo_tree_ok e go show ?thesis by (auto simp: demo_answer_def)
qed

subsection \<open>Arguments that are not objects\<close>

text \<open>
  Arguments that are valid JSON but not an object are not answered with an error: the
  announcement of the call raises, the exception leaves the run, and none of the calls of the
  answer, which is stored already, ever gets a result.
\<close>

theorem non_object_arguments_end_the_run:
  assumes "c \<in> set calls" and "\<not> is_jobj (raw_args (te_loads (re_tools env)) c)"
  shows "\<exists>s. tool_round env tu calls st = Crash s \<and> rs_store s = rs_store st"
proof -
  have "\<exists>s. start_calls env calls st = Crash s \<and> rs_store s = rs_store st"
    using assms(1)
  proof (induction calls arbitrary: st)
    case (Cons a calls)
    show ?case
    proof (cases "is_jobj (raw_args (te_loads (re_tools env)) a)")
      case True
      then obtain d where d: "raw_args (te_loads (re_tools env)) a = JObj d"
        by (cases "raw_args (te_loads (re_tools env)) a") auto
      with Cons.prems assms(2) have "c \<in> set calls" by auto
      from Cons.IH [OF this, of "emit (ToolCallStart (call_id_of a) (call_name a) (JObj d)) st"] d
      show ?thesis by (simp add: emit_def)
    next
      case False
      then show ?thesis by (auto split: json.split)
    qed
  qed simp
  then show ?thesis by (auto simp: tool_round_def)
qed

theorem non_object_arguments_end_the_run_witness:
  "\<exists>s. tool_round demo_run (demo_turn [])
     [[(''id'', JStr ''c1''), (''function'', JObj [(''name'', JStr ''look''), (''arguments'', JList [JInt 1])])]]
     (start_state (new_tree demo_header) 5) = Crash s"
proof -
  let ?c = "[(''id'', JStr ''c1''), (''function'', JObj [(''name'', JStr ''look''), (''arguments'', JList [JInt 1])])]"
  have "\<not> is_jobj (raw_args (te_loads (re_tools demo_run)) ?c)" by code_simp
  with non_object_arguments_end_the_run [of ?c "[?c]" demo_run "demo_turn []"
      "start_state (new_tree demo_header) 5"] show ?thesis by auto
qed

end
