(* ===== verification/RedisApi.thy ===== *)
theory RedisApi
  imports PyPrelude "HOL-Library.Multiset"
begin

section \<open>The Redis server, as a parameter\<close>

text \<open>
  Sessions, locks and several caches live in a Redis server, which is not code of the
  repository.  It is a record of the commands the program sends, over an abstract state, and a
  predicate that states the documented behaviour of these commands: what is read back after a
  write, which keys a command leaves alone, when a key with a time to live is gone.  The
  definitions over it take the record as their argument.  A small server over functions
  satisfies the predicate; it only serves the concrete instances of the theorems.
\<close>

record 'r redis =
  rd_get :: "string \<Rightarrow> 'r \<Rightarrow> string option"
  rd_pttl :: "string \<Rightarrow> 'r \<Rightarrow> int option"
  rd_hgetall :: "string \<Rightarrow> 'r \<Rightarrow> (string \<times> string) list"
  rd_lrange :: "string \<Rightarrow> 'r \<Rightarrow> string list"
  rd_zrevrange :: "string \<Rightarrow> 'r \<Rightarrow> string list"
  rd_set :: "string \<Rightarrow> string \<Rightarrow> 'r \<Rightarrow> 'r"
  rd_set_nx_px :: "string \<Rightarrow> string \<Rightarrow> int \<Rightarrow> 'r \<Rightarrow> bool \<times> 'r"
  rd_hset :: "string \<Rightarrow> string \<Rightarrow> string \<Rightarrow> 'r \<Rightarrow> 'r"
  rd_rpush :: "string \<Rightarrow> string \<Rightarrow> 'r \<Rightarrow> 'r"
  rd_zadd :: "string \<Rightarrow> string \<Rightarrow> rat \<Rightarrow> 'r \<Rightarrow> 'r"
  rd_zrem :: "string \<Rightarrow> string \<Rightarrow> 'r \<Rightarrow> 'r"
  rd_del :: "string \<Rightarrow> 'r \<Rightarrow> 'r"
  rd_expire :: "string \<Rightarrow> int \<Rightarrow> 'r \<Rightarrow> 'r"
  rd_pexpire :: "string \<Rightarrow> int \<Rightarrow> 'r \<Rightarrow> 'r"
  rd_pass :: "int \<Rightarrow> 'r \<Rightarrow> 'r"

text \<open>
  \<^verbatim>\<open>SET k v EX n\<close> is \<^const>\<open>rd_set\<close> followed by \<^const>\<open>rd_expire\<close>; \<^const>\<open>rd_lrange\<close> is the whole list,
  \<^const>\<open>rd_zrevrange\<close> the members of a sorted set by decreasing score, \<^const>\<open>rd_pttl\<close> the
  remaining milliseconds of a key with a time to live, and \<^const>\<open>rd_pass\<close> lets that many
  milliseconds pass.
\<close>

subsection \<open>What the commands do to the keys they name\<close>

text \<open>
  A read of the key a command writes sees the write; a command changes no other key.  (A read of
  the wrong type is an error in Redis, and the fields of a hash come in no particular order:
  nothing is said of either.)
\<close>

definition same_key :: "'r redis \<Rightarrow> string \<Rightarrow> 'r \<Rightarrow> 'r \<Rightarrow> bool" where
  "same_key R k r r' \<longleftrightarrow>
     rd_get R k r' = rd_get R k r \<and> rd_hgetall R k r' = rd_hgetall R k r
   \<and> rd_lrange R k r' = rd_lrange R k r \<and> rd_zrevrange R k r' = rd_zrevrange R k r"

definition redis_data_ok :: "'r redis \<Rightarrow> bool" where
  "redis_data_ok R \<longleftrightarrow>
     (\<forall>k v r. rd_get R k (rd_set R k v r) = Some v
        \<and> (\<forall>k'. k' \<noteq> k \<longrightarrow> same_key R k' r (rd_set R k v r)))
   \<and> (\<forall>k f v r. map_of (rd_hgetall R k (rd_hset R k f v r)) = (map_of (rd_hgetall R k r))(f \<mapsto> v)
        \<and> (\<forall>k'. k' \<noteq> k \<longrightarrow> same_key R k' r (rd_hset R k f v r)))
   \<and> (\<forall>k v r. rd_lrange R k (rd_rpush R k v r) = rd_lrange R k r @ [v]
        \<and> (\<forall>k'. k' \<noteq> k \<longrightarrow> same_key R k' r (rd_rpush R k v r)))
   \<and> (\<forall>k n r k'. 0 < n \<longrightarrow> same_key R k' r (rd_expire R k n r))
   \<and> (\<forall>k r. rd_get R k (rd_del R k r) = None \<and> rd_hgetall R k (rd_del R k r) = []
        \<and> rd_lrange R k (rd_del R k r) = []
        \<and> (\<forall>k'. k' \<noteq> k \<longrightarrow> same_key R k' r (rd_del R k r)))
   \<and> (\<forall>k m sc r. set (rd_zrevrange R k (rd_zadd R k m sc r)) = insert m (set (rd_zrevrange R k r))
        \<and> (\<forall>k'. k' \<noteq> k \<longrightarrow> same_key R k' r (rd_zadd R k m sc r)))
   \<and> (\<forall>k m r. rd_zrevrange R k (rd_zrem R k m r) = filter (\<lambda>x. x \<noteq> m) (rd_zrevrange R k r)
        \<and> (\<forall>k'. k' \<noteq> k \<longrightarrow> same_key R k' r (rd_zrem R k m r)))
   \<and> (\<forall>k r. distinct (rd_zrevrange R k r) \<and> distinct (map fst (rd_hgetall R k r)))"

subsection \<open>What the commands on one expiring key do, and what time does\<close>

definition redis_expiry_ok :: "'r redis \<Rightarrow> bool" where
  "redis_expiry_ok R \<longleftrightarrow>
     (\<forall>k v n r k'. 0 < n \<longrightarrow>
        fst (rd_set_nx_px R k v n r) = (rd_get R k r = None)
        \<and> (rd_get R k r \<noteq> None \<longrightarrow> snd (rd_set_nx_px R k v n r) = r)
        \<and> (rd_get R k r = None \<longrightarrow>
             rd_get R k' (snd (rd_set_nx_px R k v n r)) = (if k' = k then Some v else rd_get R k' r)
             \<and> rd_pttl R k' (snd (rd_set_nx_px R k v n r))
                 = (if k' = k then Some n else rd_pttl R k' r)))
   \<and> (\<forall>k n r k'. 0 < n \<longrightarrow>
        rd_get R k' (rd_pexpire R k n r) = rd_get R k' r
        \<and> rd_pttl R k' (rd_pexpire R k n r)
            = (if k' = k \<and> rd_get R k r \<noteq> None then Some n else rd_pttl R k' r))
   \<and> (\<forall>k r k'. rd_get R k' (rd_del R k r) = (if k' = k then None else rd_get R k' r)
        \<and> (k' \<noteq> k \<longrightarrow> rd_pttl R k' (rd_del R k r) = rd_pttl R k' r))
   \<and> (\<forall>d r k. 0 \<le> d \<longrightarrow>
        rd_get R k (rd_pass R d r)
          = (case rd_pttl R k r of
               None \<Rightarrow> rd_get R k r
             | Some n \<Rightarrow> if d < n then rd_get R k r else None)
        \<and> (case rd_pttl R k r of
             None \<Rightarrow> True
           | Some n \<Rightarrow> d < n \<longrightarrow> rd_pttl R k (rd_pass R d r) = Some (n - d)))"

text \<open>The commands on an expiring key leave the other keys alone as well.\<close>

definition redis_locks_apart :: "'r redis \<Rightarrow> bool" where
  "redis_locks_apart R \<longleftrightarrow>
     (\<forall>k v n r k'. 0 < n \<longrightarrow> k' \<noteq> k \<longrightarrow> same_key R k' r (snd (rd_set_nx_px R k v n r)))"

subsection \<open>A small server\<close>

record demo_redis =
  dm_str :: "string \<Rightarrow> string option"
  dm_ttl :: "string \<Rightarrow> int option"
  dm_hash :: "string \<Rightarrow> (string \<times> string) list"
  dm_list :: "string \<Rightarrow> string list"
  dm_zset :: "string \<Rightarrow> (string \<times> rat) list"

definition by_score :: "(string \<times> rat) list \<Rightarrow> string list" where
  "by_score al = map fst (sort_key (\<lambda>p. - snd p)
     (map (\<lambda>m. (m, the (map_of al m))) (remdups (map fst al))))"

definition demo_empty :: demo_redis where
  "demo_empty = \<lparr>dm_str = (\<lambda>_. None), dm_ttl = (\<lambda>_. None), dm_hash = (\<lambda>_. []),
                 dm_list = (\<lambda>_. []), dm_zset = (\<lambda>_. [])\<rparr>"

definition demo_server :: "demo_redis redis" where
  "demo_server =
     \<lparr>rd_get = (\<lambda>k r. dm_str r k),
      rd_pttl = (\<lambda>k r. dm_ttl r k),
      rd_hgetall = (\<lambda>k r. AList.clearjunk (dm_hash r k)),
      rd_lrange = (\<lambda>k r. dm_list r k),
      rd_zrevrange = (\<lambda>k r. by_score (dm_zset r k)),
      rd_set = (\<lambda>k v r. r\<lparr>dm_str := (dm_str r)(k := Some v), dm_ttl := (dm_ttl r)(k := None)\<rparr>),
      rd_set_nx_px = (\<lambda>k v n r.
         if dm_str r k = None
         then (True, r\<lparr>dm_str := (dm_str r)(k := Some v), dm_ttl := (dm_ttl r)(k := Some n)\<rparr>)
         else (False, r)),
      rd_hset = (\<lambda>k f v r. r\<lparr>dm_hash := (dm_hash r)(k := AList.update f v (dm_hash r k))\<rparr>),
      rd_rpush = (\<lambda>k v r. r\<lparr>dm_list := (dm_list r)(k := dm_list r k @ [v])\<rparr>),
      rd_zadd = (\<lambda>k m sc r. r\<lparr>dm_zset := (dm_zset r)(k := AList.update m sc (dm_zset r k))\<rparr>),
      rd_zrem = (\<lambda>k m r. r\<lparr>dm_zset := (dm_zset r)(k := AList.delete m (dm_zset r k))\<rparr>),
      rd_del = (\<lambda>k r. r\<lparr>dm_str := (dm_str r)(k := None), dm_ttl := (dm_ttl r)(k := None),
                         dm_hash := (dm_hash r)(k := []), dm_list := (dm_list r)(k := []),
                         dm_zset := (dm_zset r)(k := [])\<rparr>),
      rd_expire = (\<lambda>k n r. if dm_str r k = None then r
                            else r\<lparr>dm_ttl := (dm_ttl r)(k := Some (1000 * n))\<rparr>),
      rd_pexpire = (\<lambda>k n r. if dm_str r k = None then r
                             else r\<lparr>dm_ttl := (dm_ttl r)(k := Some n)\<rparr>),
      rd_pass = (\<lambda>d r.
         r\<lparr>dm_str := (\<lambda>k. case dm_ttl r k of None \<Rightarrow> dm_str r k
                          | Some n \<Rightarrow> if d < n then dm_str r k else None),
           dm_ttl := (\<lambda>k. case dm_ttl r k of None \<Rightarrow> None
                          | Some n \<Rightarrow> if d < n then Some (n - d) else None)\<rparr>)\<rparr>"


lemma demo_server_sel [simp]:
  "rd_get demo_server k r = dm_str r k"
  "rd_pttl demo_server k r = dm_ttl r k"
  "rd_hgetall demo_server k r = AList.clearjunk (dm_hash r k)"
  "rd_lrange demo_server k r = dm_list r k"
  by (simp_all add: demo_server_def)

lemma remdups_filter_neq: "remdups (filter (\<lambda>x. x \<noteq> m) xs) = filter (\<lambda>x. x \<noteq> m) (remdups xs)"
  by (induction xs) auto

lemma map_fst_delete: "map fst (AList.delete m al) = filter (\<lambda>x. x \<noteq> m) (map fst al)"
  by (induction al) auto

lemma by_score_delete: "by_score (AList.delete m al) = filter (\<lambda>x. x \<noteq> m) (by_score al)"
proof -
  let ?pair = "\<lambda>d x. (x, the (map_of d x))"
  have "map (?pair (AList.delete m al)) (remdups (map fst (AList.delete m al)))
      = map (?pair al) (filter (\<lambda>x. x \<noteq> m) (remdups (map fst al)))"
    unfolding map_fst_delete remdups_filter_neq by (rule map_cong) auto
  also have "\<dots> = filter (\<lambda>p. fst p \<noteq> m) (map (?pair al) (remdups (map fst al)))"
    by (simp add: filter_map o_def)
  finally have "by_score (AList.delete m al)
      = map fst (filter (\<lambda>p. fst p \<noteq> m)
          (sort_key (\<lambda>p. - snd p) (map (?pair al) (remdups (map fst al)))))"
    by (simp add: by_score_def filter_sort)
  then show ?thesis
    by (simp add: by_score_def filter_map o_def)
qed

lemma demo_zrem:
  "rd_zrevrange demo_server k (rd_zrem demo_server k m r)
     = filter (\<lambda>x. x \<noteq> m) (rd_zrevrange demo_server k r)"
  by (simp add: demo_server_def by_score_delete)

lemma set_by_score [simp]: "set (by_score al) = fst ` set al"
  by (simp add: by_score_def image_image)

lemma distinct_by_score: "distinct (by_score al)"
proof -
  have "mset (by_score al) = mset (remdups (map fst al))"
    by (simp add: by_score_def image_mset.compositionality o_def)
  then show ?thesis by (metis distinct_remdups mset_eq_imp_distinct_iff)
qed

lemma demo_data_ok: "redis_data_ok demo_server"
proof -
  have z: "set (rd_zrevrange demo_server k (rd_zadd demo_server k m sc r))
      = insert m (set (rd_zrevrange demo_server k r))" for k m sc r
    by (simp add: demo_server_def)
  have d: "distinct (rd_zrevrange demo_server k r)" for k r
    by (simp add: demo_server_def distinct_by_score)
  have h: "map_of (rd_hgetall demo_server k (rd_hset demo_server k f v r))
      = (map_of (rd_hgetall demo_server k r))(f \<mapsto> v)" for k f v r
    by (simp add: demo_server_def map_of_clearjunk update_conv')
  have h': "distinct (map fst (rd_hgetall demo_server k r))" for k r
    by (simp add: demo_server_def distinct_clearjunk)
  show ?thesis
    unfolding redis_data_ok_def
    by (intro conjI allI impI; (rule z d h h' demo_zrem)?; (simp add: demo_server_def same_key_def)?)
qed

lemma demo_expiry_ok: "redis_expiry_ok demo_server"
  unfolding redis_expiry_ok_def
  by (intro conjI allI impI) (auto simp: demo_server_def split: option.splits)

lemma demo_locks_apart: "redis_locks_apart demo_server"
  by (auto simp: redis_locks_apart_def same_key_def demo_server_def)

subsection \<open>The laws in the form the proofs use\<close>

named_theorems redis_laws \<open>reads after writes\<close>

lemma redis_read [redis_laws]:
  assumes "redis_data_ok R"
  shows "rd_get R k (rd_set R k v r) = Some v"
    "map_of (rd_hgetall R k (rd_hset R k f v r)) = (map_of (rd_hgetall R k r))(f \<mapsto> v)"
    "rd_lrange R k (rd_rpush R k v r) = rd_lrange R k r @ [v]"
    "rd_get R k (rd_del R k r) = None" "rd_hgetall R k (rd_del R k r) = []"
    "rd_lrange R k (rd_del R k r) = []"
    "set (rd_zrevrange R k (rd_zadd R k m sc r)) = insert m (set (rd_zrevrange R k r))"
    "rd_zrevrange R k (rd_zrem R k m r) = filter (\<lambda>x. x \<noteq> m) (rd_zrevrange R k r)"
  using assms by (simp_all add: redis_data_ok_def)

lemma redis_other:
  assumes "redis_data_ok R" "k' \<noteq> k"
  shows "same_key R k' r (rd_set R k v r)" "same_key R k' r (rd_hset R k f v r)"
    "same_key R k' r (rd_rpush R k v r)" "same_key R k' r (rd_del R k r)"
    "same_key R k' r (rd_zadd R k m sc r)" "same_key R k' r (rd_zrem R k m r)"
  using assms by (simp_all add: redis_data_ok_def)

lemma redis_expire_same: "redis_data_ok R \<Longrightarrow> 0 < n \<Longrightarrow> same_key R k' r (rd_expire R k n r)"
  by (simp add: redis_data_ok_def)

lemma redis_frame [redis_laws]:
  assumes "redis_data_ok R" "k' \<noteq> k"
  shows "rd_get R k' (rd_set R k v r) = rd_get R k' r"
    "rd_hgetall R k' (rd_set R k v r) = rd_hgetall R k' r"
    "rd_lrange R k' (rd_set R k v r) = rd_lrange R k' r"
    "rd_zrevrange R k' (rd_set R k v r) = rd_zrevrange R k' r"
    "rd_get R k' (rd_hset R k f v r) = rd_get R k' r"
    "rd_hgetall R k' (rd_hset R k f v r) = rd_hgetall R k' r"
    "rd_lrange R k' (rd_hset R k f v r) = rd_lrange R k' r"
    "rd_zrevrange R k' (rd_hset R k f v r) = rd_zrevrange R k' r"
    "rd_get R k' (rd_rpush R k v r) = rd_get R k' r"
    "rd_hgetall R k' (rd_rpush R k v r) = rd_hgetall R k' r"
    "rd_lrange R k' (rd_rpush R k v r) = rd_lrange R k' r"
    "rd_zrevrange R k' (rd_rpush R k v r) = rd_zrevrange R k' r"
    "rd_get R k' (rd_del R k r) = rd_get R k' r"
    "rd_hgetall R k' (rd_del R k r) = rd_hgetall R k' r"
    "rd_lrange R k' (rd_del R k r) = rd_lrange R k' r"
    "rd_zrevrange R k' (rd_del R k r) = rd_zrevrange R k' r"
    "rd_get R k' (rd_zadd R k m sc r) = rd_get R k' r"
    "rd_hgetall R k' (rd_zadd R k m sc r) = rd_hgetall R k' r"
    "rd_lrange R k' (rd_zadd R k m sc r) = rd_lrange R k' r"
    "rd_zrevrange R k' (rd_zadd R k m sc r) = rd_zrevrange R k' r"
    "rd_get R k' (rd_zrem R k m r) = rd_get R k' r"
    "rd_hgetall R k' (rd_zrem R k m r) = rd_hgetall R k' r"
    "rd_lrange R k' (rd_zrem R k m r) = rd_lrange R k' r"
    "rd_zrevrange R k' (rd_zrem R k m r) = rd_zrevrange R k' r"
  using redis_other [OF assms] by (simp_all add: same_key_def)

lemma redis_expire_frame [redis_laws]:
  assumes "redis_data_ok R" "0 < n"
  shows "rd_get R k' (rd_expire R k n r) = rd_get R k' r"
    "rd_hgetall R k' (rd_expire R k n r) = rd_hgetall R k' r"
    "rd_lrange R k' (rd_expire R k n r) = rd_lrange R k' r"
    "rd_zrevrange R k' (rd_expire R k n r) = rd_zrevrange R k' r"
  using redis_expire_same [OF assms] by (simp_all add: same_key_def)

lemma redis_distinct:
  "redis_data_ok R \<Longrightarrow> distinct (rd_zrevrange R k r)"
  "redis_data_ok R \<Longrightarrow> distinct (map fst (rd_hgetall R k r))"
  by (simp_all add: redis_data_ok_def)

lemma redis_nx [redis_laws]:
  assumes "redis_expiry_ok R" "0 < n"
  shows "fst (rd_set_nx_px R k v n r) \<longleftrightarrow> rd_get R k r = None"
    "rd_get R k r \<noteq> None \<Longrightarrow> snd (rd_set_nx_px R k v n r) = r"
    "rd_get R k r = None \<Longrightarrow>
       rd_get R k' (snd (rd_set_nx_px R k v n r)) = (if k' = k then Some v else rd_get R k' r)"
    "rd_get R k r = None \<Longrightarrow>
       rd_pttl R k' (snd (rd_set_nx_px R k v n r)) = (if k' = k then Some n else rd_pttl R k' r)"
  using assms by (simp_all add: redis_expiry_ok_def)

lemma redis_pexpire [redis_laws]:
  assumes "redis_expiry_ok R" "0 < n"
  shows "rd_get R k' (rd_pexpire R k n r) = rd_get R k' r"
    "rd_pttl R k' (rd_pexpire R k n r)
       = (if k' = k \<and> rd_get R k r \<noteq> None then Some n else rd_pttl R k' r)"
  using assms by (simp_all add: redis_expiry_ok_def)

lemma redis_lock_del [redis_laws]:
  assumes "redis_expiry_ok R"
  shows "rd_get R k' (rd_del R k r) = (if k' = k then None else rd_get R k' r)"
    "k' \<noteq> k \<Longrightarrow> rd_pttl R k' (rd_del R k r) = rd_pttl R k' r"
  using assms by (simp_all add: redis_expiry_ok_def)

lemma redis_pass [redis_laws]:
  assumes ok: "redis_expiry_ok R" and d: "0 \<le> d"
  shows "rd_pttl R k r = None \<Longrightarrow> rd_get R k (rd_pass R d r) = rd_get R k r"
    "rd_pttl R k r = Some n \<Longrightarrow> d < n \<Longrightarrow> rd_get R k (rd_pass R d r) = rd_get R k r"
    "rd_pttl R k r = Some n \<Longrightarrow> d < n \<Longrightarrow> rd_pttl R k (rd_pass R d r) = Some (n - d)"
    "rd_pttl R k r = Some n \<Longrightarrow> \<not> d < n \<Longrightarrow> rd_get R k (rd_pass R d r) = None"
proof -
  have *: "rd_get R k (rd_pass R d r)
        = (case rd_pttl R k r of
             None \<Rightarrow> rd_get R k r
           | Some n \<Rightarrow> if d < n then rd_get R k r else None)
      \<and> (case rd_pttl R k r of
           None \<Rightarrow> True
         | Some n \<Rightarrow> d < n \<longrightarrow> rd_pttl R k (rd_pass R d r) = Some (n - d))"
    using ok d unfolding redis_expiry_ok_def by blast
  from * show "rd_pttl R k r = None \<Longrightarrow> rd_get R k (rd_pass R d r) = rd_get R k r"
    "rd_pttl R k r = Some n \<Longrightarrow> d < n \<Longrightarrow> rd_get R k (rd_pass R d r) = rd_get R k r"
    "rd_pttl R k r = Some n \<Longrightarrow> d < n \<Longrightarrow> rd_pttl R k (rd_pass R d r) = Some (n - d)"
    "rd_pttl R k r = Some n \<Longrightarrow> \<not> d < n \<Longrightarrow> rd_get R k (rd_pass R d r) = None"
    by simp_all
qed

end
