(* ===== verification/SessionStore.thy ===== *)
theory SessionStore
  imports SessionTree
begin

section \<open>The session store and the session router\<close>

text \<open>
  The in-memory store of \<^verbatim>\<open>src/pyclaw/storage/session/base.py\<close>, the contract \<^verbatim>\<open>SessionStore\<close> it
  implements and the router of \<^verbatim>\<open>channels/session_router.py\<close>, which is written against that
  contract.  A store is a record of operations over an abstract state; what the router's lemmas
  need of it is the locale \<open>session_store\<close>, which is interpreted on the in-memory store here and
  on the Redis store in its own theory.  Times and random tokens are arguments.
\<close>

datatype store_error =
    NotInitialised string
  | SessionLocked string
  | BadHeader string
  | TypeError

text \<open>An exception ends what follows it.\<close>

fun try_bind :: "'e + 'a \<Rightarrow> ('a \<Rightarrow> 'e + 'b) \<Rightarrow> 'e + 'b" where
  "try_bind (Inl e) f = Inl e"
| "try_bind (Inr x) f = f x"

lemma try_bind_Inr_iff: "try_bind m f = Inr y \<longleftrightarrow> (\<exists>x. m = Inr x \<and> f x = Inr y)"
  by (cases m) auto

subsection \<open>The in-memory store\<close>

record mem_store =
  ms_trees :: "(string \<times> session_tree) list"
  ms_current :: "(string \<times> string) list"
  ms_history :: "(string \<times> (rat \<times> string) list) list"

definition mem_empty :: mem_store where
  "mem_empty = \<lparr>ms_trees = [], ms_current = [], ms_history = []\<rparr>"

text \<open>Every tree that goes in or out is a deep copy, so a tree is a value.\<close>

definition mem_load :: "string \<Rightarrow> mem_store \<Rightarrow> session_tree option" where
  "mem_load sid s = map_of (ms_trees s) sid"

definition mem_save_header :: "session_tree \<Rightarrow> mem_store \<Rightarrow> mem_store" where
  "mem_save_header t s =
     (let sid = hdr_id (header t)
      in case map_of (ms_trees s) sid of
           Some old \<Rightarrow> s\<lparr>ms_trees := AList.update sid (old\<lparr>header := header t\<rparr>) (ms_trees s)\<rparr>
         | None \<Rightarrow> s\<lparr>ms_trees := AList.update sid t (ms_trees s)\<rparr>)"

text \<open>What appending an entry does to the stored tree.\<close>

definition store_entry :: "session_entry \<Rightarrow> string \<Rightarrow> session_tree \<Rightarrow> session_tree" where
  "store_entry e leaf t =
     t\<lparr>entries := AList.update (entry_id e) e (entries t), order := order t @ [entry_id e],
       leaf_id := Some leaf\<rparr>"

definition mem_append_entry ::
    "string \<Rightarrow> session_entry \<Rightarrow> string \<Rightarrow> mem_store \<Rightarrow> store_error + mem_store" where
  "mem_append_entry sid e leaf s =
     (case map_of (ms_trees s) sid of
        None \<Rightarrow> Inl (NotInitialised sid)
      | Some t \<Rightarrow> Inr (s\<lparr>ms_trees := AList.update sid (store_entry e leaf t) (ms_trees s)\<rparr>))"

definition mem_get_current :: "string \<Rightarrow> mem_store \<Rightarrow> string option" where
  "mem_get_current skey s = map_of (ms_current s) skey"

definition history_of :: "string \<Rightarrow> mem_store \<Rightarrow> (rat \<times> string) list" where
  "history_of skey s = (case map_of (ms_history s) skey of None \<Rightarrow> [] | Some h \<Rightarrow> h)"

definition mem_set_current :: "rat \<Rightarrow> string \<Rightarrow> string \<Rightarrow> mem_store \<Rightarrow> mem_store" where
  "mem_set_current now skey sid s =
     s\<lparr>ms_current := AList.update skey sid (ms_current s),
       ms_history := AList.update skey (history_of skey s @ [(1000 * now, sid)]) (ms_history s)\<rparr>"

text \<open>The id of a new session: the key of the conversation and sixteen random digits.\<close>

definition generate_session_id :: "string \<Rightarrow> string \<Rightarrow> string" where
  "generate_session_id skey token8 = skey @ '':s:'' @ token8"

text \<open>
  What creating a session needs of the outside: the clock, in seconds and as a time stamp, and
  a random token.
\<close>

record moment =
  mo_now :: rat
  mo_iso :: string
  mo_token :: string

definition new_session_tree ::
    "moment \<Rightarrow> string \<Rightarrow> string \<Rightarrow> string \<Rightarrow> string option \<Rightarrow> session_tree" where
  "new_session_tree mo skey ws ag par =
     new_tree (mk_header (generate_session_id skey (mo_token mo)) ws ag (mo_iso mo) par skey)"

definition mem_create_new_session ::
    "moment \<Rightarrow> string \<Rightarrow> string \<Rightarrow> string \<Rightarrow> string option \<Rightarrow> mem_store \<Rightarrow> session_tree \<times> mem_store" where
  "mem_create_new_session mo skey ws ag par s =
     (let t = new_session_tree mo skey ws ag par;
          sid = hdr_id (header t);
          s1 = s\<lparr>ms_trees := AList.update sid t (ms_trees s)\<rparr>
      in (t, mem_set_current (mo_now mo) skey sid s1))"

definition mem_delete_session :: "string \<Rightarrow> mem_store \<Rightarrow> bool \<times> mem_store" where
  "mem_delete_session sid s =
     (map_of (ms_trees s) sid \<noteq> None,
      \<lparr>ms_trees = AList.delete sid (ms_trees s),
       ms_current = filter (\<lambda>(skey, current). current \<noteq> sid) (ms_current s),
       ms_history = map (\<lambda>(skey, h). (skey, filter (\<lambda>(ts, i). i \<noteq> sid) h)) (ms_history s)\<rparr>)"

record history_summary =
  hs_session_id :: string
  hs_created_at :: string
  hs_message_count :: nat
  hs_last_message_at :: "string option"
  hs_parent :: "string option"

definition missing_summary :: "string \<Rightarrow> history_summary" where
  "missing_summary sid =
     \<lparr>hs_session_id = sid, hs_created_at = [], hs_message_count = 0, hs_last_message_at = None,
      hs_parent = None\<rparr>"

definition tree_summary :: "string \<Rightarrow> session_tree \<Rightarrow> history_summary" where
  "tree_summary sid t =
     \<lparr>hs_session_id = sid, hs_created_at = created_at (header t),
      hs_message_count = length (filter is_message (map snd (entries t))),
      hs_last_message_at = last_interaction_at (header t), hs_parent = parent_session (header t)\<rparr>"

text \<open>\<^verbatim>\<open>xs[:n]\<close>, with its meaning for a negative \<^verbatim>\<open>n\<close>.\<close>

definition py_upto :: "int \<Rightarrow> 'a list \<Rightarrow> 'a list" where
  "py_upto n xs = (if 0 \<le> n then take (nat n) xs else take (length xs - nat (- n)) xs)"

text \<open>
  \<^verbatim>\<open>sorted(..., key=..., reverse=True)\<close> keeps equal elements in their order, which is what a stable
  sort by the negated key does.
\<close>

definition mem_list_history :: "string \<Rightarrow> int \<Rightarrow> mem_store \<Rightarrow> history_summary list" where
  "mem_list_history skey n s =
     map (\<lambda>(ts, sid). case map_of (ms_trees s) sid of
            None \<Rightarrow> missing_summary sid | Some t \<Rightarrow> tree_summary sid t)
         (py_upto n (sort_key (\<lambda>p. - fst p) (history_of skey s)))"

subsection \<open>The operations the router calls\<close>

record 's store_ops =
  so_load :: "string \<Rightarrow> 's \<Rightarrow> store_error + session_tree option"
  so_save_header :: "session_tree \<Rightarrow> 's \<Rightarrow> 's"
  so_get_current :: "string \<Rightarrow> 's \<Rightarrow> string option"
  so_set_current :: "rat \<Rightarrow> string \<Rightarrow> string \<Rightarrow> 's \<Rightarrow> 's"
  so_create :: "moment \<Rightarrow> string \<Rightarrow> string \<Rightarrow> string \<Rightarrow> string option \<Rightarrow> 's \<Rightarrow> session_tree \<times> 's"

definition mem_ops :: "mem_store store_ops" where
  "mem_ops = \<lparr>so_load = (\<lambda>sid s. Inr (mem_load sid s)), so_save_header = mem_save_header, so_get_current = mem_get_current,
              so_set_current = mem_set_current, so_create = mem_create_new_session\<rparr>"

lemma mem_ops_sel [simp]:
  "so_load mem_ops = (\<lambda>sid s. Inr (mem_load sid s))" "so_save_header mem_ops = mem_save_header"
  "so_get_current mem_ops = mem_get_current" "so_set_current mem_ops = mem_set_current"
  "so_create mem_ops = mem_create_new_session"
  by (simp_all add: mem_ops_def)

subsection \<open>The router\<close>

definition resolve_or_create ::
    "'s store_ops \<Rightarrow> moment \<Rightarrow> string \<Rightarrow> string \<Rightarrow> string \<Rightarrow> 's
       \<Rightarrow> store_error + ((string \<times> session_tree) \<times> 's)" where
  "resolve_or_create ops mo skey ws ag s =
     try_bind (case so_get_current ops skey s of
                 None \<Rightarrow> Inr None
               | Some sid \<Rightarrow> try_bind (so_load ops sid s) (\<lambda>t. Inr (map_option (Pair sid) t)))
       (\<lambda>found. case found of
          Some f \<Rightarrow> Inr (f, s)
        | None \<Rightarrow>
            try_bind (so_load ops skey s)
              (\<lambda>old_tree. case old_tree of
                 Some old \<Rightarrow> Inr ((skey, old), so_set_current ops (mo_now mo) skey skey s)
               | None \<Rightarrow>
                   (let (t, s') = so_create ops mo skey ws ag None s
                    in Inr ((hdr_id (header t), t), s'))))"

text \<open>
  \<^verbatim>\<open>rotate\<close> also returns the session the callback \<^verbatim>\<open>on_session_rotated\<close> is told of, if it is called.
\<close>

definition rotate_session ::
    "'s store_ops \<Rightarrow> bool \<Rightarrow> moment \<Rightarrow> string \<Rightarrow> string \<Rightarrow> string \<Rightarrow> 's
       \<Rightarrow> (string \<times> session_tree) \<times> string option \<times> 's" where
  "rotate_session ops has_callback mo skey ws ag s =
     (let old = so_get_current ops skey s;
          (t, s') = so_create ops mo skey ws ag old s
      in ((hdr_id (header t), t), if has_callback then old else None, s'))"

definition update_last_interaction ::
    "'s store_ops \<Rightarrow> string \<Rightarrow> string \<Rightarrow> 's \<Rightarrow> store_error + 's" where
  "update_last_interaction ops now sid s =
     try_bind (so_load ops sid s)
       (\<lambda>tree. case tree of
          None \<Rightarrow> Inr s
        | Some t \<Rightarrow>
            Inr (so_save_header ops (t\<lparr>header := (header t)\<lparr>last_interaction_at := Some now\<rparr>\<rparr>) s))"

text \<open>
  \<^verbatim>\<open>datetime.fromisoformat\<close> is a parameter: it fails, or gives a time with or without a zone.
  The difference of an aware and a naive time is a \<^verbatim>\<open>TypeError\<close>, which nothing catches.
\<close>

datatype iso_read = NotIso | NaiveTime rat | AwareTime rat

definition check_idle_reset ::
    "'s store_ops \<Rightarrow> (string \<Rightarrow> iso_read) \<Rightarrow> rat \<Rightarrow> string \<Rightarrow> int \<Rightarrow> 's \<Rightarrow> store_error + bool" where
  "check_idle_reset ops iso_of now sid idle_minutes s =
     (if idle_minutes \<le> 0 then Inr False
      else try_bind (so_load ops sid s)
        (\<lambda>tree. case tree of
           None \<Rightarrow> Inr False
         | Some t \<Rightarrow>
             (case last_interaction_at (header t) of
                None \<Rightarrow> Inr False
              | Some last_at \<Rightarrow>
                  (case iso_of last_at of
                     NotIso \<Rightarrow> Inr False
                   | NaiveTime _ \<Rightarrow> Inl TypeError
                   | AwareTime last_dt \<Rightarrow> Inr (of_int (idle_minutes * 60) \<le> now - last_dt)))))"


subsection \<open>The contract of a session store\<close>

text \<open>
  \<open>ok\<close> is the invariant of the store.  What is promised: the current session of a key is the one that was set, setting it changes no
  session, a created session is the current one of its key and is loaded as it was created, and
  saving a header changes that header and nothing else.
\<close>

locale session_store =
  fixes ops :: "'s store_ops" and ok :: "'s \<Rightarrow> bool"
  assumes get_set: "ok s \<Longrightarrow> so_get_current ops k (so_set_current ops now skey sid s)
                      = (if k = skey then Some sid else so_get_current ops k s)"
    and load_set: "ok s \<Longrightarrow> so_load ops i (so_set_current ops now skey sid s) = so_load ops i s"
    and ok_set: "ok s \<Longrightarrow> ok (so_set_current ops now skey sid s)"
    and get_create: "ok s \<Longrightarrow> so_create ops mo skey ws ag par s = (t, s')
                      \<Longrightarrow> so_get_current ops k s'
                            = (if k = skey then Some (hdr_id (header t)) else so_get_current ops k s)"
    and load_create: "ok s \<Longrightarrow> so_create ops mo skey ws ag par s = (t, s')
                      \<Longrightarrow> so_load ops (generate_session_id skey (mo_token mo)) s = Inr None
                      \<Longrightarrow> so_load ops i s'
                            = (if i = hdr_id (header t) then Inr (Some t) else so_load ops i s)"
    and create_tree: "so_create ops mo skey ws ag par s = (t, s')
                      \<Longrightarrow> t = new_session_tree mo skey ws ag par"
    and ok_create: "ok s \<Longrightarrow> so_create ops mo skey ws ag par s = (t, s') \<Longrightarrow> ok s'"
    and load_save: "ok s \<Longrightarrow> so_load ops (hdr_id (header t)) s = Inr (Some t0)
                      \<Longrightarrow> so_load ops i (so_save_header ops t s)
                            = (if i = hdr_id (header t) then Inr (Some (t0\<lparr>header := header t\<rparr>))
                               else so_load ops i s)"
    and ok_save: "ok s \<Longrightarrow> so_load ops (hdr_id (header t)) s = Inr (Some t0)
                      \<Longrightarrow> ok (so_save_header ops t s)"
begin

lemma resolve_current:
  "so_get_current ops skey s = Some sid \<Longrightarrow> so_load ops sid s = Inr (Some t)
     \<Longrightarrow> resolve_or_create ops mo skey ws ag s = Inr ((sid, t), s)"
  by (simp add: resolve_or_create_def)

text \<open>Whatever a resolution answers is the current session of the key from then on.\<close>

lemma resolve_sets_current:
  assumes ok: "ok s"
    and free: "so_load ops (generate_session_id skey (mo_token mo)) s = Inr None"
    and res: "resolve_or_create ops mo skey ws ag s = Inr ((sid, t), s')"
  shows "so_get_current ops skey s' = Some sid \<and> so_load ops sid s' = Inr (Some t) \<and> ok s'"
proof -
  obtain found where f: "(case so_get_current ops skey s of
                 None \<Rightarrow> Inr None
               | Some sid \<Rightarrow> try_bind (so_load ops sid s) (\<lambda>t. Inr (map_option (Pair sid) t)))
              = (Inr found :: store_error + _)"
    and r: "(case found of
          Some f \<Rightarrow> Inr (f, s)
        | None \<Rightarrow>
            try_bind (so_load ops skey s)
              (\<lambda>old_tree. case old_tree of
                 Some old \<Rightarrow> Inr ((skey, old), so_set_current ops (mo_now mo) skey skey s)
               | None \<Rightarrow>
                   (let (t, s') = so_create ops mo skey ws ag None s
                    in Inr ((hdr_id (header t), t), s')))) = Inr ((sid, t), s')"
    using res unfolding resolve_or_create_def try_bind_Inr_iff by blast
  show ?thesis
  proof (cases found)
    case (Some p)
    with f r ok show ?thesis
      by (auto simp: try_bind_Inr_iff split: option.splits)
  next
    case None
    with r obtain old where old: "so_load ops skey s = Inr old"
      by (auto simp: try_bind_Inr_iff)
    show ?thesis
    proof (cases old)
      case (Some ot)
      with None r old ok show ?thesis
        by (auto simp: get_set load_set ok_set)
    next
      case none: None
      obtain t1 s1 where c: "so_create ops mo skey ws ag None s = (t1, s1)" by fastforce
      with None none r old have "sid = hdr_id (header t1)" "t = t1" "s' = s1" by auto
      then show ?thesis
        using get_create [OF ok c, of skey] load_create [OF ok c free, of sid] ok_create [OF ok c]
        by simp
    qed
  qed
qed

lemma resolve_again:
  assumes "ok s" "so_load ops (generate_session_id skey (mo_token mo)) s = Inr None"
    and "resolve_or_create ops mo skey ws ag s = Inr ((sid, t), s')"
  shows "resolve_or_create ops mo' skey ws' ag' s' = Inr ((sid, t), s')"
  using resolve_sets_current [OF assms] by (simp add: resolve_current)

text \<open>A rotation leaves the old session where it was and starts an empty one that names it.\<close>

lemma rotate_links:
  assumes ok: "ok s"
    and free: "so_load ops (generate_session_id skey (mo_token mo)) s = Inr None"
    and rot: "rotate_session ops cb mo skey ws ag s = ((sid, t), told, s')"
  shows "sid = generate_session_id skey (mo_token mo) \<and> entries t = []
     \<and> parent_session (header t) = so_get_current ops skey s
     \<and> told = (if cb then so_get_current ops skey s else None)
     \<and> so_get_current ops skey s' = Some sid
     \<and> (\<forall>k. k \<noteq> skey \<longrightarrow> so_get_current ops k s' = so_get_current ops k s)
     \<and> so_load ops sid s' = Inr (Some t)
     \<and> (\<forall>i. i \<noteq> sid \<longrightarrow> so_load ops i s' = so_load ops i s) \<and> ok s'"
proof -
  let ?par = "so_get_current ops skey s"
  obtain t1 s1 where c: "so_create ops mo skey ws ag ?par s = (t1, s1)" by fastforce
  with rot have eq: "sid = hdr_id (header t1)" "t = t1" "s' = s1" "told = (if cb then ?par else None)"
    by (auto simp: rotate_session_def Let_def)
  have t1: "t1 = new_session_tree mo skey ws ag ?par" by (rule create_tree [OF c])
  show ?thesis
    using get_create [OF ok c] load_create [OF ok c free] ok_create [OF ok c] eq t1
    by (simp add: new_session_tree_def new_tree_def mk_header_def)
qed

lemma interaction_only_touches_header:
  assumes ok: "ok s" and t: "so_load ops sid s = Inr (Some t)" "hdr_id (header t) = sid"
    and up: "update_last_interaction ops now sid s = Inr s'"
  shows "so_load ops sid s' = Inr (Some (t\<lparr>header := (header t)\<lparr>last_interaction_at := Some now\<rparr>\<rparr>))
     \<and> (\<forall>i. i \<noteq> sid \<longrightarrow> so_load ops i s' = so_load ops i s) \<and> ok s'"
proof -
  let ?t = "t\<lparr>header := (header t)\<lparr>last_interaction_at := Some now\<rparr>\<rparr>"
  from t have s': "s' = so_save_header ops ?t s"
    using up by (simp add: update_last_interaction_def)
  from t have l: "so_load ops (hdr_id (header ?t)) s = Inr (Some t)" by simp
  show ?thesis
    using load_save [OF ok l] ok_save [OF ok l] t s' by simp
qed

end

subsection \<open>The in-memory store keeps the contract\<close>

lemma mem_load_set [simp]: "mem_load i (mem_set_current now skey sid s) = mem_load i s"
  by (simp add: mem_load_def mem_set_current_def)

lemma mem_get_set [simp]:
  "mem_get_current k (mem_set_current now skey sid s)
     = (if k = skey then Some sid else mem_get_current k s)"
  by (simp add: mem_get_current_def mem_set_current_def)

lemma mem_load_save:
  "mem_load i (mem_save_header t s)
     = (if i = hdr_id (header t)
        then Some (case mem_load i s of None \<Rightarrow> t | Some old \<Rightarrow> old\<lparr>header := header t\<rparr>)
        else mem_load i s)"
  by (auto simp: mem_load_def mem_save_header_def Let_def split: option.splits)

lemma mem_create:
  assumes "mem_create_new_session mo skey ws ag par s = (t, s')"
  shows "t = new_session_tree mo skey ws ag par"
    "mem_load i s' = (if i = hdr_id (header t) then Some t else mem_load i s)"
    "mem_get_current k s' = (if k = skey then Some (hdr_id (header t)) else mem_get_current k s)"
  using assms
  by (auto simp: mem_create_new_session_def Let_def mem_load_def mem_get_current_def mem_set_current_def)

interpretation mem_st: session_store mem_ops "\<lambda>_. True"
proof unfold_locales
  fix t t0 :: session_tree and s i
  assume "so_load mem_ops (hdr_id (header t)) s = Inr (Some t0)"
  then show "so_load mem_ops i (so_save_header mem_ops t s)
      = (if i = hdr_id (header t) then Inr (Some (t0\<lparr>header := header t\<rparr>)) else so_load mem_ops i s)"
    by (simp add: mem_load_save)
qed (simp_all add: mem_create mem_create(1))


subsection \<open>Properties of the router over the in-memory store\<close>

text \<open>
  The session a resolution answers (the current one, a session of the old format
  stored under the key itself, or a new one) is the current session of the key from then on:
  the next resolution, with whatever clock, token, workspace and agent, answers the same session
  and changes nothing.  The random token must be new.
\<close>

theorem resolution_is_stable:
  assumes "mem_load (generate_session_id skey (mo_token mo)) s = None"
    and "resolve_or_create mem_ops mo skey ws ag s = Inr ((sid, t), s')"
  shows "resolve_or_create mem_ops mo' skey ws' ag' s' = Inr ((sid, t), s')"
proof (rule mem_st.resolve_again [OF TrueI])
  show "so_load mem_ops (generate_session_id skey (mo_token mo)) s = Inr None"
    using assms(1) by simp
  show "resolve_or_create mem_ops mo skey ws ag s = Inr ((sid, t), s')" by (rule assms(2))
qed

theorem resolution_is_stable_witness:
  "\<exists>t s'. resolve_or_create mem_ops \<lparr>mo_now = 1, mo_iso = ''a'', mo_token = ''00''\<rparr> ''k'' ''w'' ''g'' mem_empty
       = Inr ((''k:s:00'', t), s')
     \<and> resolve_or_create mem_ops \<lparr>mo_now = 2, mo_iso = ''b'', mo_token = ''01''\<rparr> ''k'' ''v'' ''h'' s'
       = Inr ((''k:s:00'', t), s')"
proof -
  let ?mo = "\<lparr>mo_now = 1, mo_iso = ''a'', mo_token = ''00''\<rparr>"
  obtain t s' where r: "resolve_or_create mem_ops ?mo ''k'' ''w'' ''g'' mem_empty = Inr ((''k:s:00'', t), s')"
    by (simp add: resolve_or_create_def mem_empty_def mem_load_def mem_get_current_def
        mem_create_new_session_def new_session_tree_def new_tree_def mk_header_def
        generate_session_id_def Let_def)
  have "mem_load (generate_session_id ''k'' (mo_token ?mo)) mem_empty = None"
    by (simp add: mem_load_def mem_empty_def)
  from resolution_is_stable [OF this r] r show ?thesis by blast
qed

text \<open>
  A rotation makes a new, empty session the current one of its key, whose header
  names the session that was current before (which is also the one the callback is told of),
  and leaves every other session and every other key as they were.
\<close>

theorem rotation_links_and_keeps:
  assumes "mem_load (generate_session_id skey (mo_token mo)) s = None"
    and "rotate_session mem_ops cb mo skey ws ag s = ((sid, t), told, s')"
  shows "entries t = [] \<and> parent_session (header t) = mem_get_current skey s
     \<and> told = (if cb then mem_get_current skey s else None)
     \<and> mem_get_current skey s' = Some sid \<and> mem_load sid s' = Some t
     \<and> (\<forall>k. k \<noteq> skey \<longrightarrow> mem_get_current k s' = mem_get_current k s)
     \<and> (\<forall>i. i \<noteq> sid \<longrightarrow> mem_load i s' = mem_load i s)"
proof -
  have "so_load mem_ops (generate_session_id skey (mo_token mo)) s = Inr None"
    using assms(1) by simp
  from mem_st.rotate_links [OF TrueI this assms(2)] show ?thesis by (auto cong: if_cong)
qed

theorem rotation_links_and_keeps_witness:
  "\<exists>s t told s'. rotate_session mem_ops True \<lparr>mo_now = 2, mo_iso = ''b'', mo_token = ''01''\<rparr> ''k'' ''w'' ''g'' s
       = ((''k:s:01'', t), told, s')
     \<and> mem_get_current ''k'' s = Some ''k:s:00'' \<and> parent_session (header t) = Some ''k:s:00''"
proof -
  let ?mo = "\<lparr>mo_now = 2, mo_iso = ''b'', mo_token = ''01''\<rparr>"
  let ?s = "snd (mem_create_new_session \<lparr>mo_now = 1, mo_iso = ''a'', mo_token = ''00''\<rparr> ''k'' ''w'' ''g'' None mem_empty)"
  have cur: "mem_get_current ''k'' ?s = Some ''k:s:00''"
    by (simp add: mem_create_new_session_def new_session_tree_def new_tree_def mk_header_def
        generate_session_id_def Let_def)
  have free: "mem_load (generate_session_id ''k'' (mo_token ?mo)) ?s = None"
    by (simp add: mem_create_new_session_def new_session_tree_def new_tree_def mk_header_def
        generate_session_id_def Let_def mem_load_def mem_set_current_def mem_empty_def)
  obtain t told s' where r: "rotate_session mem_ops True ?mo ''k'' ''w'' ''g'' ?s = ((''k:s:01'', t), told, s')"
    by (simp add: rotate_session_def mem_create_new_session_def new_session_tree_def new_tree_def
        mk_header_def generate_session_id_def Let_def)
  from rotation_links_and_keeps [OF free r] r cur show ?thesis by auto
qed

text \<open>
  A deleted session is gone: it is not loaded, is the current session of no key
  and stands in no history, while every other session, pointer and history entry stays.
\<close>

theorem deleted_session_is_gone:
  assumes "distinct (map fst (ms_current s))" and "mem_delete_session sid s = (existed, s')"
  shows "existed = (mem_load sid s \<noteq> None)
     \<and> mem_load sid s' = None \<and> (\<forall>i. i \<noteq> sid \<longrightarrow> mem_load i s' = mem_load i s)
     \<and> (\<forall>k. mem_get_current k s'
              = (if mem_get_current k s = Some sid then None else mem_get_current k s))
     \<and> (\<forall>k. history_of k s' = filter (\<lambda>p. snd p \<noteq> sid) (history_of k s))"
proof -
  have hist: "map_of (map (\<lambda>(skey, h). (skey, f h)) hs) k = map_option f (map_of hs k)"
    for f :: "(rat \<times> string) list \<Rightarrow> (rat \<times> string) list" and hs and k :: string
    by (induction hs) auto
  have cur: "distinct (map fst d)
      \<Longrightarrow> map_of (filter (\<lambda>(skey, current). current \<noteq> sid) d) k
        = (if map_of d k = Some sid then None else map_of d k)" for d :: "(string \<times> string) list" and k
    by (induction d) (force split: if_splits simp: map_of_eq_None_iff)+
  have f: "(\<lambda>(ts, i). i \<noteq> sid) = (\<lambda>p :: rat \<times> string. snd p \<noteq> sid)"
    by (simp add: case_prod_unfold)
  show ?thesis
    using assms unfolding mem_delete_session_def f
    by (auto simp: mem_load_def mem_get_current_def history_of_def hist cur split: option.splits)
qed

theorem deleted_session_is_gone_witness:
  "mem_delete_session ''a'' \<lparr>ms_trees = [], ms_current = [(''k'', ''a''), (''l'', ''b'')], ms_history = []\<rparr>
     = (False, \<lparr>ms_trees = [], ms_current = [(''l'', ''b'')], ms_history = []\<rparr>)
   \<and> mem_get_current ''l'' \<lparr>ms_trees = [], ms_current = [(''l'', ''b'')], ms_history = []\<rparr> = Some ''b''"
proof -
  let ?s = "\<lparr>ms_trees = [], ms_current = [(''k'', ''a''), (''l'', ''b'')], ms_history = []\<rparr>"
  let ?s' = "\<lparr>ms_trees = [], ms_current = [(''l'', ''b'')], ms_history = []\<rparr>"
  have d: "distinct (map fst (ms_current ?s))" by simp
  have r: "mem_delete_session ''a'' ?s = (False, ?s')" by (simp add: mem_delete_session_def)
  from deleted_session_is_gone [OF d r] r show ?thesis
    by (simp add: mem_get_current_def)
qed

text \<open>The pointers are a dictionary, and every operation keeps their keys distinct.\<close>

lemma mem_current_distinct:
  assumes "distinct (map fst (ms_current s))"
  shows "distinct (map fst (ms_current (mem_set_current now skey sid s)))"
    "distinct (map fst (ms_current (mem_save_header t s)))"
    "distinct (map fst (ms_current (snd (mem_create_new_session mo skey ws ag par s))))"
    "distinct (map fst (ms_current (snd (mem_delete_session sid s))))"
  using assms
  by (auto simp: mem_set_current_def mem_save_header_def mem_create_new_session_def
      mem_delete_session_def Let_def distinct_update distinct_map_filter split: option.splits)

text \<open>Appending entries one after the other, each as the new leaf, and loading the session.\<close>

fun mem_append_all :: "string \<Rightarrow> session_entry list \<Rightarrow> mem_store \<Rightarrow> store_error + mem_store" where
  "mem_append_all sid [] s = Inr s"
| "mem_append_all sid (e # es) s =
     try_bind (mem_append_entry sid e (entry_id e) s) (mem_append_all sid es)"

lemma mem_append_all_load:
  "mem_load sid s = Some t
     \<Longrightarrow> \<exists>s'. mem_append_all sid es s = Inr s'
           \<and> mem_load sid s' = Some (fold (\<lambda>e. store_entry e (entry_id e)) es t)
           \<and> (\<forall>i. i \<noteq> sid \<longrightarrow> mem_load i s' = mem_load i s)"
proof (induction es arbitrary: s t)
  case Nil
  then show ?case by simp
next
  case (Cons e es)
  let ?s = "s\<lparr>ms_trees := AList.update sid (store_entry e (entry_id e) t) (ms_trees s)\<rparr>"
  from Cons.prems have a: "mem_append_entry sid e (entry_id e) s = Inr ?s"
    by (simp add: mem_append_entry_def mem_load_def)
  have l: "mem_load i ?s = (if i = sid then Some (store_entry e (entry_id e) t) else mem_load i s)" for i
    by (simp add: mem_load_def)
  show ?case
    using Cons.IH [of ?s "store_entry e (entry_id e) t"] a l by simp
qed

end
