(* ===== verification/Lock.thy ===== *)
theory Lock
  imports RedisApi
begin

section \<open>The distributed lock\<close>

text \<open>
  \<^verbatim>\<open>RedisLockManager\<close> of \<^verbatim>\<open>src/pyclaw/storage/lock/redis.py\<close>: a lock is a key with a time to live that
  holds the random token of its owner.  The two Lua scripts, which Redis runs atomically, are
  written out over the commands they call.  The last part is the protocol: any number of
  holders acquire, renew and release the same key while time passes.
\<close>

datatype lock_error = LockAcquireError string

definition full_key :: "string \<Rightarrow> string \<Rightarrow> string" where
  "full_key pre key = pre @ key"

text \<open>\<^verbatim>\<open>acquire\<close>; the token is the next reading of \<^verbatim>\<open>secrets.token_hex(16)\<close>.\<close>

definition lock_acquire ::
    "'r redis \<Rightarrow> string \<Rightarrow> string \<Rightarrow> string \<Rightarrow> int \<Rightarrow> 'r \<Rightarrow> (lock_error + string) \<times> 'r" where
  "lock_acquire R pre token key ttl_ms r =
     (let full = full_key pre key;
          (ok, r') = rd_set_nx_px R full token ttl_ms r
      in (if ok then Inr token else Inl (LockAcquireError full), r'))"

definition release_script :: "'r redis \<Rightarrow> string \<Rightarrow> string \<Rightarrow> 'r \<Rightarrow> int \<times> 'r" where
  "release_script R k token r =
     (if rd_get R k r = Some token then (1, rd_del R k r) else (0, r))"

definition renew_script :: "'r redis \<Rightarrow> string \<Rightarrow> string \<Rightarrow> int \<Rightarrow> 'r \<Rightarrow> int \<times> 'r" where
  "renew_script R k token ttl_ms r =
     (if rd_get R k r = Some token then (1, rd_pexpire R k ttl_ms r) else (0, r))"

definition lock_release :: "'r redis \<Rightarrow> string \<Rightarrow> string \<Rightarrow> string \<Rightarrow> 'r \<Rightarrow> bool \<times> 'r" where
  "lock_release R pre key token r =
     (let (n, r') = release_script R (full_key pre key) token r in (n \<noteq> 0, r'))"

definition lock_renew :: "'r redis \<Rightarrow> string \<Rightarrow> string \<Rightarrow> string \<Rightarrow> int \<Rightarrow> 'r \<Rightarrow> bool \<times> 'r" where
  "lock_renew R pre key token ttl_ms r =
     (let (n, r') = renew_script R (full_key pre key) token ttl_ms r in (n \<noteq> 0, r'))"

subsection \<open>The protocol\<close>

text \<open>
  \<open>lk_lease\<close> gives each holder, named by its token, the time its last successful command on the
  lock promised; a holder is \<open>within its lease\<close> until then.  Tokens are never drawn twice.
\<close>

record 'r lock_sys =
  lk_redis :: 'r
  lk_now :: int
  lk_lease :: "string \<Rightarrow> int option"
  lk_drawn :: "string set"

inductive lock_step ::
    "'r redis \<Rightarrow> string \<Rightarrow> string \<Rightarrow> 'r lock_sys \<Rightarrow> 'r lock_sys \<Rightarrow> bool"
  for R pre key where
  acquired:
    "0 < ttl \<Longrightarrow> token \<notin> lk_drawn s \<Longrightarrow> lock_acquire R pre token key ttl (lk_redis s) = (Inr token, r')
     \<Longrightarrow> lock_step R pre key s
           (s\<lparr>lk_redis := r', lk_lease := (lk_lease s)(token := Some (lk_now s + ttl)),
              lk_drawn := insert token (lk_drawn s)\<rparr>)"
| refused:
    "0 < ttl \<Longrightarrow> token \<notin> lk_drawn s \<Longrightarrow> lock_acquire R pre token key ttl (lk_redis s) = (Inl e, r')
     \<Longrightarrow> lock_step R pre key s (s\<lparr>lk_redis := r', lk_drawn := insert token (lk_drawn s)\<rparr>)"
| renewed:
    "0 < ttl \<Longrightarrow> lk_lease s token \<noteq> None
     \<Longrightarrow> lock_renew R pre key token ttl (lk_redis s) = (True, r')
     \<Longrightarrow> lock_step R pre key s
           (s\<lparr>lk_redis := r', lk_lease := (lk_lease s)(token := Some (lk_now s + ttl))\<rparr>)"
| not_renewed:
    "0 < ttl \<Longrightarrow> lk_lease s token \<noteq> None
     \<Longrightarrow> lock_renew R pre key token ttl (lk_redis s) = (False, r')
     \<Longrightarrow> lock_step R pre key s (s\<lparr>lk_redis := r', lk_lease := (lk_lease s)(token := None)\<rparr>)"
| released:
    "lk_lease s token \<noteq> None \<Longrightarrow> lock_release R pre key token (lk_redis s) = (b, r')
     \<Longrightarrow> lock_step R pre key s (s\<lparr>lk_redis := r', lk_lease := (lk_lease s)(token := None)\<rparr>)"
| time_passes:
    "0 \<le> d
     \<Longrightarrow> lock_step R pre key s (s\<lparr>lk_redis := rd_pass R d (lk_redis s), lk_now := lk_now s + d\<rparr>)"

inductive_cases lock_stepE: "lock_step R pre key s s'"

definition within_lease :: "'r lock_sys \<Rightarrow> string \<Rightarrow> bool" where
  "within_lease s token = (case lk_lease s token of None \<Rightarrow> False | Some e \<Rightarrow> lk_now s < e)"

definition lock_start :: "'r \<Rightarrow> 'r lock_sys" where
  "lock_start r = \<lparr>lk_redis = r, lk_now = 0, lk_lease = (\<lambda>_. None), lk_drawn = {}\<rparr>"

text \<open>
  The invariant: a holder within its lease is the one the key names, and the key lives exactly
  as long as the lease.
\<close>

definition lock_inv :: "'r redis \<Rightarrow> string \<Rightarrow> string \<Rightarrow> 'r lock_sys \<Rightarrow> bool" where
  "lock_inv R pre key s \<longleftrightarrow>
     (\<forall>token e. lk_lease s token = Some e \<longrightarrow> lk_now s < e \<longrightarrow>
        rd_get R (full_key pre key) (lk_redis s) = Some token
        \<and> rd_pttl R (full_key pre key) (lk_redis s) = Some (e - lk_now s))"

lemma lock_invD:
  assumes "lock_inv R pre key s" "lk_lease s token = Some e" "lk_now s < e"
  shows "rd_get R (full_key pre key) (lk_redis s) = Some token"
    "rd_pttl R (full_key pre key) (lk_redis s) = Some (e - lk_now s)"
  using assms by (simp_all add: lock_inv_def)

lemma acquire_cases:
  assumes "redis_expiry_ok R" "0 < ttl" "lock_acquire R pre token key ttl r = (res, r')"
  shows "(rd_get R (full_key pre key) r = None \<and> res = Inr token
            \<and> rd_get R (full_key pre key) r' = Some token \<and> rd_pttl R (full_key pre key) r' = Some ttl)
       \<or> (rd_get R (full_key pre key) r \<noteq> None \<and> res = Inl (LockAcquireError (full_key pre key))
            \<and> r' = r)"
proof -
  let ?k = "full_key pre key"
  let ?p = "rd_set_nx_px R ?k token ttl r"
  from assms(3) have eq: "res = (if fst ?p then Inr token else Inl (LockAcquireError ?k))" "r' = snd ?p"
    by (simp_all add: lock_acquire_def Let_def case_prod_unfold)
  note nx = redis_nx [OF assms(1,2), where k = ?k and v = token and r = r]
  show ?thesis
  proof (cases "rd_get R ?k r")
    case None
    then show ?thesis unfolding eq by (simp add: nx(1) nx(3,4) [where k' = ?k])
  next
    case (Some v)
    then show ?thesis unfolding eq by (simp add: nx(1,2))
  qed
qed

lemma renew_cases:
  assumes "redis_expiry_ok R" "0 < ttl" "lock_renew R pre key token ttl r = (b, r')"
  shows "(rd_get R (full_key pre key) r = Some token \<and> b
            \<and> rd_get R (full_key pre key) r' = Some token \<and> rd_pttl R (full_key pre key) r' = Some ttl)
       \<or> (rd_get R (full_key pre key) r \<noteq> Some token \<and> \<not> b \<and> r' = r)"
  using assms by (auto simp: lock_renew_def renew_script_def redis_pexpire split: if_splits)

lemma release_cases:
  assumes "lock_release R pre key token r = (b, r')"
  shows "(rd_get R (full_key pre key) r = Some token \<and> b) \<or>
         (rd_get R (full_key pre key) r \<noteq> Some token \<and> \<not> b \<and> r' = r)"
  using assms by (auto simp: lock_release_def release_script_def split: if_splits)

lemma lock_inv_step:
  assumes R: "redis_expiry_ok R" and step: "lock_step R pre key s s'" and inv: "lock_inv R pre key s"
  shows "lock_inv R pre key s'"
  using step
proof cases
  case (acquired ttl token r')
  from acquire_cases [OF R acquired(2,4)] have free: "rd_get R (full_key pre key) (lk_redis s) = None"
    and new: "rd_get R (full_key pre key) r' = Some token" "rd_pttl R (full_key pre key) r' = Some ttl"
    by auto
  from free inv show ?thesis
    unfolding acquired(1) lock_inv_def by (auto simp: new)
next
  case (refused ttl token e r')
  from acquire_cases [OF R refused(2,4)] inv show ?thesis
    unfolding refused(1) by (auto simp: lock_inv_def)
next
  case (renewed ttl token r')
  from renew_cases [OF R renewed(2,4)] inv show ?thesis
    unfolding renewed(1) by (auto simp: lock_inv_def)
next
  case (not_renewed ttl token r')
  from renew_cases [OF R not_renewed(2,4)] inv show ?thesis
    unfolding not_renewed(1) by (auto simp: lock_inv_def)
next
  case (released token b r')
  from release_cases [OF released(3)] inv show ?thesis
    unfolding released(1) by (auto simp: lock_inv_def)
next
  case (time_passes d)
  show ?thesis
    unfolding time_passes(1) lock_inv_def
  proof (intro allI impI)
    fix token e
    let ?s = "s\<lparr>lk_redis := rd_pass R d (lk_redis s), lk_now := lk_now s + d\<rparr>"
    assume l: "lk_lease ?s token = Some e" "lk_now ?s < e"
    with time_passes(2) have "lk_lease s token = Some e" "lk_now s < e" by auto
    note i = lock_invD [OF inv this]
    from l have d: "d < e - lk_now s" by simp
    show "rd_get R (full_key pre key) (lk_redis ?s) = Some token
        \<and> rd_pttl R (full_key pre key) (lk_redis ?s) = Some (e - lk_now ?s)"
      using redis_pass(2,3) [OF R time_passes(2) i(2) d] i(1) by simp
  qed
qed

lemma lock_inv_reachable:
  assumes "redis_expiry_ok R" "(lock_step R pre key)\<^sup>*\<^sup>* s s'" "lock_inv R pre key s"
  shows "lock_inv R pre key s'"
  using assms(2,3) by (induction rule: rtranclp_induct) (auto intro: lock_inv_step [OF assms(1)])

lemma lock_inv_start: "lock_inv R pre key (lock_start r)"
  by (simp add: lock_inv_def lock_start_def)

text \<open>
  Property C9.  The lock excludes: in every state the protocol reaches from one without holders,
  at most one holder is within its lease, and as long as one is, no attempt to acquire the lock
  succeeds.  Holders whose lease has run out may still renew and release; the comparison of the
  token in the scripts is what keeps them from touching the lock of another.
\<close>

theorem lock_excludes:
  assumes "redis_expiry_ok R" and "(lock_step R pre key)\<^sup>*\<^sup>* (lock_start r) s"
    and "within_lease s token"
  shows "(\<forall>token'. within_lease s token' \<longrightarrow> token' = token)
     \<and> (\<forall>ttl token'. 0 < ttl \<longrightarrow>
          lock_acquire R pre token' key ttl (lk_redis s)
            = (Inl (LockAcquireError (full_key pre key)), lk_redis s))"
proof -
  have inv: "lock_inv R pre key s"
    by (rule lock_inv_reachable [OF assms(1,2) lock_inv_start])
  have named: "rd_get R (full_key pre key) (lk_redis s) = Some token'" if "within_lease s token'" for token'
    using that by (auto simp: within_lease_def split: option.splits dest: lock_invD [OF inv])
  have "lock_acquire R pre token' key ttl (lk_redis s)
      = (Inl (LockAcquireError (full_key pre key)), lk_redis s)" if "0 < ttl" for ttl token'
    using acquire_cases [OF assms(1) that, of pre token' key "lk_redis s"] named [OF assms(3)]
    by (cases "lock_acquire R pre token' key ttl (lk_redis s)") auto
  moreover have "token' = token" if "within_lease s token'" for token'
    using named [OF that] named [OF assms(3)] by simp
  ultimately show ?thesis by blast
qed

definition demo_locked :: "demo_redis lock_sys" where
  "demo_locked =
     (lock_start demo_empty)
       \<lparr>lk_redis := snd (lock_acquire demo_server ''p:'' ''t1'' ''k'' 5 demo_empty),
        lk_lease := (\<lambda>_. None)(''t1'' := Some 5), lk_drawn := {''t1''}\<rparr>"

theorem lock_excludes_witness:
  "within_lease demo_locked ''t1'' \<and> \<not> within_lease demo_locked ''t2''
   \<and> fst (lock_acquire demo_server ''p:'' ''t2'' ''k'' 5 (lk_redis demo_locked))
       = Inl (LockAcquireError ''p:k'')"
proof -
  have "lock_step demo_server ''p:'' ''k'' (lock_start demo_empty) demo_locked"
  proof -
    let ?r = "snd (lock_acquire demo_server ''p:'' ''t1'' ''k'' 5 demo_empty)"
    have "lock_acquire demo_server ''p:'' ''t1'' ''k'' 5 (lk_redis (lock_start demo_empty)) = (Inr ''t1'', ?r)"
      by (simp add: lock_start_def lock_acquire_def demo_server_def demo_empty_def Let_def)
    from lock_step.acquired [OF _ _ this] show ?thesis
      by (simp add: demo_locked_def lock_start_def)
  qed
  then have r: "(lock_step demo_server ''p:'' ''k'')\<^sup>*\<^sup>* (lock_start demo_empty) demo_locked"
    by (rule r_into_rtranclp)
  have w: "within_lease demo_locked ''t1''"
    by (simp add: within_lease_def demo_locked_def lock_start_def)
  have ex: "\<forall>token'. within_lease demo_locked token' \<longrightarrow> token' = ''t1''"
    and no: "\<forall>ttl token'. 0 < ttl \<longrightarrow> lock_acquire demo_server ''p:'' token' ''k'' ttl (lk_redis demo_locked)
          = (Inl (LockAcquireError (full_key ''p:'' ''k'')), lk_redis demo_locked)"
    using lock_excludes [OF demo_expiry_ok r w] by blast+
  from ex have "\<not> within_lease demo_locked ''t2''" by fastforce
  moreover from no have "fst (lock_acquire demo_server ''p:'' ''t2'' ''k'' 5 (lk_redis demo_locked))
      = Inl (LockAcquireError ''p:k'')"
    by (simp add: full_key_def)
  ultimately show ?thesis using w by blast
qed

end
