(* ===== verification/RedisStore.thy ===== *)
theory RedisStore
  imports SessionStore Lock
begin

section \<open>The Redis session store\<close>

text \<open>
  \<^verbatim>\<open>RedisSessionStore\<close> of \<^verbatim>\<open>src/pyclaw/storage/session/redis.py\<close>: a session is four keys (header,
  hash of entries, list of ids, leaf), a conversation two (current session, sorted set of its
  sessions).  Redis is the parameter of theory \<open>RedisApi\<close>; the model classes' JSON reading and
  writing (pydantic) is the parameter \<open>codec\<close>.  Appending takes the lock of theory \<open>Lock\<close>.
  The store satisfies the contract \<open>session_store\<close>, so the router's lemmas hold for it as well.
\<close>

record codec =
  cd_dump_header :: "session_header \<Rightarrow> string"
  cd_read_header :: "string \<Rightarrow> session_header option"
  cd_dump_entry :: "session_entry \<Rightarrow> string"
  cd_loads :: "string \<Rightarrow> json option"
  cd_validate :: "string \<Rightarrow> jobj \<Rightarrow> session_entry option"

record 'r redis_store =
  rs_redis :: "'r redis"
  rs_codec :: codec
  rs_ttl :: int
  rs_prefix :: string
  rs_lock_prefix :: string

subsection \<open>Keys\<close>

definition hdr_key :: "string \<Rightarrow> string \<Rightarrow> string" where
  "hdr_key pre sid = pre @ ''session:{'' @ sid @ ''}:header''"

definition entries_key :: "string \<Rightarrow> string \<Rightarrow> string" where
  "entries_key pre sid = pre @ ''session:{'' @ sid @ ''}:entries''"

definition order_key :: "string \<Rightarrow> string \<Rightarrow> string" where
  "order_key pre sid = pre @ ''session:{'' @ sid @ ''}:order''"

definition leaf_key :: "string \<Rightarrow> string \<Rightarrow> string" where
  "leaf_key pre sid = pre @ ''session:{'' @ sid @ ''}:leaf''"

definition session_lock_key :: "string \<Rightarrow> string" where
  "session_lock_key sid = ''session-lock:{'' @ sid @ ''}''"

definition skey_current_key :: "string \<Rightarrow> string \<Rightarrow> string" where
  "skey_current_key pre skey = pre @ ''skey:{'' @ skey @ ''}:current''"

definition skey_history_key :: "string \<Rightarrow> string \<Rightarrow> string" where
  "skey_history_key pre skey = pre @ ''skey:{'' @ skey @ ''}:history''"

subsection \<open>Operations\<close>

definition parse_entry :: "codec \<Rightarrow> string \<Rightarrow> session_entry option" where
  "parse_entry cd raw =
     (case cd_loads cd raw of
        Some (JObj d) \<Rightarrow>
          (case jget ''type'' d of
             JStr ty \<Rightarrow>
               if ty = ''message'' then cd_validate cd ''message'' d
               else if ty = ''compaction'' then cd_validate cd ''compaction'' d
               else if ty = ''model_change'' then cd_validate cd ''model_change'' d
               else if ty = ''custom'' then cd_validate cd ''custom'' d
               else None
           | _ \<Rightarrow> None)
      | _ \<Rightarrow> None)"

definition set_ex :: "'r redis \<Rightarrow> string \<Rightarrow> string \<Rightarrow> int \<Rightarrow> 'r \<Rightarrow> 'r" where
  "set_ex R k v ttl r = rd_expire R k ttl (rd_set R k v r)"

definition redis_save_header :: "'r redis_store \<Rightarrow> session_tree \<Rightarrow> 'r \<Rightarrow> 'r" where
  "redis_save_header S t r =
     (let R = rs_redis S; pre = rs_prefix S; ttl = rs_ttl S; sid = hdr_id (header t);
          r = set_ex R (hdr_key pre sid) (cd_dump_header (rs_codec S) (header t)) ttl r;
          r = rd_expire R (entries_key pre sid) ttl r;
          r = rd_expire R (order_key pre sid) ttl r
      in rd_expire R (leaf_key pre sid) ttl r)"

definition read_entries :: "codec \<Rightarrow> (string \<times> string) list \<Rightarrow> (string \<times> session_entry) list" where
  "read_entries cd raw =
     List.map_filter (\<lambda>(i, js). map_option (Pair i) (parse_entry cd js)) raw"

definition redis_load :: "'r redis_store \<Rightarrow> string \<Rightarrow> 'r \<Rightarrow> store_error + session_tree option" where
  "redis_load S sid r =
     (let R = rs_redis S; pre = rs_prefix S
      in case rd_get R (hdr_key pre sid) r of
           None \<Rightarrow> Inr None
         | Some raw \<Rightarrow>
             (case cd_read_header (rs_codec S) raw of
                None \<Rightarrow> Inl (BadHeader sid)
              | Some h \<Rightarrow>
                  Inr (Some \<lparr>header = h,
                             entries = read_entries (rs_codec S) (rd_hgetall R (entries_key pre sid) r),
                             order = rd_lrange R (order_key pre sid) r,
                             leaf_id = (let l = rd_get R (leaf_key pre sid) r
                                        in if opt_truthy l then l else None)\<rparr>)))"

definition write_entry :: "'r redis_store \<Rightarrow> string \<Rightarrow> session_entry \<Rightarrow> string \<Rightarrow> 'r \<Rightarrow> 'r" where
  "write_entry S sid e leaf r =
     (let R = rs_redis S; pre = rs_prefix S; ttl = rs_ttl S;
          r = rd_hset R (entries_key pre sid) (entry_id e) (cd_dump_entry (rs_codec S) e) r;
          r = rd_rpush R (order_key pre sid) (entry_id e) r;
          r = rd_set R (leaf_key pre sid) leaf r;
          r = rd_expire R (hdr_key pre sid) ttl r;
          r = rd_expire R (entries_key pre sid) ttl r;
          r = rd_expire R (order_key pre sid) ttl r
      in rd_expire R (leaf_key pre sid) ttl r)"

definition redis_append_entry ::
    "'r redis_store \<Rightarrow> string \<Rightarrow> string \<Rightarrow> session_entry \<Rightarrow> string \<Rightarrow> 'r \<Rightarrow> (store_error + unit) \<times> 'r"
  where
  "redis_append_entry S token sid e leaf r =
     (let R = rs_redis S; lk = session_lock_key sid;
          (acq, r1) = lock_acquire R (rs_lock_prefix S) token lk 30000 r
      in case acq of
           Inl _ \<Rightarrow> (Inl (SessionLocked sid), r1)
         | Inr tok \<Rightarrow>
             (Inr (), snd (lock_release R (rs_lock_prefix S) lk tok (write_entry S sid e leaf r1))))"

definition redis_get_current :: "'r redis_store \<Rightarrow> string \<Rightarrow> 'r \<Rightarrow> string option" where
  "redis_get_current S skey r = rd_get (rs_redis S) (skey_current_key (rs_prefix S) skey) r"

definition redis_set_current :: "'r redis_store \<Rightarrow> rat \<Rightarrow> string \<Rightarrow> string \<Rightarrow> 'r \<Rightarrow> 'r" where
  "redis_set_current S now skey sid r =
     (let R = rs_redis S; pre = rs_prefix S
      in rd_zadd R (skey_history_key pre skey) sid (1000 * now)
           (rd_set R (skey_current_key pre skey) sid r))"

definition redis_create_new_session ::
    "'r redis_store \<Rightarrow> moment \<Rightarrow> string \<Rightarrow> string \<Rightarrow> string \<Rightarrow> string option \<Rightarrow> 'r \<Rightarrow> session_tree \<times> 'r"
  where
  "redis_create_new_session S mo skey ws ag par r =
     (let t = new_session_tree mo skey ws ag par
      in (t, redis_set_current S (mo_now mo) skey (hdr_id (header t)) (redis_save_header S t r)))"

definition counts_as_message :: "codec \<Rightarrow> string \<Rightarrow> bool" where
  "counts_as_message cd raw =
     (case cd_loads cd raw of Some (JObj d) \<Rightarrow> jget ''type'' d = JStr ''message'' | _ \<Rightarrow> False)"

definition redis_summary :: "'r redis_store \<Rightarrow> 'r \<Rightarrow> string \<Rightarrow> store_error + history_summary" where
  "redis_summary S r sid =
     (let R = rs_redis S; pre = rs_prefix S
      in case rd_get R (hdr_key pre sid) r of
           None \<Rightarrow> Inr (missing_summary sid)
         | Some raw \<Rightarrow>
             (case cd_read_header (rs_codec S) raw of
                None \<Rightarrow> Inl (BadHeader sid)
              | Some h \<Rightarrow>
                  Inr \<lparr>hs_session_id = sid, hs_created_at = created_at h,
                       hs_message_count = length (filter (counts_as_message (rs_codec S))
                         (map snd (rd_hgetall R (entries_key pre sid) r))),
                       hs_last_message_at = last_interaction_at h,
                       hs_parent = parent_session h\<rparr>))"

text \<open>The exception of one summary ends the listing.\<close>

fun sequence_results :: "('e + 'a) list \<Rightarrow> 'e + 'a list" where
  "sequence_results [] = Inr []"
| "sequence_results (x # xs) =
     try_bind x (\<lambda>y. try_bind (sequence_results xs) (\<lambda>ys. Inr (y # ys)))"

text \<open>\<^verbatim>\<open>LIMIT 0 n\<close>: a negative count returns all members.\<close>

definition redis_list_history ::
    "'r redis_store \<Rightarrow> string \<Rightarrow> int \<Rightarrow> 'r \<Rightarrow> store_error + history_summary list" where
  "redis_list_history S skey n r =
     (let members = rd_zrevrange (rs_redis S) (skey_history_key (rs_prefix S) skey) r;
          raw = (if n < 0 then members else take (nat n) members)
      in sequence_results (map (redis_summary S r) raw))"

definition redis_delete_session :: "'r redis_store \<Rightarrow> string \<Rightarrow> 'r \<Rightarrow> bool \<times> 'r" where
  "redis_delete_session S sid r =
     (let R = rs_redis S; pre = rs_prefix S
      in case rd_get R (hdr_key pre sid) r of
           None \<Rightarrow> (False, r)
         | Some raw \<Rightarrow>
             (let skey = (case cd_read_header (rs_codec S) raw of None \<Rightarrow> [] | Some h \<Rightarrow> session_key h);
                  r = rd_del R (leaf_key pre sid) (rd_del R (order_key pre sid)
                        (rd_del R (entries_key pre sid) (rd_del R (hdr_key pre sid) r)));
                  r = (if skey \<noteq> [] then rd_zrem R (skey_history_key pre skey) sid r else r);
                  r = (if skey \<noteq> [] \<and> redis_get_current S skey r = Some sid
                       then rd_del R (skey_current_key pre skey) r else r)
              in (True, r)))"

definition redis_ops :: "'r redis_store \<Rightarrow> 'r store_ops" where
  "redis_ops S =
     \<lparr>so_load = redis_load S, so_save_header = redis_save_header S,
      so_get_current = redis_get_current S, so_set_current = redis_set_current S,
      so_create = redis_create_new_session S\<rparr>"


subsection \<open>The keys are apart\<close>

lemmas key_defs = hdr_key_def entries_key_def order_key_def leaf_key_def skey_current_key_def
  skey_history_key_def full_key_def session_lock_key_def

lemma keys_inj [simp]:
  "hdr_key p a = hdr_key p b \<longleftrightarrow> a = b" "entries_key p a = entries_key p b \<longleftrightarrow> a = b"
  "order_key p a = order_key p b \<longleftrightarrow> a = b" "leaf_key p a = leaf_key p b \<longleftrightarrow> a = b"
  "skey_current_key p a = skey_current_key p b \<longleftrightarrow> a = b"
  "skey_history_key p a = skey_history_key p b \<longleftrightarrow> a = b"
  by (simp_all add: key_defs)

lemma keys_apart [simp]:
  "hdr_key p a \<noteq> entries_key p b" "hdr_key p a \<noteq> order_key p b" "hdr_key p a \<noteq> leaf_key p b"
  "hdr_key p a \<noteq> skey_current_key p b" "hdr_key p a \<noteq> skey_history_key p b"
  "entries_key p a \<noteq> order_key p b" "entries_key p a \<noteq> leaf_key p b"
  "entries_key p a \<noteq> skey_current_key p b" "entries_key p a \<noteq> skey_history_key p b"
  "order_key p a \<noteq> leaf_key p b" "order_key p a \<noteq> skey_current_key p b"
  "order_key p a \<noteq> skey_history_key p b" "leaf_key p a \<noteq> skey_current_key p b"
  "leaf_key p a \<noteq> skey_history_key p b" "skey_current_key p a \<noteq> skey_history_key p b"
  "full_key q (session_lock_key c) \<noteq> hdr_key p a" "full_key q (session_lock_key c) \<noteq> entries_key p a"
  "full_key q (session_lock_key c) \<noteq> order_key p a" "full_key q (session_lock_key c) \<noteq> leaf_key p a"
  "full_key q (session_lock_key c) \<noteq> skey_current_key p a"
  "full_key q (session_lock_key c) \<noteq> skey_history_key p a"
  by ((rule notI, drule arg_cong [where f = rev], simp add: key_defs)+)

lemmas keys_apart' [simp] = keys_apart [THEN not_sym]

subsection \<open>What the operations do to the keys\<close>

text \<open>
  What is relied on: the documented behaviour of Redis, a positive time to live and a codec that reads the headers it wrote.
\<close>

definition store_setup :: "'r redis_store \<Rightarrow> bool" where
  "store_setup S \<longleftrightarrow>
     redis_data_ok (rs_redis S) \<and> redis_expiry_ok (rs_redis S) \<and> redis_locks_apart (rs_redis S)
     \<and> 0 < rs_ttl S
     \<and> (\<forall>h. cd_read_header (rs_codec S) (cd_dump_header (rs_codec S) h) = Some h)"

lemma store_setupD:
  assumes "store_setup S"
  shows "redis_data_ok (rs_redis S)" "redis_expiry_ok (rs_redis S)" "redis_locks_apart (rs_redis S)"
    "0 < rs_ttl S"
    "cd_read_header (rs_codec S) (cd_dump_header (rs_codec S) h) = Some h"
  using assms by (auto simp: store_setup_def)

definition no_orphans :: "'r redis_store \<Rightarrow> 'r \<Rightarrow> bool" where
  "no_orphans S r \<longleftrightarrow>
     (\<forall>sid. rd_get (rs_redis S) (hdr_key (rs_prefix S) sid) r = None \<longrightarrow>
        rd_hgetall (rs_redis S) (entries_key (rs_prefix S) sid) r = []
        \<and> rd_lrange (rs_redis S) (order_key (rs_prefix S) sid) r = []
        \<and> rd_get (rs_redis S) (leaf_key (rs_prefix S) sid) r = None)"

lemma save_header_reads:
  assumes S: "store_setup S"
  shows "rd_get (rs_redis S) (hdr_key (rs_prefix S) i) (redis_save_header S t r)
           = (if i = hdr_id (header t) then Some (cd_dump_header (rs_codec S) (header t))
              else rd_get (rs_redis S) (hdr_key (rs_prefix S) i) r)"
    "rd_hgetall (rs_redis S) (entries_key (rs_prefix S) i) (redis_save_header S t r)
       = rd_hgetall (rs_redis S) (entries_key (rs_prefix S) i) r"
    "rd_lrange (rs_redis S) (order_key (rs_prefix S) i) (redis_save_header S t r)
       = rd_lrange (rs_redis S) (order_key (rs_prefix S) i) r"
    "rd_get (rs_redis S) (leaf_key (rs_prefix S) i) (redis_save_header S t r)
       = rd_get (rs_redis S) (leaf_key (rs_prefix S) i) r"
    "rd_get (rs_redis S) (skey_current_key (rs_prefix S) k) (redis_save_header S t r)
       = rd_get (rs_redis S) (skey_current_key (rs_prefix S) k) r"
  using store_setupD(1,4) [OF S]
  by (auto simp: redis_save_header_def set_ex_def Let_def redis_expire_frame redis_read redis_frame)

lemma set_current_reads:
  assumes S: "store_setup S"
  shows "rd_get (rs_redis S) (hdr_key (rs_prefix S) i) (redis_set_current S now k sid r)
           = rd_get (rs_redis S) (hdr_key (rs_prefix S) i) r"
    "rd_hgetall (rs_redis S) (entries_key (rs_prefix S) i) (redis_set_current S now k sid r)
       = rd_hgetall (rs_redis S) (entries_key (rs_prefix S) i) r"
    "rd_lrange (rs_redis S) (order_key (rs_prefix S) i) (redis_set_current S now k sid r)
       = rd_lrange (rs_redis S) (order_key (rs_prefix S) i) r"
    "rd_get (rs_redis S) (leaf_key (rs_prefix S) i) (redis_set_current S now k sid r)
       = rd_get (rs_redis S) (leaf_key (rs_prefix S) i) r"
    "rd_get (rs_redis S) (skey_current_key (rs_prefix S) k') (redis_set_current S now k sid r)
       = (if k' = k then Some sid else rd_get (rs_redis S) (skey_current_key (rs_prefix S) k') r)"
  using store_setupD(1,4) [OF S]
  by (auto simp: redis_set_current_def Let_def redis_read redis_frame)

lemma redis_load_cong:
  assumes "rd_get (rs_redis S) (hdr_key (rs_prefix S) i) r' = rd_get (rs_redis S) (hdr_key (rs_prefix S) i) r"
    "rd_hgetall (rs_redis S) (entries_key (rs_prefix S) i) r' = rd_hgetall (rs_redis S) (entries_key (rs_prefix S) i) r"
    "rd_lrange (rs_redis S) (order_key (rs_prefix S) i) r' = rd_lrange (rs_redis S) (order_key (rs_prefix S) i) r"
    "rd_get (rs_redis S) (leaf_key (rs_prefix S) i) r' = rd_get (rs_redis S) (leaf_key (rs_prefix S) i) r"
  shows "redis_load S i r' = redis_load S i r"
  unfolding redis_load_def Let_def assms by (rule refl)

lemma redis_load_None_iff:
  "redis_load S i r = Inr None \<longleftrightarrow> rd_get (rs_redis S) (hdr_key (rs_prefix S) i) r = None"
  by (simp add: redis_load_def Let_def split: option.split)

lemma redis_load_saved:
  assumes "store_setup S" "redis_load S (hdr_id (header t)) r = Inr (Some t0)"
  shows "redis_load S (hdr_id (header t)) (redis_save_header S t r) = Inr (Some (t0\<lparr>header := header t\<rparr>))"
  using assms(2) save_header_reads [OF assms(1)] store_setupD(5) [OF assms(1)]
  by (auto simp: redis_load_def Let_def split: option.splits)

lemma redis_load_created:
  assumes "store_setup S" "no_orphans S r" "redis_load S (hdr_id h) r = Inr None"
  shows "redis_load S (hdr_id h) (redis_save_header S (new_tree h) r) = Inr (Some (new_tree h))"
  using assms(2,3) save_header_reads [OF assms(1)] store_setupD(5) [OF assms(1)]
  by (simp add: redis_load_None_iff no_orphans_def)
     (simp add: redis_load_def new_tree_def read_entries_def map_filter_simps Let_def)

lemma no_orphans_save: "store_setup S \<Longrightarrow> no_orphans S r \<Longrightarrow> no_orphans S (redis_save_header S t r)"
  by (auto simp: no_orphans_def save_header_reads split: if_splits)

lemma no_orphans_set: "store_setup S \<Longrightarrow> no_orphans S r \<Longrightarrow> no_orphans S (redis_set_current S now k sid r)"
  by (simp add: no_orphans_def set_current_reads)

subsection \<open>The Redis store keeps the contract\<close>

lemma redis_ops_sel [simp]:
  "so_load (redis_ops S) = redis_load S" "so_save_header (redis_ops S) = redis_save_header S"
  "so_get_current (redis_ops S) = redis_get_current S" "so_set_current (redis_ops S) = redis_set_current S"
  "so_create (redis_ops S) = redis_create_new_session S"
  by (simp_all add: redis_ops_def)

lemma redis_is_session_store:
  assumes S: "store_setup S"
  shows "session_store (redis_ops S) (no_orphans S)"
proof unfold_locales
  fix mo skey ws ag par r t r' i
  assume ok: "no_orphans S r" and c: "so_create (redis_ops S) mo skey ws ag par r = (t, r')"
    and free: "so_load (redis_ops S) (generate_session_id skey (mo_token mo)) r = Inr None"
  let ?h = "mk_header (generate_session_id skey (mo_token mo)) ws ag (mo_iso mo) par skey"
  from c have t: "t = new_tree ?h"
    and r': "r' = redis_set_current S (mo_now mo) skey (hdr_id ?h) (redis_save_header S (new_tree ?h) r)"
    by (auto simp: redis_create_new_session_def new_session_tree_def Let_def new_tree_def)
  have ht: "header (new_tree h) = h" for h by (simp add: new_tree_def)
  have id: "hdr_id ?h = generate_session_id skey (mo_token mo)" by (simp add: mk_header_def)
  have l: "redis_load S i r' = redis_load S i (redis_save_header S (new_tree ?h) r)" for i
    unfolding r' by (rule redis_load_cong) (simp_all add: set_current_reads [OF S])
  have "redis_load S (hdr_id ?h) r' = Inr (Some (new_tree ?h))"
    unfolding l using free by (intro redis_load_created [OF S ok]) (simp add: id)
  moreover have "redis_load S i r' = redis_load S i r" if "i \<noteq> hdr_id ?h"
    unfolding l by (rule redis_load_cong) (use that in \<open>simp_all add: save_header_reads [OF S] ht\<close>)
  ultimately show "so_load (redis_ops S) i r'
      = (if i = hdr_id (header t) then Inr (Some t) else so_load (redis_ops S) i r)"
    by (simp add: t ht)
next
  fix t t0 :: session_tree and r i
  assume l: "so_load (redis_ops S) (hdr_id (header t)) r = Inr (Some t0)"
  have "redis_load S i (redis_save_header S t r) = redis_load S i r" if "i \<noteq> hdr_id (header t)"
    by (rule redis_load_cong) (use that in \<open>simp_all add: save_header_reads [OF S]\<close>)
  with l redis_load_saved [OF S] show "so_load (redis_ops S) i (so_save_header (redis_ops S) t r)
      = (if i = hdr_id (header t) then Inr (Some (t0\<lparr>header := header t\<rparr>)) else so_load (redis_ops S) i r)"
    by auto
next
  fix r i now skey sid
  show "so_load (redis_ops S) i (so_set_current (redis_ops S) now skey sid r) = so_load (redis_ops S) i r"
    unfolding redis_ops_sel by (rule redis_load_cong) (simp_all add: set_current_reads [OF S])
qed (use S in \<open>auto simp: redis_get_current_def set_current_reads save_header_reads no_orphans_set
       no_orphans_save redis_create_new_session_def Let_def\<close>)


subsection \<open>Appending\<close>

lemma write_entry_reads:
  assumes S: "store_setup S"
  shows "map_of (rd_hgetall (rs_redis S) (entries_key (rs_prefix S) sid) (write_entry S sid e leaf r))
           = (map_of (rd_hgetall (rs_redis S) (entries_key (rs_prefix S) sid) r))
               (entry_id e \<mapsto> cd_dump_entry (rs_codec S) e)"
    "rd_lrange (rs_redis S) (order_key (rs_prefix S) sid) (write_entry S sid e leaf r)
       = rd_lrange (rs_redis S) (order_key (rs_prefix S) sid) r @ [entry_id e]"
    "rd_get (rs_redis S) (leaf_key (rs_prefix S) sid) (write_entry S sid e leaf r) = Some leaf"
    "k \<noteq> entries_key (rs_prefix S) sid \<Longrightarrow> k \<noteq> order_key (rs_prefix S) sid \<Longrightarrow> k \<noteq> leaf_key (rs_prefix S) sid
     \<Longrightarrow> same_key (rs_redis S) k r (write_entry S sid e leaf r)"
  using store_setupD(1,4) [OF S]
  by (simp_all add: write_entry_def Let_def redis_expire_frame redis_read redis_frame same_key_def)

lemma map_of_read_entries:
  "distinct (map fst raw) \<Longrightarrow>
   map_of (read_entries cd raw) i = Option.bind (map_of raw i) (parse_entry cd)"
proof (induction raw)
  case (Cons p raw)
  obtain j js where p: "p = (j, js)" by fastforce
  from Cons.prems p have "map_of raw j = None" by (simp add: map_of_eq_None_iff)
  with Cons p show ?case
    by (cases "parse_entry cd js") (auto simp: read_entries_def map_filter_simps)
qed (simp add: read_entries_def map_filter_simps)

text \<open>Two trees with the same entries, in whatever order the dictionaries list them.\<close>

definition same_tree :: "session_tree \<Rightarrow> session_tree \<Rightarrow> bool" where
  "same_tree t t' \<longleftrightarrow>
     header t = header t' \<and> map_of (entries t) = map_of (entries t') \<and> order t = order t'
     \<and> leaf_id t = leaf_id t'"

lemma lock_frame:
  assumes S: "store_setup S" and k: "k \<noteq> full_key (rs_lock_prefix S) (session_lock_key sid)"
  shows "same_key (rs_redis S) k r
           (snd (lock_acquire (rs_redis S) (rs_lock_prefix S) token (session_lock_key sid) 30000 r))"
    "same_key (rs_redis S) k r
       (snd (lock_release (rs_redis S) (rs_lock_prefix S) (session_lock_key sid) token r))"
  using store_setupD(1,3) [OF S] k redis_other(4) [OF store_setupD(1) [OF S] k]
  by (auto simp: lock_acquire_def lock_release_def release_script_def Let_def redis_locks_apart_def
      case_prod_unfold same_key_def)

lemma same_key_trans: "same_key R k a b \<Longrightarrow> same_key R k b c \<Longrightarrow> same_key R k a c"
  by (simp add: same_key_def)

lemma same_key_refl [simp]: "same_key R k a a"
  by (simp add: same_key_def)

lemma redis_load_same:
  assumes "\<And>k. k \<noteq> full_key (rs_lock_prefix S) (session_lock_key sid) \<Longrightarrow>
      k \<noteq> entries_key (rs_prefix S) sid \<Longrightarrow> k \<noteq> order_key (rs_prefix S) sid \<Longrightarrow>
      k \<noteq> leaf_key (rs_prefix S) sid \<Longrightarrow> same_key (rs_redis S) k r r'"
    and "i \<noteq> sid"
  shows "redis_load S i r' = redis_load S i r"
  using assms(2) assms(1) [of "hdr_key (rs_prefix S) i"] assms(1) [of "entries_key (rs_prefix S) i"]
    assms(1) [of "order_key (rs_prefix S) i"] assms(1) [of "leaf_key (rs_prefix S) i"]
  by (intro redis_load_cong) (simp_all add: same_key_def)

lemma append_free:
  assumes S: "store_setup S" and e: "entry_id e \<noteq> []"
    and codec: "parse_entry (rs_codec S) (cd_dump_entry (rs_codec S) e) = Some e"
    and t: "redis_load S sid r = Inr (Some t)"
    and free: "rd_get (rs_redis S) (full_key (rs_lock_prefix S) (session_lock_key sid)) r = None"
    and ap: "redis_append_entry S token sid e (entry_id e) r = (res, r')"
  shows "res = Inr ()
     \<and> rd_get (rs_redis S) (full_key (rs_lock_prefix S) (session_lock_key sid)) r' = None
     \<and> (\<exists>t'. redis_load S sid r' = Inr (Some t') \<and> same_tree t' (store_entry e (entry_id e) t))
     \<and> (\<forall>i. i \<noteq> sid \<longrightarrow> redis_load S i r' = redis_load S i r)"
proof -
  let ?R = "rs_redis S" and ?pre = "rs_prefix S" and ?lk = "session_lock_key sid"
  let ?full = "full_key (rs_lock_prefix S) ?lk"
  define r1 where "r1 = snd (lock_acquire ?R (rs_lock_prefix S) token ?lk 30000 r)"
  define r2 where "r2 = write_entry S sid e (entry_id e) r1"
  have "lock_acquire ?R (rs_lock_prefix S) token ?lk 30000 r = (Inr token, r1)"
    and named: "rd_get ?R ?full r1 = Some token"
    using acquire_cases [OF store_setupD(2) [OF S], of 30000 "rs_lock_prefix S" token ?lk r _ r1] free
    by (auto simp: r1_def prod_eq_iff)
  then have res: "res = Inr ()" and r': "r' = snd (lock_release ?R (rs_lock_prefix S) ?lk token r2)"
    using ap by (auto simp: redis_append_entry_def Let_def r2_def)
  have f1: "same_key ?R k r r1" if "k \<noteq> ?full" for k
    unfolding r1_def by (rule lock_frame(1) [OF S that])
  have f2: "same_key ?R k r1 r2"
    if "k \<noteq> entries_key ?pre sid" "k \<noteq> order_key ?pre sid" "k \<noteq> leaf_key ?pre sid" for k
    unfolding r2_def by (rule write_entry_reads(4) [OF S that])
  have f3: "same_key ?R k r2 r'" if "k \<noteq> ?full" for k
    unfolding r' by (rule lock_frame(2) [OF S that])
  have "rd_get ?R ?full r2 = Some token"
    using f2 [of ?full] named by (simp add: same_key_def)
  then have unlocked: "rd_get ?R ?full r' = None"
    by (simp add: r' lock_release_def release_script_def redis_lock_del [OF store_setupD(2) [OF S]])
  have others: "redis_load S i r' = redis_load S i r" if "i \<noteq> sid" for i
    by (rule redis_load_same [OF _ that]) (blast intro: same_key_trans f1 f2 f3)
  note rd = f1 f3 write_entry_reads(1-3) [OF S, of sid e "entry_id e" r1, folded r2_def]
  have hdr: "rd_get ?R (hdr_key ?pre sid) r' = rd_get ?R (hdr_key ?pre sid) r"
    using f1 [of "hdr_key ?pre sid"] f2 [of "hdr_key ?pre sid"] f3 [of "hdr_key ?pre sid"]
    by (simp add: same_key_def)
  have ent: "map_of (rd_hgetall ?R (entries_key ?pre sid) r')
      = (map_of (rd_hgetall ?R (entries_key ?pre sid) r))(entry_id e \<mapsto> cd_dump_entry (rs_codec S) e)"
    using f1 [of "entries_key ?pre sid"] f3 [of "entries_key ?pre sid"] rd(3) by (simp add: same_key_def)
  have ord: "rd_lrange ?R (order_key ?pre sid) r' = rd_lrange ?R (order_key ?pre sid) r @ [entry_id e]"
    using f1 [of "order_key ?pre sid"] f3 [of "order_key ?pre sid"] rd(4) by (simp add: same_key_def)
  have leaf: "rd_get ?R (leaf_key ?pre sid) r' = Some (entry_id e)"
    using f3 [of "leaf_key ?pre sid"] rd(5) by (simp add: same_key_def)
  from t obtain raw h where raw: "rd_get ?R (hdr_key ?pre sid) r = Some raw"
      "cd_read_header (rs_codec S) raw = Some h"
    by (auto simp: redis_load_def Let_def split: option.splits)
  note dist = redis_distinct(2) [OF store_setupD(1) [OF S]]
  have "map_of (read_entries (rs_codec S) (rd_hgetall ?R (entries_key ?pre sid) r'))
      = (map_of (read_entries (rs_codec S) (rd_hgetall ?R (entries_key ?pre sid) r)))(entry_id e \<mapsto> e)"
    by (rule ext) (simp add: map_of_read_entries dist ent codec)
  then have "\<exists>t'. redis_load S sid r' = Inr (Some t') \<and> same_tree t' (store_entry e (entry_id e) t)"
    using t raw e
    by (auto simp: redis_load_def Let_def hdr ord leaf same_tree_def store_entry_def update_conv')
  with res unlocked others show ?thesis by blast
qed

text \<open>
  Property C12.  Appending to a stored session.  When the lock of the session is free, the append
  succeeds, the session is then loaded with the entry put at its end as the new leaf, every
  other session is loaded as before, and the lock is free again.  When the lock is taken, the
  append fails and changes nothing.
\<close>

theorem redis_append_roundtrip:
  assumes "store_setup S" "entry_id e \<noteq> []"
    and "parse_entry (rs_codec S) (cd_dump_entry (rs_codec S) e) = Some e"
    and "redis_load S sid r = Inr (Some t)"
    and "redis_append_entry S token sid e (entry_id e) r = (res, r')"
  shows "if rd_get (rs_redis S) (full_key (rs_lock_prefix S) (session_lock_key sid)) r = None
         then res = Inr ()
            \<and> rd_get (rs_redis S) (full_key (rs_lock_prefix S) (session_lock_key sid)) r' = None
            \<and> (\<exists>t'. redis_load S sid r' = Inr (Some t') \<and> same_tree t' (store_entry e (entry_id e) t))
            \<and> (\<forall>i. i \<noteq> sid \<longrightarrow> redis_load S i r' = redis_load S i r)
         else res = Inl (SessionLocked sid) \<and> r' = r"
proof (cases "rd_get (rs_redis S) (full_key (rs_lock_prefix S) (session_lock_key sid)) r = None")
  case True
  with append_free [OF assms(1-4) True assms(5)] show ?thesis by simp
next
  case False
  let ?lk = "session_lock_key sid"
  obtain a r1 where a: "lock_acquire (rs_redis S) (rs_lock_prefix S) token ?lk 30000 r = (a, r1)" by fastforce
  from acquire_cases [OF store_setupD(2) [OF assms(1)] _ a] False
  have "a = Inl (LockAcquireError (full_key (rs_lock_prefix S) ?lk))" "r1 = r" by auto
  with assms(5) a False show ?thesis by (auto simp: redis_append_entry_def Let_def)
qed


subsection \<open>A concrete store\<close>

text \<open>An encoding of headers that can be read back, for the concrete instances.\<close>

definition pack_one :: "string \<Rightarrow> string" where
  "pack_one s = List.maps (\<lambda>c. [CHR ''1'', c]) s @ ''0''"

function unpack :: "string \<Rightarrow> string \<Rightarrow> string list" where
  "unpack acc [] = []"
| "unpack acc (x # r) =
     (if x = CHR ''0'' then acc # unpack [] r
      else case r of [] \<Rightarrow> [] | c # r' \<Rightarrow> unpack (acc @ [c]) r')"
  by pat_completeness auto
termination by (relation "measure (\<lambda>(acc, s). length s)") auto

lemma unpack_one: "unpack acc (pack_one s @ r) = (acc @ s) # unpack [] r"
  by (induction s arbitrary: acc) (simp_all add: pack_one_def)

definition pack_int :: "int \<Rightarrow> string" where
  "pack_int i = (if i < 0 then CHR ''-'' else CHR ''+'') # replicate (nat \<bar>i\<bar>) (CHR ''x'')"

definition unpack_int :: "string \<Rightarrow> int" where
  "unpack_int s = (if hd s = CHR ''-'' then - int (length (tl s)) else int (length (tl s)))"

lemma unpack_pack_int [simp]: "unpack_int (pack_int i) = i"
  by (simp add: unpack_int_def pack_int_def)

definition pack_option :: "string option \<Rightarrow> string" where
  "pack_option x = (case x of None \<Rightarrow> [] | Some s \<Rightarrow> CHR ''s'' # s)"

definition unpack_option :: "string \<Rightarrow> string option" where
  "unpack_option s = (case s of [] \<Rightarrow> None | _ # r \<Rightarrow> Some r)"

lemma unpack_pack_option [simp]: "unpack_option (pack_option x) = x"
  by (cases x) (simp_all add: unpack_option_def pack_option_def)

definition header_fields :: "session_header \<Rightarrow> string list" where
  "header_fields h =
     [pack_int (hdr_version h), hdr_id h, workspace_id h, agent_id h, created_at h,
      pack_option (parent_session h), session_key h, pack_option (last_interaction_at h),
      pack_option (map_option pack_int (idle_minutes_override h)), pack_option (model_override h),
      pack_option (title h)]"

definition fields_header :: "string list \<Rightarrow> session_header" where
  "fields_header fs =
     \<lparr>hdr_version = unpack_int (fs ! 0), hdr_id = fs ! 1, workspace_id = fs ! 2, agent_id = fs ! 3,
      created_at = fs ! 4, parent_session = unpack_option (fs ! 5), session_key = fs ! 6,
      last_interaction_at = unpack_option (fs ! 7),
      idle_minutes_override = map_option unpack_int (unpack_option (fs ! 8)),
      model_override = unpack_option (fs ! 9), title = unpack_option (fs ! 10)\<rparr>"

definition demo_entry :: session_entry where
  "demo_entry = \<lparr>entry_id = ''e'', parent_id = None, timestamp = ''t'', body = ModelChangeEntry ''p'' ''m''\<rparr>"

definition demo_codec :: codec where
  "demo_codec =
     \<lparr>cd_dump_header = (\<lambda>h. List.maps pack_one (header_fields h)),
      cd_read_header = (\<lambda>s. Some (fields_header (unpack [] s))),
      cd_dump_entry = (\<lambda>_. ''E''),
      cd_loads = (\<lambda>_. Some (JObj [(''type'', JStr ''model_change'')])),
      cd_validate = (\<lambda>_ _. Some demo_entry)\<rparr>"

definition demo_redis_store :: "demo_redis redis_store" where
  "demo_redis_store = \<lparr>rs_redis = demo_server, rs_codec = demo_codec, rs_ttl = 60, rs_prefix = ''p:'',
                       rs_lock_prefix = ''p:''\<rparr>"

lemma demo_codec_headers: "cd_read_header demo_codec (cd_dump_header demo_codec h) = Some h"
proof -
  have "unpack [] (List.maps pack_one fs) = fs" for fs
    by (induction fs) (simp_all add: unpack_one)
  moreover have "fields_header (header_fields h) = h"
    by (simp add: fields_header_def header_fields_def option.map_comp option.map_ident o_def)
  ultimately show ?thesis by (simp add: demo_codec_def)
qed

lemma demo_setup: "store_setup demo_redis_store"
  by (simp add: store_setup_def demo_redis_store_def demo_data_ok demo_expiry_ok demo_locks_apart
      demo_codec_headers)

lemma demo_no_orphans: "no_orphans demo_redis_store demo_empty"
  by (simp add: no_orphans_def demo_redis_store_def demo_empty_def)

text \<open>
  Property C11.  The Redis store keeps the contract of a session store: what is set as current is
  current, a created session is loaded as it was created, a saved header replaces the old one
  and nothing else changes.  All lemmas about the router hold for it.
\<close>

theorem redis_store_keeps_contract:
  assumes "store_setup S"
  shows "session_store (redis_ops S) (no_orphans S)"
  by (rule redis_is_session_store [OF assms])

theorem redis_store_keeps_contract_witness:
  "\<exists>p r'. resolve_or_create (redis_ops demo_redis_store) \<lparr>mo_now = 1, mo_iso = ''a'', mo_token = ''00''\<rparr>
              ''k'' ''w'' ''g'' demo_empty = Inr (p, r')
     \<and> (\<forall>mo' ws' ag'. resolve_or_create (redis_ops demo_redis_store) mo' ''k'' ws' ag' r' = Inr (p, r'))"
proof -
  let ?mo = "\<lparr>mo_now = 1, mo_iso = ''a'', mo_token = ''00''\<rparr>"
  let ?S = demo_redis_store
  have none: "redis_load ?S i demo_empty = Inr None" for i
    by (simp add: redis_load_None_iff demo_redis_store_def demo_empty_def)
  have "redis_get_current ?S ''k'' demo_empty = None"
    by (simp add: redis_get_current_def demo_redis_store_def demo_empty_def)
  then obtain sid t r' where r: "resolve_or_create (redis_ops ?S) ?mo ''k'' ''w'' ''g'' demo_empty = Inr ((sid, t), r')"
    by (cases "redis_create_new_session ?S ?mo ''k'' ''w'' ''g'' None demo_empty")
       (simp add: resolve_or_create_def none)
  have free: "so_load (redis_ops ?S) (generate_session_id ''k'' (mo_token ?mo)) demo_empty = Inr None"
    by (simp add: none)
  have "resolve_or_create (redis_ops ?S) mo' ''k'' ws' ag' r' = Inr ((sid, t), r')" for mo' ws' ag'
    by (rule session_store.resolve_again
         [OF redis_store_keeps_contract [OF demo_setup] demo_no_orphans free r])
  with r show ?thesis by blast
qed

theorem redis_append_roundtrip_witness:
  "\<exists>r t r'. redis_load demo_redis_store ''s'' r = Inr (Some t)
     \<and> redis_append_entry demo_redis_store ''tok'' ''s'' demo_entry ''e'' r = (Inr (), r')
     \<and> (\<exists>t'. redis_load demo_redis_store ''s'' r' = Inr (Some t')
             \<and> same_tree t' (store_entry demo_entry ''e'' t))"
proof -
  let ?S = demo_redis_store
  let ?h = "mk_header ''s'' ''w'' ''g'' ''t'' None ''k''"
  let ?r = "redis_save_header ?S (new_tree ?h) demo_empty"
  have l: "redis_load ?S (hdr_id ?h) ?r = Inr (Some (new_tree ?h))"
    by (rule redis_load_created [OF demo_setup demo_no_orphans])
       (simp add: redis_load_None_iff demo_redis_store_def demo_empty_def)
  then have l: "redis_load ?S ''s'' ?r = Inr (Some (new_tree ?h))" by (simp add: mk_header_def)
  have free: "rd_get (rs_redis ?S) (full_key (rs_lock_prefix ?S) (session_lock_key ''s'')) ?r = None"
    by (simp add: demo_redis_store_def demo_empty_def demo_server_def redis_save_header_def set_ex_def Let_def
        key_defs)
  have e: "entry_id demo_entry = ''e''" by (simp add: demo_entry_def)
  have c: "parse_entry (rs_codec ?S) (cd_dump_entry (rs_codec ?S) demo_entry) = Some demo_entry"
    by (simp add: parse_entry_def demo_redis_store_def demo_codec_def jget_def)
  obtain res r' where ap: "redis_append_entry ?S ''tok'' ''s'' demo_entry (entry_id demo_entry) ?r = (res, r')"
    by fastforce
  have "entry_id demo_entry \<noteq> []" by (simp add: e)
  from redis_append_roundtrip [OF demo_setup this c l ap] free l ap show ?thesis by (auto simp: e)
qed

end
