(* ===== verification/Tasks.thy ===== *)
theory Tasks
  imports PyPrelude
begin

section \<open>The task manager\<close>

text \<open>
  \<^verbatim>\<open>TaskManager\<close> of \<^verbatim>\<open>src/pyclaw/infra/task_manager.py\<close> and \<^verbatim>\<open>infra/task_inspection.py\<close>: a registry of
  the background tasks of the process.  The state of an asyncio task is part of its handle; it
  changes by the operations here and by the task's own end (\<open>task_ends\<close>).  Times are readings
  of the monotonic clock.
\<close>

datatype task_state = Running | Done | Cancelled | Failed

fun state_name :: "task_state \<Rightarrow> string" where
  "state_name Running = ''running''"
| "state_name Done = ''done''"
| "state_name Cancelled = ''cancelled''"
| "state_name Failed = ''failed''"

record task_handle =
  th_id :: string
  th_name :: string
  th_category :: string
  th_state :: task_state
  th_created :: rat
  th_exception :: "string option"
  th_owner :: "string option"

record task_manager =
  tm_tasks :: "(string \<times> task_handle) list"
  tm_closed :: bool
  tm_next :: nat
  tm_grace :: rat

definition tm_init :: "rat \<Rightarrow> task_manager" where
  "tm_init grace = \<lparr>tm_tasks = [], tm_closed = False, tm_next = 0, tm_grace = grace\<rparr>"

datatype tm_error = TaskManagerClosed string

definition PRUNE_AGE_S :: rat where
  "PRUNE_AGE_S = 300"

text \<open>The id \<^verbatim>\<open>f"t{n:06d}"\<close>.\<close>

definition zfill :: "nat \<Rightarrow> string \<Rightarrow> string" where
  "zfill n s = replicate (n - length s) (CHR ''0'') @ s"

definition task_id_of :: "nat \<Rightarrow> string" where
  "task_id_of n = CHR ''t'' # zfill 6 (show_nat n)"

definition get_state :: "string \<Rightarrow> task_manager \<Rightarrow> task_state option" where
  "get_state tid tm = map_option th_state (map_of (tm_tasks tm) tid)"

definition stale :: "rat \<Rightarrow> task_handle \<Rightarrow> bool" where
  "stale now h = (th_state h \<noteq> Running \<and> th_created h < now - PRUNE_AGE_S)"

definition maybe_prune :: "rat \<Rightarrow> task_manager \<Rightarrow> task_manager" where
  "maybe_prune now tm =
     (let to_remove = map fst (filter (\<lambda>(tid, h). stale now h) (tm_tasks tm))
      in tm\<lparr>tm_tasks := fold AList.delete to_remove (tm_tasks tm)\<rparr>)"

text \<open>The clock is read once for the pruning and once for the handle.\<close>

definition spawn ::
    "rat \<Rightarrow> rat \<Rightarrow> string \<Rightarrow> string \<Rightarrow> string option \<Rightarrow> task_manager \<Rightarrow> (tm_error + string) \<times> task_manager"
  where
  "spawn now now' name cat owner tm =
     (let tm = maybe_prune now tm
      in if tm_closed tm then (Inl (TaskManagerClosed name), tm)
         else (let tid = task_id_of (tm_next tm);
                   h = \<lparr>th_id = tid, th_name = name, th_category = cat, th_state = Running,
                        th_created = now', th_exception = None, th_owner = owner\<rparr>
               in (Inr tid, tm\<lparr>tm_next := tm_next tm + 1,
                                tm_tasks := AList.update tid h (tm_tasks tm)\<rparr>)))"

text \<open>
  How a task ends: it returns, is cancelled, or raises.  \<^verbatim>\<open>_wrap\<close> notes the exception in the
  handle, unless the handle is gone.
\<close>

datatype task_end = Returns | IsCancelled | Raises string

definition end_handle :: "task_end \<Rightarrow> task_handle \<Rightarrow> task_handle" where
  "end_handle ev h =
     (case ev of
        Returns \<Rightarrow> h\<lparr>th_state := Done\<rparr>
      | IsCancelled \<Rightarrow> h\<lparr>th_state := Cancelled\<rparr>
      | Raises msg \<Rightarrow> h\<lparr>th_state := Failed, th_exception := Some msg\<rparr>)"

definition task_ends :: "string \<Rightarrow> task_end \<Rightarrow> task_manager \<Rightarrow> task_manager" where
  "task_ends tid ev tm =
     (case map_of (tm_tasks tm) tid of
        None \<Rightarrow> tm
      | Some h \<Rightarrow> if th_state h = Running
                  then tm\<lparr>tm_tasks := AList.update tid (end_handle ev h) (tm_tasks tm)\<rparr> else tm)"

text \<open>\<^verbatim>\<open>cancel\<close>: how the task ends within the time limit is an argument; it may not end.\<close>

definition cancel_task :: "string \<Rightarrow> task_end option \<Rightarrow> task_manager \<Rightarrow> bool \<times> task_manager" where
  "cancel_task tid outcome tm =
     (case get_state tid tm of
        Some Running \<Rightarrow> (True, case outcome of None \<Rightarrow> tm | Some ev \<Rightarrow> task_ends tid ev tm)
      | _ \<Rightarrow> (False, tm))"

record task_info =
  ti_task_id :: string
  ti_name :: string
  ti_category :: string
  ti_state :: task_state
  ti_created :: rat
  ti_duration :: rat
  ti_exception :: "string option"
  ti_owner :: "string option"

definition listed :: "string option \<Rightarrow> bool \<Rightarrow> string option \<Rightarrow> task_handle \<Rightarrow> bool" where
  "listed cat include_done owner h =
     ((include_done \<or> th_state h = Running)
      \<and> (case cat of None \<Rightarrow> True | Some c \<Rightarrow> th_category h = c)
      \<and> (owner = None \<or> th_owner h = owner))"

definition list_tasks ::
    "rat \<Rightarrow> string option \<Rightarrow> bool \<Rightarrow> string option \<Rightarrow> task_manager \<Rightarrow> task_info list" where
  "list_tasks now cat include_done owner tm =
     map (\<lambda>h. \<lparr>ti_task_id = th_id h, ti_name = th_name h, ti_category = th_category h,
               ti_state = th_state h, ti_created = th_created h, ti_duration = now - th_created h,
               ti_exception = th_exception h, ti_owner = th_owner h\<rparr>)
       (filter (listed cat include_done owner) (map snd (tm_tasks tm)))"

record shutdown_report =
  sr_completed :: nat
  sr_cancelled :: nat
  sr_timed_out :: nat
  sr_failed :: nat

text \<open>
  \<^verbatim>\<open>shutdown\<close>: every running task is cancelled and waited for; \<open>outcome\<close> says how each ends
  within the grace period, if it does.
\<close>

definition count_state :: "task_state \<Rightarrow> task_handle list \<Rightarrow> nat" where
  "count_state st hs = length (filter (\<lambda>h. th_state h = st) hs)"

definition finish_handle :: "(string \<Rightarrow> task_end option) \<Rightarrow> task_handle \<Rightarrow> task_handle" where
  "finish_handle outcome h =
     (if th_state h = Running
      then (case outcome (th_id h) of None \<Rightarrow> h | Some ev \<Rightarrow> end_handle ev h) else h)"

definition tm_shutdown ::
    "(string \<Rightarrow> task_end option) \<Rightarrow> task_manager \<Rightarrow> shutdown_report \<times> task_manager" where
  "tm_shutdown outcome tm =
     (if tm_closed tm
      then (\<lparr>sr_completed = 0, sr_cancelled = 0, sr_timed_out = 0, sr_failed = 0\<rparr>, tm)
      else
        (let running = filter (\<lambda>h. th_state h = Running) (map snd (tm_tasks tm));
             hs = map (finish_handle outcome) running
         in (\<lparr>sr_completed = count_state Done hs, sr_cancelled = count_state Cancelled hs,
              sr_timed_out = count_state Running hs, sr_failed = count_state Failed hs\<rparr>,
             tm\<lparr>tm_closed := True,
                tm_tasks := map (\<lambda>(tid, h). (tid, finish_handle outcome h)) (tm_tasks tm)\<rparr>)))"

subsection \<open>Inspection\<close>

datatype inspection_error = NoTaskManager

definition list_for_owner ::
    "rat \<Rightarrow> task_manager option \<Rightarrow> string \<Rightarrow> inspection_error + task_info list" where
  "list_for_owner now tm owner =
     (case tm of None \<Rightarrow> Inl NoTaskManager | Some m \<Rightarrow> Inr (list_tasks now None False (Some owner) m))"

definition list_all_tasks ::
    "rat \<Rightarrow> task_manager option \<Rightarrow> bool \<Rightarrow> inspection_error + task_info list" where
  "list_all_tasks now tm include_done =
     (case tm of None \<Rightarrow> Inl NoTaskManager | Some m \<Rightarrow> Inr (list_tasks now None include_done None m))"

definition describe_task ::
    "rat \<Rightarrow> task_manager option \<Rightarrow> string \<Rightarrow> inspection_error + task_info option" where
  "describe_task now tm tid =
     (case tm of None \<Rightarrow> Inl NoTaskManager
      | Some m \<Rightarrow> Inr (find (\<lambda>i. ti_task_id i = tid) (list_tasks now None True None m)))"

subsection \<open>Task ids\<close>

definition dec_val :: "string \<Rightarrow> nat" where
  "dec_val s = foldl (\<lambda>a c. 10 * a + (of_char c - 48)) 0 s"

lemma of_char_digit: "d < 10 \<Longrightarrow> (of_char (char_of (48 + d) :: char) :: nat) = 48 + d"
  by (simp add: of_char_of)

lemma dec_val_show_nat: "dec_val (show_nat n) = n"
proof (induction n rule: show_nat.induct)
  case (1 n)
  show ?case
  proof (cases "n < 10")
    case True
    then show ?thesis
      by (simp add: show_nat.simps [of n] dec_val_def of_char_digit)
  next
    case False
    then have "dec_val (show_nat n) = 10 * dec_val (show_nat (n div 10)) + n mod 10"
      by (simp add: show_nat.simps [of n] dec_val_def of_char_digit)
    with 1 False show ?thesis by simp
  qed
qed

lemma dec_val_zeros: "dec_val (replicate k (CHR ''0'') @ s) = dec_val s"
  by (induction k) (simp_all add: dec_val_def)

lemma task_id_inject [simp]: "task_id_of m = task_id_of n \<longleftrightarrow> m = n"
proof
  assume "task_id_of m = task_id_of n"
  then have "dec_val (zfill 6 (show_nat m)) = dec_val (zfill 6 (show_nat n))"
    by (simp add: task_id_of_def)
  then show "m = n" by (simp add: zfill_def dec_val_zeros dec_val_show_nat)
qed simp

subsection \<open>The registry is consistent\<close>

text \<open>Every handle stands under its own id, and the ids are those drawn so far.\<close>

definition tm_ok :: "task_manager \<Rightarrow> bool" where
  "tm_ok tm \<longleftrightarrow>
     distinct (map fst (tm_tasks tm))
     \<and> (\<forall>(tid, h) \<in> set (tm_tasks tm). th_id h = tid \<and> (\<exists>n < tm_next tm. tid = task_id_of n))"

lemma tm_ok_init: "tm_ok (tm_init g)"
  by (simp add: tm_ok_def tm_init_def)

lemma fold_delete: "fold AList.delete ks d = filter (\<lambda>p. fst p \<notin> set ks) d"
proof (induction ks arbitrary: d)
  case (Cons k ks)
  have "filter (\<lambda>p. fst p \<notin> set ks) (filter (\<lambda>p. k \<noteq> fst p) d)
      = filter (\<lambda>p. fst p \<noteq> k \<and> fst p \<notin> set ks) d"
    by (auto intro: filter_cong)
  with Cons show ?case by (simp add: AList.delete_eq case_prod_unfold)
qed simp

lemma prune_tasks:
  "distinct (map fst (tm_tasks tm)) \<Longrightarrow>
   tm_tasks (maybe_prune now tm) = filter (\<lambda>p. \<not> stale now (snd p)) (tm_tasks tm)"
  by (auto simp: maybe_prune_def Let_def fold_delete case_prod_unfold image_iff
      intro!: filter_cong dest: eq_key_imp_eq_value)

lemma prune_sel [simp]:
  "tm_closed (maybe_prune now tm) = tm_closed tm" "tm_next (maybe_prune now tm) = tm_next tm"
  by (simp_all add: maybe_prune_def Let_def)

lemma map_of_filter_value:
  "distinct (map fst d) \<Longrightarrow>
   map_of (filter (\<lambda>p. P (snd p)) d) k = (case map_of d k of Some v \<Rightarrow> if P v then Some v else None | None \<Rightarrow> None)"
  by (induction d) (auto split: option.splits simp: map_of_eq_None_iff)

lemma tm_ok_prune: "tm_ok tm \<Longrightarrow> tm_ok (maybe_prune now tm)"
  by (auto simp: tm_ok_def prune_tasks distinct_map_filter)

lemma tm_ok_distinct: "tm_ok tm \<Longrightarrow> distinct (map fst (tm_tasks tm))"
  by (simp add: tm_ok_def)

lemma next_id_fresh: "tm_ok tm \<Longrightarrow> task_id_of (tm_next tm) \<notin> fst ` set (tm_tasks tm)"
  by (fastforce simp: tm_ok_def)


lemma tm_ok_spawn: "tm_ok tm \<Longrightarrow> tm_ok (snd (spawn now now' name cat owner tm))"
  using next_id_fresh [OF tm_ok_prune, of tm now] tm_ok_prune [of tm now]
  by (auto simp: spawn_def Let_def tm_ok_def dict_update_fresh less_Suc_eq)

lemma th_id_end_handle [simp]: "th_id (end_handle ev h) = th_id h"
  by (simp add: end_handle_def split: task_end.split)

lemma end_handle_not_running [simp]: "th_state (end_handle ev h) \<noteq> Running"
  by (simp add: end_handle_def split: task_end.split)

lemma th_id_finish [simp]: "th_id (finish_handle outcome h) = th_id h"
  by (simp add: finish_handle_def split: option.split)

lemma tm_ok_update:
  assumes "tm_ok tm" "map_of (tm_tasks tm) tid = Some h" "th_id h' = th_id h"
  shows "tm_ok (tm\<lparr>tm_tasks := AList.update tid h' (tm_tasks tm)\<rparr>)"
proof -
  have in_set: "(tid, h) \<in> set (tm_tasks tm)" by (rule map_of_SomeD [OF assms(2)])
  have sub: "set (AList.update tid h' (tm_tasks tm)) \<subseteq> insert (tid, h') (set (tm_tasks tm))"
    by (rule set_dict_update_subset)
  have d: "distinct (map fst (AList.update tid h' (tm_tasks tm)))"
    using assms(1) by (simp add: tm_ok_def distinct_update)
  have h: "th_id h' = tid \<and> (\<exists>n < tm_next tm. tid = task_id_of n)"
    using assms(1,3) in_set by (auto simp: tm_ok_def)
  have "th_id g = i \<and> (\<exists>n < tm_next tm. i = task_id_of n)"
    if "(i, g) \<in> set (AList.update tid h' (tm_tasks tm))" for i g
  proof -
    from that sub have "(i, g) = (tid, h') \<or> (i, g) \<in> set (tm_tasks tm)" by blast
    with h assms(1) show ?thesis unfolding tm_ok_def by blast
  qed
  with d show ?thesis unfolding tm_ok_def by auto
qed

lemma tm_ok_task_ends: "tm_ok tm \<Longrightarrow> tm_ok (task_ends tid ev tm)"
  by (auto simp: task_ends_def intro: tm_ok_update split: option.split)

lemma tm_ok_cancel: "tm_ok tm \<Longrightarrow> tm_ok (snd (cancel_task tid outcome tm))"
  by (auto simp: cancel_task_def intro: tm_ok_task_ends split: option.split task_state.split)

lemma tm_ok_shutdown: "tm_ok tm \<Longrightarrow> tm_ok (snd (tm_shutdown outcome tm))"
  by (auto simp: tm_shutdown_def tm_ok_def Let_def case_prod_unfold o_def)

lemma get_state_task_ends:
  "get_state i (task_ends tid ev tm)
     = (if i = tid \<and> get_state tid tm = Some Running
        then Some (th_state (end_handle ev (the (map_of (tm_tasks tm) tid)))) else get_state i tm)"
  by (auto simp: get_state_def task_ends_def split: option.splits)

lemma get_state_prune:
  "tm_ok tm \<Longrightarrow>
   get_state tid (maybe_prune now tm)
     = (case map_of (tm_tasks tm) tid of
          Some h \<Rightarrow> if stale now h then None else Some (th_state h) | None \<Rightarrow> None)"
  by (simp add: get_state_def prune_tasks tm_ok_distinct
      map_of_filter_value [where P = "\<lambda>h. \<not> stale now h"] split: option.split)

lemma spawn_running:
  assumes "tm_ok tm" "spawn now now' name cat owner tm = (Inr tid, tm')"
  shows "get_state tid tm = None" "get_state tid tm' = Some Running" "tm_ok tm'"
    "i \<noteq> tid \<Longrightarrow> get_state i tm' = Some Running \<longleftrightarrow> get_state i tm = Some Running"
proof -
  let ?tm = "maybe_prune now tm"
  have new: "tid = task_id_of (tm_next ?tm)" and tm': "tm' = snd (spawn now now' name cat owner tm)"
    using assms(2) by (auto simp: spawn_def Let_def split: if_splits)
  then show "get_state tid tm = None"
    using next_id_fresh [OF assms(1)] by (simp add: get_state_def map_of_eq_None_iff)
  show "get_state tid tm' = Some Running"
    using assms(2) by (auto simp: spawn_def Let_def get_state_def split: if_splits)
  show "tm_ok tm'" unfolding tm' by (rule tm_ok_spawn [OF assms(1)])
  assume "i \<noteq> tid"
  with assms(2) have "get_state i tm' = get_state i ?tm"
    by (auto simp: spawn_def Let_def get_state_def split: if_splits)
  then show "get_state i tm' = Some Running \<longleftrightarrow> get_state i tm = Some Running"
    using get_state_prune [OF assms(1), of i now]
    by (auto simp: get_state_def stale_def split: option.splits)
qed

text \<open>
  Spawning on an open manager gives an id no known task has, under which the task
  runs; of the other tasks it forgets exactly those that have ended and were created more than
  300 seconds ago, so a running task is never lost.
\<close>

theorem spawn_spec:
  assumes "tm_ok tm" "\<not> tm_closed tm"
  shows "\<exists>tid tm'. spawn now now' name cat owner tm = (Inr tid, tm')
     \<and> get_state tid tm = None \<and> get_state tid tm' = Some Running \<and> tm_ok tm'
     \<and> (\<forall>i. i \<noteq> tid \<longrightarrow> get_state i tm'
              = (case map_of (tm_tasks tm) i of
                   Some h \<Rightarrow> if stale now h then None else Some (th_state h) | None \<Rightarrow> None))"
proof -
  let ?tid = "task_id_of (tm_next tm)"
  let ?tm' = "snd (spawn now now' name cat owner tm)"
  have s: "spawn now now' name cat owner tm = (Inr ?tid, ?tm')"
    using assms(2) by (simp add: spawn_def Let_def)
  have fresh: "get_state ?tid tm = None"
    using next_id_fresh [OF assms(1)] by (simp add: get_state_def map_of_eq_None_iff)
  have new: "get_state ?tid ?tm' = Some Running"
    using assms(2) by (simp add: spawn_def Let_def get_state_def)
  have other: "get_state i ?tm' = get_state i (maybe_prune now tm)" if "i \<noteq> ?tid" for i
    using assms(2) that by (simp add: spawn_def Let_def get_state_def)
  have "\<forall>i. i \<noteq> ?tid \<longrightarrow> get_state i ?tm'
              = (case map_of (tm_tasks tm) i of
                   Some h \<Rightarrow> if stale now h then None else Some (th_state h) | None \<Rightarrow> None)"
    using get_state_prune [OF assms(1)] other by simp
  with s fresh new tm_ok_spawn [OF assms(1)] show ?thesis by blast
qed

theorem spawn_spec_witness:
  "\<exists>tm'. spawn 1000 1000 ''n'' ''generic'' None (tm_init 30) = (Inr ''t000000'', tm')
     \<and> get_state ''t000000'' tm' = Some Running"
proof -
  have "\<not> tm_closed (tm_init 30)" by (simp add: tm_init_def)
  from spawn_spec [OF tm_ok_init this, of 1000 1000 "''n''" "''generic''" None]
  obtain tid tm' where r: "spawn 1000 1000 ''n'' ''generic'' None (tm_init 30) = (Inr tid, tm')"
    "get_state tid tm' = Some Running" by blast
  moreover have "task_id_of 0 = ''t000000''" by code_simp
  with r(1) have "tid = ''t000000''"
    by (simp add: spawn_def tm_init_def maybe_prune_def Let_def)
  ultimately show ?thesis by blast
qed

lemma count_states:
  "count_state Done hs + count_state Cancelled hs + count_state Running hs + count_state Failed hs
     = length hs"
proof (induction hs)
  case (Cons h hs)
  then show ?case by (cases "th_state h") (simp_all add: count_state_def)
qed (simp add: count_state_def)

lemma map_of_map_value: "map_of (map (\<lambda>(k, v). (k, f v)) d) k = map_option f (map_of d k)"
  by (induction d) auto

text \<open>
  A shutdown counts every task that was running once: as completed, cancelled,
  timed out or failed; afterwards the manager is closed, exactly the timed out tasks still run,
  no task can be spawned, and a second shutdown reports nothing and changes nothing.
\<close>

theorem shutdown_accounts_for_all:
  assumes "tm_ok tm" "\<not> tm_closed tm" "tm_shutdown outcome tm = (rep, tm')"
  shows "sr_completed rep + sr_cancelled rep + sr_timed_out rep + sr_failed rep
           = length (filter (\<lambda>h. th_state h = Running) (map snd (tm_tasks tm)))
     \<and> tm_closed tm'
     \<and> (\<forall>tid. get_state tid tm' = Some Running
              \<longleftrightarrow> get_state tid tm = Some Running \<and> outcome tid = None)
     \<and> (\<exists>tm''. spawn now now' name cat owner tm' = (Inl (TaskManagerClosed name), tm''))
     \<and> tm_shutdown outcome' tm'
         = (\<lparr>sr_completed = 0, sr_cancelled = 0, sr_timed_out = 0, sr_failed = 0\<rparr>, tm')"
proof -
  let ?running = "filter (\<lambda>h. th_state h = Running) (map snd (tm_tasks tm))"
  let ?hs = "map (finish_handle outcome) ?running"
  from assms have rep: "sr_completed rep = count_state Done ?hs" "sr_cancelled rep = count_state Cancelled ?hs"
    "sr_timed_out rep = count_state Running ?hs" "sr_failed rep = count_state Failed ?hs"
    and tm': "tm' = tm\<lparr>tm_closed := True,
                tm_tasks := map (\<lambda>(tid, h). (tid, finish_handle outcome h)) (tm_tasks tm)\<rparr>"
    by (auto simp: tm_shutdown_def Let_def)
  have "sr_completed rep + sr_cancelled rep + sr_timed_out rep + sr_failed rep = length ?running"
    unfolding rep count_states by simp
  moreover have "get_state tid tm' = Some Running
       \<longleftrightarrow> get_state tid tm = Some Running \<and> outcome tid = None" for tid
  proof (cases "map_of (tm_tasks tm) tid")
    case (Some h)
    then have "th_id h = tid"
      using assms(1) map_of_SomeD [OF Some] by (auto simp: tm_ok_def)
    with Some show ?thesis
      by (auto simp: tm' get_state_def map_of_map_value finish_handle_def split: option.splits)
  qed (simp add: tm' get_state_def map_of_map_value)
  moreover have "tm_closed tm'" by (simp add: tm')
  ultimately show ?thesis
    by (simp add: spawn_def Let_def tm_shutdown_def)
qed

definition demo_manager :: task_manager where
  "demo_manager = snd (spawn 1 1 ''n'' ''generic'' None (tm_init 30))"

theorem shutdown_accounts_for_all_witness:
  "\<exists>rep tm'. tm_shutdown (\<lambda>_. Some IsCancelled) demo_manager = (rep, tm')
     \<and> sr_completed rep + sr_cancelled rep + sr_timed_out rep + sr_failed rep = 1 \<and> tm_closed tm'"
proof -
  have ok: "tm_ok demo_manager"
    unfolding demo_manager_def by (intro tm_ok_spawn tm_ok_init)
  have nc: "\<not> tm_closed demo_manager"
    by (simp add: demo_manager_def spawn_def tm_init_def Let_def)
  have len: "length (filter (\<lambda>h. th_state h = Running) (map snd (tm_tasks demo_manager))) = 1"
    by (simp add: demo_manager_def spawn_def tm_init_def Let_def maybe_prune_def)
  obtain rep tm' where r: "tm_shutdown (\<lambda>_. Some IsCancelled) demo_manager = (rep, tm')" by fastforce
  from shutdown_accounts_for_all [OF ok nc r] len r show ?thesis by auto
qed

text \<open>What \<^verbatim>\<open>describe\<close> finds is the task asked for, and it finds every known task.\<close>

lemma describe_finds:
  assumes "tm_ok tm"
  shows "\<exists>i. describe_task now (Some tm) tid = Inr i
     \<and> map_option ti_state i = get_state tid tm \<and> (\<forall>x. i = Some x \<longrightarrow> ti_task_id x = tid)"
proof -
  have "map_option ti_state (find (\<lambda>i. ti_task_id i = tid) (list_tasks now None True None tm))
      = map_option th_state (map_of d tid)"
    if "d = tm_tasks tm" for d
  proof -
    have "\<forall>p \<in> set d. th_id (snd p) = fst p" using assms that by (auto simp: tm_ok_def)
    then show ?thesis unfolding list_tasks_def that [symmetric]
      by (induction d) (auto simp: listed_def)
  qed
  then show ?thesis
    by (auto simp: describe_task_def get_state_def find_Some_iff)
qed

end
