(* ===== verification/Mutex.thy ===== *)
theory Mutex
  imports Lock Tasks
begin

section \<open>The distributed mutex with its heartbeat\<close>

text \<open>
  \<^verbatim>\<open>DistributedMutex\<close> of \<^verbatim>\<open>src/pyclaw/storage/lock/mutex.py\<close>: it takes the lock of theory \<open>Lock\<close>,
  spawns a heartbeat in the task manager of theory \<open>Tasks\<close> that renews the lock, and tells its
  user between two pieces of work whether the lock may have been lost.  Whether Redis can be
  reached and how a cancelled heartbeat ends are arguments.
\<close>

record mutex =
  mx_key :: string
  mx_ttl :: int
  mx_interval :: rat
  mx_token :: "string option"
  mx_event :: "bool option"
  mx_task :: "string option"

datatype mutex_error =
    TtlNotPositive int
  | IntervalNotPositive rat
  | IntervalTooLong rat
  | AcquireFailed lock_error
  | SpawnFailed tm_error
  | LockLost string

definition new_mutex :: "string \<Rightarrow> int \<Rightarrow> rat \<Rightarrow> mutex_error + mutex" where
  "new_mutex key ttl interval =
     (if ttl \<le> 0 then Inl (TtlNotPositive ttl)
      else if interval \<le> 0 then Inl (IntervalNotPositive interval)
      else if of_int ttl / 2 \<le> interval * 1000 then Inl (IntervalTooLong interval)
      else Inr \<lparr>mx_key = key, mx_ttl = ttl, mx_interval = interval, mx_token = None,
                mx_event = None, mx_task = None\<rparr>)"

text \<open>A missing handle counts as a heartbeat that has ended.\<close>

definition heartbeat_finished :: "mutex \<Rightarrow> task_manager \<Rightarrow> bool" where
  "heartbeat_finished mx tm =
     (case mx_task mx of
        None \<Rightarrow> False
      | Some tid \<Rightarrow> (case get_state tid tm of None \<Rightarrow> True | Some st \<Rightarrow> st \<noteq> Running))"

definition mutex_lost :: "mutex \<Rightarrow> task_manager \<Rightarrow> bool" where
  "mutex_lost mx tm =
     (case mx_event mx of
        None \<Rightarrow> False
      | Some b \<Rightarrow> b \<or> heartbeat_finished mx tm)"

definition check_alive :: "mutex \<Rightarrow> task_manager \<Rightarrow> mutex_error + unit" where
  "check_alive mx tm = (if mutex_lost mx tm then Inl (LockLost (mx_key mx)) else Inr ())"

text \<open>
  \<^verbatim>\<open>__aenter__\<close>.  When the task manager is closed the exception of \<^verbatim>\<open>spawn\<close> leaves the lock taken,
  since \<^verbatim>\<open>__aexit__\<close> is not called for a context that was not entered.
\<close>

definition mutex_enter ::
    "'r redis \<Rightarrow> string \<Rightarrow> string \<Rightarrow> rat \<Rightarrow> rat \<Rightarrow> mutex \<times> 'r \<times> task_manager
       \<Rightarrow> (mutex_error + unit) \<times> mutex \<times> 'r \<times> task_manager" where
  "mutex_enter R pre token now now' st =
     (let (mx, r, tm) = st;
          (acq, r') = lock_acquire R pre token (mx_key mx) (mx_ttl mx) r
      in case acq of
           Inl e \<Rightarrow> (Inl (AcquireFailed e), mx, r', tm)
         | Inr tok \<Rightarrow>
             (let mx1 = mx\<lparr>mx_token := Some tok, mx_event := Some False\<rparr>;
                  (sp, tm') = spawn now now' (''mutex-heartbeat:'' @ mx_key mx) ''heartbeat'' None tm
              in case sp of
                   Inl e \<Rightarrow> (Inl (SpawnFailed e), mx1, r', tm')
                 | Inr tid \<Rightarrow> (Inr (), mx1\<lparr>mx_task := Some tid\<rparr>, r', tm')))"

text \<open>One renewal of the heartbeat, and what it does with the reply.\<close>

datatype renew_reply = Renewed bool | NetworkError

definition heartbeat_renew ::
    "'r redis \<Rightarrow> string \<Rightarrow> bool \<Rightarrow> mutex \<Rightarrow> 'r \<Rightarrow> renew_reply \<times> 'r" where
  "heartbeat_renew R pre reachable mx r =
     (if \<not> reachable then (NetworkError, r)
      else let (ok, r') = lock_renew R pre (mx_key mx) (the (mx_token mx)) (mx_ttl mx) r
           in (Renewed ok, r'))"

definition lock_lost_text :: "string \<Rightarrow> string" where
  "lock_lost_text key = ''LockLostError: lock lost: '' @ py_repr key"

definition heartbeat_react :: "renew_reply \<Rightarrow> mutex \<times> task_manager \<Rightarrow> mutex \<times> task_manager" where
  "heartbeat_react reply st =
     (let (mx, tm) = st
      in if reply = Renewed True then (mx, tm)
         else (mx\<lparr>mx_event := Some True\<rparr>,
               task_ends (the (mx_task mx)) (Raises (lock_lost_text (mx_key mx))) tm))"

text \<open>\<^verbatim>\<open>__aexit__\<close>; exceptions of the cancellation and of the release are only logged.\<close>

definition mutex_exit ::
    "'r redis \<Rightarrow> string \<Rightarrow> task_end option \<Rightarrow> bool \<Rightarrow> mutex \<times> 'r \<times> task_manager
       \<Rightarrow> mutex \<times> 'r \<times> task_manager" where
  "mutex_exit R pre outcome reachable st =
     (let (mx, r, tm) = st;
          tm' = (case mx_task mx of None \<Rightarrow> tm | Some tid \<Rightarrow> snd (cancel_task tid outcome tm));
          r' = (case mx_token mx of
                  None \<Rightarrow> r
                | Some tok \<Rightarrow> if reachable then snd (lock_release R pre (mx_key mx) tok r) else r)
      in (mx, r', tm'))"

subsection \<open>What happens while the mutex is held\<close>

datatype mutex_event =
    Renewal renew_reply
  | TaskEnds string task_end
  | TaskSpawned rat rat string string "string option"

definition heartbeat_runs :: "mutex \<Rightarrow> task_manager \<Rightarrow> bool" where
  "heartbeat_runs mx tm =
     (case mx_task mx of None \<Rightarrow> False | Some tid \<Rightarrow> get_state tid tm = Some Running)"

text \<open>A renewal only happens while the heartbeat runs.\<close>

fun mutex_event_step :: "mutex_event \<Rightarrow> mutex \<times> task_manager \<Rightarrow> mutex \<times> task_manager" where
  "mutex_event_step (Renewal reply) (mx, tm) =
     (if heartbeat_runs mx tm then heartbeat_react reply (mx, tm) else (mx, tm))"
| "mutex_event_step (TaskEnds tid ev) (mx, tm) = (mx, task_ends tid ev tm)"
| "mutex_event_step (TaskSpawned now now' name cat owner) (mx, tm) =
     (mx, snd (spawn now now' name cat owner tm))"

definition ends_heartbeat :: "string \<Rightarrow> mutex_event \<Rightarrow> bool" where
  "ends_heartbeat hb ev =
     (case ev of
        Renewal reply \<Rightarrow> reply \<noteq> Renewed True
      | TaskEnds tid _ \<Rightarrow> tid = hb
      | TaskSpawned _ _ _ _ _ \<Rightarrow> False)"

lemma ended_stays_ended:
  "get_state i tm \<noteq> Some Running \<Longrightarrow> get_state i (task_ends tid ev tm) \<noteq> Some Running"
  by (auto simp: get_state_task_ends)

lemma ended_task:
  "get_state tid (task_ends tid ev tm) \<noteq> Some Running"
  by (auto simp: get_state_task_ends)

lemma get_state_spawn:
  assumes "tm_ok tm" "i \<noteq> task_id_of (tm_next tm)"
  shows "get_state i (snd (spawn now now' name cat owner tm)) = get_state i (maybe_prune now tm)"
  using assms(2) by (simp add: spawn_def Let_def get_state_def)

lemma prune_keeps_running:
  "tm_ok tm \<Longrightarrow> get_state i (maybe_prune now tm) = Some Running \<longleftrightarrow> get_state i tm = Some Running"
  unfolding get_state_prune by (auto simp: get_state_def stale_def split: option.splits)

text \<open>The ids of known tasks are drawn already; an id stays drawn.\<close>

definition drawn_id :: "string \<Rightarrow> task_manager \<Rightarrow> bool" where
  "drawn_id i tm \<longleftrightarrow> (\<exists>n < tm_next tm. i = task_id_of n)"

lemma spawn_running_iff:
  assumes "tm_ok tm" "drawn_id i tm"
  shows "get_state i (snd (spawn now now' name cat owner tm)) = Some Running
           \<longleftrightarrow> get_state i tm = Some Running"
    "drawn_id i (snd (spawn now now' name cat owner tm))"
proof -
  from assms(2) have "i \<noteq> task_id_of (tm_next tm)" by (auto simp: drawn_id_def)
  then show "get_state i (snd (spawn now now' name cat owner tm)) = Some Running
      \<longleftrightarrow> get_state i tm = Some Running"
    using assms(1) by (simp add: get_state_spawn prune_keeps_running)
  from assms(2) show "drawn_id i (snd (spawn now now' name cat owner tm))"
    by (auto simp: drawn_id_def spawn_def Let_def intro: less_SucI)
qed

lemma drawn_task_ends [simp]: "drawn_id i (task_ends tid ev tm) = drawn_id i tm"
  by (auto simp: drawn_id_def task_ends_def split: option.split)

definition mutex_ok :: "string \<Rightarrow> mutex \<times> task_manager \<Rightarrow> bool" where
  "mutex_ok hb st \<longleftrightarrow>
     tm_ok (snd st) \<and> mx_task (fst st) = Some hb \<and> drawn_id hb (snd st) \<and> mx_event (fst st) \<noteq> None
     \<and> (mx_event (fst st) = Some True \<longrightarrow> get_state hb (snd st) \<noteq> Some Running)"

lemma lost_iff: "mutex_ok hb (mx, tm) \<Longrightarrow> mutex_lost mx tm \<longleftrightarrow> get_state hb tm \<noteq> Some Running"
  by (auto simp: mutex_ok_def mutex_lost_def heartbeat_finished_def split: option.splits)

lemma mutex_event_step_ok:
  assumes "mutex_ok hb st"
  shows "mutex_ok hb (mutex_event_step ev st)"
    "get_state hb (snd (mutex_event_step ev st)) = Some Running
       \<longleftrightarrow> get_state hb (snd st) = Some Running \<and> \<not> ends_heartbeat hb ev"
proof -
  obtain mx tm where st: "st = (mx, tm)" by fastforce
  have "mutex_ok hb (mutex_event_step ev st)
      \<and> (get_state hb (snd (mutex_event_step ev st)) = Some Running
         \<longleftrightarrow> get_state hb (snd st) = Some Running \<and> \<not> ends_heartbeat hb ev)"
  proof (cases ev)
    case (Renewal reply)
    then show ?thesis using assms ended_task [of hb _ tm]
      by (auto simp: st mutex_ok_def heartbeat_runs_def heartbeat_react_def ends_heartbeat_def
          tm_ok_task_ends)
  next
    case (TaskEnds tid e)
    then show ?thesis using assms ended_task [of tid e tm]
      by (auto simp: st mutex_ok_def ends_heartbeat_def tm_ok_task_ends get_state_task_ends)
  next
    case (TaskSpawned now now' name cat owner)
    then show ?thesis using assms
      by (auto simp: st mutex_ok_def ends_heartbeat_def tm_ok_spawn spawn_running_iff)
  qed
  then show "mutex_ok hb (mutex_event_step ev st)"
    "get_state hb (snd (mutex_event_step ev st)) = Some Running
       \<longleftrightarrow> get_state hb (snd st) = Some Running \<and> \<not> ends_heartbeat hb ev"
    by blast+
qed

lemma mutex_events_ok:
  assumes "mutex_ok hb st"
  shows "mutex_ok hb (fold mutex_event_step evs st)
     \<and> (get_state hb (snd (fold mutex_event_step evs st)) = Some Running
         \<longleftrightarrow> get_state hb (snd st) = Some Running \<and> (\<forall>ev \<in> set evs. \<not> ends_heartbeat hb ev))"
  using assms
proof (induction evs arbitrary: st)
  case (Cons ev evs)
  from Cons.IH [OF mutex_event_step_ok(1) [OF Cons.prems]] mutex_event_step_ok(2) [OF Cons.prems]
  show ?case by auto
qed simp

lemma enter_ok:
  assumes "tm_ok tm" "mutex_enter R pre token now now' (mx, r, tm) = (Inr (), mx', r', tm')"
  shows "\<exists>hb. mx_task mx' = Some hb \<and> mutex_ok hb (mx', tm') \<and> get_state hb tm' = Some Running
     \<and> mx_token mx' = Some token \<and> mx_key mx' = mx_key mx"
proof -
  let ?sp = "spawn now now' (''mutex-heartbeat:'' @ mx_key mx) ''heartbeat'' None tm"
  from assms(2) obtain tok tid where acq: "fst (lock_acquire R pre token (mx_key mx) (mx_ttl mx) r) = Inr tok"
    and sp: "?sp = (Inr tid, tm')"
    and mx': "mx' = mx\<lparr>mx_token := Some tok, mx_event := Some False, mx_task := Some tid\<rparr>"
    by (auto simp: mutex_enter_def Let_def split: prod.splits sum.splits)
  from acq have "tok = token"
    by (auto simp: lock_acquire_def Let_def split: prod.splits if_splits)
  moreover from sp have tid: "tid = task_id_of (tm_next tm)" and run: "get_state tid tm' = Some Running"
    and drawn: "drawn_id tid tm'"
    by (auto simp: spawn_def Let_def get_state_def drawn_id_def split: if_splits)
  moreover have "tm_ok tm'" using tm_ok_spawn [OF assms(1)] sp by (metis snd_conv)
  ultimately show ?thesis by (simp add: mx' mutex_ok_def)
qed

text \<open>
  Property C10.  The mutex fails closed.  After it has been entered, whatever sequence of renewals,
  ends of tasks and new tasks (which prune old handles) follows, \<^verbatim>\<open>check_alive\<close> raises exactly
  when a renewal failed (the token was not there any more, or Redis could not be reached) or the
  heartbeat ended in another way.  In particular a lost mutex stays lost, also when the handle
  of its heartbeat is forgotten.
\<close>

theorem mutex_fails_closed:
  assumes "tm_ok tm" "mutex_enter R pre token now now' (mx, r, tm) = (Inr (), mx1, r1, tm1)"
    and "fold mutex_event_step evs (mx1, tm1) = (mx2, tm2)"
  shows "check_alive mx2 tm2 = Inl (LockLost (mx_key mx2))
     \<longleftrightarrow> (\<exists>ev \<in> set evs. ends_heartbeat (the (mx_task mx1)) ev)"
proof -
  from enter_ok [OF assms(1,2)] obtain hb where
    hb: "mx_task mx1 = Some hb" "mutex_ok hb (mx1, tm1)" "get_state hb tm1 = Some Running" by blast
  from mutex_events_ok [OF hb(2), of evs] assms(3) hb(3)
  have "mutex_ok hb (mx2, tm2)"
    "get_state hb tm2 = Some Running \<longleftrightarrow> (\<forall>ev \<in> set evs. \<not> ends_heartbeat hb ev)" by auto
  with hb(1) show ?thesis by (auto simp: check_alive_def lost_iff)
qed

definition demo_mutex :: mutex where
  "demo_mutex = \<lparr>mx_key = ''k'', mx_ttl = 30000, mx_interval = 10, mx_token = None, mx_event = None,
                 mx_task = None\<rparr>"

lemma demo_enter:
  "\<exists>mx1 r1 tm1. mutex_enter demo_server ''p:'' ''t'' 0 0 (demo_mutex, demo_empty, tm_init 30)
     = (Inr (), mx1, r1, tm1) \<and> mx_key mx1 = ''k''"
  by (simp add: mutex_enter_def lock_acquire_def demo_server_def demo_empty_def demo_mutex_def Let_def
      spawn_def tm_init_def maybe_prune_def)

theorem mutex_fails_closed_witness:
  "\<exists>mx1 r1 tm1 mx2 tm2. mutex_enter demo_server ''p:'' ''t'' 0 0 (demo_mutex, demo_empty, tm_init 30)
       = (Inr (), mx1, r1, tm1)
     \<and> fold mutex_event_step [Renewal NetworkError, TaskSpawned 900 900 ''x'' ''generic'' None] (mx1, tm1)
       = (mx2, tm2)
     \<and> check_alive mx2 tm2 = Inl (LockLost (mx_key mx2))"
proof -
  let ?evs = "[Renewal NetworkError, TaskSpawned 900 900 ''x'' ''generic'' None]"
  obtain mx1 r1 tm1 where e: "mutex_enter demo_server ''p:'' ''t'' 0 0 (demo_mutex, demo_empty, tm_init 30)
      = (Inr (), mx1, r1, tm1)" using demo_enter by blast
  obtain mx2 tm2 where f: "fold mutex_event_step ?evs (mx1, tm1) = (mx2, tm2)" by fastforce
  have "\<exists>ev \<in> set ?evs. ends_heartbeat (the (mx_task mx1)) ev" by (simp add: ends_heartbeat_def)
  with mutex_fails_closed [OF tm_ok_init e f] e f show ?thesis by blast
qed

text \<open>
  After an orderly exit (the heartbeat was running, is cancelled and ends) the lock
  is free again, but the mutex counts as lost: \<^verbatim>\<open>check_alive\<close> raises.
\<close>

theorem lost_after_clean_exit:
  assumes "redis_expiry_ok R" "0 < mx_ttl mx" "tm_ok tm"
    and "mutex_enter R pre token now now' (mx, r, tm) = (Inr (), mx1, r1, tm1)"
    and "mutex_exit R pre (Some IsCancelled) True (mx1, r1, tm1) = (mx2, r2, tm2)"
  shows "rd_get R (full_key pre (mx_key mx)) r2 = None
     \<and> check_alive mx2 tm2 = Inl (LockLost (mx_key mx))"
proof -
  from enter_ok [OF assms(3,4)] obtain hb where
    hb: "mx_task mx1 = Some hb" "mutex_ok hb (mx1, tm1)" "get_state hb tm1 = Some Running"
      "mx_token mx1 = Some token" "mx_key mx1 = mx_key mx" by blast
  from assms(5) hb have mx2: "mx2 = mx1" and tm2: "tm2 = task_ends hb IsCancelled tm1"
    and r2: "r2 = snd (lock_release R pre (mx_key mx) token r1)"
    by (auto simp: mutex_exit_def cancel_task_def Let_def)
  have "mutex_ok hb (mx1, tm2)" "get_state hb tm2 \<noteq> Some Running"
    using mutex_event_step_ok [OF hb(2), of "TaskEnds hb IsCancelled"] tm2
    by (simp_all add: ends_heartbeat_def)
  then have "check_alive mx2 tm2 = Inl (LockLost (mx_key mx))"
    by (simp add: check_alive_def lost_iff mx2 hb(5))
  moreover obtain res where "lock_acquire R pre token (mx_key mx) (mx_ttl mx) r = (res, r1)" "res \<noteq> Inl e" for e
    using assms(4)
    by (cases "lock_acquire R pre token (mx_key mx) (mx_ttl mx) r")
       (auto simp: mutex_enter_def Let_def split: sum.splits prod.splits)
  then have "rd_get R (full_key pre (mx_key mx)) r1 = Some token"
    using acquire_cases [OF assms(1,2)] by blast
  then have "rd_get R (full_key pre (mx_key mx)) r2 = None"
    by (simp add: r2 lock_release_def release_script_def redis_lock_del [OF assms(1)])
  ultimately show ?thesis by blast
qed

theorem lost_after_clean_exit_witness:
  "\<exists>mx1 r1 tm1 mx2 r2 tm2.
     mutex_enter demo_server ''p:'' ''t'' 0 0 (demo_mutex, demo_empty, tm_init 30) = (Inr (), mx1, r1, tm1)
     \<and> mutex_exit demo_server ''p:'' (Some IsCancelled) True (mx1, r1, tm1) = (mx2, r2, tm2)
     \<and> check_alive mx2 tm2 = Inl (LockLost ''k'')"
proof -
  obtain mx1 r1 tm1 where e: "mutex_enter demo_server ''p:'' ''t'' 0 0 (demo_mutex, demo_empty, tm_init 30)
      = (Inr (), mx1, r1, tm1)" using demo_enter by blast
  obtain mx2 r2 tm2 where x: "mutex_exit demo_server ''p:'' (Some IsCancelled) True (mx1, r1, tm1)
      = (mx2, r2, tm2)" by (metis prod_cases3)
  have "0 < mx_ttl demo_mutex" "mx_key demo_mutex = ''k''" by (simp_all add: demo_mutex_def)
  with lost_after_clean_exit [OF demo_expiry_ok _ tm_ok_init e x] e x show ?thesis by force
qed

text \<open>
  The constructor only accepts settings under which a renewal comes before half of the time to
  live is over.
\<close>

lemma new_mutex_spec:
  "new_mutex key ttl interval = Inr mx \<Longrightarrow>
     0 < mx_ttl mx \<and> 0 < mx_interval mx \<and> 2 * (1000 * mx_interval mx) < of_int (mx_ttl mx)
     \<and> mx_key mx = key \<and> \<not> mutex_lost mx tm"
  by (auto simp: new_mutex_def mutex_lost_def split: if_splits)

end
