(* ===== verification/Sandbox.thy ===== *)
theory Sandbox
  imports PyPrelude
begin

section \<open>The sandbox: environments, settings, policies\<close>

text \<open>
  \<^verbatim>\<open>src/pyclaw/sandbox/\<close>: which variables of the environment a child process sees
  (\<^verbatim>\<open>env_strip.py\<close>), the settings file written for the external \<^verbatim>\<open>srt\<close> program and the commands
  that run under it (\<^verbatim>\<open>srt.py\<close>, \<^verbatim>\<open>no_sandbox.py\<close>), and the choice of the policy when the program
  starts (\<^verbatim>\<open>state.py\<close>).  Where \<^verbatim>\<open>srt\<close> is found, its version and the names of the temporary files
  are arguments.
\<close>

subsection \<open>The environment of a child process\<close>

type_synonym env = "(string \<times> string) list"

definition DEFAULT_ALLOWLIST :: "string list" where
  "DEFAULT_ALLOWLIST = [''PATH'', ''HOME'', ''LANG'', ''TERM'']"

definition HARDCODED_DENY_PREFIXES :: "string list" where
  "HARDCODED_DENY_PREFIXES = [''ANTHROPIC_'', ''PYCLAW_'', ''LITELLM_'']"

definition HARDCODED_DENY_NAMES :: "string list" where
  "HARDCODED_DENY_NAMES =
     [''ANTHROPIC_API_KEY'', ''PYCLAW_SECRET'', ''PYCLAW_LLM_API_KEY'', ''AWS_ACCESS_KEY_ID'',
      ''AWS_SECRET_ACCESS_KEY'', ''AWS_SESSION_TOKEN'', ''OPENAI_API_KEY'', ''LITELLM_PROXY'',
      ''LITELLM_LOG'', ''SSH_AUTH_SOCK'', ''SSH_AGENT_PID'', ''GITHUB_TOKEN'', ''GH_TOKEN'',
      ''KUBECONFIG'', ''KUBE_TOKEN'', ''LD_PRELOAD'', ''LD_LIBRARY_PATH'', ''LD_AUDIT'',
      ''DYLD_INSERT_LIBRARIES'', ''DYLD_LIBRARY_PATH'', ''DYLD_FALLBACK_LIBRARY_PATH'']"

definition GLOB_DENY_PREFIX_REJECTIONS :: "string list" where
  "GLOB_DENY_PREFIX_REJECTIONS =
     [''ANTHROPIC_'', ''PYCLAW_'', ''AWS_'', ''OPENAI_'', ''LITELLM_'', ''SSH_'', ''KUBE_'', ''GH_'',
      ''GITHUB_'']"

definition is_hardcoded_deny :: "string \<Rightarrow> bool" where
  "is_hardcoded_deny name =
     (if name \<in> set HARDCODED_DENY_NAMES then True
      else (\<exists>pfx \<in> set HARDCODED_DENY_PREFIXES. starts_with pfx name))"

datatype allowlist_error =
    NotAString json
  | GlobMatchesDenyPrefix string string
  | GlobNotSupported string

fun validate_env_allowlist :: "json list \<Rightarrow> allowlist_error option" where
  "validate_env_allowlist [] = None"
| "validate_env_allowlist (x # xs) =
     (case x of
        JStr entry \<Rightarrow>
          if entry = ''*'' then validate_env_allowlist xs
          else if CHR ''*'' \<in> set entry \<or> CHR ''?'' \<in> set entry
          then (case find (\<lambda>pfx. starts_with pfx entry) GLOB_DENY_PREFIX_REJECTIONS of
                  Some pfx \<Rightarrow> Some (GlobMatchesDenyPrefix entry pfx)
                | None \<Rightarrow> Some (GlobNotSupported entry))
          else validate_env_allowlist xs
      | _ \<Rightarrow> Some (NotAString x))"

definition copy_allowed :: "env \<Rightarrow> string \<Rightarrow> env \<Rightarrow> env" where
  "copy_allowed source name env =
     (case map_of source name of
        Some v \<Rightarrow> if is_hardcoded_deny name then env else AList.update name v env
      | None \<Rightarrow> env)"

definition build_clean_env :: "string list \<Rightarrow> env \<Rightarrow> env" where
  "build_clean_env allowlist source =
     (let base = fold (copy_allowed source) DEFAULT_ALLOWLIST []
      in if ''*'' \<in> set allowlist
         then fold (\<lambda>(name, v) env. if is_hardcoded_deny name then env else AList.update name v env)
                source base
         else fold (copy_allowed source) allowlist base)"

subsection \<open>The settings file of srt\<close>

text \<open>
  Overrides come from JSON.  Iterating over a JSON value goes over the items of a list, the
  characters of a string and the keys of an object; anything else is a \<^verbatim>\<open>TypeError\<close>, and
  \<^verbatim>\<open>.get\<close> on something that is no object an \<^verbatim>\<open>AttributeError\<close>.
\<close>

datatype settings_error = NotIterable json | NoAttributeGet json

fun iterate_json :: "json \<Rightarrow> settings_error + json list" where
  "iterate_json (JList xs) = Inr xs"
| "iterate_json (JStr s) = Inr (map (\<lambda>c. JStr [c]) s)"
| "iterate_json (JObj d) = Inr (map (JStr \<circ> fst) d)"
| "iterate_json j = Inl (NotIterable j)"

text \<open>Python's \<^verbatim>\<open>==\<close>, by which numbers and truth values are compared as numbers.\<close>

fun json_number :: "json \<Rightarrow> rat option" where
  "json_number (JBool b) = Some (if b then 1 else 0)"
| "json_number (JInt i) = Some (of_int i)"
| "json_number (JFloat q) = Some q"
| "json_number _ = None"

definition py_eq :: "json \<Rightarrow> json \<Rightarrow> bool" where
  "py_eq a b = (case (json_number a, json_number b) of
      (Some x, Some y) \<Rightarrow> x = y | (None, None) \<Rightarrow> a = b | _ \<Rightarrow> False)"

definition add_new :: "json \<Rightarrow> json list \<Rightarrow> json list" where
  "add_new entry xs = (if \<exists>y \<in> set xs. py_eq entry y then xs else xs @ [entry])"

definition add_domain :: "json \<Rightarrow> json list \<Rightarrow> json list" where
  "add_domain entry xs = (if entry = JStr ''*'' then xs else add_new entry xs)"

record srt_settings =
  st_allow_write :: "json list"
  st_deny_read :: "json list"
  st_deny_write :: "json list"
  st_allowed_domains :: "json list"
  st_denied_domains :: "json list"
  st_env :: "json list"

record sandbox_settings =
  ss_policy :: string
  ss_require :: bool
  ss_allow_write :: "string list"
  ss_deny_read :: "string list"
  ss_deny_write :: "string list"
  ss_allowed_domains :: "string list"
  ss_denied_domains :: "string list"
  ss_env_allowlist :: "string list"

text \<open>\<^verbatim>\<open>for entry in d.get(key, []): ...\<close> with \<open>add\<close> as its body.\<close>

definition extend_with ::
    "(json \<Rightarrow> json list \<Rightarrow> json list) \<Rightarrow> string \<Rightarrow> jobj \<Rightarrow> json list \<Rightarrow> settings_error + json list" where
  "extend_with add key d xs =
     (case iterate_json (jget_or (JList []) key d) of
        Inl e \<Rightarrow> Inl e
      | Inr es \<Rightarrow> Inr (fold add es xs))"

fun bind_result :: "'e + 'a \<Rightarrow> ('a \<Rightarrow> 'e + 'b) \<Rightarrow> 'e + 'b" where
  "bind_result (Inl e) f = Inl e"
| "bind_result (Inr x) f = f x"

text \<open>\<^verbatim>\<open>d.get(key) or {}\<close>, on which \<^verbatim>\<open>.get\<close> is called next.\<close>

definition sub_object :: "string \<Rightarrow> jobj \<Rightarrow> settings_error + jobj" where
  "sub_object key d =
     (let v = jget key d
      in if \<not> truthy v then Inr [] else case v of JObj o' \<Rightarrow> Inr o' | _ \<Rightarrow> Inl (NoAttributeGet v))"

definition base_settings :: "sandbox_settings \<Rightarrow> srt_settings" where
  "base_settings s =
     \<lparr>st_allow_write = map JStr (ss_allow_write s), st_deny_read = map JStr (ss_deny_read s),
      st_deny_write = map JStr (ss_deny_write s),
      st_allowed_domains = map JStr (filter (\<lambda>d. d \<noteq> ''*'') (ss_allowed_domains s)),
      st_denied_domains =
        map JStr (if ''169.254.169.254'' \<in> set (ss_denied_domains s) then ss_denied_domains s
                  else ss_denied_domains s @ [''169.254.169.254'']),
      st_env = map JStr (ss_env_allowlist s)\<rparr>"

definition user_overrides :: "json option \<Rightarrow> srt_settings \<Rightarrow> settings_error + srt_settings" where
  "user_overrides overrides st =
     (case overrides of
        Some (JObj ov) \<Rightarrow>
          bind_result (sub_object ''filesystem'' ov) (\<lambda>fs.
          bind_result (extend_with add_new ''allowWrite'' fs (st_allow_write st)) (\<lambda>aw.
          bind_result (extend_with add_new ''denyRead'' fs (st_deny_read st)) (\<lambda>dr.
          bind_result (extend_with add_new ''denyWrite'' fs (st_deny_write st)) (\<lambda>dw.
          bind_result (sub_object ''network'' ov) (\<lambda>net.
          bind_result (extend_with add_domain ''allowedDomains'' net (st_allowed_domains st)) (\<lambda>ad.
          bind_result (extend_with add_new ''deniedDomains'' net (st_denied_domains st)) (\<lambda>dd.
            Inr (st\<lparr>st_allow_write := aw, st_deny_read := dr, st_deny_write := dw,
                    st_allowed_domains := ad, st_denied_domains := dd\<rparr>))))))))
      | _ \<Rightarrow> Inr st)"

definition server_overrides :: "json option \<Rightarrow> srt_settings \<Rightarrow> settings_error + srt_settings" where
  "server_overrides cfg st =
     (case cfg of
        Some (JObj ov) \<Rightarrow>
          bind_result (sub_object ''filesystem'' ov) (\<lambda>fs.
          bind_result (extend_with add_new ''allowWrite'' fs (st_allow_write st)) (\<lambda>aw.
          bind_result (sub_object ''network'' ov) (\<lambda>net.
          bind_result (extend_with add_domain ''allowedDomains'' net (st_allowed_domains st)) (\<lambda>ad.
            Inr (st\<lparr>st_allow_write := aw, st_allowed_domains := ad\<rparr>)))))
      | _ \<Rightarrow> Inr st)"

definition build_settings ::
    "sandbox_settings \<Rightarrow> json option \<Rightarrow> json option \<Rightarrow> settings_error + srt_settings" where
  "build_settings s overrides cfg =
     bind_result (user_overrides overrides (base_settings s)) (server_overrides cfg)"

definition settings_to_json :: "srt_settings \<Rightarrow> json" where
  "settings_to_json st =
     JObj [(''filesystem'', JObj [(''allowWrite'', JList (st_allow_write st)),
                                  (''denyRead'', JList (st_deny_read st)),
                                  (''denyWrite'', JList (st_deny_write st))]),
           (''network'', JObj [(''allowedDomains'', JList (st_allowed_domains st)),
                               (''deniedDomains'', JList (st_denied_domains st))]),
           (''env'', JList (st_env st))]"


subsection \<open>Policies\<close>

datatype policy =
    NoSandbox
  | Srt (srt_settings_of: sandbox_settings) (srt_binary: "string option")

definition policy_backend :: "policy \<Rightarrow> string" where
  "policy_backend p = (case p of NoSandbox \<Rightarrow> ''none'' | Srt _ _ \<Rightarrow> ''srt'')"

definition ARG_MAX_FALLBACK_THRESHOLD :: nat where
  "ARG_MAX_FALLBACK_THRESHOLD = 100000"

datatype policy_error =
    SrtCommandTooLong nat
  | BadSettings settings_error
  | SrtBinaryNotFound

text \<open>
  The command of a shell call.  \<open>file\<close> is the path of the temporary file the settings are
  written to; the result names it, and what is written, when one is.
\<close>

definition wrap_bash_command ::
    "policy \<Rightarrow> json option \<Rightarrow> string \<Rightarrow> string \<Rightarrow> policy_error + (string \<times> string list) \<times> (string \<times> json) option"
  where
  "wrap_bash_command p overrides file cmd =
     (case p of
        NoSandbox \<Rightarrow> Inr ((''/bin/sh'', [''-c'', cmd]), None)
      | Srt s binary \<Rightarrow>
          (if length cmd > ARG_MAX_FALLBACK_THRESHOLD then Inl (SrtCommandTooLong (length cmd))
           else case binary of
                  None \<Rightarrow> Inr ((''/bin/sh'', [''-c'', cmd]), None)
                | Some srt \<Rightarrow>
                    (case build_settings s overrides None of
                       Inl e \<Rightarrow> Inl (BadSettings e)
                     | Inr st \<Rightarrow>
                         Inr ((srt, [''--settings'', file, ''/bin/sh'', ''-c'', cmd]),
                              Some (file, settings_to_json st)))))"

definition wrap_mcp_stdio ::
    "policy \<Rightarrow> json option \<Rightarrow> string \<Rightarrow> string \<times> string list
       \<Rightarrow> policy_error + (string \<times> string list) \<times> (string \<times> json) option" where
  "wrap_mcp_stdio p cfg file params =
     (case p of
        NoSandbox \<Rightarrow> Inr (params, None)
      | Srt s None \<Rightarrow> Inr (params, None)
      | Srt s (Some srt) \<Rightarrow>
          (case build_settings s None cfg of
             Inl e \<Rightarrow> Inl (BadSettings e)
           | Inr st \<Rightarrow>
               Inr ((srt, [''--settings'', file, fst params] @ snd params),
                    Some (file, settings_to_json st))))"

definition new_srt_policy :: "sandbox_settings \<Rightarrow> string option \<Rightarrow> bool \<Rightarrow> policy_error + policy" where
  "new_srt_policy s found require_binary =
     (if found = None \<and> require_binary then Inl SrtBinaryNotFound else Inr (Srt s found))"

subsection \<open>The policy at startup\<close>

record sandbox_state =
  sb_policy :: policy
  sb_backend :: string
  sb_srt_version :: "string option"
  sb_warning :: "string option"
  sb_override :: bool

datatype startup_error = SandboxStartupError policy_error

text \<open>
  \<open>override\<close> is the value of \<^verbatim>\<open>PYCLAW_SANDBOX_OVERRIDE\<close>, \<open>found\<close> the path of \<^verbatim>\<open>srt\<close> if there is one and
  \<open>version\<close> what it prints about itself.
\<close>

definition resolve_sandbox_state ::
    "string \<Rightarrow> string option \<Rightarrow> string option \<Rightarrow> sandbox_settings \<Rightarrow> startup_error + sandbox_state" where
  "resolve_sandbox_state override found version s =
     (if py_lower (py_strip override) = ''disable''
      then Inr \<lparr>sb_policy = NoSandbox, sb_backend = ''none'', sb_srt_version = None,
                sb_warning = Some ''PYCLAW_SANDBOX_OVERRIDE=disable active; sandbox bypassed'',
                sb_override = True\<rparr>
      else if ss_policy s = ''none''
      then Inr \<lparr>sb_policy = NoSandbox, sb_backend = ''none'', sb_srt_version = None,
                sb_warning = None, sb_override = False\<rparr>
      else if ss_policy s = ''srt''
      then (case new_srt_policy s found (ss_require s) of
              Inl e \<Rightarrow> Inl (SandboxStartupError e)
            | Inr p \<Rightarrow>
                (if srt_binary p = None
                 then Inr \<lparr>sb_policy = NoSandbox, sb_backend = ''none'', sb_srt_version = None,
                           sb_warning = Some (''srt not found on PATH; sandbox falling back to NoSandboxPolicy. '' @
                             ''Install: npm install -g @anthropic-ai/sandbox-runtime''),
                           sb_override = False\<rparr>
                 else Inr \<lparr>sb_policy = p, sb_backend = ''srt'', sb_srt_version = version,
                           sb_warning = None, sb_override = False\<rparr>))
      else Inr \<lparr>sb_policy = NoSandbox, sb_backend = ''none'', sb_srt_version = None,
                sb_warning = Some (''unknown sandbox.policy='' @ py_repr (ss_policy s) @ ''; falling back to none''),
                sb_override = False\<rparr>)"

subsection \<open>The environment of a shell call\<close>

text \<open>\<^verbatim>\<open>_resolve_spawn_env\<close>: without a sandbox and without a list of the user's, the whole environment is inherited.\<close>

definition resolve_spawn_env :: "policy \<Rightarrow> string list option \<Rightarrow> env \<Rightarrow> env option" where
  "resolve_spawn_env p user_allowlist parent =
     (if policy_backend p = ''none'' \<and> user_allowlist = None then None
      else Some (build_clean_env (case user_allowlist of None \<Rightarrow> [] | Some l \<Rightarrow> l) parent))"

subsection \<open>What a child process sees\<close>

lemma map_of_copy_allowed:
  "map_of (copy_allowed source name env) k
     = (if k = name \<and> \<not> is_hardcoded_deny name \<and> map_of source name \<noteq> None
        then map_of source name else map_of env k)"
  by (auto simp: copy_allowed_def split: option.split)

lemma map_of_copy_all:
  "map_of (fold (copy_allowed source) names env) k
     = (if k \<in> set names \<and> \<not> is_hardcoded_deny k \<and> map_of source k \<noteq> None
        then map_of source k else map_of env k)"
  by (induction names arbitrary: env) (auto simp: map_of_copy_allowed)

lemma map_of_copy_star:
  "distinct (map fst src) \<Longrightarrow>
   map_of (fold (\<lambda>(name, v) env. if is_hardcoded_deny name then env else AList.update name v env) src env) k
     = (if \<not> is_hardcoded_deny k \<and> map_of src k \<noteq> None then map_of src k else map_of env k)"
proof (induction src arbitrary: env)
  case (Cons p src)
  obtain n v where p: "p = (n, v)" by fastforce
  from Cons.prems p have "map_of src n = None" by (simp add: map_of_eq_None_iff)
  with Cons p show ?case by auto
qed simp

lemma map_of_clean_env:
  assumes "distinct (map fst parent)"
  shows "map_of (build_clean_env allowlist parent) k
     = (if \<not> is_hardcoded_deny k \<and> (k \<in> set DEFAULT_ALLOWLIST \<or> k \<in> set allowlist \<or> ''*'' \<in> set allowlist)
        then map_of parent k else None)"
  using assms
  by (cases "map_of parent k") (simp_all add: build_clean_env_def Let_def map_of_copy_all map_of_copy_star)

text \<open>
  Property C14.  A clean environment is exactly the parent's environment restricted to the
  default and the allowed names (all names under the wildcard) without the denied ones: no
  setting lets a denied name through, nothing else is lost and no value is changed.
\<close>

theorem clean_env_spec:
  assumes "distinct (map fst parent)"
  shows "map_of (build_clean_env allowlist parent) k
     = (if \<not> is_hardcoded_deny k \<and> (k \<in> set DEFAULT_ALLOWLIST \<or> k \<in> set allowlist \<or> ''*'' \<in> set allowlist)
        then map_of parent k else None)"
  by (rule map_of_clean_env [OF assms])

theorem clean_env_spec_witness:
  "map_of (build_clean_env [''*''] [(''PATH'', ''/bin''), (''OPENAI_API_KEY'', ''k''), (''X'', ''1'')]) ''OPENAI_API_KEY'' = None
   \<and> map_of (build_clean_env [''*''] [(''PATH'', ''/bin''), (''OPENAI_API_KEY'', ''k''), (''X'', ''1'')]) ''X'' = Some ''1''"
proof -
  let ?parent = "[(''PATH'', ''/bin''), (''OPENAI_API_KEY'', ''k''), (''X'', ''1'')]"
  have d: "distinct (map fst ?parent)" by simp
  have "is_hardcoded_deny ''OPENAI_API_KEY''" "\<not> is_hardcoded_deny ''X''" by code_simp+
  then show ?thesis using clean_env_spec [OF d, of "[''*'']"] by simp
qed

text \<open>
  Property C15.  When the configuration demands the sandbox and the override is not set, the
  program either does not start or every shell command and every server runs under \<^verbatim>\<open>srt\<close>, or is
  refused; and whenever a configured sandbox is not in force, the state carries a warning.
\<close>

theorem required_sandbox_is_in_force:
  assumes "resolve_sandbox_state override found version s = Inr st" "ss_policy s \<noteq> ''none''"
  shows "(sb_backend st = ''none'' \<longrightarrow> sb_warning st \<noteq> None)
     \<and> (ss_policy s = ''srt'' \<and> ss_require s \<and> \<not> sb_override st \<longrightarrow>
          (\<exists>srt. found = Some srt
             \<and> (\<forall>ov file cmd c f. wrap_bash_command (sb_policy st) ov file cmd = Inr (c, f) \<longrightarrow>
                  c = (srt, [''--settings'', file, ''/bin/sh'', ''-c'', cmd]) \<and> f \<noteq> None)
             \<and> (\<forall>cfg file ps c f. wrap_mcp_stdio (sb_policy st) cfg file ps = Inr (c, f) \<longrightarrow>
                  c = (srt, [''--settings'', file, fst ps] @ snd ps) \<and> f \<noteq> None)))"
  using assms
  by (auto simp: resolve_sandbox_state_def new_srt_policy_def wrap_bash_command_def wrap_mcp_stdio_def
      split: if_splits sum.splits option.splits)

definition demo_settings :: sandbox_settings where
  "demo_settings = \<lparr>ss_policy = ''srt'', ss_require = True, ss_allow_write = [''/tmp''], ss_deny_read = [],
     ss_deny_write = [], ss_allowed_domains = [''*'', ''pypi.org''], ss_denied_domains = [], ss_env_allowlist = []\<rparr>"

theorem required_sandbox_is_in_force_witness:
  "\<exists>st. resolve_sandbox_state [] (Some ''/bin/srt'') None demo_settings = Inr st
     \<and> wrap_bash_command (sb_policy st) None ''f'' ''ls''
         = Inr ((''/bin/srt'', [''--settings'', ''f'', ''/bin/sh'', ''-c'', ''ls'']),
                Some (''f'', settings_to_json (base_settings demo_settings)))"
proof -
  obtain st where st: "resolve_sandbox_state [] (Some ''/bin/srt'') None demo_settings = Inr st"
    "sb_policy st = Srt demo_settings (Some ''/bin/srt'')" "\<not> sb_override st"
    by (simp add: resolve_sandbox_state_def new_srt_policy_def demo_settings_def py_lower_def)
  have p: "ss_policy demo_settings \<noteq> ''none''" "ss_policy demo_settings = ''srt''" "ss_require demo_settings"
    by (simp_all add: demo_settings_def)
  obtain c f where w: "wrap_bash_command (sb_policy st) None ''f'' ''ls'' = Inr (c, f)"
    "f = Some (''f'', settings_to_json (base_settings demo_settings))"
    by (simp add: wrap_bash_command_def st ARG_MAX_FALLBACK_THRESHOLD_def build_settings_def
        user_overrides_def server_overrides_def)
  from required_sandbox_is_in_force [OF st(1) p(1)] p st(3) w
  have "c = (''/bin/srt'', [''--settings'', ''f'', ''/bin/sh'', ''-c'', ''ls''])" by blast
  with st w show ?thesis by blast
qed

subsection \<open>What no override can take away\<close>

lemma add_new_mono: "set xs \<subseteq> set (add_new e xs)"
  by (auto simp: add_new_def)

lemma add_domain_mono: "set xs \<subseteq> set (add_domain e xs)"
  using add_new_mono by (auto simp: add_domain_def)

lemma fold_mono_set:
  assumes "\<And>e xs. set xs \<subseteq> set (add e xs)"
  shows "set xs \<subseteq> set (fold add es xs)"
  using assms by (induction es arbitrary: xs) (auto, blast)

lemma fold_domain_no_star: "JStr ''*'' \<notin> set xs \<Longrightarrow> JStr ''*'' \<notin> set (fold add_domain es xs)"
  by (induction es arbitrary: xs) (auto simp: add_domain_def add_new_def)

lemma extend_with_Inr:
  "extend_with add key d xs = Inr ys \<Longrightarrow> \<exists>es. ys = fold add es xs"
  by (auto simp: extend_with_def split: sum.splits)

lemma bind_result_Inr: "bind_result m f = Inr y \<longleftrightarrow> (\<exists>x. m = Inr x \<and> f x = Inr y)"
  by (cases m) auto

text \<open>\<open>st'\<close> denies at least what \<open>st\<close> denies, and does not allow every domain if \<open>st\<close> does not.\<close>

definition keeps_floor :: "srt_settings \<Rightarrow> srt_settings \<Rightarrow> bool" where
  "keeps_floor st st' \<longleftrightarrow>
     set (st_denied_domains st) \<subseteq> set (st_denied_domains st')
     \<and> set (st_deny_read st) \<subseteq> set (st_deny_read st') \<and> set (st_deny_write st) \<subseteq> set (st_deny_write st')
     \<and> (JStr ''*'' \<notin> set (st_allowed_domains st) \<longrightarrow> JStr ''*'' \<notin> set (st_allowed_domains st'))
     \<and> st_env st' = st_env st"

lemma user_overrides_floor: "user_overrides ov st = Inr st' \<Longrightarrow> keeps_floor st st'"
  by (auto simp: user_overrides_def bind_result_Inr keeps_floor_def fold_domain_no_star
      split: option.splits json.splits dest!: extend_with_Inr
      dest: subsetD [OF fold_mono_set [OF add_new_mono]])

lemma server_overrides_floor: "server_overrides ov st = Inr st' \<Longrightarrow> keeps_floor st st'"
  by (auto simp: server_overrides_def bind_result_Inr keeps_floor_def fold_domain_no_star
      split: option.splits json.splits dest!: extend_with_Inr)

text \<open>
  Whatever a user's profile or a server's configuration overrides, the settings
  written for \<^verbatim>\<open>srt\<close> deny the metadata address of the cloud and everything the operator denies, never
  allow all domains by the wildcard, and list the operator's environment names.
\<close>

theorem sandbox_floor:
  assumes "build_settings s overrides cfg = Inr st"
  shows "JStr ''169.254.169.254'' \<in> set (st_denied_domains st)
     \<and> JStr ` set (ss_denied_domains s) \<subseteq> set (st_denied_domains st)
     \<and> JStr ` set (ss_deny_read s) \<subseteq> set (st_deny_read st)
     \<and> JStr ` set (ss_deny_write s) \<subseteq> set (st_deny_write st)
     \<and> JStr ''*'' \<notin> set (st_allowed_domains st)
     \<and> st_env st = map JStr (ss_env_allowlist s)"
proof -
  from assms obtain st1 where "user_overrides overrides (base_settings s) = Inr st1"
    "server_overrides cfg st1 = Inr st" by (auto simp: build_settings_def bind_result_Inr)
  then have "keeps_floor (base_settings s) st1" "keeps_floor st1 st"
    by (auto dest: user_overrides_floor server_overrides_floor)
  then have "keeps_floor (base_settings s) st" by (auto simp: keeps_floor_def)
  then show ?thesis by (auto simp: keeps_floor_def base_settings_def split: if_splits)
qed

theorem sandbox_floor_witness:
  "\<exists>st. build_settings demo_settings
          (Some (JObj [(''network'', JObj [(''allowedDomains'', JList [JStr ''*'', JStr ''a.org''])])])) None = Inr st
     \<and> JStr ''*'' \<notin> set (st_allowed_domains st)"
proof -
  let ?ov = "Some (JObj [(''network'', JObj [(''allowedDomains'', JList [JStr ''*'', JStr ''a.org''])])])"
  obtain st where b: "build_settings demo_settings ?ov None = Inr st"
    by (simp add: build_settings_def user_overrides_def server_overrides_def sub_object_def jget_def
        jget_or_def extend_with_def)
  from sandbox_floor [OF b] b show ?thesis by blast
qed

end
