(* ===== verification/FileTools.thy ===== *)
theory FileTools
  imports Tools
begin

section \<open>The workspace boundary and the file tools\<close>

text \<open>
  \<^verbatim>\<open>WorkspaceResolver\<close> of \<^verbatim>\<open>src/pyclaw/core/agent/tools/workspace.py\<close> and the tools that read, write
  and edit files (\<^verbatim>\<open>tools/builtin.py\<close>).  A path is the list of its parts, the root first, as
  \<^verbatim>\<open>pathlib\<close> gives them.  The file system is a record of operations over an abstract state: the
  real path of a path, whether it exists, reading and writing.
\<close>

subsection \<open>Paths\<close>

type_synonym path = "string list"

fun split_on :: "char \<Rightarrow> string \<Rightarrow> string \<Rightarrow> string list" where
  "split_on c acc [] = [acc]"
| "split_on c acc (x # xs) = (if x = c then acc # split_on c [] xs else split_on c (acc @ [x]) xs)"

definition root_of :: "string \<Rightarrow> string option" where
  "root_of s =
     (if starts_with ''//'' s \<and> \<not> starts_with ''///'' s then Some ''//''
      else if starts_with ''/'' s then Some ''/'' else None)"

text \<open>\<^verbatim>\<open>Path(s).parts\<close>: empty parts and single dots are dropped, double dots stay.\<close>

definition path_of :: "string \<Rightarrow> path" where
  "path_of s =
     (case root_of s of None \<Rightarrow> [] | Some r \<Rightarrow> [r])
     @ filter (\<lambda>p. p \<noteq> [] \<and> p \<noteq> ''.'') (split_on (CHR ''/'') [] s)"

definition path_join :: "path \<Rightarrow> string \<Rightarrow> path" where
  "path_join ws relative = (if root_of relative \<noteq> None then path_of relative else ws @ path_of relative)"

fun lexical_loop :: "path \<Rightarrow> path \<Rightarrow> path" where
  "lexical_loop parts [] = parts"
| "lexical_loop parts (p # ps) =
     (if p = ''..'' then
        (if parts \<noteq> [] \<and> last parts \<noteq> ''/'' then lexical_loop (butlast parts) ps
         else lexical_loop (parts @ [p]) ps)
      else if p = ''.'' then lexical_loop parts ps
      else lexical_loop (parts @ [p]) ps)"

definition lexical_resolve :: "path \<Rightarrow> path" where
  "lexical_resolve p = lexical_loop [] p"

subsection \<open>The file system and the boundary\<close>

text \<open>
  \<open>fs_expand\<close> is \<^verbatim>\<open>expanduser\<close> (it may raise), \<open>fs_real\<close> is \<^verbatim>\<open>resolve\<close>; \<open>fs_put\<close> makes the parent
  directories and writes, \<open>fs_write_text\<close> only writes.  Reading and writing may fail with the
  text of an \<^verbatim>\<open>OSError\<close>.
\<close>

record 'f fs =
  fs_expand :: "path \<Rightarrow> path"
  fs_real :: "path \<Rightarrow> 'f \<Rightarrow> path"
  fs_exists :: "path \<Rightarrow> 'f \<Rightarrow> bool"
  fs_is_dir :: "path \<Rightarrow> 'f \<Rightarrow> bool"
  fs_read :: "path \<Rightarrow> 'f \<Rightarrow> string + string"
  fs_put :: "path \<Rightarrow> string \<Rightarrow> 'f \<Rightarrow> (string + unit) \<times> 'f"
  fs_write_text :: "path \<Rightarrow> string \<Rightarrow> 'f \<Rightarrow> (string + unit) \<times> 'f"
  fs_show :: "path \<Rightarrow> string"

datatype boundary_error = WorkspaceBoundaryError string

definition boundary_text :: "'f fs \<Rightarrow> string \<Rightarrow> path \<Rightarrow> string" where
  "boundary_text F relative ws =
     ''path '' @ py_repr relative @ '' escapes workspace '' @ fs_show F ws"

definition resolve_within ::
    "'f fs \<Rightarrow> path \<Rightarrow> string \<Rightarrow> 'f \<Rightarrow> boundary_error + path" where
  "resolve_within F ws relative f =
     (let workspace_abs = fs_real F ws f;
          candidate = fs_expand F (path_join ws relative);
          resolved = (if fs_exists F candidate f then fs_real F candidate f else lexical_resolve candidate)
      in if starts_with workspace_abs resolved then Inr resolved
         else Inl (WorkspaceBoundaryError (boundary_text F relative workspace_abs)))"

subsection \<open>The read tool\<close>

text \<open>\<^verbatim>\<open>str.splitlines(keepends=True)\<close> on code points below 256.\<close>

definition line_end :: "char \<Rightarrow> bool" where
  "line_end c = (let n = (of_char c :: nat) in
     (10 \<le> n \<and> n \<le> 13) \<or> (28 \<le> n \<and> n \<le> 30) \<or> n = 133)"

function splitlines_keep :: "string \<Rightarrow> string \<Rightarrow> string list" where
  "splitlines_keep acc [] = (if acc = [] then [] else [acc])"
| "splitlines_keep acc (c # s) =
     (if c = CHR 0x0D \<and> s \<noteq> [] \<and> hd s = CHR 0x0A
      then (acc @ [c, CHR 0x0A]) # splitlines_keep [] (tl s)
      else if line_end c then (acc @ [c]) # splitlines_keep [] s
      else splitlines_keep (acc @ [c]) s)"
  by pat_completeness auto
termination by (relation "measure (\<lambda>(acc, s). length s)") auto

text \<open>\<^verbatim>\<open>isinstance(v, int)\<close>, which holds for truth values as well.\<close>

fun as_int :: "json \<Rightarrow> int option" where
  "as_int (JInt i) = Some i"
| "as_int (JBool b) = Some (if b then 1 else 0)"
| "as_int _ = None"

definition window :: "int option \<Rightarrow> int option \<Rightarrow> string \<Rightarrow> string" where
  "window off lm content =
     (if off = None \<and> lm = None then content
      else
        let ls = splitlines_keep [] content;
            start = (case off of Some i \<Rightarrow> if i > 0 then nat (i - 1) else 0 | None \<Rightarrow> 0);
            stop = (case lm of Some n \<Rightarrow> if n > 0 then start + nat n else length ls | None \<Rightarrow> length ls)
        in concat (drop start (take stop ls)))"

definition arg_call_id :: "jobj \<Rightarrow> string" where
  "arg_call_id args = as_str (jget_or (JStr []) ''_call_id'' args)"

definition read_execute :: "'f fs \<Rightarrow> path \<Rightarrow> bool \<Rightarrow> jobj \<Rightarrow> 'f \<Rightarrow> tool_result" where
  "read_execute F ws aborted args f =
     (let cid = arg_call_id args
      in case jget ''path'' args of
           JStr raw \<Rightarrow>
             if raw = [] then error_result cid ''read: 'path' is required''
             else if aborted then error_result cid ''read: aborted''
             else (case resolve_within F ws raw f of
                     Inl (WorkspaceBoundaryError msg) \<Rightarrow> error_result cid msg
                   | Inr p \<Rightarrow>
                       if \<not> fs_exists F p f then error_result cid (''read: file not found: '' @ raw)
                       else if fs_is_dir F p f then error_result cid (''read: '' @ raw @ '' is a directory'')
                       else (case fs_read F p f of
                               Inl err \<Rightarrow> error_result cid (''read: '' @ err)
                             | Inr content \<Rightarrow>
                                 text_result cid
                                   (window (as_int (jget ''offset'' args)) (as_int (jget ''limit'' args)) content)))
         | _ \<Rightarrow> error_result cid ''read: 'path' is required'')"

subsection \<open>The write tool\<close>

definition write_execute :: "'f fs \<Rightarrow> path \<Rightarrow> bool \<Rightarrow> jobj \<Rightarrow> 'f \<Rightarrow> tool_result \<times> 'f" where
  "write_execute F ws aborted args f =
     (let cid = arg_call_id args
      in case (jget ''path'' args, jget ''content'' args) of
           (JStr raw, content) \<Rightarrow>
             if raw = [] then (error_result cid ''write: 'path' is required'', f)
             else (case content of
                     JStr tx \<Rightarrow>
                       if aborted then (error_result cid ''write: aborted'', f)
                       else (case resolve_within F ws raw f of
                               Inl (WorkspaceBoundaryError msg) \<Rightarrow> (error_result cid msg, f)
                             | Inr p \<Rightarrow>
                                 (case fs_put F p tx f of
                                    (Inl err, f') \<Rightarrow> (error_result cid (''write: '' @ err), f')
                                  | (Inr _, f') \<Rightarrow>
                                      (text_result cid (''wrote '' @ show_nat (length tx) @ '' bytes to '' @ raw), f')))
                   | _ \<Rightarrow> (error_result cid ''write: 'content' must be a string'', f))
         | _ \<Rightarrow> (error_result cid ''write: 'path' is required'', f))"

subsection \<open>The edit tool\<close>

text \<open>\<^verbatim>\<open>s.count(p)\<close> and \<^verbatim>\<open>s.replace(p, r)\<close>, also for the empty string.\<close>

function count_parts :: "string \<Rightarrow> string \<Rightarrow> nat" where
  "count_parts p s =
     (if p = [] then length s + 1
      else case py_find p s of
             None \<Rightarrow> 0
           | Some i \<Rightarrow> 1 + count_parts p (drop (i + length p) s))"
  by pat_completeness auto
termination
proof (relation "measure (\<lambda>(p, s). length s)")
  fix p s :: string and i
  assume "p \<noteq> []" "py_find p s = Some i"
  then have "i + length p \<le> length s" "0 < length p" by (auto dest: py_find_Some)
  then have "length s - (i + length p) < length s" by linarith
  then show "((p, drop (i + length p) s), p, s) \<in> measure (\<lambda>(p, s). length (s :: string))" by simp
qed simp

function replace_parts :: "string \<Rightarrow> string \<Rightarrow> string \<Rightarrow> string" where
  "replace_parts p r s =
     (if p = [] then r @ List.maps (\<lambda>c. c # r) s
      else case py_find p s of
             None \<Rightarrow> s
           | Some i \<Rightarrow> take i s @ r @ replace_parts p r (drop (i + length p) s))"
  by pat_completeness auto
termination
proof (relation "measure (\<lambda>(p, r, s). length s)")
  fix p r s :: string and i
  assume "p \<noteq> []" "py_find p s = Some i"
  then have "i + length p \<le> length s" "0 < length p" by (auto dest: py_find_Some)
  then have "length s - (i + length p) < length s" by linarith
  then show "((p, r, drop (i + length p) s), p, r, s) \<in> measure (\<lambda>(p, r, s). length (s :: string))"
    by simp
qed simp

declare count_parts.simps [simp del] replace_parts.simps [simp del]

definition edit_execute :: "'f fs \<Rightarrow> path \<Rightarrow> bool \<Rightarrow> jobj \<Rightarrow> 'f \<Rightarrow> tool_result \<times> 'f" where
  "edit_execute F ws aborted args f =
     (let cid = arg_call_id args;
          replace_all = truthy (jget_or (JBool False) ''replace_all'' args)
      in case jget ''path'' args of
           JStr raw \<Rightarrow>
             if raw = [] then (error_result cid ''edit: 'path' is required'', f)
             else (case (jget ''old_string'' args, jget ''new_string'' args) of
                     (JStr old, JStr new) \<Rightarrow>
                       if aborted then (error_result cid ''edit: aborted'', f)
                       else (case resolve_within F ws raw f of
                               Inl (WorkspaceBoundaryError msg) \<Rightarrow> (error_result cid msg, f)
                             | Inr p \<Rightarrow>
                                 if \<not> fs_exists F p f
                                 then (error_result cid (''edit: file not found: '' @ raw), f)
                                 else (case fs_read F p f of
                                         Inl err \<Rightarrow> (error_result cid (''edit: '' @ err), f)
                                       | Inr content \<Rightarrow>
                                           let n = count_parts old content in
                                           if n = 0
                                           then (error_result cid (''edit: old_string not found in '' @ raw), f)
                                           else if n > 1 \<and> \<not> replace_all
                                           then (error_result cid
                                                   (''edit: old_string found '' @ show_nat n @ '' times in '' @ raw
                                                    @ ''; set replace_all=true or provide a unique snippet''), f)
                                           else
                                             let updated = (if replace_all then replace_parts old new content
                                                            else py_replace1 old new content) in
                                             (case fs_write_text F p updated f of
                                                (Inl err, f') \<Rightarrow> (error_result cid (''edit: '' @ err), f')
                                              | (Inr _, f') \<Rightarrow>
                                                  (text_result cid
                                                     (''edited '' @ raw @ '' (''
                                                      @ show_nat (if replace_all then n else 1)
                                                      @ '' replacement(s))''), f'))))
                   | _ \<Rightarrow> (error_result cid ''edit: 'old_string' and 'new_string' must be strings'', f))
         | _ \<Rightarrow> (error_result cid ''edit: 'path' is required'', f))"


subsection \<open>The boundary\<close>

lemma resolve_within_inside:
  "resolve_within F ws raw f = Inr p \<Longrightarrow>
     starts_with (fs_real F ws f) p
     \<and> (p = fs_real F (fs_expand F (path_join ws raw)) f
        \<or> p = lexical_resolve (fs_expand F (path_join ws raw))
          \<and> \<not> fs_exists F (fs_expand F (path_join ws raw)) f)"
  by (auto simp: resolve_within_def Let_def split: if_splits)

lemma write_only_inside:
  assumes "write_execute F ws aborted args f = (res, f')"
  shows "f' = f \<or> (\<exists>raw tx p. jget ''path'' args = JStr raw \<and> jget ''content'' args = JStr tx
     \<and> \<not> aborted \<and> resolve_within F ws raw f = Inr p \<and> f' = snd (fs_put F p tx f))"
  using assms
  by (auto simp: write_execute_def Let_def
      split: json.splits if_splits sum.splits boundary_error.splits prod.splits)

lemma snd_eqI: "x = (a, b) \<Longrightarrow> b = snd x"
  by simp

lemma edit_only_inside:
  assumes "edit_execute F ws aborted args f = (res, f')"
  shows "f' = f \<or> (\<exists>raw tx p. jget ''path'' args = JStr raw \<and> \<not> aborted
     \<and> resolve_within F ws raw f = Inr p \<and> f' = snd (fs_write_text F p tx f))"
  using assms
  by (auto simp: edit_execute_def Let_def
      split: json.splits if_splits sum.splits boundary_error.splits prod.splits dest: snd_eqI)

text \<open>
  What writing may change: the file system is read at a path through its real path, a write
  changes what is read at the real path it names and at no other.
\<close>

definition fs_ok :: "'f fs \<Rightarrow> bool" where
  "fs_ok F \<longleftrightarrow>
     (\<forall>p q tx f. fs_real F q f \<noteq> fs_real F p f \<longrightarrow>
        fs_read F q (snd (fs_put F p tx f)) = fs_read F q f
        \<and> fs_read F q (snd (fs_write_text F p tx f)) = fs_read F q f)"

subsection \<open>Concrete file systems\<close>

text \<open>
  A file system is the contents of its files by their real paths, over directories and links
  given by real paths.  A path is made real by replacing the longest leading part that is a link.
\<close>

record small_fs =
  sf_files :: "(path \<times> string) list"
  sf_dirs :: "path list"
  sf_links :: "(path \<times> path) list"

definition small_real :: "path \<Rightarrow> small_fs \<Rightarrow> path" where
  "small_real p f =
     (case find (\<lambda>(l, t). starts_with l p) (sf_links f) of
        None \<Rightarrow> lexical_resolve p
      | Some (l, t) \<Rightarrow> lexical_resolve (t @ drop (length l) p))"

definition small_server :: "small_fs fs" where
  "small_server =
     \<lparr>fs_expand = (\<lambda>p. p),
      fs_real = small_real,
      fs_exists = (\<lambda>p f. small_real p f \<in> set (sf_dirs f) \<or> small_real p f \<in> fst ` set (sf_files f)),
      fs_is_dir = (\<lambda>p f. small_real p f \<in> set (sf_dirs f)),
      fs_read = (\<lambda>p f. case map_of (sf_files f) (small_real p f) of None \<Rightarrow> Inl ''ENOENT'' | Some c \<Rightarrow> Inr c),
      fs_put = (\<lambda>p tx f. (Inr (), f\<lparr>sf_files := AList.update (small_real p f) tx (sf_files f)\<rparr>)),
      fs_write_text = (\<lambda>p tx f. (Inr (), f\<lparr>sf_files := AList.update (small_real p f) tx (sf_files f)\<rparr>)),
      fs_show = (\<lambda>p. concat p)\<rparr>"

lemma small_real_files [simp]: "small_real p (f\<lparr>sf_files := fs\<rparr>) = small_real p f"
  by (simp add: small_real_def)

lemma small_fs_ok: "fs_ok small_server"
  by (auto simp: fs_ok_def small_server_def)

definition plain_fs :: small_fs where
  "plain_fs = \<lparr>sf_files = [([''/'', ''etc'', ''passwd''], ''root'')],
               sf_dirs = [[''/''], [''/'', ''ws''], [''/'', ''etc'']], sf_links = []\<rparr>"

definition linked_fs :: small_fs where
  "linked_fs = plain_fs\<lparr>sf_links := [([''/'', ''ws'', ''link''], [''/'', ''etc''])]\<rparr>"

subsection \<open>Lexical resolution\<close>

definition clean_path :: "path \<Rightarrow> bool" where
  "clean_path xs \<longleftrightarrow> ''.'' \<notin> set xs \<and> (\<forall>ys zs. xs = ys @ ''..'' # zs \<longrightarrow> ys = [] \<or> last ys = ''/'')"

lemma clean_snoc:
  "clean_path acc \<Longrightarrow> p \<noteq> ''.'' \<Longrightarrow> p = ''..'' \<longrightarrow> acc = [] \<or> last acc = ''/'' \<Longrightarrow> clean_path (acc @ [p])"
proof -
  assume c: "clean_path acc" and p: "p \<noteq> ''.''" "p = ''..'' \<longrightarrow> acc = [] \<or> last acc = ''/''"
  have "ys = [] \<or> last ys = ''/''" if "acc @ [p] = ys @ ''..'' # zs" for ys zs
  proof (cases zs rule: rev_cases)
    case Nil
    with that p show ?thesis by auto
  next
    case (snoc zs' z)
    with that have "acc = ys @ ''..'' # zs'" by simp
    with c show ?thesis by (auto simp: clean_path_def)
  qed
  with c p(1) show ?thesis by (auto simp: clean_path_def)
qed

lemma clean_prefix: "clean_path (xs @ ys) \<Longrightarrow> clean_path xs"
  by (auto simp: clean_path_def)

lemma clean_butlast: "clean_path acc \<Longrightarrow> clean_path (butlast acc)"
  by (metis append_butlast_last_id butlast.simps(1) clean_prefix)

lemma lexical_loop_clean: "clean_path acc \<Longrightarrow> clean_path (lexical_loop acc ps)"
  by (induction acc ps rule: lexical_loop.induct) (auto simp: clean_butlast clean_snoc)

lemma lexical_loop_id: "clean_path (acc @ ps) \<Longrightarrow> lexical_loop acc ps = acc @ ps"
proof (induction ps arbitrary: acc)
  case (Cons p ps)
  have "p \<noteq> ''.''" using Cons.prems by (auto simp: clean_path_def)
  moreover have "p = ''..'' \<Longrightarrow> acc = [] \<or> last acc = ''/''"
    using Cons.prems by (auto simp: clean_path_def)
  ultimately show ?case using Cons.IH [of "acc @ [p]"] Cons.prems by auto
qed simp

lemma lexical_resolve_idem [simp]: "lexical_resolve (lexical_resolve p) = lexical_resolve p"
proof -
  have "clean_path []" by (simp add: clean_path_def)
  then have "clean_path ([] @ lexical_resolve p)" by (simp add: lexical_resolve_def lexical_loop_clean)
  from lexical_loop_id [OF this] show ?thesis by (simp add: lexical_resolve_def)
qed

subsection \<open>Properties of the boundary\<close>



text \<open>
  A symbolic link to a directory leads out of the workspace.  A path below the link
  that does not exist yet is only resolved lexically: it passes the check, and the write tool
  creates a file outside the workspace.
\<close>

theorem write_escapes_through_link:
  "fs_read small_server [''/'', ''etc'', ''cron''] linked_fs = Inl ''ENOENT''
   \<and> write_execute small_server [''/'', ''ws''] False [(''path'', JStr ''link/cron''), (''content'', JStr ''x'')] linked_fs
       = (text_result [] ''wrote 1 bytes to link/cron'',
          linked_fs\<lparr>sf_files := sf_files linked_fs @ [([''/'', ''etc'', ''cron''], ''x'')]\<rparr>)
   \<and> \<not> starts_with (fs_real small_server [''/'', ''ws''] linked_fs) [''/'', ''etc'', ''cron'']"
  by code_simp

subsection \<open>Reading in pages\<close>

lemma concat_splitlines: "concat (splitlines_keep acc s) = acc @ s"
proof (induction acc s rule: splitlines_keep.induct)
  case (2 acc c s)
  then show ?case
    by (cases s) auto
qed simp

fun pages :: "nat \<Rightarrow> nat \<Rightarrow> int \<Rightarrow> string \<Rightarrow> string" where
  "pages 0 k n s = []"
| "pages (Suc m) k n s = window (Some (int k * n + 1)) (Some n) s @ pages m (Suc k) n s"

lemma window_page:
  assumes "0 < n"
  shows "window (Some (int k * n + 1)) (Some n) s
     = concat (take (nat n) (drop (k * nat n) (splitlines_keep [] s)))"
proof -
  have "nat (int k * n) = k * nat n" using assms by (simp add: nat_mult_distrib)
  moreover have "0 < 1 + int k * n" using assms by (simp add: add_pos_nonneg)
  ultimately show ?thesis using assms by (simp add: window_def Let_def take_drop add.commute)
qed

lemma pages_drop:
  assumes "0 < n"
  shows "pages m k n s = concat (take (m * nat n) (drop (k * nat n) (splitlines_keep [] s)))"
proof (induction m arbitrary: k)
  case (Suc m)
  let ?ls = "splitlines_keep [] s" and ?n = "nat n"
  have "take (?n + m * ?n) (drop (k * ?n) ?ls)
      = take ?n (drop (k * ?n) ?ls) @ take (m * ?n) (drop (Suc k * ?n) ?ls)"
    by (simp add: take_add add.commute)
  with Suc show ?case by (simp add: window_page [OF assms] del: mult_Suc) (simp add: mult_Suc)
qed simp

text \<open>
  Reading a file page by page, with any page length, gives every line once and in
  order: enough pages joined are the content, and the tool without offset and limit returns it
  at once.
\<close>

theorem read_pages_cover:
  assumes "0 < n" "length (splitlines_keep [] content) \<le> m * nat n"
  shows "pages m 0 n content = content \<and> window None None content = content"
  using assms by (simp add: pages_drop concat_splitlines window_def)

theorem read_pages_cover_witness:
  "pages 2 0 1 (''a'' @ nl @ ''b'') = ''a'' @ nl @ ''b''"
proof -
  have "length (splitlines_keep [] (''a'' @ nl @ ''b'')) \<le> 2 * nat 1" by code_simp
  from read_pages_cover [OF _ this] show ?thesis by simp
qed

subsection \<open>Editing\<close>

lemma count_parts_0: "count_parts p s = 0 \<longleftrightarrow> p \<noteq> [] \<and> \<not> py_in p s"
  by (subst count_parts.simps) (auto simp: py_in_def split: option.split)

lemma count_parts_1:
  assumes "count_parts p s = 1" "p \<noteq> []"
  obtains a b where "s = a @ p @ b" "py_find p s = Some (length a)" "\<not> py_in p b"
proof -
  from assms obtain i where i: "py_find p s = Some i" and c: "count_parts p (drop (i + length p) s) = 0"
    by (subst (asm) count_parts.simps) (auto split: option.splits)
  have "length (take i s) = i" using py_find_Some [OF i] by simp
  with py_find_split [OF i] i c assms(2) show thesis
    by (intro that [of "take i s" "drop (i + length p) s"]) (simp_all add: count_parts_0)
qed

text \<open>
  What an edit does to the file.  The file is written only after a successful read
  in which the old string occurs; without \<^verbatim>\<open>replace_all\<close> a nonempty old string then stands once
  in the content, and that occurrence is replaced; in every other case the file system is as before.
\<close>

theorem edit_spec:
  assumes "jget ''path'' args = JStr raw" "raw \<noteq> []"
    and "jget ''old_string'' args = JStr old" "jget ''new_string'' args = JStr new" "old \<noteq> []"
    and "\<not> truthy (jget_or (JBool False) ''replace_all'' args)"
    and "edit_execute F ws aborted args f = (res, f')"
  shows "f' = f \<or> (\<exists>p a b. resolve_within F ws raw f = Inr p \<and> fs_read F p f = Inr (a @ old @ b)
     \<and> \<not> py_in old b \<and> f' = snd (fs_write_text F p (a @ new @ b) f))"
proof (cases "f' = f")
  case False
  with assms obtain p content where p: "resolve_within F ws raw f = Inr p" "fs_read F p f = Inr content"
    and n: "count_parts old content \<noteq> 0" "\<not> count_parts old content > 1"
    and f': "f' = snd (fs_write_text F p (py_replace1 old new content) f)"
    by (auto simp: edit_execute_def Let_def
        split: if_splits sum.splits boundary_error.splits prod.splits dest: snd_eqI)
  from n have "count_parts old content = 1" by simp
  then obtain a b where ab: "content = a @ old @ b" "py_find old content = Some (length a)" "\<not> py_in old b"
    using assms(5) by (rule count_parts_1)
  then have "py_replace1 old new content = a @ new @ b"
    by (simp add: py_replace1_def)
  with p f' ab show ?thesis by (intro disjI2 exI [of _ p] exI [of _ a] exI [of _ b]) simp
qed simp

theorem edit_spec_witness:
  "\<exists>f'. snd (edit_execute small_server [''/'', ''etc''] False
       [(''path'', JStr ''passwd''), (''old_string'', JStr ''oo''), (''new_string'', JStr ''a'')] plain_fs) = f'
     \<and> fs_read small_server [''/'', ''etc'', ''passwd''] f' = Inr ''rat''
     \<and> (\<exists>p a b. fs_read small_server p plain_fs = Inr (a @ ''oo'' @ b)
            \<and> f' = snd (fs_write_text small_server p (a @ ''a'' @ b) plain_fs))"
proof -
  let ?args = "[(''path'', JStr ''passwd''), (''old_string'', JStr ''oo''), (''new_string'', JStr ''a'')]"
  obtain res f' where e: "edit_execute small_server [''/'', ''etc''] False ?args plain_fs = (res, f')" by fastforce
  have "fs_read small_server [''/'', ''etc'', ''passwd'']
      (snd (edit_execute small_server [''/'', ''etc''] False ?args plain_fs)) = Inr ''rat''" by code_simp
  then have r: "fs_read small_server [''/'', ''etc'', ''passwd''] f' = Inr ''rat''" by (simp add: e)
  moreover have "fs_read small_server [''/'', ''etc'', ''passwd''] plain_fs = Inr ''root''" by code_simp
  ultimately have "f' \<noteq> plain_fs" by auto
  moreover have a: "jget ''path'' ?args = JStr ''passwd''" "jget ''old_string'' ?args = JStr ''oo''"
    "jget ''new_string'' ?args = JStr ''a''" "\<not> truthy (jget_or (JBool False) ''replace_all'' ?args)"
    by (simp_all add: jget_def jget_or_def)
  ultimately show ?thesis
    using edit_spec [OF a(1) _ a(2,3) _ a(4) e] e r by auto
qed

end
