(* ===== verification/BashTool.thy ===== *)
theory BashTool
  imports Tools Sandbox
begin

section \<open>The shell tool\<close>

text \<open>
  \<^verbatim>\<open>BashTool\<close> of \<^verbatim>\<open>src/pyclaw/core/agent/tools/builtin.py\<close>: argument checks, the command line under
  the sandbox policy, the environment of the child, the outcomes of the process, and the removal
  of the settings file written for it.  The process itself is an argument; its output is already
  decoded.  The effects are recorded: what was spawned, which files were written and removed.
\<close>

datatype proc_end =
    NotSpawned string
  | Finished (pe_stdout: string) (pe_stderr: string) (pe_code: int)
  | AbortedFirst
  | OutOfTime
  | CancelledFirst

record spawn_request =
  sq_executable :: string
  sq_args :: "string list"
  sq_cwd :: string
  sq_env :: "env option"

record bash_env =
  be_policy :: policy
  be_overrides :: "json option"
  be_allowlist :: "string list option"
  be_parent :: env
  be_cwd :: string
  be_file :: string
  be_process :: "spawn_request \<Rightarrow> rat \<Rightarrow> proc_end"
  be_read_float :: "string \<Rightarrow> rat option"
  be_show_float :: "rat \<Rightarrow> string"

datatype bash_exn = FloatError json | SettingsError settings_error | Cancelled

record bash_effects =
  bx_spawned :: "spawn_request list"
  bx_written :: "string list"
  bx_removed :: "string list"

definition no_effects :: bash_effects where
  "no_effects = \<lparr>bx_spawned = [], bx_written = [], bx_removed = []\<rparr>"

text \<open>\<^verbatim>\<open>float(args.get("timeout_seconds") or 120.0)\<close>.\<close>

definition bash_timeout :: "bash_env \<Rightarrow> jobj \<Rightarrow> bash_exn + rat" where
  "bash_timeout B args =
     (let v = jget ''timeout_seconds'' args
      in if \<not> truthy v then Inr 120
         else case to_float (be_read_float B) v of Some q \<Rightarrow> Inr q | None \<Rightarrow> Inl (FloatError v))"

definition policy_error_text :: "nat \<Rightarrow> string" where
  "policy_error_text n =
     ''sandbox: command length '' @ show_nat n @ '' exceeds maximum '' @ show_nat ARG_MAX_FALLBACK_THRESHOLD
     @ '' (security: refusing to fall back to unsandboxed execution; shorten the command or use a script file)''"

definition extract_settings_path :: "policy \<Rightarrow> string list \<Rightarrow> string option" where
  "extract_settings_path p args =
     (if policy_backend p \<noteq> ''srt'' then None
      else if length args \<ge> 2 \<and> args ! 0 = ''--settings'' then Some (args ! 1) else None)"

definition bash_body :: "string \<Rightarrow> string \<Rightarrow> int \<Rightarrow> string" where
  "bash_body out err code =
     py_join nl ((if out \<noteq> [] then [''[stdout]'' @ nl @ out] else [])
               @ (if err \<noteq> [] then [''[stderr]'' @ nl @ err] else [])
               @ [''[exit_code='' @ show_int code @ '']''])"

definition bash_outcome :: "bash_env \<Rightarrow> string \<Rightarrow> rat \<Rightarrow> proc_end \<Rightarrow> bash_exn + tool_result" where
  "bash_outcome B cid timeout pe =
     (case pe of
        NotSpawned err \<Rightarrow> Inr (error_result cid (''bash: failed to spawn: '' @ err))
      | AbortedFirst \<Rightarrow> Inr (error_result cid ''bash: aborted'')
      | OutOfTime \<Rightarrow>
          Inr (error_result cid (''bash: command timed out after '' @ be_show_float B timeout @ ''s''))
      | CancelledFirst \<Rightarrow> Inl Cancelled
      | Finished out err code \<Rightarrow>
          (if code \<noteq> 0 then Inr (error_result cid (bash_body out err code))
           else Inr (text_result cid (bash_body out err code))))"

definition bash_execute :: "bash_env \<Rightarrow> bool \<Rightarrow> jobj \<Rightarrow> (bash_exn + tool_result) \<times> bash_effects" where
  "bash_execute B aborted args =
     (let cid = as_str (jget_or (JStr []) ''_call_id'' args)
      in case jget ''command'' args of
           JStr command \<Rightarrow>
             if py_strip command = [] then (Inr (error_result cid ''bash: 'command' is required''), no_effects)
             else if aborted then (Inr (error_result cid ''bash: aborted before spawn''), no_effects)
             else (case bash_timeout B args of
                     Inl e \<Rightarrow> (Inl e, no_effects)
                   | Inr timeout \<Rightarrow>
                       (case wrap_bash_command (be_policy B) (be_overrides B) (be_file B) command of
                          Inl (BadSettings e) \<Rightarrow> (Inl (SettingsError e), no_effects)
                        | Inl (SrtCommandTooLong n) \<Rightarrow>
                            (Inr (error_result cid (''bash: '' @ policy_error_text n)), no_effects)
                        | Inl SrtBinaryNotFound \<Rightarrow> (Inr (error_result cid ''bash: ''), no_effects)
                        | Inr ((executable, exec_args), written) \<Rightarrow>
                            (let settings_path = extract_settings_path (be_policy B) exec_args;
                                 req = \<lparr>sq_executable = executable, sq_args = exec_args, sq_cwd = be_cwd B,
                                        sq_env = resolve_spawn_env (be_policy B) (be_allowlist B) (be_parent B)\<rparr>
                             in (bash_outcome B cid timeout (be_process B req timeout),
                                 \<lparr>bx_spawned = [req],
                                  bx_written = (case written of None \<Rightarrow> [] | Some (f, _) \<Rightarrow> [f]),
                                  bx_removed = (case settings_path of None \<Rightarrow> [] | Some f \<Rightarrow> [f])\<rparr>))))
         | _ \<Rightarrow> (Inr (error_result cid ''bash: 'command' is required''), no_effects))"

subsection \<open>Properties\<close>

lemma wrap_bash_files:
  "wrap_bash_command p ov file cmd = Inr ((exe, args), written) \<Longrightarrow>
     extract_settings_path p args = map_option fst written"
  by (auto simp: wrap_bash_command_def extract_settings_path_def policy_backend_def
      split: policy.splits if_splits option.splits sum.splits)

lemma bash_execute_effects:
  assumes "bash_execute B aborted args = (res, fx)"
  shows "fx = no_effects \<or>
    (\<exists>command exe ea written. \<not> aborted \<and> jget ''command'' args = JStr command
       \<and> wrap_bash_command (be_policy B) (be_overrides B) (be_file B) command = Inr ((exe, ea), written)
       \<and> fx = \<lparr>bx_spawned = [\<lparr>sq_executable = exe, sq_args = ea, sq_cwd = be_cwd B,
                  sq_env = resolve_spawn_env (be_policy B) (be_allowlist B) (be_parent B)\<rparr>],
                bx_written = (case written of None \<Rightarrow> [] | Some (f, _) \<Rightarrow> [f]),
                bx_removed = (case extract_settings_path (be_policy B) ea of None \<Rightarrow> [] | Some f \<Rightarrow> [f])\<rparr>)"
proof (cases "jget ''command'' args")
  case (JStr command)
  show ?thesis
  proof (cases "py_strip command = [] \<or> aborted")
    case False
    show ?thesis
    proof (cases "bash_timeout B args")
      case (Inr timeout)
      show ?thesis
      proof (cases "wrap_bash_command (be_policy B) (be_overrides B) (be_file B) command")
        case (Inl e)
        with assms JStr False Inr show ?thesis
          by (cases e) (simp_all add: bash_execute_def Let_def)
      next
        case w: (Inr x)
        obtain exe ea written where "x = ((exe, ea), written)" by (metis surj_pair)
        with assms JStr False Inr w show ?thesis
          by (auto simp: bash_execute_def Let_def)
      qed
    qed (use assms JStr False in \<open>simp add: bash_execute_def Let_def\<close>)
  qed (use assms JStr in \<open>auto simp: bash_execute_def Let_def split: if_splits\<close>)
qed (use assms in \<open>simp_all add: bash_execute_def Let_def\<close>)

text \<open>
  Property C17.  The shell tool spawns at most one process, and when it does: the command line is
  the one of the sandbox policy, the environment is the inherited one only without a sandbox and
  without a list of the user's, and otherwise holds no denied name; and every settings file that
  was written is removed again, however the process ended.
\<close>

theorem bash_is_contained:
  assumes "bash_execute B aborted args = (res, fx)" "distinct (map fst (be_parent B))"
  shows "length (bx_spawned fx) \<le> 1 \<and> bx_removed fx = bx_written fx
     \<and> (\<forall>req \<in> set (bx_spawned fx).
          \<not> aborted
          \<and> (\<exists>command w. jget ''command'' args = JStr command
               \<and> wrap_bash_command (be_policy B) (be_overrides B) (be_file B) command
                   = Inr ((sq_executable req, sq_args req), w))
          \<and> (case sq_env req of
               None \<Rightarrow> policy_backend (be_policy B) = ''none'' \<and> be_allowlist B = None
             | Some e \<Rightarrow> \<forall>k. is_hardcoded_deny k \<longrightarrow> map_of e k = None))"
proof -
  have env: "case resolve_spawn_env (be_policy B) (be_allowlist B) (be_parent B) of
               None \<Rightarrow> policy_backend (be_policy B) = ''none'' \<and> be_allowlist B = None
             | Some e \<Rightarrow> \<forall>k. is_hardcoded_deny k \<longrightarrow> map_of e k = None"
    using assms(2) by (auto simp: resolve_spawn_env_def map_of_clean_env split: if_splits)
  from bash_execute_effects [OF assms(1)] show ?thesis
  proof (elim disjE exE conjE)
    assume "fx = no_effects"
    then show ?thesis by (simp add: no_effects_def)
  next
    fix command exe ea written
    assume *: "\<not> aborted" "jget ''command'' args = JStr command"
      "wrap_bash_command (be_policy B) (be_overrides B) (be_file B) command = Inr ((exe, ea), written)"
      and fx: "fx = \<lparr>bx_spawned = [\<lparr>sq_executable = exe, sq_args = ea, sq_cwd = be_cwd B,
                  sq_env = resolve_spawn_env (be_policy B) (be_allowlist B) (be_parent B)\<rparr>],
                bx_written = (case written of None \<Rightarrow> [] | Some (f, _) \<Rightarrow> [f]),
                bx_removed = (case extract_settings_path (be_policy B) ea of None \<Rightarrow> [] | Some f \<Rightarrow> [f])\<rparr>"
    have "bx_removed fx = bx_written fx"
      unfolding fx wrap_bash_files [OF *(3)] by (simp split: option.split)
    moreover have "length (bx_spawned fx) \<le> 1" unfolding fx by simp
    moreover have "\<not> aborted
          \<and> (\<exists>command w. jget ''command'' args = JStr command
               \<and> wrap_bash_command (be_policy B) (be_overrides B) (be_file B) command
                   = Inr ((sq_executable req, sq_args req), w))
          \<and> (case sq_env req of
               None \<Rightarrow> policy_backend (be_policy B) = ''none'' \<and> be_allowlist B = None
             | Some e \<Rightarrow> \<forall>k. is_hardcoded_deny k \<longrightarrow> map_of e k = None)"
      if "req \<in> set (bx_spawned fx)" for req
    proof -
      from that have "sq_executable req = exe" "sq_args req = ea"
        and e: "sq_env req = resolve_spawn_env (be_policy B) (be_allowlist B) (be_parent B)"
        unfolding fx by simp_all
      with * show ?thesis unfolding e by (intro conjI env exI [of _ command] exI [of _ written]) simp_all
    qed
    ultimately show ?thesis by blast
  qed
qed

definition demo_bash :: bash_env where
  "demo_bash =
     \<lparr>be_policy = Srt demo_settings (Some ''/bin/srt''), be_overrides = None, be_allowlist = None,
      be_parent = [(''PATH'', ''/bin''), (''GH_TOKEN'', ''t'')], be_cwd = ''/ws'', be_file = ''/tmp/s'',
      be_process = (\<lambda>_ _. OutOfTime), be_read_float = (\<lambda>_. None), be_show_float = (\<lambda>_. [])\<rparr>"

theorem bash_is_contained_witness:
  "\<exists>res fx req. bash_execute demo_bash False [(''command'', JStr ''ls'')] = (res, fx)
     \<and> bx_spawned fx = [req] \<and> sq_executable req = ''/bin/srt'' \<and> bx_removed fx = bx_written fx
     \<and> bx_written fx = [''/tmp/s'']"
proof -
  let ?args = "[(''command'', JStr ''ls'')]"
  obtain res fx where e: "bash_execute demo_bash False ?args = (res, fx)" by fastforce
  have d: "distinct (map fst (be_parent demo_bash))" by (simp add: demo_bash_def)
  have "py_strip ''ls'' \<noteq> []" by code_simp
  moreover have "wrap_bash_command (be_policy demo_bash) None ''/tmp/s'' ''ls''
      = Inr ((''/bin/srt'', [''--settings'', ''/tmp/s'', ''/bin/sh'', ''-c'', ''ls'']),
             Some (''/tmp/s'', settings_to_json (base_settings demo_settings)))"
    by (simp add: demo_bash_def wrap_bash_command_def ARG_MAX_FALLBACK_THRESHOLD_def build_settings_def
        user_overrides_def server_overrides_def)
  moreover have "bash_timeout demo_bash ?args = Inr 120" by (simp add: bash_timeout_def jget_def)
  moreover have "jget ''command'' ?args = JStr ''ls''" by (simp add: jget_def)
  moreover have "be_overrides demo_bash = None" "be_file demo_bash = ''/tmp/s''" by (simp_all add: demo_bash_def)
  ultimately have "map sq_executable (bx_spawned (snd (bash_execute demo_bash False ?args))) = [''/bin/srt'']"
    "bx_written (snd (bash_execute demo_bash False ?args)) = [''/tmp/s'']"
    by (simp_all add: bash_execute_def Let_def)
  with e obtain req where "bx_spawned fx = [req]" "sq_executable req = ''/bin/srt''"
    "bx_written fx = [''/tmp/s'']" by (auto simp: map_eq_Cons_conv)
  with bash_is_contained [OF e d] e show ?thesis by blast
qed

end
