(* ===== verification/Auth.thy ===== *)
theory Auth
  imports Tools RedisApi
begin

section \<open>Users, roles and permission tiers\<close>

text \<open>
  \<^verbatim>\<open>src/pyclaw/auth/\<close> and \<^verbatim>\<open>core/commands/tier_store.py\<close>: the profile of a user and its store
  (Redis first, then the configured users, then a member without rights), the tier of a
  session, and the order in which tiers from the four sources win.  Redis is the parameter of
  theory \<open>RedisApi\<close>; whether it can be reached, and \<^verbatim>\<open>json.dumps\<close> and \<^verbatim>\<open>json.loads\<close>, are arguments.
\<close>

fun tier_name :: "tier \<Rightarrow> string" where
  "tier_name ReadOnly = ''read-only''"
| "tier_name Approval = ''approval''"
| "tier_name Yolo = ''yolo''"

definition tier_of_name :: "string \<Rightarrow> tier option" where
  "tier_of_name s = (if s = ''read-only'' then Some ReadOnly else if s = ''approval'' then Some Approval
                     else if s = ''yolo'' then Some Yolo else None)"

record user_profile =
  up_channel :: string
  up_user_id :: string
  up_role :: string
  up_tier :: "tier option"
  up_tools :: json
  up_env :: json
  up_sandbox :: json

definition default_profile :: "string \<Rightarrow> string \<Rightarrow> user_profile" where
  "default_profile channel user_id =
     \<lparr>up_channel = channel, up_user_id = user_id, up_role = ''member'', up_tier = None, up_tools = JNull,
      up_env = JNull, up_sandbox = JNull\<rparr>"

subsection \<open>Which tier wins\<close>

definition resolve_effective_tier :: "tier option \<Rightarrow> tier option \<Rightarrow> tier option \<Rightarrow> tier \<Rightarrow> tier" where
  "resolve_effective_tier message_tier session_tier user_default deployment_default =
     (if message_tier \<noteq> None then the message_tier
      else if session_tier \<noteq> None then the session_tier
      else if user_default \<noteq> None then the user_default
      else deployment_default)"

definition resolve_tools_requiring_approval :: "user_profile option \<Rightarrow> json list \<Rightarrow> json list" where
  "resolve_tools_requiring_approval profile channel_default =
     (case profile of
        None \<Rightarrow> channel_default
      | Some p \<Rightarrow> if up_tools p = JNull then channel_default else as_list (up_tools p))"

subsection \<open>Profiles as JSON\<close>

record json_codec =
  jc_dumps :: "json \<Rightarrow> string"
  jc_loads :: "string \<Rightarrow> json option"

definition profile_json :: "user_profile \<Rightarrow> json" where
  "profile_json p =
     JObj [(''channel'', JStr (up_channel p)), (''user_id'', JStr (up_user_id p)), (''role'', JStr (up_role p)),
           (''tier_default'', case up_tier p of None \<Rightarrow> JNull | Some t \<Rightarrow> JStr (tier_name t)),
           (''tools_requiring_approval'', up_tools p), (''env_allowlist'', up_env p),
           (''sandbox_overrides'', up_sandbox p)]"

definition serialize_profile :: "json_codec \<Rightarrow> user_profile \<Rightarrow> string" where
  "serialize_profile J p = jc_dumps J (profile_json p)"

definition read_role :: "jobj \<Rightarrow> string" where
  "read_role d =
     (case jget_or (JStr ''member'') ''role'' d of
        JStr r \<Rightarrow> if r = ''admin'' \<or> r = ''member'' then r else ''member''
      | _ \<Rightarrow> ''member'')"

definition read_tier :: "jobj \<Rightarrow> tier option" where
  "read_tier d = (case jget ''tier_default'' d of JStr t \<Rightarrow> tier_of_name t | _ \<Rightarrow> None)"

definition read_profile :: "jobj \<Rightarrow> user_profile option" where
  "read_profile d =
     (case (jget ''channel'' d, jget ''user_id'' d) of
        (JStr channel, JStr user_id) \<Rightarrow>
          if (channel \<noteq> ''web'' \<and> channel \<noteq> ''feishu'') \<or> user_id = [] then None
          else Some \<lparr>up_channel = channel, up_user_id = user_id,
                     up_role = read_role d, up_tier = read_tier d,
                     up_tools = jget ''tools_requiring_approval'' d, up_env = jget ''env_allowlist'' d,
                     up_sandbox = jget ''sandbox_overrides'' d\<rparr>
      | _ \<Rightarrow> None)"

definition deserialize_profile :: "json_codec \<Rightarrow> string \<Rightarrow> user_profile option" where
  "deserialize_profile J raw =
     (case jc_loads J raw of Some (JObj d) \<Rightarrow> read_profile d | _ \<Rightarrow> None)"

subsection \<open>The profile store\<close>

definition profile_key :: "string \<Rightarrow> string \<Rightarrow> string" where
  "profile_key channel user_id = ''pyclaw:userprofile'' @ '':'' @ channel @ '':'' @ user_id"

text \<open>
  The store: the Redis client if there is one, whether it answers, and the configured users of
  each channel.
\<close>

record 'r profile_store =
  ps_redis :: "'r redis option"
  ps_reachable :: bool
  ps_codec :: json_codec
  ps_json :: "(string \<times> user_profile list) list"

definition json_users :: "'r profile_store \<Rightarrow> string \<Rightarrow> user_profile list" where
  "json_users P channel = (case map_of (ps_json P) channel of None \<Rightarrow> [] | Some us \<Rightarrow> us)"

definition redis_profile :: "'r profile_store \<Rightarrow> string \<Rightarrow> string \<Rightarrow> 'r \<Rightarrow> user_profile option" where
  "redis_profile P channel user_id r =
     (case ps_redis P of
        None \<Rightarrow> None
      | Some R \<Rightarrow>
          if user_id = [] \<or> \<not> ps_reachable P then None
          else Option.bind (rd_get R (profile_key channel user_id) r) (deserialize_profile (ps_codec P)))"

definition profile_get :: "'r profile_store \<Rightarrow> string \<Rightarrow> string \<Rightarrow> 'r \<Rightarrow> user_profile" where
  "profile_get P channel user_id r =
     (case redis_profile P channel user_id r of
        Some p \<Rightarrow> p
      | None \<Rightarrow>
          (case find (\<lambda>e. up_user_id e = user_id) (json_users P channel) of
             Some e \<Rightarrow> e
           | None \<Rightarrow> default_profile channel user_id))"

definition DEFAULT_TTL_SECONDS :: int where
  "DEFAULT_TTL_SECONDS = 30 * 24 * 3600"

text \<open>\<^verbatim>\<open>SETEX\<close> refuses a time to live that is not positive.\<close>

definition profile_set :: "'r profile_store \<Rightarrow> int option \<Rightarrow> user_profile \<Rightarrow> 'r \<Rightarrow> bool \<times> 'r" where
  "profile_set P ttl_seconds p r =
     (case ps_redis P of
        None \<Rightarrow> (False, r)
      | Some R \<Rightarrow>
          let ttl = (case ttl_seconds of None \<Rightarrow> DEFAULT_TTL_SECONDS | Some t \<Rightarrow> t);
              key = profile_key (up_channel p) (up_user_id p)
          in if up_user_id p = [] \<or> \<not> ps_reachable P \<or> ttl \<le> 0 then (False, r)
             else (True, rd_expire R key ttl (rd_set R key (serialize_profile (ps_codec P) p) r)))"

definition profile_discard :: "'r profile_store \<Rightarrow> string \<Rightarrow> string \<Rightarrow> 'r \<Rightarrow> bool \<times> 'r" where
  "profile_discard P channel user_id r =
     (case ps_redis P of
        None \<Rightarrow> (False, r)
      | Some R \<Rightarrow>
          if user_id = [] \<or> \<not> ps_reachable P then (False, r)
          else (True, rd_del R (profile_key channel user_id) r))"

text \<open>\<open>keys\<close> is what \<^verbatim>\<open>SCAN\<close> yields for the pattern of the channel, in any order and with repetitions.\<close>

definition scanned_profiles ::
    "'r profile_store \<Rightarrow> string list \<Rightarrow> string \<Rightarrow> 'r \<Rightarrow> (string \<times> user_profile) list" where
  "scanned_profiles P keys channel r =
     (case ps_redis P of
        None \<Rightarrow> []
      | Some R \<Rightarrow>
          if \<not> ps_reachable P then []
          else fold (\<lambda>key seen.
                 case Option.bind (rd_get R key r) (deserialize_profile (ps_codec P)) of
                   Some p \<Rightarrow> if up_channel p = channel then AList.update (up_user_id p) p seen else seen
                 | None \<Rightarrow> seen) keys [])"

definition add_json_users :: "user_profile list \<Rightarrow> (string \<times> user_profile) list \<Rightarrow> (string \<times> user_profile) list" where
  "add_json_users us seen =
     fold (\<lambda>e seen. if up_user_id e \<in> fst ` set seen then seen else seen @ [(up_user_id e, e)]) us seen"

definition list_users ::
    "'r profile_store \<Rightarrow> string list \<Rightarrow> string \<Rightarrow> string option \<Rightarrow> 'r \<Rightarrow> user_profile list" where
  "list_users P keys channel role_filter r =
     (let results = map snd (add_json_users (json_users P channel) (scanned_profiles P keys channel r))
      in case role_filter of None \<Rightarrow> results | Some role' \<Rightarrow> filter (\<lambda>p. up_role p = role') results)"

subsection \<open>The tier of a session\<close>

definition session_tier_key :: "string \<Rightarrow> string" where
  "session_tier_key skey = ''pyclaw:feishu:tier'' @ '':'' @ skey"

definition get_session_tier :: "'r redis option \<Rightarrow> bool \<Rightarrow> string \<Rightarrow> 'r \<Rightarrow> tier option" where
  "get_session_tier client reachable skey r =
     (case client of
        None \<Rightarrow> None
      | Some R \<Rightarrow> if skey = [] \<or> \<not> reachable then None
                  else Option.bind (rd_get R (session_tier_key skey) r) tier_of_name)"

definition set_session_tier :: "'r redis option \<Rightarrow> bool \<Rightarrow> string \<Rightarrow> string \<Rightarrow> int \<Rightarrow> 'r \<Rightarrow> bool \<times> 'r" where
  "set_session_tier client reachable skey tier ttl_seconds r =
     (case client of
        None \<Rightarrow> (False, r)
      | Some R \<Rightarrow>
          if skey = [] \<or> tier_of_name tier = None then (False, r)
          else if \<not> reachable \<or> ttl_seconds \<le> 0 then (False, r)
          else (True, rd_expire R (session_tier_key skey) ttl_seconds (rd_set R (session_tier_key skey) tier r)))"

definition parse_tier_arg :: "string \<Rightarrow> tier option" where
  "parse_tier_arg arg =
     (let s = py_lower (py_strip arg)
      in if s \<in> {''read-only'', ''readonly'', ''ro'', ''read_only'', ''r''} then Some ReadOnly
         else if s \<in> {''approval'', ''ap'', ''a''} then Some Approval
         else if s \<in> {''yolo'', ''y''} then Some Yolo
         else None)"

subsection \<open>Profile and tier of a turn\<close>

definition resolve_profile_and_tier ::
    "'r profile_store \<Rightarrow> string \<Rightarrow> string \<Rightarrow> tier option \<Rightarrow> tier option \<Rightarrow> tier \<Rightarrow> 'r \<Rightarrow> user_profile \<times> tier" where
  "resolve_profile_and_tier P channel user_id message_tier session_tier deployment_default r =
     (let profile = profile_get P channel user_id r
      in (profile, resolve_effective_tier message_tier session_tier (up_tier profile) deployment_default))"

subsection \<open>Properties\<close>

lemma tier_of_name_name [simp]: "tier_of_name (tier_name t) = Some t"
  by (cases t) (simp_all add: tier_of_name_def)

lemma tier_of_name_Some: "tier_of_name s = Some t \<longleftrightarrow> s = tier_name t"
  by (cases t) (auto simp: tier_of_name_def)

lemma find_SomeD: "find P xs = Some x \<Longrightarrow> x \<in> set xs \<and> P x"
  by (auto simp: find_Some_iff)

definition profile_valid :: "user_profile \<Rightarrow> bool" where
  "profile_valid p \<longleftrightarrow> up_channel p \<in> {''web'', ''feishu''} \<and> up_user_id p \<noteq> [] \<and> up_role p \<in> {''admin'', ''member''}"

lemma read_profile_json:
  assumes "profile_valid p"
  shows "\<exists>d. profile_json p = JObj d \<and> read_profile d = Some p"
proof -
  obtain d where d: "profile_json p = JObj d" by (simp add: profile_json_def)
  then have "d = [(''channel'', JStr (up_channel p)), (''user_id'', JStr (up_user_id p)), (''role'', JStr (up_role p)),
           (''tier_default'', case up_tier p of None \<Rightarrow> JNull | Some t \<Rightarrow> JStr (tier_name t)),
           (''tools_requiring_approval'', up_tools p), (''env_allowlist'', up_env p),
           (''sandbox_overrides'', up_sandbox p)]"
    by (simp add: profile_json_def)
  then have "jget ''channel'' d = JStr (up_channel p)" "jget ''user_id'' d = JStr (up_user_id p)"
    "jget_or (JStr ''member'') ''role'' d = JStr (up_role p)"
    "jget ''tier_default'' d = (case up_tier p of None \<Rightarrow> JNull | Some t \<Rightarrow> JStr (tier_name t))"
    "jget ''tools_requiring_approval'' d = up_tools p" "jget ''env_allowlist'' d = up_env p"
    "jget ''sandbox_overrides'' d = up_sandbox p"
    by (simp_all add: jget_def jget_or_def)
  moreover have "read_role d = up_role p" "read_tier d = up_tier p"
    using calculation assms by (auto simp: read_role_def read_tier_def profile_valid_def split: option.split)
  ultimately have "read_profile d = Some p"
    using assms by (auto simp: read_profile_def profile_valid_def)
  with d show ?thesis by blast
qed

lemma deserialize_Some:
  "deserialize_profile J raw = Some p \<Longrightarrow> \<exists>d. jc_loads J raw = Some (JObj d) \<and> read_profile d = Some p"
  by (simp add: deserialize_profile_def split: option.splits json.splits)

lemma redis_profile_Some:
  assumes "redis_profile P channel user_id r = Some p"
  shows "\<exists>R raw d. ps_redis P = Some R \<and> ps_reachable P
     \<and> rd_get R (profile_key channel user_id) r = Some raw
     \<and> jc_loads (ps_codec P) raw = Some (JObj d) \<and> read_profile d = Some p"
proof -
  from assms obtain R raw where "ps_redis P = Some R" "ps_reachable P"
      "rd_get R (profile_key channel user_id) r = Some raw" "deserialize_profile (ps_codec P) raw = Some p"
    by (auto simp: redis_profile_def bind_eq_Some_conv split: option.splits if_splits)
  with deserialize_Some [OF this(4)] show ?thesis by blast
qed

lemma read_role_cases: "read_role d \<in> {''admin'', ''member''}"
  by (simp add: read_role_def split: json.split)

lemma read_role_admin: "read_role d = ''admin'' \<Longrightarrow> jget ''role'' d = JStr ''admin''"
  by (auto simp: read_role_def jget_or_def jget_def split: json.splits if_splits option.splits)

lemma read_profile_Some:
  "read_profile d = Some p \<Longrightarrow> up_role p = read_role d \<and> up_tier p = read_tier d \<and> profile_valid p"
  using read_role_cases [of d]
  by (auto simp: read_profile_def profile_valid_def split: json.splits if_splits)

text \<open>
  Storing a valid profile and reading it back.  When the store reports success, the
  profile is read back unchanged from then on, whatever the configuration says of that user, and
  other users are read as before; when it reports failure, nothing has changed.
\<close>

theorem profile_set_get:
  assumes "\<forall>R. ps_redis P = Some R \<longrightarrow> redis_data_ok R" "profile_valid p"
    and "jc_loads (ps_codec P) (jc_dumps (ps_codec P) (profile_json p)) = Some (profile_json p)"
    and "profile_set P ttl p r = (ok, r')"
  shows "if ok then profile_get P (up_channel p) (up_user_id p) r' = p
               \<and> (\<forall>u. u \<noteq> up_user_id p \<longrightarrow> profile_get P (up_channel p) u r' = profile_get P (up_channel p) u r)
         else r' = r"
proof (cases ok)
  case True
  define ttl' where "ttl' = (case ttl of None \<Rightarrow> DEFAULT_TTL_SECONDS | Some t \<Rightarrow> t)"
  from True assms(4) obtain R where R: "ps_redis P = Some R" "ps_reachable P" "up_user_id p \<noteq> []" "0 < ttl'"
    and r': "r' = rd_expire R (profile_key (up_channel p) (up_user_id p)) ttl'
               (rd_set R (profile_key (up_channel p) (up_user_id p)) (serialize_profile (ps_codec P) p) r)"
    unfolding profile_set_def Let_def ttl'_def [symmetric]
    by (cases "ps_redis P") (auto split: if_splits)
  from assms(1) R have ok: "redis_data_ok R" by blast
  have g: "rd_get R (profile_key (up_channel p) u) r'
      = (if u = up_user_id p then Some (serialize_profile (ps_codec P) p)
         else rd_get R (profile_key (up_channel p) u) r)" for u
    by (auto simp: r' redis_expire_frame [OF ok R(4)] redis_read [OF ok] redis_frame [OF ok] profile_key_def)
  have "deserialize_profile (ps_codec P) (serialize_profile (ps_codec P) p) = Some p"
    using read_profile_json [OF assms(2)] assms(3)
    by (auto simp: deserialize_profile_def serialize_profile_def)
  with R True g show ?thesis
    by (auto simp: profile_get_def redis_profile_def)
next
  case False
  with assms(4) show ?thesis
    by (auto simp: profile_set_def Let_def split: option.splits if_splits)
qed

definition demo_profile :: user_profile where
  "demo_profile = (default_profile ''web'' ''u'')\<lparr>up_role := ''admin'', up_tier := Some ReadOnly\<rparr>"

definition demo_profiles :: "demo_redis profile_store" where
  "demo_profiles = \<lparr>ps_redis = Some demo_server, ps_reachable = True,
     ps_codec = \<lparr>jc_dumps = (\<lambda>_. ''J''), jc_loads = (\<lambda>_. Some (profile_json demo_profile))\<rparr>, ps_json = []\<rparr>"

theorem profile_set_get_witness:
  "\<exists>r'. profile_set demo_profiles None demo_profile demo_empty = (True, r')
     \<and> profile_get demo_profiles ''web'' ''u'' r' = demo_profile"
proof -
  obtain r' where s: "profile_set demo_profiles None demo_profile demo_empty = (True, r')"
    by (simp add: profile_set_def demo_profiles_def demo_profile_def default_profile_def
        DEFAULT_TTL_SECONDS_def Let_def)
  have "\<forall>R. ps_redis demo_profiles = Some R \<longrightarrow> redis_data_ok R"
    by (simp add: demo_profiles_def demo_data_ok)
  moreover have "profile_valid demo_profile"
    by (simp add: profile_valid_def demo_profile_def default_profile_def)
  moreover have "jc_loads (ps_codec demo_profiles) (jc_dumps (ps_codec demo_profiles) (profile_json demo_profile))
      = Some (profile_json demo_profile)" by (simp add: demo_profiles_def)
  ultimately show ?thesis
    using profile_set_get [OF _ _ _ s] s by (auto simp: demo_profile_def default_profile_def)
qed

text \<open>
  Nobody becomes an admin by accident: a profile is only read as an admin's if the
  configuration of the channel has an admin of that user id, or the value stored in Redis under
  the user's key is JSON whose role is the word \<^verbatim>\<open>admin\<close>; an unreachable Redis or an
  unreadable value falls back to the configuration, and without one to a member without a tier.
\<close>

theorem admin_needs_a_source:
  assumes "up_role (profile_get P channel user_id r) = ''admin''"
  shows "(\<exists>e \<in> set (json_users P channel). up_user_id e = user_id \<and> up_role e = ''admin'')
     \<or> (\<exists>R raw d. ps_redis P = Some R \<and> ps_reachable P
          \<and> rd_get R (profile_key channel user_id) r = Some raw
          \<and> jc_loads (ps_codec P) raw = Some (JObj d) \<and> jget ''role'' d = JStr ''admin'')"
proof (cases "redis_profile P channel user_id r")
  case None
  with assms show ?thesis
    by (auto simp: profile_get_def default_profile_def split: option.splits dest: find_SomeD)
next
  case (Some p)
  then obtain R raw d where R: "ps_redis P = Some R" "ps_reachable P"
      "rd_get R (profile_key channel user_id) r = Some raw" "jc_loads (ps_codec P) raw = Some (JObj d)"
      "read_profile d = Some p"
    using redis_profile_Some [OF Some] by blast
  from Some assms have "up_role p = ''admin''" by (simp add: profile_get_def)
  with R(5) have "jget ''role'' d = JStr ''admin''"
    by (simp add: read_profile_Some read_role_admin)
  with R show ?thesis by blast
qed

theorem admin_needs_a_source_witness:
  "\<exists>e \<in> set (json_users (demo_profiles\<lparr>ps_redis := None, ps_json := [(''web'', [demo_profile])]\<rparr>) ''web'').
     up_user_id e = ''u'' \<and> up_role e = ''admin''"
proof -
  let ?P = "demo_profiles\<lparr>ps_redis := None, ps_json := [(''web'', [demo_profile])]\<rparr>"
  have "up_role (profile_get ?P ''web'' ''u'' demo_empty) = ''admin''"
    by (simp add: profile_get_def redis_profile_def json_users_def demo_profile_def default_profile_def)
  from admin_needs_a_source [OF this] show ?thesis by simp
qed

lemma session_tier_set_get:
  assumes "redis_data_ok R" "set_session_tier (Some R) True skey tier ttl r = (True, r')"
  shows "get_session_tier (Some R) True skey r' = tier_of_name tier"
  using assms by (auto simp: set_session_tier_def get_session_tier_def redis_expire_frame redis_read split: if_splits)

end
