(* ===== verification/Steering.thy ===== *)
theory Steering
  imports PyPrelude
begin

section \<open>Steering a run, and hooks that add to the prompt\<close>

text \<open>
  The control of a run (\<^verbatim>\<open>src/pyclaw/core/agent/run_control.py\<close>), the commands that put messages
  into its bounded buffer (\<^verbatim>\<open>core/commands/steering.py\<close>), the hook that drains the buffer into the
  next prompt (\<^verbatim>\<open>core/agent/hooks/steer_hook.py\<close>), the hook that reminds of memorizing
  (\<^verbatim>\<open>hooks/memory_nudge_hook.py\<close>) and the collection of what hooks add (\<^verbatim>\<open>core/hooks.py\<close>).
\<close>

subsection \<open>The control of a run\<close>

datatype steer_kind = Steer | Sidebar

datatype steer_message = SteerMessage (sm_kind: steer_kind) (sm_text: string)

record run_control =
  rc_abort :: bool
  rc_active :: bool
  rc_done_elsewhere :: bool
  rc_pending :: "steer_message list"

definition rc_init :: run_control where
  "rc_init = \<lparr>rc_abort = False, rc_active = False, rc_done_elsewhere = False, rc_pending = []\<rparr>"

definition rc_stop :: "run_control \<Rightarrow> run_control" where
  "rc_stop rc = rc\<lparr>rc_abort := True, rc_pending := []\<rparr>"

definition rc_is_active :: "run_control \<Rightarrow> bool" where
  "rc_is_active rc = (rc_active rc \<and> \<not> rc_abort rc)"

subsection \<open>The bounded buffer\<close>

definition CAP_COUNT :: nat where "CAP_COUNT = 5"

definition CAP_CHARS :: nat where "CAP_CHARS = 2000"

definition steer_chars :: "steer_message list \<Rightarrow> nat" where
  "steer_chars ms = sum_list (map (length \<circ> sm_text) ms)"

definition too_many :: "steer_message list \<Rightarrow> bool" where
  "too_many ms = (CAP_COUNT \<le> length ms)"

definition too_long :: "string \<Rightarrow> steer_message list \<Rightarrow> bool" where
  "too_long new_text ms = (CAP_CHARS < steer_chars ms + length new_text \<and> ms \<noteq> [])"

datatype cap_result = Refused | Accepted (cr_dropped: bool)

definition enforce_cap :: "run_control \<Rightarrow> string \<Rightarrow> cap_result \<times> run_control" where
  "enforce_cap rc new_text =
     (if CAP_CHARS < length new_text then (Refused, rc)
      else
        let ms1 = pop_while too_many (rc_pending rc);
            ms2 = pop_while (too_long new_text) ms1
        in (Accepted (length ms2 < length (rc_pending rc)), rc\<lparr>rc_pending := ms2\<rparr>))"

datatype steer_reply =
    NeedsArgument
  | NoRunControl
  | NoActiveRun
  | TextTooLong
  | SteerAccepted (with_warning: bool)

definition handle_steer ::
    "steer_kind \<Rightarrow> string \<Rightarrow> run_control option \<Rightarrow> steer_reply \<times> run_control option" where
  "handle_steer kind args ctl =
     (let payload = py_strip args
      in if payload = [] then (NeedsArgument, ctl)
         else case ctl of
                None \<Rightarrow> (NoRunControl, ctl)
              | Some rc \<Rightarrow>
                  if \<not> rc_is_active rc then (NoActiveRun, ctl)
                  else case enforce_cap rc payload of
                         (Refused, rc') \<Rightarrow> (TextTooLong, Some rc')
                       | (Accepted dropped, rc') \<Rightarrow>
                           (SteerAccepted dropped,
                            Some (rc'\<lparr>rc_pending := rc_pending rc' @ [SteerMessage kind payload]\<rparr>)))"

definition cmd_steer :: "string \<Rightarrow> run_control option \<Rightarrow> steer_reply \<times> run_control option" where
  "cmd_steer = handle_steer Steer"

definition cmd_btw :: "string \<Rightarrow> run_control option \<Rightarrow> steer_reply \<times> run_control option" where
  "cmd_btw = handle_steer Sidebar"

subsection \<open>The hook that drains the buffer\<close>

text \<open>\<^verbatim>\<open>xml_escape\<close>: the replacements one after the other, the ampersand first.\<close>

definition xml_escape :: "string \<Rightarrow> string" where
  "xml_escape s =
     replace_char_str (CHR 0x27) ''&apos;''
       (replace_char_str (CHR 0x22) ''&quot;''
          (replace_char_str (CHR ''>'') ''&gt;''
             (replace_char_str (CHR ''<'') ''&lt;''
                (replace_char_str (CHR ''&'') ''&amp;'' s))))"

definition SIDEBAR_INSTRUCTION :: string where
  "SIDEBAR_INSTRUCTION = ''(Please answer the side question(s) briefly, then return to the main task.)''"

definition STEER_HEADER :: string where
  "STEER_HEADER =
     ''IMPORTANT: The user has issued mid-run steering directives via /steer. ''
     @ ''These instructions OVERRIDE any conflicting directions from the main user ''
     @ ''message. You MUST follow them even if they contradict what the user ''
     @ ''originally asked for.''"

definition steer_lines :: "steer_message list \<Rightarrow> string list" where
  "steer_lines ms = map (\<lambda>m. ''- '' @ xml_escape (sm_text m)) ms"

definition steer_parts :: "steer_message list \<Rightarrow> string list" where
  "steer_parts msgs =
     (let steers = filter (\<lambda>m. sm_kind m = Steer) msgs;
          sidebars = filter (\<lambda>m. sm_kind m = Sidebar) msgs
      in (if steers \<noteq> []
          then [py_join nl ([''<user_steer>'', STEER_HEADER] @ steer_lines steers @ [''</user_steer>''])] else [])
       @ (if sidebars \<noteq> []
          then [py_join nl ([''<user_sidebar>''] @ steer_lines sidebars @ [''</user_sidebar>'', SIDEBAR_INSTRUCTION])]
          else []))"

text \<open>
  The hook knows the control of every running session.  It is the object the commands change,
  so the state of both is one dictionary of controls.
\<close>

type_synonym steer_hook = "(string \<times> run_control) list"

definition steer_run_start :: "string \<Rightarrow> run_control \<Rightarrow> steer_hook \<Rightarrow> steer_hook" where
  "steer_run_start sid rc h = AList.update sid (rc\<lparr>rc_pending := []\<rparr>) h"

definition steer_run_end :: "string \<Rightarrow> steer_hook \<Rightarrow> steer_hook" where
  "steer_run_end sid h = AList.delete sid h"

definition steer_prompt :: "string \<Rightarrow> steer_hook \<Rightarrow> string option \<times> steer_hook" where
  "steer_prompt sid h =
     (case map_of h sid of
        None \<Rightarrow> (None, h)
      | Some rc \<Rightarrow>
          if rc_pending rc = [] then (None, h)
          else (Some (py_join (nl @ nl) (steer_parts (rc_pending rc))),
                AList.update sid (rc\<lparr>rc_pending := []\<rparr>) h))"

subsection \<open>The reminder\<close>

definition NUDGE_TEXT :: string where
  "NUDGE_TEXT = ''<nudge>Consider using `memorize` to save important facts or workflows for future sessions.</nudge>''"

record nudge_hook =
  nh_interval :: int
  nh_counts :: "(string \<times> int) list"

definition new_nudge_hook :: "int \<Rightarrow> nudge_hook option" where
  "new_nudge_hook interval = (if interval \<le> 0 then None else Some \<lparr>nh_interval = interval, nh_counts = []\<rparr>)"

definition nudge_count :: "string \<Rightarrow> nudge_hook \<Rightarrow> int" where
  "nudge_count sid h = (case map_of (nh_counts h) sid of None \<Rightarrow> 0 | Some n \<Rightarrow> n)"

definition nudge_reset :: "string \<Rightarrow> nudge_hook \<Rightarrow> nudge_hook" where
  "nudge_reset sid h = h\<lparr>nh_counts := AList.delete sid (nh_counts h)\<rparr>"

definition nudge_prompt :: "string \<Rightarrow> nudge_hook \<Rightarrow> string option \<times> nudge_hook" where
  "nudge_prompt sid h =
     (let n = nudge_count sid h + 1
      in (if 0 < n \<and> n mod nh_interval h = 0 then Some NUDGE_TEXT else None,
          h\<lparr>nh_counts := AList.update sid n (nh_counts h)\<rparr>))"

text \<open>The name of a call as the hook reads it: anything that is no object has none.\<close>

definition observed_name :: "jobj \<Rightarrow> json" where
  "observed_name call =
     (let fn = jget ''function'' call
      in if \<not> truthy fn then JStr [] else case fn of JObj d \<Rightarrow> jget_or (JStr []) ''name'' d | _ \<Rightarrow> JStr [])"

definition nudge_response :: "string \<Rightarrow> jobj list \<Rightarrow> nudge_hook \<Rightarrow> nudge_hook" where
  "nudge_response sid calls h =
     (if \<exists>call \<in> set calls. observed_name call = JStr ''memorize''
      then h\<lparr>nh_counts := AList.update sid 0 (nh_counts h)\<rparr> else h)"

subsection \<open>Collecting what the hooks add\<close>

datatype hook_result = HookFailed | HookNone | HookAdds (ha_prepend: "string option") (ha_append: "string option")

definition added :: "(hook_result \<Rightarrow> string option) \<Rightarrow> hook_result list \<Rightarrow> string list" where
  "added field rs =
     List.map_filter (\<lambda>r. case r of HookAdds _ _ \<Rightarrow> (if opt_truthy (field r) then field r else None) | _ \<Rightarrow> None) rs"

definition join_additions :: "string list \<Rightarrow> string option" where
  "join_additions xs = (if xs = [] then None else Some (py_join (nl @ nl) xs))"

definition collect_prompt_additions :: "hook_result list \<Rightarrow> string option \<times> string option" where
  "collect_prompt_additions rs = (join_additions (added ha_prepend rs), join_additions (added ha_append rs))"


subsection \<open>The buffer keeps its bounds\<close>

interpretation steer_count: fifo_bound too_many
  by unfold_locales (auto simp: too_many_def CAP_COUNT_def)

interpretation steer_size: fifo_bound "too_long new_text"
  by unfold_locales (auto simp: too_long_def steer_chars_def)

lemma steer_chars_append [simp]: "steer_chars (xs @ ys) = steer_chars xs + steer_chars ys"
  by (simp add: steer_chars_def)

definition buffer_ok :: "run_control \<Rightarrow> bool" where
  "buffer_ok rc \<longleftrightarrow> length (rc_pending rc) \<le> CAP_COUNT \<and> steer_chars (rc_pending rc) \<le> CAP_CHARS"

lemma enforce_cap_spec:
  assumes "enforce_cap rc new_text = (Accepted dropped, rc')"
  shows "suffix (rc_pending rc') (rc_pending rc)"
    "length (rc_pending rc') < CAP_COUNT"
    "steer_chars (rc_pending rc') + length new_text \<le> CAP_CHARS"
    "dropped \<longleftrightarrow> rc_pending rc' \<noteq> rc_pending rc"
    "rc_abort rc' = rc_abort rc" "rc_active rc' = rc_active rc"
proof -
  let ?m1 = "pop_while too_many (rc_pending rc)"
  let ?m2 = "pop_while (too_long new_text) ?m1"
  from assms have len: "length new_text \<le> CAP_CHARS" and rc': "rc' = rc\<lparr>rc_pending := ?m2\<rparr>"
    and d: "dropped = (length ?m2 < length (rc_pending rc))"
    by (auto simp: enforce_cap_def Let_def split: if_splits)
  have suf: "suffix ?m2 (rc_pending rc)"
    by (meson pop_while_suffix suffix_order.trans)
  then show "suffix (rc_pending rc') (rc_pending rc)" by (simp add: rc')
  have "\<not> too_many ?m1" by (rule steer_count.within)
  moreover have "length ?m2 \<le> length ?m1" by (rule length_pop_while_le)
  ultimately show "length (rc_pending rc') < CAP_COUNT" by (simp add: rc' too_many_def)
  show "steer_chars (rc_pending rc') + length new_text \<le> CAP_CHARS"
    using steer_size.within [of new_text ?m1] len by (auto simp: rc' too_long_def steer_chars_def)
  show "dropped \<longleftrightarrow> rc_pending rc' \<noteq> rc_pending rc"
  proof -
    obtain zs where z: "rc_pending rc = zs @ ?m2" using suf by (auto simp: suffix_def)
    have "length ?m2 < length (rc_pending rc) \<longleftrightarrow> zs \<noteq> []"
      using arg_cong [OF z, of length] by auto
    moreover have "?m2 \<noteq> rc_pending rc \<longleftrightarrow> zs \<noteq> []" by (metis append_self_conv2 z)
    ultimately show ?thesis by (simp add: d rc')
  qed
  show "rc_abort rc' = rc_abort rc" "rc_active rc' = rc_active rc" by (simp_all add: rc')
qed

text \<open>
  What can happen to the control of an active run: a steering command, and a prompt being built.
  The run keeps a record of the messages that were accepted, of those the prompts received, and
  whether an acceptance came with the warning.
\<close>

datatype steer_event = Command steer_kind string | PromptBuilt

record steer_log =
  sl_control :: run_control
  sl_accepted :: "steer_message list"
  sl_delivered :: "steer_message list"
  sl_warned :: bool

fun steer_step :: "steer_event \<Rightarrow> steer_log \<Rightarrow> steer_log" where
  "steer_step (Command kind args) l =
     (case handle_steer kind args (Some (sl_control l)) of
        (SteerAccepted w, Some rc) \<Rightarrow>
          l\<lparr>sl_control := rc, sl_accepted := sl_accepted l @ [SteerMessage kind (py_strip args)],
            sl_warned := sl_warned l \<or> w\<rparr>
      | _ \<Rightarrow> l)"
| "steer_step PromptBuilt l =
     (let (result, h) = steer_prompt ''s'' [(''s'', sl_control l)]
      in l\<lparr>sl_control := the (map_of h ''s''),
           sl_delivered := sl_delivered l @ (if result = None then [] else rc_pending (sl_control l))\<rparr>)"

definition log_ok :: "steer_log \<Rightarrow> bool" where
  "log_ok l \<longleftrightarrow>
     buffer_ok (sl_control l)
     \<and> subseq (sl_delivered l @ rc_pending (sl_control l)) (sl_accepted l)
     \<and> (\<not> sl_warned l \<longrightarrow> sl_delivered l @ rc_pending (sl_control l) = sl_accepted l)"

lemma accept_log_ok:
  assumes l: "log_ok l" and a: "handle_steer kind args (Some (sl_control l)) = (SteerAccepted w, Some rc)"
  shows "log_ok (l\<lparr>sl_control := rc, sl_accepted := sl_accepted l @ [SteerMessage kind (py_strip args)],
                   sl_warned := sl_warned l \<or> w\<rparr>)"
proof -
  let ?m = "SteerMessage kind (py_strip args)"
  from a obtain rc1 where c: "enforce_cap (sl_control l) (py_strip args) = (Accepted w, rc1)"
    and rc: "rc = rc1\<lparr>rc_pending := rc_pending rc1 @ [?m]\<rparr>"
    by (auto simp: handle_steer_def Let_def split: if_splits prod.splits cap_result.splits)
  note s = enforce_cap_spec [OF c]
  from s(1) obtain ds where p: "rc_pending (sl_control l) = ds @ rc_pending rc1" by (auto simp: suffix_def)
  have "subseq (sl_delivered l @ rc_pending rc1) (sl_delivered l @ rc_pending (sl_control l))"
    unfolding p by (intro list_emb_append_mono) (simp_all add: list_emb_append2)
  with l have "subseq (sl_delivered l @ rc_pending rc1) (sl_accepted l)"
    unfolding log_ok_def by (meson subseq_order.trans)
  then have "subseq ((sl_delivered l @ rc_pending rc1) @ [?m]) (sl_accepted l @ [?m])"
    by (rule list_emb_append_mono) simp
  moreover have "\<not> w \<Longrightarrow> rc_pending rc1 = rc_pending (sl_control l)" using s(4) by simp
  moreover have "buffer_ok rc"
    using s(2,3) by (simp add: buffer_ok_def rc steer_chars_def)
  ultimately show ?thesis using l by (auto simp: log_ok_def rc)
qed

lemma steer_step_ok: "log_ok l \<Longrightarrow> log_ok (steer_step ev l)"
proof (cases ev)
  case (Command kind args)
  then show "log_ok l \<Longrightarrow> log_ok (steer_step ev l)"
    by (auto intro: accept_log_ok split: prod.split steer_reply.split option.split)
next
  case PromptBuilt
  then show "log_ok l \<Longrightarrow> log_ok (steer_step ev l)"
    by (auto simp: log_ok_def steer_prompt_def buffer_ok_def steer_chars_def)
qed

definition steer_start :: "run_control \<Rightarrow> steer_log" where
  "steer_start rc = \<lparr>sl_control = rc\<lparr>rc_pending := []\<rparr>, sl_accepted = [], sl_delivered = [], sl_warned = False\<rparr>"


subsection \<open>What users write cannot close the block\<close>

lemma set_replace_char_str: "set (replace_char_str c r s) \<subseteq> (set s - {c}) \<union> set r"
  by (auto simp: replace_char_str_def split: if_splits)

lemma xml_escape_safe: "CHR ''<'' \<notin> set (xml_escape s) \<and> CHR ''>'' \<notin> set (xml_escape s)"
proof -
  have drop: "x \<notin> set (replace_char_str c r t)" if "x \<notin> set r" "x = c \<or> x \<notin> set t" for x c r t
    using set_replace_char_str [of c r t] that by blast
  have kept: "x \<notin> set (replace_char_str c r t)" if "x \<notin> set r" "x \<notin> set t" for x c r t
    using drop that by blast
  let ?a = "replace_char_str (CHR ''&'') ''&amp;'' s"
  let ?b = "replace_char_str (CHR ''<'') ''&lt;'' ?a"
  let ?c = "replace_char_str (CHR ''>'') ''&gt;'' ?b"
  have "CHR ''<'' \<notin> set ?b" by (rule drop) simp_all
  then have "CHR ''<'' \<notin> set ?c" by (rule kept [rotated]) simp
  moreover have "CHR ''>'' \<notin> set ?c" by (rule drop) simp_all
  ultimately have c: "x \<in> {CHR ''<'', CHR ''>''} \<Longrightarrow> x \<notin> set ?c" for x by blast
  have "x \<in> {CHR ''<'', CHR ''>''} \<Longrightarrow> x \<notin> set (replace_char_str (CHR 0x22) ''&quot;'' ?c)" for x
    by (rule kept [OF _ c]) auto
  then have "x \<in> {CHR ''<'', CHR ''>''} \<Longrightarrow> x \<notin> set (xml_escape s)" for x
    unfolding xml_escape_def by (rule kept [rotated]) auto
  then show ?thesis by blast
qed

text \<open>
  No text of a user closes the block of the steering directives or opens another:
  every line the hook adds for a message holds neither of the characters \<open><\<close> and \<open>>\<close>.
\<close>

theorem steer_lines_are_escaped:
  "\<forall>line \<in> set (steer_lines ms). CHR ''<'' \<notin> set line \<and> CHR ''>'' \<notin> set line"
  using xml_escape_safe by (auto simp: steer_lines_def)

end
