(* ===== verification/MemoryIndex.thy ===== *)
theory MemoryIndex
  imports Tools SessionStore
begin

section \<open>Bounded memories\<close>

text \<open>
  The first-level index of memories (\<^verbatim>\<open>src/pyclaw/storage/memory/redis_index.py\<close>), the working
  memory of a session (\<^verbatim>\<open>core/agent/tools/update_working_memory.py\<close> and
  \<^verbatim>\<open>core/agent/hooks/working_memory_hook.py\<close>), the tool that memorizes
  (\<^verbatim>\<open>tools/memorize.py\<close>), the copy of a memory that goes into the index
  (\<^verbatim>\<open>storage/memory/composite.py\<close>), and the names of database files (\<^verbatim>\<open>storage/memory/naming.py\<close>).
  A Redis hash is a dictionary and a Redis list a list; entries are stored as values.
\<close>

record memory_entry =
  mem_id :: string
  mem_layer :: string
  mem_type :: string
  mem_content :: string
  mem_source :: "string option"
  mem_created :: rat
  mem_updated :: rat
  mem_used :: "rat option"
  mem_uses :: int
  mem_status :: string

subsection \<open>The first-level index\<close>

record l1_index =
  l1_max_entries :: nat
  l1_max_chars :: nat
  l1_hash :: "(string \<times> memory_entry) list"

definition l1_chars :: "(string \<times> memory_entry) list \<Rightarrow> nat" where
  "l1_chars es = sum_list (map (\<lambda>p. length (mem_content (snd p))) es)"

definition l1_too_many :: "nat \<Rightarrow> (string \<times> memory_entry) list \<Rightarrow> bool" where
  "l1_too_many n es = (n < length es)"

definition l1_too_long :: "nat \<Rightarrow> (string \<times> memory_entry) list \<Rightarrow> bool" where
  "l1_too_long n es = (n < l1_chars es \<and> es \<noteq> [])"

definition l1_index_get :: "l1_index \<Rightarrow> memory_entry list" where
  "l1_index_get ix = sort_key (\<lambda>e. - mem_updated e) (map snd (l1_hash ix))"

text \<open>The fields that stay: the oldest are deleted one by one, first by number, then by size.\<close>

definition l1_kept :: "l1_index \<Rightarrow> (string \<times> memory_entry) list" where
  "l1_kept ix =
     pop_while (l1_too_long (l1_max_chars ix))
       (pop_while (l1_too_many (l1_max_entries ix))
          (sort_key (\<lambda>p. mem_updated (snd p)) (l1_hash ix)))"

definition l1_evict :: "l1_index \<Rightarrow> l1_index" where
  "l1_evict ix = ix\<lparr>l1_hash := filter (\<lambda>p. fst p \<in> fst ` set (l1_kept ix)) (l1_hash ix)\<rparr>"

definition l1_index_update :: "memory_entry \<Rightarrow> l1_index \<Rightarrow> l1_index" where
  "l1_index_update e ix = l1_evict (ix\<lparr>l1_hash := AList.update (mem_id e) e (l1_hash ix)\<rparr>)"

definition l1_index_remove :: "string \<Rightarrow> l1_index \<Rightarrow> l1_index" where
  "l1_index_remove i ix = ix\<lparr>l1_hash := AList.delete i (l1_hash ix)\<rparr>"

text \<open>\<^verbatim>\<open>CompositeMemoryStore.store\<close>: the index gets a copy with at most 100 characters.\<close>

definition l1_copy :: "memory_entry \<Rightarrow> memory_entry" where
  "l1_copy e = e\<lparr>mem_layer := ''L1'', mem_content := take 100 (mem_content e)\<rparr>"

subsection \<open>The working memory\<close>

record working_memory =
  wm_fields :: "(string \<times> string) list"
  wm_order :: "string list"

definition wm_chars :: "(string \<times> string) list \<Rightarrow> nat" where
  "wm_chars fs = sum_list (map (\<lambda>p. length (fst p) + length (snd p)) fs)"

text \<open>
  The loop of \<^verbatim>\<open>_evict_if_needed\<close>: the oldest key is taken off the list until the total fits or
  the list is empty.
\<close>

fun wm_evict :: "nat \<Rightarrow> string list \<Rightarrow> (string \<times> string) list \<Rightarrow> working_memory" where
  "wm_evict max_chars [] fs = \<lparr>wm_fields = fs, wm_order = []\<rparr>"
| "wm_evict max_chars (oldest # ks) fs =
     (if wm_chars fs \<le> max_chars then \<lparr>wm_fields = fs, wm_order = oldest # ks\<rparr>
      else wm_evict max_chars ks (AList.delete oldest fs))"

definition update_working_memory ::
    "nat \<Rightarrow> jobj \<Rightarrow> working_memory \<Rightarrow> tool_result \<times> working_memory" where
  "update_working_memory max_chars args wm =
     (let cid = as_str (jget_or (JStr []) ''_call_id'' args)
      in case jget_or (JStr []) ''key'' args of
           JStr key \<Rightarrow>
             if key = [] then (error_result cid ''update_working_memory: 'key' must be a non-empty string'', wm)
             else (case jget_or (JStr []) ''value'' args of
                     JStr v \<Rightarrow>
                       let existing = map_of (wm_fields wm) key;
                           fs = AList.update key v (wm_fields wm);
                           ks = (if existing = None then wm_order wm @ [key] else wm_order wm)
                       in (text_result cid (''stored '' @ [CHR 0x27] @ key @ [CHR 0x27] @ '' in working memory''),
                           wm_evict max_chars ks fs)
                   | _ \<Rightarrow> (error_result cid ''update_working_memory: 'value' must be a string'', wm))
         | _ \<Rightarrow> (error_result cid ''update_working_memory: 'key' must be a non-empty string'', wm))"

definition wm_block :: "string list \<Rightarrow> string" where
  "wm_block ls = ''<working_memory>'' @ nl @ py_join nl ls @ nl @ ''</working_memory>''"

definition block_too_long :: "nat \<Rightarrow> string list \<Rightarrow> bool" where
  "block_too_long max_chars ls = (max_chars < length (wm_block ls) \<and> ls \<noteq> [])"

definition ordered_keys :: "working_memory \<Rightarrow> string list" where
  "ordered_keys wm =
     (if wm_order wm \<noteq> []
      then filter (\<lambda>k. k \<in> fst ` set (wm_fields wm)) (wm_order wm)
           @ filter (\<lambda>k. k \<notin> set (wm_order wm)) (map fst (wm_fields wm))
      else map fst (wm_fields wm))"

text \<open>\<^verbatim>\<open>WorkingMemoryHook.before_prompt_build\<close>: nothing is added when no line is left.\<close>

definition wm_prompt :: "nat \<Rightarrow> working_memory \<Rightarrow> string option" where
  "wm_prompt max_chars wm =
     (if wm_fields wm = [] then None
      else
        let ls = map (\<lambda>k. ''- '' @ k @ '': '' @ the (map_of (wm_fields wm) k)) (ordered_keys wm);
            kept = pop_while (block_too_long max_chars) ls
        in if kept = [] \<and> ls \<noteq> [] then None else Some (wm_block kept))"

subsection \<open>Memorizing\<close>

definition derive_session_key :: "string \<Rightarrow> string" where
  "derive_session_key sid = (case py_find '':s:'' sid of Some i \<Rightarrow> take i sid | None \<Rightarrow> sid)"

definition has_tool_use :: "session_tree \<Rightarrow> bool" where
  "has_tool_use t =
     (\<exists>e \<in> set (map snd (entries t)). case body e of MessageEntry r _ _ _ _ \<Rightarrow> r = RTool | _ \<Rightarrow> False)"

text \<open>
  \<^verbatim>\<open>MemorizeTool.execute\<close>.  \<open>loaded\<close> is what loading the session gave (an exception's text, or the
  tree if there is one), \<open>stored\<close> what storing gives; \<open>uuid\<close> and \<open>now\<close> are the reading of the id
  generator and of the clock.  The result also says what was handed to the memory store; it is
  \<^const>\<open>None\<close> when a type that is no string makes the constructor of the entry raise.
\<close>

definition memorize_entry :: "string \<Rightarrow> rat \<Rightarrow> string \<Rightarrow> string \<Rightarrow> string \<Rightarrow> string \<Rightarrow> memory_entry" where
  "memorize_entry uuid now sid layer ty content =
     \<lparr>mem_id = uuid, mem_layer = layer, mem_type = ty, mem_content = content, mem_source = Some sid,
      mem_created = now, mem_updated = now, mem_used = None, mem_uses = 0, mem_status = ''active''\<rparr>"

definition memorize_execute ::
    "string \<Rightarrow> rat \<Rightarrow> string \<Rightarrow> (string + session_tree option) \<Rightarrow> (string \<Rightarrow> memory_entry \<Rightarrow> string option)
       \<Rightarrow> (json \<Rightarrow> string) \<Rightarrow> jobj \<Rightarrow> (tool_result \<times> (string \<times> memory_entry) option) option" where
  "memorize_execute uuid now sid loaded store_fails repr args =
     (let cid = as_str (jget_or (JStr []) ''_call_id'' args);
          layer = jget ''layer'' args;
          refuse = (\<lambda>msg. Some (error_result cid msg, None))
      in case jget ''content'' args of
           JStr content \<Rightarrow>
             if py_strip content = [] then refuse ''memorize: 'content' must be a non-empty string''
             else if layer \<noteq> JStr ''L2'' \<and> layer \<noteq> JStr ''L3''
             then refuse (''memorize: 'layer' must be 'L2' or 'L3', got '' @ repr layer)
             else (case loaded of
                     Inl exc \<Rightarrow> refuse (''memorize: failed to load session: '' @ exc)
                   | Inr None \<Rightarrow>
                       refuse ''memorize: requires prior tool execution in this session (session not found)''
                   | Inr (Some t) \<Rightarrow>
                       if \<not> has_tool_use t
                       then refuse ''memorize: requires at least one successful tool execution before memorizing''
                       else (case jget_or (JStr ''general'') ''type'' args of
                               JStr ty \<Rightarrow>
                                 let key = derive_session_key sid;
                                     e = memorize_entry uuid now sid (as_str layer) ty content
                                 in (case store_fails key e of
                                       Some exc \<Rightarrow>
                                         Some (error_result cid (''memorize: store failed: '' @ exc), Some (key, e))
                                     | None \<Rightarrow>
                                         Some (text_result cid
                                                 (''memorized ('' @ as_str layer @ ''/'' @ ty @ ''): '' @ take 80 content
                                                  @ (if length content > 80 then ''...'' else [])), Some (key, e)))
                             | _ \<Rightarrow> None))
         | _ \<Rightarrow> refuse ''memorize: 'content' must be a non-empty string'')"

subsection \<open>Names of database files\<close>

definition dangerous_char :: "char \<Rightarrow> bool" where
  "dangerous_char c = (let n = (of_char c :: nat) in c = CHR ''/'' \<or> c = CHR 0x5C \<or> n < 32 \<or> n = 127)"

text \<open>\<open>digest\<close> is the hexadecimal SHA-256; \<^const>\<open>None\<close> is the \<^verbatim>\<open>ValueError\<close> on an empty key.\<close>

definition human_filename :: "(string \<Rightarrow> string) \<Rightarrow> string \<Rightarrow> string option" where
  "human_filename digest skey =
     (if skey = [] then None
      else
        let stage1 = replace_char (CHR '':'') (CHR ''_'') skey
        in if stage1 = ''.'' \<or> stage1 = ''..'' \<or> py_strip stage1 = []
           then Some (''_unsafe_'' @ take 16 (digest skey) @ ''.db'')
           else Some (map (\<lambda>c. if dangerous_char c then CHR ''_'' else c) stage1 @ ''.db''))"

definition hash_filename :: "(string \<Rightarrow> string) \<Rightarrow> string \<Rightarrow> string" where
  "hash_filename digest skey = digest skey @ ''.db''"

subsection \<open>The index is bounded and keeps the newest\<close>

interpretation l1_count: fifo_bound "l1_too_many n"
  by unfold_locales (auto simp: l1_too_many_def)

interpretation l1_size: fifo_bound "l1_too_long n"
  by unfold_locales (auto simp: l1_too_long_def l1_chars_def)

interpretation wm_size: fifo_bound "block_too_long n"
proof unfold_locales
  fix x and xs :: "string list"
  assume "block_too_long n xs"
  then show "block_too_long n (x # xs)"
    by (cases xs) (auto simp: block_too_long_def wm_block_def)
qed (simp add: block_too_long_def)

lemma l1_kept_suffix: "suffix (l1_kept ix) (sort_key (\<lambda>p. mem_updated (snd p)) (l1_hash ix))"
  unfolding l1_kept_def by (meson pop_while_suffix suffix_order.trans)

lemma l1_kept_bounds:
  "length (l1_kept ix) \<le> l1_max_entries ix" "l1_chars (l1_kept ix) \<le> l1_max_chars ix"
proof -
  let ?s = "sort_key (\<lambda>p. mem_updated (snd p)) (l1_hash ix)"
  have "\<not> l1_too_many (l1_max_entries ix) (pop_while (l1_too_many (l1_max_entries ix)) ?s)"
    by (rule l1_count.within)
  then show "length (l1_kept ix) \<le> l1_max_entries ix"
    unfolding l1_kept_def l1_too_many_def
    using length_pop_while_le [of "l1_too_long (l1_max_chars ix)"] by (meson leI order_trans)
  have "\<not> l1_too_long (l1_max_chars ix) (l1_kept ix)"
    unfolding l1_kept_def by (rule l1_size.within)
  moreover have "l1_chars [] = 0" by (simp add: l1_chars_def)
  ultimately show "l1_chars (l1_kept ix) \<le> l1_max_chars ix"
    unfolding l1_too_long_def by (cases "l1_kept ix") auto
qed

lemma filter_kept_keys:
  assumes "distinct (map fst (ds @ ks))"
  shows "filter (\<lambda>p. fst p \<in> fst ` set ks) (ds @ ks) = ks"
proof -
  have "fst ` set ds \<inter> fst ` set ks = {}" using assms by simp
  then have "filter (\<lambda>p. fst p \<in> fst ` set ks) ds = []" by (fastforce simp: filter_empty_conv)
  moreover have "filter (\<lambda>p. fst p \<in> fst ` set ks) ks = ks" by (rule filter_True) simp
  ultimately show ?thesis by simp
qed

lemma l1_chars_mset: "mset es = mset es' \<Longrightarrow> l1_chars es = l1_chars es'"
  unfolding l1_chars_def
  by (subst (1 2) sum_mset_sum_list [symmetric], subst (1 2) mset_map) simp

lemma mset_evicted:
  assumes "distinct (map fst (l1_hash ix))"
  shows "mset (l1_hash (l1_evict ix)) = mset (l1_kept ix)"
proof -
  let ?f = "\<lambda>p. mem_updated (snd p)"
  let ?s = "sort_key ?f (l1_hash ix)"
  obtain ds where s: "?s = ds @ l1_kept ix" using l1_kept_suffix by (auto simp: suffix_def)
  have m: "mset ?s = mset (l1_hash ix)" by simp
  have "mset (map fst ?s) = mset (map fst (l1_hash ix))" using m by (metis mset_map)
  then have "distinct (map fst ?s)" using assms by (metis mset_eq_imp_distinct_iff)
  then have d: "distinct (map fst (ds @ l1_kept ix))" by (simp only: s)
  have "mset (l1_hash (l1_evict ix)) = filter_mset (\<lambda>p. fst p \<in> fst ` set (l1_kept ix)) (mset (l1_hash ix))"
    by (simp add: l1_evict_def)
  also have "mset (l1_hash ix) = mset (ds @ l1_kept ix)" using m s by metis
  also have "filter_mset (\<lambda>p. fst p \<in> fst ` set (l1_kept ix)) (mset (ds @ l1_kept ix))
      = mset (filter (\<lambda>p. fst p \<in> fst ` set (l1_kept ix)) (ds @ l1_kept ix))"
    by (rule mset_filter [symmetric])
  also have "filter (\<lambda>p. fst p \<in> fst ` set (l1_kept ix)) (ds @ l1_kept ix) = l1_kept ix"
    using d by (rule filter_kept_keys)
  finally show ?thesis .
qed

lemma l1_evict_spec:
  assumes d: "distinct (map fst (l1_hash ix))"
  shows "length (l1_hash (l1_evict ix)) \<le> l1_max_entries ix"
    "l1_chars (l1_hash (l1_evict ix)) \<le> l1_max_chars ix"
    "set (l1_hash (l1_evict ix)) \<subseteq> set (l1_hash ix)"
    "p \<in> set (l1_hash ix) \<Longrightarrow> p \<notin> set (l1_hash (l1_evict ix)) \<Longrightarrow> q \<in> set (l1_hash (l1_evict ix))
       \<Longrightarrow> mem_updated (snd p) \<le> mem_updated (snd q)"
proof -
  let ?f = "\<lambda>p. mem_updated (snd p)"
  let ?s = "sort_key ?f (l1_hash ix)"
  note m = mset_evicted [OF d]
  then have len: "length (l1_hash (l1_evict ix)) = length (l1_kept ix)" by (metis size_mset)
  have "l1_chars (l1_hash (l1_evict ix)) = l1_chars (l1_kept ix)"
    using m by (rule l1_chars_mset)
  with len l1_kept_bounds show "length (l1_hash (l1_evict ix)) \<le> l1_max_entries ix"
    "l1_chars (l1_hash (l1_evict ix)) \<le> l1_max_chars ix" by simp_all
  have set_eq: "set (l1_hash (l1_evict ix)) = set (l1_kept ix)" by (metis m set_mset_mset)
  show "set (l1_hash (l1_evict ix)) \<subseteq> set (l1_hash ix)" by (auto simp: l1_evict_def)
  obtain ds where s: "?s = ds @ l1_kept ix" using l1_kept_suffix by (auto simp: suffix_def)
  assume p: "p \<in> set (l1_hash ix)" "p \<notin> set (l1_hash (l1_evict ix))" and q: "q \<in> set (l1_hash (l1_evict ix))"
  from p set_eq have "p \<in> set ds" by (metis Un_iff s set_append set_sort)
  moreover have "sorted (map ?f ?s)" by simp
  then have "sorted (map ?f (ds @ l1_kept ix))" by (simp only: s)
  ultimately show "mem_updated (snd p) \<le> mem_updated (snd q)"
    using q unfolding set_eq by (auto simp: sorted_append)
qed

text \<open>
  After every update the index holds at most its number of entries and of
  characters, and it lost only the oldest: whatever was dropped, the new entry included, is at
  most as recent as everything that stayed.
\<close>

theorem l1_index_keeps_newest:
  assumes "distinct (map fst (l1_hash ix))" "ix' = l1_index_update e ix"
  shows "length (l1_hash ix') \<le> l1_max_entries ix \<and> l1_chars (l1_hash ix') \<le> l1_max_chars ix
     \<and> distinct (map fst (l1_hash ix'))
     \<and> (\<forall>p \<in> set (AList.update (mem_id e) e (l1_hash ix)) - set (l1_hash ix').
          \<forall>q \<in> set (l1_hash ix'). mem_updated (snd p) \<le> mem_updated (snd q))"
proof -
  let ?ix = "ix\<lparr>l1_hash := AList.update (mem_id e) e (l1_hash ix)\<rparr>"
  have d: "distinct (map fst (l1_hash ?ix))" using assms(1) by (simp add: distinct_update)
  have ix': "ix' = l1_evict ?ix" using assms(2) by (simp add: l1_index_update_def)
  have "distinct (map fst (l1_hash ix'))" using d by (simp add: ix' l1_evict_def distinct_map_filter)
  with l1_evict_spec [OF d] show ?thesis by (simp add: ix')
qed

definition demo_memory :: "string \<Rightarrow> rat \<Rightarrow> memory_entry" where
  "demo_memory i now = memorize_entry i now ''s'' ''L1'' ''general'' ''text''"

theorem l1_index_keeps_newest_witness:
  "length (l1_hash (l1_index_update (demo_memory ''b'' 2)
     \<lparr>l1_max_entries = 1, l1_max_chars = 10, l1_hash = [(''a'', demo_memory ''a'' 1)]\<rparr>)) \<le> 1"
proof -
  let ?ix = "\<lparr>l1_max_entries = 1, l1_max_chars = 10, l1_hash = [(''a'', demo_memory ''a'' 1)]\<rparr>"
  have "distinct (map fst (l1_hash ?ix))" by simp
  from l1_index_keeps_newest [OF this refl, of "demo_memory ''b'' 2"] show ?thesis by simp
qed

subsection \<open>The working memory stays within its size\<close>

definition wm_ok :: "working_memory \<Rightarrow> bool" where
  "wm_ok wm \<longleftrightarrow> distinct (map fst (wm_fields wm)) \<and> distinct (wm_order wm)
     \<and> set (wm_order wm) = fst ` set (wm_fields wm)"

lemma wm_evict_spec:
  assumes "distinct (map fst fs)" "distinct ks" "set ks = fst ` set fs"
  shows "wm_ok (wm_evict m ks fs) \<and> wm_chars (wm_fields (wm_evict m ks fs)) \<le> m
     \<and> suffix (wm_order (wm_evict m ks fs)) ks"
  using assms
proof (induction m ks fs rule: wm_evict.induct)
  case (1 m fs)
  then have "fs = []" by simp
  then show ?case by (simp add: wm_ok_def wm_chars_def)
next
  case (2 m oldest ks fs)
  show ?case
  proof (cases "wm_chars fs \<le> m")
    case True
    with 2 show ?thesis by (simp add: wm_ok_def)
  next
    case False
    have "set ks = fst ` set (AList.delete oldest fs)"
      using 2(3,4) arg_cong [OF delete_keys [of oldest fs], of set] by auto
    then have "wm_ok (wm_evict m ks (AList.delete oldest fs))
        \<and> wm_chars (wm_fields (wm_evict m ks (AList.delete oldest fs))) \<le> m
        \<and> suffix (wm_order (wm_evict m ks (AList.delete oldest fs))) ks"
      using 2(1) [OF False] 2(2,3) by (simp add: distinct_delete)
    with False show ?thesis by (auto intro: suffix_ConsI)
  qed
qed

lemma update_working_memory_cases:
  obtains (refused) msg where "update_working_memory m args wm = (error_result (as_str (jget_or (JStr []) ''_call_id'' args)) msg, wm)"
  | (stored) key v where "jget_or (JStr []) ''key'' args = JStr key" "key \<noteq> []"
      "jget_or (JStr []) ''value'' args = JStr v"
      "update_working_memory m args wm =
         (text_result (as_str (jget_or (JStr []) ''_call_id'' args))
            (''stored '' @ [CHR 0x27] @ key @ [CHR 0x27] @ '' in working memory''),
          wm_evict m (if map_of (wm_fields wm) key = None then wm_order wm @ [key] else wm_order wm)
            (AList.update key v (wm_fields wm)))"
proof (cases "\<exists>key v. jget_or (JStr []) ''key'' args = JStr key \<and> key \<noteq> [] \<and> jget_or (JStr []) ''value'' args = JStr v")
  case True
  then obtain key v where *: "jget_or (JStr []) ''key'' args = JStr key" "key \<noteq> []"
    "jget_or (JStr []) ''value'' args = JStr v" by blast
  show ?thesis by (rule stored [OF *]) (simp add: update_working_memory_def Let_def *)
next
  case False
  then have "\<exists>msg. update_working_memory m args wm = (error_result (as_str (jget_or (JStr []) ''_call_id'' args)) msg, wm)"
    unfolding update_working_memory_def Let_def
    by (cases "jget_or (JStr []) ''key'' args"; cases "jget_or (JStr []) ''value'' args")
      (simp_all, blast+)
  then show ?thesis using refused by blast
qed

text \<open>
  A working memory whose list of keys names its fields keeps doing so through every
  call of the tool.  A refused call changes nothing; an accepted one ends within the number of
  characters and loses only the keys that were written first.
\<close>

theorem working_memory_is_bounded:
  assumes "wm_ok wm" "update_working_memory m args wm = (r, wm')"
  shows "wm_ok wm' \<and>
    (if tr_error r then wm' = wm
     else wm_chars (wm_fields wm') \<le> m
       \<and> (\<exists>key. jget_or (JStr []) ''key'' args = JStr key \<and> key \<noteq> []
            \<and> suffix (wm_order wm') (if key \<in> set (wm_order wm) then wm_order wm else wm_order wm @ [key])))"
proof (cases rule: update_working_memory_cases [of m args wm])
  case (refused msg)
  with assms show ?thesis by (auto simp: error_result_def)
next
  case (stored key v)
  let ?ks = "if map_of (wm_fields wm) key = None then wm_order wm @ [key] else wm_order wm"
  have ks: "?ks = (if key \<in> set (wm_order wm) then wm_order wm else wm_order wm @ [key])"
    using assms(1) by (simp add: wm_ok_def map_of_eq_None_iff)
  have "wm_ok (wm_evict m ?ks (AList.update key v (wm_fields wm)))
    \<and> wm_chars (wm_fields (wm_evict m ?ks (AList.update key v (wm_fields wm)))) \<le> m
    \<and> suffix (wm_order (wm_evict m ?ks (AList.update key v (wm_fields wm)))) ?ks"
    by (rule wm_evict_spec) (use assms(1) in \<open>auto simp: wm_ok_def ks distinct_update dom_update\<close>)
  with stored assms(2) show ?thesis by (auto simp: ks text_result_def)
qed

definition demo_wm :: working_memory where
  "demo_wm = \<lparr>wm_fields = [(''a'', ''12345'')], wm_order = [''a'']\<rparr>"

definition demo_wm_args :: jobj where
  "demo_wm_args = [(''key'', JStr ''b''), (''value'', JStr ''678'')]"

theorem working_memory_is_bounded_witness:
  "wm_ok (snd (update_working_memory 6 demo_wm_args demo_wm))
   \<and> wm_order (snd (update_working_memory 6 demo_wm_args demo_wm)) = [''b'']"
proof -
  have "wm_ok demo_wm" by (simp add: demo_wm_def wm_ok_def)
  moreover have "snd (update_working_memory 6 demo_wm_args demo_wm)
      = \<lparr>wm_fields = [(''b'', ''678'')], wm_order = [''b'']\<rparr>" by code_simp
  ultimately show ?thesis
    using working_memory_is_bounded [of demo_wm 6 demo_wm_args] by (metis prod.collapse working_memory.select_convs(2))
qed

text \<open>What the hook adds to the prompt is never longer than its limit.\<close>

theorem wm_prompt_bounded:
  "case wm_prompt m wm of Some b \<Rightarrow> length b \<le> m | None \<Rightarrow> True"
proof (cases "wm_prompt m wm")
  case (Some b)
  define ls where "ls = map (\<lambda>k. ''- '' @ k @ '': '' @ the (map_of (wm_fields wm) k)) (ordered_keys wm)"
  define kept where "kept = pop_while (block_too_long m) ls"
  have b: "\<not> (kept = [] \<and> ls \<noteq> [])" "b = wm_block kept" "wm_fields wm \<noteq> []"
    using Some unfolding wm_prompt_def Let_def ls_def kept_def by (auto split: if_splits)
  have "fst ` set (wm_fields wm) \<subseteq> set (ordered_keys wm)"
    by (auto simp: ordered_keys_def)
  then have "ordered_keys wm \<noteq> []" using b(3) by auto
  then have "kept \<noteq> []" using b(1) by (auto simp: ls_def)
  then show ?thesis using wm_size.within [of m ls] b(2) Some by (simp add: kept_def block_too_long_def)
qed simp

subsection \<open>Where a memory goes\<close>

lemma starts_with_long:
  "length p \<le> length a \<Longrightarrow> starts_with p (a @ b) = starts_with p a"
  by (induction p a rule: starts_with.induct) auto

text \<open>
  A memory of a session is stored under the key the session was made for.
\<close>

theorem derive_session_key_generated:
  assumes "py_find '':s:'' (skey @ '':s'') = None"
  shows "derive_session_key (generate_session_id skey tok) = skey"
proof -
  have "py_find '':s:'' (skey @ '':s:'' @ tok) = Some (length skey)"
    using assms
  proof (induction skey)
    case (Cons x xs)
    have "starts_with '':s:'' (x # xs @ '':s:'' @ tok) = starts_with '':s:'' (x # xs @ '':s'')"
      using starts_with_long [of "'':s:''" "x # xs @ '':s''" "CHR '':'' # tok"] by simp
    with Cons show ?case by (auto split: if_splits)
  qed simp
  then show ?thesis by (simp add: derive_session_key_def generate_session_id_def)
qed

theorem derive_session_key_generated_witness:
  "derive_session_key (generate_session_id ''web:ann'' ''a1b2c3d4'') = ''web:ann''"
  by (rule derive_session_key_generated) code_simp

lemma memorize_execute_stores:
  assumes "memorize_execute uuid now sid loaded store_fails repr args = Some (r, Some (key, e))"
  shows "\<exists>t. loaded = Inr (Some t) \<and> has_tool_use t \<and> key = derive_session_key sid
    \<and> jget ''content'' args = JStr (mem_content e) \<and> mem_source e = Some sid
    \<and> tr_error r = (store_fails key e \<noteq> None)"
proof -
  obtain content where c: "jget ''content'' args = JStr content"
    using assms unfolding memorize_execute_def Let_def by (cases "jget ''content'' args") simp_all
  note * = assms [unfolded memorize_execute_def Let_def c json.case]
  obtain t where t: "loaded = Inr (Some t)"
    using * by (auto split: if_splits sum.splits option.splits)
  obtain ty where ty: "jget_or (JStr ''general'') ''type'' args = JStr ty"
    using * by (cases "jget_or (JStr ''general'') ''type'' args") (auto simp: t split: if_splits)
  show ?thesis
    using * by (auto simp: t ty c memorize_entry_def error_result_def text_result_def
        split: if_splits option.splits)
qed

lemma human_filename_has_no_separator:
  assumes "CHR ''/'' \<notin> set (digest skey)" "human_filename digest skey = Some f"
  shows "CHR ''/'' \<notin> set f"
  using assms by (auto simp: human_filename_def Let_def dangerous_char_def split: if_splits dest!: in_set_takeD)

lemma human_filename_not_injective:
  "human_filename d ''a:b'' = human_filename d ''a_b''"
proof -
  have "py_strip ''a_b'' = ''a_b''" by code_simp
  then show ?thesis by (simp add: human_filename_def replace_char_def Let_def)
qed

end
