(* ===== verification/WebQueue.thy ===== *)
theory WebQueue
  imports Gate Steering Tasks Auth
begin

section \<open>The queue of a web conversation and the approval of tool calls\<close>

text \<open>
  The serial queue of the web channel (\<^verbatim>\<open>SessionQueue\<close> in \<^verbatim>\<open>src/pyclaw/channels/web/chat.py\<close>) with its
  consumers, run controls and pending approvals, and the hook through which the runner asks a user
  (\<^verbatim>\<open>channels/web/tool_approval_hook.py\<close>).  Consumers are tasks of the task manager.  An event
  object and its waiter are one entry of the dictionary of pending approvals.
\<close>

subsection \<open>State\<close>

record approval_wait =
  aw_set :: bool
  aw_approved :: json

record 'm web_queue =
  wq_queues :: "(string \<times> 'm list) list"
  wq_consumers :: "(string \<times> string) list"
  wq_busy :: "(string \<times> bool) list"
  wq_controls :: "(string \<times> run_control) list"
  wq_decisions :: "(string \<times> json) list"
  wq_pending :: "(string \<times> approval_wait) list"
  wq_usage :: "(string \<times> (string \<times> int) list) list"
  wq_tier :: "(string \<times> tier) list"

definition wq_empty :: "'m web_queue" where
  "wq_empty = \<lparr>wq_queues = [], wq_consumers = [], wq_busy = [], wq_controls = [], wq_decisions = [],
               wq_pending = [], wq_usage = [], wq_tier = []\<rparr>"

definition waiting :: "string \<Rightarrow> 'm web_queue \<Rightarrow> 'm list" where
  "waiting conv q = (case map_of (wq_queues q) conv of None \<Rightarrow> [] | Some ms \<Rightarrow> ms)"

definition busy :: "string \<Rightarrow> 'm web_queue \<Rightarrow> bool" where
  "busy conv q = (map_of (wq_busy q) conv = Some True)"

definition consumer_running :: "string \<Rightarrow> 'm web_queue \<Rightarrow> task_manager option \<Rightarrow> bool" where
  "consumer_running conv q tm =
     (case (map_of (wq_consumers q) conv, tm) of
        (Some tid, Some m) \<Rightarrow> get_state tid m = Some Running
      | _ \<Rightarrow> False)"

definition is_idle :: "string \<Rightarrow> 'm web_queue \<Rightarrow> bool" where
  "is_idle conv q =
     (if \<not> busy conv q then True
      else case map_of (wq_controls q) conv of None \<Rightarrow> False | Some rc \<Rightarrow> \<not> rc_is_active rc)"

definition queue_position :: "string \<Rightarrow> 'm web_queue \<Rightarrow> nat" where
  "queue_position conv q = length (waiting conv q) + (if busy conv q then 1 else 0)"

text \<open>
  The position told to the user and the task spawned, if one was; spawning on a closed manager
  raises after the message was queued.
\<close>

definition web_enqueue ::
    "rat \<Rightarrow> rat \<Rightarrow> string \<Rightarrow> 'm \<Rightarrow> 'm web_queue \<Rightarrow> task_manager option
       \<Rightarrow> (tm_error + nat \<times> string option) \<times> 'm web_queue \<times> task_manager option" where
  "web_enqueue now now' conv m q tm =
     (let pos = queue_position conv q;
          q' = q\<lparr>wq_queues := AList.update conv (waiting conv q @ [m]) (wq_queues q)\<rparr>
      in if consumer_running conv q' tm then (Inr (pos, None), q', tm)
         else (case tm of
                 None \<Rightarrow> (Inr (pos, None), q', None)
               | Some t \<Rightarrow>
                   (case spawn now now' (''web-consumer:'' @ conv) ''consumer'' (Some conv) t of
                      (Inl e, t') \<Rightarrow> (Inl e, q', Some t')
                    | (Inr tid, t') \<Rightarrow>
                        (Inr (pos, Some tid),
                         q'\<lparr>wq_consumers := AList.update conv tid (wq_consumers q')\<rparr>, Some t'))))"

subsection \<open>Run controls\<close>

text \<open>
  \<^verbatim>\<open>_abort_events\<close> has the abort events of the very controls of \<^verbatim>\<open>_run_controls\<close>, made and dropped
  together with them, and is therefore part of the controls here.
\<close>

definition get_run_control :: "string \<Rightarrow> 'm web_queue \<Rightarrow> run_control \<times> 'm web_queue" where
  "get_run_control conv q =
     (case map_of (wq_controls q) conv of
        Some rc \<Rightarrow> (rc, q)
      | None \<Rightarrow> (rc_init, q\<lparr>wq_controls := AList.update conv rc_init (wq_controls q)\<rparr>))"

definition put_control :: "string \<Rightarrow> run_control \<Rightarrow> 'm web_queue \<Rightarrow> 'm web_queue" where
  "put_control conv rc q = q\<lparr>wq_controls := AList.update conv rc (wq_controls q)\<rparr>"

definition reset_abort_event :: "string \<Rightarrow> 'm web_queue \<Rightarrow> 'm web_queue" where
  "reset_abort_event conv q =
     (case map_of (wq_controls q) conv of
        None \<Rightarrow> q
      | Some rc \<Rightarrow> put_control conv (rc\<lparr>rc_abort := False\<rparr>) q)"

definition handle_abort :: "string \<Rightarrow> 'm web_queue \<Rightarrow> 'm web_queue" where
  "handle_abort conv q =
     (let (rc, q') = get_run_control conv q in put_control conv (rc\<lparr>rc_abort := True\<rparr>) q')"

subsection \<open>Usage and tier of a conversation\<close>

definition number_to_int :: "json \<Rightarrow> int option" where
  "number_to_int v =
     (case v of JInt i \<Rightarrow> Some i | JBool b \<Rightarrow> Some (if b then 1 else 0)
      | JFloat x \<Rightarrow> Some (if x < 0 then - \<lfloor>- x\<rfloor> else \<lfloor>x\<rfloor>) | _ \<Rightarrow> None)"

definition int_fields :: "jobj \<Rightarrow> (string \<times> int) list" where
  "int_fields usage = List.map_filter (\<lambda>(k, v). map_option (Pair k) (number_to_int v)) usage"

definition set_last_usage :: "string \<Rightarrow> jobj \<Rightarrow> 'm web_queue \<Rightarrow> 'm web_queue" where
  "set_last_usage conv usage q =
     (if usage = [] then q else q\<lparr>wq_usage := AList.update conv (int_fields usage) (wq_usage q)\<rparr>)"

definition maybe_record_tier_change :: "string \<Rightarrow> tier \<Rightarrow> 'm web_queue \<Rightarrow> tier option \<times> 'm web_queue" where
  "maybe_record_tier_change conv new_tier q =
     (let previous = map_of (wq_tier q) conv;
          q' = q\<lparr>wq_tier := AList.update conv new_tier (wq_tier q)\<rparr>
      in (if previous \<noteq> None \<and> previous \<noteq> Some new_tier then previous else None, q'))"

subsection \<open>The consumer of a conversation\<close>

definition consume_take :: "string \<Rightarrow> 'm web_queue \<Rightarrow> ('m \<times> 'm web_queue) option" where
  "consume_take conv q =
     (case waiting conv q of
        [] \<Rightarrow> None
      | m # ms \<Rightarrow>
          Some (m, reset_abort_event conv
                     (q\<lparr>wq_queues := AList.update conv ms (wq_queues q),
                        wq_busy := AList.update conv True (wq_busy q)\<rparr>)))"

definition consume_done :: "string \<Rightarrow> 'm web_queue \<Rightarrow> 'm web_queue" where
  "consume_done conv q = q\<lparr>wq_busy := AList.update conv False (wq_busy q)\<rparr>"

definition consume_exit :: "string \<Rightarrow> 'm web_queue \<Rightarrow> 'm web_queue" where
  "consume_exit conv q =
     q\<lparr>wq_queues := AList.delete conv (wq_queues q), wq_consumers := AList.delete conv (wq_consumers q),
       wq_busy := AList.delete conv (wq_busy q), wq_controls := AList.delete conv (wq_controls q),
       wq_usage := AList.delete conv (wq_usage q), wq_tier := AList.delete conv (wq_tier q)\<rparr>"

subsection \<open>Pending approvals\<close>

definition approval_key :: "string \<Rightarrow> string \<Rightarrow> string" where
  "approval_key conv call_id = conv @ '':'' @ call_id"

definition create_pending :: "string \<Rightarrow> string \<Rightarrow> 'm web_queue \<Rightarrow> 'm web_queue" where
  "create_pending conv call_id q =
     q\<lparr>wq_pending := AList.update (approval_key conv call_id) \<lparr>aw_set = False, aw_approved = JNull\<rparr> (wq_pending q)\<rparr>"

definition discard_pending :: "string \<Rightarrow> string \<Rightarrow> 'm web_queue \<Rightarrow> 'm web_queue" where
  "discard_pending conv call_id q =
     q\<lparr>wq_pending := AList.delete (approval_key conv call_id) (wq_pending q),
       wq_decisions := AList.delete (approval_key conv call_id) (wq_decisions q)\<rparr>"

definition set_approval_decision :: "string \<Rightarrow> string \<Rightarrow> json \<Rightarrow> 'm web_queue \<Rightarrow> 'm web_queue" where
  "set_approval_decision conv call_id approved q =
     (let key = approval_key conv call_id;
          q' = q\<lparr>wq_decisions := AList.update key approved (wq_decisions q)\<rparr>
      in case map_of (wq_pending q) key of
           None \<Rightarrow> q'
         | Some p \<Rightarrow> q'\<lparr>wq_pending := AList.update key \<lparr>aw_set = True, aw_approved = approved\<rparr> (wq_pending q)\<rparr>)"

definition get_approval_decision :: "string \<Rightarrow> string \<Rightarrow> 'm web_queue \<Rightarrow> json option" where
  "get_approval_decision conv call_id q = map_of (wq_decisions q) (approval_key conv call_id)"

text \<open>
  A message \<^verbatim>\<open>tool.approve\<close> of a client.  The conversation is the one the client names; the user
  who sends it plays no part.
\<close>

record approve_message =
  am_user :: string
  am_conv :: string
  am_call :: string
  am_approved :: json

definition handle_tool_approve :: "approve_message \<Rightarrow> 'm web_queue \<Rightarrow> 'm web_queue" where
  "handle_tool_approve m q = set_approval_decision (am_conv m) (am_call m) (am_approved m) q"

subsection \<open>The approval hook\<close>

record web_audit =
  wa_session :: string
  wa_tool :: string
  wa_call :: string
  wa_tier :: string
  wa_decision :: string
  wa_by :: string

definition web_should_gate :: "user_profile option \<Rightarrow> json list \<Rightarrow> string \<Rightarrow> bool" where
  "web_should_gate profile channel_default name =
     (JStr name \<in> set (resolve_tools_requiring_approval profile channel_default))"

text \<open>
  One call is waited for.  \<open>ms\<close> are the messages that are handled between the creation of the
  pending decision and the end of the wait, by the event or by the time limit.
\<close>

definition wait_for_user ::
    "string \<Rightarrow> string \<times> string \<times> json \<Rightarrow> approve_message list \<Rightarrow> 'm web_queue
       \<Rightarrow> string \<times> web_audit \<times> 'm web_queue" where
  "wait_for_user sid call ms q =
     (let (cid, name, args) = call;
          q1 = fold handle_tool_approve ms (create_pending sid cid q);
          p = the (map_of (wq_pending q1) (approval_key sid cid));
          q2 = discard_pending sid cid q1;
          record_as = (\<lambda>decision by. \<lparr>wa_session = sid, wa_tool = name, wa_call = cid, wa_tier = ''approval'',
                         wa_decision = decision, wa_by = by\<rparr>)
      in if \<not> aw_set p then (''deny'', record_as ''deny'' ''auto:timeout'', q2)
         else let decision = (if truthy (aw_approved p) then ''approve'' else ''deny'')
              in (decision, record_as decision ''user'', q2))"

fun before_tool_execution ::
    "string \<Rightarrow> ((string \<times> string \<times> json) \<times> approve_message list) list \<Rightarrow> 'm web_queue
       \<Rightarrow> string list \<times> web_audit list \<times> 'm web_queue" where
  "before_tool_execution sid [] q = ([], [], q)"
| "before_tool_execution sid ((call, ms) # calls) q =
     (let (d, a, q1) = wait_for_user sid call ms q;
          (ds, as, q2) = before_tool_execution sid calls q1
      in (d # ds, a # as, q2))"

text \<open>
  The hook as the runner sees it, given the messages that arrive while the \<open>i\<close>-th call is waited
  for.
\<close>

definition with_windows :: "(nat \<Rightarrow> 'a list) \<Rightarrow> 'b list \<Rightarrow> ('b \<times> 'a list) list" where
  "with_windows windows calls = zip calls (map windows [0..<length calls])"

definition web_hook ::
    "string \<Rightarrow> user_profile option \<Rightarrow> json list \<Rightarrow> (nat \<Rightarrow> approve_message list) \<Rightarrow> 'm web_queue \<Rightarrow> approval_hook" where
  "web_hook sid profile channel_default windows q =
     \<lparr>ah_gate_ctx = (\<lambda>name. GateSays (web_should_gate profile channel_default name)),
      ah_gate = (\<lambda>name. GateSays (web_should_gate None channel_default name)),
      ah_decide = (\<lambda>calls. fst (before_tool_execution sid (with_windows windows calls) q))\<rparr>"

subsection \<open>Consumers over time\<close>

text \<open>
  The consumers that run, with the message each is handling; and, to say what happens, the
  messages enqueued and taken so far with their conversations.
\<close>

record 'm web_world =
  ww_queue :: "'m web_queue"
  ww_tm :: task_manager
  ww_tasks :: "(string \<times> string \<times> 'm option) list"
  ww_enqueued :: "(string \<times> 'm) list"
  ww_taken :: "(string \<times> 'm) list"

text \<open>
  A consumer leaves when its queue stayed empty for 300 seconds.  The last two rules are the
  steps of everything else: the other fields of the queue, and the other tasks of the manager.
\<close>

inductive web_step :: "'m web_world \<Rightarrow> 'm web_world \<Rightarrow> bool" where
  enqueued: "web_enqueue now now' conv m (ww_queue w) (Some (ww_tm w)) = (r, q', Some tm') \<Longrightarrow>
    ts = (case r of Inr (pos, Some tid) \<Rightarrow> AList.update tid (conv, None) (ww_tasks w) | _ \<Rightarrow> ww_tasks w) \<Longrightarrow>
    web_step w (w\<lparr>ww_queue := q', ww_tm := tm', ww_tasks := ts,
                  ww_enqueued := ww_enqueued w @ [(conv, m)]\<rparr>)"
| taken: "map_of (ww_tasks w) tid = Some (conv, None) \<Longrightarrow>
    consume_take conv (ww_queue w) = Some (m, q') \<Longrightarrow>
    web_step w (w\<lparr>ww_queue := q', ww_tasks := AList.update tid (conv, Some m) (ww_tasks w),
                  ww_taken := ww_taken w @ [(conv, m)]\<rparr>)"
| handled: "map_of (ww_tasks w) tid = Some (conv, Some m) \<Longrightarrow>
    web_step w (w\<lparr>ww_queue := consume_done conv (ww_queue w),
                  ww_tasks := AList.update tid (conv, None) (ww_tasks w)\<rparr>)"
| left_idle: "map_of (ww_tasks w) tid = Some (conv, None) \<Longrightarrow> waiting conv (ww_queue w) = [] \<Longrightarrow>
    web_step w (w\<lparr>ww_queue := consume_exit conv (ww_queue w), ww_tm := task_ends tid Returns (ww_tm w),
                  ww_tasks := AList.delete tid (ww_tasks w)\<rparr>)"
| other_fields: "wq_queues q' = wq_queues (ww_queue w) \<Longrightarrow> wq_consumers q' = wq_consumers (ww_queue w) \<Longrightarrow>
    web_step w (w\<lparr>ww_queue := q'\<rparr>)"
| other_tasks: "tm_ok tm' \<Longrightarrow> (tm_closed (ww_tm w) \<longrightarrow> tm_closed tm') \<Longrightarrow>
    (\<forall>tid \<in> fst ` set (ww_tasks w). get_state tid tm' = Some Running) \<Longrightarrow>
    web_step w (w\<lparr>ww_tm := tm'\<rparr>)"

inductive web_reachable :: "'m web_world \<Rightarrow> 'm web_world \<Rightarrow> bool" for w0 where
  start: "web_reachable w0 w0"
| step: "web_reachable w0 w \<Longrightarrow> web_step w w' \<Longrightarrow> web_reachable w0 w'"

definition web_start :: "task_manager \<Rightarrow> 'm web_world" where
  "web_start tm = \<lparr>ww_queue = wq_empty, ww_tm = tm, ww_tasks = [], ww_enqueued = [], ww_taken = []\<rparr>"

definition of_conv :: "string \<Rightarrow> (string \<times> 'm) list \<Rightarrow> 'm list" where
  "of_conv conv es = map snd (filter (\<lambda>p. fst p = conv) es)"

lemma of_conv_simps [simp]:
  "of_conv conv [] = []" "of_conv conv (xs @ ys) = of_conv conv xs @ of_conv conv ys"
  "of_conv conv [(c, m)] = (if c = conv then [m] else [])"
  by (simp_all add: of_conv_def)

definition linked :: "(string \<Rightarrow> string option) \<Rightarrow> (string \<Rightarrow> (string \<times> 'a) option) \<Rightarrow> bool" where
  "linked f g \<longleftrightarrow> (\<forall>c t. f c = Some t \<longleftrightarrow> (\<exists>h. g t = Some (c, h)))"

lemma linked_new:
  assumes "linked f g" "f c = None" "g t = None"
  shows "linked (f(c \<mapsto> t)) (g(t \<mapsto> (c, h)))"
  unfolding linked_def
proof (intro allI)
  fix c' t'
  have *: "f c' = Some t' \<longleftrightarrow> (\<exists>h. g t' = Some (c', h))" using assms(1) by (simp add: linked_def)
  have "f c' \<noteq> Some t" using assms(1,3) by (simp add: linked_def)
  moreover have "g t' \<noteq> Some (c, x)" for x using assms(1,2) by (metis linked_def option.distinct(1))
  ultimately show "(f(c \<mapsto> t)) c' = Some t' \<longleftrightarrow> (\<exists>x. (g(t \<mapsto> (c, h))) t' = Some (c', x))"
    using * by (cases "c' = c"; cases "t' = t") auto
qed

lemma linked_same: "linked f g \<Longrightarrow> g t = Some (c, h) \<Longrightarrow> linked f (g(t \<mapsto> (c, h')))"
  by (auto simp: linked_def)

lemma linked_drop:
  assumes "linked f g" "g t = Some (c, h)"
  shows "linked (f(c := None)) (g(t := None))"
  unfolding linked_def
proof (intro allI)
  fix c' t'
  have *: "f c' = Some t' \<longleftrightarrow> (\<exists>h. g t' = Some (c', h))" using assms(1) by (simp add: linked_def)
  have "f c = Some t" using assms by (auto simp: linked_def)
  with * assms(2) show "(f(c := None)) c' = Some t' \<longleftrightarrow> (\<exists>x. (g(t := None)) t' = Some (c', x))"
    by (cases "c' = c"; cases "t' = t") auto
qed

definition consumers_ok :: "'m web_world \<Rightarrow> bool" where
  "consumers_ok w \<longleftrightarrow>
     linked (map_of (wq_consumers (ww_queue w))) (map_of (ww_tasks w))
     \<and> (\<forall>t c h. map_of (ww_tasks w) t = Some (c, h) \<longrightarrow> get_state t (ww_tm w) = Some Running)"

definition web_inv :: "'m web_world \<Rightarrow> bool" where
  "web_inv w \<longleftrightarrow> tm_ok (ww_tm w) \<and> consumers_ok w
     \<and> (\<forall>c. of_conv c (ww_enqueued w) = of_conv c (ww_taken w) @ waiting c (ww_queue w))
     \<and> (\<not> tm_closed (ww_tm w) \<longrightarrow>
          (\<forall>c. waiting c (ww_queue w) \<noteq> [] \<longrightarrow> map_of (wq_consumers (ww_queue w)) c \<noteq> None))"

lemma waiting_simps [simp]:
  "waiting c (q\<lparr>wq_queues := AList.update conv ms (wq_queues q)\<rparr>) = (if c = conv then ms else waiting c q)"
  "waiting c (q\<lparr>wq_consumers := x\<rparr>) = waiting c q" "waiting c (q\<lparr>wq_busy := b\<rparr>) = waiting c q"
  "waiting c (reset_abort_event d q) = waiting c q" "waiting c (consume_done d q) = waiting c q"
  "waiting c (consume_exit conv q) = (if c = conv then [] else waiting c q)"
  by (auto simp: waiting_def reset_abort_event_def put_control_def consume_done_def consume_exit_def
      update_conv' delete_conv' split: option.split)

lemma consumers_simps [simp]:
  "wq_consumers (reset_abort_event c q) = wq_consumers q" "wq_consumers (consume_done c q) = wq_consumers q"
  "wq_consumers (consume_exit c q) = AList.delete c (wq_consumers q)"
  by (auto simp: reset_abort_event_def put_control_def consume_done_def consume_exit_def split: option.split)

lemma spawn_Inl:
  assumes "tm_ok tm" "spawn now now' name cat owner tm = (Inl e, tm')"
  shows "tm_closed tm" "tm_closed tm'" "tm_ok tm'" "get_state i tm' = Some Running \<longleftrightarrow> get_state i tm = Some Running"
proof -
  from assms(2) have c: "tm_closed tm" and tm': "tm' = maybe_prune now tm"
    by (auto simp: spawn_def Let_def split: if_splits)
  show "tm_closed tm" by (rule c)
  show "tm_closed tm'" "tm_ok tm'" using c tm_ok_prune [OF assms(1)] by (simp_all add: tm')
  show "get_state i tm' = Some Running \<longleftrightarrow> get_state i tm = Some Running"
    using get_state_prune [OF assms(1), of i now]
    by (auto simp: tm' get_state_def stale_def split: option.splits)
qed

lemma tm_closed_task_ends [simp]: "tm_closed (task_ends tid ev tm) = tm_closed tm"
  by (simp add: task_ends_def split: option.split)

text \<open>The four ways a message is enqueued.\<close>

lemma web_enqueue_cases:
  assumes "web_enqueue now now' conv m q (Some tm) = (r, q', Some tm')"
  obtains (runs) tid where "map_of (wq_consumers q) conv = Some tid" "get_state tid tm = Some Running"
      "r = Inr (queue_position conv q, None)" "tm' = tm"
      "q' = q\<lparr>wq_queues := AList.update conv (waiting conv q @ [m]) (wq_queues q)\<rparr>"
  | (spawned) tid where "\<not> consumer_running conv q (Some tm)"
      "spawn now now' (''web-consumer:'' @ conv) ''consumer'' (Some conv) tm = (Inr tid, tm')"
      "r = Inr (queue_position conv q, Some tid)"
      "q' = q\<lparr>wq_queues := AList.update conv (waiting conv q @ [m]) (wq_queues q),
              wq_consumers := AList.update conv tid (wq_consumers q)\<rparr>"
  | (refused) e where "spawn now now' (''web-consumer:'' @ conv) ''consumer'' (Some conv) tm = (Inl e, tm')"
      "r = Inl e"
      "q' = q\<lparr>wq_queues := AList.update conv (waiting conv q @ [m]) (wq_queues q)\<rparr>"
proof (cases "consumer_running conv q (Some tm)")
  case True
  then obtain tid where "map_of (wq_consumers q) conv = Some tid" "get_state tid tm = Some Running"
    by (auto simp: consumer_running_def split: option.splits)
  then show ?thesis
    by (rule runs) (use assms True in \<open>simp_all add: web_enqueue_def Let_def consumer_running_def\<close>)
next
  case False
  then have *: "\<not> consumer_running conv (q\<lparr>wq_queues := x\<rparr>) (Some tm)" for x
    by (simp add: consumer_running_def)
  obtain sp t where sp: "spawn now now' (''web-consumer:'' @ conv) ''consumer'' (Some conv) tm = (sp, t)"
    by (metis surj_pair)
  show ?thesis
  proof (cases sp)
    case (Inl e)
    show ?thesis by (rule refused [of e]) (use assms sp Inl in \<open>simp_all add: web_enqueue_def Let_def *\<close>)
  next
    case (Inr tid)
    show ?thesis by (rule spawned [OF False]) (use assms sp Inr in \<open>auto simp: web_enqueue_def Let_def *\<close>)
  qed
qed

lemma web_inv_start: "tm_ok tm \<Longrightarrow> web_inv (web_start tm)"
  by (simp add: web_inv_def consumers_ok_def web_start_def wq_empty_def waiting_def linked_def)

lemma web_inv_enqueued:
  assumes inv: "web_inv w"
    and enq: "web_enqueue now now' conv m (ww_queue w) (Some (ww_tm w)) = (r, q', Some tm')"
  shows "web_inv (w\<lparr>ww_queue := q', ww_tm := tm',
     ww_tasks := (case r of Inr (pos, Some tid) \<Rightarrow> AList.update tid (conv, None) (ww_tasks w) | _ \<Rightarrow> ww_tasks w),
     ww_enqueued := ww_enqueued w @ [(conv, m)]\<rparr>)"
proof -
  have ok: "tm_ok (ww_tm w)" and li: "linked (map_of (wq_consumers (ww_queue w))) (map_of (ww_tasks w))"
    and run: "\<And>t c h. map_of (ww_tasks w) t = Some (c, h) \<Longrightarrow> get_state t (ww_tm w) = Some Running"
    and fifo: "\<And>c. of_conv c (ww_enqueued w) = of_conv c (ww_taken w) @ waiting c (ww_queue w)"
    and live: "\<not> tm_closed (ww_tm w) \<Longrightarrow> waiting c (ww_queue w) \<noteq> [] \<Longrightarrow> map_of (wq_consumers (ww_queue w)) c \<noteq> None" for c
    using inv by (auto simp: web_inv_def consumers_ok_def)
  from enq show ?thesis
  proof (cases rule: web_enqueue_cases)
    case (runs tid)
    then show ?thesis using ok li run fifo live
      by (simp add: web_inv_def consumers_ok_def)
  next
    case (spawned tid)
    note sp = spawn_running [OF ok spawned(2)]
    have none: "map_of (wq_consumers (ww_queue w)) conv = None"
      using li run spawned(1)
      by (cases "map_of (wq_consumers (ww_queue w)) conv") (auto simp: linked_def consumer_running_def)
    have fresh: "map_of (ww_tasks w) tid = None"
      using run sp(1) by (cases "map_of (ww_tasks w) tid") auto
    have "tm_closed tm' = tm_closed (ww_tm w)"
      using spawned(2) by (auto simp: spawn_def Let_def split: if_splits)
    moreover have "get_state t tm' = Some Running" if "((map_of (ww_tasks w))(tid \<mapsto> (conv, None))) t = Some (c, h)" for t c h
      using that sp(2) sp(4) [of t] run [of t] by (cases "t = tid") auto
    ultimately show ?thesis
      using linked_new [OF li none fresh] sp(3) fifo live spawned(3,4)
      by (simp add: web_inv_def consumers_ok_def update_conv')
  next
    case (refused e)
    note sp = spawn_Inl [OF ok refused(1)]
    have "get_state t tm' = Some Running" if "map_of (ww_tasks w) t = Some (c, h)" for t c h
      using sp(4) run that by blast
    with sp(2,3) li fifo refused(2,3) show ?thesis
      by (simp add: web_inv_def consumers_ok_def)
  qed
qed

lemma consume_takeD:
  assumes "consume_take conv q = Some (m, q')"
  shows "waiting conv q = m # waiting conv q'" "c \<noteq> conv \<Longrightarrow> waiting c q' = waiting c q"
    "wq_consumers q' = wq_consumers q"
proof -
  from assms obtain ms where ms: "waiting conv q = m # ms"
    and q': "q' = reset_abort_event conv (q\<lparr>wq_queues := AList.update conv ms (wq_queues q),
                        wq_busy := AList.update conv True (wq_busy q)\<rparr>)"
    by (auto simp: consume_take_def split: list.splits)
  have w: "waiting c q' = (if c = conv then ms else waiting c q)" for c
    unfolding q' waiting_simps using waiting_simps(1) [of c conv ms q] by (simp add: waiting_def)
  show "waiting conv q = m # waiting conv q'" using ms w by simp
  show "c \<noteq> conv \<Longrightarrow> waiting c q' = waiting c q" using w by simp
  show "wq_consumers q' = wq_consumers q" by (simp add: q')
qed

lemma web_inv_step: "web_step w w' \<Longrightarrow> web_inv w \<Longrightarrow> web_inv w'"
proof (induction rule: web_step.induct)
  case (enqueued now now' conv m w r q' tm' ts)
  then show ?case using web_inv_enqueued [OF enqueued(3,1)] by simp
next
  case (taken w tid conv m q')
  note t = consume_takeD [OF taken(2)]
  from taken(3) have li: "linked (map_of (wq_consumers (ww_queue w))) (map_of (ww_tasks w))"
    and run: "\<And>t c h. map_of (ww_tasks w) t = Some (c, h) \<Longrightarrow> get_state t (ww_tm w) = Some Running"
    and fifo: "\<And>c. of_conv c (ww_enqueued w) = of_conv c (ww_taken w) @ waiting c (ww_queue w)"
    by (auto simp: web_inv_def consumers_ok_def)
  have "of_conv c (ww_enqueued w) = of_conv c (ww_taken w @ [(conv, m)]) @ waiting c q'" for c
    using fifo [of c] t by (cases "c = conv") simp_all
  moreover have "map_of (wq_consumers (ww_queue w)) conv = Some tid"
    using li taken(1) by (auto simp: linked_def)
  then have "map_of (wq_consumers q') c \<noteq> None" if "\<not> tm_closed (ww_tm w)" "waiting c q' \<noteq> []" for c
    using taken(3) that t(2) [of c] by (cases "c = conv") (auto simp: web_inv_def t(3))
  moreover have "get_state t (ww_tm w) = Some Running"
    if "((map_of (ww_tasks w))(tid \<mapsto> (conv, Some m))) t = Some (c, h)" for t c h
    using that run taken(1) by (cases "t = tid") auto
  ultimately show ?case
    using linked_same [OF li taken(1)] taken(3) by (simp add: web_inv_def consumers_ok_def t(3) update_conv')
next
  case (handled w tid conv m)
  then have li: "linked (map_of (wq_consumers (ww_queue w))) (map_of (ww_tasks w))"
    and run: "\<And>t c h. map_of (ww_tasks w) t = Some (c, h) \<Longrightarrow> get_state t (ww_tm w) = Some Running"
    by (auto simp: web_inv_def consumers_ok_def)
  have "get_state t (ww_tm w) = Some Running"
    if "((map_of (ww_tasks w))(tid \<mapsto> (conv, None))) t = Some (c, h)" for t c h
    using that run handled(1) by (cases "t = tid") auto
  with linked_same [OF li handled(1)] handled(2) show ?case
    by (simp add: web_inv_def consumers_ok_def update_conv')
next
  case (left_idle w tid conv)
  then have li: "linked (map_of (wq_consumers (ww_queue w))) (map_of (ww_tasks w))"
    and run: "\<And>t c h. map_of (ww_tasks w) t = Some (c, h) \<Longrightarrow> get_state t (ww_tm w) = Some Running"
    and fifo: "\<And>c. of_conv c (ww_enqueued w) = of_conv c (ww_taken w) @ waiting c (ww_queue w)"
    and ok: "tm_ok (ww_tm w)"
    by (auto simp: web_inv_def consumers_ok_def)
  have "get_state t (task_ends tid Returns (ww_tm w)) = Some Running"
    if "((map_of (ww_tasks w))(tid := None)) t = Some (c, h)" for t c h
    using that run by (cases "t = tid") (auto simp: get_state_task_ends)
  with linked_drop [OF li left_idle(1)] left_idle(2,3) tm_ok_task_ends [OF ok] show ?case
    by (simp add: web_inv_def consumers_ok_def delete_conv')
next
  case (other_fields q' w)
  then show ?case by (simp add: web_inv_def consumers_ok_def waiting_def)
next
  case (other_tasks tm' w)
  have "get_state t tm' = Some Running" if "map_of (ww_tasks w) t = Some (c, h)" for t c h
    using other_tasks(3) map_of_SomeD [OF that] by force
  with other_tasks show ?case by (auto simp: web_inv_def consumers_ok_def)
qed


text \<open>Steps as functions, for examples.\<close>

definition run_enqueue :: "string \<Rightarrow> 'm \<Rightarrow> 'm web_world \<Rightarrow> 'm web_world" where
  "run_enqueue conv m w =
     (let (r, q', t) = web_enqueue 0 0 conv m (ww_queue w) (Some (ww_tm w))
      in w\<lparr>ww_queue := q', ww_tm := the t,
           ww_tasks := (case r of Inr (pos, Some tid) \<Rightarrow> AList.update tid (conv, None) (ww_tasks w) | _ \<Rightarrow> ww_tasks w),
           ww_enqueued := ww_enqueued w @ [(conv, m)]\<rparr>)"

definition run_take :: "string \<Rightarrow> string \<Rightarrow> 'm web_world \<Rightarrow> 'm web_world" where
  "run_take tid conv w =
     (case consume_take conv (ww_queue w) of
        None \<Rightarrow> w
      | Some (m, q') \<Rightarrow>
          w\<lparr>ww_queue := q', ww_tasks := AList.update tid (conv, Some m) (ww_tasks w),
            ww_taken := ww_taken w @ [(conv, m)]\<rparr>)"

lemma web_enqueue_manager: "\<exists>tm'. snd (snd (web_enqueue now now' conv m q (Some tm))) = Some tm'"
  by (auto simp: web_enqueue_def Let_def split: prod.split sum.split)

lemma run_enqueue_step: "web_step w (run_enqueue conv m w)"
proof -
  obtain r q' tm' where "web_enqueue 0 0 conv m (ww_queue w) (Some (ww_tm w)) = (r, q', Some tm')"
    using web_enqueue_manager [of 0 0 conv m "ww_queue w" "ww_tm w"] by (metis prod.collapse)
  from web_step.enqueued [OF this refl] this show ?thesis by (simp add: run_enqueue_def)
qed

lemma run_take_step:
  assumes "map_of (ww_tasks w) tid = Some (conv, None)" "consume_take conv (ww_queue w) \<noteq> None"
  shows "web_step w (run_take tid conv w)"
proof -
  obtain m q' where t: "consume_take conv (ww_queue w) = Some (m, q')" using assms(2) by auto
  from web_step.taken [OF assms(1) t] t show ?thesis by (simp add: run_take_def)
qed


subsection \<open>What the hook answers\<close>

definition answers_call :: "string \<Rightarrow> string \<Rightarrow> approve_message \<Rightarrow> bool" where
  "answers_call sid cid m = (approval_key (am_conv m) (am_call m) = approval_key sid cid)"

text \<open>The last answer to a call among the messages of its window.\<close>

definition user_answer :: "string \<Rightarrow> string \<Rightarrow> approve_message list \<Rightarrow> json option" where
  "user_answer sid cid ms =
     (case rev (filter (answers_call sid cid) ms) of [] \<Rightarrow> None | m # _ \<Rightarrow> Some (am_approved m))"

lemma user_answer_simps [simp]:
  "user_answer sid cid [] = None"
  "user_answer sid cid (ms @ [m]) = (if answers_call sid cid m then Some (am_approved m) else user_answer sid cid ms)"
  by (simp_all add: user_answer_def)

lemma user_answer_Some:
  "user_answer sid cid ms = Some v \<Longrightarrow> \<exists>m \<in> set ms. answers_call sid cid m \<and> am_approved m = v"
  by (induction ms rule: rev_induct) (auto split: if_splits)

lemma pending_after_messages:
  "map_of (wq_pending (fold handle_tool_approve ms (create_pending sid cid q))) (approval_key sid cid)
     = Some (case user_answer sid cid ms of
               None \<Rightarrow> \<lparr>aw_set = False, aw_approved = JNull\<rparr>
             | Some v \<Rightarrow> \<lparr>aw_set = True, aw_approved = v\<rparr>)"
proof (induction ms rule: rev_induct)
  case Nil
  then show ?case by (simp add: create_pending_def)
next
  case (snoc m ms)
  have "map_of (wq_pending (handle_tool_approve m q')) (approval_key sid cid)
      = (if answers_call sid cid m then Some \<lparr>aw_set = True, aw_approved = am_approved m\<rparr> else Some p)"
    if "map_of (wq_pending q') (approval_key sid cid) = Some p" for p and q' :: "'a web_queue"
    using that by (auto simp: handle_tool_approve_def set_approval_decision_def Let_def answers_call_def
        update_conv' split: option.split)
  from this [OF snoc] show ?case by simp
qed

definition decided :: "string \<Rightarrow> (string \<times> string \<times> json) \<times> approve_message list \<Rightarrow> string" where
  "decided sid = (\<lambda>((cid, name, args), ms).
     case user_answer sid cid ms of None \<Rightarrow> ''deny'' | Some v \<Rightarrow> if truthy v then ''approve'' else ''deny'')"

lemma wait_for_user_decides: "fst (wait_for_user sid call ms q) = decided sid (call, ms)"
  by (cases call) (simp add: wait_for_user_def Let_def pending_after_messages decided_def split: option.split)

lemma before_tool_execution_decides:
  "fst (before_tool_execution sid calls q) = map (decided sid) calls"
proof (induction calls arbitrary: q)
  case (Cons c calls)
  obtain call ms where c: "c = (call, ms)" by (cases c)
  show ?case
    using wait_for_user_decides [of sid call ms q] Cons
    by (simp add: c split: prod.split) (metis fst_conv)
qed simp

text \<open>One audit record per call, with the one who decided.\<close>

lemma before_tool_execution_audits:
  "map wa_call (fst (snd (before_tool_execution sid calls q))) = map (fst \<circ> fst) calls
   \<and> map wa_decision (fst (snd (before_tool_execution sid calls q))) = fst (before_tool_execution sid calls q)"
proof (induction calls arbitrary: q)
  case (Cons c calls)
  obtain cid name args ms where c: "c = ((cid, name, args), ms)" by (metis surj_pair)
  obtain d a q1 where w: "wait_for_user sid (cid, name, args) ms q = (d, a, q1)" by (metis surj_pair)
  then have "wa_call a = cid" "wa_decision a = d"
    by (auto simp: wait_for_user_def Let_def split: if_splits)
  with Cons [of q1] w show ?case by (simp add: c split: prod.split) (metis fst_conv snd_conv)
qed simp

lemma web_hook_decisions:
  "ah_decide (web_hook sid profile chan windows q) calls
     = map (\<lambda>i. decided sid (calls ! i, windows i)) [0..<length calls]"
proof -
  have "with_windows windows calls = map (\<lambda>i. (calls ! i, windows i)) [0..<length calls]"
    by (auto simp: with_windows_def intro: nth_equalityI)
  then show ?thesis by (simp add: web_hook_def before_tool_execution_decides o_def)
qed

lemma remaining_gated_index:
  assumes "gate_calls ad loads reg (Some h) ov calls = Some g" "c \<in> set (remaining_calls g calls)"
    and "verdict_of loads reg (Some h) ov c = NeedsApproval"
  obtains i where "i < length (gated_of loads reg (Some h) ov calls)"
    "gated_of loads reg (Some h) ov calls ! i = evaluate_call loads reg ov c"
    "i < length (decisions_of loads reg h ov calls) \<Longrightarrow> decisions_of loads reg h ov calls ! i \<noteq> ''deny''"
proof -
  have c: "c \<in> set calls" "call_id_of c \<notin> ids_of (go_denied g)"
    using assms(2) by (auto simp: remaining_calls_def denied_id_def)
  let ?gated = "gated_of loads reg (Some h) ov calls"
  have "evaluate_call loads reg ov c \<in> set ?gated"
    using c(1) assms(3) by (simp add: gated_of_def verdict_of_def)
  then obtain i where i: "i < length ?gated" "?gated ! i = evaluate_call loads reg ov c"
    by (auto simp: in_set_conv_nth)
  have "call_id_of c \<in> ids_of (go_denied g)"
    if d: "i < length (decisions_of loads reg h ov calls)" "decisions_of loads reg h ov calls ! i = ''deny''"
  proof -
    from i(1) have "?gated \<noteq> []" by auto
    moreover have "call_id_of c = call_id_of (ev_call (?gated ! i))" using i(2) by simp
    ultimately show ?thesis
      unfolding gate_calls_denied [OF assms(1)] using d
      by (auto simp: gated_of_def decisions_of_def Let_def)
  qed
  with c(2) have "i < length (decisions_of loads reg h ov calls) \<Longrightarrow> decisions_of loads reg h ov calls ! i \<noteq> ''deny''"
    by blast
  with i that show ?thesis by blast
qed

lemma web_remaining_approved:
  assumes "gate_calls ad loads reg (Some (web_hook sid profile chan windows q)) ov calls = Some g"
    and "c \<in> set (remaining_calls g calls)"
    and "verdict_of loads reg (Some (web_hook sid profile chan windows q)) ov c = NeedsApproval"
  shows "\<exists>i. i < length (gated_of loads reg (Some (web_hook sid profile chan windows q)) ov calls)
     \<and> gated_of loads reg (Some (web_hook sid profile chan windows q)) ov calls ! i = evaluate_call loads reg ov c
     \<and> (\<exists>m \<in> set (windows i). am_conv m @ '':'' @ am_call m = sid @ '':'' @ call_id_of c \<and> truthy (am_approved m))"
proof -
  let ?h = "web_hook sid profile chan windows q"
  obtain i where i: "i < length (gated_of loads reg (Some ?h) ov calls)"
    "gated_of loads reg (Some ?h) ov calls ! i = evaluate_call loads reg ov c"
    "i < length (decisions_of loads reg ?h ov calls) \<Longrightarrow> decisions_of loads reg ?h ov calls ! i \<noteq> ''deny''"
    using remaining_gated_index [OF assms] by blast
  let ?qs = "map hook_question (gated_of loads reg (Some ?h) ov calls)"
  have "decisions_of loads reg ?h ov calls = map (\<lambda>i. decided sid (?qs ! i, windows i)) [0..<length ?qs]"
    using i(1) by (auto simp: decisions_of_def Let_def web_hook_decisions)
  then have "decided sid (?qs ! i, windows i) \<noteq> ''deny''" using i(1,3) by simp
  moreover have "?qs ! i = hook_question (evaluate_call loads reg ov c)" using i(1,2) by simp
  ultimately obtain v where "user_answer sid (call_id_of c) (windows i) = Some v" "truthy v"
    by (auto simp: decided_def hook_question_def split: option.splits if_splits)
  with user_answer_Some [OF this(1)] i(1,2) show ?thesis
    unfolding answers_call_def approval_key_def by blast
qed

text \<open>
  Property C19.  On the web channel a call that needs approval is only executed if, while the hook
  waited for it, a client approved exactly this call of exactly this session; silence until the
  time limit, and answers that came too early or too late, are denials.
\<close>

theorem web_approval_needs_the_user:
  assumes "gate_calls ad loads reg (Some (web_hook sid profile chan windows q)) ov calls = Some g"
    and "c \<in> set (remaining_calls g calls)"
    and "verdict_of loads reg (Some (web_hook sid profile chan windows q)) ov c = NeedsApproval"
  shows "\<exists>i. i < length (gated_of loads reg (Some (web_hook sid profile chan windows q)) ov calls)
     \<and> gated_of loads reg (Some (web_hook sid profile chan windows q)) ov calls ! i = evaluate_call loads reg ov c
     \<and> (\<exists>m \<in> set (windows i). am_conv m @ '':'' @ am_call m = sid @ '':'' @ call_id_of c \<and> truthy (am_approved m))"
  by (rule web_remaining_approved [OF assms])

definition demo_approve :: "string \<Rightarrow> approve_message" where
  "demo_approve cid = \<lparr>am_user = ''ann'', am_conv = ''web:ann:s'', am_call = cid, am_approved = JBool True\<rparr>"

definition demo_web_hook :: "(nat \<Rightarrow> approve_message list) \<Rightarrow> approval_hook" where
  "demo_web_hook windows = web_hook ''web:ann:s'' None [JStr ''act'', JStr ''look''] windows (wq_empty :: unit web_queue)"

theorem web_approval_needs_the_user_witness:
  "\<exists>g. gate_calls demo_audit (\<lambda>_. None) demo_registry (Some (demo_web_hook (\<lambda>i. [demo_approve ''c1'']))) None
         [demo_call ''c1'' ''act'', demo_call ''c2'' ''look''] = Some g
     \<and> remaining_calls g [demo_call ''c1'' ''act'', demo_call ''c2'' ''look''] = [demo_call ''c1'' ''act'']
     \<and> (\<exists>m :: approve_message. am_conv m @ '':'' @ am_call m = ''web:ann:s:c1'' \<and> truthy (am_approved m))"
proof -
  let ?calls = "[demo_call ''c1'' ''act'', demo_call ''c2'' ''look'']"
  let ?h = "demo_web_hook (\<lambda>i. [demo_approve ''c1''])"
  have "map_option (\<lambda>g. remaining_calls g ?calls)
      (gate_calls demo_audit (\<lambda>_. None) demo_registry (Some ?h) None ?calls) = Some [demo_call ''c1'' ''act'']"
    by code_simp
  then obtain g where g: "gate_calls demo_audit (\<lambda>_. None) demo_registry (Some ?h) None ?calls = Some g"
    "remaining_calls g ?calls = [demo_call ''c1'' ''act'']" by blast
  have v: "verdict_of (\<lambda>_. None) demo_registry (Some ?h) None (demo_call ''c1'' ''act'') = NeedsApproval"
    by code_simp
  have mem: "demo_call ''c1'' ''act'' \<in> set (remaining_calls g ?calls)" by (simp add: g(2))
  have id: "call_id_of (demo_call ''c1'' ''act'') = ''c1''" by code_simp
  obtain m :: approve_message where "am_conv m @ '':'' @ am_call m = ''web:ann:s'' @ '':'' @ ''c1''" "truthy (am_approved m)"
    using web_approval_needs_the_user [OF g(1) [unfolded demo_web_hook_def] mem v [unfolded demo_web_hook_def], unfolded id]
    by blast
  moreover have "''web:ann:s'' @ '':'' @ ''c1'' = ''web:ann:s:c1''" by simp
  ultimately have "am_conv m @ '':'' @ am_call m = ''web:ann:s:c1'' \<and> truthy (am_approved m)" by (simp only: simp_thms)
  with g show ?thesis by blast
qed

text \<open>
  The requests for all calls of a round are sent before the first is waited for.  An approval of
  the second that comes while the first is waited for is recorded, but never read: the second
  call then runs into its time limit and is denied.
\<close>

lemma early_approval_is_lost:
  "ah_decide (demo_web_hook (\<lambda>i. if i = 0 then [demo_approve ''c2'', demo_approve ''c1''] else []))
     [(''c1'', ''act'', JObj []), (''c2'', ''look'', JObj [])] = [''approve'', ''deny'']"
  by code_simp

text \<open>The answer is not checked to be a boolean: the text \<^verbatim>\<open>"false"\<close> approves.\<close>

lemma text_false_approves:
  "ah_decide (demo_web_hook (\<lambda>i. [(demo_approve ''c1'')\<lparr>am_approved := JStr ''false''\<rparr>])) [(''c1'', ''act'', JObj [])]
     = [''approve'']"
  by code_simp

text \<open>Nor is the user who answers compared with the user whose session it is.\<close>

lemma foreign_user_approves:
  "ah_decide (demo_web_hook (\<lambda>i. [(demo_approve ''c1'')\<lparr>am_user := ''bob''\<rparr>])) [(''c1'', ''act'', JObj [])]
     = [''approve'']"
  by code_simp

end
