(* ===== verification/WebChat.thy ===== *)
theory WebChat
  imports WebQueue Runner
begin

section \<open>The web channel\<close>

text \<open>
  Messages of a client (\<^verbatim>\<open>src/pyclaw/channels/web/protocol.py\<close>), their classification
  (\<^verbatim>\<open>message_classifier.py\<close>), the operations that act on a running conversation
  (\<^verbatim>\<open>protocol_ops.py\<close>), the admission of a chat message and the frames a run sends to its client
  (\<^verbatim>\<open>chat.py\<close>), and the answers of the OpenAI-compatible endpoint (\<^verbatim>\<open>openai_compat.py\<close>).
  Texts of replies are named by what they say.
\<close>

subsection \<open>Messages of a client\<close>

datatype client_message =
    Identify string
  | ChatSend string string "tier option" json
  | ChatAbort string
  | ToolApprove string string json
  | Pong

text \<open>
  A message is understood, unknown, or makes the parser raise, as a list for a name does.  The
  data classes do not check their fields; a field that should be a text and is none is
  \<open>Untyped\<close>, beyond which the model does not follow it.
\<close>

datatype parsed = Understood client_message | Unknown | Untyped | ParserRaises

fun hashable :: "json \<Rightarrow> bool" where
  "hashable (JList _) = False"
| "hashable (JObj _) = False"
| "hashable _ = True"

definition text_field :: "string \<Rightarrow> jobj \<Rightarrow> string option" where
  "text_field k d = (case jget_or (JStr []) k d of JStr s \<Rightarrow> Some s | _ \<Rightarrow> None)"

definition with_texts :: "string option list \<Rightarrow> (string list \<Rightarrow> client_message) \<Rightarrow> parsed" where
  "with_texts vs mk = (if None \<in> set vs then Untyped else Understood (mk (map the vs)))"

definition parse_client_message :: "jobj \<Rightarrow> parsed" where
  "parse_client_message d =
     (case jget ''type'' d of
        JNull \<Rightarrow> Unknown
      | JStr ty \<Rightarrow>
          if ty = ''identify'' then with_texts [text_field ''token'' d] (\<lambda>xs. Identify (xs ! 0))
          else if ty = ''chat.send'' then
            (case jget ''tier'' d of
               JNull \<Rightarrow>
                 with_texts [text_field ''conversation_id'' d, text_field ''content'' d]
                   (\<lambda>xs. ChatSend (xs ! 0) (xs ! 1) None (jget_or (JList []) ''attachments'' d))
             | JStr t \<Rightarrow>
                 (case tier_of_name t of
                    None \<Rightarrow> Unknown
                  | Some tr \<Rightarrow>
                      with_texts [text_field ''conversation_id'' d, text_field ''content'' d]
                        (\<lambda>xs. ChatSend (xs ! 0) (xs ! 1) (Some tr) (jget_or (JList []) ''attachments'' d)))
             | t \<Rightarrow> if hashable t then Unknown else ParserRaises)
          else if ty = ''chat.abort'' then with_texts [text_field ''conversation_id'' d] (\<lambda>xs. ChatAbort (xs ! 0))
          else if ty = ''tool.approve'' then
            with_texts [text_field ''conversation_id'' d, text_field ''tool_call_id'' d]
              (\<lambda>xs. ToolApprove (xs ! 0) (xs ! 1) (jget_or (JBool True) ''approved'' d))
          else if ty = ''pong'' then Understood Pong
          else Unknown
      | v \<Rightarrow> if hashable v then Unknown else ParserRaises)"

subsection \<open>Classification\<close>

datatype message_kind = ProtocolOp | SlashCommand | UserMessage

text \<open>\<^verbatim>\<open>PROTOCOL_OP_PREFIX_REGEX\<close>: the command and the end of the match.\<close>

definition op_prefix :: "string \<Rightarrow> (string \<times> nat) option" where
  "op_prefix s =
     (let followed = (\<lambda>p. starts_with p s \<and> length p < length s \<and> py_space (s ! length p))
      in if followed ''/steer'' then Some (''/steer'', 7)
         else if followed ''/btw'' then Some (''/btw'', 5) else None)"

definition is_protocol_op :: "string \<Rightarrow> bool" where
  "is_protocol_op content =
     (let s = py_lower (py_strip content)
      in s = ''/stop'' \<or> s = ''/steer'' \<or> s = ''/btw'' \<or> op_prefix s \<noteq> None)"

definition is_slash_command :: "string \<Rightarrow> bool" where
  "is_slash_command content = starts_with ''/'' (py_strip content)"

definition classify :: "string \<Rightarrow> message_kind" where
  "classify content =
     (if is_protocol_op content then ProtocolOp
      else if is_slash_command content then SlashCommand else UserMessage)"

datatype protocol_op = OpStop | OpInject steer_kind string | OpUnhandled

definition dispatch_protocol_op :: "string \<Rightarrow> protocol_op" where
  "dispatch_protocol_op content =
     (let stripped = py_strip content; lowered = py_lower stripped
      in if lowered = ''/stop'' then OpStop
         else if lowered = ''/steer'' then OpInject Steer []
         else if lowered = ''/btw'' then OpInject Sidebar []
         else case op_prefix lowered of
                None \<Rightarrow> OpUnhandled
              | Some (p, e) \<Rightarrow>
                  (let args = py_strip (drop e stripped)
                   in if p = ''/steer'' then OpInject Steer args
                      else if p = ''/btw'' then OpInject Sidebar args else OpUnhandled))"

subsection \<open>Frames sent to a client\<close>

datatype frame =
    ChatDelta string
  | ToolStart string string json
  | ToolEnd string string
  | AskApproval string string json
  | ChatDone string usage bool
  | ErrorFrame string
  | Queued nat

subsection \<open>Operations on a running conversation\<close>

text \<open>Whether a run was stopped, which is also what the frame \<^verbatim>\<open>chat.done\<close> says.\<close>

definition handle_stop_command :: "string \<Rightarrow> 'm web_queue \<Rightarrow> bool \<times> 'm web_queue" where
  "handle_stop_command conv q =
     (let (rc, q') = get_run_control conv q
      in if rc_is_active rc then (True, put_control conv (rc_stop (rc\<lparr>rc_done_elsewhere := True\<rparr>)) q')
         else (False, q'))"

definition handle_injection ::
    "steer_kind \<Rightarrow> string \<Rightarrow> string \<Rightarrow> 'm web_queue \<Rightarrow> steer_reply \<times> 'm web_queue" where
  "handle_injection kind conv args q =
     (let payload = py_strip args
      in if payload = [] then (NeedsArgument, q)
         else
           let (rc, q') = get_run_control conv q
           in if \<not> rc_is_active rc then (NoActiveRun, q')
              else case enforce_cap rc payload of
                     (Refused, rc') \<Rightarrow> (TextTooLong, put_control conv rc' q')
                   | (Accepted dropped, rc') \<Rightarrow>
                       (SteerAccepted dropped,
                        put_control conv (rc'\<lparr>rc_pending := rc_pending rc' @ [SteerMessage kind payload]\<rparr>) q'))"

subsection \<open>Admission of a chat message\<close>

text \<open>
  The session a conversation stands for.  A conversation with the prefix of the channel has to be
  the user's own; any other is put below the user.
\<close>

definition web_session_id :: "string \<Rightarrow> string \<Rightarrow> string option" where
  "web_session_id user conv =
     (if starts_with ''web:'' conv
      then (if starts_with (''web:'' @ user @ '':'') conv then Some conv else None)
      else Some (''web:'' @ user @ '':'' @ conv))"

subsection \<open>From the events of a run to frames\<close>

definition result_text :: "tool_result \<Rightarrow> string" where
  "result_text r =
     py_join nl (List.map_filter (\<lambda>b. case b of TextBlock s \<Rightarrow> Some s | _ \<Rightarrow> None) (tr_content r))"

fun event_frames :: "agent_event \<Rightarrow> run_control \<Rightarrow> frame list \<times> run_control" where
  "event_frames (TextChunk s) rc = ([ChatDelta s], rc)"
| "event_frames (ToolCallStart cid name args) rc = ([ToolStart cid name args], rc)"
| "event_frames (ToolCallEnd cid r) rc = ([ToolEnd cid (result_text r)], rc)"
| "event_frames (ApprovalRequest cid name args) rc = ([AskApproval cid name args], rc)"
| "event_frames (DoneEvent s u) rc = ([ChatDone s u False], rc)"
| "event_frames (ErrorEvent code msg) rc =
     (if code = ''aborted''
      then (if rc_done_elsewhere rc then ([], rc\<lparr>rc_done_elsewhere := False\<rparr>)
            else ([ChatDone [] zero_usage True], rc))
      else ([ErrorFrame msg], rc))"

fun chat_frames :: "agent_event list \<Rightarrow> run_control \<Rightarrow> frame list \<times> run_control" where
  "chat_frames [] rc = ([], rc)"
| "chat_frames (ev # evs) rc =
     (let (fs, rc1) = event_frames ev rc; (gs, rc2) = chat_frames evs rc1 in (fs @ gs, rc2))"

text \<open>
  The loop of \<^verbatim>\<open>_run_chat\<close> around a run: the control is active meanwhile; an exception of the run
  is an error frame.
\<close>

definition run_chat :: "('w run_state, unit) flow \<Rightarrow> run_control \<Rightarrow> frame list \<times> run_control" where
  "run_chat f rc =
     (let (evs, crashed) = (case f of Crash st \<Rightarrow> (rs_events st, True) | Return st \<Rightarrow> (rs_events st, False)
                            | Go st _ \<Rightarrow> (rs_events st, False) | NextTurn st \<Rightarrow> (rs_events st, False));
          (fs, rc') = chat_frames evs (rc\<lparr>rc_active := True\<rparr>)
      in (fs @ (if crashed then [ErrorFrame ''Internal error''] else []), rc'\<lparr>rc_active := False\<rparr>))"

fun closing :: "frame \<Rightarrow> bool" where
  "closing (ChatDone _ _ _) = True"
| "closing (ErrorFrame _) = True"
| "closing _ = False"

subsection \<open>The OpenAI-compatible endpoint\<close>

text \<open>Both answers read the events up to \<^verbatim>\<open>Done\<close>; the non-streaming one is one text.\<close>

fun until_done :: "agent_event list \<Rightarrow> string list \<times> usage option" where
  "until_done [] = ([], None)"
| "until_done (DoneEvent s u # evs) = ([], Some u)"
| "until_done (TextChunk s # evs) = (let (xs, u) = until_done evs in (s # xs, u))"
| "until_done (_ # evs) = until_done evs"

record openai_usage =
  ou_prompt :: int
  ou_completion :: int
  ou_total :: int
  ou_cached :: int

definition format_openai_usage :: "usage \<Rightarrow> openai_usage" where
  "format_openai_usage u =
     \<lparr>ou_prompt = u_input u, ou_completion = u_output u, ou_total = u_input u + u_output u,
      ou_cached = u_cache_read u\<rparr>"

definition complete_response :: "agent_event list \<Rightarrow> string \<times> string \<times> openai_usage" where
  "complete_response evs =
     (let (xs, u) = until_done evs
      in (concat xs, ''stop'', format_openai_usage (case u of None \<Rightarrow> zero_usage | Some u \<Rightarrow> u)))"

datatype sse = SseRole | SseDelta string | SseStop openai_usage | SseEnd

definition stream_sse :: "agent_event list \<Rightarrow> sse list" where
  "stream_sse evs =
     (let (xs, u) = until_done evs
      in SseRole # map SseDelta xs
         @ (case u of None \<Rightarrow> [] | Some u \<Rightarrow> [SseStop (format_openai_usage u)]) @ [SseEnd])"

definition last_user_message :: "(string \<times> string) list \<Rightarrow> string option" where
  "last_user_message msgs =
     (let us = filter (\<lambda>m. fst m = ''user'') msgs in if us = [] then None else Some (snd (last us)))"

subsection \<open>Properties\<close>

text \<open>Whatever is classified as an operation of the protocol is one of the known operations.\<close>

theorem protocol_ops_are_dispatched:
  "classify content = ProtocolOp \<longleftrightarrow> dispatch_protocol_op content \<noteq> OpUnhandled"
  by (auto simp: classify_def is_protocol_op_def dispatch_protocol_op_def Let_def op_prefix_def)

text \<open>
  The operations of the web channel and the commands of the other channels treat a
  steering message alike, although they are written separately: same reply, same control.
\<close>

theorem injection_agrees_with_command:
  "fst (handle_injection kind conv args q)
     = fst (handle_steer kind args (Some (fst (get_run_control conv q))))
   \<and> fst (get_run_control conv (snd (handle_injection kind conv args q)))
     = the (snd (handle_steer kind args (Some (fst (get_run_control conv q)))))"
proof -
  have g: "get_run_control conv (put_control conv rc q') = (rc, put_control conv rc q')" for rc q'
    by (simp add: get_run_control_def put_control_def)
  have i: "get_run_control conv (snd (get_run_control conv q)) = get_run_control conv q
      \<or> get_run_control conv (snd (get_run_control conv q)) = (fst (get_run_control conv q), snd (get_run_control conv q))"
    by (auto simp: get_run_control_def split: option.split)
  show ?thesis
    using i by (cases "enforce_cap (fst (get_run_control conv q)) (py_strip args)")
      (auto simp: handle_injection_def handle_steer_def Let_def g split: prod.split cap_result.split)
qed

lemma starts_with_web_user:
  assumes "web_session_id user conv = Some sid"
  shows "\<exists>r. sid = ''web:'' @ user @ '':'' @ r"
proof (cases "starts_with ''web:'' conv")
  case True
  with assms have "sid = conv" "starts_with (''web:'' @ user @ '':'') conv"
    by (auto simp: web_session_id_def split: if_splits)
  then show ?thesis unfolding starts_with_iff by auto
next
  case False
  with assms have "sid = ''web:'' @ user @ '':'' @ conv" by (auto simp: web_session_id_def)
  then show ?thesis by blast
qed

lemma colon_free_split:
  assumes "u @ '':'' @ r = v @ '':'' @ s" "CHR '':'' \<notin> set u" "CHR '':'' \<notin> set v"
  shows "u = v"
  using assms
proof (induction u arbitrary: v)
  case Nil
  then show ?case by (cases v) auto
next
  case (Cons x u)
  then show ?case by (cases v) auto
qed

lemma colon_free_suffix:
  assumes "a @ '':'' @ x = b @ '':'' @ y" "CHR '':'' \<notin> set x" "CHR '':'' \<notin> set y"
  shows "a = b"
proof -
  have e: "rev x @ '':'' @ rev a = rev y @ '':'' @ rev b"
    using arg_cong [OF assms(1), of rev] by simp
  then have "rev x = rev y" by (rule colon_free_split) (use assms in simp_all)
  with e show ?thesis by simp
qed



text \<open>
  A conversation whose id lacks the prefix of the channel cannot use tools that need
  approval: the pending decision is filed under the id of the session, the client's answer under
  the id of the conversation, and the call is denied whatever the user answers.
\<close>

theorem bare_conversations_cannot_approve:
  assumes "\<not> starts_with ''web:'' conv" "web_session_id user conv = Some sid"
    and "\<forall>i. \<forall>m \<in> set (windows i). am_conv m = conv \<and> CHR '':'' \<notin> set (am_call m)"
    and "\<forall>c \<in> set calls. CHR '':'' \<notin> set (call_id_of c)"
    and "gate_calls ad loads reg (Some (web_hook sid profile chan windows q)) ov calls = Some g"
    and "c \<in> set (remaining_calls g calls)"
  shows "verdict_of loads reg (Some (web_hook sid profile chan windows q)) ov c \<noteq> NeedsApproval"
proof
  assume "verdict_of loads reg (Some (web_hook sid profile chan windows q)) ov c = NeedsApproval"
  from web_remaining_approved [OF assms(5,6) this] obtain i and m :: approve_message
    where m: "m \<in> set (windows i)" "am_conv m @ '':'' @ am_call m = sid @ '':'' @ call_id_of c"
    by blast
  have "c \<in> set calls" using assms(6) by (simp add: remaining_calls_def)
  then have "CHR '':'' \<notin> set (call_id_of c)" "CHR '':'' \<notin> set (am_call m)" "am_conv m = conv"
    using assms(3,4) m(1) by auto
  then have "conv = sid" using colon_free_suffix [OF m(2)] by simp
  moreover have "starts_with ''web:'' sid"
    using starts_with_web_user [OF assms(2)] by (auto simp: starts_with_iff)
  ultimately show False using assms(1) by simp
qed

definition demo_bare_hook :: approval_hook where
  "demo_bare_hook = web_hook ''web:ann:chat'' None [JStr ''act''] (\<lambda>i. [(demo_approve ''c1'')\<lparr>am_conv := ''chat''\<rparr>])
     (wq_empty :: unit web_queue)"

theorem bare_conversations_cannot_approve_witness:
  "\<exists>g. gate_calls demo_audit (\<lambda>_. None) demo_registry (Some demo_bare_hook) None
         [demo_call ''c1'' ''act'', demo_call ''c2'' ''look''] = Some g
     \<and> remaining_calls g [demo_call ''c1'' ''act'', demo_call ''c2'' ''look''] = [demo_call ''c2'' ''look'']
     \<and> verdict_of (\<lambda>_. None) demo_registry (Some demo_bare_hook) None (demo_call ''c2'' ''look'') \<noteq> NeedsApproval"
proof -
  let ?calls = "[demo_call ''c1'' ''act'', demo_call ''c2'' ''look'']"
  have "map_option (\<lambda>g. remaining_calls g ?calls)
      (gate_calls demo_audit (\<lambda>_. None) demo_registry (Some demo_bare_hook) None ?calls) = Some [demo_call ''c2'' ''look'']"
    by code_simp
  then obtain g where g: "gate_calls demo_audit (\<lambda>_. None) demo_registry (Some demo_bare_hook) None ?calls = Some g"
    "remaining_calls g ?calls = [demo_call ''c2'' ''look'']" by blast
  have "\<not> starts_with ''web:'' ''chat''" "web_session_id ''ann'' ''chat'' = Some ''web:ann:chat''"
    "\<forall>c \<in> set ?calls. CHR '':'' \<notin> set (call_id_of c)"
    by code_simp+
  moreover have "\<forall>i. \<forall>m \<in> set [(demo_approve ''c1'')\<lparr>am_conv := ''chat''\<rparr>]. am_conv m = ''chat'' \<and> CHR '':'' \<notin> set (am_call m)"
    by (simp add: demo_approve_def)
  moreover have "demo_call ''c2'' ''look'' \<in> set (remaining_calls g ?calls)" by (simp add: g(2))
  ultimately show ?thesis
    using bare_conversations_cannot_approve [of "''chat''" "''ann''" "''web:ann:chat''"
        "\<lambda>i. [(demo_approve ''c1'')\<lparr>am_conv := ''chat''\<rparr>]" ?calls demo_audit "\<lambda>_. None" demo_registry None
        "[JStr ''act'']" "wq_empty :: unit web_queue" None g "demo_call ''c2'' ''look''"] g
    unfolding demo_bare_hook_def [symmetric] by blast
qed

lemma chat_frames_append:
  "chat_frames (xs @ ys) rc =
     (let (fs, rc1) = chat_frames xs rc; (gs, rc2) = chat_frames ys rc1 in (fs @ gs, rc2))"
  by (induction xs arbitrary: rc) (auto simp: Let_def split: prod.split)

lemma open_frames:
  "\<forall>ev \<in> set evs. \<not> terminal ev \<Longrightarrow>
     snd (chat_frames evs rc) = rc \<and> (\<forall>f \<in> set (fst (chat_frames evs rc)). \<not> closing f)"
proof (induction evs)
  case (Cons ev evs)
  then show ?case by (cases ev) (auto simp: Let_def split: prod.split)
qed simp



text \<open>
  The mark of a stop is only taken back when a run ends by an abort.  If a run that was stopped
  still finishes by itself, the user sees two closing frames, and the next run that is aborted
  sends none at all.
\<close>

lemma stale_stop_mark:
  assumes "rc_done_elsewhere rc"
  shows "snd (chat_frames [DoneEvent s u] rc) = rc \<and> fst (chat_frames [DoneEvent s u] rc) = [ChatDone s u False]
    \<and> fst (chat_frames [ErrorEvent ''aborted'' msg] rc) = []"
  using assms by simp

text \<open>
  The streaming and the plain answer of the OpenAI-compatible endpoint agree: the
  pieces of the stream join to the text of the plain answer, and both stop at the same event.
\<close>

theorem openai_stream_agrees:
  "concat (List.map_filter (\<lambda>x. case x of SseDelta s \<Rightarrow> Some s | _ \<Rightarrow> None) (stream_sse evs)) = fst (complete_response evs)
   \<and> (case snd (until_done evs) of
        None \<Rightarrow> last (butlast (stream_sse evs)) = last (SseRole # map SseDelta (fst (until_done evs)))
      | Some u \<Rightarrow> last (butlast (stream_sse evs)) = SseStop (snd (snd (complete_response evs))))"
proof -
  have "List.map_filter (\<lambda>x. case x of SseDelta s \<Rightarrow> Some s | _ \<Rightarrow> None) (map SseDelta xs) = xs" for xs
    by (induction xs) (simp_all add: List.map_filter_simps)
  moreover have "List.map_filter f (xs @ ys) = List.map_filter f xs @ List.map_filter f ys" for f :: "sse \<Rightarrow> string option" and xs ys
    by (simp add: List.map_filter_def)
  ultimately show ?thesis
    by (cases "until_done evs"; cases "snd (until_done evs)")
      (simp_all add: stream_sse_def complete_response_def List.map_filter_simps butlast_append)
qed

text \<open>A run that failed is answered like one that finished, with the text so far.\<close>

lemma openai_hides_errors:
  "complete_response [TextChunk ''half'', ErrorEvent ''timeout'' m] = (''half'', ''stop'', format_openai_usage zero_usage)
   \<and> stream_sse [TextChunk ''half'', ErrorEvent ''timeout'' m] = [SseRole, SseDelta ''half'', SseEnd]"
  by (simp add: complete_response_def stream_sse_def)

end
