(* ===== verification/WebApi.thy ===== *)
theory WebApi
  imports SessionStore Auth FileTools WebChat
begin

section \<open>Tokens, connections and sessions of the web channel\<close>

text \<open>
  The tokens of users (\<^verbatim>\<open>src/pyclaw/channels/web/auth.py\<close>, \<^verbatim>\<open>auth_routes.py\<close>), the registry of
  connections and the handshake of a socket (\<^verbatim>\<open>websocket.py\<close>), and the routes that show, rename and
  delete sessions (\<^verbatim>\<open>routes.py\<close>), over the in-memory store.
\<close>

subsection \<open>Tokens\<close>

text \<open>
  The keyed hash, the base64 coding and the JSON codec of the standard library are parameters;
  bytes are texts.
\<close>

record jwt_env =
  je_hmac :: "string \<Rightarrow> string \<Rightarrow> string"
  je_b64 :: "string \<Rightarrow> string"
  je_unb64 :: "string \<Rightarrow> string option"
  je_codec :: json_codec

definition jwt_payload :: "string \<Rightarrow> int \<Rightarrow> int \<Rightarrow> json" where
  "jwt_payload user_id now expires_in =
     JObj [(''sub'', JStr user_id), (''iat'', JInt now), (''exp'', JInt (now + expires_in))]"

definition create_jwt :: "jwt_env \<Rightarrow> string \<Rightarrow> string \<Rightarrow> int \<Rightarrow> int \<Rightarrow> string" where
  "create_jwt E user_id secret now expires_in =
     (let head = je_b64 E (jc_dumps (je_codec E)
                   (JObj [(''alg'', JStr ''HS256''), (''typ'', JStr ''JWT'')]));
          payload = je_b64 E (jc_dumps (je_codec E) (jwt_payload user_id now expires_in));
          signature = je_b64 E (je_hmac E secret (head @ ''.'' @ payload))
      in head @ ''.'' @ payload @ ''.'' @ signature)"

definition number_of :: "json \<Rightarrow> rat option" where
  "number_of v = (case v of JInt i \<Rightarrow> Some (of_int i) | JFloat q \<Rightarrow> Some q
                  | JBool b \<Rightarrow> Some (if b then 1 else 0) | _ \<Rightarrow> None)"

text \<open>A signed payload that is no JSON object makes the check raise, which is \<open>Inl\<close>.\<close>

definition verify_jwt :: "jwt_env \<Rightarrow> string \<Rightarrow> string \<Rightarrow> rat \<Rightarrow> unit + string option" where
  "verify_jwt E token secret now =
     (case split_on (CHR ''.'') [] token of
        [head, payload, sig] \<Rightarrow>
          (case je_unb64 E sig of
             None \<Rightarrow> Inr None
           | Some actual \<Rightarrow>
               if je_hmac E secret (head @ ''.'' @ payload) \<noteq> actual then Inr None
               else (case (case je_unb64 E payload of None \<Rightarrow> None | Some b \<Rightarrow> jc_loads (je_codec E) b) of
                       None \<Rightarrow> Inr None
                     | Some (JObj d) \<Rightarrow>
                         (case number_of (jget ''exp'' d) of
                            Some e \<Rightarrow>
                              if now > e then Inr None
                              else Inr (case jget ''sub'' d of JStr s \<Rightarrow> Some s | _ \<Rightarrow> None)
                          | None \<Rightarrow> Inr (case jget ''sub'' d of JStr s \<Rightarrow> Some s | _ \<Rightarrow> None))
                     | Some _ \<Rightarrow> Inl ()))
      | _ \<Rightarrow> Inr None)"

datatype 'a response = Ok 'a | HttpError nat string | ServerError

definition get_current_user :: "jwt_env \<Rightarrow> string \<Rightarrow> rat \<Rightarrow> string \<Rightarrow> string response" where
  "get_current_user E secret now auth_header =
     (if \<not> starts_with ''bearer '' (py_lower auth_header) then HttpError 401 ''Missing bearer token''
      else case verify_jwt E (drop 7 auth_header) secret now of
             Inl _ \<Rightarrow> ServerError
           | Inr None \<Rightarrow> HttpError 401 ''Invalid or expired token''
           | Inr (Some u) \<Rightarrow> Ok u)"

definition verify_admin_token :: "string \<Rightarrow> string \<Rightarrow> unit response" where
  "verify_admin_token admin_token provided =
     (if admin_token = [] then HttpError 403 ''Admin access not configured''
      else if provided \<noteq> admin_token then HttpError 403 ''Invalid admin token'' else Ok ())"

definition issue_token ::
    "jwt_env \<Rightarrow> string \<Rightarrow> int \<Rightarrow> (string \<times> string) list \<Rightarrow> string \<Rightarrow> string \<Rightarrow> string response" where
  "issue_token E secret now users user_id password =
     (if (\<exists>u \<in> set users. fst u = user_id \<and> snd u = password)
      then Ok (create_jwt E user_id secret now 86400) else HttpError 401 ''Invalid credentials'')"

subsection \<open>Connections\<close>

type_synonym 'c connections = "(string \<times> 'c list) list"

definition conns_of :: "string \<Rightarrow> 'c connections \<Rightarrow> 'c list" where
  "conns_of user r = (case map_of r user of None \<Rightarrow> [] | Some cs \<Rightarrow> cs)"

definition reg_connect :: "string \<Rightarrow> 'c \<Rightarrow> 'c connections \<Rightarrow> 'c connections" where
  "reg_connect user c r = AList.update user (List.insert c (conns_of user r)) r"

definition reg_disconnect :: "string \<Rightarrow> 'c \<Rightarrow> 'c connections \<Rightarrow> 'c connections" where
  "reg_disconnect user c r =
     (case map_of r user of
        None \<Rightarrow> r
      | Some cs \<Rightarrow>
          (let cs' = filter (\<lambda>x. x \<noteq> c) cs
           in if cs' = [] then AList.delete user r else AList.update user cs' r))"

definition reg_count :: "string \<Rightarrow> 'c connections \<Rightarrow> nat" where
  "reg_count user r = length (conns_of user r)"

datatype handshake = Ready string | Closed nat | HandshakeRaises

text \<open>
  The beginning of \<^verbatim>\<open>websocket_endpoint\<close>.  \<open>first\<close> is the first message within 30 seconds, if one
  came; \<open>verify\<close> is \<^const>\<open>verify_jwt\<close> with the secret and the time.
\<close>

definition ws_handshake ::
    "(string \<Rightarrow> unit + string option) \<Rightarrow> nat \<Rightarrow> parsed option \<Rightarrow> 'c \<Rightarrow> 'c connections \<Rightarrow> handshake \<times> 'c connections" where
  "ws_handshake verify max_connections first c r =
     (case first of
        None \<Rightarrow> (Closed 4001, r)
      | Some (Understood (Identify token)) \<Rightarrow>
          (case verify token of
             Inl _ \<Rightarrow> (HandshakeRaises, r)
           | Inr None \<Rightarrow> (Closed 4003, r)
           | Inr (Some user) \<Rightarrow>
               if reg_count user r \<ge> max_connections then (Closed 4004, r)
               else (Ready user, reg_connect user c r))
      | Some ParserRaises \<Rightarrow> (HandshakeRaises, r)
      | Some _ \<Rightarrow> (Closed 4002, r))"

text \<open>
  The loop of heartbeats: for each, whether the ping could be sent, the time after it and the time
  of the last pong.  The result is the number of pings and whether the connection was closed.
\<close>

fun heartbeat_loop :: "rat \<Rightarrow> (bool \<times> rat \<times> rat) list \<Rightarrow> nat \<times> bool" where
  "heartbeat_loop patience [] = (0, False)"
| "heartbeat_loop patience ((sent, now, last_pong) # beats) =
     (if \<not> sent then (0, False)
      else if now - last_pong > patience then (1, True)
      else let (n, closed) = heartbeat_loop patience beats in (Suc n, closed))"

subsection \<open>Routes on sessions\<close>

text \<open>\<^verbatim>\<open>_load_and_verify\<close>: the key of the session has to begin with the user's.\<close>

definition load_and_verify :: "string \<Rightarrow> string \<Rightarrow> mem_store \<Rightarrow> session_tree response" where
  "load_and_verify sid user s =
     (case mem_load sid s of
        None \<Rightarrow> HttpError 404 ''Session not found''
      | Some t \<Rightarrow>
          if \<not> starts_with (''web:'' @ user) (session_key (header t)) then HttpError 403 ''Access denied''
          else Ok t)"

definition py_slice_from :: "int \<Rightarrow> 'a list \<Rightarrow> nat" where
  "py_slice_from i xs = (if 0 \<le> i then min (nat i) (length xs) else length xs - nat (- i))"

text \<open>\<^verbatim>\<open>xs[a:b]\<close>, with its meaning for negative bounds.\<close>

definition py_slice :: "int \<Rightarrow> int \<Rightarrow> 'a list \<Rightarrow> 'a list" where
  "py_slice a b xs = drop (py_slice_from a xs) (take (py_slice_from b xs) xs)"

definition ordered_entries :: "session_tree \<Rightarrow> session_entry list" where
  "ordered_entries t = List.map_filter (map_of (entries t)) (order t)"

definition get_messages :: "string \<Rightarrow> int \<Rightarrow> int \<Rightarrow> string \<Rightarrow> mem_store \<Rightarrow> session_entry list response" where
  "get_messages sid offset len user s =
     (case load_and_verify sid user s of
        Ok t \<Rightarrow> Ok (py_slice offset (offset + len) (filter is_message (ordered_entries t)))
      | HttpError n m \<Rightarrow> HttpError n m
      | ServerError \<Rightarrow> ServerError)"

definition shown_title :: "session_tree \<Rightarrow> string option" where
  "shown_title t =
     (if opt_truthy (title (header t)) then title (header t)
      else case filter (\<lambda>e. case body e of MessageEntry r _ _ _ _ \<Rightarrow> r = RUser | _ \<Rightarrow> False) (ordered_entries t) of
             [] \<Rightarrow> None
           | e # _ \<Rightarrow>
               (case me_content (body e) of
                  CText s \<Rightarrow> if s = [] then None else Some (take 50 s)
                | _ \<Rightarrow> None))"

definition list_sessions :: "string \<Rightarrow> mem_store \<Rightarrow> (history_summary \<times> string option) list" where
  "list_sessions user s =
     map (\<lambda>h. (h, case mem_load (hs_session_id h) s of None \<Rightarrow> None | Some t \<Rightarrow> shown_title t))
       (mem_list_history (''web:'' @ user) 20 s)"

definition delete_session_route :: "string \<Rightarrow> string \<Rightarrow> mem_store \<Rightarrow> unit response \<times> mem_store" where
  "delete_session_route sid user s =
     (case load_and_verify sid user s of
        HttpError n m \<Rightarrow> (HttpError n m, s)
      | ServerError \<Rightarrow> (ServerError, s)
      | Ok _ \<Rightarrow>
          (let (deleted, s') = mem_delete_session sid s
           in (if deleted then Ok () else HttpError 404 ''Session not found'', s')))"

definition patch_session_route ::
    "string \<Rightarrow> string option \<Rightarrow> string \<Rightarrow> mem_store \<Rightarrow> (string \<times> string option) response \<times> mem_store" where
  "patch_session_route sid new_title user s =
     (case load_and_verify sid user s of
        HttpError n m \<Rightarrow> (HttpError n m, s)
      | ServerError \<Rightarrow> (ServerError, s)
      | Ok t \<Rightarrow>
          (case new_title of
             None \<Rightarrow> (Ok (hdr_id (header t), title (header t)), s)
           | Some nt \<Rightarrow>
               (let nt = py_strip nt
                in if length nt > 200 then (HttpError 400 ''Title too long (max 200 chars)'', s)
                   else let t' = t\<lparr>header := (header t)\<lparr>title := (if nt = [] then None else Some nt)\<rparr>\<rparr>
                        in (Ok (hdr_id (header t'), title (header t')), mem_save_header t' s))))"

subsection \<open>Properties\<close>

text \<open>What is relied on: base64 can be decoded and has no dots.\<close>

definition base64_ok :: "jwt_env \<Rightarrow> bool" where
  "base64_ok E \<longleftrightarrow> (\<forall>x. je_unb64 E (je_b64 E x) = Some x \<and> CHR ''.'' \<notin> set (je_b64 E x))"

lemma split_on_dot_free: "c \<notin> set s \<Longrightarrow> split_on c acc s = [acc @ s]"
  by (induction s arbitrary: acc) auto

lemma split_on_append: "c \<notin> set s \<Longrightarrow> split_on c acc (s @ c # r) = (acc @ s) # split_on c [] r"
  by (induction s arbitrary: acc) auto

lemma split_on_join: "py_join [c] (split_on c acc s) = acc @ s"
proof (induction s arbitrary: acc)
  case (Cons x s)
  have "split_on c b s \<noteq> []" for b by (induction s arbitrary: b) auto
  then have "py_join [c] (a # split_on c [] s) = a @ [c] @ py_join [c] (split_on c [] s)" for a
    by (cases "split_on c [] s") auto
  with Cons show ?case by auto
qed auto


text \<open>
  Property C21.  A token is only accepted with a signature by the secret over the very header and
  payload it carries, from which its user is read.
\<close>

theorem accepted_token_is_signed:
  assumes "verify_jwt E token secret now = Inr (Some user)"
  shows "\<exists>head payload sig d. token = head @ ''.'' @ payload @ ''.'' @ sig
     \<and> je_unb64 E sig = Some (je_hmac E secret (head @ ''.'' @ payload))
     \<and> je_unb64 E payload \<noteq> None \<and> jc_loads (je_codec E) (the (je_unb64 E payload)) = Some (JObj d)
     \<and> jget ''sub'' d = JStr user"
proof -
  obtain head payload sig where p: "split_on (CHR ''.'') [] token = [head, payload, sig]"
    using assms by (auto simp: verify_jwt_def split: list.splits)
  have t: "token = head @ ''.'' @ payload @ ''.'' @ sig"
    using split_on_join [of "CHR ''.''" "[]" token] by (simp add: p)
  obtain actual where a: "je_unb64 E sig = Some actual" "je_hmac E secret (head @ ''.'' @ payload) = actual"
    using assms by (auto simp: verify_jwt_def p split: option.splits if_splits)
  obtain b where b: "je_unb64 E payload = Some b"
    using assms a by (cases "je_unb64 E payload") (auto simp: verify_jwt_def p)
  obtain v where v: "jc_loads (je_codec E) b = Some v"
    using assms a b by (cases "jc_loads (je_codec E) b") (auto simp: verify_jwt_def p)
  obtain d where d: "v = JObj d"
    using assms a b v by (cases v) (auto simp: verify_jwt_def p)
  have "jget ''sub'' d = JStr user"
    using assms a b v d
    by (cases "jget ''sub'' d") (auto simp: verify_jwt_def p split: option.splits if_splits)
  with t a b v d show ?thesis by (intro exI [of _ head] exI [of _ payload] exI [of _ sig] exI [of _ d]) simp
qed

text \<open>An environment in which this can happen: every character is coded in unary.\<close>

definition unary :: "string \<Rightarrow> string" where
  "unary s = concat (map (\<lambda>c. replicate (of_char c) (CHR ''a'') @ ''b'') s)"

fun of_unary :: "nat \<Rightarrow> string \<Rightarrow> string option" where
  "of_unary n [] = Some []"
| "of_unary n (x # xs) =
     (if x = CHR ''a'' then of_unary (Suc n) xs
      else map_option ((#) (char_of n)) (of_unary 0 xs))"

lemma of_unary_replicate: "of_unary n (replicate k (CHR ''a'') @ r) = of_unary (n + k) r"
  by (induction k arbitrary: n) auto

lemma of_unary_unary: "of_unary 0 (unary s) = Some s"
  by (induction s) (simp_all add: unary_def of_unary_replicate)

lemma unary_dot_free: "CHR ''.'' \<notin> set (unary s)"
  by (induction s) (auto simp: unary_def)

definition demo_jwt :: jwt_env where
  "demo_jwt = \<lparr>je_hmac = (\<lambda>k m. k @ m), je_b64 = unary, je_unb64 = of_unary 0,
     je_codec = \<lparr>jc_dumps = (\<lambda>_. ''J''), jc_loads = (\<lambda>_. Some (jwt_payload ''ann'' 100 50))\<rparr>\<rparr>"

lemma demo_jwt_base64: "base64_ok demo_jwt"
  by (simp add: base64_ok_def demo_jwt_def of_unary_unary unary_dot_free)


lemma demo_token_verifies:
  "verify_jwt demo_jwt (unary ''h'' @ ''.'' @ unary ''J'' @ ''.'' @ unary (''k'' @ unary ''h'' @ ''.'' @ unary ''J'')) ''k'' 120
     = Inr (Some ''ann'')"
  by (simp add: verify_jwt_def split_on_append split_on_dot_free unary_dot_free demo_jwt_def of_unary_unary)
    (simp add: jwt_payload_def jget_def jget_or_def number_of_def)

theorem accepted_token_is_signed_witness:
  "\<exists>head payload sig. unary ''h'' @ ''.'' @ unary ''J'' @ ''.'' @ unary (''k'' @ unary ''h'' @ ''.'' @ unary ''J'')
       = head @ ''.'' @ payload @ ''.'' @ sig
     \<and> je_unb64 demo_jwt sig = Some (''k'' @ head @ ''.'' @ payload)"
  using accepted_token_is_signed [OF demo_token_verifies] by (auto simp: demo_jwt_def)

subsection \<open>Connections are bounded\<close>

datatype 'c conn_event = Connects "parsed option" 'c | Disconnects string 'c

definition conn_step ::
    "(string \<Rightarrow> unit + string option) \<Rightarrow> nat \<Rightarrow> 'c conn_event \<Rightarrow> 'c connections \<Rightarrow> 'c connections" where
  "conn_step verify max_connections ev r =
     (case ev of
        Connects first c \<Rightarrow> snd (ws_handshake verify max_connections first c r)
      | Disconnects user c \<Rightarrow> reg_disconnect user c r)"

lemma reg_count_connect:
  "reg_count u (reg_connect user c r) \<le> (if u = user then Suc (reg_count u r) else reg_count u r)"
  by (auto simp: reg_count_def reg_connect_def conns_of_def update_conv' List.insert_def split: option.split)

lemma reg_count_disconnect: "reg_count u (reg_disconnect user c r) \<le> reg_count u r"
  by (auto simp: reg_count_def reg_disconnect_def conns_of_def Let_def update_conv' delete_conv'
      split: option.splits)

lemma reg_count_handshake:
  assumes "reg_count u r \<le> n"
  shows "reg_count u (snd (ws_handshake verify n first c r)) \<le> n"
proof -
  have "reg_count u (reg_connect user c r) \<le> n" if "\<not> n \<le> reg_count user r" for user
    using that assms reg_count_connect [of u user c r] by (cases "u = user") auto
  with assms show ?thesis
    by (auto simp: ws_handshake_def split: option.split parsed.split client_message.split sum.split)
qed

text \<open>No user ever has more connections than the limit.\<close>

theorem connections_are_bounded:
  "reg_count u (fold (conn_step verify max_connections) evs []) \<le> max_connections"
proof -
  have "reg_count u (fold (conn_step verify max_connections) evs r) \<le> max_connections"
    if "reg_count u r \<le> max_connections" for r
    using that
  proof (induction evs arbitrary: r)
    case (Cons ev evs)
    have "reg_count u (conn_step verify max_connections ev r) \<le> max_connections"
    proof (cases ev)
      case (Connects first c)
      then show ?thesis using reg_count_handshake [OF Cons.prems] by (simp add: conn_step_def)
    next
      case (Disconnects user c)
      then show ?thesis using order_trans [OF reg_count_disconnect Cons.prems] by (simp add: conn_step_def)
    qed
    with Cons.IH show ?case by simp
  qed simp
  then show ?thesis by (simp add: reg_count_def conns_of_def)
qed

subsection \<open>Who may touch a session\<close>

text \<open>
  The check of the owner compares a prefix without its end: the sessions of the user
  \<^verbatim>\<open>anna\<close> can be shown, renamed and deleted by the user \<^verbatim>\<open>ann\<close>, and in general by every user
  whose id is the beginning of the owner's.
\<close>

theorem sessions_open_to_prefix_users:
  assumes "mem_load sid s = Some t" "session_key (header t) = ''web:'' @ user @ rest"
  shows "load_and_verify sid user s = Ok t
    \<and> fst (delete_session_route sid user s) = Ok ()
    \<and> mem_load sid (snd (delete_session_route sid user s)) = None"
proof -
  have l: "load_and_verify sid user s = Ok t" using assms by (simp add: load_and_verify_def)
  obtain b s' where d: "mem_delete_session sid s = (b, s')" by (metis surj_pair)
  then have "b" "mem_load sid s' = None"
    using assms(1) by (auto simp: mem_delete_session_def mem_load_def delete_conv')
  with l d show ?thesis by (simp add: delete_session_route_def)
qed

theorem sessions_open_to_prefix_users_witness:
  "mem_load ''x'' (snd (delete_session_route ''x'' ''ann''
     \<lparr>ms_trees = [(''x'', new_tree (demo_header\<lparr>session_key := ''web:anna''\<rparr>))], ms_current = [], ms_history = []\<rparr>)) = None"
proof -
  let ?t = "new_tree (demo_header\<lparr>session_key := ''web:anna''\<rparr>)"
  let ?s = "\<lparr>ms_trees = [(''x'', ?t)], ms_current = [], ms_history = []\<rparr>"
  have "mem_load ''x'' ?s = Some ?t" "session_key (header ?t) = ''web:'' @ ''ann'' @ ''a''"
    by (simp_all add: mem_load_def new_tree_def)
  from sessions_open_to_prefix_users [OF this] show ?thesis by blast
qed

text \<open>Without such a prefix nothing of a session is shown or changed.\<close>

lemma foreign_session_refused:
  assumes "mem_load sid s = Some t" "\<not> starts_with (''web:'' @ user) (session_key (header t))"
  shows "get_messages sid a n user s = HttpError 403 ''Access denied''
    \<and> delete_session_route sid user s = (HttpError 403 ''Access denied'', s)
    \<and> patch_session_route sid x user s = (HttpError 403 ''Access denied'', s)"
  using assms by (simp add: get_messages_def delete_session_route_def patch_session_route_def load_and_verify_def)

end
