(* ===== verification/FeishuApproval.thy ===== *)
theory FeishuApproval
  imports WebQueue WebChat FileTools SessionStore
begin

section \<open>Approval of tool calls in Feishu\<close>

text \<open>
  The registry of pending approvals (\<^verbatim>\<open>src/pyclaw/channels/feishu/approval_registry.py\<close>), the hook that
  posts a card and waits (\<^verbatim>\<open>tool_approval_hook.py\<close>), the callback of a click on the card
  (\<^verbatim>\<open>card_callback.py\<close>) and the values the buttons carry (\<^verbatim>\<open>approval_card.py\<close>).  A pending decision
  and its event are one entry of the registry; the countdown only redraws the card.
\<close>

subsection \<open>The registry\<close>

record feishu_wait =
  fw_set :: bool
  fw_approved :: bool
  fw_originator :: string
  fw_operator :: string

type_synonym feishu_registry = "((string \<times> string) \<times> feishu_wait) list"

definition fr_create_pending :: "string \<Rightarrow> string \<Rightarrow> string \<Rightarrow> feishu_registry \<Rightarrow> feishu_registry" where
  "fr_create_pending conv cid originator r =
     AList.update (conv, cid) \<lparr>fw_set = False, fw_approved = False, fw_originator = originator, fw_operator = []\<rparr> r"

definition fr_get :: "string \<Rightarrow> string \<Rightarrow> feishu_registry \<Rightarrow> feishu_wait option" where
  "fr_get conv cid r = map_of r (conv, cid)"

definition fr_discard :: "string \<Rightarrow> string \<Rightarrow> feishu_registry \<Rightarrow> feishu_registry" where
  "fr_discard conv cid r = AList.delete (conv, cid) r"

definition fr_set_decision ::
    "string \<Rightarrow> string \<Rightarrow> bool \<Rightarrow> string \<Rightarrow> feishu_registry \<Rightarrow> bool \<times> feishu_registry" where
  "fr_set_decision conv cid approved operator r =
     (case map_of r (conv, cid) of
        None \<Rightarrow> (False, r)
      | Some p \<Rightarrow>
          (True, AList.update (conv, cid)
             (p\<lparr>fw_set := True, fw_approved := approved, fw_operator := operator\<rparr>) r))"

text \<open>A reset wakes every waiter with a refusal; the result is what the waiters see.\<close>

definition fr_reset :: "feishu_registry \<Rightarrow> feishu_registry \<times> feishu_registry" where
  "fr_reset r = (map (\<lambda>(k, p). (k, p\<lparr>fw_set := True, fw_approved := False\<rparr>)) r, [])"

subsection \<open>The card and its callback\<close>

definition APPROVAL_ACTION_TYPE :: string where
  "APPROVAL_ACTION_TYPE = ''pyclaw_tool_approval''"

definition button_value :: "string \<Rightarrow> string \<Rightarrow> string \<Rightarrow> string \<Rightarrow> string \<Rightarrow> jobj" where
  "button_value conv cid originator tool decision =
     [(''type'', JStr APPROVAL_ACTION_TYPE), (''conv_id'', JStr conv), (''tool_call_id'', JStr cid),
      (''originator_open_id'', JStr originator), (''tool_name'', JStr tool), (''decision'', JStr decision)]"

text \<open>
  A click: the value of the button, as the server passes it on, and the id of the one who clicked,
  empty if it is missing.
\<close>

datatype click_value = RawText string | Parsed jobj | OtherValue

record click =
  ck_value :: click_value
  ck_operator :: string

datatype click_response = NoResponse | OnlyOriginator | Resolved json bool

definition value_of :: "(string \<Rightarrow> json option) \<Rightarrow> click_value \<Rightarrow> jobj option" where
  "value_of loads v =
     (case v of RawText s \<Rightarrow> (case loads s of Some (JObj d) \<Rightarrow> Some d | _ \<Rightarrow> None)
      | Parsed d \<Rightarrow> Some d | OtherValue \<Rightarrow> None)"

text \<open>
  \<^verbatim>\<open>_route\<close> and \<^verbatim>\<open>_record_decision\<close>.  An exception is answered like an unknown action.
\<close>

definition card_route ::
    "(string \<Rightarrow> json option) \<Rightarrow> click \<Rightarrow> feishu_registry \<Rightarrow> click_response \<times> feishu_registry" where
  "card_route loads c r =
     (case value_of loads (ck_value c) of
        None \<Rightarrow> (NoResponse, r)
      | Some d \<Rightarrow>
          if jget ''type'' d \<noteq> JStr APPROVAL_ACTION_TYPE then (NoResponse, r)
          else
            let originator = jget_or (JStr []) ''originator_open_id'' d;
                decision = jget_or (JStr ''deny'') ''decision'' d
            in if ck_operator c \<noteq> [] \<and> truthy originator \<and> JStr (ck_operator c) \<noteq> originator
               then (OnlyOriginator, r)
               else
                 (Resolved (jget_or (JStr ''tool'') ''tool_name'' d) (decision = JStr ''approve''),
                  case (jget_or (JStr []) ''conv_id'' d, jget_or (JStr []) ''tool_call_id'' d) of
                    (JStr conv, JStr cid) \<Rightarrow>
                      snd (fr_set_decision conv cid (decision = JStr ''approve'') (ck_operator c) r)
                  | _ \<Rightarrow> r))"

subsection \<open>The hook\<close>

text \<open>
  The originator of a session: what the resolver says if there is one that does not raise (the
  outer \<^const>\<open>None\<close>), or the third part of the id.
\<close>

definition resolve_originator :: "(string \<Rightarrow> string option option) option \<Rightarrow> string \<Rightarrow> string" where
  "resolve_originator resolver sid =
     (let from_id = (let ps = split_on (CHR '':'') [] sid
                     in if 3 \<le> length ps \<and> ps ! 0 = ''feishu'' then ps ! 2 else [])
      in case resolver of
           None \<Rightarrow> from_id
         | Some f \<Rightarrow> (case f sid of None \<Rightarrow> from_id | Some None \<Rightarrow> [] | Some (Some s) \<Rightarrow> s))"

definition resolve_receive_id :: "string \<Rightarrow> string \<Rightarrow> string \<times> string" where
  "resolve_receive_id conv originator =
     (let ps = split_on (CHR '':'') [] conv
      in if 4 \<le> length ps \<and> ps ! 0 = ''feishu'' \<and> ps ! 2 = ''chat'' then (ps ! 3, ''chat_id'')
         else if originator \<noteq> [] then (originator, ''open_id'')
         else if 3 \<le> length ps \<and> ps ! 0 = ''feishu'' then (ps ! 2, ''open_id'')
         else (conv, ''open_id''))"

text \<open>
  One call is waited for: the card is posted (\<open>post\<close> says whether that succeeds for a receiver),
  then clicks are handled until the event or the time limit.
\<close>

definition feishu_wait_for_user ::
    "(string \<Rightarrow> json option) \<Rightarrow> (string \<times> string \<Rightarrow> bool) \<Rightarrow> string \<Rightarrow> string
       \<Rightarrow> string \<times> string \<times> json \<Rightarrow> click list \<Rightarrow> feishu_registry \<Rightarrow> string \<times> web_audit \<times> feishu_registry" where
  "feishu_wait_for_user loads post sid originator call clicks r =
     (let (cid, name, args) = call;
          r1 = fr_create_pending sid cid originator r;
          record_as = (\<lambda>decision by. \<lparr>wa_session = sid, wa_tool = name, wa_call = cid, wa_tier = ''approval'',
                         wa_decision = decision, wa_by = by\<rparr>)
      in if \<not> post (resolve_receive_id sid originator)
         then (''deny'', record_as ''deny'' ''auto:post-failed'', fr_discard sid cid r1)
         else
           let r2 = fold (\<lambda>c. snd \<circ> card_route loads c) clicks r1;
               p = the (fr_get sid cid r2);
               r3 = fr_discard sid cid r2
           in if \<not> fw_set p then (''deny'', record_as ''deny'' ''auto:timeout'', r3)
              else let decision = (if fw_approved p then ''approve'' else ''deny'')
                   in (decision, record_as decision (if fw_operator p = [] then ''user'' else fw_operator p), r3))"

fun feishu_decide ::
    "(string \<Rightarrow> json option) \<Rightarrow> (string \<times> string \<Rightarrow> bool) \<Rightarrow> string \<Rightarrow> string
       \<Rightarrow> ((string \<times> string \<times> json) \<times> click list) list \<Rightarrow> feishu_registry
       \<Rightarrow> string list \<times> web_audit list \<times> feishu_registry" where
  "feishu_decide loads post sid originator [] r = ([], [], r)"
| "feishu_decide loads post sid originator ((call, clicks) # calls) r =
     (let (d, a, r1) = feishu_wait_for_user loads post sid originator call clicks r;
          (ds, as, r2) = feishu_decide loads post sid originator calls r1
      in (d # ds, a # as, r2))"

definition feishu_hook ::
    "(string \<Rightarrow> json option) \<Rightarrow> (string \<times> string \<Rightarrow> bool) \<Rightarrow> (string \<Rightarrow> string option option) option \<Rightarrow> string
       \<Rightarrow> user_profile option \<Rightarrow> json list \<Rightarrow> (nat \<Rightarrow> click list) \<Rightarrow> feishu_registry \<Rightarrow> approval_hook" where
  "feishu_hook loads post resolver sid profile channel_default windows r =
     \<lparr>ah_gate_ctx = (\<lambda>name. GateSays (web_should_gate profile channel_default name)),
      ah_gate = (\<lambda>name. GateSays (web_should_gate None channel_default name)),
      ah_decide = (\<lambda>calls. fst (feishu_decide loads post sid (resolve_originator resolver sid)
                               (with_windows windows calls) r))\<rparr>"

subsection \<open>What the hook answers\<close>

text \<open>The clicks that decide a call, and what they decide.\<close>

definition click_decides :: "(string \<Rightarrow> json option) \<Rightarrow> string \<Rightarrow> string \<Rightarrow> click \<Rightarrow> bool" where
  "click_decides loads sid cid c \<longleftrightarrow>
     (\<exists>d. value_of loads (ck_value c) = Some d \<and> jget ''type'' d = JStr APPROVAL_ACTION_TYPE
        \<and> jget_or (JStr []) ''conv_id'' d = JStr sid \<and> jget_or (JStr []) ''tool_call_id'' d = JStr cid
        \<and> (ck_operator c = [] \<or> \<not> truthy (jget_or (JStr []) ''originator_open_id'' d)
           \<or> JStr (ck_operator c) = jget_or (JStr []) ''originator_open_id'' d))"

definition click_approves :: "(string \<Rightarrow> json option) \<Rightarrow> click \<Rightarrow> bool" where
  "click_approves loads c \<longleftrightarrow>
     (\<exists>d. value_of loads (ck_value c) = Some d \<and> jget_or (JStr ''deny'') ''decision'' d = JStr ''approve'')"

lemma set_decision_get:
  "map_of r k = Some p \<Longrightarrow>
   map_of (snd (fr_set_decision conv cid a o' r)) k
     = Some (if (conv, cid) = k then p\<lparr>fw_set := True, fw_approved := a, fw_operator := o'\<rparr> else p)"
  by (auto simp: fr_set_decision_def update_conv' split: option.split)

lemma card_route_get:
  assumes "map_of r (sid, cid) = Some p"
  shows "map_of (snd (card_route loads c r)) (sid, cid)
     = Some (if click_decides loads sid cid c
             then p\<lparr>fw_set := True, fw_approved := click_approves loads c, fw_operator := ck_operator c\<rparr> else p)"
proof (cases "value_of loads (ck_value c)")
  case None
  with assms show ?thesis by (simp add: card_route_def click_decides_def)
next
  case (Some d)
  let ?conv = "jget_or (JStr []) ''conv_id'' d" and ?cid = "jget_or (JStr []) ''tool_call_id'' d"
  let ?or = "jget_or (JStr []) ''originator_open_id'' d"
  have dec: "click_decides loads sid cid c \<longleftrightarrow>
      jget ''type'' d = JStr APPROVAL_ACTION_TYPE \<and> ?conv = JStr sid \<and> ?cid = JStr cid
      \<and> \<not> (ck_operator c \<noteq> [] \<and> truthy ?or \<and> JStr (ck_operator c) \<noteq> ?or)"
    by (auto simp: click_decides_def Some)
  have app: "click_approves loads c \<longleftrightarrow> jget_or (JStr ''deny'') ''decision'' d = JStr ''approve''"
    by (auto simp: click_approves_def Some)
  show ?thesis
  proof (cases "jget ''type'' d = JStr APPROVAL_ACTION_TYPE
      \<and> \<not> (ck_operator c \<noteq> [] \<and> truthy ?or \<and> JStr (ck_operator c) \<noteq> ?or)")
    case False
    with assms Some dec show ?thesis by (auto simp: card_route_def Let_def)
  next
    case True
    then have r: "snd (card_route loads c r) = (case (?conv, ?cid) of
        (JStr conv, JStr cid) \<Rightarrow> snd (fr_set_decision conv cid (click_approves loads c) (ck_operator c) r)
      | _ \<Rightarrow> r)"
      unfolding card_route_def Let_def Some option.case app by auto
    show ?thesis
      unfolding r dec using True assms
      by (cases ?conv; cases ?cid) (auto simp: set_decision_get [OF assms])
  qed
qed

lemma clicks_get:
  assumes "map_of r (sid, cid) = Some p"
  shows "\<exists>p'. map_of (fold (\<lambda>c. snd \<circ> card_route loads c) clicks r) (sid, cid) = Some p'
     \<and> (fw_set p' \<longrightarrow> fw_set p \<or> (\<exists>c \<in> set clicks. click_decides loads sid cid c
          \<and> fw_approved p' = click_approves loads c \<and> fw_operator p' = ck_operator c))"
proof (induction clicks rule: rev_induct)
  case Nil
  with assms show ?case by simp
next
  case (snoc c clicks)
  then obtain p' where p': "map_of (fold (\<lambda>c. snd \<circ> card_route loads c) clicks r) (sid, cid) = Some p'"
    "fw_set p' \<longrightarrow> fw_set p \<or> (\<exists>c \<in> set clicks. click_decides loads sid cid c
          \<and> fw_approved p' = click_approves loads c \<and> fw_operator p' = ck_operator c)"
    by blast
  let ?q = "fold (\<lambda>c. snd \<circ> card_route loads c) clicks r"
  have f: "fold (\<lambda>c. snd \<circ> card_route loads c) (clicks @ [c]) r = snd (card_route loads c ?q)" by simp
  show ?case
  proof (cases "click_decides loads sid cid c")
    case True
    with card_route_get [OF p'(1), of loads c] show ?thesis unfolding f by (intro exI conjI) auto
  next
    case False
    with card_route_get [OF p'(1), of loads c] p'(2) show ?thesis unfolding f
      by (intro exI [of _ p']) auto
  qed
qed

lemma feishu_wait_approves:
  assumes "fst (feishu_wait_for_user loads post sid originator (cid, name, args) clicks r) \<noteq> ''deny''"
  shows "\<exists>c \<in> set clicks. click_decides loads sid cid c \<and> click_approves loads c"
proof -
  have "map_of (fr_create_pending sid cid originator r) (sid, cid)
      = Some \<lparr>fw_set = False, fw_approved = False, fw_originator = originator, fw_operator = []\<rparr>"
    by (simp add: fr_create_pending_def)
  from clicks_get [OF this, of loads clicks] show ?thesis
    using assms by (auto simp: feishu_wait_for_user_def Let_def fr_get_def split: if_splits)
qed

lemma feishu_decide_nth:
  assumes "i < length calls"
  shows "length (fst (feishu_decide loads post sid originator calls r)) = length calls
    \<and> (\<exists>r'. fst (feishu_decide loads post sid originator calls r) ! i
        = fst (feishu_wait_for_user loads post sid originator (fst (calls ! i)) (snd (calls ! i)) r'))"
  using assms
proof (induction calls arbitrary: i r)
  case (Cons c calls)
  obtain call clicks where c: "c = (call, clicks)" by (cases c)
  obtain d a r1 where w: "feishu_wait_for_user loads post sid originator call clicks r = (d, a, r1)" by (metis surj_pair)
  obtain ds as r2 where ds: "feishu_decide loads post sid originator calls r1 = (ds, as, r2)" by (metis surj_pair)
  have len: "length ds = length calls"
    using Cons.IH [of 0 r1] ds by (cases calls) auto
  show ?case
  proof (cases i)
    case 0
    then show ?thesis using len by (simp add: c w ds) (metis fst_conv w)
  next
    case (Suc j)
    with Cons.IH [of j r1] Cons.prems len show ?thesis by (simp add: c w ds)
  qed
qed simp

text \<open>
  Property C20.  In Feishu a call that needs approval is only executed if, while the hook waited for
  it, somebody clicked the approving button of a card for exactly this call of this session, and
  the one who clicked is the originator named by the button unless one of the two is unknown.
\<close>

theorem feishu_approval_needs_a_click:
  assumes "gate_calls ad loads' reg (Some (feishu_hook loads post resolver sid profile chan windows r)) ov calls = Some g"
    and "c \<in> set (remaining_calls g calls)"
    and "verdict_of loads' reg (Some (feishu_hook loads post resolver sid profile chan windows r)) ov c = NeedsApproval"
  shows "\<exists>i. \<exists>k \<in> set (windows i). click_decides loads sid (call_id_of c) k \<and> click_approves loads k"
proof -
  let ?h = "feishu_hook loads post resolver sid profile chan windows r"
  let ?gated = "gated_of loads' reg (Some ?h) ov calls"
  let ?qs = "map hook_question ?gated"
  obtain i where i: "i < length ?gated" "?gated ! i = evaluate_call loads' reg ov c"
    "i < length (decisions_of loads' reg ?h ov calls) \<Longrightarrow> decisions_of loads' reg ?h ov calls ! i \<noteq> ''deny''"
    using remaining_gated_index [OF assms] by blast
  have d: "decisions_of loads' reg ?h ov calls
      = fst (feishu_decide loads post sid (resolve_originator resolver sid) (with_windows windows ?qs) r)"
    using i(1) by (auto simp: decisions_of_def Let_def feishu_hook_def)
  have l: "i < length (with_windows windows ?qs)" using i(1) by (simp add: with_windows_def)
  have q: "with_windows windows ?qs ! i = (hook_question (evaluate_call loads' reg ov c), windows i)"
    using i(1,2) by (simp add: with_windows_def)
  obtain r' where w: "fst (feishu_wait_for_user loads post sid (resolve_originator resolver sid)
      (hook_question (evaluate_call loads' reg ov c)) (windows i) r') \<noteq> ''deny''"
    using feishu_decide_nth [OF l, of loads post sid "resolve_originator resolver sid" r] i(3) l q
    unfolding d by auto
  let ?ev = "evaluate_call loads' reg ov c"
  have "fst (feishu_wait_for_user loads post sid (resolve_originator resolver sid)
      (call_id_of c, ev_canonical ?ev, ev_args ?ev) (windows i) r') \<noteq> ''deny''"
    using w by (simp add: hook_question_def)
  from feishu_wait_approves [OF this] show ?thesis by blast
qed

definition demo_click :: "string \<Rightarrow> string \<Rightarrow> click" where
  "demo_click operator cid =
     \<lparr>ck_value = Parsed (button_value ''feishu:app:ou_1:s:1'' cid ''ou_1'' ''act'' ''approve''), ck_operator = operator\<rparr>"

definition demo_feishu_hook :: "(nat \<Rightarrow> click list) \<Rightarrow> approval_hook" where
  "demo_feishu_hook windows =
     feishu_hook (\<lambda>_. None) (\<lambda>_. True) None ''feishu:app:ou_1:s:1'' None [JStr ''act''] windows []"

theorem feishu_approval_needs_a_click_witness:
  "\<exists>g. gate_calls demo_audit (\<lambda>_. None) demo_registry (Some (demo_feishu_hook (\<lambda>i. [demo_click ''ou_2'' ''c1'', demo_click ''ou_1'' ''c1'']))) None
         [demo_call ''c1'' ''act''] = Some g
     \<and> remaining_calls g [demo_call ''c1'' ''act''] = [demo_call ''c1'' ''act'']
     \<and> (\<exists>k. click_decides (\<lambda>_. None) ''feishu:app:ou_1:s:1'' ''c1'' k \<and> click_approves (\<lambda>_. None) k)"
proof -
  let ?calls = "[demo_call ''c1'' ''act'']"
  let ?h = "demo_feishu_hook (\<lambda>i. [demo_click ''ou_2'' ''c1'', demo_click ''ou_1'' ''c1''])"
  have "map_option (\<lambda>g. remaining_calls g ?calls)
      (gate_calls demo_audit (\<lambda>_. None) demo_registry (Some ?h) None ?calls) = Some ?calls"
    by code_simp
  then obtain g where g: "gate_calls demo_audit (\<lambda>_. None) demo_registry (Some ?h) None ?calls = Some g"
    "remaining_calls g ?calls = ?calls" by blast
  have v: "verdict_of (\<lambda>_. None) demo_registry (Some ?h) None (demo_call ''c1'' ''act'') = NeedsApproval"
    by code_simp
  have mem: "demo_call ''c1'' ''act'' \<in> set (remaining_calls g ?calls)" by (simp add: g(2))
  have id: "call_id_of (demo_call ''c1'' ''act'') = ''c1''" by code_simp
  from feishu_approval_needs_a_click [OF g(1) [unfolded demo_feishu_hook_def] mem v [unfolded demo_feishu_hook_def], unfolded id]
  show ?thesis using g by blast
qed

text \<open>
  The originator stored with the pending decision is not looked at: a click whose id is missing
  approves, and so does a click by anybody when the button names no originator.
\<close>

lemma anonymous_click_approves:
  "ah_decide (demo_feishu_hook (\<lambda>i. [demo_click [] ''c1''])) [(''c1'', ''act'', JObj [])] = [''approve'']"
  by code_simp

lemma button_decides_originator:
  assumes "fr_get conv cid r = Some p" "originator \<noteq> []"
  shows "fst (card_route loads \<lparr>ck_value = Parsed (button_value conv cid originator tool ''approve''), ck_operator = u\<rparr> r)
     = (if u = [] \<or> u = originator then Resolved (JStr tool) True else OnlyOriginator)"
  using assms by (simp add: card_route_def value_of_def button_value_def jget_def jget_or_def Let_def)

end
