(* ===== verification/Gateway.thy ===== *)
theory Gateway
  imports Lock
begin

section \<open>Which worker serves a session\<close>

text \<open>
  The affinity of sessions to workers (\<^verbatim>\<open>src/pyclaw/gateway/affinity.py\<close>), the router that serves an
  event here or forwards it to the owner of its session (\<^verbatim>\<open>router.py\<close>, \<^verbatim>\<open>forwarder.py\<close>), and the
  registry of workers (\<^verbatim>\<open>worker_registry.py\<close>).  Other workers act between the commands of one: a
  routing is given, for each of its commands, the state of the server that the command finds.
\<close>

subsection \<open>Affinity\<close>

record affinity =
  af_prefix :: string
  af_worker :: string
  af_ttl :: int

definition affinity_key :: "affinity \<Rightarrow> string \<Rightarrow> string" where
  "affinity_key A skey = af_prefix A @ ''affinity:'' @ skey"

definition af_resolve :: "'r redis \<Rightarrow> affinity \<Rightarrow> string \<Rightarrow> 'r \<Rightarrow> string option" where
  "af_resolve R A skey r = rd_get R (affinity_key A skey) r"

definition af_claim :: "'r redis \<Rightarrow> affinity \<Rightarrow> string \<Rightarrow> 'r \<Rightarrow> bool \<times> 'r" where
  "af_claim R A skey r = rd_set_nx_px R (affinity_key A skey) (af_worker A) (1000 * af_ttl A) r"

definition af_renew :: "'r redis \<Rightarrow> affinity \<Rightarrow> string \<Rightarrow> 'r \<Rightarrow> 'r" where
  "af_renew R A skey r = rd_expire R (affinity_key A skey) (af_ttl A) r"

definition af_release :: "'r redis \<Rightarrow> affinity \<Rightarrow> string \<Rightarrow> 'r \<Rightarrow> bool \<times> 'r" where
  "af_release R A skey r =
     (let (n, r') = release_script R (affinity_key A skey) (af_worker A) r in (n \<noteq> 0, r'))"

definition af_force_claim :: "'r redis \<Rightarrow> affinity \<Rightarrow> string \<Rightarrow> 'r \<Rightarrow> 'r" where
  "af_force_claim R A skey r =
     rd_expire R (affinity_key A skey) (af_ttl A) (rd_set R (affinity_key A skey) (af_worker A) r)"

definition af_is_mine :: "affinity \<Rightarrow> string option \<Rightarrow> bool" where
  "af_is_mine A owner = (owner = Some (af_worker A))"

subsection \<open>Routing\<close>

definition channel_for :: "string \<Rightarrow> string \<Rightarrow> string" where
  "channel_for pre worker = pre @ worker"

text \<open>\<^verbatim>\<open>forward\<close>: \<open>subscribers\<close> is the answer of \<^verbatim>\<open>PUBLISH\<close> for a channel.\<close>

definition forward :: "string \<Rightarrow> (string \<Rightarrow> nat) \<Rightarrow> string \<Rightarrow> bool" where
  "forward pre subscribers worker = (subscribers (channel_for pre worker) > 0)"

datatype route_result = Local | Forwarded

text \<open>
  \<^verbatim>\<open>_route_inner\<close>.  \<open>others n\<close> is what the other workers do to the server before the \<open>n\<close>-th
  command.  The result also says to which worker the event was published.
\<close>

definition route_inner ::
    "'r redis \<Rightarrow> affinity \<Rightarrow> string \<Rightarrow> (string \<Rightarrow> nat) \<Rightarrow> (nat \<Rightarrow> 'r \<Rightarrow> 'r) \<Rightarrow> string \<Rightarrow> 'r
       \<Rightarrow> route_result \<times> string option \<times> 'r" where
  "route_inner R A pre subscribers others skey r =
     (let r0 = others 0 r;
          owner = af_resolve R A skey r0;
          hand_over = (\<lambda>w n r.
            if forward pre subscribers w then (Forwarded, Some w, r)
            else (Local, Some w, af_force_claim R A skey (others n r)))
      in if af_is_mine A owner then (Local, None, af_renew R A skey (others 1 r0))
         else case owner of
                Some w \<Rightarrow> hand_over w 1 r0
              | None \<Rightarrow>
                  (let (claimed, r1) = af_claim R A skey (others 1 r0)
                   in if claimed then (Local, None, r1)
                      else
                        let r2 = others 2 r1; owner2 = af_resolve R A skey r2
                        in if owner2 = None \<or> af_is_mine A owner2 then (Local, None, r2)
                           else hand_over (the owner2) 3 r2))"

text \<open>A failing connection is served here, with what was done to the server so far.\<close>

definition route ::
    "'r redis \<Rightarrow> affinity \<Rightarrow> string \<Rightarrow> (string \<Rightarrow> nat) \<Rightarrow> (nat \<Rightarrow> 'r \<Rightarrow> 'r) \<Rightarrow> string \<Rightarrow> 'r option \<Rightarrow> 'r
       \<Rightarrow> route_result \<times> string option \<times> 'r" where
  "route R A pre subscribers others skey broken r =
     (case broken of Some r' \<Rightarrow> (Local, None, r') | None \<Rightarrow> route_inner R A pre subscribers others skey r)"

subsection \<open>The forwarding consumer\<close>

text \<open>
  The messages of one subscription: what is not a message is passed over, what cannot be decoded is
  dropped, the others are handled in their order; an exception of the handler is logged.
\<close>

record pubsub_message =
  pm_type :: string
  pm_data :: string

definition handled_payloads :: "(string \<Rightarrow> json option) \<Rightarrow> pubsub_message list \<Rightarrow> json list" where
  "handled_payloads loads ms =
     List.map_filter (\<lambda>m. loads (pm_data m)) (filter (\<lambda>m. pm_type m = ''message'') ms)"

text \<open>The pauses between subscriptions that fail one after the other.\<close>

fun backoffs :: "rat \<Rightarrow> nat \<Rightarrow> rat list" where
  "backoffs b 0 = []"
| "backoffs b (Suc n) = b # backoffs (min (b * 2) 30) n"

subsection \<open>The registry of workers\<close>

record worker_info =
  wi_id :: string
  wi_last :: rat
  wi_status :: string

definition wr_register :: "string \<Rightarrow> rat \<Rightarrow> (string \<times> rat) list \<Rightarrow> (string \<times> rat) list" where
  "wr_register worker now ws = AList.update worker now ws"

definition wr_deregister :: "string \<Rightarrow> (string \<times> rat) list \<Rightarrow> (string \<times> rat) list" where
  "wr_deregister worker ws = AList.delete worker ws"

definition worker_status :: "rat \<Rightarrow> rat \<Rightarrow> string" where
  "worker_status stale_threshold age =
     (if age < stale_threshold then ''healthy''
      else if age < stale_threshold * (3 / 2) then ''stale'' else ''dead'')"

text \<open>Without Redis (the outer \<^const>\<open>None\<close>) only this worker is known.\<close>

definition active_workers ::
    "string \<Rightarrow> rat \<Rightarrow> rat \<Rightarrow> (string \<times> rat) list option \<Rightarrow> worker_info list" where
  "active_workers me now stale_threshold ws =
     (case ws of
        None \<Rightarrow> [\<lparr>wi_id = me, wi_last = now, wi_status = ''healthy''\<rparr>]
      | Some members \<Rightarrow>
          map (\<lambda>(w, t). \<lparr>wi_id = w, wi_last = t, wi_status = worker_status stale_threshold (now - t)\<rparr>)
            (sort_key snd members))"

subsection \<open>Properties\<close>

lemma af_renew_resolve:
  "redis_data_ok R \<Longrightarrow> 0 < af_ttl A \<Longrightarrow> af_resolve R A k (af_renew R A k' r) = af_resolve R A k r"
  by (simp add: af_resolve_def af_renew_def redis_laws)

lemma af_force_claim_resolve:
  "redis_data_ok R \<Longrightarrow> 0 < af_ttl A \<Longrightarrow> af_resolve R A k (af_force_claim R A k r) = Some (af_worker A)"
  by (simp add: af_resolve_def af_force_claim_def redis_laws)

lemma af_claim_cases:
  assumes "redis_expiry_ok R" "0 < af_ttl A" "af_claim R A k r = (claimed, r')"
  shows "claimed = (af_resolve R A k r = None)" "claimed \<Longrightarrow> af_resolve R A k r' = Some (af_worker A)"
    "\<not> claimed \<Longrightarrow> r' = r"
proof -
  let ?c = "rd_set_nx_px R (affinity_key A k) (af_worker A) (1000 * af_ttl A) r"
  have c: "fst ?c = claimed" "snd ?c = r'" using assms(3) by (simp_all add: af_claim_def)
  have n: "0 < 1000 * af_ttl A" using assms(2) by simp
  show "claimed = (af_resolve R A k r = None)"
    using redis_nx(1) [OF assms(1) n] c(1) by (simp add: af_resolve_def)
  then show "claimed \<Longrightarrow> af_resolve R A k r' = Some (af_worker A)" "\<not> claimed \<Longrightarrow> r' = r"
    using redis_nx(2,3) [OF assms(1) n] by (auto simp: af_resolve_def simp flip: c(2))
qed

text \<open>
  Property C23.  Routing without interference: an event is forwarded exactly when another worker
  owns its session and listens; otherwise it is served here, and this worker owns the session
  afterwards.
\<close>

theorem routing_follows_ownership:
  assumes "redis_data_ok R" "redis_expiry_ok R" "0 < af_ttl A"
    and "route_inner R A pre subscribers (\<lambda>n r. r) skey r = (res, target, r')"
  shows "(res = Forwarded \<longleftrightarrow>
      (\<exists>w. af_resolve R A skey r = Some w \<and> w \<noteq> af_worker A \<and> subscribers (pre @ w) > 0))
    \<and> (case res of Forwarded \<Rightarrow> r' = r | Local \<Rightarrow> af_resolve R A skey r' = Some (af_worker A))"
proof (cases "af_resolve R A skey r")
  case None
  obtain claimed r1 where c: "af_claim R A skey r = (claimed, r1)" by (metis surj_pair)
  from af_claim_cases [OF assms(2,3) c] None have "claimed" "af_resolve R A skey r1 = Some (af_worker A)" by simp_all
  with assms(4) None c show ?thesis by (auto simp: route_inner_def Let_def af_is_mine_def)
next
  case (Some w)
  show ?thesis
  proof (cases "w = af_worker A")
    case True
    with assms Some show ?thesis
      by (auto simp: route_inner_def Let_def af_is_mine_def af_renew_resolve)
  next
    case False
    with assms Some show ?thesis
      by (auto simp: route_inner_def Let_def af_is_mine_def forward_def channel_for_def af_force_claim_resolve
          split: if_splits)
  qed
qed

definition demo_affinity :: affinity where
  "demo_affinity = \<lparr>af_prefix = ''p:'', af_worker = ''w1'', af_ttl = 300\<rparr>"

theorem routing_follows_ownership_witness:
  "\<exists>r'. route_inner demo_server demo_affinity ''f:'' (\<lambda>_. 0) (\<lambda>n r. r) ''k''
       (rd_set demo_server ''p:affinity:k'' ''w2'' demo_empty) = (Local, Some ''w2'', r')
     \<and> af_resolve demo_server demo_affinity ''k'' r' = Some ''w1''"
proof -
  let ?r = "rd_set demo_server ''p:affinity:k'' ''w2'' demo_empty"
  obtain res target r' where r: "route_inner demo_server demo_affinity ''f:'' (\<lambda>_. 0) (\<lambda>n r. r) ''k'' ?r = (res, target, r')"
    by (metis surj_pair)
  have "(fst (route_inner demo_server demo_affinity ''f:'' (\<lambda>_. 0) (\<lambda>n r. r) ''k'' ?r),
         fst (snd (route_inner demo_server demo_affinity ''f:'' (\<lambda>_. 0) (\<lambda>n r. r) ''k'' ?r))) = (Local, Some ''w2'')"
    by code_simp
  then have "res = Local" "target = Some ''w2''" unfolding r by simp_all
  moreover have "0 < af_ttl demo_affinity" "af_worker demo_affinity = ''w1''" by (simp_all add: demo_affinity_def)
  ultimately show ?thesis
    using routing_follows_ownership [OF demo_data_ok demo_expiry_ok _ r] r by auto
qed

text \<open>
  With other workers acting in between, an event is only ever forwarded to another worker, that
  owned the session at one of the two times it was asked for, and that listened.
\<close>

theorem forwarded_to_a_live_owner:
  assumes "route_inner R A pre subscribers others skey r = (Forwarded, target, r')"
  shows "\<exists>w. target = Some w \<and> w \<noteq> af_worker A \<and> subscribers (pre @ w) > 0
    \<and> (af_resolve R A skey (others 0 r) = Some w
       \<or> af_resolve R A skey (others 2 (snd (af_claim R A skey (others 1 (others 0 r))))) = Some w)"
  using assms
  by (cases "af_claim R A skey (others 1 (others 0 r))")
    (auto simp: route_inner_def Let_def af_is_mine_def forward_def channel_for_def split: if_splits option.splits; metis)

text \<open>Of two workers that claim a free session, only the first gets it.\<close>

lemma claims_exclude:
  assumes "redis_expiry_ok R" "0 < af_ttl A" "0 < af_ttl B" "af_prefix A = af_prefix B"
    "af_claim R A k r = (True, r1)"
  shows "\<not> fst (af_claim R B k r1)"
proof -
  have "af_resolve R A k r1 = Some (af_worker A)" using af_claim_cases(2) [OF assms(1,2,5)] by simp
  then have "af_resolve R B k r1 \<noteq> None" using assms(4) by (simp add: af_resolve_def affinity_key_def)
  then show ?thesis using af_claim_cases(1) [OF assms(1,3)] by (metis prod.collapse)
qed

text \<open>
  A renewal does not look at the owner: the worker that lost a session keeps the claim of its
  successor alive.
\<close>

lemma renewal_ignores_owner:
  "af_renew R A k r = af_renew R (A\<lparr>af_worker := w\<rparr>) k r"
  by (simp add: af_renew_def affinity_key_def)

lemma backoff_bounds: "b \<le> 30 \<Longrightarrow> t \<in> set (backoffs b n) \<Longrightarrow> t \<le> 30"
proof (induction n arbitrary: b)
  case (Suc n)
  have "min (b * 2) 30 \<le> (30 :: rat)" by simp
  from Suc.IH [OF this] Suc.prems show ?case by auto
qed simp

end
