(* ===== verification/Feishu.thy ===== *)
theory Feishu
  imports WebChat Gateway SessionStore RunnerProps FeishuApproval
begin

section \<open>The Feishu channel\<close>

text \<open>
  What happens to a message from Feishu: the queue per session
  (\<^verbatim>\<open>src/pyclaw/channels/feishu/queue.py\<close>), the recognition of repeated deliveries (\<^verbatim>\<open>dedup.py\<close>), the
  keys of sessions, the reading of a message and the handling of messages and reactions
  (\<^verbatim>\<open>handler.py\<close>), the run under the control of its session (\<^verbatim>\<open>dispatch.py\<close>) and the answer on a card
  (\<^verbatim>\<open>stream_agent_reply\<close>).  The session store is any store; downloading images and sending texts are
  arguments or results.
\<close>

subsection \<open>The queue of a session\<close>

record 'm feishu_queue =
  fq_entries :: "(string \<times> 'm list \<times> string) list"
  fq_busy :: "(string \<times> bool) list"
  fq_controls :: "(string \<times> run_control) list"
  fq_usage :: "(string \<times> (string \<times> int) list) list"

definition fq_empty :: "'m feishu_queue" where
  "fq_empty = \<lparr>fq_entries = [], fq_busy = [], fq_controls = [], fq_usage = []\<rparr>"

text \<open>A spawn that raises leaves no queue behind; the message is lost.\<close>

definition fq_enqueue ::
    "rat \<Rightarrow> rat \<Rightarrow> string option \<Rightarrow> string \<Rightarrow> 'm \<Rightarrow> 'm feishu_queue \<times> task_manager
       \<Rightarrow> (tm_error + unit) \<times> 'm feishu_queue \<times> task_manager" where
  "fq_enqueue now now' owner sid m st =
     (let (q, tm) = st in
      case map_of (fq_entries q) sid of
        Some (ms, tid) \<Rightarrow>
          (Inr (), q\<lparr>fq_entries := AList.update sid (ms @ [m], tid) (fq_entries q)\<rparr>, tm)
      | None \<Rightarrow>
          (case spawn now now' (''feishu-consumer:'' @ sid) ''consumer'' owner tm of
             (Inl e, tm') \<Rightarrow> (Inl e, q, tm')
           | (Inr tid, tm') \<Rightarrow>
               (Inr (), q\<lparr>fq_entries := AList.update sid ([m], tid) (fq_entries q)\<rparr>, tm')))"

definition fq_is_busy :: "string \<Rightarrow> 'm feishu_queue \<Rightarrow> bool" where
  "fq_is_busy sid q = (map_of (fq_busy q) sid = Some True)"

definition fq_is_idle :: "string \<Rightarrow> 'm feishu_queue \<Rightarrow> bool" where
  "fq_is_idle sid q = (\<not> fq_is_busy sid q)"

definition fq_position :: "string \<Rightarrow> 'm feishu_queue \<Rightarrow> nat" where
  "fq_position sid q =
     (case map_of (fq_entries q) sid of None \<Rightarrow> 0 | Some (ms, _) \<Rightarrow> length ms)
       + (if fq_is_busy sid q then 1 else 0)"

definition fq_set_last_usage :: "string \<Rightarrow> jobj \<Rightarrow> 'm feishu_queue \<Rightarrow> 'm feishu_queue" where
  "fq_set_last_usage sid usage q =
     (if usage = [] then q else q\<lparr>fq_usage := AList.update sid (int_fields usage) (fq_usage q)\<rparr>)"

definition fq_get_run_control :: "string \<Rightarrow> 'm feishu_queue \<Rightarrow> run_control \<times> 'm feishu_queue" where
  "fq_get_run_control sid q =
     (case map_of (fq_controls q) sid of
        Some rc \<Rightarrow> (rc, q)
      | None \<Rightarrow> (rc_init, q\<lparr>fq_controls := AList.update sid rc_init (fq_controls q)\<rparr>))"

definition fq_put_control :: "string \<Rightarrow> run_control \<Rightarrow> 'm feishu_queue \<Rightarrow> 'm feishu_queue" where
  "fq_put_control sid rc q = q\<lparr>fq_controls := AList.update sid rc (fq_controls q)\<rparr>"

text \<open>How the consumer ends when it is cancelled is an argument.\<close>

definition fq_cleanup_session ::
    "task_end option \<Rightarrow> string \<Rightarrow> 'm feishu_queue \<times> task_manager \<Rightarrow> 'm feishu_queue \<times> task_manager" where
  "fq_cleanup_session outcome sid st =
     (let (q, tm) = st;
          q' = q\<lparr>fq_entries := AList.delete sid (fq_entries q), fq_busy := AList.delete sid (fq_busy q),
                 fq_controls := AList.delete sid (fq_controls q), fq_usage := AList.delete sid (fq_usage q)\<rparr>
      in (q', case map_of (fq_entries q) sid of
                None \<Rightarrow> tm | Some (_, tid) \<Rightarrow> snd (cancel_task tid outcome tm)))"

definition fq_take :: "string \<Rightarrow> 'm feishu_queue \<Rightarrow> ('m \<times> 'm feishu_queue) option" where
  "fq_take sid q =
     (case map_of (fq_entries q) sid of
        Some (m # ms, tid) \<Rightarrow>
          Some (m, q\<lparr>fq_entries := AList.update sid (ms, tid) (fq_entries q),
                     fq_busy := AList.update sid True (fq_busy q)\<rparr>)
      | _ \<Rightarrow> None)"

definition fq_done :: "string \<Rightarrow> 'm feishu_queue \<Rightarrow> 'm feishu_queue" where
  "fq_done sid q = q\<lparr>fq_busy := AList.update sid False (fq_busy q)\<rparr>"

subsection \<open>Repeated deliveries\<close>

text \<open>
  \<open>client\<close> is the Redis client if there is one, \<open>works\<close> whether the command succeeds; otherwise the
  process remembers the messages itself.
\<close>

definition dedup_key :: "string \<Rightarrow> string \<Rightarrow> string" where
  "dedup_key pre mid = pre @ ''feishu:dedup:'' @ mid"

definition is_duplicate ::
    "'r redis option \<Rightarrow> bool \<Rightarrow> string \<Rightarrow> int \<Rightarrow> string \<Rightarrow> string list \<times> 'r \<Rightarrow> bool \<times> string list \<times> 'r" where
  "is_duplicate client works pre ttl mid st =
     (let (seen, r) = st;
          remembered = (if mid \<in> set seen then (True, seen, r) else (False, mid # seen, r))
      in case client of
           Some R \<Rightarrow>
             if works then (let (ok, r') = rd_set_nx_px R (dedup_key pre mid) ''1'' (1000 * ttl) r in (\<not> ok, seen, r'))
             else remembered
         | None \<Rightarrow> remembered)"

definition REACTION_DEDUP_WINDOW_S :: rat where "REACTION_DEDUP_WINDOW_S = 10"

text \<open>\<^verbatim>\<open>_reaction_should_handle\<close>: beyond 1000 messages all but the last are forgotten.\<close>

definition reaction_should_handle :: "rat \<Rightarrow> string \<Rightarrow> (string \<times> rat) list \<Rightarrow> bool \<times> (string \<times> rat) list" where
  "reaction_should_handle now mid handled =
     (case map_of handled mid of
        Some t \<Rightarrow>
          if now - t < REACTION_DEDUP_WINDOW_S then (False, handled)
          else (True, let d = AList.update mid now handled in if length d > 1000 then [(mid, now)] else d)
      | None \<Rightarrow> (True, let d = AList.update mid now handled in if length d > 1000 then [(mid, now)] else d))"

subsection \<open>Messages\<close>

text \<open>A message with the fields that may be missing as empty texts; a mention has an id or none.\<close>

record feishu_message =
  fm_id :: string
  fm_type :: string
  fm_content :: string
  fm_chat_type :: string
  fm_chat_id :: string
  fm_thread :: string
  fm_sender :: string
  fm_mentions :: "string option list"

definition build_session_key :: "string \<Rightarrow> feishu_message \<Rightarrow> string \<Rightarrow> string" where
  "build_session_key app m scope =
     (if fm_chat_type m = ''p2p'' then ''feishu:'' @ app @ '':'' @ fm_sender m
      else if scope = ''user'' then ''feishu:'' @ app @ '':'' @ fm_chat_id m @ '':'' @ fm_sender m
      else if scope = ''thread'' \<and> fm_thread m \<noteq> []
      then ''feishu:'' @ app @ '':'' @ fm_chat_id m @ '':thread:'' @ fm_thread m
      else ''feishu:'' @ app @ '':'' @ fm_chat_id m)"

definition is_bot_mentioned :: "feishu_message \<Rightarrow> string \<Rightarrow> bool" where
  "is_bot_mentioned m bot_id = (Some bot_id \<in> set (fm_mentions m))"

text \<open>
  The reading of a message.  \<open>loads\<close> parses JSON, \<open>str_of\<close> is \<^verbatim>\<open>str\<close> of a JSON value.
\<close>

definition obj_or :: "json \<Rightarrow> jobj option" where
  "obj_or v = (case v of JObj d \<Rightarrow> Some d | _ \<Rightarrow> None)"

definition content_grids :: "jobj \<Rightarrow> json list list" where
  "content_grids d =
     (case jget ''content'' d of JList g \<Rightarrow> [g] | _ \<Rightarrow> [])
     @ List.map_filter (\<lambda>(k, v). case v of
           JObj inner \<Rightarrow> (case jget ''content'' inner of JList g \<Rightarrow> Some g | _ \<Rightarrow> None)
         | _ \<Rightarrow> None) d"

definition grid_spans :: "json list \<Rightarrow> jobj list" where
  "grid_spans g =
     List.map_filter obj_or (concat (List.map_filter (\<lambda>row. case row of JList xs \<Rightarrow> Some xs | _ \<Rightarrow> None) g))"

definition span_text :: "(json \<Rightarrow> string) \<Rightarrow> jobj \<Rightarrow> string option" where
  "span_text str_of sp =
     (let tag = jget ''tag'' sp
      in if tag = JStr ''text'' \<or> tag = JStr ''a'' then Some (str_of (jget_or (JStr []) ''text'' sp))
         else if tag = JStr ''at'' \<and> truthy (jget ''user_name'' sp)
         then Some (''@'' @ str_of (jget ''user_name'' sp)) else None)"

definition span_image :: "(json \<Rightarrow> string) \<Rightarrow> jobj \<Rightarrow> string option" where
  "span_image str_of sp =
     (if (jget ''tag'' sp = JStr ''img'' \<or> jget ''tag'' sp = JStr ''media'') \<and> truthy (jget ''image_key'' sp)
      then Some (str_of (jget ''image_key'' sp)) else None)"

definition image_of :: "(json \<Rightarrow> string) \<Rightarrow> jobj \<Rightarrow> string list" where
  "image_of str_of d =
     (let v = jget ''image_key'' d; k = (if truthy v then str_of v else [])
      in if k = [] then [] else [k])"

definition extract_text_and_images ::
    "(string \<Rightarrow> json option) \<Rightarrow> (json \<Rightarrow> string) \<Rightarrow> feishu_message \<Rightarrow> string option \<times> string list" where
  "extract_text_and_images loads str_of m =
     (let data = Option.bind (loads (fm_content m)) obj_or
      in if fm_type m = ''text''
         then (case data of
                 Some d \<Rightarrow> (Some (str_of (jget_or (JStr []) ''text'' d)), [])
               | None \<Rightarrow> (Some (fm_content m), []))
         else if fm_type m = ''image'' \<or> fm_type m = ''media''
         then (None, case data of Some d \<Rightarrow> image_of str_of d | None \<Rightarrow> [])
         else if fm_type m = ''post''
         then (case data of
                 None \<Rightarrow> (None, [])
               | Some d \<Rightarrow>
                   (let spans = concat (map grid_spans (content_grids d));
                        texts = List.map_filter (span_text str_of) spans
                    in (if texts = [] then None else Some (py_join '' '' (filter (\<lambda>s. s \<noteq> []) texts)),
                        List.map_filter (span_image str_of) spans)))
         else (None, []))"

subsection \<open>Operations on a running session\<close>

definition handle_stop_feishu :: "string \<Rightarrow> 'm feishu_queue \<Rightarrow> bool \<times> 'm feishu_queue" where
  "handle_stop_feishu sid q =
     (let (rc, q') = fq_get_run_control sid q
      in if rc_is_active rc then (True, fq_put_control sid (rc_stop (rc\<lparr>rc_done_elsewhere := True\<rparr>)) q')
         else (False, q'))"

definition handle_injection_feishu ::
    "steer_kind \<Rightarrow> string \<Rightarrow> string \<Rightarrow> 'm feishu_queue \<Rightarrow> steer_reply \<times> 'm feishu_queue" where
  "handle_injection_feishu kind sid args q =
     (let payload = py_strip args
      in if payload = [] then (NeedsArgument, q)
         else
           let (rc, q') = fq_get_run_control sid q
           in if \<not> rc_is_active rc then (NoActiveRun, q')
              else case enforce_cap rc payload of
                     (Refused, rc') \<Rightarrow> (TextTooLong, fq_put_control sid rc' q')
                   | (Accepted dropped, rc') \<Rightarrow>
                       (SteerAccepted dropped,
                        fq_put_control sid (rc'\<lparr>rc_pending := rc_pending rc' @ [SteerMessage kind payload]\<rparr>) q'))"

subsection \<open>Runs\<close>

record inbound =
  in_session :: string
  in_text :: string
  in_workspace :: string
  in_attachments :: "content_block list"
  in_sender :: string

text \<open>The tier of a run: the profile of the sender only counts if the sender is known.\<close>

definition run_tier ::
    "'r profile_store \<Rightarrow> tier option \<Rightarrow> tier \<Rightarrow> inbound \<Rightarrow> 'r \<Rightarrow> user_profile option \<times> tier" where
  "run_tier P session_tier deployment_default m r =
     (if in_sender m \<noteq> []
      then (let (p, t) = resolve_profile_and_tier P ''feishu'' (in_sender m) None session_tier deployment_default r
            in (Some p, t))
      else (None, case session_tier of Some t \<Rightarrow> t | None \<Rightarrow> deployment_default))"

text \<open>
  A run under a control: it is active meanwhile, and the abort event of the control, once set, is
  seen at the top of every iteration.  \<open>during\<close> is what commands do to the control meanwhile.
\<close>

definition under_control :: "run_control \<Rightarrow> 'w run_env \<Rightarrow> 'w run_env" where
  "under_control rc env =
     env\<lparr>re_turn := (\<lambda>i. (re_turn env i)\<lparr>tu_aborted := rc_abort rc \<or> tu_aborted (re_turn env i)\<rparr>)\<rparr>"

definition dispatch_message ::
    "'w run_env \<Rightarrow> run_request \<Rightarrow> session_tree \<Rightarrow> 'w \<Rightarrow> (run_control \<Rightarrow> run_control) \<Rightarrow> string \<Rightarrow> 'm feishu_queue
       \<Rightarrow> ('w run_state, unit) flow \<times> 'm feishu_queue" where
  "dispatch_message env rq t w during sid q =
     (let (rc, q') = fq_get_run_control sid q
      in (run_agent_stream (under_control rc env) rq t w,
          fq_put_control sid ((during (rc\<lparr>rc_active := True\<rparr>))\<lparr>rc_active := False\<rparr>) q'))"

subsection \<open>The answer on a card\<close>

datatype card_op = CardUpdate string | CardFinish string | CardError string

fun stream_agent_reply :: "string \<Rightarrow> agent_event list \<Rightarrow> card_op list" where
  "stream_agent_reply acc [] = (if acc = [] then [] else [CardFinish acc])"
| "stream_agent_reply acc (TextChunk s # evs) = CardUpdate (acc @ s) # stream_agent_reply (acc @ s) evs"
| "stream_agent_reply acc (ToolCallStart cid name args # evs) =
     (let acc' = acc @ nl @ ''[tool] '' @ name @ ''...'' @ nl in CardUpdate acc' # stream_agent_reply acc' evs)"
| "stream_agent_reply acc (DoneEvent s u # evs) = [CardFinish s]"
| "stream_agent_reply acc (ErrorEvent code msg # evs) = [CardError msg]"
| "stream_agent_reply acc (ToolCallEnd cid r # evs) = stream_agent_reply acc evs"
| "stream_agent_reply acc (ApprovalRequest cid name args # evs) = stream_agent_reply acc evs"

subsection \<open>The handling of a message\<close>

record ('s, 'r) feishu_ctx =
  fc_app :: string
  fc_scope :: string
  fc_bot :: string
  fc_idle_minutes :: int
  fc_recent :: bool
  fc_context_size :: nat
  fc_ops :: "'s store_ops"
  fc_client :: "'r redis option"
  fc_prefix :: string
  fc_ttl :: int

text \<open>
  What the world answers to one handling: the router, whether the Redis command works, the JSON
  library, the downloads, the readings of the clocks and of the random source, whether a command
  took the text, the recent messages of the group, how a cancelled consumer ends.
\<close>

record 's feishu_calls =
  fa_route :: "string \<Rightarrow> route_result"
  fa_works :: bool
  fa_loads :: "string \<Rightarrow> json option"
  fa_str :: "json \<Rightarrow> string"
  fa_image :: "string \<Rightarrow> content_block option"
  fa_moment :: moment
  fa_rotate_moment :: moment
  fa_iso :: "string \<Rightarrow> iso_read"
  fa_now :: rat
  fa_command :: "string \<Rightarrow> bool"
  fa_group :: string
  fa_end :: "task_end option"

record ('s, 'r) feishu_state =
  fs_seen :: "string list"
  fs_redis :: 'r
  fs_store :: 's
  fs_queue :: "(inbound \<times> string) feishu_queue"
  fs_tm :: task_manager

datatype feishu_outcome =
    NotForBot
  | PassedOn
  | Repeated
  | NotSupported
  | StoreFailed store_error
  | StopHandled bool
  | InjectionHandled steer_reply
  | CommandHandled
  | MessageQueued
  | QueueRefused tm_error

definition workspace_of :: "string \<Rightarrow> string" where
  "workspace_of skey = replace_char (CHR '':'') (CHR ''_'') skey"

text \<open>The idle limit of a session: its own, or that of the channel where it has none.\<close>

definition session_idle_minutes :: "int \<Rightarrow> session_tree option \<Rightarrow> int" where
  [simp]: "session_idle_minutes channel_default tree =
     (case tree of
        Some t \<Rightarrow> (case idle_minutes_override (header t) of Some n \<Rightarrow> n | None \<Rightarrow> channel_default)
      | None \<Rightarrow> channel_default)"

text \<open>The session of a message, rotated when it was idle for too long; its queue is then cleaned up.\<close>

definition session_for ::
    "('s, 'r) feishu_ctx \<Rightarrow> 's feishu_calls \<Rightarrow> string \<Rightarrow> ('s, 'r) feishu_state
       \<Rightarrow> store_error + (string \<times> ('s, 'r) feishu_state)" where
  "session_for C A skey st =
     (let ops = fc_ops C; ws = workspace_of skey
      in try_bind (resolve_or_create ops (fa_moment A) skey ws ''default'' (fs_store st)) (\<lambda>((sid, t0), s).
         try_bind (so_load ops sid s) (\<lambda>tree.
           let idle = session_idle_minutes (fc_idle_minutes C) tree
           in try_bind (check_idle_reset ops (fa_iso A) (fa_now A) sid idle s) (\<lambda>expired.
              if \<not> expired then Inr (sid, st\<lparr>fs_store := s\<rparr>)
              else
                let ((sid', t'), old, s') = rotate_session ops True (fa_rotate_moment A) skey ws ''default'' s;
                    (q', tm') = (case old of None \<Rightarrow> (fs_queue st, fs_tm st)
                                 | Some o' \<Rightarrow> fq_cleanup_session (fa_end A) o' (fs_queue st, fs_tm st))
                in Inr (sid', st\<lparr>fs_store := s', fs_queue := q', fs_tm := tm'\<rparr>)))))"

definition feishu_operation :: "string option \<Rightarrow> protocol_op" where
  "feishu_operation tx = (case tx of None \<Rightarrow> OpUnhandled | Some s \<Rightarrow> dispatch_protocol_op s)"

text \<open>What is left to do once the session is known.\<close>

definition act_on_message ::
    "('s, 'r) feishu_ctx \<Rightarrow> 's feishu_calls \<Rightarrow> feishu_message \<Rightarrow> string \<Rightarrow> string \<Rightarrow> string option
       \<Rightarrow> content_block list \<Rightarrow> ('s, 'r) feishu_state \<Rightarrow> feishu_outcome \<times> ('s, 'r) feishu_state" where
  "act_on_message C A m skey sid tx attachments st =
     (case feishu_operation tx of
        OpStop \<Rightarrow> (let (b, q') = handle_stop_feishu sid (fs_queue st) in (StopHandled b, st\<lparr>fs_queue := q'\<rparr>))
      | OpInject kind args \<Rightarrow>
          (let (rep, q') = handle_injection_feishu kind sid args (fs_queue st)
           in (InjectionHandled rep, st\<lparr>fs_queue := q'\<rparr>))
      | OpUnhandled \<Rightarrow>
          if (case tx of Some s \<Rightarrow> starts_with ''/'' s \<and> fa_command A s | None \<Rightarrow> False) then (CommandHandled, st)
          else
            let extra = (if fm_chat_type m = ''group'' \<and> fc_recent C \<and> fa_group A \<noteq> []
                         then ''## recent messages of the group ('' @ show_nat (fc_context_size C) @ '')'' @ nl @ fa_group A
                         else []);
                msg = \<lparr>in_session = sid, in_text = (case tx of Some s \<Rightarrow> s | None \<Rightarrow> []),
                       in_workspace = workspace_of skey, in_attachments = attachments, in_sender = fm_sender m\<rparr>
            in (case fq_enqueue (fa_now A) (fa_now A) (Some skey) sid (msg, extra) (fs_queue st, fs_tm st) of
                  (Inl e, q', tm') \<Rightarrow> (QueueRefused e, st\<lparr>fs_queue := q', fs_tm := tm'\<rparr>)
                | (Inr _, q', tm') \<Rightarrow> (MessageQueued, st\<lparr>fs_queue := q', fs_tm := tm'\<rparr>)))"

definition handle_feishu_message ::
    "('s, 'r) feishu_ctx \<Rightarrow> 's feishu_calls \<Rightarrow> feishu_message \<Rightarrow> ('s, 'r) feishu_state
       \<Rightarrow> feishu_outcome \<times> ('s, 'r) feishu_state" where
  "handle_feishu_message C A m st =
     (let skey = build_session_key (fc_app C) m (fc_scope C)
      in if fm_chat_type m = ''group'' \<and> \<not> is_bot_mentioned m (fc_bot C) then (NotForBot, st)
         else if fa_route A skey = Forwarded then (PassedOn, st)
         else
           let (dup, seen, r) = is_duplicate (fc_client C) (fa_works A) (fc_prefix C) (fc_ttl C) (fm_id m) (fs_seen st, fs_redis st);
               st = st\<lparr>fs_seen := seen, fs_redis := r\<rparr>
           in if dup then (Repeated, st)
              else
                let (tx, keys) = extract_text_and_images (fa_loads A) (fa_str A) m;
                    attachments = List.map_filter (fa_image A) (take 5 keys)
                in if tx = None \<and> attachments = [] then (NotSupported, st)
                   else (case session_for C A skey st of
                           Inl e \<Rightarrow> (StoreFailed e, st)
                         | Inr (sid, st') \<Rightarrow> act_on_message C A m skey sid tx attachments st'))"

subsection \<open>Reactions\<close>

text \<open>The reaction of a user to a message of the bot is a message to the current session.\<close>

definition handle_feishu_reaction ::
    "('s, 'r) feishu_ctx \<Rightarrow> 's feishu_calls \<Rightarrow> (string \<Rightarrow> bool) \<Rightarrow> (string \<Rightarrow> string) \<Rightarrow> string \<Rightarrow> string \<Rightarrow> string
       \<Rightarrow> (string \<times> rat) list \<times> ('s, 'r) feishu_state
       \<Rightarrow> inbound option \<times> (string \<times> rat) list \<times> ('s, 'r) feishu_state" where
  "handle_feishu_reaction C A is_bot_message prompt_for mid emoji user hst =
     (let (handled, st) = hst
      in if mid = [] \<or> emoji = [] \<or> user = [] then (None, handled, st)
         else if \<not> is_bot_message mid then (None, handled, st)
         else
           let (go, handled') = reaction_should_handle (fa_now A) mid handled
           in if \<not> go then (None, handled', st)
              else
                let skey = ''feishu:'' @ fc_app C @ '':'' @ user
                in (case so_get_current (fc_ops C) skey (fs_store st) of
                      None \<Rightarrow> (None, handled', st)
                    | Some sid \<Rightarrow>
                        let msg = \<lparr>in_session = sid, in_text = prompt_for emoji, in_workspace = workspace_of skey,
                                   in_attachments = [], in_sender = []\<rparr>
                        in (case fq_enqueue (fa_now A) (fa_now A) (Some skey) sid (msg, []) (fs_queue st, fs_tm st) of
                              (Inl e, q', tm') \<Rightarrow> (None, handled', st\<lparr>fs_queue := q', fs_tm := tm'\<rparr>)
                            | (Inr _, q', tm') \<Rightarrow> (Some msg, handled', st\<lparr>fs_queue := q', fs_tm := tm'\<rparr>))))"


subsection \<open>Properties of the handling of messages\<close>

text \<open>A message got past the recognition of repeated deliveries.\<close>

definition dealt_with :: "feishu_outcome \<Rightarrow> bool" where
  "dealt_with oc = (oc \<notin> {NotForBot, PassedOn, Repeated})"

fun handle_all ::
    "('s, 'r) feishu_ctx \<Rightarrow> ('s feishu_calls \<times> feishu_message) list \<Rightarrow> ('s, 'r) feishu_state
       \<Rightarrow> feishu_outcome list \<times> ('s, 'r) feishu_state" where
  "handle_all C [] st = ([], st)"
| "handle_all C ((A, m) # ms) st =
     (let (oc, st1) = handle_feishu_message C A m st; (ocs, st2) = handle_all C ms st1 in (oc # ocs, st2))"

lemma try_bind_Inr: "try_bind x f = Inr y \<longleftrightarrow> (\<exists>a. x = Inr a \<and> f a = Inr y)"
  by (cases x) auto

lemma session_for_seen: "session_for C A skey st = Inr (sid, st') \<Longrightarrow> fs_seen st' = fs_seen st"
  by (auto simp: session_for_def Let_def try_bind_Inr split: prod.splits if_splits)

lemma act_seen: "fs_seen (snd (act_on_message C A m skey sid tx atts st)) = fs_seen st"
  by (simp add: act_on_message_def Let_def split: protocol_op.split prod.split sum.split)

lemma act_dealt: "dealt_with (fst (act_on_message C A m skey sid tx atts st))"
  by (simp add: act_on_message_def Let_def dealt_with_def split: protocol_op.split prod.split sum.split)

text \<open>What one handling does to the memory, when the process remembers the messages itself.\<close>

lemma handle_feishu_seen:
  assumes "fc_client C = None"
  shows "(dealt_with (fst (handle_feishu_message C A m st)),
          fs_seen (snd (handle_feishu_message C A m st)))
     = (if fm_chat_type m = ''group'' \<and> \<not> is_bot_mentioned m (fc_bot C) then (False, fs_seen st)
        else if fa_route A (build_session_key (fc_app C) m (fc_scope C)) = Forwarded then (False, fs_seen st)
        else if fm_id m \<in> set (fs_seen st) then (False, fs_seen st)
        else (True, fm_id m # fs_seen st))"
proof -
  have act: "dealt_with (fst (act_on_message C A m k sid tx atts s)) = True"
    "fs_seen (snd (act_on_message C A m k sid tx atts s)) = fs_seen s" for k sid tx atts s
    by (simp_all add: act_dealt act_seen)
  have plain: "\<not> dealt_with NotForBot" "\<not> dealt_with PassedOn" "\<not> dealt_with Repeated"
    "dealt_with NotSupported" "dealt_with (StoreFailed e)" for e
    by (simp_all add: dealt_with_def)
  show ?thesis
    using assms
    by (auto simp: handle_feishu_message_def is_duplicate_def Let_def act plain session_for_seen
        split: prod.split sum.split)
qed

lemma handle_all_new:
  assumes "fc_client C = None" "i < length ms" "dealt_with (fst (handle_all C ms st) ! i)"
  shows "fm_id (snd (ms ! i)) \<notin> set (fs_seen st)"
  using assms(2,3)
proof (induction ms arbitrary: i st)
  case (Cons x ms)
  obtain A m where x: "x = (A, m)" by (cases x)
  obtain oc st1 where h: "handle_feishu_message C A m st = (oc, st1)" by (metis surj_pair)
  have e: "fst (handle_all C (x # ms) st) = oc # fst (handle_all C ms st1)"
    by (simp add: x h Let_def split: prod.split)
  have seen: "set (fs_seen st) \<subseteq> set (fs_seen st1)"
    and new: "dealt_with oc \<Longrightarrow> fm_id m \<notin> set (fs_seen st)"
    using handle_feishu_seen [OF assms(1), of A m st] unfolding h by (auto split: if_splits)
  show ?case
  proof (cases i)
    case 0
    with Cons.prems new x show ?thesis unfolding e by simp
  next
    case (Suc k)
    with Cons.prems Cons.IH [of k st1] seen show ?thesis unfolding e by auto
  qed
qed simp


definition demo_feishu :: "(mem_store, unit) feishu_ctx" where
  "demo_feishu = \<lparr>fc_app = ''app'', fc_scope = ''chat'', fc_bot = ''bot'', fc_idle_minutes = 0, fc_recent = False,
     fc_context_size = 0, fc_ops = mem_ops, fc_client = None, fc_prefix = ''p:'', fc_ttl = 43200\<rparr>"

definition demo_calls :: "mem_store feishu_calls" where
  "demo_calls = \<lparr>fa_route = (\<lambda>_. Local), fa_works = True,
     fa_loads = (\<lambda>s. Some (JObj [(''text'', JStr s)])), fa_str = (\<lambda>v. case v of JStr s \<Rightarrow> s | _ \<Rightarrow> []),
     fa_image = (\<lambda>_. None), fa_moment = \<lparr>mo_now = 1, mo_iso = ''a'', mo_token = ''00''\<rparr>,
     fa_rotate_moment = \<lparr>mo_now = 1, mo_iso = ''a'', mo_token = ''01''\<rparr>, fa_iso = (\<lambda>_. NotIso), fa_now = 1,
     fa_command = (\<lambda>_. False), fa_group = [], fa_end = None\<rparr>"

definition demo_message :: "string \<Rightarrow> string \<Rightarrow> feishu_message" where
  "demo_message mid tx = \<lparr>fm_id = mid, fm_type = ''text'', fm_content = tx, fm_chat_type = ''p2p'',
     fm_chat_id = ''c'', fm_thread = [], fm_sender = ''u'', fm_mentions = []\<rparr>"

definition demo_feishu_state :: "(mem_store, unit) feishu_state" where
  "demo_feishu_state = \<lparr>fs_seen = [], fs_redis = (), fs_store = mem_empty, fs_queue = fq_empty, fs_tm = tm_init 30\<rparr>"


subsection \<open>Stopped sessions\<close>

text \<open>What the queue says of the control of a session after it was put there.\<close>

lemma fq_get_put [simp]:
  "fq_get_run_control sid (fq_put_control sid' rc q)
     = (if sid = sid' then (rc, fq_put_control sid' rc q)
        else (fst (fq_get_run_control sid q),
              snd (fq_get_run_control sid (fq_put_control sid' rc q))))"
  by (auto simp: fq_get_run_control_def fq_put_control_def update_conv' split: option.split)

definition fq_aborted :: "string \<Rightarrow> 'm feishu_queue \<Rightarrow> bool" where
  "fq_aborted sid q = rc_abort (fst (fq_get_run_control sid q))"

lemma stop_aborts: "handle_stop_feishu sid q = (True, q') \<Longrightarrow> fq_aborted sid q'"
  by (auto simp: handle_stop_feishu_def fq_aborted_def rc_stop_def Let_def split: prod.splits if_splits)

text \<open>A run whose abort event is set at the start.\<close>

lemma aborted_at_start:
  assumes "tu_aborted (re_turn env 0)" "\<not> tu_timed_out (re_turn env 0)" "\<forall>e. \<not> re_store_fails env e"
    and "re_max_iterations env > 0" "rr_attachments rq = []"
  shows "\<exists>st. run_agent_stream env rq t w = Return st \<and> rs_events st = [ErrorEvent ''aborted'' ''run aborted'']
    \<and> rs_sent st = [] \<and> rs_world st = w"
proof -
  obtain n where n: "re_max_iterations env = Suc n" using assms(4) by (cases "re_max_iterations env") auto
  show ?thesis
    using assms(1-3,5)
    by (simp add: run_agent_stream_def run_body_def start_state_def append_body_def Let_def n one_turn_def
        turn_guard_def fail_with_def emit_def run_end_def notify_def)
qed

record 'w later_run =
  lr_env :: "'w run_env"
  lr_request :: run_request
  lr_tree :: session_tree
  lr_world :: 'w
  lr_during :: "run_control \<Rightarrow> run_control"

fun later_runs :: "string \<Rightarrow> 'w later_run list \<Rightarrow> 'm feishu_queue \<Rightarrow> ('w run_state, unit) flow list" where
  "later_runs sid [] q = []"
| "later_runs sid (r # rs) q =
     (let (f, q') = dispatch_message (lr_env r) (lr_request r) (lr_tree r) (lr_world r) (lr_during r) sid q
      in f # later_runs sid rs q')"

text \<open>A run with a text only, in time, whose commands meanwhile do not take a stop back.\<close>

definition plain_run :: "'w later_run \<Rightarrow> bool" where
  "plain_run r = (\<not> tu_timed_out (re_turn (lr_env r) 0) \<and> (\<forall>e. \<not> re_store_fails (lr_env r) e)
     \<and> re_max_iterations (lr_env r) > 0 \<and> rr_attachments (lr_request r) = []
     \<and> (\<forall>rc. rc_abort rc \<longrightarrow> rc_abort (lr_during r rc)))"


definition demo_stopped :: "unit feishu_queue" where
  "demo_stopped = fq_put_control ''s'' (rc_init\<lparr>rc_active := True\<rparr>) fq_empty"

definition demo_later :: "nat later_run" where
  "demo_later = \<lparr>lr_env = demo_run, lr_request = demo_request, lr_tree = new_tree demo_header, lr_world = 5,
     lr_during = (\<lambda>rc. rc)\<rparr>"


subsection \<open>The card of a run\<close>

definition closing_op :: "card_op \<Rightarrow> bool" where
  "closing_op x = (case x of CardUpdate _ \<Rightarrow> False | _ \<Rightarrow> True)"

lemma closing_op_simps [simp]:
  "\<not> closing_op (CardUpdate s)" "closing_op (CardFinish s)" "closing_op (CardError s)"
  by (simp_all add: closing_op_def)

lemma reply_of_run:
  "\<forall>ev \<in> set evs. \<not> terminal ev \<Longrightarrow> terminal ev \<Longrightarrow>
     \<exists>xs x. stream_agent_reply acc (evs @ [ev]) = xs @ [x] \<and> closing_op x \<and> (\<forall>y \<in> set xs. \<not> closing_op y)
       \<and> (case ev of DoneEvent s u \<Rightarrow> x = CardFinish s | ErrorEvent code msg \<Rightarrow> x = CardError msg | _ \<Rightarrow> True)"
proof (induction evs arbitrary: acc)
  case Nil
  then show ?case by (cases ev) auto
next
  case (Cons e evs)
  have ex: "\<exists>xs x. stream_agent_reply acc' (evs @ [ev]) = xs @ [x] \<and> closing_op x \<and> (\<forall>y \<in> set xs. \<not> closing_op y)
       \<and> (case ev of DoneEvent s u \<Rightarrow> x = CardFinish s | ErrorEvent code msg \<Rightarrow> x = CardError msg | _ \<Rightarrow> True)" for acc'
    by (rule Cons.IH) (use Cons.prems in simp_all)
  have push: "\<exists>xs x. CardUpdate s # stream_agent_reply acc' (evs @ [ev]) = xs @ [x] \<and> closing_op x
       \<and> (\<forall>y \<in> set xs. \<not> closing_op y)
       \<and> (case ev of DoneEvent s u \<Rightarrow> x = CardFinish s | ErrorEvent code msg \<Rightarrow> x = CardError msg | _ \<Rightarrow> True)" for s acc'
  proof -
    obtain xs x where "stream_agent_reply acc' (evs @ [ev]) = xs @ [x]" "closing_op x" "\<forall>y \<in> set xs. \<not> closing_op y"
      "case ev of DoneEvent s u \<Rightarrow> x = CardFinish s | ErrorEvent code msg \<Rightarrow> x = CardError msg | _ \<Rightarrow> True"
      using ex [of acc'] by blast
    then show ?thesis by (intro exI [of _ "CardUpdate s # xs"] exI [of _ x]) simp
  qed
  show ?case
    using Cons.prems ex push by (cases e) (simp_all add: Let_def)
qed

text \<open>
  A run answers on its card: it is updated while the run goes on and closed exactly
  once, by the last operation, with the final text or with the message of the error.
\<close>

theorem one_closing_card_op:
  assumes "run_agent_stream env rq t w = Return st"
  shows "\<exists>xs x. stream_agent_reply [] (rs_events st) = xs @ [x] \<and> (\<forall>y \<in> set xs. \<not> closing_op y)
    \<and> (case last (rs_events st) of
          DoneEvent s u \<Rightarrow> x = CardFinish s | ErrorEvent code msg \<Rightarrow> x = CardError msg | _ \<Rightarrow> False)"
proof -
  have "closed st" using run_events.stream_ok [OF start_quiet, of env rq t w] assms by simp
  then obtain evs ev where e: "rs_events st = evs @ [ev]" "terminal ev" "\<forall>e \<in> set evs. \<not> terminal e"
    by (auto simp: closed_def)
  obtain xs x where x: "stream_agent_reply [] (evs @ [ev]) = xs @ [x]" "\<forall>y \<in> set xs. \<not> closing_op y"
    "case ev of DoneEvent s u \<Rightarrow> x = CardFinish s | ErrorEvent code msg \<Rightarrow> x = CardError msg | _ \<Rightarrow> True"
    using reply_of_run [OF e(3,2), of "[]"] by blast
  have "case ev of DoneEvent s u \<Rightarrow> x = CardFinish s | ErrorEvent code msg \<Rightarrow> x = CardError msg | _ \<Rightarrow> False"
    using x(3) e(2) by (cases ev) simp_all
  with x(1,2) show ?thesis unfolding e(1) by (intro exI [of _ xs] exI [of _ x]) simp
qed

theorem one_closing_card_op_witness:
  "\<exists>s. run_agent_stream demo_run demo_request (new_tree demo_header) 5 = Return s
     \<and> stream_agent_reply [] (rs_events s)
        = [CardUpdate ''All is '', CardUpdate ''All is well'', CardFinish ''All is well'']
     \<and> (\<exists>xs x. stream_agent_reply [] (rs_events s) = xs @ [x] \<and> x = CardFinish ''All is well'')"
proof -
  obtain s where s: "run_agent_stream demo_run demo_request (new_tree demo_header) 5 = Return s"
    "rs_events s = [TextChunk ''All is '', TextChunk ''well'', DoneEvent ''All is well'' zero_usage]"
    by (rule demo_returns)
  from one_closing_card_op [OF s(1)] s show ?thesis by auto
qed

subsection \<open>Reactions and groups\<close>

text \<open>
  The message made from a reaction has no sender: the tier of its run never is the one the profile
  of the user asks for.
\<close>

lemma reactions_bypass_profile:
  assumes "handle_feishu_reaction C A is_bot prompt mid emoji user st = (Some m, st')"
  shows "run_tier P session_tier dd m r = (None, case session_tier of Some t \<Rightarrow> t | None \<Rightarrow> dd)"
  using assms
  by (auto simp: handle_feishu_reaction_def run_tier_def Let_def split: if_splits option.splits prod.splits sum.splits)

lemma messages_use_profile:
  "in_sender m \<noteq> [] \<Longrightarrow> snd (run_tier P None dd m r)
     = (case up_tier (profile_get P ''feishu'' (in_sender m) r) of Some t \<Rightarrow> t | None \<Rightarrow> dd)"
  by (auto simp: run_tier_def resolve_profile_and_tier_def resolve_effective_tier_def Let_def split: option.split)

text \<open>
  The request for approval of a call in a group goes to the id of the chat as if it were a user,
  and only a click by a user of that id, or by none, would count.
\<close>

lemma split_on_parts:
  "CHR '':'' \<notin> set x \<Longrightarrow> CHR '':'' \<notin> set y \<Longrightarrow>
   split_on (CHR '':'') [] (''feishu:'' @ x @ '':'' @ y @ '':s:'' @ tok)
     = [''feishu'', x, y, ''s''] @ split_on (CHR '':'') [] tok"
proof -
  have free: "CHR '':'' \<notin> set s \<Longrightarrow> split_on (CHR '':'') acc (s @ CHR '':'' # r) = (acc @ s) # split_on (CHR '':'') [] r"
    for s acc r by (induction s arbitrary: acc) auto
  assume "CHR '':'' \<notin> set x" "CHR '':'' \<notin> set y"
  then show ?thesis
    using free [of "''feishu''" "[]"] free [of x "[]"] free [of y "[]"] free [of "''s''" "[]"] by simp
qed

lemma group_approval_misaddressed:
  assumes "fm_chat_type m \<noteq> ''p2p''" "CHR '':'' \<notin> set app" "CHR '':'' \<notin> set (fm_chat_id m)"
    "fm_chat_id m \<noteq> ''chat''" "fm_chat_id m \<noteq> []"
    and s: "sid = generate_session_id (build_session_key app m ''chat'') tok"
  shows "resolve_originator None sid = fm_chat_id m"
    "resolve_receive_id sid (resolve_originator None sid) = (fm_chat_id m, ''open_id'')"
proof -
  have "sid = ''feishu:'' @ app @ '':'' @ fm_chat_id m @ '':s:'' @ tok"
    using assms(1) by (simp add: s build_session_key_def generate_session_id_def)
  then have p: "split_on (CHR '':'') [] sid = [''feishu'', app, fm_chat_id m, ''s''] @ split_on (CHR '':'') [] tok"
    using split_on_parts [OF assms(2,3)] by simp
  show o: "resolve_originator None sid = fm_chat_id m"
    unfolding resolve_originator_def p by simp
  show "resolve_receive_id sid (resolve_originator None sid) = (fm_chat_id m, ''open_id'')"
    unfolding o using assms(4,5) by (simp add: resolve_receive_id_def p)
qed

end
