(* ===== verification/SopStore.thy ===== *)
theory SopStore
  imports MemoryIndex
begin

section \<open>The store of facts and procedures\<close>

text \<open>
  The database of memories (\<^verbatim>\<open>src/pyclaw/storage/memory/sqlite.py\<close>), the store that joins it with the
  first-level index (\<^verbatim>\<open>composite.py\<close>), the tool that archives a procedure
  (\<^verbatim>\<open>core/agent/tools/forget.py\<close>) and the administrative queries (\<^verbatim>\<open>core/curator_admin.py\<close>).  A table
  is the list of its rows in the order of their insertion.  The full-text index of SQLite is an
  argument: which rows match a query, in the order of their rank.
\<close>

subsection \<open>Tables\<close>

record fact =
  ft_key :: string
  ft_mem :: memory_entry

record sop =
  sp_key :: string
  sp_mem :: memory_entry
  sp_archived_at :: "rat option"
  sp_reason :: "string option"

record archive =
  av_id :: string
  av_key :: string
  av_session :: string
  av_summary :: string
  av_created :: rat

record memory_db =
  db_facts :: "fact list"
  db_sops :: "sop list"
  db_archives :: "archive list"

definition db_empty :: memory_db where
  "db_empty = \<lparr>db_facts = [], db_sops = [], db_archives = []\<rparr>"

abbreviation sp_id :: "sop \<Rightarrow> string" where
  "sp_id p \<equiv> mem_id (sp_mem p)"

abbreviation ft_id :: "fact \<Rightarrow> string" where
  "ft_id f \<equiv> mem_id (ft_mem f)"

definition sp_active :: "sop \<Rightarrow> bool" where
  "sp_active p = (mem_status (sp_mem p) = ''active'')"

definition set_status :: "string \<Rightarrow> sop \<Rightarrow> sop" where
  "set_status s p = p\<lparr>sp_mem := (sp_mem p)\<lparr>mem_status := s\<rparr>\<rparr>"

text \<open>An \<^verbatim>\<open>UPDATE\<close> of the rows that satisfy a condition.\<close>

definition update_where :: "('a \<Rightarrow> bool) \<Rightarrow> ('a \<Rightarrow> 'a) \<Rightarrow> 'a list \<Rightarrow> 'a list" where
  "update_where P f xs = map (\<lambda>x. if P x then f x else x) xs"

text \<open>\<^verbatim>\<open>LIMIT\<close>: a negative number is none.\<close>

definition sql_limit :: "int \<Rightarrow> 'a list \<Rightarrow> 'a list" where
  "sql_limit n xs = (if n < 0 then xs else take (nat n) xs)"

text \<open>\<^verbatim>\<open>LIKE\<close> of SQLite: letters of ASCII match in both cases.\<close>

definition ascii_lower :: "char \<Rightarrow> char" where
  "ascii_lower c = (let n = (of_char c :: nat) in if 65 \<le> n \<and> n \<le> 90 then char_of (n + 32) else c)"

fun sql_like :: "string \<Rightarrow> string \<Rightarrow> bool" where
  "sql_like [] s = (s = [])"
| "sql_like (p # ps) [] = (p = CHR ''%'' \<and> sql_like ps [])"
| "sql_like (p # ps) (c # cs) =
     (if p = CHR ''%'' then sql_like ps (c # cs) \<or> sql_like (p # ps) cs
      else (p = CHR ''_'' \<or> ascii_lower p = ascii_lower c) \<and> sql_like ps cs)"

subsection \<open>Storing\<close>

text \<open>
  \<^verbatim>\<open>SqliteMemoryBackend.store\<close>.  A row that is there keeps its key, its creation time and what was
  noted when it was archived.  \<^const>\<open>Inl\<close> is the \<^verbatim>\<open>ValueError\<close> for another layer.
\<close>

definition merge_memory :: "memory_entry \<Rightarrow> memory_entry \<Rightarrow> memory_entry" where
  "merge_memory e old = e\<lparr>mem_created := mem_created old\<rparr>"

definition upsert_fact :: "string \<Rightarrow> memory_entry \<Rightarrow> fact list \<Rightarrow> fact list" where
  "upsert_fact skey e fs =
     (if mem_id e \<in> ft_id ` set fs
      then update_where (\<lambda>f. ft_id f = mem_id e) (\<lambda>f. f\<lparr>ft_mem := merge_memory e (ft_mem f)\<rparr>) fs
      else fs @ [\<lparr>ft_key = skey, ft_mem = e\<rparr>])"

definition upsert_sop :: "string \<Rightarrow> memory_entry \<Rightarrow> sop list \<Rightarrow> sop list" where
  "upsert_sop skey e ps =
     (if mem_id e \<in> sp_id ` set ps
      then update_where (\<lambda>p. sp_id p = mem_id e) (\<lambda>p. p\<lparr>sp_mem := merge_memory e (sp_mem p)\<rparr>) ps
      else ps @ [\<lparr>sp_key = skey, sp_mem = e, sp_archived_at = None, sp_reason = None\<rparr>])"

definition sqlite_store :: "string \<Rightarrow> memory_entry \<Rightarrow> memory_db \<Rightarrow> string + memory_db" where
  "sqlite_store skey e db =
     (if mem_layer e = ''L2'' then Inr (db\<lparr>db_facts := upsert_fact skey e (db_facts db)\<rparr>)
      else if mem_layer e = ''L3'' then Inr (db\<lparr>db_sops := upsert_sop skey e (db_sops db)\<rparr>)
      else Inl (''SqliteMemoryBackend only handles L2/L3, got '' @ py_repr (mem_layer e)))"

definition sqlite_delete :: "string \<Rightarrow> memory_db \<Rightarrow> memory_db" where
  "sqlite_delete i db =
     db\<lparr>db_facts := filter (\<lambda>f. ft_id f \<noteq> i) (db_facts db), db_sops := filter (\<lambda>p. sp_id p \<noteq> i) (db_sops db)\<rparr>"

subsection \<open>Searching\<close>

text \<open>
  \<open>fx_query\<close> is \<^verbatim>\<open>build_safe_match_query\<close> on top of the segmentation of words: whether a word is left
  to look for.  \<open>fx_rank\<close> gives the ids of the matching rows of a table, the best first.
\<close>

record fts =
  fx_min_chars :: nat
  fx_query :: "string \<Rightarrow> string option"
  fx_rank :: "string \<Rightarrow> (string \<times> string) list \<Rightarrow> string list"

definition matching ::
    "fts \<Rightarrow> string \<Rightarrow> ('a \<Rightarrow> memory_entry) \<Rightarrow> ('a \<Rightarrow> bool) \<Rightarrow> int \<Rightarrow> 'a list \<Rightarrow> 'a list" where
  "matching X query mem ok n rows =
     (if length query < fx_min_chars X
      then sql_limit n (sort_key (\<lambda>r. - mem_updated (mem r))
             (filter (\<lambda>r. sql_like (''%'' @ query @ ''%'') (mem_content (mem r)) \<and> ok r) rows))
      else case fx_query X query of
             None \<Rightarrow> []
           | Some q \<Rightarrow>
               sql_limit n (filter ok
                 (List.map_filter (\<lambda>i. find (\<lambda>r. mem_id (mem r) = i) rows)
                    (fx_rank X q (map (\<lambda>r. (mem_id (mem r), mem_content (mem r))) rows)))))"

definition bump :: "rat \<Rightarrow> sop \<Rightarrow> sop" where
  "bump now p = p\<lparr>sp_mem := (sp_mem p)\<lparr>mem_uses := mem_uses (sp_mem p) + 1, mem_used := Some now\<rparr>\<rparr>"

text \<open>\<^verbatim>\<open>_search_procedures_sync\<close>: what is found counts as used.\<close>

definition search_procedures :: "fts \<Rightarrow> string \<Rightarrow> int \<Rightarrow> rat \<Rightarrow> memory_db \<Rightarrow> sop list \<times> memory_db" where
  "search_procedures X query n now db =
     (let rows = matching X query sp_mem sp_active n (db_sops db);
          ids = map sp_id rows
      in (map (bump now) rows,
          db\<lparr>db_sops := update_where (\<lambda>p. sp_id p \<in> set ids) (bump now) (db_sops db)\<rparr>))"

definition layer_limit :: "(string \<times> int) list option \<Rightarrow> string \<Rightarrow> int \<Rightarrow> int" where
  "layer_limit per_layer layer n =
     (case per_layer of None \<Rightarrow> n | Some d \<Rightarrow> (case map_of d layer of None \<Rightarrow> n | Some k \<Rightarrow> k))"

text \<open>\<^verbatim>\<open>xs[:n]\<close>.\<close>

definition py_take :: "int \<Rightarrow> 'a list \<Rightarrow> 'a list" where
  "py_take n xs = (if n < 0 then take (length xs - nat (- n)) xs else take (nat n) xs)"

definition sqlite_search ::
    "fts \<Rightarrow> string \<Rightarrow> string list option \<Rightarrow> int \<Rightarrow> (string \<times> int) list option \<Rightarrow> rat \<Rightarrow> memory_db
       \<Rightarrow> memory_entry list \<times> memory_db" where
  "sqlite_search X query layers n per_layer now db =
     (let ls = (case layers of None \<Rightarrow> [''L2'', ''L3''] | Some xs \<Rightarrow> xs);
          found2 = (if ''L2'' \<in> set ls
                    then map ft_mem (matching X query ft_mem (\<lambda>_. True) (layer_limit per_layer ''L2'' n) (db_facts db))
                    else []);
          (found3, db') = (if ''L3'' \<in> set ls
                    then (let (rows, db') = search_procedures X query (layer_limit per_layer ''L3'' n) now db
                          in (map sp_mem rows, db'))
                    else ([], db));
          found = found2 @ found3
      in (if per_layer \<noteq> None \<and> per_layer \<noteq> Some [] then found else py_take n found, db'))"

definition sqlite_archive_session :: "string \<Rightarrow> rat \<Rightarrow> string \<Rightarrow> string \<Rightarrow> string \<Rightarrow> memory_db \<Rightarrow> memory_db" where
  "sqlite_archive_session uuid now skey sid summary db =
     db\<lparr>db_archives := db_archives db @
       [\<lparr>av_id = uuid, av_key = skey, av_session = sid, av_summary = summary, av_created = now\<rparr>]\<rparr>"

definition count_by_layer :: "string \<Rightarrow> memory_db \<Rightarrow> nat \<times> nat \<times> nat" where
  "count_by_layer skey db =
     (length (filter (\<lambda>f. ft_key f = skey) (db_facts db)),
      length (filter (\<lambda>p. sp_key p = skey \<and> sp_active p) (db_sops db)),
      length (filter (\<lambda>a. av_key a = skey) (db_archives db)))"

text \<open>
  The vectors of the archives: the \<open>k\<close> nearest with their distances come from the index of SQLite.
\<close>

definition search_archives :: "(nat \<Rightarrow> (string \<times> rat) list) \<Rightarrow> int \<Rightarrow> rat \<Rightarrow> memory_db \<Rightarrow> (archive \<times> rat \<times> rat) list" where
  "search_archives nearest n min_similarity db =
     (let overfetch = (if min_similarity > 0 then max n (n * 2) else n);
          joined = List.map_filter (\<lambda>(i, d). case find (\<lambda>a. av_id a = i) (db_archives db) of
                      None \<Rightarrow> None | Some a \<Rightarrow> Some (a, d, 1 - d)) (nearest (nat overfetch))
      in py_take n (filter (\<lambda>(a, d, s). \<not> (min_similarity > 0 \<and> d > 1 - min_similarity)) joined))"

subsection \<open>The store of both levels\<close>

text \<open>The memories of a session: its index and the database its key leads to.\<close>

record memories =
  me_l1 :: l1_index
  me_db :: memory_db

definition composite_store :: "string \<Rightarrow> memory_entry \<Rightarrow> memories \<Rightarrow> string + memories" where
  "composite_store skey e m =
     (case sqlite_store skey e (me_db m) of
        Inl err \<Rightarrow> Inl err
      | Inr db \<Rightarrow> Inr \<lparr>me_l1 = l1_index_update (l1_copy e) (me_l1 m), me_db = db\<rparr>)"

definition composite_delete :: "string \<Rightarrow> memories \<Rightarrow> memories" where
  "composite_delete i m = \<lparr>me_l1 = l1_index_remove i (me_l1 m), me_db = sqlite_delete i (me_db m)\<rparr>"

definition archive_row :: "rat \<Rightarrow> string option \<Rightarrow> sop \<Rightarrow> sop" where
  "archive_row now reason p = (set_status ''archived'' p)\<lparr>sp_archived_at := Some now, sp_reason := reason\<rparr>"

text \<open>\<open>evict\<close> says whether the entry could be removed from the index.\<close>

definition archive_entry :: "rat \<Rightarrow> bool \<Rightarrow> string \<Rightarrow> string \<Rightarrow> memories \<Rightarrow> bool \<times> memories" where
  "archive_entry now evict i reason m =
     (let hit = (\<lambda>p. sp_id p = i \<and> sp_active p);
          changed = (\<exists>p \<in> set (db_sops (me_db m)). hit p);
          db = (me_db m)\<lparr>db_sops := update_where hit
                  (archive_row now (if reason = [] then None else Some reason)) (db_sops (me_db m))\<rparr>
      in (changed, m\<lparr>me_db := db, me_l1 := (if changed \<and> evict then l1_index_remove i (me_l1 m) else me_l1 m)\<rparr>))"

subsection \<open>Forgetting\<close>

text \<open>\<^verbatim>\<open>_resolve_entry_id\<close>: the id and the content of the one active row that matches.\<close>

datatype resolved_id = ResolvedTo string string | NotResolved string

definition resolve_entry_id :: "string \<Rightarrow> memory_db \<Rightarrow> resolved_id" where
  "resolve_entry_id i db =
     (let hits = filter (\<lambda>p. sp_active p \<and> (if length i \<ge> 32 then sp_id p = i else sql_like (i @ ''%'') (sp_id p)))
                   (db_sops db)
      in case hits of
           [] \<Rightarrow> NotResolved (''forget: no active entry matches '' @ py_repr i)
         | [p] \<Rightarrow> ResolvedTo (sp_id p) (mem_content (sp_mem p))
         | _ \<Rightarrow> NotResolved (''forget: '' @ py_repr i @ '' matches '' @ show_nat (length hits) @ '' entries''))"

text \<open>
  \<^verbatim>\<open>ForgetTool.execute\<close>; \<^const>\<open>None\<close> is the exception of \<^verbatim>\<open>strip\<close> on a value that is no string.
\<close>

definition forget_execute ::
    "rat \<Rightarrow> bool \<Rightarrow> (string + session_tree option) \<Rightarrow> jobj \<Rightarrow> memories \<Rightarrow> (tool_result \<times> memories) option" where
  "forget_execute now evict loaded args m =
     (let cid = as_str (jget_or (JStr []) ''_call_id'' args)
      in case (jget_or (JStr []) ''entry_id'' args, jget_or (JStr []) ''reason'' args) of
           (JStr i0, JStr r0) \<Rightarrow>
             let i = py_strip i0; reason = py_strip r0;
                 refuse = (\<lambda>msg. Some (error_result cid msg, m))
             in if i = [] then refuse ''forget: 'entry_id' is required''
                else if reason = [] then refuse ''forget: 'reason' is required''
                else (case loaded of
                        Inl exc \<Rightarrow> refuse (''forget: failed to load session: '' @ exc)
                      | Inr None \<Rightarrow> refuse ''forget: requires prior tool execution in this session''
                      | Inr (Some t) \<Rightarrow>
                          if \<not> has_tool_use t then refuse ''forget: requires at least one tool execution''
                          else (case resolve_entry_id i (me_db m) of
                                  NotResolved msg \<Rightarrow> refuse msg
                                | ResolvedTo full content \<Rightarrow>
                                    (let (archived, m') = archive_entry now evict full reason m
                                     in if \<not> archived
                                        then Some (error_result cid (''forget: '' @ py_repr i @ '' is archived already''), m')
                                        else Some (text_result cid
                                               (''archived: '' @ (if length content > 50 then take 50 content @ ''...'' else content)
                                                @ nl @ ''reason: '' @ reason), m'))))
         | _ \<Rightarrow> None)"

subsection \<open>Administration\<close>

definition last_use :: "sop \<Rightarrow> rat" where
  "last_use p = (case mem_used (sp_mem p) of Some t \<Rightarrow> t | None \<Rightarrow> mem_created (sp_mem p))"

definition is_stale :: "rat \<Rightarrow> sop \<Rightarrow> bool" where
  "is_stale threshold p = (sp_active p \<and> last_use p < threshold)"

definition graduates :: "int \<Rightarrow> rat \<Rightarrow> sop \<Rightarrow> bool" where
  "graduates min_use threshold p =
     (mem_type (sp_mem p) = ''auto_sop'' \<and> sp_active p \<and> mem_uses (sp_mem p) \<ge> min_use
      \<and> mem_created (sp_mem p) \<le> threshold)"

definition list_auto_sops :: "memory_db \<Rightarrow> sop list" where
  "list_auto_sops db = filter (\<lambda>p. mem_type (sp_mem p) = ''auto_sop'' \<and> sp_active p) (db_sops db)"

definition list_stale_sops :: "rat \<Rightarrow> rat \<Rightarrow> memory_db \<Rightarrow> sop list" where
  "list_stale_sops now stale_days db = filter (is_stale (now - stale_days * 86400)) (db_sops db)"

definition list_archived_sops :: "memory_db \<Rightarrow> sop list" where
  "list_archived_sops db = filter (\<lambda>p. mem_status (sp_mem p) = ''archived'') (db_sops db)"

definition preview_graduation :: "rat \<Rightarrow> int \<Rightarrow> rat \<Rightarrow> memory_db \<Rightarrow> sop list" where
  "preview_graduation now min_use min_days db = filter (graduates min_use (now - min_days * 86400)) (db_sops db)"

definition restore_row :: "sop \<Rightarrow> sop" where
  "restore_row p = (set_status ''active'' p)\<lparr>sp_archived_at := None, sp_reason := None\<rparr>"

text \<open>\<^verbatim>\<open>restore_sop\<close> on one database: whether an archived row was there.\<close>

definition restore_sop :: "string \<Rightarrow> memory_db \<Rightarrow> bool \<times> memory_db" where
  "restore_sop i db =
     (if \<exists>p \<in> set (db_sops db). sp_id p = i \<and> mem_status (sp_mem p) = ''archived''
      then (True, db\<lparr>db_sops := update_where (\<lambda>p. sp_id p = i) restore_row (db_sops db)\<rparr>)
      else (False, db))"


subsection \<open>What the operations keep\<close>

lemma update_where_simps [simp]:
  "update_where P f [] = []" "update_where P f (x # xs) = (if P x then f x else x) # update_where P f xs"
  "length (update_where P f xs) = length xs"
  "set (update_where P f xs) = (\<lambda>x. if P x then f x else x) ` set xs"
  by (simp_all add: update_where_def)

lemma update_where_keys:
  "(\<And>x. g (f x) = g x) \<Longrightarrow> map g (update_where P f xs) = map g xs"
  by (induction xs) simp_all

lemma row_simps [simp]:
  "sp_id (bump now p) = sp_id p" "sp_id (set_status s p) = sp_id p" "sp_id (archive_row now r p) = sp_id p"
  "sp_id (restore_row p) = sp_id p" "sp_key (bump now p) = sp_key p" "sp_key (set_status s p) = sp_key p"
  "sp_active (bump now p) = sp_active p" "sp_active (set_status s p) = (s = ''active'')"
  "sp_active (archive_row now r p) = False" "sp_active (restore_row p)"
  by (simp_all add: bump_def set_status_def archive_row_def restore_row_def sp_active_def)

text \<open>
  The representation of the memories of a session: ids are keys of both tables, rows are of the
  layer of their table, the index has the ids of its entries as keys, and an entry of the index
  stands for a fact or an active procedure.
\<close>

definition db_ok :: "memory_db \<Rightarrow> bool" where
  "db_ok db \<longleftrightarrow> distinct (map ft_id (db_facts db)) \<and> distinct (map sp_id (db_sops db))
     \<and> (\<forall>f \<in> set (db_facts db). mem_layer (ft_mem f) = ''L2'')
     \<and> (\<forall>p \<in> set (db_sops db). mem_layer (sp_mem p) = ''L3'')"

definition shown_ids :: "memory_db \<Rightarrow> string set" where
  "shown_ids db = set (map ft_id (db_facts db)) \<union> set (map sp_id (filter sp_active (db_sops db)))"

lemma active_ids_update:
  assumes "\<And>p. sp_id (f p) = sp_id p"
  shows "(\<And>p. P p \<Longrightarrow> sp_active (f p) = sp_active p) \<Longrightarrow>
      map sp_id (filter sp_active (update_where P f ps)) = map sp_id (filter sp_active ps)"
    "(\<And>p. P p \<Longrightarrow> sp_active (f p)) \<Longrightarrow>
      set (map sp_id (filter sp_active ps)) \<subseteq> set (map sp_id (filter sp_active (update_where P f ps)))"
    "(\<And>p. P p \<Longrightarrow> sp_active (f p)) \<Longrightarrow>
      sp_id ` {p \<in> set ps. P p} \<subseteq> set (map sp_id (filter sp_active (update_where P f ps)))"
  using assms by (induction ps) auto

lemma active_ids_archive:
  "map sp_id (filter sp_active (update_where (\<lambda>p. sp_id p = i \<and> sp_active p) (archive_row now reason) ps))
     = filter (\<lambda>j. j \<noteq> i) (map sp_id (filter sp_active ps))"
  by (induction ps) simp_all

definition memories_ok :: "memories \<Rightarrow> bool" where
  "memories_ok m \<longleftrightarrow> db_ok (me_db m) \<and> distinct (map fst (l1_hash (me_l1 m)))
     \<and> (\<forall>(i, e) \<in> set (l1_hash (me_l1 m)). mem_id e = i \<and> i \<in> shown_ids (me_db m))"

datatype memory_op =
    StoreMemory string memory_entry
  | DeleteMemory string
  | ArchiveMemory rat bool string string
  | SearchMemory fts string "string list option" int "(string \<times> int) list option" rat
  | RestoreMemory string
  | ArchiveSession string rat string string string

fun memory_step :: "memory_op \<Rightarrow> memories \<Rightarrow> memories" where
  "memory_step (StoreMemory skey e) m = (case composite_store skey e m of Inl _ \<Rightarrow> m | Inr m' \<Rightarrow> m')"
| "memory_step (DeleteMemory i) m = composite_delete i m"
| "memory_step (ArchiveMemory now evict i reason) m = snd (archive_entry now evict i reason m)"
| "memory_step (SearchMemory X query layers n per_layer now) m =
     m\<lparr>me_db := snd (sqlite_search X query layers n per_layer now (me_db m))\<rparr>"
| "memory_step (RestoreMemory i) m = m\<lparr>me_db := snd (restore_sop i (me_db m))\<rparr>"
| "memory_step (ArchiveSession uuid now skey sid summary) m =
     m\<lparr>me_db := sqlite_archive_session uuid now skey sid summary (me_db m)\<rparr>"

text \<open>What the callers pass: entries that are active; the index can be reached.\<close>

fun op_ok :: "memory_op \<Rightarrow> bool" where
  "op_ok (StoreMemory skey e) = (mem_status e = ''active'')"
| "op_ok (ArchiveMemory now evict i reason) = evict"
| "op_ok _ = True"

lemma upsert_sop_ids:
  "map sp_id (upsert_sop skey e ps) = (if mem_id e \<in> sp_id ` set ps then map sp_id ps else map sp_id ps @ [mem_id e])"
  by (simp add: upsert_sop_def update_where_def merge_memory_def comp_def)

lemma upsert_fact_ids:
  "map ft_id (upsert_fact skey e fs) = (if mem_id e \<in> ft_id ` set fs then map ft_id fs else map ft_id fs @ [mem_id e])"
  by (simp add: upsert_fact_def update_where_def merge_memory_def comp_def)

lemma upsert_sop_set:
  "set (upsert_sop skey e ps) \<subseteq> set ps \<union> {p. \<exists>old. sp_mem p = e \<or> sp_mem p = merge_memory e old}"
  by (auto simp: upsert_sop_def)

lemma upsert_fact_set:
  "set (upsert_fact skey e fs) \<subseteq> set fs \<union> {f. \<exists>old. ft_mem f = e \<or> ft_mem f = merge_memory e old}"
  by (auto simp: upsert_fact_def)

lemma sqlite_store_ok:
  assumes "db_ok db" "sqlite_store skey e db = Inr db'"
  shows "db_ok db'"
proof (cases "mem_layer e = ''L2''")
  case True
  then have "db' = db\<lparr>db_facts := upsert_fact skey e (db_facts db)\<rparr>" using assms(2) by (simp add: sqlite_store_def)
  then show ?thesis
    using assms(1) True upsert_fact_set [of skey e "db_facts db"]
    by (auto simp: db_ok_def upsert_fact_ids merge_memory_def)
next
  case False
  then have l: "mem_layer e = ''L3''" "db' = db\<lparr>db_sops := upsert_sop skey e (db_sops db)\<rparr>"
    using assms(2) by (auto simp: sqlite_store_def split: if_splits)
  then show ?thesis
    using assms(1) upsert_sop_set [of skey e "db_sops db"]
    by (auto simp: db_ok_def upsert_sop_ids merge_memory_def)
qed

lemma sqlite_store_shown:
  assumes "mem_status e = ''active''" "sqlite_store skey e db = Inr db'"
  shows "insert (mem_id e) (shown_ids db) \<subseteq> shown_ids db'"
proof (cases "mem_layer e = ''L2''")
  case True
  then have d: "db' = db\<lparr>db_facts := upsert_fact skey e (db_facts db)\<rparr>" using assms(2) by (simp add: sqlite_store_def)
  have "ft_id ` set (upsert_fact skey e (db_facts db)) = insert (mem_id e) (ft_id ` set (db_facts db))"
    using arg_cong [OF upsert_fact_ids [of skey e "db_facts db"], of set] by auto
  then show ?thesis by (auto simp: d shown_ids_def)
next
  case False
  then have d: "db' = db\<lparr>db_sops := upsert_sop skey e (db_sops db)\<rparr>"
    using assms(2) by (auto simp: sqlite_store_def split: if_splits)
  let ?f = "\<lambda>p. p\<lparr>sp_mem := merge_memory e (sp_mem p)\<rparr>" and ?P = "\<lambda>p. sp_id p = mem_id e"
  have id: "sp_id p = mem_id e \<Longrightarrow> sp_id (?f p) = sp_id p" "sp_active (?f p)" for p
    using assms(1) by (simp_all add: merge_memory_def sp_active_def)
  have "set (map sp_id (filter sp_active (db_sops db))) \<union> {mem_id e}
      \<subseteq> set (map sp_id (filter sp_active (upsert_sop skey e (db_sops db))))"
  proof (cases "mem_id e \<in> sp_id ` set (db_sops db)")
    case True
    let ?g = "\<lambda>p. if ?P p then ?f p else p"
    have u: "upsert_sop skey e (db_sops db) = update_where ?P ?g (db_sops db)"
      using True by (simp add: upsert_sop_def update_where_def)
    have g: "sp_id (?g p) = sp_id p" "?P p \<Longrightarrow> sp_active (?g p)" for p using id by auto
    from True obtain q where "q \<in> set (db_sops db)" "?P q" by (metis imageE)
    then have "mem_id e \<in> sp_id ` {p \<in> set (db_sops db). ?P p}" by (metis (mono_tags, lifting) image_eqI mem_Collect_eq)
    with active_ids_update(2,3) [of ?g ?P "db_sops db"] g show ?thesis unfolding u by blast
  next
    case False
    then show ?thesis using assms(1) by (auto simp: upsert_sop_def sp_active_def)
  qed
  then show ?thesis by (auto simp: d shown_ids_def)
qed

lemma search_procedures_ok:
  "db_ok db \<Longrightarrow> db_ok (snd (search_procedures X query n now db))"
  by (auto simp: search_procedures_def Let_def db_ok_def update_where_keys bump_def)

lemma search_procedures_shown [simp]:
  "shown_ids (snd (search_procedures X query n now db)) = shown_ids db"
  unfolding search_procedures_def Let_def shown_ids_def
  by (simp add: active_ids_update(1) del: set_map)

lemma sqlite_search_db:
  "snd (sqlite_search X query layers n per_layer now db) = db
   \<or> (\<exists>k. snd (sqlite_search X query layers n per_layer now db) = snd (search_procedures X query k now db))"
  by (auto simp: sqlite_search_def Let_def split: prod.split) (metis snd_conv)

lemma l1_update_set:
  "set (l1_hash (l1_index_update e ix)) \<subseteq> set (AList.update (mem_id e) e (l1_hash ix))"
  by (auto simp: l1_index_update_def l1_evict_def)

lemma memory_step_ok:
  assumes "memories_ok m" "op_ok op"
  shows "memories_ok (memory_step op m)"
proof (cases op)
  case (StoreMemory skey e)
  show ?thesis
  proof (cases "sqlite_store skey e (me_db m)")
    case (Inr db)
    have act: "mem_status e = ''active''" using assms(2) StoreMemory by simp
    have i: "mem_id (l1_copy e) = mem_id e" by (simp add: l1_copy_def)
    have "distinct (map fst (l1_hash (l1_index_update (l1_copy e) (me_l1 m))))"
      using assms(1) by (simp add: l1_index_update_def l1_evict_def memories_ok_def distinct_map_filter distinct_update)
    moreover have "\<forall>(j, x) \<in> set (AList.update (mem_id e) (l1_copy e) (l1_hash (me_l1 m))). mem_id x = j \<and> j \<in> shown_ids db"
    proof (safe)
      fix j x assume "(j, x) \<in> set (AList.update (mem_id e) (l1_copy e) (l1_hash (me_l1 m)))"
      then have "(j, x) = (mem_id e, l1_copy e) \<or> (j, x) \<in> set (l1_hash (me_l1 m))"
        using set_dict_update_subset by fastforce
      then show "mem_id x = j" "j \<in> shown_ids db"
        using assms(1) sqlite_store_shown [OF act Inr] i by (auto simp: memories_ok_def)
    qed
    ultimately show ?thesis
      using assms(1) sqlite_store_ok [OF _ Inr] l1_update_set [of "l1_copy e" "me_l1 m"] i
      by (auto simp: StoreMemory composite_store_def Inr memories_ok_def)
  qed (simp add: StoreMemory composite_store_def assms(1))
next
  case (DeleteMemory i)
  have "distinct (map fst (AList.delete i (l1_hash (me_l1 m))))"
    using assms(1) by (simp add: memories_ok_def distinct_delete)
  then show ?thesis
    using assms(1) unfolding DeleteMemory
    by (auto simp: memories_ok_def composite_delete_def sqlite_delete_def l1_index_remove_def db_ok_def
        shown_ids_def distinct_map_filter AList.delete_eq)
next
  case (ArchiveMemory now evict i reason)
  let ?ps = "update_where (\<lambda>p. sp_id p = i \<and> sp_active p) (archive_row now (if reason = [] then None else Some reason))
      (db_sops (me_db m))"
  let ?m = "snd (archive_entry now evict i reason m)"
  have db: "me_db ?m = (me_db m)\<lparr>db_sops := ?ps\<rparr>" by (simp add: archive_entry_def Let_def)
  have "\<forall>p \<in> set ?ps. mem_layer (sp_mem p) = ''L3''"
    using assms(1) by (auto simp: memories_ok_def db_ok_def archive_row_def set_status_def)
  then have ok: "db_ok (me_db ?m)"
    using assms(1) by (simp add: db db_ok_def memories_ok_def update_where_keys)
  have sh: "shown_ids (me_db ?m) = ft_id ` set (db_facts (me_db m))
      \<union> (set (map sp_id (filter sp_active (db_sops (me_db m)))) - {i})"
    using arg_cong [OF active_ids_archive, of set] by (auto simp: db shown_ids_def)
  then have sub: "shown_ids (me_db m) - {i} \<subseteq> shown_ids (me_db ?m)" by (auto simp: shown_ids_def)
  show ?thesis
  proof (cases "\<exists>p \<in> set (db_sops (me_db m)). sp_id p = i \<and> sp_active p")
    case True
    then have l1: "l1_hash (me_l1 ?m) = AList.delete i (l1_hash (me_l1 m))"
      using assms(2) ArchiveMemory by (simp add: archive_entry_def Let_def l1_index_remove_def)
    have "distinct (map fst (l1_hash (me_l1 ?m)))"
      using assms(1) by (simp add: l1 memories_ok_def distinct_delete)
    moreover have "\<forall>(j, e) \<in> set (l1_hash (me_l1 ?m)). mem_id e = j \<and> j \<in> shown_ids (me_db ?m)"
      using assms(1) sub by (auto simp: l1 AList.delete_eq memories_ok_def)
    ultimately show ?thesis using ok by (simp add: ArchiveMemory memories_ok_def)
  next
    case False
    then have "me_l1 ?m = me_l1 m" "shown_ids (me_db ?m) = shown_ids (me_db m)"
      by (auto simp: archive_entry_def Let_def sh shown_ids_def)
    then show ?thesis using assms(1) ok by (simp add: ArchiveMemory memories_ok_def)
  qed
next
  case (SearchMemory X query layers n per_layer now)
  then show ?thesis
    using assms(1) sqlite_search_db [of X query layers n per_layer now "me_db m"]
    by (auto simp: memories_ok_def search_procedures_ok)
next
  case (RestoreMemory i)
  have "shown_ids (me_db m) \<subseteq> shown_ids (snd (restore_sop i (me_db m)))"
    using active_ids_update(2) [of restore_row "\<lambda>p. sp_id p = i" "db_sops (me_db m)"]
    by (auto simp: restore_sop_def shown_ids_def simp del: update_where_simps(4))
  moreover have "\<forall>p \<in> set (db_sops (snd (restore_sop i (me_db m)))). mem_layer (sp_mem p) = ''L3''"
    using assms(1) by (auto simp: restore_sop_def memories_ok_def db_ok_def restore_row_def set_status_def)
  ultimately show ?thesis
    using assms(1) unfolding RestoreMemory
    by (auto simp: memories_ok_def restore_sop_def db_ok_def update_where_keys split: if_splits)
next
  case (ArchiveSession uuid now skey sid summary)
  then show ?thesis
    using assms(1) by (auto simp: memories_ok_def sqlite_archive_session_def db_ok_def shown_ids_def)
qed

text \<open>
  The representation of a session's memories is kept by every sequence of
  operations; in particular the index never shows a procedure that was archived or deleted.
\<close>

theorem memories_stay_ok:
  assumes "memories_ok m" "list_all op_ok ops"
  shows "memories_ok (fold memory_step ops m)"
  using assms by (induction ops arbitrary: m) (simp_all add: memory_step_ok)


definition demo_sop :: "string \<Rightarrow> string \<Rightarrow> rat \<Rightarrow> memory_entry" where
  "demo_sop i content now = (memorize_entry i now ''s'' ''L3'' ''auto_sop'' content)"

definition demo_memories :: memories where
  "demo_memories = \<lparr>me_l1 = \<lparr>l1_max_entries = 10, l1_max_chars = 1000, l1_hash = []\<rparr>, me_db = db_empty\<rparr>"

theorem memories_stay_ok_witness:
  "memories_ok (fold memory_step [StoreMemory ''k'' (demo_sop ''a'' ''text'' 1), ArchiveMemory 2 True ''a'' ''old'',
     RestoreMemory ''a'', StoreMemory ''k'' (demo_sop ''b'' ''text'' 2), DeleteMemory ''b''] demo_memories)
   \<and> map fst (l1_hash (me_l1 (fold memory_step [StoreMemory ''k'' (demo_sop ''a'' ''text'' 1),
        StoreMemory ''k'' (demo_sop ''b'' ''text'' 2), ArchiveMemory 2 True ''a'' ''old''] demo_memories))) = [''b'']"
proof
  have "memories_ok demo_memories" by (simp add: memories_ok_def demo_memories_def db_empty_def db_ok_def)
  then show "memories_ok (fold memory_step [StoreMemory ''k'' (demo_sop ''a'' ''text'' 1), ArchiveMemory 2 True ''a'' ''old'',
     RestoreMemory ''a'', StoreMemory ''k'' (demo_sop ''b'' ''text'' 2), DeleteMemory ''b''] demo_memories)"
    by (rule memories_stay_ok) (simp add: demo_sop_def memorize_entry_def)
qed code_simp

subsection \<open>Forgetting\<close>

lemma matching_rows:
  assumes "r \<in> set (matching X query mem ok n rows)"
  shows "r \<in> set rows \<and> ok r"
proof -
  have lim: "set (sql_limit n xs) \<subseteq> set xs" for xs :: "'a list" by (auto simp: sql_limit_def dest: in_set_takeD)
  have found: "x \<in> set rows" if "x \<in> set (List.map_filter (\<lambda>i. find (\<lambda>r. mem_id (mem r) = i) rows) is)" for x "is"
  proof -
    from that obtain i where "find (\<lambda>r. mem_id (mem r) = i) rows = Some x"
      by (fastforce simp: List.map_filter_def)
    then show ?thesis by (auto simp: find_Some_iff)
  qed
  show ?thesis
    using assms lim found by (fastforce simp: matching_def split: if_splits option.splits)
qed

text \<open>What is found are active rows, counted as used; nothing else changes.\<close>

lemma search_procedures_finds:
  assumes "search_procedures X query n now db = (rows, db')"
  shows "set rows \<subseteq> bump now ` {p \<in> set (db_sops db). sp_active p}"
    "n \<ge> 0 \<Longrightarrow> length rows \<le> nat n"
proof -
  let ?m = "matching X query sp_mem sp_active n (db_sops db)"
  have rows: "rows = map (bump now) ?m" using assms by (simp add: search_procedures_def Let_def)
  show "set rows \<subseteq> bump now ` {p \<in> set (db_sops db). sp_active p}"
    unfolding rows using matching_rows [of _ X query sp_mem sp_active n "db_sops db"] by auto
  show "n \<ge> 0 \<Longrightarrow> length rows \<le> nat n"
    unfolding rows by (auto simp: matching_def sql_limit_def split: option.split)
qed

lemma archive_entry_of_active:
  assumes "p \<in> set (db_sops (me_db m))" "sp_active p" "archive_entry now evict (sp_id p) reason m = (b, m')"
  shows "b" "db_sops (me_db m') = update_where (\<lambda>q. sp_id q = sp_id p \<and> sp_active q)
           (archive_row now (if reason = [] then None else Some reason)) (db_sops (me_db m))"
    "me_l1 m' = (if evict then l1_index_remove (sp_id p) (me_l1 m) else me_l1 m)"
  using assms by (auto simp: archive_entry_def Let_def)

text \<open>
  Property C31.  Forgetting, whatever the arguments: an error changes nothing.  Otherwise there was
  exactly one active procedure that the given id matches; it is archived with the reason, every other row
  stays as it is, the entry leaves the index, and no search for procedures finds it any more.
\<close>

theorem forgotten_is_not_found:
  assumes "forget_execute now True loaded args m = Some (r, m')" "db_ok (me_db m)"
  shows "if tr_error r then m' = m
    else (\<exists>p \<in> set (db_sops (me_db m)). sp_active p
       \<and> (let i = py_strip (as_str (jget_or (JStr []) ''entry_id'' args))
          in sp_id p = i \<or> sql_like (i @ ''%'') (sp_id p))
       \<and> db_sops (me_db m') = map (\<lambda>q. if q = p
            then archive_row now (Some (py_strip (as_str (jget_or (JStr []) ''reason'' args)))) p else q) (db_sops (me_db m))
       \<and> l1_hash (me_l1 m') = AList.delete (sp_id p) (l1_hash (me_l1 m))
       \<and> (\<forall>X query n t. sp_id p \<notin> sp_id ` set (fst (search_procedures X query n t (me_db m')))))"
proof (cases "tr_error r")
  case True
  then show ?thesis
    using assms(1)
    by (auto simp: forget_execute_def Let_def error_result_def text_result_def resolve_entry_id_def archive_entry_def
        split: json.splits if_splits sum.splits option.splits resolved_id.splits list.splits dest!: filter_eq_ConsD)
next
  case False
  let ?i = "py_strip (as_str (jget_or (JStr []) ''entry_id'' args))"
  let ?r = "py_strip (as_str (jget_or (JStr []) ''reason'' args))"
  obtain full content where res: "resolve_entry_id ?i (me_db m) = ResolvedTo full content" "?r \<noteq> []"
    "archive_entry now True full ?r m = (True, m')"
    using assms(1) False
    by (auto simp: forget_execute_def Let_def error_result_def
        split: json.splits if_splits sum.splits option.splits resolved_id.splits prod.splits)
  let ?hit = "\<lambda>p. sp_active p \<and> (if length ?i \<ge> 32 then sp_id p = ?i else sql_like (?i @ ''%'') (sp_id p))"
  obtain p where p: "filter ?hit (db_sops (me_db m)) = [p]" "full = sp_id p"
    using res(1) by (auto simp: resolve_entry_id_def Let_def split: list.splits)
  have "p \<in> set (filter ?hit (db_sops (me_db m)))" unfolding p(1) by simp
  then have mem: "p \<in> set (db_sops (me_db m))" "?hit p" by simp_all
  note a = archive_entry_of_active [OF mem(1) _ res(3) [unfolded p(2)]]
  have same: "(sp_id q = sp_id p \<and> sp_active q) = (q = p)" if "q \<in> set (db_sops (me_db m))" for q
    using assms(2) that mem by (auto simp: db_ok_def distinct_map dest: inj_onD)
  have sops: "db_sops (me_db m') = map (\<lambda>q. if q = p then archive_row now (Some ?r) p else q) (db_sops (me_db m))"
    using a(2) mem(2) res(2) same by (auto simp: update_where_def)
  have gone: "sp_id q \<noteq> sp_id p" if "q \<in> set (db_sops (me_db m'))" "sp_active q" for q
  proof -
    from that(1) obtain x where "x \<in> set (db_sops (me_db m))" "q = (if x = p then archive_row now (Some ?r) p else x)"
      unfolding sops by auto
    with that(2) same [of x] show ?thesis by (auto split: if_splits)
  qed
  have "sp_id p \<notin> sp_id ` set (fst (search_procedures X query n t (me_db m')))" for X query n t
  proof
    assume "sp_id p \<in> sp_id ` set (fst (search_procedures X query n t (me_db m')))"
    then obtain q where "q \<in> set (fst (search_procedures X query n t (me_db m')))" "sp_id q = sp_id p" by (metis imageE)
    with search_procedures_finds(1) [OF prod.collapse [symmetric], of X query n t "me_db m'"] obtain x
      where "x \<in> set (db_sops (me_db m'))" "sp_active x" "q = bump t x" by blast
    with gone \<open>sp_id q = sp_id p\<close> show False by simp
  qed
  then have nf: "\<forall>X query n t. sp_id p \<notin> sp_id ` set (fst (search_procedures X query n t (me_db m')))" by blast
  have l1: "l1_hash (me_l1 m') = AList.delete (sp_id p) (l1_hash (me_l1 m))"
    using a(3) mem(2) by (simp add: l1_index_remove_def)
  have like: "sp_id p = ?i \<or> sql_like (?i @ ''%'') (sp_id p)" using mem(2) by (cases "length ?i \<ge> 32") auto
  have act: "sp_active p" using mem(2) by blast
  from False show ?thesis
    unfolding Let_def by (simp only: if_False) (intro bexI [OF _ mem(1)] conjI act like sops l1 nf)
qed


definition demo_worked :: session_tree where
  "demo_worked = \<lparr>header = demo_header, entries = [(''t'', demo_message ''t'' None RTool ''ok'')],
     order = [''t''], leaf_id = Some ''t''\<rparr>"

definition demo_stored :: memories where
  "demo_stored = fold memory_step [StoreMemory ''k'' (demo_sop ''ab12'' ''deploy'' 1),
     StoreMemory ''k'' (demo_sop ''cd34'' ''backup'' 2)] demo_memories"

theorem forgotten_is_not_found_witness:
  "\<exists>r m'. forget_execute 3 True (Inr (Some demo_worked)) [(''entry_id'', JStr ''ab''), (''reason'', JStr ''stale'')] demo_stored
        = Some (r, m')
     \<and> \<not> tr_error r \<and> l1_hash (me_l1 m') = AList.delete ''ab12'' (l1_hash (me_l1 demo_stored))
     \<and> (\<forall>X query n t. ''ab12'' \<notin> sp_id ` set (fst (search_procedures X query n t (me_db m'))))"
proof -
  let ?args = "[(''entry_id'', JStr ''ab''), (''reason'', JStr ''stale'')]"
  have ok: "db_ok (me_db demo_stored)" by code_simp
  have "map_option (\<lambda>(r, m'). tr_error r) (forget_execute 3 True (Inr (Some demo_worked)) ?args demo_stored) = Some False"
    by code_simp
  then obtain r m' where f: "forget_execute 3 True (Inr (Some demo_worked)) ?args demo_stored = Some (r, m')" "\<not> tr_error r"
    by auto
  from forgotten_is_not_found [OF f(1) ok] f(2) obtain p where p: "p \<in> set (db_sops (me_db demo_stored))"
    "sp_id p = ''ab'' \<or> sql_like ''ab%'' (sp_id p)"
    "l1_hash (me_l1 m') = AList.delete (sp_id p) (l1_hash (me_l1 demo_stored))"
    "\<forall>X query n t. sp_id p \<notin> sp_id ` set (fst (search_procedures X query n t (me_db m')))"
    by (auto simp: Let_def jget_or_def py_strip_def py_space_def)
  have "map sp_id (filter (\<lambda>p. sp_id p = ''ab'' \<or> sql_like ''ab%'' (sp_id p)) (db_sops (me_db demo_stored))) = [''ab12'']"
    by code_simp
  from arg_cong [OF this, of set] p(1,2) have "sp_id p = ''ab12''" by auto
  with f p(3,4) show ?thesis by auto
qed

text \<open>
  The id is taken for a pattern: a per cent sign, which is no id, archives the only active
  procedure of a session, and letters match in both cases.
\<close>

lemma forget_takes_patterns:
  "map_option (\<lambda>(r, m). (tr_error r, map (mem_status \<circ> sp_mem) (db_sops (me_db m))))
     (forget_execute 3 True (Inr (Some demo_worked)) [(''entry_id'', JStr ''%''), (''reason'', JStr ''x'')]
        (memory_step (DeleteMemory ''cd34'') demo_stored)) = Some (False, [''archived''])"
  by code_simp

subsection \<open>Databases shared by two keys\<close>

text \<open>
  The databases by the names of their files.  A search does not look at the key of the rows: two
  keys that lead to the same file see each other's procedures.
\<close>

definition store_in :: "(string \<Rightarrow> string) \<Rightarrow> string \<Rightarrow> memory_entry \<Rightarrow> (string \<Rightarrow> memory_db) \<Rightarrow> string \<Rightarrow> memory_db" where
  "store_in file skey e dbs =
     (case sqlite_store skey e (dbs (file skey)) of Inl _ \<Rightarrow> dbs | Inr db \<Rightarrow> dbs(file skey := db))"

lemma separate_files_separate_keys:
  "inj file \<Longrightarrow> k' \<noteq> k \<Longrightarrow>
   fst (sqlite_search X query layers n pl now (store_in file k e dbs (file k')))
     = fst (sqlite_search X query layers n pl now (dbs (file k')))"
  by (simp add: store_in_def inj_eq split: sum.split)

lemma human_names_share_memories:
  "map mem_content (fst (sqlite_search \<lparr>fx_min_chars = 10, fx_query = Some, fx_rank = (\<lambda>_ _. [])\<rparr> ''key'' None 5 None 2
      (store_in (\<lambda>k. the (human_filename (\<lambda>_. []) k)) ''web:ann'' (demo_sop ''a'' ''the key is 42'' 1)
         (\<lambda>_. db_empty) (the (human_filename (\<lambda>_. []) ''web_ann''))))) = [''the key is 42'']"
  by code_simp

end
