(* ===== verification/Skills.thy ===== *)
theory Skills
  imports FileTools Steering "HOL-Library.List_Lexorder" "HOL-Library.Char_ord"
begin

section \<open>Skills\<close>

text \<open>
  Skills are directories with a file \<^verbatim>\<open>SKILL.md\<close>: its reading (\<^verbatim>\<open>src/pyclaw/skills/parser.py\<close>), who may
  use it (\<^verbatim>\<open>eligibility.py\<close>, \<^verbatim>\<open>management.py\<close>), the directories that are looked through
  (\<^verbatim>\<open>discovery.py\<close>), the part of the prompt that lists them (\<^verbatim>\<open>prompt.py\<close>), the provider with its
  cache (\<^verbatim>\<open>provider.py\<close>) and the installation of an archive (\<^verbatim>\<open>installer.py\<close>).  The reader of YAML is an
  argument; a value of YAML is shown as a value of JSON.
\<close>

subsection \<open>Reading a skill\<close>

record install_spec =
  is_kind :: string
  is_formula :: "string option"
  is_package :: "string option"
  is_module :: "string option"
  is_url :: "string option"
  is_bins :: "string list"
  is_os :: "string list"
  is_label :: "string option"

record skill =
  sk_name :: string
  sk_description :: string
  sk_body :: string
  sk_path :: string
  sk_bins :: "string list"
  sk_any_bins :: "string list"
  sk_env :: "string list"
  sk_os :: "string list"
  sk_installs :: "install_spec list"
  sk_always :: bool
  sk_emoji :: "string option"
  sk_disabled :: bool
  sk_auto :: bool
  sk_lifecycle :: string
  sk_generated :: "string option"
  sk_source :: "string option"

text \<open>A reading fails with the error that discovery expects or with any other exception.\<close>

datatype skill_parse = SkillRead skill | SkillError string | SkillCrash

definition extract_frontmatter :: "string \<Rightarrow> string + string \<times> string" where
  "extract_frontmatter content =
     (if \<not> starts_with ''---'' content then Inl ''No YAML frontmatter found (file must start with ---)''
      else case py_find ''---'' (drop 3 content) of
             None \<Rightarrow> Inl ''No closing --- for YAML frontmatter''
           | Some i \<Rightarrow> Inr (py_strip (take i (drop 3 content)), py_strip (drop (i + 6) content)))"

text \<open>Validation by pydantic: \<^const>\<open>None\<close> is its exception.\<close>

fun texts :: "json list \<Rightarrow> string list option" where
  "texts [] = Some []"
| "texts (JStr s # vs) = map_option (Cons s) (texts vs)"
| "texts (_ # vs) = None"

definition text_list :: "json \<Rightarrow> string list option" where
  "text_list v = (case v of JList xs \<Rightarrow> texts xs | _ \<Rightarrow> None)"

definition opt_text :: "json \<Rightarrow> string option option" where
  "opt_text v = (case v of JNull \<Rightarrow> Some None | JStr s \<Rightarrow> Some (Some s) | _ \<Rightarrow> None)"

definition one_text :: "json \<Rightarrow> string option" where
  "one_text v = (case v of JStr s \<Rightarrow> Some s | _ \<Rightarrow> None)"

text \<open>\<^verbatim>\<open>d.get(k) or {}\<close> where a value with \<^verbatim>\<open>get\<close> is expected.\<close>

definition get_dict :: "string \<Rightarrow> jobj \<Rightarrow> jobj option" where
  "get_dict k d = (let v = jget k d in if \<not> truthy v then Some [] else case v of JObj e \<Rightarrow> Some e | _ \<Rightarrow> None)"

definition install_kinds :: "string list" where
  "install_kinds = [''brew'', ''node'', ''uv'', ''go'', ''download'']"

definition install_spec_of :: "string \<Rightarrow> jobj \<Rightarrow> install_spec option" where
  "install_spec_of kind d =
     (case (opt_text (jget ''formula'' d), opt_text (jget ''package'' d), opt_text (jget ''module'' d),
            opt_text (jget ''url'' d), text_list (jget_or (JList []) ''bins'' d),
            text_list (jget_or (JList []) ''os_filter'' d), opt_text (jget ''label'' d)) of
        (Some f, Some p, Some m, Some u, Some b, Some os, Some l) \<Rightarrow>
          Some \<lparr>is_kind = kind, is_formula = f, is_package = p, is_module = m, is_url = u, is_bins = b,
                is_os = os, is_label = l\<rparr>
      | _ \<Rightarrow> None)"

text \<open>Entries that are no dictionaries or of an unknown kind are passed over.\<close>

fun parse_install_specs :: "json list \<Rightarrow> install_spec list option" where
  "parse_install_specs [] = Some []"
| "parse_install_specs (JObj d # vs) =
     (case jget_or (JStr []) ''kind'' d of
        JStr kind \<Rightarrow>
          if kind \<in> set install_kinds
          then (case install_spec_of kind d of
                  None \<Rightarrow> None | Some s \<Rightarrow> map_option (Cons s) (parse_install_specs vs))
          else parse_install_specs vs
      | JList _ \<Rightarrow> None
      | JObj _ \<Rightarrow> None
      | _ \<Rightarrow> parse_install_specs vs)"
| "parse_install_specs (_ # vs) = parse_install_specs vs"

definition install_entries :: "jobj \<Rightarrow> json list option" where
  "install_entries d =
     (let v = jget ''install'' d
      in if \<not> truthy v then Some []
         else case v of
                JList xs \<Rightarrow> Some xs
              | JObj e \<Rightarrow> Some (map (JStr \<circ> fst) e)
              | JStr s \<Rightarrow> Some (map (\<lambda>c. JStr [c]) s)
              | _ \<Rightarrow> None)"

definition manifest_of :: "string \<Rightarrow> string \<Rightarrow> string \<Rightarrow> jobj \<Rightarrow> skill option" where
  "manifest_of file parent instr front =
     (let name = (if truthy (jget ''name'' front) then jget ''name'' front else JStr parent)
      in case Option.bind (get_dict ''metadata'' front) (get_dict ''openclaw'') of
           None \<Rightarrow> None
         | Some claw \<Rightarrow>
             (case (one_text name, one_text (jget_or (JStr []) ''description'' front), get_dict ''requires'' claw,
                    Option.bind (install_entries claw) parse_install_specs, opt_text (jget ''emoji'' claw),
                    one_text (jget_or (JStr ''active'') ''lifecycle'' front), opt_text (jget ''generated_at'' front),
                    opt_text (jget ''source_session'' front), text_list (jget_or (JList []) ''os'' claw)) of
                (Some n, Some desc, Some req, Some inst, Some emoji, Some cycle, Some gen, Some src, Some os) \<Rightarrow>
                  (case (text_list (jget_or (JList []) ''bins'' req), text_list (jget_or (JList []) ''anyBins'' req),
                         text_list (jget_or (JList []) ''env'' req)) of
                     (Some bins, Some anyb, Some envs) \<Rightarrow>
                       Some \<lparr>sk_name = n, sk_description = desc, sk_body = instr, sk_path = file, sk_bins = bins,
                             sk_any_bins = anyb, sk_env = envs, sk_os = os, sk_installs = inst,
                             sk_always = truthy (jget_or (JBool False) ''always'' claw), sk_emoji = emoji,
                             sk_disabled = truthy (jget_or (JBool False) ''disable-model-invocation'' front),
                             sk_auto = truthy (jget_or (JBool False) ''auto_generated'' front),
                             sk_lifecycle = cycle, sk_generated = gen, sk_source = src\<rparr>
                   | _ \<Rightarrow> None)
              | _ \<Rightarrow> None))"

text \<open>
  \<^verbatim>\<open>parse_skill_file\<close>: \<open>content\<close> is the text of the file or of the \<^verbatim>\<open>OSError\<close>, \<open>parent\<close> the name of
  its directory.
\<close>

definition parse_skill_file ::
    "(string \<Rightarrow> string + json) \<Rightarrow> string \<Rightarrow> string \<Rightarrow> string + string \<Rightarrow> skill_parse" where
  "parse_skill_file yaml file parent content =
     (case Sum_Type.case_sum Inl extract_frontmatter content of
        Inl err \<Rightarrow> SkillError err
      | Inr (front, instr) \<Rightarrow>
          (case yaml front of
             Inl err \<Rightarrow> SkillError (''Invalid YAML: '' @ err)
           | Inr (JObj d) \<Rightarrow> (case manifest_of file parent instr d of None \<Rightarrow> SkillCrash | Some s \<Rightarrow> SkillRead s)
           | Inr _ \<Rightarrow> SkillError ''Frontmatter is not a YAML mapping''))"

subsection \<open>Who may use a skill\<close>

record host =
  ho_platform :: string
  ho_which :: "string \<Rightarrow> bool"
  ho_getenv :: "string \<Rightarrow> string option"

definition check_os :: "host \<Rightarrow> string list \<Rightarrow> bool" where
  "check_os h xs = (xs = [] \<or> ho_platform h \<in> set xs)"

definition check_bins :: "host \<Rightarrow> string list \<Rightarrow> bool" where
  "check_bins h xs = list_all (ho_which h) xs"

definition check_any_bins :: "host \<Rightarrow> string list \<Rightarrow> bool" where
  "check_any_bins h xs = (xs = [] \<or> list_ex (ho_which h) xs)"

definition check_env :: "host \<Rightarrow> string list \<Rightarrow> bool" where
  "check_env h xs = list_all (\<lambda>e. opt_truthy (ho_getenv h e)) xs"

definition is_eligible :: "host \<Rightarrow> skill \<Rightarrow> bool" where
  "is_eligible h s =
     (if \<not> check_os h (sk_os s) then False
      else if sk_always s then True
      else check_bins h (sk_bins s) \<and> check_any_bins h (sk_any_bins s) \<and> check_env h (sk_env s))"

definition filter_eligible :: "host \<Rightarrow> skill list \<Rightarrow> skill list" where
  "filter_eligible h ss = filter (\<lambda>s. is_eligible h s \<and> \<not> sk_disabled s) ss"

datatype eligibility_issue = WrongOs | MissingBins | NoAnyBin | MissingEnv

definition eligibility_issues :: "host \<Rightarrow> skill \<Rightarrow> eligibility_issue list" where
  "eligibility_issues h s =
     (if check_os h (sk_os s) then [] else [WrongOs])
     @ (if check_bins h (sk_bins s) then [] else [MissingBins])
     @ (if check_any_bins h (sk_any_bins s) then [] else [NoAnyBin])
     @ (if check_env h (sk_env s) then [] else [MissingEnv])"

subsection \<open>Discovery\<close>

record skill_limits =
  sl_file_bytes :: nat
  sl_candidates :: nat
  sl_loaded :: nat
  sl_in_prompt :: nat
  sl_prompt_chars :: int

text \<open>
  What is found below a directory: whether \<^verbatim>\<open>SKILL.md\<close> is there, its size (if it can be read), whether its real
  path lies in the root, its real path and its content.
\<close>

record skill_file =
  sf_exists :: bool
  sf_size :: "nat option"
  sf_inside :: bool
  sf_path :: string
  sf_content :: "string + string"

definition is_valid_skill_dir :: "string \<Rightarrow> bool" where
  "is_valid_skill_dir n = (\<not> starts_with ''.'' n \<and> n \<noteq> ''node_modules'')"

definition loadable :: "skill_limits \<Rightarrow> skill_file \<Rightarrow> bool" where
  "loadable L f = (sf_exists f \<and> (case sf_size f of None \<Rightarrow> False | Some n \<Rightarrow> n \<le> sl_file_bytes L) \<and> sf_inside f)"

text \<open>The loop over the candidates; \<^const>\<open>None\<close> when an exception leaves it.\<close>

fun load_skills ::
    "skill_limits \<Rightarrow> (string \<Rightarrow> string + json) \<Rightarrow> (string \<Rightarrow> skill_file) \<Rightarrow> string list \<Rightarrow> skill list \<Rightarrow> skill list option" where
  "load_skills L yaml files [] acc = Some acc"
| "load_skills L yaml files (n # ns) acc =
     (if length acc \<ge> sl_loaded L then Some acc
      else if \<not> loadable L (files n) then load_skills L yaml files ns acc
      else case parse_skill_file yaml (sf_path (files n)) n (sf_content (files n)) of
             SkillRead s \<Rightarrow> load_skills L yaml files ns (acc @ [s])
           | SkillError _ \<Rightarrow> load_skills L yaml files ns acc
           | SkillCrash \<Rightarrow> None)"

text \<open>A directory: the names of its subdirectories, if it can be listed, and what is in them.\<close>

record skill_root =
  sr_dirs :: "string list option"
  sr_files :: "string \<Rightarrow> skill_file"

definition scan_directory :: "skill_limits \<Rightarrow> (string \<Rightarrow> string + json) \<Rightarrow> skill_root \<Rightarrow> skill list option" where
  "scan_directory L yaml rt =
     (case sr_dirs rt of
        None \<Rightarrow> Some []
      | Some ns \<Rightarrow> load_skills L yaml (sr_files rt) (take (sl_candidates L) (filter is_valid_skill_dir (sort ns))) [])"

fun merge_sources ::
    "skill_limits \<Rightarrow> (string \<Rightarrow> string + json) \<Rightarrow> skill_root list \<Rightarrow> (string \<times> skill) list \<Rightarrow> (string \<times> skill) list option" where
  "merge_sources L yaml [] acc = Some acc"
| "merge_sources L yaml (rt # roots) acc =
     (case scan_directory L yaml rt of
        None \<Rightarrow> None
      | Some ss \<Rightarrow> merge_sources L yaml roots (fold (\<lambda>s. AList.update (sk_name s) s) ss acc))"

text \<open>\<^verbatim>\<open>discover_skills\<close> over the directories that are there, from the weakest to the strongest.\<close>

definition discover_skills :: "skill_limits \<Rightarrow> (string \<Rightarrow> string + json) \<Rightarrow> skill_root list \<Rightarrow> skill list option" where
  "discover_skills L yaml roots =
     map_option (\<lambda>d. sort_key sk_name (map snd d)) (merge_sources L yaml roots [])"


subsection \<open>The skills in the prompt\<close>

definition full_preamble :: string where
  "full_preamble = nl @ nl @ ''The following skills provide specialized instructions for specific tasks.'' @ nl
     @ ''Use the read tool to load a skill's file when the task matches its description.'' @ nl
     @ ''When a skill file references a relative path, resolve it against the skill ''
     @ ''directory (parent of SKILL.md / dirname of the path) and use that absolute path in tool commands.''"

definition compact_preamble :: string where
  "compact_preamble = nl @ nl @ ''The following skills provide specialized instructions for specific tasks.'' @ nl
     @ ''Use the read tool to load a skill's file when the task matches its name.'' @ nl
     @ ''When a skill file references a relative path, resolve it against the skill ''
     @ ''directory (parent of SKILL.md / dirname of the path) and use that absolute path in tool commands.''"

definition index_preamble :: string where
  "index_preamble = nl @ nl @ ''The following skills provide specialized instructions for specific tasks.'' @ nl
     @ ''If a task matches a skill below, use the `skill_view` tool to load its full instructions.''"

definition OVERHEAD_RESERVE :: int where "OVERHEAD_RESERVE = 150"

definition skill_lines :: "(string \<times> string) list \<Rightarrow> string" where
  "skill_lines fds =
     py_join nl ([''  <skill>'']
       @ map (\<lambda>(tag, v). ''    <'' @ tag @ ''>'' @ xml_escape v @ ''</'' @ tag @ ''>'') fds
       @ [''  </skill>''])"

definition render_skill_full :: "skill \<Rightarrow> string" where
  "render_skill_full s =
     skill_lines [(''name'', sk_name s), (''description'', sk_description s), (''location'', sk_path s)]"

definition render_skill_compact :: "skill \<Rightarrow> string" where
  "render_skill_compact s = skill_lines [(''name'', sk_name s), (''location'', sk_path s)]"

definition render_skill_index :: "skill \<Rightarrow> string" where
  "render_skill_index s = skill_lines [(''name'', sk_name s), (''description'', sk_description s)]"

definition format_skills :: "string \<Rightarrow> (skill \<Rightarrow> string) \<Rightarrow> skill list \<Rightarrow> string" where
  "format_skills preamble render ss =
     (if ss = [] then []
      else py_join nl ([preamble, [], ''<available_skills>''] @ map render ss @ [''</available_skills>'']))"

definition format_skills_full :: "skill list \<Rightarrow> string" where
  "format_skills_full = format_skills full_preamble render_skill_full"

definition format_skills_compact :: "skill list \<Rightarrow> string" where
  "format_skills_compact = format_skills compact_preamble render_skill_compact"

definition format_skills_index :: "skill list \<Rightarrow> string" where
  "format_skills_index = format_skills index_preamble render_skill_index"

definition compact_home_path :: "string \<Rightarrow> string \<Rightarrow> string" where
  "compact_home_path home file =
     (if starts_with (home @ ''/'') file then ''~/'' @ drop (length home + 1) file else file)"

text \<open>The binary search of \<^verbatim>\<open>build_skills_prompt\<close>; \<open>fits\<close> is the test of a number of skills.\<close>

function fit_search :: "(nat \<Rightarrow> bool) \<Rightarrow> nat \<Rightarrow> nat \<Rightarrow> nat \<Rightarrow> nat" where
  "fit_search fits lo hi best =
     (if hi < lo then best
      else let mid = (lo + hi + 1) div 2
           in if mid = 0 then fit_search fits (mid + 1) hi best
              else if fits mid then fit_search fits (mid + 1) hi mid
              else fit_search fits lo (mid - 1) best)"
  by pat_completeness auto
termination
  by (relation "measure (\<lambda>(fits, lo, hi, best). Suc hi - lo)") auto

declare fit_search.simps [simp del]

text \<open>The warning sign of the text has two code points; it is shown as two exclamation marks.\<close>

definition skills_warning :: "bool \<Rightarrow> bool \<Rightarrow> nat \<Rightarrow> nat \<Rightarrow> string" where
  "skills_warning truncated small included n =
     (if truncated \<and> small
      then ''!! Skills truncated: included '' @ show_nat included @ '' of '' @ show_nat n
           @ '' (compact format, descriptions omitted).''
      else if small then ''!! Skills catalog using compact format (descriptions omitted).''
      else [])"

definition build_skills_prompt :: "string \<Rightarrow> skill_limits \<Rightarrow> skill list \<Rightarrow> string" where
  "build_skills_prompt home L skills =
     (if skills = [] then []
      else
        let all_skills = map (\<lambda>s. s\<lparr>sk_path := compact_home_path home (sk_path s)\<rparr>) (sort_key sk_name skills);
            ss = take (sl_in_prompt L) all_skills;
            cut = length all_skills > sl_in_prompt L;
            full = format_skills_full ss;
            budget = sl_prompt_chars L - OVERHEAD_RESERVE;
            fits = (\<lambda>n. int (length (format_skills_compact (take n ss))) \<le> budget);
            (rendered, truncated, small) =
              (if int (length full) \<le> sl_prompt_chars L then (full, cut, False)
               else if fits (length ss) then (format_skills_compact ss, cut, True)
               else (format_skills_compact (take (fit_search fits 0 (length ss) 0) ss), True, True));
            warning = skills_warning truncated small (count_parts ''<skill>'' rendered) (length all_skills)
        in if warning \<noteq> [] \<and> rendered \<noteq> [] then warning @ nl @ rendered
           else if warning \<noteq> [] then warning else rendered)"

subsection \<open>The provider\<close>

text \<open>
  The provider is one object for all sessions; its cache has the skills it listed last.  When
  discovery raises, nothing is listed and the cache stays.
\<close>

type_synonym skill_cache = "(string \<times> skill) list"

definition resolve_skills_prompt ::
    "string \<Rightarrow> skill_limits \<Rightarrow> bool \<Rightarrow> host \<Rightarrow> (string \<Rightarrow> string + json) \<Rightarrow> skill_root list \<Rightarrow> skill_cache
       \<Rightarrow> string option \<times> skill_cache" where
  "resolve_skills_prompt home L progressive h yaml roots cache =
     (case discover_skills L yaml roots of
        None \<Rightarrow> (None, cache)
      | Some ss \<Rightarrow>
          let es = filter_eligible h ss
          in (if es = [] then None
              else Some (if progressive then format_skills_index es else build_skills_prompt home L es),
              fold (\<lambda>s. AList.update (sk_name s) s) es []))"

text \<open>\<^verbatim>\<open>SkillViewTool\<close>.\<close>

definition skill_view :: "jobj \<Rightarrow> skill_cache \<Rightarrow> tool_result" where
  "skill_view args cache =
     (let cid = as_str (jget_or (JStr []) ''_call_id'' args);
          name = as_str (jget_or (JStr []) ''name'' args)
      in case map_of cache name of
           None \<Rightarrow> error_result cid (''Skill '' @ [CHR 0x27] @ name @ [CHR 0x27] @ '' not found.'')
         | Some s \<Rightarrow> if sk_body s = [] then error_result cid (''Skill '' @ [CHR 0x27] @ name @ [CHR 0x27] @ '' not found.'')
                     else text_result cid (sk_body s))"

subsection \<open>Installing an archive\<close>

text \<open>
  An archive is the list of its entries with their sizes and contents.  Writing never fails here.
\<close>

record zip_entry =
  ze_name :: string
  ze_size :: nat
  ze_data :: string

record zip_limits =
  zl_archive :: nat
  zl_extracted :: nat
  zl_entries :: nat

definition validate_zip_entry :: "'f fs \<Rightarrow> path \<Rightarrow> string \<Rightarrow> 'f \<Rightarrow> bool" where
  "validate_zip_entry F target name f =
     (if ''..'' \<in> set (path_of name) then False
      else starts_with (fs_real F target f) (fs_real F (path_join target name) f))"

definition ends_with_slash :: "string \<Rightarrow> bool" where
  "ends_with_slash s = (s \<noteq> [] \<and> last s = CHR ''/'')"

text \<open>
  The loop of \<^verbatim>\<open>_extract_zip\<close>: the result, the files that were written, in their order, and the
  state of the file system.
\<close>

fun extract_entries ::
    "'f fs \<Rightarrow> zip_limits \<Rightarrow> path \<Rightarrow> nat \<Rightarrow> zip_entry list \<Rightarrow> 'f
       \<Rightarrow> (string + unit) \<times> (path \<times> string) list \<times> 'f" where
  "extract_entries F Z target used [] f = (Inr (), [], f)"
| "extract_entries F Z target used (e # es) f =
     (if \<not> validate_zip_entry F target (ze_name e) f
      then (Inl (''Zip-slip detected for entry: '' @ ze_name e), [], f)
      else if used + ze_size e > zl_extracted Z
      then (Inl (''Extracted size exceeds limit '' @ show_nat (zl_extracted Z)), [], f)
      else if ends_with_slash (ze_name e) then extract_entries F Z target (used + ze_size e) es f
      else
        let p = path_join target (ze_name e);
            (r, ws, f') = extract_entries F Z target (used + ze_size e) es (snd (fs_put F p (ze_data e) f))
        in (r, (p, ze_data e) # ws, f'))"

definition extract_zip ::
    "'f fs \<Rightarrow> zip_limits \<Rightarrow> path \<Rightarrow> nat \<Rightarrow> zip_entry list \<Rightarrow> 'f \<Rightarrow> (string + unit) \<times> (path \<times> string) list \<times> 'f" where
  "extract_zip F Z target zip_size es f =
     (if zip_size > zl_archive Z
      then (Inl (''Archive size '' @ show_nat zip_size @ '' exceeds limit '' @ show_nat (zl_archive Z)), [], f)
      else if length es > zl_entries Z
      then (Inl (''Too many entries ('' @ show_nat (length es) @ ''), limit is '' @ show_nat (zl_entries Z)), [], f)
      else extract_entries F Z target 0 es f)"

definition verify_integrity :: "string \<Rightarrow> string option \<Rightarrow> bool" where
  "verify_integrity actual expected =
     (case expected of None \<Rightarrow> True | Some h \<Rightarrow> py_lower actual = py_lower h)"

text \<open>
  The directory of an archive that is the skill: the subdirectories come with whether they have the file.
\<close>

definition resolve_root :: "bool \<Rightarrow> bool \<Rightarrow> (string \<times> bool) list \<Rightarrow> (string + string option)" where
  "resolve_root in_package on_top subdirs =
     (if in_package then Inr (Some ''package'')
      else if on_top then Inr None
      else case filter snd subdirs of [d] \<Rightarrow> Inr (Some (fst d)) | _ \<Rightarrow> Inl ''No SKILL.md found in archive'')"

text \<open>\<^verbatim>\<open>dest = install_dir / slug\<close>; what is there is removed before the skill is copied.\<close>

definition install_dest :: "path \<Rightarrow> string \<Rightarrow> path" where
  "install_dest install_dir slug = path_join install_dir slug"


subsection \<open>Discovery\<close>

text \<open>What is loaded of a directory without crashes, for the proofs: the manifests in their order.\<close>

definition read_ok :: "skill_limits \<Rightarrow> (string \<Rightarrow> string + json) \<Rightarrow> (string \<Rightarrow> skill_file) \<Rightarrow> string \<Rightarrow> skill option" where
  "read_ok L yaml files n =
     (if loadable L (files n)
      then (case parse_skill_file yaml (sf_path (files n)) n (sf_content (files n)) of
              SkillRead s \<Rightarrow> Some s | _ \<Rightarrow> None)
      else None)"

lemma load_skills_prefix:
  "load_skills L yaml files ns acc = Some ss \<Longrightarrow> length acc \<le> sl_loaded L \<Longrightarrow>
     ss = acc @ take (sl_loaded L - length acc) (List.map_filter (read_ok L yaml files) ns)"
proof (induction ns arbitrary: acc)
  case (Cons n ns)
  have mf: "List.map_filter (read_ok L yaml files) (n # ns)
      = (case read_ok L yaml files n of None \<Rightarrow> [] | Some s \<Rightarrow> [s]) @ List.map_filter (read_ok L yaml files) ns"
    by (simp add: List.map_filter_simps split: option.split)
  show ?case
  proof (cases "length acc \<ge> sl_loaded L")
    case False
    show ?thesis
    proof (cases "read_ok L yaml files n")
      case None
      then have "load_skills L yaml files ns acc = Some ss"
        using Cons.prems False by (auto simp: read_ok_def split: if_splits skill_parse.splits)
      with Cons.IH Cons.prems(2) show ?thesis by (simp add: mf None)
    next
      case (Some s)
      then have l: "load_skills L yaml files ns (acc @ [s]) = Some ss"
        using Cons.prems False by (auto simp: read_ok_def split: if_splits skill_parse.splits)
      have n: "length (acc @ [s]) \<le> sl_loaded L" "sl_loaded L - length acc = Suc (sl_loaded L - length (acc @ [s]))"
        using False by auto
      from Cons.IH [OF l n(1)] show ?thesis by (simp add: mf Some n(2) del: length_append)
    qed
  qed (use Cons.prems in \<open>simp add: List.map_filter_simps\<close>)
qed (simp add: List.map_filter_simps)

lemma map_of_fold_update:
  "map_of (fold (\<lambda>s. AList.update (sk_name s) s) ss d) n
     = (case find (\<lambda>s. sk_name s = n) (rev ss) of None \<Rightarrow> map_of d n | Some s \<Rightarrow> Some s)"
  by (induction ss rule: rev_induct) auto

lemma distinct_fold_update:
  "distinct (map fst d) \<Longrightarrow> distinct (map fst (fold (\<lambda>s. AList.update (sk_name s) s) ss d))"
  by (induction ss arbitrary: d) (simp_all add: distinct_dict_update)

lemma keys_fold_update:
  "\<forall>(n, s) \<in> set d. sk_name s = n \<Longrightarrow>
   \<forall>(n, s) \<in> set (fold (\<lambda>s. AList.update (sk_name s) s) ss d). sk_name s = n"
proof (induction ss arbitrary: d)
  case (Cons s ss)
  have "\<forall>(n, x) \<in> set (AList.update (sk_name s) s d). sk_name x = n"
    using set_dict_update_subset [of "sk_name s" s d] Cons.prems by auto
  from Cons.IH [OF this] show ?case by simp
qed simp

lemma find_append: "find P (xs @ ys) = (case find P xs of None \<Rightarrow> find P ys | Some x \<Rightarrow> Some x)"
  by (induction xs) auto

lemma merge_sources_spec:
  "merge_sources L yaml roots acc = Some d \<Longrightarrow>
     distinct (map fst acc) \<Longrightarrow> \<forall>(n, s) \<in> set acc. sk_name s = n \<Longrightarrow>
     distinct (map fst d) \<and> (\<forall>(n, s) \<in> set d. sk_name s = n)
     \<and> (\<forall>n. map_of d n = (case find (\<lambda>s. sk_name s = n) (rev (concat (map (\<lambda>r. the (scan_directory L yaml r)) roots)))
          of None \<Rightarrow> map_of acc n | Some s \<Rightarrow> Some s))"
proof (induction roots arbitrary: acc)
  case (Cons r roots)
  obtain ss where ss: "scan_directory L yaml r = Some ss"
    "merge_sources L yaml roots (fold (\<lambda>s. AList.update (sk_name s) s) ss acc) = Some d"
    using Cons.prems(1) by (auto split: option.splits)
  note ih = Cons.IH [OF ss(2) distinct_fold_update [OF Cons.prems(2)] keys_fold_update [OF Cons.prems(3)]]
  then show ?case by (auto simp: ss(1) find_append map_of_fold_update split: option.split)
qed simp

text \<open>
  What discovery answers: the names are sorted and all different, and each stands
  for the last skill of that name, in the order of the sources from the bundled skills to those of the
  workspace.
\<close>

theorem discovery_prefers_the_workspace:
  assumes "discover_skills L yaml roots = Some ss"
  shows "sorted (map sk_name ss) \<and> distinct (map sk_name ss)
    \<and> (\<forall>n. find (\<lambda>s. sk_name s = n) ss
         = find (\<lambda>s. sk_name s = n) (rev (concat (map (\<lambda>r. the (scan_directory L yaml r)) roots))))"
proof -
  obtain d where d: "merge_sources L yaml roots [] = Some d" "ss = sort_key sk_name (map snd d)"
    using assms by (auto simp: discover_skills_def)
  from merge_sources_spec [OF d(1)] have dist: "distinct (map fst d)" and keys: "\<forall>(n, s) \<in> set d. sk_name s = n"
    and of: "map_of d n = find (\<lambda>s. sk_name s = n) (rev (concat (map (\<lambda>r. the (scan_directory L yaml r)) roots)))" for n
    by (auto split: option.splits)
  have names: "map sk_name (map snd d) = map fst d" using keys by (auto intro: map_cong)
  have m: "mset (map sk_name ss) = mset (map fst d)"
    by (simp only: d(2) mset_map mset_sort names [symmetric])
  then have "distinct (map sk_name ss)" using dist by (metis mset_eq_imp_distinct_iff)
  moreover have "find (\<lambda>s. sk_name s = n) ss = map_of d n" for n
  proof (cases "map_of d n")
    case None
    then have "n \<notin> sk_name ` set ss" using m by (metis list.set_map map_of_eq_None_iff set_mset_mset)
    then show ?thesis unfolding None find_None_iff by blast
  next
    case (Some s)
    then have "(n, s) \<in> set d" by (rule map_of_SomeD)
    then have s: "s \<in> set ss" "sk_name s = n" using keys d(2) by force+
    obtain x where x: "find (\<lambda>s. sk_name s = n) ss = Some x"
      using s by (cases "find (\<lambda>s. sk_name s = n) ss") (auto simp: find_None_iff)
    then have "x \<in> set ss" "sk_name x = n" by (auto simp: find_Some_iff)
    then have "x = s" using s \<open>distinct (map sk_name ss)\<close> by (auto simp: distinct_map dest: inj_onD)
    with x Some show ?thesis by simp
  qed
  moreover have "sorted (map sk_name ss)" by (simp add: d(2))
  ultimately show ?thesis by (simp add: of)
qed

subsection \<open>The binary search for the prompt\<close>

lemma fit_search_spec:
  assumes "\<And>m n. fits n \<Longrightarrow> m \<le> n \<Longrightarrow> fits m"
  shows "best \<le> N \<Longrightarrow> lo \<le> Suc hi \<Longrightarrow> hi \<le> N \<Longrightarrow> (lo = 0 \<and> best = 0 \<or> lo = Suc best) \<Longrightarrow> (best = 0 \<or> fits best) \<Longrightarrow>
    (\<forall>k. hi < k \<and> k \<le> N \<longrightarrow> \<not> fits k) \<Longrightarrow>
    fit_search fits lo hi best \<le> N
    \<and> (fit_search fits lo hi best = 0 \<or> fits (fit_search fits lo hi best))
    \<and> (\<forall>k. fit_search fits lo hi best < k \<and> k \<le> N \<longrightarrow> \<not> fits k)"
proof (induction "Suc hi - lo" arbitrary: lo hi best rule: less_induct)
  case less
  show ?case
  proof (cases "hi < lo")
    case True
    then have r: "fit_search fits lo hi best = best" by (subst fit_search.simps) simp
    show ?thesis unfolding r using less.prems True by auto
  next
    case False
    let ?mid = "(lo + hi + 1) div 2"
    have mid: "lo \<le> ?mid" "?mid \<le> hi \<or> ?mid = 0" using False by auto
    show ?thesis
    proof (cases "?mid = 0")
      case True
      then have "lo = 0" "hi = 0" by auto
      with less.hyps [of hi 1 best] less.prems True show ?thesis by (subst (1 2 3) fit_search.simps) (simp add: Let_def)
    next
      case nz: False
      show ?thesis
      proof (cases "fits ?mid")
        case True
        have f: "fit_search fits (?mid + 1) hi ?mid \<le> N
          \<and> (fit_search fits (?mid + 1) hi ?mid = 0 \<or> fits (fit_search fits (?mid + 1) hi ?mid))
          \<and> (\<forall>k. fit_search fits (?mid + 1) hi ?mid < k \<and> k \<le> N \<longrightarrow> \<not> fits k)"
          by (rule less.hyps) (use less.prems mid nz True in auto)
        have e: "fit_search fits lo hi best = fit_search fits (?mid + 1) hi ?mid"
          using False nz True by (subst fit_search.simps) (simp add: Let_def)
        show ?thesis unfolding e by (rule f)
      next
        case no: False
        have above: "\<not> fits k" if "?mid - 1 < k" for k
          using no assms [of k ?mid] that by (metis One_nat_def Suc_pred bot_nat_0.not_eq_extremum less_Suc_eq_le not_less nz)
        have f: "fit_search fits lo (?mid - 1) best \<le> N
          \<and> (fit_search fits lo (?mid - 1) best = 0 \<or> fits (fit_search fits lo (?mid - 1) best))
          \<and> (\<forall>k. fit_search fits lo (?mid - 1) best < k \<and> k \<le> N \<longrightarrow> \<not> fits k)"
          by (rule less.hyps) (use less.prems mid nz no above in auto)
        have e: "fit_search fits lo hi best = fit_search fits lo (?mid - 1) best"
          using False nz no by (subst fit_search.simps) (simp add: Let_def)
        show ?thesis unfolding e by (rule f)
      qed
    qed
  qed
qed

lemma length_py_join_append:
  "xs \<noteq> [] \<Longrightarrow> ys \<noteq> [] \<Longrightarrow> length (py_join sep (xs @ ys)) = length (py_join sep xs) + length sep + length (py_join sep ys)"
proof (induction xs)
  case (Cons x xs)
  then show ?case by (cases xs; cases ys) auto
qed simp

lemma format_skills_mono:
  assumes "m \<le> n"
  shows "length (format_skills p r (take m ss)) \<le> length (format_skills p r (take n ss))"
proof -
  let ?P = "[p, [], ''<available_skills>'']" and ?c = "''</available_skills>''"
  define A C where "A = length (py_join nl ?P) + length nl" and "C = length nl + length (py_join nl [?c])"
  have len: "length (format_skills p r xs) = A + (length (py_join nl (map r xs)) + C)" if "xs \<noteq> []" for xs
  proof -
    have e1: "format_skills p r xs = py_join nl (?P @ (map r xs @ [?c]))" using that by (simp add: format_skills_def)
    have e2: "length (py_join nl (?P @ (map r xs @ [?c])))
        = length (py_join nl ?P) + length nl + length (py_join nl (map r xs @ [?c]))"
      by (rule length_py_join_append) simp_all
    have e3: "length (py_join nl (map r xs @ [?c]))
        = length (py_join nl (map r xs)) + length nl + length (py_join nl [?c])"
      by (rule length_py_join_append) (use that in simp_all)
    show ?thesis unfolding e1 e2 e3 A_def C_def by (simp only: add.assoc)
  qed
  have grow: "length (py_join nl (map r xs)) \<le> length (py_join nl (map r (xs @ ys)))" for xs ys
    by (cases "xs = []"; cases "ys = []") (simp_all add: length_py_join_append)
  obtain ys where t: "take n ss = take m ss @ ys" by (metis assms le_Suc_ex take_add)
  show ?thesis
  proof (cases "take m ss = []")
    case True
    then show ?thesis by (simp add: format_skills_def)
  next
    case False
    then have "take m ss @ ys \<noteq> []" by simp
    from len [OF False] len [OF this] grow [of "take m ss" ys] show ?thesis unfolding t by linarith
  qed
qed

text \<open>
  When the skills do not fit the prompt even without their descriptions, the binary
  search finds what a search through all numbers would: the greatest number of skills, taken from the
  beginning, whose list fits, and none if not even one fits.
\<close>

theorem prompt_lists_as_many_as_fit:
  "fit_search (\<lambda>n. int (length (format_skills_compact (take n ss))) \<le> budget) 0 (length ss) 0
     = last (filter (\<lambda>n. n = 0 \<or> int (length (format_skills_compact (take n ss))) \<le> budget) [0..<Suc (length ss)])"
proof -
  let ?fits = "\<lambda>n. int (length (format_skills_compact (take n ss))) \<le> budget"
  let ?r = "fit_search ?fits 0 (length ss) 0"
  have anti: "?fits m" if "?fits n" "m \<le> n" for m n
  proof -
    have "length (format_skills_compact (take m ss)) \<le> length (format_skills_compact (take n ss))"
      using format_skills_mono [OF that(2)] by (simp add: format_skills_compact_def)
    with that(1) show ?thesis by linarith
  qed
  have r: "?r \<le> length ss" "?r = 0 \<or> ?fits ?r" "\<forall>k. ?r < k \<and> k \<le> length ss \<longrightarrow> \<not> ?fits k"
  proof -
    have "?r \<le> length ss \<and> (?r = 0 \<or> ?fits ?r) \<and> (\<forall>k. ?r < k \<and> k \<le> length ss \<longrightarrow> \<not> ?fits k)"
      by (rule fit_search_spec [OF anti]) auto
    then show "?r \<le> length ss" "?r = 0 \<or> ?fits ?r" "\<forall>k. ?r < k \<and> k \<le> length ss \<longrightarrow> \<not> ?fits k"
      by blast+
  qed
  have "[0..<Suc (length ss)] = [0..<?r] @ ?r # [Suc ?r..<Suc (length ss)]"
  proof -
    have "[0..<Suc (length ss)] = [0..<?r] @ [?r..<Suc (length ss)]"
      using upt_add_eq_append [of 0 ?r "Suc (length ss) - ?r"] r(1) by simp
    moreover have "[?r..<Suc (length ss)] = ?r # [Suc ?r..<Suc (length ss)]"
      using r(1) by (simp only: upt_conv_Cons less_Suc_eq_le)
    ultimately show ?thesis by simp
  qed
  moreover have "filter (\<lambda>n. n = 0 \<or> ?fits n) [Suc ?r..<Suc (length ss)] = []"
    unfolding filter_empty_conv using r(3) by (simp del: upt_Suc)
  ultimately show ?thesis using r(2) by simp
qed

subsection \<open>Eligibility, the cache and broken skills\<close>

text \<open>The report on a skill agrees with its use, except for skills that are always on.\<close>

lemma issues_iff_eligible: "\<not> sk_always s \<Longrightarrow> (eligibility_issues h s = []) = is_eligible h s"
  by (simp add: eligibility_issues_def is_eligible_def)

lemma always_skill_reported_missing:
  "sk_always s \<Longrightarrow> check_os h (sk_os s) \<Longrightarrow> \<not> check_bins h (sk_bins s) \<Longrightarrow>
     is_eligible h s \<and> MissingBins \<in> set (eligibility_issues h s)"
  by (simp add: eligibility_issues_def is_eligible_def)

text \<open>
  The cache is that of the last workspace: what was listed for another one cannot be viewed any
  more unless it is there as well, and then it is the skill of the other workspace that is shown.
\<close>

lemma cache_is_of_last_workspace:
  "discover_skills L yaml roots = Some ss \<Longrightarrow>
   map_of (snd (resolve_skills_prompt home L pd h yaml roots cache)) n
     = find (\<lambda>s. sk_name s = n) (rev (filter_eligible h ss))"
  by (auto simp: resolve_skills_prompt_def Let_def map_of_fold_update split: option.split)

lemma load_skills_crash:
  assumes "\<forall>m \<in> set ns. loadable L (files m) \<longrightarrow> parse_skill_file yaml (sf_path (files m)) m (sf_content (files m)) \<noteq> SkillCrash"
    and "loadable L (files n)" "parse_skill_file yaml (sf_path (files n)) n (sf_content (files n)) = SkillCrash"
  shows "length acc + length ns < sl_loaded L \<Longrightarrow> load_skills L yaml files (ns @ n # ms) acc = None"
  using assms(1)
proof (induction ns arbitrary: acc)
  case Nil
  then show ?case using assms(2,3) by simp
next
  case (Cons m ns)
  then show ?case by (auto split: skill_parse.split)
qed

text \<open>
  One skill whose frontmatter has a value of the wrong type, found among the
  candidates of any directory before the limit is reached, takes all skills away: nothing is discovered,
  nothing is listed in the prompt and the cache stays as it was.
\<close>

theorem one_bad_skill_hides_all:
  assumes "roots = pre @ rt # post" "\<forall>r \<in> set pre. scan_directory L yaml r \<noteq> None"
    and "sr_dirs rt = Some ds" "take (sl_candidates L) (filter is_valid_skill_dir (sort ds)) = ns @ n # ms"
    and "\<forall>m \<in> set ns. loadable L (sr_files rt m) \<longrightarrow>
           parse_skill_file yaml (sf_path (sr_files rt m)) m (sf_content (sr_files rt m)) \<noteq> SkillCrash"
    and "loadable L (sr_files rt n)" "length ns < sl_loaded L"
    and "parse_skill_file yaml (sf_path (sr_files rt n)) n (sf_content (sr_files rt n)) = SkillCrash"
  shows "discover_skills L yaml roots = None
    \<and> resolve_skills_prompt home L pd h yaml roots cache = (None, cache)"
proof -
  have s: "scan_directory L yaml rt = None"
    using load_skills_crash [OF assms(5,6,8), of "[]" ms] assms(7) by (simp add: scan_directory_def assms(3,4))
  have "merge_sources L yaml (pre @ rt # post) acc = None" for acc
    using assms(2) by (induction pre arbitrary: acc) (auto simp: s split: option.split)
  then show ?thesis by (simp add: discover_skills_def resolve_skills_prompt_def assms(1))
qed

definition demo_limits :: skill_limits where
  "demo_limits = \<lparr>sl_file_bytes = 1000, sl_candidates = 300, sl_loaded = 200, sl_in_prompt = 150, sl_prompt_chars = 18000\<rparr>"

definition demo_yaml :: "string \<Rightarrow> string + json" where
  "demo_yaml s = Inr (JObj [(''name'', if s = ''name: 7'' then JInt 7 else JStr s)])"

definition demo_skill_file :: "string \<Rightarrow> skill_file" where
  "demo_skill_file front = \<lparr>sf_exists = True, sf_size = Some 10, sf_inside = True, sf_path = ''p'',
     sf_content = Inr (''---'' @ nl @ front @ nl @ ''---'' @ nl @ ''do it'')\<rparr>"

definition demo_root :: skill_root where
  "demo_root = \<lparr>sr_dirs = Some [''a'', ''b''], sr_files = (\<lambda>n. demo_skill_file (if n = ''b'' then ''name: 7'' else ''good''))\<rparr>"

theorem one_bad_skill_hides_all_witness:
  "map_option (map sk_name) (scan_directory demo_limits demo_yaml (demo_root\<lparr>sr_dirs := Some [''a'']\<rparr>)) = Some [''good'']
   \<and> discover_skills demo_limits demo_yaml [demo_root\<lparr>sr_dirs := Some [''a'']\<rparr>, demo_root] = None"
proof
  show good: "map_option (map sk_name) (scan_directory demo_limits demo_yaml (demo_root\<lparr>sr_dirs := Some [''a'']\<rparr>)) = Some [''good'']"
    by code_simp
  have "\<forall>r \<in> set [demo_root\<lparr>sr_dirs := Some [''a'']\<rparr>]. scan_directory demo_limits demo_yaml r \<noteq> None"
    using good by auto
  moreover have "take (sl_candidates demo_limits) (filter is_valid_skill_dir (sort [''a'', ''b''])) = [''a''] @ ''b'' # []"
    by code_simp
  moreover have "parse_skill_file demo_yaml (sf_path (sr_files demo_root ''a'')) ''a'' (sf_content (sr_files demo_root ''a'')) \<noteq> SkillCrash"
    "parse_skill_file demo_yaml (sf_path (sr_files demo_root ''b'')) ''b'' (sf_content (sr_files demo_root ''b'')) = SkillCrash"
    "loadable demo_limits (sr_files demo_root ''b'')"
    by code_simp+
  moreover have "sr_dirs demo_root = Some [''a'', ''b'']" "length [''a''] < sl_loaded demo_limits"
    by (simp_all add: demo_root_def demo_limits_def)
  ultimately show "discover_skills demo_limits demo_yaml [demo_root\<lparr>sr_dirs := Some [''a'']\<rparr>, demo_root] = None"
    using one_bad_skill_hides_all [of _ "[demo_root\<lparr>sr_dirs := Some [''a'']\<rparr>]" demo_root "[]" demo_limits demo_yaml
        "[''a'', ''b'']" "[''a'']" "''b''" "[]"] by simp
qed

definition demo_roots :: "skill_root list" where
  "demo_roots =
     [\<lparr>sr_dirs = Some [''a''], sr_files = (\<lambda>_. (demo_skill_file ''x'')\<lparr>sf_path := ''managed''\<rparr>)\<rparr>,
      \<lparr>sr_dirs = Some [''b''], sr_files = (\<lambda>_. (demo_skill_file ''x'')\<lparr>sf_path := ''workspace''\<rparr>)\<rparr>]"

theorem discovery_prefers_the_workspace_witness:
  "\<exists>ss. discover_skills demo_limits demo_yaml demo_roots = Some ss \<and> distinct (map sk_name ss)
     \<and> map sk_path ss = [''workspace'']"
proof -
  have "map_option (map sk_path) (discover_skills demo_limits demo_yaml demo_roots) = Some [''workspace'']"
    by code_simp
  then obtain ss where ss: "discover_skills demo_limits demo_yaml demo_roots = Some ss" "map sk_path ss = [''workspace'']"
    by auto
  with discovery_prefers_the_workspace [OF ss(1)] show ?thesis by (intro exI [of _ ss] conjI) simp_all
qed

subsection \<open>Archives\<close>

lemma extract_entries_spec:
  "extract_entries F Z target used es f = (r, ws, f') \<Longrightarrow> used \<le> zl_extracted Z \<Longrightarrow>
     (\<forall>(p, data) \<in> set ws. \<exists>e \<in> set es. \<exists>f0. p = path_join target (ze_name e) \<and> data = ze_data e
        \<and> ''..'' \<notin> set (path_of (ze_name e)) \<and> starts_with (fs_real F target f0) (fs_real F p f0))
     \<and> length ws \<le> length es
     \<and> (r = Inr () \<longrightarrow> used + sum_list (map ze_size es) \<le> zl_extracted Z)"
proof (induction es arbitrary: used f r ws f')
  case (Cons e es)
  show ?case
  proof (cases "\<not> validate_zip_entry F target (ze_name e) f \<or> used + ze_size e > zl_extracted Z")
    case True
    with Cons.prems show ?thesis by (auto split: if_splits)
  next
    case ok: False
    show ?thesis
    proof (cases "ends_with_slash (ze_name e)")
      case True
      with ok Cons.prems(1) have "extract_entries F Z target (used + ze_size e) es f = (r, ws, f')" by simp
      from Cons.IH [OF this] ok show ?thesis by (fastforce simp: add.assoc)
    next
      case False
      obtain ws1 where w: "extract_entries F Z target (used + ze_size e) es
            (snd (fs_put F (path_join target (ze_name e)) (ze_data e) f)) = (r, ws1, f')"
          "ws = (path_join target (ze_name e), ze_data e) # ws1"
        using ok False Cons.prems(1) by (auto simp: Let_def split: prod.splits)
      have "''..'' \<notin> set (path_of (ze_name e))"
        "starts_with (fs_real F target f) (fs_real F (path_join target (ze_name e)) f)"
        using ok by (auto simp: validate_zip_entry_def split: if_splits)
      with Cons.IH [OF w(1)] ok show ?thesis unfolding w(2) by (fastforce simp: add.assoc)
    qed
  qed
qed simp


text \<open>The name of a skill is not checked before the directory it leads to is removed.\<close>

lemma install_may_leave_its_directory:
  "lexical_resolve (install_dest (path_of ''/home/ann/.openclaw/skills'') ''..'') = path_of ''/home/ann/.openclaw''
   \<and> install_dest (path_of ''/home/ann/.openclaw/skills'') ''/home/ann'' = path_of ''/home/ann''"
  by code_simp

definition demo_zip :: "zip_entry list" where
  "demo_zip = [\<lparr>ze_name = ''SKILL.md'', ze_size = 2, ze_data = ''hi''\<rparr>, \<lparr>ze_name = ''../x'', ze_size = 1, ze_data = ''!''\<rparr>]"


end
