(* ===== verification/Curator.thy ===== *)
theory Curator
  imports SopStore Skills Mutex
begin

section \<open>The curator: archiving, graduating and reviewing SOPs\<close>

text \<open>
  Models \<^verbatim>\<open>core/skill_graduation.py\<close>, \<^verbatim>\<open>core/curator.py\<close>, \<^verbatim>\<open>core/curator_state.py\<close> and
  \<^verbatim>\<open>core/curator_cycle.py\<close>: the text of a graduated skill, the scan of the databases, the review by
  a model, the cycle under its lock and the marks it leaves in Redis.  Parameters are the file
  system, the reading of skill directories, JSON and YAML, the model, and the readings of the clock
  and of the lock (the \<open>n\<close>-th call of \<^verbatim>\<open>check_alive\<close> returns when \<open>alive n\<close>).  The scans of the
  databases, which run concurrently on files of their own, are executed in the order of the files.
  The enrichment of a skill by a model is not called by any code and is not modelled.
\<close>

subsection \<open>Graduating one SOP\<close>

definition name_char :: "char \<Rightarrow> bool" where
  "name_char c = (let n = (of_char c :: nat) in 97 \<le> n \<and> n \<le> 122 \<or> 48 \<le> n \<and> n \<le> 57)"

definition skill_name_ok :: "string \<Rightarrow> bool" where
  "skill_name_ok n =
     (case n of
        [] \<Rightarrow> False
      | c # cs \<Rightarrow> name_char c \<and> list_all (\<lambda>x. name_char x \<or> x = CHR ''-'') cs
                 \<and> 1 \<le> length cs \<and> length cs \<le> 60)"

text \<open>\<^verbatim>\<open>content.split("\n", 2)\<close> with three parts.\<close>

definition sop_parts :: "string \<Rightarrow> (string \<times> string \<times> string) option" where
  "sop_parts s =
     (case py_find nl s of
        None \<Rightarrow> None
      | Some i \<Rightarrow>
          (let rest = drop (Suc i) s
           in case py_find nl rest of
                None \<Rightarrow> None
              | Some j \<Rightarrow> Some (take i s, take j rest, drop (Suc j) rest)))"

definition parse_sop_content :: "string \<Rightarrow> (string \<times> string \<times> string) option" where
  "parse_sop_content content =
     (if py_strip content = [] then None
      else case sop_parts content of
             None \<Rightarrow> None
           | Some (a, b, c) \<Rightarrow>
               if \<not> skill_name_ok (py_strip a) then None
               else if py_strip c = [] then None
               else Some (py_strip a, py_strip b, py_strip c))"

definition quoted :: "string \<Rightarrow> string" where
  "quoted s = ''\"'' @ s @ ''\"''"

definition generate_skill_md_template :: "string \<Rightarrow> string \<Rightarrow> string \<Rightarrow> string \<Rightarrow> string \<Rightarrow> string" where
  "generate_skill_md_template now_iso name description procedure skey =
     ''---'' @ nl @ ''name: '' @ name @ nl
     @ ''description: '' @ quoted (replace_char_str CHR 0x22 [CHR 0x5C, CHR 0x22] description) @ nl
     @ ''auto_generated: true'' @ nl @ ''lifecycle: active'' @ nl
     @ ''generated_at: '' @ quoted now_iso @ nl @ ''source_session: '' @ quoted skey @ nl
     @ ''---'' @ nl @ nl @ ''# '' @ name @ nl @ nl @ description @ nl @ nl
     @ ''## Procedure'' @ nl @ nl @ procedure @ nl"

text \<open>
  What graduation works with: the file system, the directory of the workspaces, the skill
  directories that discovery reads for a workspace, and the time as text.
\<close>

record 'f graduation =
  gr_fs :: "'f fs"
  gr_base :: path
  gr_limits :: skill_limits
  gr_yaml :: "string \<Rightarrow> string + json"
  gr_roots :: "path \<Rightarrow> 'f \<Rightarrow> skill_root list"
  gr_now_iso :: string

definition workspace_path :: "'f graduation \<Rightarrow> string \<Rightarrow> path" where
  "workspace_path G skey = gr_base G @ [replace_char CHR '':'' CHR ''_'' skey]"

definition skill_path :: "'f graduation \<Rightarrow> string \<Rightarrow> string \<Rightarrow> path" where
  "skill_path G skey name = workspace_path G skey @ [''skills'', name, ''SKILL.md'']"

definition graduate_single_sop :: "'f graduation \<Rightarrow> string \<Rightarrow> string \<Rightarrow> 'f \<Rightarrow> (bool \<times> path option) \<times> 'f" where
  "graduate_single_sop G content skey f =
     (case parse_sop_content content of
        None \<Rightarrow> ((False, None), f)
      | Some (name, description, procedure) \<Rightarrow>
          let file = skill_path G skey name;
              found = (case discover_skills (gr_limits G) (gr_yaml G) (gr_roots G (workspace_path G skey) f) of
                         None \<Rightarrow> [] | Some ss \<Rightarrow> map sk_name ss)
          in if fs_exists (gr_fs G) file f then ((False, None), f)
             else if name \<in> set found then ((False, None), f)
             else
               case fs_put (gr_fs G) file
                      (generate_skill_md_template (gr_now_iso G) name description procedure skey) f of
                 (Inl err, f') \<Rightarrow> ((False, None), f')
               | (Inr _, f') \<Rightarrow>
                   if fs_exists (gr_fs G) file f' then ((True, Some file), f') else ((False, None), f'))"

subsection \<open>Scanning one database\<close>

record curator_settings =
  cu_enabled :: bool
  cu_check_interval :: rat
  cu_interval :: rat
  cu_archive_days :: int
  cu_graduation :: bool
  cu_min_uses :: int
  cu_min_days :: int
  cu_review :: bool
  cu_review_interval :: rat
  cu_actions :: "string list"
  cu_max_batch :: int

text \<open>
  What a scan or a review changes: the rows of the database, the indexes of the sessions (none
  when there is no index), the files.
\<close>

record 'f curated =
  cd_db :: memory_db
  cd_l1 :: "string \<Rightarrow> l1_index"
  cd_files :: 'f

definition l1_drop :: "string \<Rightarrow> string \<Rightarrow> (string \<Rightarrow> l1_index) \<Rightarrow> string \<Rightarrow> l1_index" where
  "l1_drop skey i l1 = l1(skey := l1_index_remove i (l1 skey))"

definition map_sops :: "(sop list \<Rightarrow> sop list) \<Rightarrow> 'f curated \<Rightarrow> 'f curated" where
  "map_sops g w = w\<lparr>cd_db := (cd_db w)\<lparr>db_sops := g (db_sops (cd_db w))\<rparr>\<rparr>"

definition days :: "int \<Rightarrow> rat" where "days n = of_int n * 86400"

text \<open>\<^verbatim>\<open>_do_scan\<close>: the rows that were archived.\<close>

definition archive_stale :: "int \<Rightarrow> rat \<Rightarrow> rat \<Rightarrow> sop list \<Rightarrow> sop list \<times> sop list" where
  "archive_stale archive_days start now ps =
     (let stale = filter (is_stale (start - days archive_days)) ps
      in (stale,
          update_where (\<lambda>p. sp_id p \<in> sp_id ` set stale)
            (archive_row now (Some (''curator:'' @ show_int archive_days @ ''d_unused''))) ps))"

text \<open>The loop over the candidates: how many graduated.\<close>

definition mark_graduated :: "string \<Rightarrow> sop list \<Rightarrow> sop list" where
  "mark_graduated i = update_where (\<lambda>p. sp_id p = i) (set_status ''graduated'')"

fun graduate_all :: "'f graduation \<Rightarrow> sop list \<Rightarrow> 'f curated \<Rightarrow> nat \<times> 'f curated" where
  "graduate_all G [] w = (0, w)"
| "graduate_all G (p # ps) w =
     (case graduate_single_sop G (mem_content (sp_mem p)) (sp_key p) (cd_files w) of
        ((True, _), f) \<Rightarrow>
          let (n, w') = graduate_all G ps
                (map_sops (mark_graduated (sp_id p)) (w\<lparr>cd_l1 := l1_drop (sp_key p) (sp_id p) (cd_l1 w), cd_files := f\<rparr>))
          in (Suc n, w')
      | ((False, _), f) \<Rightarrow> graduate_all G ps (w\<lparr>cd_files := f\<rparr>))"

text \<open>
  \<^verbatim>\<open>_scan_single_db\<close> with the readings \<open>t0\<close>, \<open>t1\<close>, \<open>t2\<close> of the clock.  Errors of the index
  are ignored by the code; the index never fails here.
\<close>

definition scan_single_db ::
    "curator_settings \<Rightarrow> 'f graduation option \<Rightarrow> rat \<times> rat \<times> rat \<Rightarrow> 'f curated \<Rightarrow> (nat \<times> nat) \<times> 'f curated" where
  "scan_single_db S ws t w =
     (let (t0, t1, t2) = t;
          (stale, sops) = archive_stale (cu_archive_days S) t0 t1 (db_sops (cd_db w));
          w1 = map_sops (\<lambda>_. sops) w;
          w2 = w1\<lparr>cd_l1 := fold (\<lambda>p. l1_drop (sp_key p) (sp_id p)) stale (cd_l1 w1)\<rparr>
      in case ws of
           None \<Rightarrow> ((length stale, 0), w2)
         | Some G \<Rightarrow>
             if cu_graduation S
             then (let (n, w3) = graduate_all G
                         (filter (graduates (cu_min_uses S) (t2 - days (cu_min_days S))) (db_sops (cd_db w2))) w2
                   in ((length stale, n), w3))
             else ((length stale, 0), w2))"

subsection \<open>Reading the decisions of the model\<close>

text \<open>
  The regular expression \<^verbatim>\<open>```(?:json)?\s*\n?([\s\S]*?)\n?\s*```\<close>: the text between the first fence
  and the next one, without the word json and the white space at both ends.
\<close>

definition fence :: string where "fence = ''```''"

definition fenced_body :: "string \<Rightarrow> string option" where
  "fenced_body s =
     (case py_find fence s of
        None \<Rightarrow> None
      | Some i \<Rightarrow>
          let rest = drop (i + 3) s;
              start = py_lstrip (if starts_with ''json'' rest then drop 4 rest else rest)
          in case py_find fence start of
               None \<Rightarrow> None
             | Some j \<Rightarrow> Some (rev (py_lstrip (rev (take j start)))))"

text \<open>The regular expression \<^verbatim>\<open>\[[\s\S]*\]\<close>: from the first opening to the last closing bracket.\<close>

definition array_part :: "string \<Rightarrow> string option" where
  "array_part s =
     (let tl = dropWhile (\<lambda>c. c \<noteq> CHR ''['') s;
          r = rev (dropWhile (\<lambda>c. c \<noteq> CHR '']'') (rev tl))
      in if tl = [] \<or> r = [] then None else Some r)"

text \<open>The parsed output: \<open>loads\<close> is \<^verbatim>\<open>json.loads\<close>, \<^const>\<open>None\<close> its \<^verbatim>\<open>JSONDecodeError\<close>.\<close>

definition model_json :: "(string \<Rightarrow> json option) \<Rightarrow> string \<Rightarrow> json option" where
  "model_json loads s =
     (case loads s of
        Some v \<Rightarrow> Some v
      | None \<Rightarrow> (case array_part s of None \<Rightarrow> None | Some a \<Rightarrow> loads a))"

record review_decision =
  rv_id :: json
  rv_decision :: string
  rv_reason :: json

fun decision_of :: "string list \<Rightarrow> json \<Rightarrow> review_decision option" where
  "decision_of allowed (JObj d) =
     (case jget_or (JStr []) ''decision'' d of
        JStr v \<Rightarrow>
          if v \<in> set allowed \<or> v = ''keep''
          then Some \<lparr>rv_id = jget_or (JStr []) ''id'' d, rv_decision = v, rv_reason = jget_or (JStr []) ''reason'' d\<rparr>
          else None
      | _ \<Rightarrow> None)"
| "decision_of allowed _ = None"

definition parse_review_decisions ::
    "(string \<Rightarrow> json option) \<Rightarrow> string list \<Rightarrow> string \<Rightarrow> review_decision list" where
  "parse_review_decisions loads allowed output =
     (let tx = py_strip output;
          body = (case fenced_body tx of None \<Rightarrow> tx | Some b \<Rightarrow> b)
      in case model_json loads body of
           Some (JList items) \<Rightarrow> List.map_filter (decision_of allowed) items
         | _ \<Rightarrow> [])"

subsection \<open>The review of one database\<close>

record review_outcome =
  ro_reviewed :: nat
  ro_promoted :: nat
  ro_archived :: nat
  ro_failed :: nat

definition total_actions :: "review_outcome \<Rightarrow> nat" where
  "total_actions ro = ro_promoted ro + ro_archived ro"

text \<open>How an operation ends that does not return: the lock was lost, or any other exception.\<close>

datatype cycle_stop = LockLostError | OtherError

text \<open>
  The keys that a dictionary can look up; \<^verbatim>\<open>decision.reason[:100]\<close> in a formatted text, where \<open>shown\<close>
  is the text of a list: \<^const>\<open>None\<close> is the \<^verbatim>\<open>TypeError\<close>.
\<close>

fun dict_key :: "json \<Rightarrow> bool" where
  "dict_key (JList vs) = False"
| "dict_key (JObj d) = False"
| "dict_key _ = True"

fun reason_text :: "(json list \<Rightarrow> string) \<Rightarrow> json \<Rightarrow> string option" where
  "reason_text shown (JStr s) = Some (take 100 s)"
| "reason_text shown (JList vs) = Some (shown (take 100 vs))"
| "reason_text shown _ = None"

definition review_batch :: "int \<Rightarrow> memory_db \<Rightarrow> sop list" where
  "review_batch n db = sql_limit n (sort_key (\<lambda>p. - mem_uses (sp_mem p)) (list_auto_sops db))"

definition entries_text :: "sop list \<Rightarrow> string" where
  "entries_text ps =
     py_join nl (map (\<lambda>p. ''[id='' @ sp_id p @ '', use_count='' @ show_int (mem_uses (sp_mem p)) @ '']'' @ nl
        @ take 200 (mem_content (sp_mem p)) @ nl @ ''---'') ps)"

text \<open>
  The loop over the decisions.  The state is what is curated and the number of calls of
  \<^verbatim>\<open>check_alive\<close> so far; \<open>now\<close> are the readings of the clock by that number.
\<close>

record review_env =
  re_alive :: "nat \<Rightarrow> bool"
  re_now :: "nat \<Rightarrow> rat"
  re_shown :: "json list \<Rightarrow> string"

definition mark_archived :: "rat \<Rightarrow> string \<Rightarrow> string \<Rightarrow> sop list \<Rightarrow> sop list" where
  "mark_archived now reason i = update_where (\<lambda>p. sp_id p = i) (archive_row now (Some reason))"

fun apply_review ::
    "curator_settings \<Rightarrow> 'f graduation \<Rightarrow> review_env \<Rightarrow> sop list \<Rightarrow> review_decision list \<Rightarrow> review_outcome
       \<Rightarrow> 'f curated \<times> nat \<Rightarrow> (cycle_stop + review_outcome) \<times> 'f curated \<times> nat" where
  "apply_review S G E batch [] ro st = (Inr ro, st)"
| "apply_review S G E batch (d # ds) ro st =
     (let (w, n) = st in
      if \<not> dict_key (rv_id d) then (Inl OtherError, st)
      else case find (\<lambda>p. JStr (sp_id p) = rv_id d) (rev batch) of
        None \<Rightarrow> apply_review S G E batch ds ro st
      | Some p \<Rightarrow>
          if rv_decision d = ''promote'' \<and> ''promote'' \<in> set (cu_actions S) then
            if \<not> cu_graduation S then apply_review S G E batch ds ro st
            else (case graduate_single_sop G (mem_content (sp_mem p)) (sp_key p) (cd_files w) of
                ((False, _), f) \<Rightarrow>
                  apply_review S G E batch ds (ro\<lparr>ro_failed := ro_failed ro + 1\<rparr>) (w\<lparr>cd_files := f\<rparr>, n)
              | ((True, _), f) \<Rightarrow>
                  if \<not> re_alive E n then (Inl LockLostError, w\<lparr>cd_files := f\<rparr>, Suc n)
                  else apply_review S G E batch ds (ro\<lparr>ro_promoted := ro_promoted ro + 1\<rparr>)
                     (map_sops (mark_graduated (sp_id p))
                        (w\<lparr>cd_l1 := l1_drop (sp_key p) (sp_id p) (cd_l1 w), cd_files := f\<rparr>), Suc n))
          else if rv_decision d = ''archive'' \<and> ''archive'' \<in> set (cu_actions S) then
            (case reason_text (re_shown E) (rv_reason d) of
               None \<Rightarrow> (Inl OtherError, st)
             | Some reason \<Rightarrow>
                 if \<not> re_alive E n then (Inl LockLostError, w, Suc n)
                 else apply_review S G E batch ds (ro\<lparr>ro_archived := ro_archived ro + 1\<rparr>)
                   (map_sops (mark_archived (re_now E n) (''llm_review: '' @ reason) (sp_id p))
                      (w\<lparr>cd_l1 := l1_drop (sp_key p) (sp_id p) (cd_l1 w)\<rparr>), Suc n))
          else apply_review S G E batch ds ro st)"

text \<open>
  \<^verbatim>\<open>run_llm_review\<close>.  The model is asked with the actions and the entries that are put in the prompt;
  \<^const>\<open>None\<close> is a failed or late call.  No other operation touches the database meanwhile.
\<close>

definition run_llm_review ::
    "curator_settings \<Rightarrow> 'f graduation \<Rightarrow> review_env \<Rightarrow> (string \<Rightarrow> json option) \<Rightarrow> (string \<Rightarrow> string \<Rightarrow> string option)
       \<Rightarrow> 'f curated \<times> nat \<Rightarrow> (cycle_stop + review_outcome) \<times> 'f curated \<times> nat" where
  "run_llm_review S G E loads model st =
     (let (w, n) = st in
      if \<not> re_alive E n then (Inl LockLostError, w, Suc n)
      else let batch = review_batch (cu_max_batch S) (cd_db w);
               none = \<lparr>ro_reviewed = length batch, ro_promoted = 0, ro_archived = 0, ro_failed = 0\<rparr>
        in if batch = [] then (Inr none, w, Suc n)
           else if \<not> re_alive E (Suc n) then (Inl LockLostError, w, Suc (Suc n))
           else case model (py_join ''/'' (cu_actions S)) (entries_text batch) of
                  None \<Rightarrow> (Inr (none\<lparr>ro_failed := 1\<rparr>), w, Suc (Suc n))
                | Some out \<Rightarrow>
                    apply_review S G E batch (parse_review_decisions loads (cu_actions S) out) none
                      (w, Suc (Suc n)))"

subsection \<open>The marks in Redis\<close>

text \<open>
  \<^verbatim>\<open>CuratorStateStore\<close>: \<open>show\<close> and \<open>parse\<close> are \<^verbatim>\<open>str\<close> and \<^verbatim>\<open>float\<close> on numbers.  \<^verbatim>\<open>int\<close> cuts the fraction
  off.
\<close>

definition LAST_RUN_KEY :: string where "LAST_RUN_KEY = ''pyclaw:curator:last_run_at''"
definition LLM_REVIEW_KEY :: string where "LLM_REVIEW_KEY = ''pyclaw:curator:llm_review_last_run_at''"

definition py_int :: "rat \<Rightarrow> int" where
  "py_int t = (if 0 \<le> t then \<lfloor>t\<rfloor> else \<lceil>t\<rceil>)"

definition mark_scan_completed :: "'r redis \<Rightarrow> (rat \<Rightarrow> string) \<Rightarrow> rat \<Rightarrow> 'r \<Rightarrow> 'r" where
  "mark_scan_completed R show now = rd_set R LAST_RUN_KEY (show now)"

definition mark_review_fully_completed :: "'r redis \<Rightarrow> rat \<Rightarrow> 'r \<Rightarrow> 'r" where
  "mark_review_fully_completed R now = rd_set R LLM_REVIEW_KEY (show_int (py_int now))"

definition seed_if_missing :: "'r redis \<Rightarrow> (rat \<Rightarrow> string) \<Rightarrow> rat \<Rightarrow> 'r \<Rightarrow> 'r" where
  "seed_if_missing R show now r =
     (if rd_get R LAST_RUN_KEY r = None then rd_set R LAST_RUN_KEY (show now) r else r)"

definition get_last_scan_at :: "'r redis \<Rightarrow> (string \<Rightarrow> rat option) \<Rightarrow> 'r \<Rightarrow> rat option" where
  "get_last_scan_at R parse r = Option.bind (rd_get R LAST_RUN_KEY r) parse"

definition get_last_review_at :: "'r redis \<Rightarrow> (string \<Rightarrow> rat option) \<Rightarrow> 'r \<Rightarrow> int option" where
  "get_last_review_at R parse r = map_option py_int (Option.bind (rd_get R LLM_REVIEW_KEY r) parse)"

definition should_run_llm_review ::
    "curator_settings \<Rightarrow> 'r redis \<Rightarrow> (string \<Rightarrow> rat option) \<Rightarrow> rat \<Rightarrow> 'r \<Rightarrow> bool" where
  "should_run_llm_review S R parse now r =
     (if \<not> cu_review S then False
      else case get_last_review_at R parse r of
             None \<Rightarrow> True
           | Some t \<Rightarrow> \<not> (now - of_int t < cu_review_interval S))"

subsection \<open>The cycle\<close>

text \<open>All databases with the names of their files in order, the indexes, the files.\<close>

record 'f curator_world =
  cw_dbs :: "(string \<times> memory_db) list"
  cw_l1 :: "string \<Rightarrow> l1_index"
  cw_files :: 'f

definition on_db ::
    "string \<Rightarrow> ('f curated \<Rightarrow> 'a \<times> 'f curated) \<Rightarrow> 'f curator_world \<Rightarrow> 'a \<times> 'f curator_world" where
  "on_db name op W =
     (let (a, w) = op \<lparr>cd_db = the (map_of (cw_dbs W) name), cd_l1 = cw_l1 W, cd_files = cw_files W\<rparr>
      in (a, \<lparr>cw_dbs = AList.update name (cd_db w) (cw_dbs W), cw_l1 = cd_l1 w, cw_files = cd_files w\<rparr>))"

record scan_report =
  sn_scanned :: nat
  sn_archived :: nat
  sn_graduated :: nat
  sn_errors :: "(string \<times> cycle_stop) list"

datatype cycle_mode = ScanAndReview | ReviewOnly

text \<open>
  What a cycle is made with.  \<open>ct_workspace\<close> is missing when there is no directory of workspaces,
  \<open>ct_model\<close> when there is no model; a database in \<open>ct_broken\<close> cannot be opened.
\<close>

record ('f, 'r) curator =
  ct_settings :: curator_settings
  ct_mode :: cycle_mode
  ct_force :: bool
  ct_workspace :: "'f graduation option"
  ct_model :: "(string \<Rightarrow> string \<Rightarrow> string option) option"
  ct_redis :: "'r redis"
  ct_show :: "rat \<Rightarrow> string"
  ct_parse :: "string \<Rightarrow> rat option"
  ct_loads :: "string \<Rightarrow> json option"
  ct_env :: review_env
  ct_broken :: "string \<Rightarrow> bool"
  ct_times :: "string \<Rightarrow> rat \<times> rat \<times> rat"

text \<open>
  The scans of the databases.  Their exceptions, that of a lost lock included, are collected by
  \<^verbatim>\<open>asyncio.gather(return_exceptions=True)\<close>.
\<close>

fun scan_all ::
    "('f, 'r) curator \<Rightarrow> string list \<Rightarrow> scan_report \<Rightarrow> 'f curator_world \<times> nat \<Rightarrow> scan_report \<times> 'f curator_world \<times> nat" where
  "scan_all C [] rep st = (rep, st)"
| "scan_all C (name # names) rep st =
     (let (W, n) = st in
      if \<not> re_alive (ct_env C) n
      then scan_all C names (rep\<lparr>sn_errors := sn_errors rep @ [(name, LockLostError)]\<rparr>) (W, Suc n)
      else if ct_broken C name
      then scan_all C names (rep\<lparr>sn_errors := sn_errors rep @ [(name, OtherError)]\<rparr>) (W, Suc n)
      else let ((a, g), W') = on_db name (scan_single_db (ct_settings C) (ct_workspace C) (ct_times C name)) W
           in scan_all C names (rep\<lparr>sn_archived := sn_archived rep + a, sn_graduated := sn_graduated rep + g\<rparr>)
                (W', Suc n))"

definition run_curator_scan ::
    "('f, 'r) curator \<Rightarrow> 'f curator_world \<times> nat \<Rightarrow> (cycle_stop + scan_report) \<times> 'f curator_world \<times> nat" where
  "run_curator_scan C st =
     (let (W, n) = st in
      if \<not> re_alive (ct_env C) n then (Inl LockLostError, W, Suc n)
      else let (rep, st') = scan_all C (map fst (cw_dbs W))
                 \<lparr>sn_scanned = length (cw_dbs W), sn_archived = 0, sn_graduated = 0, sn_errors = []\<rparr> (W, Suc n)
           in (Inr rep, st'))"

record cycle_state =
  cy_scan :: "scan_report option"
  cy_outcomes :: "review_outcome list"
  cy_error :: "string option"
  cy_crashed :: bool
  cy_full :: bool

definition new_cycle :: cycle_state where
  "new_cycle = \<lparr>cy_scan = None, cy_outcomes = [], cy_error = None, cy_crashed = False, cy_full = False\<rparr>"

definition run_scan ::
    "('f, 'r) curator \<Rightarrow> cycle_state \<Rightarrow> 'f curator_world \<times> nat
       \<Rightarrow> (cycle_stop + unit) \<times> cycle_state \<times> 'f curator_world \<times> nat" where
  "run_scan C cy st =
     (let (W, n) = st in
      if \<not> re_alive (ct_env C) n then (Inl LockLostError, cy, W, Suc n)
      else case run_curator_scan C (W, Suc n) of
             (Inl e, st') \<Rightarrow> (Inl e, cy, st')
           | (Inr rep, st') \<Rightarrow> (Inr (), cy\<lparr>cy_scan := Some rep\<rparr>, st'))"

text \<open>The loop over the databases: only a lost lock ends it.\<close>

fun review_all ::
    "('f, 'r) curator \<Rightarrow> 'f graduation \<Rightarrow> (string \<Rightarrow> string \<Rightarrow> string option) \<Rightarrow> string list \<Rightarrow> cycle_state
       \<Rightarrow> 'f curator_world \<times> nat \<Rightarrow> (cycle_stop + unit) \<times> cycle_state \<times> 'f curator_world \<times> nat" where
  "review_all C G model [] cy st = (Inr (), cy\<lparr>cy_full := True\<rparr>, st)"
| "review_all C G model (name # names) cy st =
     (let (W, n) = st in
      if \<not> re_alive (ct_env C) n then (Inl LockLostError, cy, W, Suc n)
      else if ct_broken C name
      then if re_alive (ct_env C) (Suc n) then review_all C G model names cy (W, Suc (Suc n))
           else (Inl LockLostError, cy, W, Suc (Suc n))
      else let ((res, n'), W') = on_db name (\<lambda>w. let (res, w', n') =
                 run_llm_review (ct_settings C) G (ct_env C) (ct_loads C) model (w, Suc n) in ((res, n'), w')) W
           in case res of
                Inr ro \<Rightarrow> review_all C G model names (cy\<lparr>cy_outcomes := cy_outcomes cy @ [ro]\<rparr>) (W', n')
              | Inl LockLostError \<Rightarrow> (Inl LockLostError, cy, W', n')
              | Inl OtherError \<Rightarrow> review_all C G model names cy (W', n'))"

definition run_review_if_permitted ::
    "('f, 'r) curator \<Rightarrow> 'r \<Rightarrow> cycle_state \<Rightarrow> 'f curator_world \<times> nat
       \<Rightarrow> (cycle_stop + unit) \<times> cycle_state \<times> 'f curator_world \<times> nat" where
  "run_review_if_permitted C r cy st =
     (let (W, n) = st; skipped = cy\<lparr>cy_error := Some ''review_skipped_interval''\<rparr> in
      if \<not> cu_review (ct_settings C) then (Inr (), skipped, st)
      else case (ct_model C, ct_workspace C) of
        (Some model, Some G) \<Rightarrow>
          if \<not> ct_force C \<and> \<not> should_run_llm_review (ct_settings C) (ct_redis C) (ct_parse C) (re_now (ct_env C) n) r
          then (Inr (), skipped, st)
          else if cw_dbs W = [] then (Inr (), cy, st)
          else if \<not> re_alive (ct_env C) n then (Inl LockLostError, cy, W, Suc n)
          else review_all C G model (map fst (cw_dbs W)) cy (W, Suc n)
      | _ \<Rightarrow> (Inr (), cy, st))"

definition mark_completion :: "('f, 'r) curator \<Rightarrow> rat \<Rightarrow> cycle_state \<Rightarrow> 'r \<Rightarrow> 'r" where
  "mark_completion C now cy r =
     (if cy_error cy = Some ''lock_lost'' then r
      else let r1 = (if ct_mode C = ScanAndReview then mark_scan_completed (ct_redis C) (ct_show C) now r else r)
           in if cy_full cy then mark_review_fully_completed (ct_redis C) now r1 else r1)"

definition stopped :: "cycle_stop \<Rightarrow> cycle_state \<Rightarrow> cycle_state" where
  "stopped e cy =
     (case e of LockLostError \<Rightarrow> cy\<lparr>cy_error := Some ''lock_lost''\<rparr> | OtherError \<Rightarrow> cy\<lparr>cy_crashed := True\<rparr>)"

definition run_critical_section ::
    "('f, 'r) curator \<Rightarrow> 'r \<times> 'f curator_world \<Rightarrow> cycle_state \<times> 'r \<times> 'f curator_world" where
  "run_critical_section C s =
     (let (r, W) = s;
          scanned = (if ct_mode C = ScanAndReview then run_scan C new_cycle (W, 0) else (Inr (), new_cycle, W, 0))
      in case scanned of
           (Inl e, cy, W1, _) \<Rightarrow> (stopped e cy, r, W1)
         | (Inr _, cy, W1, n1) \<Rightarrow>
             (case run_review_if_permitted C r cy (W1, n1) of
                (Inl e, cy2, W2, _) \<Rightarrow> (stopped e cy2, r, W2)
              | (Inr _, cy2, W2, n2) \<Rightarrow> (cy2, mark_completion C (re_now (ct_env C) n2) cy2 r, W2)))"

record cycle_report =
  cr_acquired :: bool
  cr_scan :: "scan_report option"
  cr_actions :: nat
  cr_error :: "string option"
  cr_crashed :: bool

definition build_report :: "cycle_state \<Rightarrow> cycle_report" where
  "build_report cy =
     \<lparr>cr_acquired = True, cr_scan = cy_scan cy, cr_actions = sum_list (map total_actions (cy_outcomes cy)),
      cr_error = cy_error cy, cr_crashed = cy_crashed cy\<rparr>"

text \<open>\<^verbatim>\<open>execute\<close> on the outcome of entering the mutex; another exception than a busy lock is raised.\<close>

definition curator_execute ::
    "('f, 'r) curator \<Rightarrow> mutex_error + unit \<Rightarrow> 'r \<times> 'f curator_world
       \<Rightarrow> (mutex_error + cycle_report) \<times> 'r \<times> 'f curator_world" where
  "curator_execute C entered s =
     (case entered of
        Inl (AcquireFailed e) \<Rightarrow>
          (Inr \<lparr>cr_acquired = False, cr_scan = None, cr_actions = 0, cr_error = None, cr_crashed = False\<rparr>, s)
      | Inl e \<Rightarrow> (Inl e, s)
      | Inr _ \<Rightarrow> let (cy, s') = run_critical_section C s in (Inr (build_report cy), s'))"

text \<open>One round of \<^verbatim>\<open>create_curator_loop\<close> after its sleep: \<^const>\<open>None\<close> when it is not yet time.\<close>

definition curator_round ::
    "('f, 'r) curator \<Rightarrow> rat \<Rightarrow> mutex_error + unit \<Rightarrow> 'r \<times> 'f curator_world
       \<Rightarrow> (mutex_error + cycle_report) option \<times> 'r \<times> 'f curator_world" where
  "curator_round C now entered s =
     (case get_last_scan_at (ct_redis C) (ct_parse C) (fst s) of
        Some t \<Rightarrow>
          if now - t < cu_interval (ct_settings C) then (None, s)
          else let (rep, s') = curator_execute C entered s in (Some rep, s')
      | None \<Rightarrow> let (rep, s') = curator_execute C entered s in (Some rep, s'))"

subsection \<open>The text of a graduated skill can be read back\<close>

lemma py_in_across:
  assumes "c \<notin> set p" "p \<noteq> []"
  shows "py_in p (a @ c # b) \<longleftrightarrow> py_in p a \<or> py_in p b"
proof
  assume "py_in p (a @ c # b)"
  then obtain u v where e: "a @ c # b = u @ p @ v" by (auto simp: py_in_iff)
  then consider x where "a = u @ x" "x @ c # b = p @ v" | x where "u = a @ c # x" "b = x @ p @ v"
    using assms(2) by (auto simp: append_eq_append_conv2 append_eq_Cons_conv Cons_eq_append_conv)
  then show "py_in p a \<or> py_in p b"
  proof cases
    case 1
    then obtain y where "x = p @ y" using assms
      by (auto simp: append_eq_append_conv2 append_eq_Cons_conv Cons_eq_append_conv)
    with 1 have "py_in p a" by (auto simp: py_in_iff)
    then show ?thesis ..
  next
    case 2 then show ?thesis by (auto simp: py_in_iff)
  qed
next
  assume "py_in p a \<or> py_in p b"
  then show "py_in p (a @ c # b)" by (auto simp: py_in_iff) (metis append.assoc append_Cons)+
qed

lemma escape_dashes:
  assumes "\<not> py_in ''---'' s"
  shows "\<not> py_in ''---'' (replace_char_str CHR 0x22 [CHR 0x5C, CHR 0x22] s)"
  using assms
proof (induction s)
  case (Cons c s)
  have s: "\<not> py_in ''---'' s" using Cons.prems by (auto simp: py_in_def split: if_splits)
  have st: "starts_with ''--'' s" if "starts_with ''--'' (replace_char_str CHR 0x22 [CHR 0x5C, CHR 0x22] s)"
    using that by (cases s rule: list.exhaust; cases "tl s") (auto simp: replace_char_str_def split: if_splits)
  show ?case using Cons.IH [OF s] Cons.prems st
    by (auto simp: py_in_def replace_char_str_def split: if_splits)
qed (simp add: replace_char_str_def)

lemma py_find_after:
  assumes "c \<notin> set p" "p \<noteq> []" "\<not> py_in p a"
  shows "py_find p (a @ c # p @ r) = Some (Suc (length a))"
  using assms(3)
proof (induction a)
  case Nil
  have "\<not> starts_with p (c # p @ r)" using assms(1,2) by (cases p) auto
  moreover have "py_find p (p @ r) = Some 0" using assms(2) by (cases p) simp_all
  ultimately show ?case by simp
next
  case (Cons x a)
  have n: "\<not> starts_with p ((x # a) @ c # p @ r)"
  proof
    assume "starts_with p ((x # a) @ c # p @ r)"
    then obtain v where e: "(x # a) @ c # (p @ r) = p @ v" by (auto simp only: starts_with_iff)
    from e [unfolded append_eq_append_conv2] show False
    proof (elim exE disjE conjE)
      fix us assume us: "(x # a) @ us = p" "c # p @ r = us @ v"
      show False
      proof (cases us)
        case Nil
        with us(1) have "py_in p (x # a)" unfolding py_in_iff by (metis append_Nil append_Nil2)
        with Cons.prems show False by contradiction
      qed (use us assms(1) in auto)
    next
      fix us assume "x # a = p @ us"
      then show False using Cons.prems by (metis append_Nil py_in_iff)
    qed
  qed
  have "\<not> py_in p a" using Cons.prems by (auto simp: py_in_def split: if_splits)
  with Cons.IH n show ?case by simp
qed

lemma py_strip_pad:
  assumes "list_all py_space u" "list_all py_space v" "s \<noteq> []" "\<not> py_space (hd s)" "\<not> py_space (last s)"
  shows "py_strip (u @ s @ v) = s"
proof -
  have d: "dropWhile py_space (w @ t) = t" if "list_all py_space w" "t \<noteq> [] \<Longrightarrow> \<not> py_space (hd t)" for w t
    using that by (induction w) (auto intro: dropWhile_id)
  have 1: "dropWhile py_space (u @ s @ v) = s @ v"
    by (rule d) (use assms in \<open>simp_all add: hd_append\<close>)
  have 2: "dropWhile py_space (rev v @ rev s) = rev s"
    by (rule d) (use assms in \<open>simp_all add: list_all_rev hd_rev\<close>)
  show ?thesis by (simp add: py_strip_def 1 2)
qed

definition skill_header :: "string \<Rightarrow> string \<Rightarrow> string \<Rightarrow> string \<Rightarrow> string" where
  "skill_header now_iso name description skey =
     ''name: '' @ name @ nl
     @ ''description: '' @ quoted (replace_char_str CHR 0x22 [CHR 0x5C, CHR 0x22] description) @ nl
     @ ''auto_generated: true'' @ nl @ ''lifecycle: active'' @ nl
     @ ''generated_at: '' @ quoted now_iso @ nl @ ''source_session: '' @ quoted skey"

definition skill_text :: "string \<Rightarrow> string \<Rightarrow> string \<Rightarrow> string" where
  "skill_text name description procedure =
     ''# '' @ name @ nl @ nl @ description @ nl @ nl @ ''## Procedure'' @ nl @ nl @ procedure"

lemma dashes_nl: "py_in ''---'' (a @ nl @ b) \<longleftrightarrow> py_in ''---'' a \<or> py_in ''---'' b"
  using py_in_across [of "CHR 0x0A" "''---''" a b] by (simp add: nl_def)

lemma dashes_quoted: "py_in ''---'' (quoted s) \<longleftrightarrow> py_in ''---'' s"
  using py_in_across [of "CHR 0x22" "''---''" "[]" "s @ [CHR 0x22]"] py_in_across [of "CHR 0x22" "''---''" s "[]"]
  by (simp add: quoted_def) (simp add: py_in_def)

lemma dashes_after_space: "py_in ''---'' (a @ CHR 0x20 # b) \<longleftrightarrow> py_in ''---'' a \<or> py_in ''---'' b"
  using py_in_across [of "CHR 0x20" "''---''" a b] by simp

lemma skill_header_dashes:
  assumes "\<not> py_in ''---'' n" "\<not> py_in ''---'' d" "\<not> py_in ''---'' t" "\<not> py_in ''---'' k"
  shows "\<not> py_in ''---'' (nl @ skill_header t n d k)"
proof -
  have l: "py_in ''---'' (''name: '' @ x) = py_in ''---'' x"
    "py_in ''---'' (''description: '' @ x) = py_in ''---'' x"
    "py_in ''---'' (''generated_at: '' @ x) = py_in ''---'' x"
    "py_in ''---'' (''source_session: '' @ x) = py_in ''---'' x" for x
    using dashes_after_space [of "''name:''" x] dashes_after_space [of "''description:''" x]
      dashes_after_space [of "''generated_at:''" x] dashes_after_space [of "''source_session:''" x]
    by (simp_all add: py_in_def)
  have c: "\<not> py_in ''---'' ''auto_generated: true''" "\<not> py_in ''---'' ''lifecycle: active''" "\<not> py_in ''---'' []"
    by (simp_all add: py_in_def)
  have e: "\<not> py_in ''---'' (nl @ x)" if "\<not> py_in ''---'' x" for x
    using dashes_nl [of "[]" x] that c(3) by simp
  have h: "(''name: '' @ n @ nl @ x) = (''name: '' @ n) @ nl @ x"
    "(''description: '' @ y @ nl @ x) = (''description: '' @ y) @ nl @ x"
    "(''generated_at: '' @ y @ nl @ x) = (''generated_at: '' @ y) @ nl @ x" for x y by simp_all
  show ?thesis
    unfolding skill_header_def h
    by (rule e) (simp only: dashes_nl l dashes_quoted escape_dashes assms c not_False_eq_True simp_thms)
qed

lemma parse_sop_content_Some:
  assumes "parse_sop_content content = Some (n, d, p)"
  shows "skill_name_ok n" "p \<noteq> []" "\<not> py_space (last p)"
  using assms last_py_strip
  by (auto simp: parse_sop_content_def split: if_splits option.splits prod.splits)

text \<open>
  A graduated skill can be read back.  Let an SOP parse into a name, a description and
  a procedure, and let none of the texts that go into the header contain three dashes.  Then the
  reader of skill files finds in the generated text exactly the header's six lines as front
  matter, and the title, the description and the whole procedure as instructions.
\<close>

theorem graduated_skill_is_readable:
  assumes "parse_sop_content content = Some (n, d, p)"
    and "\<not> py_in ''---'' n" "\<not> py_in ''---'' d" "\<not> py_in ''---'' now_iso" "\<not> py_in ''---'' skey"
  shows "extract_frontmatter (generate_skill_md_template now_iso n d p skey)
           = Inr (skill_header now_iso n d skey, skill_text n d p)"
proof -
  let ?h = "skill_header now_iso n d skey" and ?r = "nl @ nl @ skill_text n d p @ nl"
  have t: "generate_skill_md_template now_iso n d p skey = ''---'' @ (nl @ ?h) @ CHR 0x0A # ''---'' @ ?r"
    by (simp add: generate_skill_md_template_def skill_header_def skill_text_def nl_def)
  have f: "py_find ''---'' ((nl @ ?h) @ CHR 0x0A # ''---'' @ ?r) = Some (Suc (length (nl @ ?h)))"
    by (rule py_find_after) (use skill_header_dashes [OF assms(2,3,4,5)] in simp_all)
  have sp: "list_all py_space nl" "list_all py_space (nl @ nl)" by (simp_all add: nl_def py_space_def)
  have front: "py_strip (nl @ ?h @ nl) = ?h"
    by (rule py_strip_pad) (simp_all add: sp skill_header_def quoted_def py_space_def)
  have instr: "py_strip ((nl @ nl) @ skill_text n d p @ nl) = skill_text n d p"
    by (rule py_strip_pad) (use parse_sop_content_Some [OF assms(1)] in \<open>simp_all add: sp skill_text_def py_space_def\<close>)
  have k: "take (Suc (length (nl @ ?h))) ((nl @ ?h) @ CHR 0x0A # ''---'' @ ?r) = nl @ ?h @ nl"
    by (simp add: nl_def)
  have b: "drop (Suc (length (nl @ ?h)) + 6) (''---'' @ (nl @ ?h) @ CHR 0x0A # ''---'' @ ?r) = ?r"
  proof -
    let ?a = "''---'' @ (nl @ ?h) @ CHR 0x0A # ''---''"
    have "length ?a = Suc (length (nl @ ?h)) + 6" by simp
    moreover have "drop (length ?a) (?a @ ?r) = ?r" by (rule append_eq_conv_conj [THEN iffD1, THEN conjunct2, symmetric]) (rule refl)
    ultimately show ?thesis by (simp only: append_assoc append_Cons)
  qed
  have s: "starts_with ''---'' (''---'' @ x)" "drop 3 (''---'' @ x) = x" for x by simp_all
  show ?thesis
    unfolding t extract_frontmatter_def
    by (simp only: s f option.case k b not_True_eq_False if_False) (use front instr in simp)
qed

definition demo_content :: string where
  "demo_content = ''deploy-app'' @ nl @ ''when a release is due'' @ nl @ ''1. build'' @ nl @ ''2. push''"

theorem graduated_skill_is_readable_witness:
  "parse_sop_content demo_content = Some (''deploy-app'', ''when a release is due'', ''1. build'' @ nl @ ''2. push'')
   \<and> extract_frontmatter (generate_skill_md_template ''2025-01-01T00:00:00Z'' ''deploy-app''
        ''when a release is due'' (''1. build'' @ nl @ ''2. push'') ''web:ann'')
      = Inr (skill_header ''2025-01-01T00:00:00Z'' ''deploy-app'' ''when a release is due'' ''web:ann'',
             skill_text ''deploy-app'' ''when a release is due'' (''1. build'' @ nl @ ''2. push''))"
proof -
  have p: "parse_sop_content demo_content = Some (''deploy-app'', ''when a release is due'', ''1. build'' @ nl @ ''2. push'')"
    by code_simp
  show ?thesis
    by (rule conjI [OF p graduated_skill_is_readable [OF p]]) code_simp+
qed

text \<open>With three dashes in the description the front matter ends inside it.\<close>

lemma dashes_break_the_skill:
  "parse_sop_content (''deploy'' @ nl @ ''a --- b'' @ nl @ ''1. build'') = Some (''deploy'', ''a --- b'', ''1. build'')
   \<and> map_sum (\<lambda>e. e) fst (extract_frontmatter (generate_skill_md_template ''2025'' ''deploy'' ''a --- b'' ''1. build'' ''web:ann''))
      = Inr (''name: deploy'' @ nl @ ''description: '' @ [CHR 0x22] @ ''a'')"
  by code_simp

text \<open>A line feed in the name of an extracted SOP moves its parts: what follows becomes the description.\<close>

lemma line_feed_moves_parts:
  "parse_sop_content (''deploy'' @ nl @ ''app'' @ nl @ ''when due'' @ nl @ ''1. build'')
     = Some (''deploy'', ''app'', ''when due'' @ nl @ ''1. build'')"
  by code_simp

subsection \<open>Graduated SOPs have their skill\<close>

text \<open>Documented behaviour of the file system: writing a file removes none.\<close>

definition keeps_files :: "'f fs \<Rightarrow> bool" where
  "keeps_files F \<longleftrightarrow> (\<forall>p q tx f. fs_exists F q f \<longrightarrow> fs_exists F q (snd (fs_put F p tx f)))"

definition has_skill :: "'f graduation \<Rightarrow> 'f \<Rightarrow> string \<Rightarrow> string \<Rightarrow> bool" where
  "has_skill G f skey content \<longleftrightarrow>
     (\<exists>n d p. parse_sop_content content = Some (n, d, p) \<and> fs_exists (gr_fs G) (skill_path G skey n) f)"

definition is_graduated :: "sop \<Rightarrow> bool" where
  "is_graduated p = (mem_status (sp_mem p) = ''graduated'')"

definition sops_ok :: "'f graduation \<Rightarrow> 'f \<Rightarrow> sop list \<Rightarrow> bool" where
  "sops_ok G f ps \<longleftrightarrow> distinct (map sp_id ps)
     \<and> (\<forall>p \<in> set ps. is_graduated p \<longrightarrow> has_skill G f (sp_key p) (mem_content (sp_mem p)))"

abbreviation curated_ok :: "'f graduation \<Rightarrow> 'f curated \<Rightarrow> bool" where
  "curated_ok G w \<equiv> sops_ok G (cd_files w) (db_sops (cd_db w))"

lemma map_sops_simps [simp]:
  "db_sops (cd_db (map_sops g w)) = g (db_sops (cd_db w))" "cd_files (map_sops g w) = cd_files w"
  "cd_l1 (map_sops g w) = cd_l1 w"
  by (simp_all add: map_sops_def)

lemma graduate_single_result:
  assumes "keeps_files (gr_fs G)" "graduate_single_sop G content skey f = ((ok, path), f')"
  shows "ok \<Longrightarrow> has_skill G f' skey content" "fs_exists (gr_fs G) q f \<Longrightarrow> fs_exists (gr_fs G) q f'"
  using assms by (auto simp: graduate_single_sop_def has_skill_def keeps_files_def Let_def
      split: option.splits if_splits prod.splits sum.splits) (metis snd_conv)+

lemma sops_ok_files:
  "sops_ok G f ps \<Longrightarrow> (\<And>q. fs_exists (gr_fs G) q f \<Longrightarrow> fs_exists (gr_fs G) q f') \<Longrightarrow> sops_ok G f' ps"
  unfolding sops_ok_def has_skill_def by blast

lemma status_rows [simp]:
  "is_graduated (archive_row now r p) = False" "is_graduated (restore_row p) = False"
  "is_graduated (set_status ''graduated'' p)" "is_graduated (bump now p) = is_graduated p"
  "sp_key (archive_row now r p) = sp_key p" "sp_key (restore_row p) = sp_key p"
  "mem_content (sp_mem (archive_row now r p)) = mem_content (sp_mem p)"
  "mem_content (sp_mem (set_status s p)) = mem_content (sp_mem p)"
  "mem_content (sp_mem (bump now p)) = mem_content (sp_mem p)"
  "mem_content (sp_mem (restore_row p)) = mem_content (sp_mem p)"
  by (simp_all add: is_graduated_def archive_row_def restore_row_def set_status_def bump_def)

lemma sops_ok_update:
  assumes "sops_ok G f ps" "\<And>p. sp_id (h p) = sp_id p"
    and "\<And>p. p \<in> set ps \<Longrightarrow> P p \<Longrightarrow> is_graduated (h p) \<Longrightarrow> has_skill G f (sp_key (h p)) (mem_content (sp_mem (h p)))"
  shows "sops_ok G f (update_where P h ps)"
  using assms by (simp add: sops_ok_def update_where_keys) (auto split: if_splits)

text \<open>The rows a loop works on are still there, with the same key and content.\<close>

definition same_texts :: "sop list \<Rightarrow> sop list \<Rightarrow> bool" where
  "same_texts qs ps \<longleftrightarrow>
     (\<forall>q \<in> set qs. \<forall>p \<in> set ps. sp_id p = sp_id q \<longrightarrow> sp_key p = sp_key q \<and> mem_content (sp_mem p) = mem_content (sp_mem q))"

lemma same_texts_update:
  "same_texts qs ps \<Longrightarrow> (\<And>p. sp_id (h p) = sp_id p \<and> sp_key (h p) = sp_key p \<and> mem_content (sp_mem (h p)) = mem_content (sp_mem p))
   \<Longrightarrow> same_texts qs (update_where P h ps)"
  unfolding same_texts_def by auto

lemma same_texts_sub:
  "distinct (map sp_id ps) \<Longrightarrow> set qs \<subseteq> set ps \<Longrightarrow> same_texts qs ps"
  unfolding same_texts_def by (metis inj_onD distinct_map subsetD)

lemma marked_ok:
  assumes "sops_ok G f ps" "keeps_files (gr_fs G)" "same_texts qs ps" "q \<in> set qs"
    and "graduate_single_sop G (mem_content (sp_mem q)) (sp_key q) f = ((True, path), f')"
  shows "sops_ok G f' (mark_graduated (sp_id q) ps)" "same_texts qs (mark_graduated (sp_id q) ps)"
proof -
  note r = graduate_single_result [OF assms(2,5)]
  show "sops_ok G f' (mark_graduated (sp_id q) ps)"
    unfolding mark_graduated_def
    by (rule sops_ok_update [OF sops_ok_files [OF assms(1) r(2)]]) (use assms(3,4) r(1) in \<open>auto simp: same_texts_def\<close>)
  show "same_texts qs (mark_graduated (sp_id q) ps)"
    unfolding mark_graduated_def by (rule same_texts_update [OF assms(3)]) simp
qed

lemma graduate_all_ok:
  assumes "keeps_files (gr_fs G)"
  shows "curated_ok G w \<Longrightarrow> same_texts qs (db_sops (cd_db w)) \<Longrightarrow> curated_ok G (snd (graduate_all G qs w))"
proof (induction qs arbitrary: w)
  case (Cons q qs)
  obtain ok path f where g: "graduate_single_sop G (mem_content (sp_mem q)) (sp_key q) (cd_files w) = ((ok, path), f)"
    by (metis surj_pair)
  have sub: "same_texts qs ps" if "same_texts (q # qs) ps" for ps using that by (simp add: same_texts_def)
  show ?case
  proof (cases ok)
    case True
    note g' = g [unfolded eqTrueI [OF True]]
    note m = marked_ok [OF Cons.prems(1) assms Cons.prems(2) list.set_intros(1) g']
    let ?w = "map_sops (mark_graduated (sp_id q)) (w\<lparr>cd_l1 := l1_drop (sp_key q) (sp_id q) (cd_l1 w), cd_files := f\<rparr>)"
    have "curated_ok G (snd (graduate_all G qs ?w))"
      by (rule Cons.IH) (use m sub in \<open>simp_all\<close>)
    with g True show ?thesis by (simp add: case_prod_beta Let_def)
  next
    case False
    have "curated_ok G (snd (graduate_all G qs (w\<lparr>cd_files := f\<rparr>)))"
      by (rule Cons.IH) (use sops_ok_files [OF Cons.prems(1) graduate_single_result(2) [OF assms g]] sub [OF Cons.prems(2)]
          in simp_all)
    with g False show ?thesis by simp
  qed
qed simp

lemma archive_stale_ok:
  "sops_ok G f ps \<Longrightarrow> sops_ok G f (snd (archive_stale d start now ps))"
  by (auto simp: archive_stale_def Let_def intro!: sops_ok_update)

lemma scan_single_db_ok:
  assumes "keeps_files (gr_fs G)" "curated_ok G w"
  shows "curated_ok G (snd (scan_single_db S (Some G) t w))"
proof -
  obtain t0 t1 t2 where t: "t = (t0, t1, t2)" by (cases t)
  let ?a = "archive_stale (cu_archive_days S) t0 t1 (db_sops (cd_db w))"
  let ?w1 = "map_sops (\<lambda>_. snd ?a) w"
  let ?w2 = "?w1\<lparr>cd_l1 := fold (\<lambda>p. l1_drop (sp_key p) (sp_id p)) (fst ?a) (cd_l1 ?w1)\<rparr>"
  have w2: "curated_ok G ?w2" using archive_stale_ok [OF assms(2)] by simp
  have "curated_ok G (snd (graduate_all G (filter Q (db_sops (cd_db ?w2))) ?w2))" for Q
    by (rule graduate_all_ok [OF assms(1) w2]) (rule same_texts_sub, use w2 in \<open>auto simp: sops_ok_def\<close>)
  with w2 show ?thesis by (simp add: scan_single_db_def t case_prod_beta Let_def)
qed

lemma sql_limit_sub: "set (sql_limit n xs) \<subseteq> set xs"
  by (auto simp: sql_limit_def dest: in_set_takeD)

lemma review_batch_sub: "set (review_batch n db) \<subseteq> set (db_sops db)"
  using sql_limit_sub [of n] by (force simp: review_batch_def list_auto_sops_def)

lemma apply_review_ok:
  assumes "keeps_files (gr_fs G)"
  shows "curated_ok G w \<Longrightarrow> same_texts batch (db_sops (cd_db w))
     \<Longrightarrow> curated_ok G (fst (snd (apply_review S G E batch ds ro (w, n))))"
proof (induction ds arbitrary: ro w n)
  case (Cons d ds)
  show ?case
  proof (cases "dict_key (rv_id d)")
    case hash: True
    show ?thesis
    proof (cases "find (\<lambda>p. JStr (sp_id p) = rv_id d) (rev batch)")
      case None
      with hash Cons show ?thesis by simp
    next
      case (Some q)
      then have q: "q \<in> set batch" by (metis find_Some_iff nth_mem set_rev)
      obtain ok path f where g: "graduate_single_sop G (mem_content (sp_mem q)) (sp_key q) (cd_files w) = ((ok, path), f)"
        by (metis surj_pair)
      have kept: "curated_ok G (w\<lparr>cd_files := f\<rparr>)"
        using sops_ok_files [OF Cons.prems(1) graduate_single_result(2) [OF assms g]] by simp
      have arch: "sops_ok G (cd_files w) (mark_archived t r i (db_sops (cd_db w)))"
        "same_texts batch (mark_archived t r i (db_sops (cd_db w)))" for t r i
        unfolding mark_archived_def
        by (rule sops_ok_update [OF Cons.prems(1)], simp_all) (rule same_texts_update [OF Cons.prems(2)], simp)
      show ?thesis
      proof (cases ok)
        case True
        note m = marked_ok [OF Cons.prems(1) assms Cons.prems(2) q g [unfolded eqTrueI [OF True]]]
        show ?thesis using hash Some g True Cons.prems kept m arch
          by (simp add: Cons.IH split: option.split)
      next
        case False
        show ?thesis using hash Some g False Cons.prems kept arch
          by (simp add: Cons.IH split: option.split)
      qed
    qed
  qed (use Cons in simp)
qed simp

lemma run_llm_review_ok:
  assumes "keeps_files (gr_fs G)" "curated_ok G w"
  shows "curated_ok G (fst (snd (run_llm_review S G E loads model (w, n))))"
  using assms(2) apply_review_ok [OF assms(1,2), of "review_batch (cu_max_batch S) (cd_db w)"]
    same_texts_sub [OF _ review_batch_sub] assms(2)
  by (simp add: run_llm_review_def Let_def sops_ok_def split: option.split)

lemma upsert_sop_ok:
  assumes "sops_ok G f ps" "mem_status e = ''active''"
  shows "sops_ok G f (upsert_sop skey e ps)"
proof -
  have d: "distinct (map sp_id (upsert_sop skey e ps))"
    using assms(1) by (auto simp: upsert_sop_ids sops_ok_def)
  have "is_graduated p \<Longrightarrow> p \<in> set ps" if "p \<in> set (upsert_sop skey e ps)" for p
    using that assms(2) by (auto simp: upsert_sop_def merge_memory_def is_graduated_def split: if_splits)
  with d assms(1) show ?thesis by (simp add: sops_ok_def)
qed

lemma memory_step_sops_ok:
  assumes "sops_ok G f (db_sops (me_db m))" "op_ok op"
  shows "sops_ok G f (db_sops (me_db (memory_step op m)))"
proof (cases op)
  case (StoreMemory skey e)
  then show ?thesis using assms upsert_sop_ok
    by (auto simp: composite_store_def sqlite_store_def split: sum.splits if_splits)
next
  case (DeleteMemory i)
  have "distinct (map sp_id (filter P ps))" if "distinct (map sp_id ps)" for P ps
    using that by (simp add: distinct_map_filter)
  with DeleteMemory assms(1) show ?thesis by (simp add: composite_delete_def sqlite_delete_def sops_ok_def)
next
  case (ArchiveMemory now evict i reason)
  have "sops_ok G f (update_where P (archive_row now r) (db_sops (me_db m)))" for P r
    by (rule sops_ok_update [OF assms(1)]) simp_all
  with ArchiveMemory assms(1) show ?thesis by (auto simp: archive_entry_def Let_def)
next
  case (SearchMemory X query layers n per_layer now)
  have "sops_ok G f (update_where P (bump now) (db_sops (me_db m)))" for P
    by (rule sops_ok_update [OF assms(1)]) (use assms(1) in \<open>simp_all add: sops_ok_def\<close>)
  with SearchMemory assms(1) show ?thesis
    by (auto simp: sqlite_search_def search_procedures_def Let_def split: option.split)
next
  case (RestoreMemory i)
  have "sops_ok G f (update_where P restore_row (db_sops (me_db m)))" for P
    by (rule sops_ok_update [OF assms(1)]) simp_all
  with RestoreMemory assms(1) show ?thesis by (simp add: restore_sop_def)
next
  case (ArchiveSession uuid now skey sid summary)
  with assms(1) show ?thesis by (simp add: sqlite_archive_session_def)
qed

text \<open>
  The life of a database, from one without graduated rows: the operations on memories, scans and
  reviews, in any order; the time that goes into new skills is any text.
\<close>

inductive curated_reach :: "'f graduation \<Rightarrow> 'f curated \<Rightarrow> bool" for G where
  born: "distinct (map sp_id (db_sops (cd_db w))) \<Longrightarrow> \<forall>p \<in> set (db_sops (cd_db w)). \<not> is_graduated p
     \<Longrightarrow> curated_reach G w"
| memory: "curated_reach G w \<Longrightarrow> op_ok op
     \<Longrightarrow> curated_reach G (let m = memory_step op \<lparr>me_l1 = cd_l1 w k, me_db = cd_db w\<rparr>
           in w\<lparr>cd_db := me_db m, cd_l1 := (cd_l1 w)(k := me_l1 m)\<rparr>)"
| scanned: "curated_reach G w \<Longrightarrow> curated_reach G (snd (scan_single_db S (Some (G\<lparr>gr_now_iso := now\<rparr>)) t w))"
| reviewed: "curated_reach G w
     \<Longrightarrow> curated_reach G (fst (snd (run_llm_review S (G\<lparr>gr_now_iso := now\<rparr>) E loads model (w, n))))"

lemma sops_ok_now [simp]: "sops_ok (G\<lparr>gr_now_iso := now\<rparr>) f ps = sops_ok G f ps"
  by (simp add: sops_ok_def has_skill_def skill_path_def workspace_path_def)

text \<open>
  Property C28.  In whatever order memories are stored, searched, forgotten, restored, scanned and
  reviewed by the model, lost locks included: every SOP that is marked as graduated has its skill
  file in the workspace of its session, and ids stay unique.
\<close>

theorem graduated_skills_exist:
  assumes "curated_reach G w" "keeps_files (gr_fs G)"
    and "p \<in> set (db_sops (cd_db w))" "is_graduated p"
  shows "\<exists>n d pr. parse_sop_content (mem_content (sp_mem p)) = Some (n, d, pr)
     \<and> fs_exists (gr_fs G) (skill_path G (sp_key p) n) (cd_files w)"
proof -
  have "curated_ok G w"
    using assms(1)
  proof induction
    case (born w) then show ?case by (simp add: sops_ok_def)
  next
    case (memory w op k) then show ?case
      using memory_step_sops_ok [of G "cd_files w" "\<lparr>me_l1 = cd_l1 w k, me_db = cd_db w\<rparr>" op] by (simp add: Let_def)
  next
    case (scanned w S now t)
    then show ?case using scan_single_db_ok [of "G\<lparr>gr_now_iso := now\<rparr>"] assms(2) by simp
  next
    case (reviewed w S now E loads model n)
    then show ?case using run_llm_review_ok [of "G\<lparr>gr_now_iso := now\<rparr>"] assms(2) by simp
  qed
  with assms(3,4) show ?thesis by (simp add: sops_ok_def has_skill_def)
qed

definition demo_graduation :: "small_fs graduation" where
  "demo_graduation = \<lparr>gr_fs = small_server, gr_base = [''/'', ''ws''], gr_limits = demo_limits, gr_yaml = demo_yaml,
     gr_roots = (\<lambda>_ _. []), gr_now_iso = ''2025-01-01T00:00:00Z''\<rparr>"

definition demo_curator :: curator_settings where
  "demo_curator = \<lparr>cu_enabled = True, cu_check_interval = 3600, cu_interval = 604800, cu_archive_days = 90,
     cu_graduation = True, cu_min_uses = 5, cu_min_days = 7, cu_review = False, cu_review_interval = 1209600,
     cu_actions = [''promote''], cu_max_batch = 20\<rparr>"

definition demo_used :: "string \<Rightarrow> string \<Rightarrow> rat \<Rightarrow> sop" where
  "demo_used i content used = \<lparr>sp_key = ''web:ann'',
     sp_mem = (demo_sop i content 0)\<lparr>mem_uses := 9, mem_used := Some used\<rparr>, sp_archived_at = None, sp_reason = None\<rparr>"

definition demo_curated :: "small_fs curated" where
  "demo_curated = \<lparr>cd_db = db_empty\<lparr>db_sops := [demo_used ''a'' demo_content 9000000, demo_used ''b'' ''old'' 1]\<rparr>,
     cd_l1 = (\<lambda>_. \<lparr>l1_max_entries = 5, l1_max_chars = 100, l1_hash = []\<rparr>), cd_files = plain_fs\<rparr>"

lemma small_keeps_files: "keeps_files small_server"
  by (auto simp: keeps_files_def small_server_def dom_update)

theorem graduated_skills_exist_witness:
  "\<exists>w p. curated_reach demo_graduation w \<and> p \<in> set (db_sops (cd_db w)) \<and> is_graduated p
     \<and> (\<exists>n d pr. parse_sop_content (mem_content (sp_mem p)) = Some (n, d, pr)
        \<and> fs_exists small_server (skill_path demo_graduation (sp_key p) n) (cd_files w))"
proof -
  let ?w = "snd (scan_single_db demo_curator (Some (demo_graduation\<lparr>gr_now_iso := ''2025''\<rparr>)) (9000001, 9000001, 9000001) demo_curated)"
  let ?p = "hd (db_sops (cd_db ?w))"
  have r: "curated_reach demo_graduation ?w"
    by (rule curated_reach.scanned, rule curated_reach.born) code_simp+
  have p: "?p \<in> set (db_sops (cd_db ?w))" "is_graduated ?p" by code_simp+
  have "gr_fs demo_graduation = small_server" by (simp add: demo_graduation_def)
  with graduated_skills_exist [OF r _ p] r p small_keeps_files show ?thesis by metis
qed

subsection \<open>What a scan changes\<close>

lemma set_status_twice [simp]: "set_status s (set_status s' p) = set_status s p"
  by (simp add: set_status_def)

lemma update_twice:
  assumes "\<And>p. sp_id (h p) = sp_id p" "\<And>p. h (h p) = h p"
  shows "update_where (\<lambda>p. sp_id p \<in> I) h (update_where (\<lambda>p. sp_id p = i) h ps) = update_where (\<lambda>p. sp_id p \<in> insert i I) h ps"
  using assms by (auto simp: update_where_def)

lemma graduate_all_rows:
  assumes "distinct (map sp_id qs)" "graduate_all G qs w = (n, w')"
  shows "\<exists>I \<subseteq> sp_id ` set qs. card I = n
     \<and> db_sops (cd_db w') = update_where (\<lambda>p. sp_id p \<in> I) (set_status ''graduated'') (db_sops (cd_db w))"
  using assms
proof (induction qs arbitrary: w n)
  case Nil
  then show ?case by (intro exI [of _ "{}"]) (simp add: update_where_def)
next
  case (Cons q qs)
  obtain ok path f where g: "graduate_single_sop G (mem_content (sp_mem q)) (sp_key q) (cd_files w) = ((ok, path), f)"
    by (metis surj_pair)
  have d: "distinct (map sp_id qs)" "sp_id q \<notin> sp_id ` set qs" using Cons.prems(1) by auto
  show ?case
  proof (cases ok)
    case True
    let ?w = "map_sops (mark_graduated (sp_id q)) (w\<lparr>cd_l1 := l1_drop (sp_key q) (sp_id q) (cd_l1 w), cd_files := f\<rparr>)"
    obtain m where r: "graduate_all G qs ?w = (m, w')" "n = Suc m"
      using Cons.prems(2) g True by (auto split: prod.splits)
    from Cons.IH [OF d(1) r(1)] obtain I where I: "I \<subseteq> sp_id ` set qs" "card I = m"
      "db_sops (cd_db w') = update_where (\<lambda>p. sp_id p \<in> I) (set_status ''graduated'') (mark_graduated (sp_id q) (db_sops (cd_db w)))"
      by simp blast
    have "card (insert (sp_id q) I) = n"
      using I(1,2) d(2) r(2) finite_subset [OF I(1)] by (subst card_insert_disjoint) auto
    moreover have "db_sops (cd_db w') = update_where (\<lambda>p. sp_id p \<in> insert (sp_id q) I) (set_status ''graduated'') (db_sops (cd_db w))"
      unfolding I(3) mark_graduated_def by (rule update_twice) simp_all
    moreover have "insert (sp_id q) I \<subseteq> sp_id ` set (q # qs)" using I(1) by auto
    ultimately show ?thesis by blast
  next
    case False
    then have "graduate_all G qs (w\<lparr>cd_files := f\<rparr>) = (n, w')" using Cons.prems(2) g by simp
    from Cons.IH [OF d(1) this] obtain I where I: "I \<subseteq> sp_id ` set qs" "card I = n"
      "db_sops (cd_db w') = update_where (\<lambda>p. sp_id p \<in> I) (set_status ''graduated'') (db_sops (cd_db w))"
      by simp blast
    show ?thesis by (rule exI [of _ I]) (use I in auto)
  qed
qed

definition unused_reason :: "int \<Rightarrow> string" where
  "unused_reason d = ''curator:'' @ show_int d @ ''d_unused''"

definition scanned_row :: "int \<Rightarrow> rat \<Rightarrow> rat \<Rightarrow> string set \<Rightarrow> sop \<Rightarrow> sop" where
  "scanned_row d t0 t1 I p =
     (if is_stale (t0 - days d) p then archive_row t1 (Some (unused_reason d)) p
      else if sp_id p \<in> I then set_status ''graduated'' p else p)"

lemma archive_stale_rows:
  assumes "distinct (map sp_id ps)"
  shows "snd (archive_stale d t0 t1 ps) = map (scanned_row d t0 t1 {}) ps"
proof -
  have "sp_id p \<in> sp_id ` set (filter Q ps) \<longleftrightarrow> Q p" if "p \<in> set ps" for p Q
    using that assms by (auto simp: distinct_map inj_on_def)
  then show ?thesis
    by (simp add: archive_stale_def Let_def update_where_def scanned_row_def unused_reason_def)
qed

text \<open>
  A scan changes only what it reports.  Rows are archived, with the reason, exactly
  when they are active and were not used since the threshold; of the other rows some that count as
  candidates are marked as graduated, all the rest stays as it was; and the two numbers it
  returns are the numbers of these rows.
\<close>

theorem scan_changes_what_it_reports:
  assumes "distinct (map sp_id (db_sops (cd_db w)))"
    and "scan_single_db S ws (t0, t1, t2) w = ((a, g), w')"
  shows "\<exists>I. db_sops (cd_db w') = map (scanned_row (cu_archive_days S) t0 t1 I) (db_sops (cd_db w))
     \<and> a = length (filter (is_stale (t0 - days (cu_archive_days S))) (db_sops (cd_db w)))
     \<and> I \<subseteq> sp_id ` {p \<in> set (db_sops (cd_db w)). \<not> is_stale (t0 - days (cu_archive_days S)) p
              \<and> graduates (cu_min_uses S) (t2 - days (cu_min_days S)) p}
     \<and> card I = g"
proof -
  let ?d = "cu_archive_days S" and ?ps = "db_sops (cd_db w)"
  let ?a = "archive_stale ?d t0 t1 ?ps" and ?Q = "graduates (cu_min_uses S) (t2 - days (cu_min_days S))"
  let ?w1 = "map_sops (\<lambda>_. snd ?a) w"
  let ?w2 = "?w1\<lparr>cd_l1 := fold (\<lambda>p. l1_drop (sp_key p) (sp_id p)) (fst ?a) (cd_l1 ?w1)\<rparr>"
  have rows: "db_sops (cd_db ?w2) = map (scanned_row ?d t0 t1 {}) ?ps"
    using archive_stale_rows [OF assms(1)] by simp
  have a: "fst ?a = filter (is_stale (t0 - days ?d)) ?ps" by (simp add: archive_stale_def Let_def)
  have ids: "sp_id (scanned_row ?d t0 t1 I p) = sp_id p" for I p by (simp add: scanned_row_def)
  consider "g = 0" "w' = ?w2" "a = length (fst ?a)"
    | G where "graduate_all G (filter ?Q (db_sops (cd_db ?w2))) ?w2 = (g, w')" "a = length (fst ?a)"
    using assms(2) by (auto simp: scan_single_db_def Let_def case_prod_beta split: option.splits if_splits prod.splits)
  then show ?thesis
  proof cases
    case 1
    with rows a show ?thesis by (intro exI [of _ "{}"]) simp
  next
    case 2
    have "distinct (map sp_id (filter ?Q (db_sops (cd_db ?w2))))"
      unfolding rows by (rule distinct_map_filter) (use assms(1) in \<open>simp add: ids comp_def\<close>)
    from graduate_all_rows [OF this 2(1)] obtain I where I: "I \<subseteq> sp_id ` set (filter ?Q (db_sops (cd_db ?w2)))"
      "card I = g" "db_sops (cd_db w') = update_where (\<lambda>p. sp_id p \<in> I) (set_status ''graduated'') (db_sops (cd_db ?w2))"
      by auto
    have i: "I \<subseteq> sp_id ` {p \<in> set ?ps. \<not> is_stale (t0 - days ?d) p \<and> ?Q p}"
    proof
      fix i assume "i \<in> I"
      with I(1) rows obtain p where p: "p \<in> set ?ps" "i = sp_id p" "?Q (scanned_row ?d t0 t1 {} p)"
        by (auto simp: ids)
      then have "\<not> is_stale (t0 - days ?d) p" by (auto simp: scanned_row_def graduates_def)
      with p show "i \<in> sp_id ` {p \<in> set ?ps. \<not> is_stale (t0 - days ?d) p \<and> ?Q p}"
        by (auto simp: scanned_row_def)
    qed
    have st: "\<not> is_stale (t0 - days ?d) p" if "p \<in> set ?ps" "sp_id p \<in> I" for p
      using that i assms(1) by (auto simp: distinct_map inj_on_def)
    have "db_sops (cd_db w') = map (scanned_row ?d t0 t1 I) ?ps"
      unfolding I(3) rows update_where_def using st by (auto simp: ids) (auto simp: scanned_row_def)
    with i I(2) 2(2) a show ?thesis by (intro exI [of _ I]) simp
  qed
qed

theorem scan_changes_what_it_reports_witness:
  "\<exists>a g w' I. scan_single_db demo_curator (Some demo_graduation) (9000001, 9000001, 9000001) demo_curated = ((a, g), w')
     \<and> db_sops (cd_db w') = map (scanned_row 90 9000001 9000001 I) (db_sops (cd_db demo_curated))
     \<and> map (\<lambda>p. mem_status (sp_mem p)) (db_sops (cd_db w')) = [''graduated'', ''archived''] \<and> card I = g \<and> g = 1"
proof -
  obtain a g w' where e: "scan_single_db demo_curator (Some demo_graduation) (9000001, 9000001, 9000001) demo_curated = ((a, g), w')"
    by (metis surj_pair)
  have d: "distinct (map sp_id (db_sops (cd_db demo_curated)))" by code_simp
  have "cu_archive_days demo_curator = 90" by (simp add: demo_curator_def)
  with scan_changes_what_it_reports [OF d e] obtain I where
    "db_sops (cd_db w') = map (scanned_row 90 9000001 9000001 I) (db_sops (cd_db demo_curated))" "card I = g"
    by auto
  moreover have "fst (scan_single_db demo_curator (Some demo_graduation) (9000001, 9000001, 9000001) demo_curated) = (1, 1)"
    "map (\<lambda>p. mem_status (sp_mem p)) (db_sops (cd_db (snd (scan_single_db demo_curator (Some demo_graduation)
       (9000001, 9000001, 9000001) demo_curated)))) = [''graduated'', ''archived'']"
    by code_simp+
  ultimately show ?thesis using e by (metis fst_conv snd_conv)
qed

text \<open>An SOP that was archived as unused and restored is archived again by the next scan: restoring is no use.\<close>

lemma restored_is_archived_again:
  "is_stale threshold p \<Longrightarrow> threshold \<le> later \<Longrightarrow> is_stale later (restore_row (archive_row now r p))"
  by (simp add: is_stale_def last_use_def restore_row_def archive_row_def set_status_def sp_active_def
      split: option.splits)

subsection \<open>A lost lock during the scan\<close>

lemma scan_all_lost:
  assumes "\<And>k. n \<le> k \<Longrightarrow> \<not> re_alive (ct_env C) k"
  shows "scan_all C names rep (W, n)
     = (rep\<lparr>sn_errors := sn_errors rep @ map (\<lambda>i. (i, LockLostError)) names\<rparr>, W, n + length names)"
  using assms by (induction names arbitrary: rep n) simp_all

text \<open>
  A lock that is lost as soon as the scan has begun goes unnoticed.  Let the cycle
  scan, let the review be switched off, and let the lock be alive at the first two checks only.
  Then the cycle touches no database, collects the loss of the lock as an error of each database,
  does not report it, and marks the scan as completed: for a whole interval the loop of
  every worker then starts no further cycle.
\<close>

theorem lost_lock_counts_as_scanned:
  assumes "ct_mode C = ScanAndReview" "\<not> cu_review (ct_settings C)"
    and "re_alive (ct_env C) 0" "re_alive (ct_env C) 1" "\<forall>k \<ge> 2. \<not> re_alive (ct_env C) k"
    and "redis_data_ok (ct_redis C)" "\<forall>t. ct_parse C (ct_show C t) = Some t"
  shows "\<exists>cy r' done.
     run_critical_section C (r, W) = (cy, r', W)
     \<and> cy_scan cy = Some \<lparr>sn_scanned = length (cw_dbs W), sn_archived = 0, sn_graduated = 0,
          sn_errors = map (\<lambda>d. (fst d, LockLostError)) (cw_dbs W)\<rparr>
     \<and> cy_error cy = Some ''review_skipped_interval'' \<and> \<not> cy_crashed cy
     \<and> get_last_scan_at (ct_redis C) (ct_parse C) r' = Some done
     \<and> (\<forall>now entered. now < done + cu_interval (ct_settings C)
          \<longrightarrow> curator_round C now entered (r', W) = (None, r', W))"
proof -
  let ?rep = "\<lparr>sn_scanned = length (cw_dbs W), sn_archived = 0, sn_graduated = 0,
    sn_errors = map (\<lambda>d. (fst d, LockLostError)) (cw_dbs W)\<rparr>"
  let ?now = "re_now (ct_env C) (2 + length (cw_dbs W))"
  let ?r' = "mark_scan_completed (ct_redis C) (ct_show C) ?now r"
  let ?cy = "new_cycle\<lparr>cy_scan := Some ?rep, cy_error := Some ''review_skipped_interval''\<rparr>"
  have "run_scan C new_cycle (W, 0) = (Inr (), new_cycle\<lparr>cy_scan := Some ?rep\<rparr>, W, 2 + length (cw_dbs W))"
    using scan_all_lost [of 2 C "map fst (cw_dbs W)"] assms(3,4,5)
    by (simp add: run_scan_def run_curator_scan_def numeral_2_eq_2 comp_def)
  then have run: "run_critical_section C (r, W) = (?cy, ?r', W)"
    using assms(1,2)
    by (simp add: run_critical_section_def run_review_if_permitted_def mark_completion_def new_cycle_def)
  have "rd_get (ct_redis C) LAST_RUN_KEY ?r' = Some (ct_show C ?now)"
    using assms(6) by (simp add: mark_scan_completed_def redis_data_ok_def)
  then have last: "get_last_scan_at (ct_redis C) (ct_parse C) ?r' = Some ?now"
    using assms(7) by (simp add: get_last_scan_at_def)
  show ?thesis
    using run last by (intro exI [of _ ?cy] exI [of _ ?r'] exI [of _ ?now])
      (auto simp: new_cycle_def curator_round_def)
qed

text \<open>A concrete text for numbers: numerator and denominator in unary.\<close>

definition demo_show :: "rat \<Rightarrow> string" where
  "demo_show t = (let (a, b) = quotient_of t
     in (if a < 0 then ''-'' else []) @ replicate (nat \<bar>a\<bar>) CHR ''1'' @ replicate (nat b) CHR ''/'')"

definition demo_parse :: "string \<Rightarrow> rat option" where
  "demo_parse s = (let a = of_nat (length (filter ((=) CHR ''1'') s)); b = of_nat (length (filter ((=) CHR ''/'') s))
     in Some ((if starts_with ''-'' s then - a else a) / b))"

lemma demo_parse_show: "demo_parse (demo_show t) = Some t"
proof -
  obtain a b where q: "quotient_of t = (a, b)" by (metis surj_pair)
  then have b: "0 < b" and t: "t = of_int a / of_int b"
    using quotient_of_denom_pos quotient_of_div by blast+
  have f: "filter ((=) c) (replicate n d) = (if c = d then replicate n d else [])" for c d :: char and n
    by (induction n) auto
  have s: "\<not> starts_with ''-'' (replicate (nat \<bar>a\<bar>) CHR ''1'' @ replicate (nat b) CHR ''/'')"
    using b by (cases "nat \<bar>a\<bar>"; cases "nat b") auto
  have r: "of_nat (nat b) = (of_int b :: rat)" "0 \<le> a \<Longrightarrow> of_nat (nat a) = (of_int a :: rat)"
    "a < 0 \<Longrightarrow> of_nat (nat (- a)) = (- of_int a :: rat)"
    using b by simp_all
  have d: "demo_show t = (if a < 0 then ''-'' else []) @ replicate (nat \<bar>a\<bar>) CHR ''1'' @ replicate (nat b) CHR ''/''"
    by (simp add: demo_show_def q)
  have n: "length (filter ((=) CHR ''1'') (demo_show t)) = nat \<bar>a\<bar>" "length (filter ((=) CHR ''/'') (demo_show t)) = nat b"
    "starts_with ''-'' (demo_show t) = (a < 0)"
    using s by (auto simp add: d f)
  have "demo_parse (demo_show t) = Some ((if a < 0 then - of_nat (nat \<bar>a\<bar>) else of_nat (nat \<bar>a\<bar>)) / of_nat (nat b))"
    unfolding demo_parse_def n Let_def ..
  then show ?thesis using r t by (simp split: if_splits)
qed

definition demo_cycle :: "(small_fs, demo_redis) curator" where
  "demo_cycle = \<lparr>ct_settings = demo_curator, ct_mode = ScanAndReview, ct_force = False,
     ct_workspace = Some demo_graduation, ct_model = None, ct_redis = demo_server, ct_show = demo_show,
     ct_parse = demo_parse, ct_loads = (\<lambda>_. None),
     ct_env = \<lparr>re_alive = (\<lambda>n. n < 2), re_now = (\<lambda>n. of_nat n), re_shown = (\<lambda>_. [])\<rparr>,
     ct_broken = (\<lambda>_. False), ct_times = (\<lambda>_. (9000001, 9000001, 9000001))\<rparr>"

definition demo_world :: "small_fs curator_world" where
  "demo_world = \<lparr>cw_dbs = [(''a.db'', cd_db demo_curated), (''b.db'', db_empty)], cw_l1 = cd_l1 demo_curated,
     cw_files = plain_fs\<rparr>"

theorem lost_lock_counts_as_scanned_witness:
  "\<exists>cy r'. run_critical_section demo_cycle (demo_empty, demo_world) = (cy, r', demo_world)
     \<and> map_option sn_errors (cy_scan cy) = Some [(''a.db'', LockLostError), (''b.db'', LockLostError)]
     \<and> cy_error cy = Some ''review_skipped_interval''"
proof -
  note e = demo_cycle_def demo_curator_def demo_world_def
  obtain cy r' where "run_critical_section demo_cycle (demo_empty, demo_world) = (cy, r', demo_world)"
    "cy_scan cy = Some \<lparr>sn_scanned = length (cw_dbs demo_world), sn_archived = 0, sn_graduated = 0,
       sn_errors = map (\<lambda>d. (fst d, LockLostError)) (cw_dbs demo_world)\<rparr>"
    "cy_error cy = Some ''review_skipped_interval''"
    using lost_lock_counts_as_scanned [of demo_cycle demo_empty demo_world] demo_data_ok demo_parse_show
    by (auto simp: demo_cycle_def demo_curator_def)
  then show ?thesis by (intro exI [of _ cy] exI [of _ r']) (simp add: demo_world_def)
qed

end
