(* ===== verification/SopExtraction.thy ===== *)
theory SopExtraction
  imports Curator Steering
begin

section \<open>Learning SOPs from sessions\<close>

text \<open>
  Models \<^verbatim>\<open>core/sop_extraction.py\<close>, \<^verbatim>\<open>core/agent/hooks/sop_tracker_hook.py\<close> and
  \<^verbatim>\<open>core/memory_archive.py\<close>: the candidates a session collects, the segments that are shown to a
  model, the reading and checking of what it answers, the search for duplicates, the extraction
  with its lock and its rate limit, and the archive of a session that was left.  The model,
  \<^verbatim>\<open>json.loads\<close>, \<^verbatim>\<open>str\<close> on other values than texts and the segmentation of words are parameters.
  The regular expression of dangerous texts is written out on code points below 256.
\<close>

subsection \<open>Candidates\<close>

text \<open>
  Redis with the commands on the fields of a hash; \<open>hr_up\<close> tells of every command whether it gets
  through.
\<close>

datatype redis_call = CallHset | CallHlen | CallHgetall | CallHdel | CallSetLock | CallDelLock | CallRatelimit | CallDelCandidates

record 'r hash_redis =
  hr_redis :: "'r redis"
  hr_hdel :: "string \<Rightarrow> string list \<Rightarrow> 'r \<Rightarrow> 'r"
  hr_up :: "redis_call \<Rightarrow> bool"

definition KEY_PREFIX :: string where "KEY_PREFIX = ''pyclaw:sop_candidates:''"
definition EVICTION_BATCH :: nat where "EVICTION_BATCH = 10"

definition candidates_key :: "string \<Rightarrow> string" where
  "candidates_key sid = KEY_PREFIX @ sid"

text \<open>The settings of the evolution, and the last prompts of the tracker.\<close>

record evolution_settings =
  ev_enabled :: bool
  ev_max_candidates :: nat
  ev_min_calls :: int
  ev_overlap :: rat
  ev_max_sops :: int
  ev_description_max :: int
  ev_procedure_max :: int

type_synonym tracker = "(string \<times> string) list"

definition tracker_prompt :: "evolution_settings \<Rightarrow> string \<Rightarrow> string option \<Rightarrow> tracker \<Rightarrow> tracker" where
  "tracker_prompt S sid prompt tr =
     (case prompt of
        Some p \<Rightarrow> if ev_enabled S \<and> p \<noteq> [] then AList.update sid (take 200 p) tr else tr
      | None \<Rightarrow> tr)"

definition cleanup_session :: "string \<Rightarrow> tracker \<Rightarrow> tracker" where
  "cleanup_session sid tr = AList.delete sid tr"

text \<open>
  The names of the tools and the id of a turn.  \<open>str\<close> is \<^verbatim>\<open>str\<close> on values that are no texts;
  \<open>synthetic\<close> is the id made from the time.
\<close>

definition text_of :: "(json \<Rightarrow> string) \<Rightarrow> json \<Rightarrow> string" where
  "text_of str v = (case v of JStr s \<Rightarrow> s | _ \<Rightarrow> str v)"

definition call_function :: "jobj \<Rightarrow> jobj option" where
  "call_function call =
     (let f = jget ''function'' call
      in if \<not> truthy f then Some [] else case f of JObj d \<Rightarrow> Some d | _ \<Rightarrow> None)"

definition called_tools :: "jobj list \<Rightarrow> json list" where
  "called_tools calls =
     filter truthy (map (\<lambda>c. case call_function c of None \<Rightarrow> JStr [] | Some d \<Rightarrow> jget_or (JStr []) ''name'' d) calls)"

definition turn_id :: "(json \<Rightarrow> string) \<Rightarrow> string \<Rightarrow> jobj list \<Rightarrow> string" where
  "turn_id str synthetic calls =
     (case calls of
        [] \<Rightarrow> synthetic
      | c # _ \<Rightarrow>
          let v = jget_or (JStr []) ''id'' c; i = (if truthy v then text_of str v else [])
          in if i = [] then synthetic else i)"

definition sop_candidate :: "string \<Rightarrow> string \<Rightarrow> json list \<Rightarrow> rat \<Rightarrow> json" where
  "sop_candidate tid user_msg names now =
     JObj [(''turn_id'', JStr tid), (''user_msg'', JStr (take 200 user_msg)), (''tool_names'', JList names),
           (''timestamp'', JFloat now)]"

text \<open>
  \<^verbatim>\<open>_maybe_evict\<close>: \<open>stamp\<close> is the number that \<^verbatim>\<open>float(json.loads(value).get("timestamp", 0))\<close> gives,
  0 when it raises one of the caught exceptions.
\<close>

definition eviction_batch :: "(string \<Rightarrow> rat) \<Rightarrow> (string \<times> string) list \<Rightarrow> string list" where
  "eviction_batch stamp es = map fst (take EVICTION_BATCH (sort_key (\<lambda>e. stamp (snd e)) es))"

definition maybe_evict :: "'r hash_redis \<Rightarrow> evolution_settings \<Rightarrow> (string \<Rightarrow> rat) \<Rightarrow> string \<Rightarrow> 'r \<Rightarrow> 'r" where
  "maybe_evict H S stamp key r =
     (let es = rd_hgetall (hr_redis H) key r in
      if \<not> hr_up H CallHlen then r
      else if length es \<le> ev_max_candidates S then r
      else if \<not> hr_up H CallHgetall then r
      else let old = eviction_batch stamp es
           in if old = [] \<or> \<not> hr_up H CallHdel then r else hr_hdel H key old r)"

definition tracker_response ::
    "'r hash_redis \<Rightarrow> evolution_settings \<Rightarrow> (json \<Rightarrow> string) \<Rightarrow> (json \<Rightarrow> string) \<Rightarrow> (string \<Rightarrow> rat) \<Rightarrow> string \<Rightarrow> rat
       \<Rightarrow> tracker \<Rightarrow> string \<Rightarrow> jobj list \<Rightarrow> 'r \<Rightarrow> 'r" where
  "tracker_response H S str dumps stamp synthetic now tr sid calls r =
     (if \<not> ev_enabled S \<or> calls = [] then r
      else let tid = turn_id str synthetic calls;
               user_msg = (case map_of tr sid of None \<Rightarrow> [] | Some m \<Rightarrow> m)
           in if \<not> hr_up H CallHset then r
              else maybe_evict H S stamp (candidates_key sid)
                     (rd_hset (hr_redis H) (candidates_key sid) tid
                        (dumps (sop_candidate tid user_msg (called_tools calls) now)) r))"

subsection \<open>Segments of a session\<close>

text \<open>
  \<^verbatim>\<open>_extract_assistant_text\<close> on the content of an entry: its blocks are objects, not dictionaries, so
  that nothing is taken from a list of blocks.
\<close>

definition extract_assistant_text :: "content \<Rightarrow> string" where
  "extract_assistant_text c = (case c of CText s \<Rightarrow> s | CBlocks bs \<Rightarrow> [])"

definition call_ids :: "(json \<Rightarrow> string) \<Rightarrow> jobj list \<Rightarrow> string list" where
  "call_ids str calls = filter (\<lambda>i. i \<noteq> []) (map (\<lambda>c. text_of str (jget_or (JStr []) ''id'' c)) calls)"

definition tool_lines :: "(json \<Rightarrow> string) \<Rightarrow> jobj list \<Rightarrow> string list" where
  "tool_lines str calls =
     List.map_filter (\<lambda>c. case call_function c of
         None \<Rightarrow> None
       | Some d \<Rightarrow> Some (''  - '' @ text_of str (jget_or (JStr []) ''name'' d) @ ''(''
                        @ text_of str (jget_or (JStr []) ''arguments'' d) @ '')'')) calls"

text \<open>The results that follow, up to the next message of the user or the assistant.\<close>

fun tool_results :: "string list \<Rightarrow> session_entry option list \<Rightarrow> string list" where
  "tool_results ids [] = []"
| "tool_results ids (None # es) = tool_results ids es"
| "tool_results ids (Some e # es) =
     (case body e of
        MessageEntry RTool c _ tid _ \<Rightarrow>
          (let tx = extract_assistant_text c
           in (case tid of
                 Some i \<Rightarrow> if i \<in> set ids \<and> tx \<noteq> []
                          then [''    -> '' @ take 300 tx @ (if 300 < length tx then ''...'' else [])] else []
               | None \<Rightarrow> []) @ tool_results ids es)
      | MessageEntry _ _ _ _ _ \<Rightarrow> []
      | _ \<Rightarrow> tool_results ids es)"

definition sop_segment :: "(json \<Rightarrow> string) \<Rightarrow> nat \<Rightarrow> content \<Rightarrow> jobj list \<Rightarrow> session_entry option list \<Rightarrow> string" where
  "sop_segment str k c calls following =
     (let tx = extract_assistant_text c; ls = tool_lines str calls; rs = tool_results (call_ids str calls) following
      in py_join nl ([''# Task Segment '' @ show_nat k]
           @ (if tx \<noteq> [] then [''ASSISTANT INTENT (for context): '' @ take 200 tx] else [])
           @ (if ls \<noteq> [] then [''TOOL CALLS:'' @ nl @ py_join nl ls] else [])
           @ (if rs \<noteq> [] then [''TOOL RESULTS:'' @ nl @ py_join nl rs] else [])))"

text \<open>
  The walk over the entries in their order (each with those that follow).  The order has no
  duplicates, so the set of assistant ids that were seen changes nothing.
\<close>

fun segments_from :: "(json \<Rightarrow> string) \<Rightarrow> string set \<Rightarrow> nat \<Rightarrow> session_entry option list \<Rightarrow> string list" where
  "segments_from str cands k [] = []"
| "segments_from str cands k (e # es) =
     (case map_option body e of
        Some (MessageEntry RAssistant c (Some calls) _ _) \<Rightarrow>
          if calls \<noteq> [] \<and> set (call_ids str calls) \<inter> cands \<noteq> {}
          then sop_segment str k c calls es # segments_from str cands (Suc k) es
          else segments_from str cands k es
      | _ \<Rightarrow> segments_from str cands k es)"

definition build_segments :: "(json \<Rightarrow> string) \<Rightarrow> session_tree \<Rightarrow> string set \<Rightarrow> string" where
  "build_segments str t cands =
     py_join (nl @ nl @ ''---'' @ nl @ nl) (segments_from str cands 1 (map (get_entry t) (order t)))"

subsection \<open>Reading and checking what the model answers\<close>

definition wrapper_keys :: "string list" where
  "wrapper_keys = [''sops'', ''procedures'', ''results'', ''data'', ''items'']"

fun is_jlist :: "json \<Rightarrow> bool" where
  "is_jlist (JList vs) = True"
| "is_jlist _ = False"

definition unwrap_list :: "json \<Rightarrow> json list option" where
  "unwrap_list v =
     (case v of
        JList vs \<Rightarrow> Some vs
      | JObj d \<Rightarrow> map_option (\<lambda>k. as_list (jget k d)) (find (\<lambda>k. is_jlist (jget k d)) wrapper_keys)
      | _ \<Rightarrow> None)"

definition parse_llm_output :: "(string \<Rightarrow> json option) \<Rightarrow> string \<Rightarrow> jobj list option" where
  "parse_llm_output loads tx =
     (if py_strip tx = [] then None
      else let cleaned = py_strip tx;
               inner = (case fenced_body cleaned of None \<Rightarrow> cleaned | Some b \<Rightarrow> py_strip b)
           in map_option (\<lambda>vs. map as_obj (filter is_jobj vs)) (Option.bind (model_json loads inner) unwrap_list))"

text \<open>The expressions of \<^verbatim>\<open>_DANGEROUS_PATTERNS\<close>, each at a position of the text in lower case.\<close>

definition word_char :: "char \<Rightarrow> bool" where
  "word_char c = (let n = (of_char c :: nat) in 97 \<le> n \<and> n \<le> 122 \<or> 48 \<le> n \<and> n \<le> 57)"

fun pipe_sh :: "string \<Rightarrow> bool" where
  "pipe_sh [] = False"
| "pipe_sh (c # cs) =
     (c = CHR ''|'' \<and> starts_with ''sh'' (dropWhile py_space cs) \<or> c \<noteq> CHR 0x0A \<and> pipe_sh cs)"

definition curl_at :: "string \<Rightarrow> bool" where
  "curl_at s = (starts_with ''curl'' s \<and> drop 4 s \<noteq> [] \<and> py_space (hd (drop 4 s))
                \<and> pipe_sh (dropWhile py_space (drop 4 s)))"

definition allowed_hosts :: "string list" where
  "allowed_hosts = [''github.com'', ''docs.python.org'', ''docs.djangoproject.com'', ''stackoverflow.com'']"

definition allowed_host :: "string \<Rightarrow> bool" where
  "allowed_host s =
     list_ex (\<lambda>h. starts_with h s \<and> (let q = drop (length h) s
        in q = [] \<or> q = nl \<or> hd q \<in> set ''/:?#'')) allowed_hosts"

definition url_at :: "string \<Rightarrow> bool" where
  "url_at s =
     (let foreign = (\<lambda>r. r \<noteq> [] \<and> \<not> py_space (hd r) \<and> \<not> allowed_host r)
      in starts_with ''http://'' s \<and> foreign (drop 7 s) \<or> starts_with ''https://'' s \<and> foreign (drop 8 s))"

definition dangerous_at :: "string \<Rightarrow> bool" where
  "dangerous_at s =
     (starts_with ''~/.ssh'' s \<or> starts_with ''id_rsa'' s \<or> starts_with ''.aws/credentials'' s
      \<or> starts_with ''sk-'' s \<and> 20 \<le> length (takeWhile word_char (drop 3 s))
      \<or> curl_at s \<or> url_at s)"

fun any_suffix :: "(string \<Rightarrow> bool) \<Rightarrow> string \<Rightarrow> bool" where
  "any_suffix P [] = P []"
| "any_suffix P (c # cs) = (P (c # cs) \<or> any_suffix P cs)"

definition dangerous :: "string \<Rightarrow> bool" where
  "dangerous s = any_suffix dangerous_at (map lower_char s)"

fun type_name :: "json \<Rightarrow> string" where
  "type_name JNull = ''NoneType''"
| "type_name (JBool b) = ''bool''"
| "type_name (JInt i) = ''int''"
| "type_name (JFloat x) = ''float''"
| "type_name (JStr s) = ''str''"
| "type_name (JList vs) = ''list''"
| "type_name (JObj d) = ''dict''"

definition apostrophed :: "string \<Rightarrow> string" where
  "apostrophed s = [CHR 0x27] @ s @ [CHR 0x27]"

text \<open>\<^verbatim>\<open>_validate_sop\<close>: the reason of a refusal, or the three texts.\<close>

definition validate_sop :: "int \<Rightarrow> int \<Rightarrow> jobj \<Rightarrow> string + string \<times> string \<times> string" where
  "validate_sop description_max procedure_max d =
     (case jget ''name'' d of
        JStr name \<Rightarrow>
          if py_strip name = [] then Inl (''missing or invalid '' @ apostrophed ''name'')
          else if length name > 80 then Inl ''name too long (>80 chars)''
          else (case jget ''description'' d of
            JStr descr \<Rightarrow>
              if int (length descr) > description_max
              then Inl (''description too long (>'' @ show_int description_max @ '' chars)'')
              else (case jget ''procedure'' d of
                JStr proc \<Rightarrow>
                  if py_strip proc = [] then Inl ''procedure is empty''
                  else if int (length proc) > procedure_max
                  then Inl (''procedure too long (>'' @ show_int procedure_max @ '' chars)'')
                  else if dangerous (name @ nl @ descr @ nl @ proc)
                  then Inl ''contains dangerous pattern (PII/credentials/external URL)''
                  else Inr (name, descr, proc)
              | v \<Rightarrow> Inl (apostrophed ''procedure'' @ '' MUST be a string (got '' @ type_name v @ '')''))
          | _ \<Rightarrow> Inl (apostrophed ''description'' @ '' not a string''))
      | _ \<Rightarrow> Inl (''missing or invalid '' @ apostrophed ''name''))"

definition format_sop_content :: "string \<times> string \<times> string \<Rightarrow> string" where
  "format_sop_content sop = (case sop of (name, descr, proc) \<Rightarrow>
     py_strip name @ nl @ py_strip descr @ nl @ py_strip proc)"

subsection \<open>Duplicates\<close>

text \<open>\<open>tokens\<close> is \<^verbatim>\<open>jieba.cut_for_search\<close>; numbers are exact.\<close>

definition token_set :: "(string \<Rightarrow> string list) \<Rightarrow> string \<Rightarrow> string list" where
  "token_set tokens s = remdups (map (\<lambda>t. py_lower (py_strip t)) (filter (\<lambda>t. py_strip t \<noteq> []) (tokens s)))"

definition jaccard_overlap :: "(string \<Rightarrow> string list) \<Rightarrow> string \<Rightarrow> string \<Rightarrow> rat" where
  "jaccard_overlap tokens a b =
     (let ta = token_set tokens a; tb = token_set tokens b
      in if length ta < 2 \<or> length tb < 2 then 0
         else of_nat (length (filter (\<lambda>t. t \<in> set tb) ta)) / of_nat (length (remdups (ta @ tb))))"

text \<open>
  \<^verbatim>\<open>_is_duplicate\<close>: searching fails or gives the best entry, and counts as a use of it.
\<close>

definition sop_is_duplicate ::
    "fts \<Rightarrow> (string \<Rightarrow> string list) \<Rightarrow> bool \<Rightarrow> rat \<Rightarrow> rat \<Rightarrow> string \<Rightarrow> memories \<Rightarrow> bool \<times> memories" where
  "sop_is_duplicate X tokens search_fails threshold now content m =
     (if search_fails then (False, m)
      else let (found, db) = sqlite_search X (take 200 content) (Some [''L3'']) 1 None now (me_db m)
           in ((case found of
                  [] \<Rightarrow> False
                | e # _ \<Rightarrow> if length content < 20 then py_in (py_strip content) (mem_content e)
                           else threshold \<le> jaccard_overlap tokens content (mem_content e)),
               m\<lparr>me_db := db\<rparr>))"

subsection \<open>The extraction\<close>

record extraction_result =
  xr_spawned :: bool
  xr_skip :: "string option"
  xr_returned :: nat
  xr_written :: nat
  xr_duplicate :: nat
  xr_invalid :: nat
  xr_error :: "string option"
  xr_reasons :: "string list"

definition skipped :: "bool \<Rightarrow> string \<Rightarrow> string option \<Rightarrow> extraction_result" where
  "skipped spawned reason err =
     \<lparr>xr_spawned = spawned, xr_skip = Some reason, xr_returned = 0, xr_written = 0, xr_duplicate = 0,
      xr_invalid = 0, xr_error = err, xr_reasons = []\<rparr>"

definition started :: extraction_result where
  "started = \<lparr>xr_spawned = True, xr_skip = None, xr_returned = 0, xr_written = 0, xr_duplicate = 0, xr_invalid = 0,
     xr_error = None, xr_reasons = []\<rparr>"

text \<open>
  What an extraction works with.  \<open>xe_model\<close> is the model at each of two attempts, on the values that
  are put into the prompt; \<open>xe_load\<close> the session store (\<^const>\<open>Inl\<close>: it raises); \<open>xe_uuid\<close> and \<open>xe_now\<close> the
  readings for the SOP of that number; \<open>xe_meanwhile\<close> is what others do in Redis while the model is asked.
\<close>

record 'r extraction =
  xe_hash :: "'r hash_redis"
  xe_settings :: evolution_settings
  xe_loads :: "string \<Rightarrow> json option"
  xe_str :: "json \<Rightarrow> string"
  xe_load :: "string \<Rightarrow> unit + session_tree option"
  xe_model :: "nat \<Rightarrow> nat \<times> int \<times> int \<times> int \<times> string \<Rightarrow> string option"
  xe_fts :: fts
  xe_tokens :: "string \<Rightarrow> string list"
  xe_search_fails :: "nat \<Rightarrow> bool"
  xe_store_fails :: "nat \<Rightarrow> bool"
  xe_uuid :: "nat \<Rightarrow> string"
  xe_now :: "nat \<Rightarrow> rat"
  xe_meanwhile :: "'r \<Rightarrow> 'r"

definition call_llm_with_retry :: "'r extraction \<Rightarrow> nat \<times> int \<times> int \<times> int \<times> string \<Rightarrow> jobj list" where
  "call_llm_with_retry X prompt =
     (case Option.bind (xe_model X 0 prompt) (parse_llm_output (xe_loads X)) of
        Some sops \<Rightarrow> sops
      | None \<Rightarrow> (case Option.bind (xe_model X 1 prompt) (parse_llm_output (xe_loads X)) of
                   Some sops \<Rightarrow> sops | None \<Rightarrow> []))"

definition cleanup_candidates :: "'r extraction \<Rightarrow> string \<Rightarrow> 'r \<Rightarrow> 'r" where
  "cleanup_candidates X sid r =
     (if hr_up (xe_hash X) CallDelCandidates then rd_del (hr_redis (xe_hash X)) (candidates_key sid) r else r)"

definition sop_entry :: "string \<Rightarrow> rat \<Rightarrow> string \<Rightarrow> string \<Rightarrow> memory_entry" where
  "sop_entry uuid now sid content =
     \<lparr>mem_id = uuid, mem_layer = ''L3'', mem_type = ''auto_sop'', mem_content = content, mem_source = Some sid,
      mem_created = now, mem_updated = now, mem_used = None, mem_uses = 0, mem_status = ''active''\<rparr>"

text \<open>The loop over the SOPs; \<open>k\<close> is the number of the SOP.\<close>

fun learn_sops ::
    "'r extraction \<Rightarrow> string \<Rightarrow> nat \<Rightarrow> jobj list \<Rightarrow> extraction_result \<Rightarrow> memories \<Rightarrow> extraction_result \<times> memories" where
  "learn_sops X sid k [] res m = (res, m)"
| "learn_sops X sid k (d # ds) res m =
     (let S = xe_settings X in
      case validate_sop (ev_description_max S) (ev_procedure_max S) d of
        Inl reason \<Rightarrow>
          learn_sops X sid (Suc k) ds
            (res\<lparr>xr_invalid := xr_invalid res + 1, xr_reasons := xr_reasons res @ [reason]\<rparr>) m
      | Inr sop \<Rightarrow>
          let content = format_sop_content sop;
              (dup, m') = sop_is_duplicate (xe_fts X) (xe_tokens X) (xe_search_fails X k) (ev_overlap S) (xe_now X k) content m
          in if dup then learn_sops X sid (Suc k) ds (res\<lparr>xr_duplicate := xr_duplicate res + 1\<rparr>) m'
             else if xe_store_fails X k then learn_sops X sid (Suc k) ds res m'
             else (case composite_store (derive_session_key sid) (sop_entry (xe_uuid X k) (xe_now X k) sid content) m' of
                     Inl e \<Rightarrow> learn_sops X sid (Suc k) ds res m'
                   | Inr m2 \<Rightarrow> learn_sops X sid (Suc k) ds (res\<lparr>xr_written := xr_written res + 1\<rparr>) m2))"

text \<open>\<^verbatim>\<open>s.count("---")\<close>.\<close>

definition count_segments :: "string \<Rightarrow> nat" where
  "count_segments s = count_parts ''---'' s + 1"

definition extract_sop_background ::
    "'r extraction \<Rightarrow> string \<Rightarrow> 'r \<times> memories \<Rightarrow> extraction_result \<times> 'r \<times> memories" where
  "extract_sop_background X sid st =
     (let (r, m) = st; S = xe_settings X;
          none = started;
          raw = rd_hgetall (hr_redis (xe_hash X)) (candidates_key sid) r in
      if \<not> hr_up (xe_hash X) CallHgetall then (none\<lparr>xr_error := Some ''redis_read_failed''\<rparr>, st)
      else if raw = [] then (none\<lparr>xr_skip := Some ''no_candidates''\<rparr>, st)
      else case xe_load X sid of
        Inl e \<Rightarrow> (none\<lparr>xr_error := Some ''session_load_failed''\<rparr>, st)
      | Inr None \<Rightarrow> (none\<lparr>xr_skip := Some ''session_not_found''\<rparr>, st)
      | Inr (Some t) \<Rightarrow>
          let segs = build_segments (xe_str X) t (fst ` set raw) in
          if py_strip segs = [] then (none\<lparr>xr_skip := Some ''no_segments''\<rparr>, cleanup_candidates X sid r, m)
          else let sops = call_llm_with_retry X (count_segments segs, ev_max_sops S, ev_description_max S, ev_procedure_max S, segs);
                   r' = xe_meanwhile X r;
                   res = none\<lparr>xr_returned := length sops\<rparr>
               in if sops = [] then (res, cleanup_candidates X sid r', m)
                  else let (res', m') = learn_sops X sid 0 (py_take (ev_max_sops S) sops) res m
                       in (res', cleanup_candidates X sid r', m'))"

subsection \<open>When an extraction runs\<close>

definition EXTRACTING_LOCK_TTL_SECONDS :: int where "EXTRACTING_LOCK_TTL_SECONDS = 600"
definition EXTRACT_RATELIMIT_SECONDS :: int where "EXTRACT_RATELIMIT_SECONDS = 60"

definition extracting_key :: "string \<Rightarrow> string" where
  "extracting_key sid = ''pyclaw:sop_extracting:'' @ sid"

text \<open>\<^verbatim>\<open>SET k 1 EX n NX\<close>.\<close>

definition set_nx_ex :: "'r redis \<Rightarrow> string \<Rightarrow> int \<Rightarrow> 'r \<Rightarrow> bool \<times> 'r" where
  "set_nx_ex R k n r = rd_set_nx_px R k ''1'' (1000 * n) r"

definition check_user_ratelimit :: "'r hash_redis \<Rightarrow> string \<Rightarrow> 'r \<Rightarrow> bool \<times> 'r" where
  "check_user_ratelimit H skey r =
     (if hr_up H CallRatelimit
      then set_nx_ex (hr_redis H) (''pyclaw:sop_ratelimit:'' @ skey) EXTRACT_RATELIMIT_SECONDS r
      else (True, r))"

definition entry_calls :: "(string \<Rightarrow> json option) \<Rightarrow> string \<Rightarrow> nat" where
  "entry_calls loads raw =
     (case loads raw of
        Some (JObj d) \<Rightarrow> (case jget ''tool_names'' d of JList ns \<Rightarrow> length ns | _ \<Rightarrow> 1)
      | _ \<Rightarrow> 1)"

definition total_tool_calls :: "(string \<Rightarrow> json option) \<Rightarrow> (string \<times> string) list \<Rightarrow> nat" where
  "total_tool_calls loads raw = sum_list (map (\<lambda>e. entry_calls loads (snd e)) raw)"

definition release_extraction :: "'r hash_redis \<Rightarrow> string \<Rightarrow> 'r \<Rightarrow> 'r" where
  "release_extraction H sid r =
     (if hr_up H CallDelLock then rd_del (hr_redis H) (extracting_key sid) r else r)"

text \<open>\<^verbatim>\<open>_extract_then_reset\<close>, the task that is spawned.\<close>

definition extract_then_reset ::
    "'r extraction \<Rightarrow> string \<Rightarrow> nudge_hook option \<Rightarrow> 'r \<times> memories \<Rightarrow> nudge_hook option \<times> 'r \<times> memories" where
  "extract_then_reset X sid nudge st =
     (let (_, r, m) = extract_sop_background X sid st
      in (map_option (nudge_reset sid) nudge, release_extraction (xe_hash X) sid r, m))"

text \<open>
  \<^verbatim>\<open>maybe_spawn_extraction\<close>: whether the task was spawned; the task itself runs later.
\<close>

definition maybe_spawn_extraction ::
    "'r extraction \<Rightarrow> rat \<Rightarrow> rat \<Rightarrow> int option \<Rightarrow> string \<Rightarrow> task_manager \<Rightarrow> 'r \<Rightarrow> bool \<times> task_manager \<times> 'r" where
  "maybe_spawn_extraction X now now' min_calls sid tm r =
     (let S = xe_settings X; H = xe_hash X;
          threshold = (case min_calls of Some n \<Rightarrow> n | None \<Rightarrow> ev_min_calls S) in
      if \<not> ev_enabled S then (False, tm, r)
      else if \<not> hr_up H CallHgetall then (False, tm, r)
      else if int (total_tool_calls (xe_loads X) (rd_hgetall (hr_redis H) (candidates_key sid) r)) < threshold
      then (False, tm, r)
      else if \<not> hr_up H CallSetLock then (False, tm, r)
      else let (got, r') = set_nx_ex (hr_redis H) (extracting_key sid) EXTRACTING_LOCK_TTL_SECONDS r
           in if \<not> got then (False, tm, r')
              else case spawn now now' (''sop-extract:'' @ sid) ''evolution'' None tm of
                     (Inr tid, tm') \<Rightarrow> (True, tm', r')
                   | (Inl e, tm') \<Rightarrow> (False, tm', release_extraction H sid r'))"

definition extract_sops_sync ::
    "'r extraction \<Rightarrow> int option \<Rightarrow> string \<Rightarrow> nudge_hook option \<Rightarrow> 'r \<times> memories
       \<Rightarrow> extraction_result \<times> nudge_hook option \<times> 'r \<times> memories" where
  "extract_sops_sync X min_calls sid nudge st =
     (let (r, m) = st; S = xe_settings X; H = xe_hash X;
          raw = rd_hgetall (hr_redis H) (candidates_key sid) r;
          threshold = (case min_calls of Some n \<Rightarrow> n | None \<Rightarrow> ev_min_calls S) in
      if \<not> ev_enabled S then (skipped False ''disabled'' None, nudge, st)
      else if \<not> hr_up H CallHgetall then (skipped False ''redis_error'' (Some ''hgetall_failed''), nudge, st)
      else if raw = [] then (skipped False ''no_candidates'' None, nudge, st)
      else if int (total_tool_calls (xe_loads X) raw) < threshold then (skipped False ''below_threshold'' None, nudge, st)
      else if \<not> hr_up H CallSetLock then (skipped False ''redis_error'' (Some ''lock_acquire_failed''), nudge, st)
      else let (got, r1) = set_nx_ex (hr_redis H) (extracting_key sid) EXTRACTING_LOCK_TTL_SECONDS r
           in if \<not> got then (skipped False ''lock_held'' None, nudge, r1, m)
              else let (res, r2, m2) = extract_sop_background X sid (r1, m)
                   in (res, map_option (nudge_reset sid) nudge, release_extraction H sid r2, m2))"

text \<open>\<^verbatim>\<open>after_compaction\<close> of the tracker; \<open>wired\<close> says that the stores and the model are there.\<close>

definition tracker_compacted ::
    "'r extraction \<Rightarrow> rat \<Rightarrow> rat \<Rightarrow> bool \<Rightarrow> bool \<Rightarrow> string \<Rightarrow> tracker \<times> task_manager \<times> 'r \<Rightarrow> tracker \<times> task_manager \<times> 'r" where
  "tracker_compacted X now now' wired compacted sid st =
     (let (tr, tm, r) = st
      in if \<not> ev_enabled (xe_settings X) \<or> \<not> wired \<or> \<not> compacted then (cleanup_session sid tr, tm, r)
         else let (_, tm', r') = maybe_spawn_extraction X now now' None sid tm r
              in (cleanup_session sid tr, tm', r'))"

subsection \<open>The reply to the user\<close>

text \<open>\<^verbatim>\<open>format_extraction_result_zh\<close>, its Chinese texts in English.\<close>

definition skip_reply :: "string \<Rightarrow> string option" where
  "skip_reply = map_of
     [(''disabled'', ''Self-evolution is not enabled.''),
      (''no_candidates'', ''This session has no tool calls yet. Let the bot do some work first, then try /extract again.''),
      (''below_threshold'', ''Not enough work in this session, use the tools some more and try again.''),
      (''lock_held'', ''A learning task is already running, try again later.''),
      (''session_not_found'', ''The current session was not found, check whether it was switched.''),
      (''no_segments'', ''The candidates were compacted away, nothing can be extracted this time.''),
      (''redis_error'', ''The storage service is unavailable, try again later.'')]"

definition format_extraction_result :: "extraction_result \<Rightarrow> string" where
  "format_extraction_result res =
     (case Option.bind (xr_skip res) skip_reply of
        Some tx \<Rightarrow> tx
      | None \<Rightarrow>
          if opt_truthy (xr_error res)
          then ''Learning failed ('' @ the (xr_error res) @ ''), see the log.''
          else if xr_returned res = 0 then ''The work of this session is not general enough, no new SOP was learned.''
          else if xr_written res > 0
          then ''Learned '' @ show_nat (xr_written res) @ '' new SOPs!''
               @ (let extras = (if xr_duplicate res > 0 then [show_nat (xr_duplicate res) @ '' exist already''] else [])
                            @ (if xr_invalid res > 0 then [show_nat (xr_invalid res) @ '' failed the checks''] else [])
                  in if extras = [] then [] else ''('' @ py_join '','' extras @ '')'')
          else if xr_duplicate res > 0 \<and> xr_invalid res = 0
          then show_nat (xr_duplicate res) @ '' patterns found, all of them learned already.''
          else if xr_invalid res > 0 \<and> xr_duplicate res = 0
          then show_nat (xr_invalid res) @ '' candidate patterns found, none passed the checks.''
          else show_nat (xr_returned res) @ '' candidate patterns found: '' @ show_nat (xr_duplicate res)
               @ '' exist already, '' @ show_nat (xr_invalid res) @ '' failed the checks.'')"

subsection \<open>The archive of a session\<close>

text \<open>
  \<^verbatim>\<open>archive_session_background\<close>, run when a session is replaced by a new one.
\<close>

definition MIN_USER_MESSAGES_FOR_ARCHIVE :: nat where "MIN_USER_MESSAGES_FOR_ARCHIVE = 3"
definition SIMPLE_SUMMARY_HEAD :: nat where "SIMPLE_SUMMARY_HEAD = 500"
definition SIMPLE_SUMMARY_TAIL :: nat where "SIMPLE_SUMMARY_TAIL = 500"

definition message_role :: "session_entry \<Rightarrow> role option" where
  "message_role e = (case body e of MessageEntry r _ _ _ _ \<Rightarrow> Some r | _ \<Rightarrow> None)"

definition count_user_messages :: "session_tree \<Rightarrow> nat" where
  "count_user_messages t = length (filter (\<lambda>e. message_role (snd e) = Some RUser) (entries t))"

definition summary_line :: "session_entry \<Rightarrow> string option" where
  "summary_line e =
     (case body e of
        MessageEntry r c _ _ _ \<Rightarrow>
          if r = RTool \<or> py_strip (extract_text c) = [] then None
          else Some (role_name r @ '': '' @ extract_text c)
      | _ \<Rightarrow> None)"

definition simple_summary :: "session_tree \<Rightarrow> string" where
  "simple_summary t =
     (let joined = py_join nl (List.map_filter (\<lambda>e. summary_line (snd e)) (entries t))
      in if length joined \<le> SIMPLE_SUMMARY_HEAD + SIMPLE_SUMMARY_TAIL + 10 then joined
         else take SIMPLE_SUMMARY_HEAD joined @ nl @ ''...'' @ nl
              @ drop (length joined - SIMPLE_SUMMARY_TAIL) joined)"

text \<open>\<open>loaded\<close> is what the session store gives, \<^const>\<open>Inl\<close> its exception.\<close>

definition archive_session_background ::
    "unit + session_tree option \<Rightarrow> string \<Rightarrow> rat \<Rightarrow> string \<Rightarrow> memory_db \<Rightarrow> memory_db" where
  "archive_session_background loaded uuid now sid db =
     (case loaded of
        Inr (Some t) \<Rightarrow>
          if count_user_messages t < MIN_USER_MESSAGES_FOR_ARCHIVE then db
          else if simple_summary t = [] then db
          else sqlite_archive_session uuid now (derive_session_key sid) sid (simple_summary t) db
      | _ \<Rightarrow> db)"

lemma summary_is_bounded: "length (simple_summary t) \<le> 1010"
  by (simp add: simple_summary_def Let_def SIMPLE_SUMMARY_HEAD_def SIMPLE_SUMMARY_TAIL_def nl_def)

subsection \<open>What is learned was checked\<close>

lemma validate_sop_Inr:
  assumes "validate_sop dm pm d = Inr (n, descr, proc)"
  shows "py_strip n \<noteq> []" "length n \<le> 80" "int (length descr) \<le> dm" "py_strip proc \<noteq> []" "int (length proc) \<le> pm"
    "\<not> dangerous (n @ nl @ descr @ nl @ proc)"
  using assms by (auto simp: validate_sop_def split: json.splits if_splits)

definition checked_sop :: "evolution_settings \<Rightarrow> string \<Rightarrow> memory_entry \<Rightarrow> bool" where
  "checked_sop S sid e \<longleftrightarrow>
     (\<exists>n descr proc. mem_content e = py_strip n @ nl @ py_strip descr @ nl @ py_strip proc
        \<and> py_strip n \<noteq> [] \<and> length n \<le> 80 \<and> int (length descr) \<le> ev_description_max S
        \<and> py_strip proc \<noteq> [] \<and> int (length proc) \<le> ev_procedure_max S
        \<and> \<not> dangerous (n @ nl @ descr @ nl @ proc))
     \<and> mem_type e = ''auto_sop'' \<and> mem_source e = Some sid \<and> mem_status e = ''active''"

text \<open>What a row is, apart from how often and when it was used.\<close>

definition row_core :: "sop \<Rightarrow> string \<times> string \<times> string \<times> string \<times> string option" where
  "row_core p = (sp_id p, mem_content (sp_mem p), mem_status (sp_mem p), mem_type (sp_mem p), mem_source (sp_mem p))"

lemma row_core_bump [simp]: "row_core (bump now p) = row_core p"
  by (simp add: row_core_def bump_def)

lemma search_keeps_cores:
  "map row_core (db_sops (snd (sqlite_search X q ls n pl now db))) = map row_core (db_sops db)"
proof -
  have "map row_core (update_where P (bump now) ps) = map row_core ps" for P ps
    by (rule update_where_keys) simp
  then show ?thesis by (simp add: sqlite_search_def search_procedures_def Let_def split: option.split)
qed

lemma duplicate_keeps_cores:
  assumes "sop_is_duplicate X tokens fails th now content m = (dup, m')"
  shows "row_core ` set (db_sops (me_db m')) = row_core ` set (db_sops (me_db m))"
  using assms arg_cong [where f = set, OF search_keeps_cores [of X "take 200 content" "Some [''L3'']" 1 None now "me_db m"]]
  by (auto simp: sop_is_duplicate_def case_prod_beta Let_def split: if_splits)

definition known_or_checked :: "evolution_settings \<Rightarrow> string \<Rightarrow> memories \<Rightarrow> memories \<Rightarrow> bool" where
  "known_or_checked S sid m0 m \<longleftrightarrow>
     (\<forall>p \<in> set (db_sops (me_db m)). row_core p \<in> row_core ` set (db_sops (me_db m0)) \<or> checked_sop S sid (sp_mem p))"

lemma checked_core:
  assumes "checked_sop S sid (sp_mem p)" "row_core q = row_core p"
  shows "checked_sop S sid (sp_mem q)"
  using assms unfolding row_core_def checked_sop_def by simp

lemma known_after_search:
  assumes "known_or_checked S sid m0 m" "row_core ` set (db_sops (me_db m')) = row_core ` set (db_sops (me_db m))"
  shows "known_or_checked S sid m0 m'"
  unfolding known_or_checked_def
proof
  fix q assume "q \<in> set (db_sops (me_db m'))"
  with assms(2) obtain p where p: "p \<in> set (db_sops (me_db m))" "row_core q = row_core p" by (metis imageE imageI)
  with assms(1) show "row_core q \<in> row_core ` set (db_sops (me_db m0)) \<or> checked_sop S sid (sp_mem q)"
    using checked_core unfolding known_or_checked_def by metis
qed

lemma known_after_store:
  assumes "known_or_checked S sid m0 m" "composite_store skey e m = Inr m'" "checked_sop S sid e" "mem_layer e = ''L3''"
  shows "known_or_checked S sid m0 m'"
proof -
  have db: "db_sops (me_db m') = upsert_sop skey e (db_sops (me_db m))"
    using assms(2,4) by (auto simp: composite_store_def sqlite_store_def)
  have "checked_sop S sid (merge_memory e old)" for old
    using assms(3) by (simp add: checked_sop_def merge_memory_def)
  then show ?thesis
    using assms(1,3) upsert_sop_set [of skey e "db_sops (me_db m)"] unfolding known_or_checked_def db by fastforce
qed

lemma learn_sops_known:
  assumes "learn_sops X sid k ds res m = (res', m')" "known_or_checked (xe_settings X) sid m0 m"
  shows "known_or_checked (xe_settings X) sid m0 m'"
  using assms
proof (induction ds arbitrary: k res m)
  case (Cons d ds)
  let ?S = "xe_settings X"
  show ?case
  proof (cases "validate_sop (ev_description_max ?S) (ev_procedure_max ?S) d")
    case (Inl reason)
    with Cons show ?thesis by (simp add: Let_def)
  next
    case (Inr sop)
    obtain n descr proc where sop: "sop = (n, descr, proc)" by (cases sop)
    obtain dup m1 where d: "sop_is_duplicate (xe_fts X) (xe_tokens X) (xe_search_fails X k) (ev_overlap ?S)
        (xe_now X k) (format_sop_content sop) m = (dup, m1)"
      by (metis surj_pair)
    have m1: "known_or_checked ?S sid m0 m1"
      by (rule known_after_search [OF Cons.prems(2) duplicate_keeps_cores [OF d]])
    let ?e = "sop_entry (xe_uuid X k) (xe_now X k) sid (format_sop_content sop)"
    have e: "checked_sop ?S sid ?e" "mem_layer ?e = ''L3''"
      using validate_sop_Inr [OF Inr [unfolded sop]]
      by (auto simp: checked_sop_def sop_entry_def format_sop_content_def sop)
    show ?thesis
    proof (cases "dup \<or> xe_store_fails X k")
      case True
      with Cons.prems(1) Inr d m1 show ?thesis by (auto simp: Let_def split: if_splits elim: Cons.IH)
    next
      case False
      show ?thesis
      proof (cases "composite_store (derive_session_key sid) ?e m1")
        case (Inl err)
        with Cons.prems(1) Inr d m1 False show ?thesis by (auto simp: Let_def elim: Cons.IH)
      next
        case (Inr m2)
        from known_after_store [OF m1 Inr e] Cons.prems(1) Inr False d
          \<open>validate_sop (ev_description_max ?S) (ev_procedure_max ?S) d = Inr sop\<close>
        show ?thesis by (auto simp: Let_def elim: Cons.IH)
      qed
    qed
  qed
qed simp

text \<open>
  Property C33.  Whatever the model answers, an extraction adds only checked SOPs.  Every row of the
  table after it is, but for its use, a row from before, or an active automatic SOP of this
  session made of a name, a description and a procedure that are within the configured lengths, of
  which name and procedure are not blank and whose text matches none of the dangerous patterns.
\<close>

theorem learned_sops_are_checked:
  assumes "extract_sop_background X sid (r, m) = (res, r', m')"
    and "p \<in> set (db_sops (me_db m'))"
  shows "row_core p \<in> row_core ` set (db_sops (me_db m)) \<or> checked_sop (xe_settings X) sid (sp_mem p)"
proof -
  have k: "known_or_checked (xe_settings X) sid m m" by (simp add: known_or_checked_def)
  have "m' = m \<or> (\<exists>k ds res0 res1. learn_sops X sid k ds res0 m = (res1, m'))"
    using assms(1)
    by (auto simp: extract_sop_background_def Let_def split: if_splits sum.splits option.splits prod.splits)
  with k learn_sops_known have "known_or_checked (xe_settings X) sid m m'" by metis
  with assms(2) show ?thesis by (simp add: known_or_checked_def)
qed

subsection \<open>A concrete extraction\<close>

definition demo_hash :: "demo_redis hash_redis" where
  "demo_hash = \<lparr>hr_redis = demo_server,
     hr_hdel = (\<lambda>k fs r. r\<lparr>dm_hash := (dm_hash r)(k := filter (\<lambda>e. fst e \<notin> set fs) (dm_hash r k))\<rparr>), hr_up = (\<lambda>_. True)\<rparr>"

definition demo_evolution :: evolution_settings where
  "demo_evolution = \<lparr>ev_enabled = True, ev_max_candidates = 100, ev_min_calls = 2, ev_overlap = 3 / 5,
     ev_max_sops = 5, ev_description_max = 150, ev_procedure_max = 5000\<rparr>"

definition demo_turn_call :: jobj where
  "demo_turn_call = [(''id'', JStr ''c1''), (''function'', JObj [(''name'', JStr ''bash''), (''arguments'', JStr ''{}'')])]"

definition demo_session :: session_tree where
  "demo_session = (new_tree demo_header)\<lparr>
     entries := [(''a'', \<lparr>entry_id = ''a'', parent_id = None, timestamp = [],
                    body = MessageEntry RAssistant (CText ''I look'') (Some [demo_turn_call]) None False\<rparr>),
                 (''b'', \<lparr>entry_id = ''b'', parent_id = Some ''a'', timestamp = [],
                    body = MessageEntry RTool (CText ''done'') None (Some ''c1'') False\<rparr>)],
     order := [''a'', ''b''], leaf_id := Some ''b''\<rparr>"

definition demo_sops_answer :: json where
  "demo_sops_answer = JList [
     JObj [(''name'', JStr ''deploy-app''), (''description'', JStr ''when due''), (''procedure'', JStr ''1. build'')],
     JObj [(''name'', JStr ''leak''), (''description'', JStr ''x''), (''procedure'', JStr ''cat ~/.SSH/id'')],
     JObj [(''name'', JInt 7)]]"

definition demo_extraction :: "demo_redis extraction" where
  "demo_extraction = \<lparr>xe_hash = demo_hash, xe_settings = demo_evolution,
     xe_loads = (\<lambda>s. if s = ''[]'' then Some demo_sops_answer else None), xe_str = (\<lambda>_. ''?''),
     xe_load = (\<lambda>_. Inr (Some demo_session)), xe_model = (\<lambda>k _. if k = 0 then Some ''no'' else Some ''```json [] ```''),
     xe_fts = \<lparr>fx_min_chars = 3, fx_query = Some, fx_rank = (\<lambda>_ es. map fst es)\<rparr>, xe_tokens = (\<lambda>s. split_on CHR '' '' [] s),
     xe_search_fails = (\<lambda>_. False), xe_store_fails = (\<lambda>_. False),
     xe_uuid = (\<lambda>k. ''u'' @ show_nat k), xe_now = (\<lambda>k. of_nat k), xe_meanwhile = (\<lambda>r. r)\<rparr>"

definition demo_candidates :: demo_redis where
  "demo_candidates = rd_hset demo_server (candidates_key ''web:ann:s:1'') ''c1'' ''{}'' demo_empty"

text \<open>One SOP is written, two are refused; the candidates are gone.\<close>

lemma demo_extracts:
  "(let (res, r', m') = extract_sop_background demo_extraction ''web:ann:s:1'' (demo_candidates, demo_memories)
    in (xr_returned res, xr_written res, xr_duplicate res, xr_invalid res, xr_error res,
        map row_core (db_sops (me_db m')), rd_hgetall demo_server (candidates_key ''web:ann:s:1'') r'))
   = (3, 1, 0, 2, None, [(''u0'', ''deploy-app'' @ nl @ ''when due'' @ nl @ ''1. build'', ''active'', ''auto_sop'', Some ''web:ann:s:1'')], [])"
  by code_simp

theorem learned_sops_are_checked_witness:
  "\<exists>res r' m' p. extract_sop_background demo_extraction ''web:ann:s:1'' (demo_candidates, demo_memories) = (res, r', m')
     \<and> p \<in> set (db_sops (me_db m')) \<and> sp_id p = ''u0'' \<and> checked_sop demo_evolution ''web:ann:s:1'' (sp_mem p)"
proof -
  obtain res r' m' where e: "extract_sop_background demo_extraction ''web:ann:s:1'' (demo_candidates, demo_memories) = (res, r', m')"
    by (metis surj_pair)
  with demo_extracts have "map row_core (db_sops (me_db m'))
     = [(''u0'', ''deploy-app'' @ nl @ ''when due'' @ nl @ ''1. build'', ''active'', ''auto_sop'', Some ''web:ann:s:1'')]"
    by simp
  then obtain p where p: "p \<in> set (db_sops (me_db m'))" "sp_id p = ''u0''"
    by (auto simp: row_core_def map_eq_Cons_conv)
  have "db_sops (me_db demo_memories) = []" "xe_settings demo_extraction = demo_evolution"
    by (simp_all add: demo_memories_def db_empty_def demo_extraction_def)
  with learned_sops_are_checked [OF e p(1)] e p show ?thesis by auto
qed

text \<open>
  A check by patterns can be passed: a trusted host as the name of a user in front of another host.
\<close>

lemma user_part_hides_the_host:
  "dangerous ''see https://evil.com/a'' \<and> dangerous ''see https://github.com.evil.com/a'' \<and> dangerous ''curl x | SH''
   \<and> \<not> dangerous ''see https://github.com:x@evil.com/a''"
  by code_simp

subsection \<open>From the model to the skill\<close>

lemma py_find_first:
  assumes "c \<notin> set a"
  shows "py_find [c] (a @ c # b) = Some (length a)"
  using assms by (induction a) auto

text \<open>
  A learned SOP keeps its parts.  What was stored for a checked SOP, whose name is a
  slug and whose description is one line, parses at graduation into just the name, the description
  and the procedure of the model, without the white space around them.
\<close>

theorem learned_sop_parses_back:
  assumes "validate_sop dm pm d = Inr (n, descr, proc)"
    and "skill_name_ok (py_strip n)" "CHR 0x0A \<notin> set (py_strip descr)"
  shows "parse_sop_content (format_sop_content (n, descr, proc)) = Some (py_strip n, py_strip descr, py_strip proc)"
proof -
  let ?c = "py_strip n @ CHR 0x0A # py_strip descr @ CHR 0x0A # py_strip proc"
  have f: "format_sop_content (n, descr, proc) = ?c" by (simp add: format_sop_content_def nl_def)
  have nm: "CHR 0x0A \<notin> set (py_strip n)"
    using assms(2) by (auto simp: skill_name_ok_def name_char_def list_all_iff split: list.splits)
  have p: "py_strip proc \<noteq> []" by (rule validate_sop_Inr(4) [OF assms(1)])
  have ne: "py_strip n \<noteq> []" "\<not> py_space (hd (py_strip n))" "\<not> py_space (last (py_strip proc))"
    using validate_sop_Inr(1) [OF assms(1)] hd_py_strip last_py_strip p by auto
  have "py_strip ?c = ?c" by (rule py_strip_id) (use ne p in simp)
  then have "py_strip ?c \<noteq> []" by simp
  moreover have "sop_parts ?c = Some (py_strip n, py_strip descr, py_strip proc)"
    using py_find_first [OF nm, of "py_strip descr @ CHR 0x0A # py_strip proc"] py_find_first [OF assms(3), of "py_strip proc"]
    by (simp add: sop_parts_def nl_def)
  ultimately show ?thesis using assms(2) p by (simp add: f parse_sop_content_def)
qed

theorem learned_sop_parses_back_witness:
  "validate_sop 150 5000 [(''name'', JStr '' deploy-app''), (''description'', JStr ''when due''), (''procedure'', JStr ''1. build'')]
     = Inr ('' deploy-app'', ''when due'', ''1. build'')
   \<and> parse_sop_content (format_sop_content ('' deploy-app'', ''when due'', ''1. build''))
     = Some (''deploy-app'', ''when due'', ''1. build'')"
proof -
  have v: "validate_sop 150 5000 [(''name'', JStr '' deploy-app''), (''description'', JStr ''when due''), (''procedure'', JStr ''1. build'')]
     = Inr ('' deploy-app'', ''when due'', ''1. build'')" by code_simp
  have s: "py_strip '' deploy-app'' = ''deploy-app''" "py_strip ''when due'' = ''when due''" "py_strip ''1. build'' = ''1. build''"
    by code_simp+
  have n: "skill_name_ok (py_strip '' deploy-app'')" "CHR 0x0A \<notin> set (py_strip ''when due'')" by code_simp+
  from learned_sop_parses_back [OF v n] v show ?thesis unfolding s by blast
qed

subsection \<open>One extraction at a time\<close>

text \<open>
  While an extraction of a session runs no other one of that session begins.  Once a
  worker has spawned the task, every further attempt on any worker, spawned or synchronous, is
  refused before the model is asked or a memory is touched, as long as the lock was not released and
  ten minutes have not passed.
\<close>

theorem extractions_exclude_each_other:
  assumes "redis_expiry_ok (hr_redis (xe_hash X))"
    and "maybe_spawn_extraction X now now' calls sid tm r = (True, tm', r1)"
    and "xe_hash Y = xe_hash X" "0 \<le> d" "d < 600000"
  shows "fst (maybe_spawn_extraction Y now2 now2' calls2 sid tm2 (rd_pass (hr_redis (xe_hash X)) d r1)) = False
    \<and> (let (res, _, _, m') = extract_sops_sync Y calls2 sid nudge (rd_pass (hr_redis (xe_hash X)) d r1, m)
       in \<not> xr_spawned res \<and> m' = m)"
proof -
  let ?R = "hr_redis (xe_hash X)" and ?k = "extracting_key sid"
  let ?r = "rd_pass ?R d r1"
  have free: "rd_get ?R ?k r = None" "r1 = snd (rd_set_nx_px ?R ?k ''1'' 600000 r)"
    using assms(1,2) unfolding redis_expiry_ok_def
    by (auto simp: maybe_spawn_extraction_def set_nx_ex_def EXTRACTING_LOCK_TTL_SECONDS_def Let_def case_prod_beta
        split: if_splits sum.splits prod.splits)
  have "rd_get ?R ?k r1 = Some ''1''" "rd_pttl ?R ?k r1 = Some 600000"
    using assms(1) free unfolding redis_expiry_ok_def by simp_all
  then have held: "rd_get ?R ?k ?r = Some ''1''"
    using assms(1,4,5) unfolding redis_expiry_ok_def by simp
  have nx: "rd_set_nx_px ?R ?k ''1'' 600000 ?r = (False, ?r)"
    using assms(1) held unfolding redis_expiry_ok_def by (intro prod_eqI) simp_all
  have "fst (maybe_spawn_extraction Y now2 now2' calls2 sid tm2 ?r) = False"
    using nx by (simp add: maybe_spawn_extraction_def set_nx_ex_def EXTRACTING_LOCK_TTL_SECONDS_def Let_def assms(3))
  moreover have "let (res, _, _, m') = extract_sops_sync Y calls2 sid nudge (?r, m) in \<not> xr_spawned res \<and> m' = m"
    using nx by (simp add: extract_sops_sync_def set_nx_ex_def EXTRACTING_LOCK_TTL_SECONDS_def Let_def assms(3) skipped_def)
  ultimately show ?thesis ..
qed

theorem extractions_exclude_each_other_witness:
  "\<exists>tm' r1. maybe_spawn_extraction demo_extraction 0 0 (Some 1) ''web:ann:s:1'' (tm_init 5) demo_candidates = (True, tm', r1)
     \<and> fst (maybe_spawn_extraction demo_extraction 9 9 None ''web:ann:s:1'' tm' (rd_pass demo_server 599999 r1)) = False"
proof -
  obtain tm' r1 where e: "maybe_spawn_extraction demo_extraction 0 0 (Some 1) ''web:ann:s:1'' (tm_init 5) demo_candidates = (True, tm', r1)"
  proof -
    have "fst (maybe_spawn_extraction demo_extraction 0 0 (Some 1) ''web:ann:s:1'' (tm_init 5) demo_candidates) = True"
      by code_simp
    then show ?thesis using that by (metis prod.collapse)
  qed
  have R: "hr_redis (xe_hash demo_extraction) = demo_server" by (simp add: demo_extraction_def demo_hash_def)
  have ok: "redis_expiry_ok (hr_redis (xe_hash demo_extraction))" unfolding R by (rule demo_expiry_ok)
  show ?thesis
    using e extractions_exclude_each_other [OF ok e refl, of 599999 9 9 None tm'] by (auto simp: R)
qed

text \<open>
  The lock is a bare mark: whoever ends removes it, also when his ten minutes are over and it is
  another worker's by now.
\<close>

lemma release_takes_any_lock:
  assumes "redis_expiry_ok (hr_redis H)" "hr_up H CallDelLock"
  shows "rd_get (hr_redis H) (extracting_key sid) (release_extraction H sid r) = None"
  using assms by (simp add: release_extraction_def redis_expiry_ok_def)

text \<open>
  Candidates that the session collects while the model is asked are deleted with those it was asked about.
\<close>

lemma later_candidates_are_lost:
  assumes "redis_data_ok (hr_redis (xe_hash X))" "hr_up (xe_hash X) CallDelCandidates"
  shows "rd_hgetall (hr_redis (xe_hash X)) (candidates_key sid) (cleanup_candidates X sid (xe_meanwhile X r)) = []"
  using assms by (simp add: cleanup_candidates_def redis_data_ok_def)

text \<open>Being found as a possible duplicate counts as a use, so that an SOP that was never used can graduate.\<close>

lemma duplicates_count_as_uses:
  "(let m1 = demo_memories\<lparr>me_db := db_empty\<lparr>db_sops := [(demo_used ''a'' demo_content 0)\<lparr>sp_mem := demo_sop ''a'' demo_content 0\<rparr>]\<rparr>\<rparr>;
        step = (\<lambda>m. snd (sop_is_duplicate (xe_fts demo_extraction) (xe_tokens demo_extraction) False (3 / 5) 9 demo_content m));
        m6 = step (step (step (step (step m1))))
    in (map (graduates 5 1) (db_sops (me_db m1)), map (graduates 5 1) (db_sops (me_db m6)))) = ([False], [True])"
  by code_simp

subsection \<open>The number of candidates\<close>

text \<open>Documented behaviour of \<^verbatim>\<open>HDEL\<close>: it removes the fields it names.\<close>

definition hdel_ok :: "'r hash_redis \<Rightarrow> bool" where
  "hdel_ok H \<longleftrightarrow> (\<forall>k fs r. rd_hgetall (hr_redis H) k (hr_hdel H k fs r)
      = filter (\<lambda>e. fst e \<notin> set fs) (rd_hgetall (hr_redis H) k r))"

lemma length_hash: "distinct (map fst es) \<Longrightarrow> length es = card (dom (map_of es))"
  by (metis distinct_card dom_map_of_conv_image_fst length_map set_map)

text \<open>
  While Redis answers, a session never has more candidates than the configured number:
  one more response keeps it within the bound.
\<close>

theorem candidates_are_bounded:
  assumes "redis_data_ok (hr_redis H)" "hdel_ok H" "\<forall>c. hr_up H c"
    and "length (rd_hgetall (hr_redis H) (candidates_key sid) r) \<le> ev_max_candidates S"
  shows "length (rd_hgetall (hr_redis H) (candidates_key sid)
           (tracker_response H S str dumps stamp synthetic now tr sid calls r)) \<le> ev_max_candidates S"
proof (cases "ev_enabled S \<and> calls \<noteq> []")
  case False
  with assms(4) show ?thesis by (auto simp: tracker_response_def)
next
  case True
  let ?R = "hr_redis H" and ?k = "candidates_key sid" and ?tid = "turn_id str synthetic calls"
  obtain v where resp: "tracker_response H S str dumps stamp synthetic now tr sid calls r
      = maybe_evict H S stamp ?k (rd_hset ?R ?k ?tid v r)"
    using True assms(3) by (simp add: tracker_response_def Let_def)
  let ?r = "rd_hset ?R ?k ?tid v r"
  let ?es = "rd_hgetall ?R ?k ?r"
  have d: "distinct (map fst (rd_hgetall ?R k' r'))" for k' r' using assms(1) by (simp add: redis_data_ok_def)
  have dom: "dom (map_of ?es) = insert ?tid (dom (map_of (rd_hgetall ?R ?k r)))"
    using assms(1) by (simp add: redis_data_ok_def)
  have "card (insert x A) \<le> card A + 1" if "finite A" for x :: string and A using that by (simp add: card_insert_if)
  then have n: "length ?es \<le> ev_max_candidates S + 1"
    unfolding length_hash [OF d] dom using assms(4) [unfolded length_hash [OF d]]
    by (meson add_le_mono1 finite_dom_map_of le_trans)
  show ?thesis
  proof (cases "length ?es \<le> ev_max_candidates S")
    case True
    then show ?thesis by (simp add: resp maybe_evict_def Let_def)
  next
    case False
    let ?old = "eviction_batch stamp ?es"
    have "?es \<noteq> []" using False by auto
    then obtain e es where e: "sort_key (\<lambda>e. stamp (snd e)) ?es = e # es"
      by (metis length_sort length_0_conv list.exhaust)
    then have old: "fst e \<in> set ?old" "?old \<noteq> []"
      by (simp_all add: eviction_batch_def EVICTION_BATCH_def)
    have "e \<in> set ?es" using e by (metis list.set_intros(1) set_sort)
    then have "filter (\<lambda>e. fst e \<notin> set ?old) ?es \<noteq> ?es" using old(1) by (metis filter_id_conv)
    then have "length (filter (\<lambda>e. fst e \<notin> set ?old) ?es) < length ?es"
      by (metis filter_id_conv length_filter_less)
    with n old(2) False show ?thesis
      using assms(2,3) by (simp add: resp maybe_evict_def Let_def hdel_ok_def)
  qed
qed

lemma demo_hdel_ok: "hdel_ok demo_hash"
proof -
  have "filter (\<lambda>e. fst e \<notin> A) al = AList.restrict (- A) al" for A and al :: "(string \<times> string) list"
    by (auto simp: AList.restrict_eq intro!: filter_cong)
  then show ?thesis by (simp add: hdel_ok_def demo_hash_def clearjunk_restrict)
qed

theorem candidates_are_bounded_witness:
  "length (rd_hgetall demo_server (candidates_key ''s'') (tracker_response demo_hash (demo_evolution\<lparr>ev_max_candidates := 1\<rparr>)
      (\<lambda>_. []) (\<lambda>_. []) (\<lambda>_. 0) ''t'' 1 [] ''s'' [demo_turn_call]
      (rd_hset demo_server (candidates_key ''s'') ''old'' [] demo_empty))) \<le> 1"
proof -
  have R: "hr_redis demo_hash = demo_server" "\<forall>c. hr_up demo_hash c" by (simp_all add: demo_hash_def)
  have ok: "redis_data_ok (hr_redis demo_hash)" unfolding R by (rule demo_data_ok)
  have l: "length (rd_hgetall (hr_redis demo_hash) (candidates_key ''s'')
      (rd_hset demo_server (candidates_key ''s'') ''old'' [] demo_empty))
      \<le> ev_max_candidates (demo_evolution\<lparr>ev_max_candidates := 1\<rparr>)"
    by code_simp
  show ?thesis
    using candidates_are_bounded [OF ok demo_hdel_ok R(2) l, of "\<lambda>_. []" "\<lambda>_. []" "\<lambda>_. 0" "''t''" 1 "[]" "[demo_turn_call]"]
    by (simp add: R(1))
qed

end
