(* ===== verification/Mcp.thy ===== *)
theory Mcp
  imports Tools Tasks Sandbox FileTools
begin

section \<open>Imported tools: MCP servers\<close>

text \<open>
  Models \<^verbatim>\<open>integrations/mcp/settings.py\<close>, \<^verbatim>\<open>adapter.py\<close>, \<^verbatim>\<open>client_manager.py\<close> and the command of
  \<^verbatim>\<open>core/commands/mcp.py\<close>: the checks of the settings, the adapter that makes a tool of the
  registry from a tool of a server, connecting, restarting and losing servers, and what the user is
  shown.  The group of client sessions is code of the MCP library: a record of what connecting
  does and of the tools it then lists, with its documented behaviour as a predicate.  Operations
  on one server hold its lock and are single steps.
\<close>

subsection \<open>Settings\<close>

record mcp_config =
  mcp_command :: string
  mcp_args :: "string list"
  mcp_env :: "(string \<times> string) list"
  mcp_enabled :: bool
  mcp_trust :: bool
  mcp_forced_class :: "string option"
  mcp_forced_tier :: "tier option"
  mcp_connect_timeout :: rat
  mcp_call_timeout :: rat
  mcp_sandbox :: bool
  mcp_sandbox_config :: json

definition rstrip_slash :: "string \<Rightarrow> string" where
  "rstrip_slash s = rev (dropWhile (\<lambda>c. c = CHR ''/'') (rev s))"

text \<open>\<^verbatim>\<open>s.rsplit("/", 1)[-1]\<close>: what follows the last slash.\<close>

definition basename :: "string \<Rightarrow> string" where
  "basename s = rev (takeWhile (\<lambda>c. c \<noteq> CHR ''/'') (rev s))"

definition command_auto_exempts_sandbox :: "string \<Rightarrow> bool" where
  "command_auto_exempts_sandbox command =
     (if command = [] then False else basename (rstrip_slash command) \<in> set [''npx'', ''uvx''])"

definition resolve_sandbox_default :: "string \<Rightarrow> bool option \<Rightarrow> bool" where
  "resolve_sandbox_default command enabled =
     (case enabled of None \<Rightarrow> \<not> command_auto_exempts_sandbox command | Some b \<Rightarrow> b)"

text \<open>
  The regular expression \<^verbatim>\<open>^\{env:([A-Z_][A-Z0-9_]*)\}$\<close>; the final \<^verbatim>\<open>$\<close> also matches before a
  line feed at the end.
\<close>

definition upper_char :: "char \<Rightarrow> bool" where
  "upper_char c = (let n = (of_char c :: nat) in 65 \<le> n \<and> n \<le> 90 \<or> c = CHR ''_'')"

definition upper_or_digit :: "char \<Rightarrow> bool" where
  "upper_or_digit c = (upper_char c \<or> (let n = (of_char c :: nat) in 48 \<le> n \<and> n \<le> 57))"

definition env_placeholder :: "string \<Rightarrow> string option" where
  "env_placeholder s =
     (if \<not> starts_with ''{env:'' s then None
      else let name = takeWhile upper_or_digit (drop 5 s); rest = dropWhile upper_or_digit (drop 5 s)
           in if name \<noteq> [] \<and> upper_char (hd name) \<and> (rest = ''}'' \<or> rest = ''}'' @ nl) then Some name else None)"

datatype env_value = Resolved string | Literal string | MissingEnvVar

definition substitute_env_placeholder :: "(string \<Rightarrow> string option) \<Rightarrow> string \<Rightarrow> env_value" where
  "substitute_env_placeholder getenv v =
     (case env_placeholder v of
        None \<Rightarrow> Literal v
      | Some name \<Rightarrow> (case getenv name of None \<Rightarrow> MissingEnvVar | Some x \<Rightarrow> Resolved x))"

text \<open>\<^verbatim>\<open>_validate_server_keys\<close>: the first key and the part of it that is forbidden.\<close>

definition forbidden_key :: "string list \<Rightarrow> (string \<times> string) option" where
  "forbidden_key keys =
     List.find (\<lambda>(k, p). py_in p k) (concat (map (\<lambda>k. [(k, '':''), (k, ''__'')]) keys))"

subsection \<open>The adapter of a tool\<close>

record remote_tool =
  rt_name :: string
  rt_description :: "string option"
  rt_schema :: jobj
  rt_read_only :: "bool option"

definition derive_tool_class :: "mcp_config \<Rightarrow> remote_tool \<Rightarrow> string" where
  "derive_tool_class cfg rt =
     (case mcp_forced_class cfg of
        Some c \<Rightarrow> c
      | None \<Rightarrow> if mcp_trust cfg \<and> rt_read_only rt = Some True then ''read'' else ''write'')"

definition canonical_name :: "string \<Rightarrow> string \<Rightarrow> string" where
  "canonical_name server tool = server @ '':'' @ tool"

text \<open>\<^verbatim>\<open>MCPToolAdapter.__post_init__\<close>; \<^const>\<open>None\<close> is its \<^verbatim>\<open>ValueError\<close>.\<close>

definition new_adapter :: "string \<Rightarrow> mcp_config \<Rightarrow> remote_tool \<Rightarrow> tool option" where
  "new_adapter server cfg rt =
     (if py_in '':'' (rt_name rt) then None
      else Some \<lparr>t_name = canonical_name server (rt_name rt),
                 t_description = (case rt_description rt of None \<Rightarrow> [] | Some d \<Rightarrow> d),
                 t_params = (if rt_schema rt = [] then [(''type'', JStr ''object''), (''properties'', JObj [])] else rt_schema rt),
                 t_side_effect = (derive_tool_class cfg rt \<noteq> ''read''), t_class = Some (derive_tool_class cfg rt),
                 t_mcp = True, t_timeout = JNull, t_max_output = JNull, t_forced = mcp_forced_tier cfg,
                 t_server = Some server\<rparr>)"

datatype mcp_block =
    McpText string
  | McpImage string string
  | McpAudio nat string
  | McpEmbedded string
  | McpLink string
  | McpOther string

fun convert_content_block :: "mcp_block \<Rightarrow> content_block" where
  "convert_content_block (McpText s) = TextBlock s"
| "convert_content_block (McpImage d m) = ImageBlock d m"
| "convert_content_block (McpAudio n m) = TextBlock (''[audio: '' @ show_nat n @ '' bytes, '' @ m @ '']'')"
| "convert_content_block (McpEmbedded uri) = TextBlock (''[resource: '' @ uri @ '']'')"
| "convert_content_block (McpLink uri) = TextBlock (''[resource: '' @ uri @ '']'')"
| "convert_content_block (McpOther ty) = TextBlock (''[unsupported content block: '' @ ty @ '']'')"

text \<open>What a call comes to in the library: a result, the time limit, or an exception.\<close>

datatype mcp_call =
    CallResult "mcp_block list" bool
  | CallTimeout
  | CallClosed string
  | CallOSError "int option" string
  | CallMcpError "int option" string
  | CallOther string string

definition dead_errnos :: "int list" where "dead_errnos = [32, 104, 9]"
definition connection_loss_codes :: "int list" where "connection_loss_codes = [- 32000, - 32099]"

text \<open>
  \<^verbatim>\<open>MCPToolAdapter.execute\<close>.  The adapter keeps its own time limit and gives its own result for
  it.  \<open>show\<close> is the text of a number.
\<close>

definition adapter_execute :: "(rat \<Rightarrow> string) \<Rightarrow> string \<Rightarrow> mcp_config \<Rightarrow> string \<Rightarrow> string \<Rightarrow> mcp_call \<Rightarrow> tool_run" where
  "adapter_execute show server cfg name cid outcome =
     (case outcome of
        CallResult bs err \<Rightarrow>
          RunResult \<lparr>tr_call_id = cid,
             tr_content = (if bs = [] then [TextBlock []] else map convert_content_block bs), tr_error = err\<rparr>
      | CallTimeout \<Rightarrow>
          RunResult (error_result cid (''MCP tool '' @ py_repr name @ '' timed out after '' @ show (mcp_call_timeout cfg) @ ''s''))
      | CallClosed ty \<Rightarrow> RunServerDead server
      | CallOSError no msg \<Rightarrow>
          if (case no of None \<Rightarrow> False | Some n \<Rightarrow> n \<in> set dead_errnos) then RunServerDead server
          else RunResult (error_result cid (name @ '' raised OSError: '' @ msg))
      | CallMcpError code msg \<Rightarrow>
          if (case code of None \<Rightarrow> False | Some c \<Rightarrow> c \<in> set connection_loss_codes) then RunServerDead server
          else RunResult (error_result cid (name @ '' raised McpError: '' @ msg))
      | CallOther ty msg \<Rightarrow> RunRaised ty msg)"

subsection \<open>The group of sessions, a parameter\<close>

text \<open>
  \<^verbatim>\<open>ClientSessionGroup\<close>: connecting to a command gives a session or fails; the group lists the tools of
  its sessions under their keys.
\<close>

record stdio_params =
  sp_command :: string
  sp_args :: "string list"
  sp_env :: "(string \<times> string) list option"

datatype connect_outcome =
    Connected_session nat
  | ConnectTimeout
  | ConnectMcpError string
  | ConnectError string string
  | ConnectOther

record 'g sdk =
  sdk_connect :: "stdio_params \<Rightarrow> 'g \<Rightarrow> connect_outcome \<times> 'g"
  sdk_tools :: "'g \<Rightarrow> (string \<times> remote_tool \<times> nat) list"

text \<open>
  Its documented behaviour: the keys of the tools are their names and are distinct; a connection
  that succeeds adds the tools of a new session, none of them under a key that exists; one that
  fails adds nothing.
\<close>

definition sdk_ok :: "'g sdk \<Rightarrow> bool" where
  "sdk_ok D \<longleftrightarrow>
     (\<forall>g. distinct (map fst (sdk_tools D g)) \<and> (\<forall>(k, rt, s) \<in> set (sdk_tools D g). k = rt_name rt))
   \<and> (\<forall>p g s g'. sdk_connect D p g = (Connected_session s, g') \<longrightarrow>
        s \<notin> (snd \<circ> snd) ` set (sdk_tools D g)
        \<and> (\<exists>ts. sdk_tools D g' = sdk_tools D g @ ts \<and> (\<forall>t \<in> set ts. snd (snd t) = s)))
   \<and> (\<forall>p g out g'. sdk_connect D p g = (out, g') \<and> (\<nexists>s. out = Connected_session s) \<longrightarrow> sdk_tools D g' = sdk_tools D g)"

subsection \<open>The manager\<close>

datatype conn_status = IsConnected | IsFailed | IsDisabled | IsPending

fun status_name :: "conn_status \<Rightarrow> string" where
  "status_name IsConnected = ''connected''"
| "status_name IsFailed = ''failed''"
| "status_name IsDisabled = ''disabled''"
| "status_name IsPending = ''pending''"

record server_status =
  ss_status :: conn_status
  ss_tools :: nat
  ss_connected_at :: "rat option"
  ss_reason :: "string option"

definition plain_status :: "conn_status \<Rightarrow> string option \<Rightarrow> server_status" where
  "plain_status st reason = \<lparr>ss_status = st, ss_tools = 0, ss_connected_at = None, ss_reason = reason\<rparr>"

record 'g mcp_manager =
  mm_servers :: "(string \<times> server_status) list"
  mm_adapters :: "(string \<times> (tool \<times> string) list) list"
  mm_registry :: "registry option"
  mm_buffers :: "(string \<times> string list) list"
  mm_group :: 'g
  mm_ready :: bool
  mm_supervisor :: "string option"

text \<open>What stays: the settings, the library, the sandbox policy, the environment, the text of numbers.\<close>

record 'g mcp =
  mc_on :: bool
  mc_configs :: "(string \<times> mcp_config) list"
  mc_sdk :: "'g sdk"
  mc_policy :: "policy option"
  mc_file :: "string \<Rightarrow> string"
  mc_getenv :: "string \<Rightarrow> string option"
  mc_show :: "rat \<Rightarrow> string"

definition new_manager :: "'g mcp \<Rightarrow> 'g \<Rightarrow> 'g mcp_manager" where
  "new_manager M g =
     \<lparr>mm_servers = map (\<lambda>(n, cfg). (n, plain_status (if mcp_enabled cfg then IsPending else IsDisabled) None)) (mc_configs M),
      mm_adapters = [], mm_registry = None, mm_buffers = [], mm_group = g, mm_ready = False, mm_supervisor = None\<rparr>"

definition enabled_servers :: "'g mcp \<Rightarrow> (string \<times> mcp_config) list" where
  "enabled_servers M = filter (\<lambda>(n, cfg). mcp_enabled cfg) (mc_configs M)"

definition sandbox_backend :: "'g mcp \<Rightarrow> string" where
  "sandbox_backend M = (case mc_policy M of None \<Rightarrow> ''none'' | Some p \<Rightarrow> policy_backend p)"

definition adapters_of :: "string \<Rightarrow> 'g mcp_manager \<Rightarrow> (tool \<times> string) list" where
  "adapters_of name m = (case map_of (mm_adapters m) name of None \<Rightarrow> [] | Some as \<Rightarrow> as)"

definition set_status_of :: "string \<Rightarrow> server_status \<Rightarrow> 'g mcp_manager \<Rightarrow> 'g mcp_manager" where
  "set_status_of name st m = m\<lparr>mm_servers := AList.update name st (mm_servers m)\<rparr>"

definition fail_server :: "string \<Rightarrow> string \<Rightarrow> 'g mcp_manager \<Rightarrow> 'g mcp_manager" where
  "fail_server name reason = set_status_of name (plain_status IsFailed (Some reason))"

subsection \<open>Connecting\<close>

text \<open>The environment of the process: the resolved values, or the key whose variable is missing.\<close>

fun resolve_env :: "(string \<Rightarrow> string option) \<Rightarrow> (string \<times> string) list \<Rightarrow> string + (string \<times> string) list" where
  "resolve_env getenv [] = Inr []"
| "resolve_env getenv ((k, raw) # es) =
     (case substitute_env_placeholder getenv raw of
        MissingEnvVar \<Rightarrow> Inl k
      | Resolved v \<Rightarrow> map_sum (\<lambda>e. e) (\<lambda>vs. (k, v) # vs) (resolve_env getenv es)
      | Literal v \<Rightarrow> map_sum (\<lambda>e. e) (\<lambda>vs. (k, v) # vs) (resolve_env getenv es))"

definition srt_unavailable :: string where
  "srt_unavailable = ''sandbox.enabled=true but srt unavailable; install via '' @ [CHR 0x27]
     @ ''npm install -g @anthropic-ai/sandbox-runtime'' @ [CHR 0x27] @ '' or set '' @ [CHR 0x27]
     @ ''sandbox.enabled'' @ [CHR 0x27] @ '': false to opt out''"

text \<open>
  The parameters the server is started with, or the reason of the failure; \<open>srt_config\<close> texts of an
  error of the sandbox settings are a parameter.
\<close>

definition mcp_launch ::
    "'g mcp \<Rightarrow> (policy_error \<Rightarrow> string) \<Rightarrow> string \<Rightarrow> mcp_config \<Rightarrow> string + stdio_params" where
  "mcp_launch M show_error name cfg =
     (case resolve_env (mc_getenv M) (mcp_env cfg) of
        Inl key \<Rightarrow> Inl (''env var referenced in '' @ py_repr key @ '' is not set'')
      | Inr env \<Rightarrow>
          let e = (if env = [] then None else Some env) in
          if \<not> mcp_sandbox cfg then Inr \<lparr>sp_command = mcp_command cfg, sp_args = mcp_args cfg, sp_env = e\<rparr>
          else if mc_policy M = None \<or> sandbox_backend M \<noteq> ''srt'' then Inl srt_unavailable
          else case wrap_mcp_stdio (the (mc_policy M)) (Some (mcp_sandbox_config cfg)) (mc_file M name)
                      (mcp_command cfg, mcp_args cfg) of
                 Inl err \<Rightarrow> Inl (''srt-config: '' @ show_error err)
               | Inr ((c, as), written) \<Rightarrow> Inr \<lparr>sp_command = c, sp_args = as, sp_env = e\<rparr>)"

definition collision_reason :: string where
  "collision_reason = ''tool name collision: another connected server already provides at least one tool with the same remote name''"

definition failure_reason :: "'g mcp \<Rightarrow> mcp_config \<Rightarrow> connect_outcome \<Rightarrow> string" where
  "failure_reason M cfg out =
     (case out of
        ConnectTimeout \<Rightarrow> ''connect timeout ('' @ mc_show M (mcp_connect_timeout cfg) @ ''s)''
      | ConnectMcpError msg \<Rightarrow>
          if py_in ''already'' (py_lower msg) \<and> py_in ''exist'' (py_lower msg) then collision_reason
          else ''McpError: '' @ msg
      | ConnectError ty msg \<Rightarrow> ty @ '': '' @ msg
      | _ \<Rightarrow> [])"

definition build_adapters :: "'g sdk \<Rightarrow> string \<Rightarrow> mcp_config \<Rightarrow> nat \<Rightarrow> 'g \<Rightarrow> (tool \<times> string) list" where
  "build_adapters D name cfg session g =
     List.map_filter (\<lambda>(k, rt, s). if s \<noteq> session then None else map_option (\<lambda>t. (t, k)) (new_adapter name cfg rt))
       (sdk_tools D g)"

text \<open>The loop that registers; \<^const>\<open>None\<close> is the \<^verbatim>\<open>ValueError\<close> of the registry, with what was registered before.\<close>

fun register_all :: "(tool \<times> string) list \<Rightarrow> registry \<Rightarrow> bool \<times> registry" where
  "register_all [] reg = (True, reg)"
| "register_all ((t, k) # as) reg =
     (case register reg t of Inl e \<Rightarrow> (False, reg) | Inr reg' \<Rightarrow> register_all as reg')"

text \<open>
  \<^verbatim>\<open>_connect_one\<close>; the flag says that it returned.  It does not return when the registry refuses a
  tool or the library raises what is not caught; then the status stays.
\<close>

definition connect_one ::
    "'g mcp \<Rightarrow> (policy_error \<Rightarrow> string) \<Rightarrow> string \<Rightarrow> mcp_config \<Rightarrow> rat \<Rightarrow> 'g mcp_manager \<Rightarrow> bool \<times> 'g mcp_manager" where
  "connect_one M show_error name cfg now m0 =
     (let m = m0\<lparr>mm_buffers := (if name \<in> fst ` set (mm_buffers m0) then mm_buffers m0 else mm_buffers m0 @ [(name, [])])\<rparr>
      in case mcp_launch M show_error name cfg of
           Inl reason \<Rightarrow> (True, fail_server name reason m)
         | Inr p \<Rightarrow>
             (case sdk_connect (mc_sdk M) p (mm_group m) of
                (Connected_session s, g) \<Rightarrow>
                  let as = build_adapters (mc_sdk M) name cfg s g;
                      m1 = m\<lparr>mm_group := g, mm_adapters := AList.update name as (mm_adapters m)\<rparr>;
                      (ok, regopt) = (case mm_registry m1 of
                          None \<Rightarrow> (True, None)
                        | Some reg \<Rightarrow> (let (ok, reg') = register_all as reg in (ok, Some reg')));
                      m2 = m1\<lparr>mm_registry := regopt\<rparr>
                  in if ok
                     then (True, set_status_of name \<lparr>ss_status = IsConnected, ss_tools = length as,
                                   ss_connected_at = Some now, ss_reason = None\<rparr> m2)
                     else (False, m2)
              | (ConnectOther, g) \<Rightarrow> (False, m\<lparr>mm_group := g\<rparr>)
              | (out, g) \<Rightarrow> (True, fail_server name (failure_reason M cfg out) (m\<lparr>mm_group := g\<rparr>))))"

subsection \<open>Starting, attaching, restarting, losing servers\<close>

definition start_background :: "'g mcp \<Rightarrow> rat \<Rightarrow> rat \<Rightarrow> task_manager \<times> 'g mcp_manager
    \<Rightarrow> string option \<times> task_manager \<times> 'g mcp_manager" where
  "start_background M now now' st =
     (let (tm, m) = st in
      if \<not> mc_on M then (None, tm, m\<lparr>mm_ready := True\<rparr>)
      else case spawn now now' ''mcp:supervisor'' ''mcp'' None tm of
             (Inl e, tm') \<Rightarrow> (None, tm', m\<lparr>mm_ready := True\<rparr>)
           | (Inr tid, tm') \<Rightarrow> (Some tid, tm', m\<lparr>mm_supervisor := Some tid\<rparr>))"

text \<open>
  \<^verbatim>\<open>_run_supervisor\<close>: the connections end in any order, which \<open>sched\<close> gives; exceptions are collected.
\<close>

definition run_supervisor ::
    "'g mcp \<Rightarrow> (policy_error \<Rightarrow> string) \<Rightarrow> (string \<times> mcp_config) list \<Rightarrow> rat \<Rightarrow> 'g mcp_manager \<Rightarrow> 'g mcp_manager" where
  "run_supervisor M show_error sched now m =
     (fold (\<lambda>(n, cfg) m. snd (connect_one M show_error n cfg now m)) sched m)\<lparr>mm_ready := True\<rparr>"

definition unregister_all :: "(tool \<times> string) list \<Rightarrow> registry \<Rightarrow> registry" where
  "unregister_all as reg = fold (\<lambda>(t, k) reg. fst (unregister reg (t_name t))) as reg"

text \<open>
  \<^verbatim>\<open>attach_and_register\<close> of a registry that is not yet attached; what is attached before is given
  up, and the flag says that no registration raised.
\<close>

fun register_lists :: "(tool \<times> string) list list \<Rightarrow> registry \<Rightarrow> bool \<times> registry" where
  "register_lists [] reg = (True, reg)"
| "register_lists (as # ass) reg =
     (case register_all as reg of (True, reg') \<Rightarrow> register_lists ass reg' | (False, reg') \<Rightarrow> (False, reg'))"

definition attach_and_register :: "registry \<Rightarrow> 'g mcp_manager \<Rightarrow> bool \<times> 'g mcp_manager \<times> registry option" where
  "attach_and_register reg m =
     (let old = map_option (\<lambda>r. fold unregister_all (map snd (mm_adapters m)) r) (mm_registry m);
          (ok, reg') = register_lists (map snd (mm_adapters m)) reg
      in (ok, m\<lparr>mm_registry := Some reg'\<rparr>, old))"

definition drop_adapters :: "string \<Rightarrow> 'g mcp_manager \<Rightarrow> 'g mcp_manager" where
  "drop_adapters name m =
     m\<lparr>mm_registry := map_option (unregister_all (adapters_of name m)) (mm_registry m),
       mm_adapters := AList.update name [] (mm_adapters m)\<rparr>"

datatype restart_result = Restarted nat | NotRestarted string | RestartRaised

definition restart_server ::
    "'g mcp \<Rightarrow> (policy_error \<Rightarrow> string) \<Rightarrow> string \<Rightarrow> rat \<Rightarrow> 'g mcp_manager \<Rightarrow> restart_result \<times> 'g mcp_manager" where
  "restart_server M show_error name now m =
     (case map_of (mc_configs M) name of
        None \<Rightarrow> (NotRestarted (''server '' @ py_repr name @ '' not configured''), m)
      | Some cfg \<Rightarrow>
          if \<not> mcp_enabled cfg then (NotRestarted (''server '' @ py_repr name @ '' disabled''), m)
          else case connect_one M show_error name cfg now (drop_adapters name m) of
                 (False, m') \<Rightarrow> (RestartRaised, m')
               | (True, m') \<Rightarrow>
                   (case map_of (mm_servers m') name of
                      None \<Rightarrow> (NotRestarted ''unknown'', m')
                    | Some st \<Rightarrow>
                        if ss_status st = IsConnected then (Restarted (ss_tools st), m')
                        else (NotRestarted (if opt_truthy (ss_reason st) then the (ss_reason st) else ''reconnect failed''), m')))"

definition handle_server_death :: "string \<Rightarrow> 'g mcp_manager \<Rightarrow> 'g mcp_manager" where
  "handle_server_death name m =
     (case map_of (mm_servers m) name of
        None \<Rightarrow> m
      | Some st \<Rightarrow>
          if ss_status st = IsFailed then m
          else set_status_of name
                 \<lparr>ss_status = IsFailed, ss_tools = 0, ss_connected_at = ss_connected_at st, ss_reason = Some ''server died mid-call''\<rparr>
                 (drop_adapters name m))"

subsection \<open>What is shown\<close>

record connection_summary =
  cs_connected :: nat
  cs_failed :: nat
  cs_pending :: nat
  cs_disabled :: nat
  cs_tools :: nat

definition connection_summary :: "'g mcp_manager \<Rightarrow> connection_summary" where
  "connection_summary m =
     (let ss = map snd (mm_servers m); n = (\<lambda>st. length (filter (\<lambda>s. ss_status s = st) ss))
      in \<lparr>cs_connected = n IsConnected, cs_failed = n IsFailed, cs_pending = n IsPending, cs_disabled = n IsDisabled,
          cs_tools = sum_list (map ss_tools (filter (\<lambda>s. ss_status s = IsConnected) ss))\<rparr>)"

definition list_servers :: "'g mcp \<Rightarrow> 'g mcp_manager \<Rightarrow> (string \<times> server_status) list" where
  "list_servers M m = map (\<lambda>(n, cfg). (n, the (map_of (mm_servers m) n))) (mc_configs M)"

definition redact :: "(string \<Rightarrow> string option) \<Rightarrow> string \<Rightarrow> string \<Rightarrow> string" where
  "redact getenv raw tx =
     (case substitute_env_placeholder getenv raw of
        Resolved v \<Rightarrow> if v = [] then tx else replace_parts v ''<REDACTED>'' tx
      | Literal v \<Rightarrow> if v = [] then tx else replace_parts v ''<REDACTED>'' tx
      | MissingEnvVar \<Rightarrow> tx)"

definition get_logs :: "'g mcp \<Rightarrow> string \<Rightarrow> 'g mcp_manager \<Rightarrow> string" where
  "get_logs M name m =
     (case map_of (mm_buffers m) name of
        None \<Rightarrow> []
      | Some ls \<Rightarrow>
          (case map_of (mc_configs M) name of
             None \<Rightarrow> py_join nl ls
           | Some cfg \<Rightarrow> fold (\<lambda>(k, raw). redact (mc_getenv M) raw) (mcp_env cfg) (py_join nl ls)))"

text \<open>\<^verbatim>\<open>shutdown\<close>: the supervisor is cancelled, the group closed (which cannot fail here).\<close>

definition mcp_shutdown :: "task_end option \<Rightarrow> task_manager \<times> 'g mcp_manager \<Rightarrow> task_manager \<times> 'g mcp_manager" where
  "mcp_shutdown outcome st =
     (let (tm, m) = st
      in (case mm_supervisor m of None \<Rightarrow> tm | Some tid \<Rightarrow> snd (cancel_task tid outcome tm), m))"

subsection \<open>The command\<close>

text \<open>
  \<^verbatim>\<open>/mcp\<close>: \<open>split\<close> is \<^verbatim>\<open>shlex.split\<close>, \<open>when_text\<close> the text of a time.  The Chinese of the usage is in English.
\<close>

definition mcp_usage :: string where
  "mcp_usage = ''Usage: /mcp list | /mcp restart <name> | /mcp logs <name>''"

definition pad :: "nat \<Rightarrow> string \<Rightarrow> string" where
  "pad n s = s @ replicate (n - length s) CHR '' ''"

definition format_status :: "(rat \<Rightarrow> string) \<Rightarrow> string \<times> server_status \<Rightarrow> string" where
  "format_status when_text ns =
     (let (name, st) = ns;
          last = (case ss_connected_at st of None \<Rightarrow> ''never'' | Some t \<Rightarrow> when_text t);
          tools = (if ss_status st = IsPending then ''-'' else show_nat (ss_tools st))
      in ''  '' @ pad 20 name @ ''  '' @ pad 10 (status_name (ss_status st)) @ ''  tools='' @ pad 4 tools
         @ ''  last_connect_at='' @ last
         @ (if opt_truthy (ss_reason st) then ''  reason='' @ the (ss_reason st) else []))"

definition mcp_list_reply :: "'g mcp \<Rightarrow> (rat \<Rightarrow> string) \<Rightarrow> 'g mcp_manager \<Rightarrow> string" where
  "mcp_list_reply M when_text m =
     (let c = connection_summary m; ss = list_servers M m in
      if ss = [] then ''MCP enabled but no servers configured.'' @ nl
        @ ''Add server entries under '' @ [CHR 0x27] @ ''mcp.servers'' @ [CHR 0x27] @ '' in pyclaw.json.''
      else py_join nl
        ((''MCP servers (ready='' @ (if mm_ready m then ''True'' else ''False'') @ ''; connected='' @ show_nat (cs_connected c)
          @ '' failed='' @ show_nat (cs_failed c) @ '' pending='' @ show_nat (cs_pending c)
          @ '' disabled='' @ show_nat (cs_disabled c) @ '' total_tools='' @ show_nat (cs_tools c) @ ''):'')
         # map (format_status when_text) ss))"

definition mcp_logs_reply :: "'g mcp \<Rightarrow> string \<Rightarrow> 'g mcp_manager \<Rightarrow> string" where
  "mcp_logs_reply M name m =
     (if name \<notin> fst ` set (list_servers M m) then ''MCP server '' @ py_repr name @ '' not configured.''
      else let logs = get_logs M name m
           in if logs = [] then ''(no stderr captured for MCP server '' @ py_repr name @ '')''
              else ''--- MCP server '' @ py_repr name @ '' stderr (last lines, secrets redacted) ---'' @ nl
                   @ drop (length logs - 3000) logs)"

definition cmd_mcp ::
    "(string \<Rightarrow> string list) \<Rightarrow> (rat \<Rightarrow> string) \<Rightarrow> (policy_error \<Rightarrow> string) \<Rightarrow> string \<Rightarrow> rat
       \<Rightarrow> ('g mcp \<times> 'g mcp_manager) option \<Rightarrow> string option \<times> ('g mcp \<times> 'g mcp_manager) option" where
  "cmd_mcp split when_text show_error args now mgr =
     (case mgr of
        None \<Rightarrow> (Some (''MCP integration is disabled. Set '' @ [CHR 0x27] @ ''mcp.enabled: true'' @ [CHR 0x27]
                       @ '' in pyclaw.json to enable.''), None)
      | Some (M, m) \<Rightarrow>
          (case (if py_strip args = [] then [] else split (py_strip args)) of
             [] \<Rightarrow> (Some mcp_usage, mgr)
           | sub # rest \<Rightarrow>
               if sub = ''list'' then (Some (mcp_list_reply M when_text m), mgr)
               else if sub = ''restart'' then
                 (case rest of
                    [name] \<Rightarrow>
                      (case restart_server M show_error name now m of
                         (Restarted n, m') \<Rightarrow>
                           (Some (''Restarted MCP server '' @ py_repr name @ '': connected, '' @ show_nat n @ '' tools.''), Some (M, m'))
                       | (NotRestarted reason, m') \<Rightarrow>
                           (Some (''Failed to restart '' @ py_repr name @ '': '' @ (if reason = [] then ''unknown reason'' else reason)), Some (M, m'))
                       | (RestartRaised, m') \<Rightarrow> (None, Some (M, m')))
                  | _ \<Rightarrow> (Some ''Usage: /mcp restart <name>'', mgr))
               else if sub = ''logs'' then
                 (case rest of
                    [name] \<Rightarrow> (Some (mcp_logs_reply M name m), mgr)
                  | _ \<Rightarrow> (Some ''Usage: /mcp logs <name>'', mgr))
               else (Some (''unknown subcommand: '' @ py_repr sub @ nl @ mcp_usage), mgr)))"

subsection \<open>The registry follows the connections\<close>

definition settings_ok :: "'g mcp \<Rightarrow> bool" where
  "settings_ok M \<longleftrightarrow> distinct (map fst (mc_configs M)) \<and> forbidden_key (map fst (mc_configs M)) = None
     \<and> (\<forall>(n, cfg) \<in> set (mc_configs M). mcp_forced_class cfg \<in> {None, Some ''read'', Some ''write''})"

lemma settings_ok_key:
  assumes "settings_ok M" "(n, cfg) \<in> set (mc_configs M)"
  shows "CHR '':'' \<notin> set n" "\<not> py_in ''__'' n" "map_of (mc_configs M) n = Some cfg"
    "derive_tool_class cfg rt \<in> set VALID_TOOL_CLASSES"
proof -
  have "\<not> (\<exists>x. x \<in> set (concat (map (\<lambda>k. [(k, '':''), (k, ''__'')]) (map fst (mc_configs M)))) \<and> (case x of (k, p) \<Rightarrow> py_in p k))"
    using assms(1) unfolding settings_ok_def forbidden_key_def find_None_iff by (elim conjE)
  then have "\<not> py_in '':'' k \<and> \<not> py_in ''__'' k" if "k \<in> fst ` set (mc_configs M)" for k
    using that by (auto simp del: py_in_single)
  from this [of n] assms(2) show "CHR '':'' \<notin> set n" "\<not> py_in ''__'' n" by (auto simp: rev_image_eqI)
  show "map_of (mc_configs M) n = Some cfg" using assms by (simp add: settings_ok_def)
  show "derive_tool_class cfg rt \<in> set VALID_TOOL_CLASSES"
    using assms by (auto simp: settings_ok_def derive_tool_class_def VALID_TOOL_CLASSES_def split: option.split)
qed

abbreviation names_of :: "(tool \<times> string) list \<Rightarrow> string list" where
  "names_of as \<equiv> map (t_name \<circ> fst) as"

lemma canonical_inj:
  assumes "canonical_name n r = canonical_name n' r'" "CHR '':'' \<notin> set n" "CHR '':'' \<notin> set n'"
  shows "n = n' \<and> r = r'"
proof -
  have "takeWhile (\<lambda>c. c \<noteq> CHR '':'') (canonical_name x y) = x" if "CHR '':'' \<notin> set x" for x y
    using that by (induction x) (auto simp: canonical_name_def)
  then have "n = n'" using assms by metis
  with assms(1) show ?thesis by (simp add: canonical_name_def)
qed

text \<open>A list of adapters of a server: what they are named and that the registry takes them.\<close>

definition good_adapters :: "string \<Rightarrow> (tool \<times> string) list \<Rightarrow> bool" where
  "good_adapters n as \<longleftrightarrow> CHR '':'' \<notin> set n \<and> distinct (names_of as)
     \<and> (\<forall>(t, k) \<in> set as. t_name t = canonical_name n k \<and> entry_ok (t_name t, t))"

lemma good_names_colon: "good_adapters n as \<Longrightarrow> x \<in> set (names_of as) \<Longrightarrow> CHR '':'' \<in> set x"
  by (auto simp: good_adapters_def canonical_name_def)

lemma good_names_apart:
  assumes "good_adapters n as" "good_adapters n' as'" "x \<in> set (names_of as)" "x \<in> set (names_of as')"
  shows "n = n'"
proof -
  from assms(3) obtain a where a: "a \<in> set as" "x = t_name (fst a)" by auto
  from assms(4) obtain a' where a': "a' \<in> set as'" "x = t_name (fst a')" by auto
  have "x = canonical_name n (snd a)" "x = canonical_name n' (snd a')"
    using assms(1,2) a a' unfolding good_adapters_def by (auto simp: case_prod_beta)
  then show ?thesis using assms(1,2) canonical_inj unfolding good_adapters_def by metis
qed

lemma in_map_filter: "y \<in> set (List.map_filter f xs) \<longleftrightarrow> (\<exists>x \<in> set xs. f x = Some y)"
  by (force simp: List.map_filter_def)

lemma distinct_map_filter_keys:
  assumes "\<And>x y. f x = Some y \<Longrightarrow> snd y = fst x" "distinct (map fst ts)"
  shows "distinct (map snd (List.map_filter f ts))"
  using assms(2)
proof (induction ts)
  case (Cons t ts)
  have sub: "snd ` set (List.map_filter f ts) \<subseteq> fst ` set ts"
    using assms(1) by (auto simp: in_map_filter) (metis fst_conv imageI snd_conv)
  show ?case
  proof (cases "f t")
    case (Some y)
    then have "snd y \<notin> snd ` set (List.map_filter f ts)" using assms(1) [OF Some] sub Cons.prems by auto
    with Cons Some show ?thesis by (simp add: map_filter_simps)
  qed (use Cons in \<open>simp add: map_filter_simps\<close>)
qed (simp add: map_filter_simps)

lemma build_adapters_good:
  assumes "sdk_ok D" "settings_ok M" "(n, cfg) \<in> set (mc_configs M)"
  shows "good_adapters n (build_adapters D n cfg s g)"
proof -
  let ?as = "build_adapters D n cfg s g"
  note key = settings_ok_key [OF assms(2,3)]
  have ts: "distinct (map fst (sdk_tools D g))" "\<forall>(k, rt, s) \<in> set (sdk_tools D g). k = rt_name rt"
    using assms(1) by (simp_all add: sdk_ok_def)
  have el: "t_name t = canonical_name n k \<and> entry_ok (t_name t, t)" if m: "(t, k) \<in> set ?as" for t k
  proof -
    from m obtain rt where rt: "(k, rt, s) \<in> set (sdk_tools D g)" "new_adapter n cfg rt = Some t"
      by (auto simp: build_adapters_def in_map_filter split: if_splits)
    then have k: "k = rt_name rt" "CHR '':'' \<notin> set k" "t_name t = canonical_name n k" "t_mcp t"
      "t_class t = Some (derive_tool_class cfg rt)"
      using ts(2) by (auto simp: new_adapter_def split: if_splits)
    have "server_part (canonical_name n k) = n"
      using key(1) by (induction n) (auto simp: server_part_def canonical_name_def)
    then show ?thesis
      using k key(2,4) iffD2 [OF colon_count_0 key(1)] iffD2 [OF colon_count_0 k(2)]
      by (simp add: entry_ok_def canonical_name_def colon_count_def)
  qed
  have "distinct (map snd ?as)"
    unfolding build_adapters_def by (rule distinct_map_filter_keys) (use ts(1) in \<open>auto split: if_splits\<close>)
  moreover have "inj (canonical_name n)" by (simp add: inj_def canonical_name_def)
  moreover have "names_of ?as = map (canonical_name n) (map snd ?as)" using el by auto
  ultimately have "distinct (names_of ?as)" by (simp add: distinct_map inj_on_def inj_def)
  with key(1) el show ?thesis unfolding good_adapters_def by auto
qed

lemma register_all_new:
  assumes "registry_ok reg" "distinct (names_of as)" "\<forall>(t, k) \<in> set as. entry_ok (t_name t, t)"
    and "set (names_of as) \<inter> fst ` set reg = {}"
  shows "register_all as reg = (True, reg @ map (\<lambda>(t, k). (t_name t, t)) as)"
  using assms
proof (induction as arbitrary: reg)
  case (Cons a as)
  obtain t k where a: "a = (t, k)" by (cases a)
  have r: "register reg t = Inr (reg @ [(t_name t, t)])" using Cons.prems a by (auto simp: register_Inr)
  have "register_all as (reg @ [(t_name t, t)]) = (True, (reg @ [(t_name t, t)]) @ map (\<lambda>(t, k). (t_name t, t)) as)"
    by (rule Cons.IH) (use Cons.prems a register_registry_ok [OF Cons.prems(1) r] in auto)
  then show ?case by (simp add: a r)
qed simp

lemma unregister_all_filter: "unregister_all as reg = filter (\<lambda>e. fst e \<notin> set (names_of as)) reg"
proof (induction as arbitrary: reg)
  case (Cons a as)
  have "fst (unregister reg n) = filter (\<lambda>e. fst e \<noteq> n) reg" for n
    by (cases "n \<in> fst ` set reg")
      (auto simp: unregister_def AList.delete_eq case_prod_beta intro!: filter_cong filter_True [symmetric] intro: rev_image_eqI)
  then have "unregister_all (a # as) reg = unregister_all as (filter (\<lambda>e. fst e \<noteq> t_name (fst a)) reg)"
    by (simp add: unregister_all_def case_prod_beta)
  also have "\<dots> = filter (\<lambda>e. fst e \<noteq> t_name (fst a) \<and> fst e \<notin> set (names_of as)) reg"
    unfolding Cons.IH by (simp add: conj_commute)
  finally show ?case by (simp add: conj_commute)
qed (simp add: unregister_all_def)

text \<open>
  What can happen to a manager: the first connection of a server by the supervisor, which is the
  first to wait for its lock; a restart; the death of a server; the attachment of the
  registry of the agent, which has only tools of its own, once.
\<close>

inductive mcp_step :: "'g mcp \<Rightarrow> 'g mcp_manager \<Rightarrow> 'g mcp_manager \<Rightarrow> bool" for M where
  supervise: "(name, cfg) \<in> set (enabled_servers M) \<Longrightarrow> map_option ss_status (map_of (mm_servers m) name) = Some IsPending
     \<Longrightarrow> mcp_step M m (snd (connect_one M show_error name cfg now m))"
| restart: "mcp_step M m (snd (restart_server M show_error name now m))"
| death: "mcp_step M m (handle_server_death name m)"
| attach: "mm_registry m = None \<Longrightarrow> registry_ok reg \<Longrightarrow> \<forall>(n, t) \<in> set reg. \<not> t_mcp t
     \<Longrightarrow> mcp_step M m (fst (snd (attach_and_register reg m)))"

definition mcp_reach :: "'g mcp \<Rightarrow> 'g \<Rightarrow> 'g mcp_manager \<Rightarrow> bool" where
  "mcp_reach M g m = (mcp_step M)\<^sup>*\<^sup>* (new_manager M g) m"

definition connected :: "string \<Rightarrow> 'g mcp_manager \<Rightarrow> bool" where
  "connected n m \<longleftrightarrow> map_option ss_status (map_of (mm_servers m) n) = Some IsConnected"

definition imported :: "registry \<Rightarrow> string set" where
  "imported reg = {n \<in> fst ` set reg. CHR '':'' \<in> set n}"

text \<open>The names of all adapters, and the invariant.\<close>

definition offered :: "'g mcp_manager \<Rightarrow> string set" where
  "offered m = (\<Union>n. set (names_of (adapters_of n m)))"

definition mcp_ok :: "'g mcp \<Rightarrow> 'g mcp_manager \<Rightarrow> bool" where
  "mcp_ok M m \<longleftrightarrow> distinct (map fst (mm_adapters m))
     \<and> (\<forall>n. adapters_of n m \<noteq> [] \<longrightarrow> good_adapters n (adapters_of n m) \<and> connected n m)
     \<and> (\<forall>reg. mm_registry m = Some reg \<longrightarrow> registry_ok reg \<and> imported reg = offered m)"

lemma mcp_okD:
  assumes "mcp_ok M m" "x \<in> set (names_of (adapters_of n m))"
  shows "good_adapters n (adapters_of n m)" "connected n m" "CHR '':'' \<in> set x"
proof -
  have "adapters_of n m \<noteq> []" using assms(2) by auto
  with assms(1) show "good_adapters n (adapters_of n m)" "connected n m" by (simp_all add: mcp_ok_def)
  then show "CHR '':'' \<in> set x" using good_names_colon assms(2) by blast
qed

lemma adapters_of_update [simp]:
  "adapters_of n (m\<lparr>mm_adapters := AList.update n' as (mm_adapters m)\<rparr>) = (if n = n' then as else adapters_of n m)"
  "adapters_of n (m\<lparr>mm_registry := r\<rparr>) = adapters_of n m" "adapters_of n (m\<lparr>mm_servers := ss\<rparr>) = adapters_of n m"
  "adapters_of n (m\<lparr>mm_group := g\<rparr>) = adapters_of n m" "adapters_of n (m\<lparr>mm_buffers := bs\<rparr>) = adapters_of n m"
  by (simp_all add: adapters_of_def update_conv')

lemma connected_update [simp]:
  "connected n (set_status_of n' st m) = (if n = n' then ss_status st = IsConnected else connected n m)"
  "connected n (m\<lparr>mm_registry := r\<rparr>) = connected n m" "connected n (m\<lparr>mm_adapters := as\<rparr>) = connected n m"
  "connected n (m\<lparr>mm_group := g\<rparr>) = connected n m" "connected n (m\<lparr>mm_buffers := bs\<rparr>) = connected n m"
  by (simp_all add: connected_def set_status_of_def update_conv')

lemma set_status_simps [simp]:
  "adapters_of n (set_status_of n' st m) = adapters_of n m" "mm_registry (set_status_of n' st m) = mm_registry m"
  "mm_adapters (set_status_of n' st m) = mm_adapters m" "mm_group (set_status_of n' st m) = mm_group m"
  by (simp_all add: set_status_of_def adapters_of_def)

text \<open>Taking the adapters of a server away.\<close>

lemma drop_adapters_simps [simp]:
  "adapters_of n (drop_adapters name m) = (if n = name then [] else adapters_of n m)"
  "connected n (drop_adapters name m) = connected n m" "mm_group (drop_adapters name m) = mm_group m"
  by (simp_all add: drop_adapters_def adapters_of_def connected_def update_conv')

lemma drop_adapters_ok:
  assumes "mcp_ok M m"
  shows "mcp_ok M (drop_adapters name m)"
proof -
  let ?as = "adapters_of name m" and ?m = "drop_adapters name m"
  have reg: "registry_ok (unregister_all ?as reg) \<and> imported (unregister_all ?as reg) = offered ?m"
    if r: "mm_registry m = Some reg" for reg
  proof
    have ok: "registry_ok reg" "imported reg = offered m" using assms r by (simp_all add: mcp_ok_def)
    show "registry_ok (unregister_all ?as reg)"
      using ok(1) by (auto simp: registry_ok_def unregister_all_filter distinct_map_filter list_all_iff)
    have "imported (unregister_all ?as reg) = imported reg - set (names_of ?as)"
      by (auto simp: imported_def unregister_all_filter)
    also have "\<dots> = offered ?m"
    proof
      show "imported reg - set (names_of ?as) \<subseteq> offered ?m"
      proof
        fix x assume "x \<in> imported reg - set (names_of ?as)"
        then obtain n where "x \<in> set (names_of (adapters_of n m))" "x \<notin> set (names_of ?as)"
          unfolding ok(2) offered_def by blast
        then have "x \<in> set (names_of (adapters_of n ?m))" by (cases "n = name") simp_all
        then show "x \<in> offered ?m" unfolding offered_def by blast
      qed
      show "offered ?m \<subseteq> imported reg - set (names_of ?as)"
      proof
        fix x assume "x \<in> offered ?m"
        then obtain n where n: "n \<noteq> name" "x \<in> set (names_of (adapters_of n m))"
          by (auto simp: offered_def split: if_splits)
        have "x \<notin> set (names_of ?as)"
        proof
          assume x: "x \<in> set (names_of ?as)"
          from good_names_apart [OF mcp_okD(1) [OF assms n(2)] mcp_okD(1) [OF assms x] n(2) x] n(1) show False by simp
        qed
        with n(2) show "x \<in> imported reg - set (names_of ?as)" unfolding ok(2) by (auto simp: offered_def)
      qed
    qed
    finally show "imported (unregister_all ?as reg) = offered ?m" .
  qed
  have "mm_registry ?m = map_option (unregister_all ?as) (mm_registry m)" by (simp add: drop_adapters_def)
  with assms reg show ?thesis
    by (auto simp: mcp_ok_def) (auto simp: drop_adapters_def distinct_update)
qed

text \<open>Registering the adapters of a server that has none.\<close>

lemma new_adapters_ok:
  assumes "mcp_ok M m" "good_adapters name as" "adapters_of name m = []" "mm_registry m = Some reg"
  shows "register_all as reg = (True, reg @ map (\<lambda>(t, k). (t_name t, t)) as)"
    and "registry_ok (reg @ map (\<lambda>(t, k). (t_name t, t)) as)"
    and "imported (reg @ map (\<lambda>(t, k). (t_name t, t)) as) = offered m \<union> set (names_of as)"
proof -
  have ok: "registry_ok reg" "imported reg = offered m" using assms(1,4) by (simp_all add: mcp_ok_def)
  have new: "set (names_of as) \<inter> fst ` set reg = {}"
  proof (rule ccontr)
    assume "set (names_of as) \<inter> fst ` set reg \<noteq> {}"
    then obtain x where x: "x \<in> set (names_of as)" "x \<in> fst ` set reg" by auto
    then have "x \<in> offered m" using good_names_colon [OF assms(2)] ok(2) unfolding imported_def by blast
    then obtain n where n: "x \<in> set (names_of (adapters_of n m))" by (auto simp: offered_def)
    then have "n = name" using good_names_apart [OF mcp_okD(1) [OF assms(1) n] assms(2) n x(1)] by simp
    with n assms(3) show False by simp
  qed
  have e: "\<forall>(t, k) \<in> set as. entry_ok (t_name t, t)" "distinct (names_of as)"
    using assms(2) by (auto simp: good_adapters_def)
  show "register_all as reg = (True, reg @ map (\<lambda>(t, k). (t_name t, t)) as)"
    by (rule register_all_new [OF ok(1) e(2,1) new])
  have f: "map fst (map (\<lambda>(t, k). (t_name t, t)) as) = names_of as" by (simp add: case_prod_beta)
  show "registry_ok (reg @ map (\<lambda>(t, k). (t_name t, t)) as)"
    using ok(1) e new f by (auto simp: registry_ok_def list_all_iff simp del: map_map)
  show "imported (reg @ map (\<lambda>(t, k). (t_name t, t)) as) = offered m \<union> set (names_of as)"
  proof -
    have "imported (reg @ ys) = imported reg \<union> {x \<in> set (map fst ys). CHR '':'' \<in> set x}" for ys
      by (auto simp: imported_def)
    from this [of "map (\<lambda>(t, k). (t_name t, t)) as"]
    have "imported (reg @ map (\<lambda>(t, k). (t_name t, t)) as) = imported reg \<union> {x \<in> set (names_of as). CHR '':'' \<in> set x}"
      by (simp only: f)
    moreover have "{x \<in> set (names_of as). CHR '':'' \<in> set x} = set (names_of as)"
      using good_names_colon [OF assms(2)] by blast
    ultimately show ?thesis unfolding ok(2) by (simp only:)
  qed
qed

lemma mcp_ok_simple:
  "mcp_ok M (m\<lparr>mm_group := g\<rparr>) = mcp_ok M m" "mcp_ok M (m\<lparr>mm_buffers := bs\<rparr>) = mcp_ok M m"
  by (simp_all add: mcp_ok_def offered_def)

lemma mcp_ok_status:
  assumes "mcp_ok M m" "adapters_of name m = [] \<or> ss_status st = IsConnected"
  shows "mcp_ok M (set_status_of name st m)"
  using assms by (auto simp: mcp_ok_def offered_def)

lemma offered_insert:
  assumes "adapters_of name m = []" "\<And>n. adapters_of n m1 = (if n = name then as else adapters_of n m)"
  shows "offered m1 = offered m \<union> set (names_of as)"
proof (rule set_eqI)
  fix x
  have "(\<exists>n. x \<in> set (names_of (adapters_of n m1)))
      \<longleftrightarrow> (\<exists>n. x \<in> set (names_of (adapters_of n m))) \<or> x \<in> set (names_of as)"
    using assms by (metis empty_iff list.set(1) list.map(1))
  then show "x \<in> offered m1 \<longleftrightarrow> x \<in> offered m \<union> set (names_of as)" unfolding offered_def by blast
qed

lemma connect_one_ok:
  assumes "sdk_ok (mc_sdk M)" "settings_ok M" "(name, cfg) \<in> set (mc_configs M)"
    and "mcp_ok M m0" "adapters_of name m0 = []"
  shows "mcp_ok M (snd (connect_one M show_error name cfg now m0))"
proof -
  define m where "m = m0\<lparr>mm_buffers := (if name \<in> fst ` set (mm_buffers m0) then mm_buffers m0 else mm_buffers m0 @ [(name, [])])\<rparr>"
  have ok: "mcp_ok M m" "adapters_of name m = []" using assms(4,5) by (simp_all add: m_def mcp_ok_simple)
  have failed: "mcp_ok M (fail_server name r (m\<lparr>mm_group := g\<rparr>))" "mcp_ok M (fail_server name r m)" for r g
    using ok by (auto simp: fail_server_def mcp_ok_simple intro!: mcp_ok_status)
  show ?thesis
  proof (cases "mcp_launch M show_error name cfg")
    case (Inl r)
    with failed show ?thesis by (simp add: connect_one_def m_def [symmetric] Let_def)
  next
    case (Inr p)
    obtain out g where c: "sdk_connect (mc_sdk M) p (mm_group m) = (out, g)" by (metis surj_pair)
    show ?thesis
    proof (cases out)
      case (Connected_session s)
      let ?as = "build_adapters (mc_sdk M) name cfg s g"
      let ?st = "\<lparr>ss_status = IsConnected, ss_tools = length ?as, ss_connected_at = Some now, ss_reason = None\<rparr>"
      have good: "good_adapters name ?as" by (rule build_adapters_good [OF assms(1,2,3)])
      define m1 where "m1 = m\<lparr>mm_group := g, mm_adapters := AList.update name ?as (mm_adapters m)\<rparr>"
      have ads: "adapters_of n m1 = (if n = name then ?as else adapters_of n m)" for n
        by (simp add: m1_def adapters_of_def update_conv')
      have off: "offered m1 = offered m \<union> set (names_of ?as)"
        by (rule offered_insert [OF ok(2) ads])
      have d: "distinct (map fst (mm_adapters m1))" using ok(1) by (simp add: mcp_ok_def m1_def distinct_update)
      have con: "connected n m1 = connected n m" for n by (simp add: m1_def connected_def)
      show ?thesis
      proof (cases "mm_registry m")
        case None
        then have "mcp_ok M (set_status_of name ?st (m1\<lparr>mm_registry := None\<rparr>))"
          using ok(1) good d by (auto simp: mcp_ok_def ads con split: if_splits)
        with Inr c Connected_session None show ?thesis
          by (simp add: connect_one_def m_def [symmetric] Let_def m1_def)
      next
        case (Some reg)
        note new = new_adapters_ok [OF ok(1) good ok(2) Some]
        have off': "offered (set_status_of name ?st (m1\<lparr>mm_registry := r\<rparr>)) = offered m1" for r
          by (simp add: offered_def)
        have "mcp_ok M (set_status_of name ?st (m1\<lparr>mm_registry := Some (reg @ map (\<lambda>(t, k). (t_name t, t)) ?as)\<rparr>))"
          unfolding mcp_ok_def off' off using ok(1) good d new(2,3) by (auto simp: mcp_ok_def ads con split: if_splits)
        with Inr c Connected_session Some new(1) show ?thesis
          by (simp add: connect_one_def m_def [symmetric] Let_def m1_def)
      qed
    qed (use failed ok Inr c in \<open>simp_all add: connect_one_def m_def [symmetric] Let_def mcp_ok_simple\<close>)
  qed
qed

lemma register_lists_ok:
  assumes "mcp_ok M m" "registry_ok reg" "\<forall>(n, t) \<in> set reg. \<not> t_mcp t"
  shows "\<exists>reg'. register_lists (map snd (mm_adapters m)) reg = (True, reg') \<and> registry_ok reg' \<and> imported reg' = offered m"
proof -
  have sub: "\<exists>reg'. register_lists (map snd es) reg1 = (True, reg') \<and> registry_ok reg'
        \<and> imported reg' = imported reg1 \<union> (\<Union>e \<in> set es. set (names_of (snd e)))"
    if "distinct (map fst es)" "\<forall>(n, as) \<in> set es. as \<noteq> [] \<longrightarrow> good_adapters n as" "registry_ok reg1"
      "\<forall>e \<in> set es. set (names_of (snd e)) \<inter> imported reg1 = {}" for es reg1
    using that
  proof (induction es arbitrary: reg1)
    case (Cons e es)
    obtain n as where e: "e = (n, as)" by (cases e)
    show ?case
    proof (cases "as = []")
      case True
      with Cons e show ?thesis by simp
    next
      case False
      then have good: "good_adapters n as" using Cons.prems(2) e by simp
      let ?r = "reg1 @ map (\<lambda>(t, k). (t_name t, t)) as"
      have col: "x \<in> set (names_of as) \<Longrightarrow> CHR '':'' \<in> set x" for x by (rule good_names_colon [OF good])
      have new: "set (names_of as) \<inter> fst ` set reg1 = {}"
        using Cons.prems(4) e col by (auto simp: imported_def)
      have en: "\<forall>(t, k) \<in> set as. entry_ok (t_name t, t)" "distinct (names_of as)"
        using good by (auto simp: good_adapters_def)
      have f: "map fst (map (\<lambda>(t, k). (t_name t, t)) as) = names_of as" by (simp add: case_prod_beta)
      have r1: "register_all as reg1 = (True, ?r)" by (rule register_all_new [OF Cons.prems(3) en(2,1) new])
      have r2: "registry_ok ?r"
        using Cons.prems(3) en new f by (auto simp: registry_ok_def list_all_iff simp del: map_map)
      have "imported (reg1 @ ys) = imported reg1 \<union> {x \<in> set (map fst ys). CHR '':'' \<in> set x}" for ys
        by (auto simp: imported_def)
      from this [of "map (\<lambda>(t, k). (t_name t, t)) as"]
      have r3: "imported ?r = imported reg1 \<union> set (names_of as)" unfolding f using col by blast
      have apart: "\<forall>e' \<in> set es. set (names_of (snd e')) \<inter> imported ?r = {}"
      proof (intro ballI)
        fix e' assume e': "e' \<in> set es"
        have "n \<noteq> fst e'" using Cons.prems(1) e e' by auto
        then have "set (names_of (snd e')) \<inter> set (names_of as) = {}"
          using good_names_apart [OF good, of "fst e'" "snd e'"] Cons.prems(2) e'
          by (cases "snd e' = []") (auto simp: case_prod_beta)
        moreover have "set (names_of (snd e')) \<inter> imported reg1 = {}" using Cons.prems(4) e' by simp
        ultimately show "set (names_of (snd e')) \<inter> imported ?r = {}" unfolding r3 by blast
      qed
      obtain reg' where "register_lists (map snd es) ?r = (True, reg')" "registry_ok reg'"
        "imported reg' = imported ?r \<union> (\<Union>e \<in> set es. set (names_of (snd e)))"
        using Cons.IH [OF _ _ r2 apart] Cons.prems(1,2) by auto
      then show ?thesis using r1 r3 e by auto
    qed
  qed simp
  have al: "adapters_of n m = as" if "(n, as) \<in> set (mm_adapters m)" for n as
    using that assms(1) by (simp add: adapters_of_def mcp_ok_def)
  have good: "\<forall>(n, as) \<in> set (mm_adapters m). as \<noteq> [] \<longrightarrow> good_adapters n as"
    using al assms(1) unfolding mcp_ok_def by fastforce
  have "CHR '':'' \<notin> set n" if "(n, t) \<in> set reg" for n t
  proof -
    have "entry_ok (n, t)" "\<not> t_mcp t" using that assms(2,3) by (auto simp: registry_ok_def list_all_iff)
    then show ?thesis by (auto simp: entry_ok_def)
  qed
  then have none: "imported reg = {}" by (auto simp: imported_def)
  have d: "distinct (map fst (mm_adapters m))" using assms(1) by (simp add: mcp_ok_def)
  have "(\<Union>e \<in> set (mm_adapters m). set (names_of (snd e))) = offered m"
  proof
    show "(\<Union>e \<in> set (mm_adapters m). set (names_of (snd e))) \<subseteq> offered m"
      using al unfolding offered_def by fastforce
    show "offered m \<subseteq> (\<Union>e \<in> set (mm_adapters m). set (names_of (snd e)))"
    proof
      fix x assume "x \<in> offered m"
      then obtain n where n: "x \<in> set (names_of (adapters_of n m))" unfolding offered_def by blast
      then obtain as where "map_of (mm_adapters m) n = Some as" "adapters_of n m = as"
        by (cases "map_of (mm_adapters m) n") (simp_all add: adapters_of_def)
      then have "(n, adapters_of n m) \<in> set (mm_adapters m)" by (simp add: map_of_SomeD)
      with n show "x \<in> (\<Union>e \<in> set (mm_adapters m). set (names_of (snd e)))" by (metis UN_iff snd_conv)
    qed
  qed
  with sub [OF d good assms(2)] none show ?thesis by auto
qed

lemma restart_server_ok:
  assumes "sdk_ok (mc_sdk M)" "settings_ok M" "mcp_ok M m"
  shows "mcp_ok M (snd (restart_server M show_error name now m))"
proof (cases "map_of (mc_configs M) name")
  case (Some cfg)
  then have "(name, cfg) \<in> set (mc_configs M)" by (rule map_of_SomeD)
  from connect_one_ok [OF assms(1,2) this drop_adapters_ok [OF assms(3)], of name show_error now] Some assms(3)
  show ?thesis by (auto simp: restart_server_def split: prod.split bool.split option.split)
qed (use assms(3) in \<open>simp add: restart_server_def\<close>)

lemma mcp_step_ok:
  assumes "mcp_step M m m'" "sdk_ok (mc_sdk M)" "settings_ok M" "mcp_ok M m"
  shows "mcp_ok M m'"
  using assms(1)
proof cases
  case (supervise name cfg show_error now)
  have "\<not> connected name m" using supervise(3) by (auto simp: connected_def)
  then have "adapters_of name m = []" using assms(4) by (auto simp: mcp_ok_def)
  moreover have "(name, cfg) \<in> set (mc_configs M)" using supervise(2) by (simp add: enabled_servers_def)
  ultimately show ?thesis using connect_one_ok [OF assms(2,3) _ assms(4)] supervise(1) by simp
next
  case (restart show_error name now)
  with restart_server_ok [OF assms(2,3,4)] show ?thesis by simp
next
  case (death name)
  have "mcp_ok M (set_status_of name st (drop_adapters name m))" for st
    by (rule mcp_ok_status [OF drop_adapters_ok [OF assms(4)]]) simp
  with death assms(4) show ?thesis by (simp add: handle_server_death_def split: option.split)
next
  case (attach reg)
  from register_lists_ok [OF assms(4) attach(3,4)] obtain reg' where
    "register_lists (map snd (mm_adapters m)) reg = (True, reg')" "registry_ok reg'" "imported reg' = offered m"
    by auto
  with assms(4) attach(1) show ?thesis by (simp add: attach_and_register_def mcp_ok_def offered_def)
qed

lemma mcp_reach_ok:
  assumes "mcp_reach M g m" "sdk_ok (mc_sdk M)" "settings_ok M"
  shows "mcp_ok M m"
  using assms(1) unfolding mcp_reach_def
proof (induction rule: rtranclp_induct)
  case base
  show ?case by (simp add: mcp_ok_def new_manager_def adapters_of_def)
next
  case (step m m')
  with mcp_step_ok assms(2,3) show ?case by blast
qed


subsection \<open>A restart cannot succeed\<close>

text \<open>
  Documented behaviour of the group: \<open>offers\<close> are the names of the tools of the server behind the
  parameters.  Connecting adds just these, and is refused when one of them is already there.
\<close>

definition refuses_duplicates :: "'g sdk \<Rightarrow> (stdio_params \<Rightarrow> string set) \<Rightarrow> bool" where
  "refuses_duplicates D offers \<longleftrightarrow>
     (\<forall>p g. fst ` set (sdk_tools D g) \<inter> offers p \<noteq> {} \<longrightarrow>
        (\<exists>msg g'. sdk_connect D p g = (ConnectMcpError msg, g') \<and> py_in ''already'' (py_lower msg) \<and> py_in ''exist'' (py_lower msg)))
   \<and> (\<forall>p g s g'. sdk_connect D p g = (Connected_session s, g') \<longrightarrow>
        (\<forall>k \<in> offers p. k \<in> fst ` set (sdk_tools D g')) \<and> (\<forall>(k, rt, s') \<in> set (sdk_tools D g'). s' = s \<longrightarrow> k \<in> offers p))"

definition group_keys :: "'g mcp \<Rightarrow> 'g mcp_manager \<Rightarrow> string set" where
  "group_keys M m = fst ` set (sdk_tools (mc_sdk M) (mm_group m))"

lemma fail_server_group [simp]: "mm_group (fail_server name r m) = mm_group m"
  by (simp add: fail_server_def)

lemma connect_one_group:
  "mm_group (snd (connect_one M show_error name cfg now m))
     = (case mcp_launch M show_error name cfg of
          Inl r \<Rightarrow> mm_group m | Inr p \<Rightarrow> snd (sdk_connect (mc_sdk M) p (mm_group m)))"
proof (cases "mcp_launch M show_error name cfg")
  case (Inr p)
  obtain out g where c: "sdk_connect (mc_sdk M) p (mm_group m) = (out, g)" by (metis surj_pair)
  with Inr show ?thesis
    by (cases out) (simp_all add: connect_one_def Let_def case_prod_beta split: option.split)
qed (simp add: connect_one_def Let_def)

lemma connect_one_keys:
  assumes "sdk_ok (mc_sdk M)"
  shows "group_keys M m \<subseteq> group_keys M (snd (connect_one M show_error name cfg now m))"
proof (cases "mcp_launch M show_error name cfg")
  case (Inr p)
  obtain out g where c: "sdk_connect (mc_sdk M) p (mm_group m) = (out, g)" by (metis surj_pair)
  have "fst ` set (sdk_tools (mc_sdk M) (mm_group m)) \<subseteq> fst ` set (sdk_tools (mc_sdk M) g)"
  proof (cases "\<exists>s. out = Connected_session s")
    case True
    with assms c obtain ts where "sdk_tools (mc_sdk M) g = sdk_tools (mc_sdk M) (mm_group m) @ ts"
      unfolding sdk_ok_def by blast
    then show ?thesis by auto
  next
    case False
    with assms c have "sdk_tools (mc_sdk M) g = sdk_tools (mc_sdk M) (mm_group m)" unfolding sdk_ok_def by blast
    then show ?thesis by simp
  qed
  with Inr c show ?thesis by (simp add: group_keys_def connect_one_group)
qed (simp add: group_keys_def connect_one_group)

lemma restart_server_group:
  "mm_group (snd (restart_server M show_error name now m)) = mm_group m
   \<or> (\<exists>cfg. mm_group (snd (restart_server M show_error name now m))
        = mm_group (snd (connect_one M show_error name cfg now (drop_adapters name m))))"
proof (cases "map_of (mc_configs M) name")
  case (Some cfg)
  obtain ok m' where "connect_one M show_error name cfg now (drop_adapters name m) = (ok, m')" by (metis surj_pair)
  with Some have "mcp_enabled cfg \<Longrightarrow> snd (restart_server M show_error name now m)
      = snd (connect_one M show_error name cfg now (drop_adapters name m))"
    by (cases ok) (simp_all add: restart_server_def split: option.split)
  with Some show ?thesis by (cases "mcp_enabled cfg") (auto simp: restart_server_def)
qed (simp add: restart_server_def)

lemma mcp_step_keys:
  assumes "mcp_step M m m'" "sdk_ok (mc_sdk M)"
  shows "group_keys M m \<subseteq> group_keys M m'"
  using assms(1)
proof cases
  case (supervise name cfg show_error now)
  with connect_one_keys [OF assms(2)] show ?thesis by simp
next
  case (restart show_error name now)
  have "group_keys M (drop_adapters name m) = group_keys M m" by (simp add: group_keys_def)
  then have k: "group_keys M m \<subseteq> group_keys M (snd (connect_one M show_error name cfg now (drop_adapters name m)))" for cfg
    using connect_one_keys [OF assms(2), of "drop_adapters name m" show_error name cfg now] by simp
  from restart_server_group [of M show_error name now m] show ?thesis
  proof (elim disjE exE)
    fix cfg assume "mm_group (snd (restart_server M show_error name now m))
        = mm_group (snd (connect_one M show_error name cfg now (drop_adapters name m)))"
    with k [of cfg] show ?thesis unfolding restart group_keys_def by simp
  qed (simp add: restart group_keys_def)
next
  case (death name)
  then show ?thesis by (simp add: handle_server_death_def group_keys_def split: option.split)
next
  case (attach reg)
  then show ?thesis by (simp add: attach_and_register_def group_keys_def case_prod_beta)
qed

text \<open>
  A server that was connected cannot be restarted.  Neither the restart nor the death
  handler takes the old session out of the group of the library, which refuses tools that are
  already there.  So once a server with at least one tool was connected, a restart at
  any later time fails with a name collision, takes away the tools the server had, and leaves it failed.
\<close>

theorem restart_always_fails:
  assumes "sdk_ok (mc_sdk M)" "refuses_duplicates (mc_sdk M) offers"
    and "(name, cfg) \<in> set (mc_configs M)" "mcp_enabled cfg" "settings_ok M"
    and "mcp_launch M show_error name cfg = Inr p" "offers p \<noteq> {}"
    and "sdk_connect (mc_sdk M) p (mm_group m0) = (Connected_session s, g)"
    and "snd (connect_one M show_error name cfg now0 m0) = m1" "(mcp_step M)\<^sup>*\<^sup>* m1 m2"
  shows "\<exists>m3. restart_server M show_error name now m2 = (NotRestarted collision_reason, m3)
     \<and> adapters_of name m3 = [] \<and> map_option ss_status (map_of (mm_servers m3) name) = Some IsFailed"
proof -
  have grp: "mm_group m1 = g"
    using assms(6,8) connect_one_group [of M show_error name cfg now0 m0] unfolding assms(9) by simp
  have "\<forall>k \<in> offers p. k \<in> group_keys M m1"
    using assms(2,8) unfolding refuses_duplicates_def group_keys_def grp by blast
  moreover have "group_keys M m1 \<subseteq> group_keys M m2"
    using assms(10)
  proof (induction rule: rtranclp_induct)
    case (step m m')
    with mcp_step_keys [OF step(2) assms(1)] show ?case by blast
  qed simp
  ultimately have dup: "fst ` set (sdk_tools (mc_sdk M) (mm_group m2)) \<inter> offers p \<noteq> {}"
    using assms(7) unfolding group_keys_def by blast
  then obtain msg g' where "sdk_connect (mc_sdk M) p (mm_group m2) = (ConnectMcpError msg, g')"
    "py_in ''already'' (py_lower msg)" "py_in ''exist'' (py_lower msg)"
    using assms(2) unfolding refuses_duplicates_def by blast
  moreover have "map_of (mc_configs M) name = Some cfg" by (rule settings_ok_key(3) [OF assms(5,3)])
  ultimately show ?thesis using assms(4,6)
    by (simp add: restart_server_def connect_one_def Let_def failure_reason_def fail_server_def set_status_of_def
        plain_status_def update_conv' adapters_of_def drop_adapters_def opt_truthy_def collision_reason_def)
qed

subsection \<open>A concrete group\<close>

definition demo_remote :: remote_tool where
  "demo_remote = \<lparr>rt_name = ''read_file'', rt_description = None, rt_schema = [], rt_read_only = Some True\<rparr>"

text \<open>A group that knows one server; its state is whether that one is connected.\<close>

definition demo_sdk :: "bool sdk" where
  "demo_sdk = \<lparr>sdk_connect = (\<lambda>p g. if sp_command p \<noteq> ''fs'' then (ConnectError ''FileNotFoundError'' (sp_command p), g)
                 else if g then (ConnectMcpError ''Tools Already Exist in group.'', g) else (Connected_session 0, True)),
     sdk_tools = (\<lambda>g. if g then [(''read_file'', demo_remote, 0)] else [])\<rparr>"

definition demo_mcp_config :: mcp_config where
  "demo_mcp_config = \<lparr>mcp_command = ''fs'', mcp_args = [], mcp_env = [(''T'', ''{env:TOKEN}'')], mcp_enabled = True,
     mcp_trust = True, mcp_forced_class = None, mcp_forced_tier = None, mcp_connect_timeout = 30, mcp_call_timeout = 60,
     mcp_sandbox = False, mcp_sandbox_config = JObj []\<rparr>"

definition demo_mcp :: "bool mcp" where
  "demo_mcp = \<lparr>mc_on = True, mc_configs = [(''files'', demo_mcp_config)], mc_sdk = demo_sdk, mc_policy = None,
     mc_file = (\<lambda>_. []), mc_getenv = map_of [(''TOKEN'', ''s3cr3t'')], mc_show = (\<lambda>_. [])\<rparr>"

lemma demo_sdk_ok: "sdk_ok demo_sdk"
  by (auto simp: sdk_ok_def demo_sdk_def demo_remote_def split: if_splits)

lemma demo_refuses: "refuses_duplicates demo_sdk (\<lambda>p. if sp_command p = ''fs'' then {''read_file''} else {})"
proof -
  have "py_in ''already'' (py_lower ''Tools Already Exist in group.'')" "py_in ''exist'' (py_lower ''Tools Already Exist in group.'')"
    by code_simp+
  then show ?thesis by (auto simp: refuses_duplicates_def demo_sdk_def split: if_splits)
qed

lemma demo_settings_ok: "settings_ok demo_mcp"
  unfolding settings_ok_def by code_simp


theorem restart_always_fails_witness:
  "\<exists>m1 m3. snd (connect_one demo_mcp (\<lambda>_. []) ''files'' demo_mcp_config 1 (new_manager demo_mcp False)) = m1
     \<and> connected ''files'' m1 \<and> restart_server demo_mcp (\<lambda>_. []) ''files'' 2 m1 = (NotRestarted collision_reason, m3)
     \<and> map_option ss_status (map_of (mm_servers m3) ''files'') = Some IsFailed"
proof -
  let ?m0 = "new_manager demo_mcp False"
  let ?m1 = "snd (connect_one demo_mcp (\<lambda>_. []) ''files'' demo_mcp_config 1 ?m0)"
  let ?p = "\<lparr>sp_command = ''fs'', sp_args = [], sp_env = Some [(''T'', ''s3cr3t'')]\<rparr>"
  have D: "mc_sdk demo_mcp = demo_sdk" by (simp add: demo_mcp_def)
  have a: "sdk_ok (mc_sdk demo_mcp)" "refuses_duplicates (mc_sdk demo_mcp) (\<lambda>p. if sp_command p = ''fs'' then {''read_file''} else {})"
    unfolding D by (rule demo_sdk_ok, rule demo_refuses)
  have c: "(''files'', demo_mcp_config) \<in> set (mc_configs demo_mcp)" "mcp_enabled demo_mcp_config"
    by (simp_all add: demo_mcp_def demo_mcp_config_def)
  have l: "mcp_launch demo_mcp (\<lambda>_. []) ''files'' demo_mcp_config = Inr ?p" by code_simp
  have o: "(if sp_command ?p = ''fs'' then {''read_file''} else {}) \<noteq> {}" by simp
  have s: "sdk_connect (mc_sdk demo_mcp) ?p (mm_group ?m0) = (Connected_session 0, True)"
    by (simp add: D demo_sdk_def new_manager_def)
  have "connected ''files'' ?m1" unfolding connected_def by code_simp
  with restart_always_fails [OF a c demo_settings_ok l o s refl rtranclp.rtrancl_refl, of 2] show ?thesis by blast
qed

subsection \<open>Sandbox, logs\<close>

text \<open>
  A server that is to be sandboxed is started in the sandbox or not at all, as
  long as the policy has its program: what is started is that program, with the settings file and
  the command of the server as its arguments.
\<close>

theorem mcp_servers_are_sandboxed:
  assumes "mcp_sandbox cfg" "mcp_launch M show_error name cfg = Inr p"
    and "\<forall>s. mc_policy M \<noteq> Some (Srt s None)"
  shows "\<exists>s srt. mc_policy M = Some (Srt s (Some srt)) \<and> sp_command p = srt
     \<and> sp_args p = [''--settings'', mc_file M name, mcp_command cfg] @ mcp_args cfg"
proof (cases "mc_policy M")
  case None
  with assms show ?thesis by (auto simp: mcp_launch_def Let_def split: sum.splits)
next
  case (Some pol)
  then show ?thesis
  proof (cases pol)
    case NoSandbox
    with Some assms show ?thesis
      by (auto simp: mcp_launch_def Let_def sandbox_backend_def policy_backend_def split: sum.splits)
  next
    case (Srt s b)
    then obtain srt where "b = Some srt" using assms(3) Some by (cases b) auto
    with Srt Some assms(1,2) show ?thesis
      by (auto simp: mcp_launch_def Let_def sandbox_backend_def policy_backend_def wrap_mcp_stdio_def split: sum.splits)
  qed
qed

text \<open>The buffers of the servers' error output are made and never written: \<^verbatim>\<open>/mcp logs\<close> shows nothing.\<close>

definition buffers_empty :: "'g mcp_manager \<Rightarrow> bool" where
  "buffers_empty m = (\<forall>(n, ls) \<in> set (mm_buffers m). ls = [])"

lemma redact_Nil: "redact getenv raw [] = []"
proof -
  have "replace_parts v r [] = []" if "v \<noteq> []" for v r :: string
    using that by (subst replace_parts.simps) (cases v, auto)
  then show ?thesis by (simp add: redact_def split: env_value.split)
qed

lemma fold_redact_Nil: "fold (\<lambda>(k, raw). redact getenv raw) es [] = []"
  by (induction es) (auto simp: redact_Nil)

lemma get_logs_empty:
  assumes "buffers_empty m"
  shows "get_logs M name m = []"
proof (cases "map_of (mm_buffers m) name")
  case (Some ls)
  then have ls: "ls = []" using assms by (auto simp: buffers_empty_def dest!: map_of_SomeD)
  show ?thesis
  proof (cases "map_of (mc_configs M) name")
    case None
    with Some ls show ?thesis by (simp add: get_logs_def)
  next
    case (Some cfg)
    with \<open>map_of (mm_buffers m) name = Some ls\<close> show ?thesis
      unfolding get_logs_def ls by (simp only: option.case py_join.simps fold_redact_Nil)
  qed
qed (simp add: get_logs_def)

lemma connect_one_buffers:
  "mm_buffers (snd (connect_one M show_error name cfg now m))
     = (if name \<in> fst ` set (mm_buffers m) then mm_buffers m else mm_buffers m @ [(name, [])])"
proof (cases "mcp_launch M show_error name cfg")
  case (Inr p)
  obtain out g where c: "sdk_connect (mc_sdk M) p (mm_group m) = (out, g)" by (metis surj_pair)
  with Inr show ?thesis
    by (cases out) (simp_all add: connect_one_def Let_def case_prod_beta fail_server_def set_status_of_def split: option.split)
qed (simp add: connect_one_def Let_def fail_server_def set_status_of_def)

lemma logs_are_never_kept:
  "buffers_empty m \<Longrightarrow> buffers_empty (snd (connect_one M show_error name cfg now m))"
  "buffers_empty m \<Longrightarrow> buffers_empty (drop_adapters name m)"
  "buffers_empty m \<Longrightarrow> buffers_empty (handle_server_death name m)"
  "buffers_empty (new_manager M g)"
  by (auto simp: buffers_empty_def connect_one_buffers drop_adapters_def handle_server_death_def set_status_of_def
      new_manager_def split: option.split if_splits)

definition demo_boxed :: "bool mcp" where
  "demo_boxed = demo_mcp\<lparr>mc_policy := Some (Srt demo_settings (Some ''/bin/srt''))\<rparr>"

theorem mcp_servers_are_sandboxed_witness:
  "\<exists>p. mcp_launch demo_boxed (\<lambda>_. []) ''files'' (demo_mcp_config\<lparr>mcp_sandbox := True\<rparr>) = Inr p \<and> sp_command p = ''/bin/srt''"
proof -
  have "\<not> isl (mcp_launch demo_boxed (\<lambda>_. []) ''files'' (demo_mcp_config\<lparr>mcp_sandbox := True\<rparr>))" by code_simp
  then obtain p where p: "mcp_launch demo_boxed (\<lambda>_. []) ''files'' (demo_mcp_config\<lparr>mcp_sandbox := True\<rparr>) = Inr p"
    by (cases "mcp_launch demo_boxed (\<lambda>_. []) ''files'' (demo_mcp_config\<lparr>mcp_sandbox := True\<rparr>)") simp_all
  have "mcp_sandbox (demo_mcp_config\<lparr>mcp_sandbox := True\<rparr>)" "\<forall>s. mc_policy demo_boxed \<noteq> Some (Srt s None)"
    "mc_policy demo_boxed = Some (Srt demo_settings (Some ''/bin/srt''))"
    by (simp_all add: demo_boxed_def)
  with mcp_servers_are_sandboxed [OF _ p] p show ?thesis by auto
qed

end
