(* ===== verification/Commands.thy ===== *)
theory Commands
  imports TurnClass "HOL-Library.Multiset" Tasks "HOL-Library.List_Lexorder" "HOL-Library.Char_ord"
begin

section \<open>Slash commands: registry, dispatch and the two adapters\<close>

text \<open>
  \<^verbatim>\<open>core/commands/registry.py\<close>, \<^verbatim>\<open>spec.py\<close>, the helpers of \<^verbatim>\<open>_helpers.py\<close>, and the
  \<^verbatim>\<open>command_adapter.py\<close> of the two channels.  A handler is a value of a type of its own; what
  running it does to the world is an argument of the dispatch.  The texts of the replies are
  constructors of a datatype, because most of them are Chinese.

  \<^verbatim>\<open>register\<close> also refuses a handler that is not a coroutine function, which no handler of the
  model is.
\<close>

record 'h command_spec =
  cs_name :: string
  cs_handler :: 'h
  cs_category :: string
  cs_help :: string
  cs_channels :: "string list"
  cs_aliases :: "string list"
  cs_hint :: string
  cs_idle :: bool

record 'h command_registry =
  cr_specs :: "(string \<times> 'h command_spec) list"
  cr_primary :: "(string \<times> 'h command_spec) list"

definition no_commands :: "'h command_registry" where
  "no_commands = \<lparr>cr_specs = [], cr_primary = []\<rparr>"

datatype command_taken = AlreadyRegistered string

definition all_names :: "'h command_spec \<Rightarrow> string list" where
  "all_names spec = cs_name spec # cs_aliases spec"

definition register_command ::
    "'h command_spec \<Rightarrow> 'h command_registry \<Rightarrow> command_taken + 'h command_registry" where
  "register_command spec reg =
     (case find (\<lambda>n. map_of (cr_specs reg) n \<noteq> None) (all_names spec) of
        Some n \<Rightarrow> Inl (AlreadyRegistered n)
      | None \<Rightarrow>
          Inr \<lparr>cr_specs = fold (\<lambda>n. AList.update n spec) (all_names spec) (cr_specs reg),
               cr_primary = AList.update (cs_name spec) spec (cr_primary reg)\<rparr>)"

fun register_commands ::
    "'h command_spec list \<Rightarrow> 'h command_registry \<Rightarrow> command_taken + 'h command_registry" where
  "register_commands [] reg = Inr reg"
| "register_commands (spec # specs) reg =
     (case register_command spec reg of Inl e \<Rightarrow> Inl e | Inr reg' \<Rightarrow> register_commands specs reg')"

definition find_command :: "'h command_registry \<Rightarrow> string \<Rightarrow> 'h command_spec option" where
  "find_command reg n = map_of (cr_specs reg) n"

definition list_commands :: "'h command_registry \<Rightarrow> 'h command_spec list" where
  "list_commands reg = map snd (cr_primary reg)"

text \<open>\<^verbatim>\<open>grouped.setdefault(category, []).append(spec)\<close>\<close>

definition add_to_group :: "'h command_spec \<Rightarrow> (string \<times> 'h command_spec list) list \<Rightarrow> (string \<times> 'h command_spec list) list" where
  "add_to_group spec groups =
     AList.update (cs_category spec)
       ((case map_of groups (cs_category spec) of None \<Rightarrow> [] | Some ss \<Rightarrow> ss) @ [spec]) groups"

definition list_by_category :: "'h command_registry \<Rightarrow> (string \<times> 'h command_spec list) list" where
  "list_by_category reg =
     sort_key fst (map (\<lambda>(c, ss). (c, sort_key cs_name ss)) (fold add_to_group (list_commands reg) []))"

subsection \<open>Dispatch\<close>

text \<open>
  What a handler does under \<^verbatim>\<open>asyncio.wait_for\<close>: it returns, it is cut off at the time limit, it
  is cancelled, or it raises.  Its replies and its other effects are in the world.
\<close>

datatype handler_end = Finishes | TimesOut | Cancels | Fails

datatype 'h notice =
    ChannelOnly string "string list"
  | TookTooLong string
  | MustBeIdle
  | CommandFailed string

record ('h, 'w) command_world =
  cw_run :: "'h \<Rightarrow> string \<Rightarrow> 'w \<Rightarrow> handler_end \<times> 'w"
  cw_reply :: "'h notice \<Rightarrow> 'w \<Rightarrow> bool \<times> 'w"

datatype dispatch_end = Handled bool | Propagates handler_end

definition dispatch_command ::
    "('h, 'w) command_world \<Rightarrow> 'h command_registry \<Rightarrow> string \<Rightarrow> string \<Rightarrow> string \<Rightarrow> 'w \<Rightarrow> dispatch_end \<times> 'w" where
  "dispatch_command W reg channel n args w =
     (case find_command reg n of
        None \<Rightarrow> (Handled False, w)
      | Some spec \<Rightarrow>
          let replied = (\<lambda>note w. let (sent, w') = cw_reply W note w
                                  in (if sent then Handled True else Propagates Fails, w'))
          in if channel \<notin> set (cs_channels spec)
             then replied (ChannelOnly n (sort (cs_channels spec))) w
             else let (e, w') = cw_run W (cs_handler spec) args w
                  in case e of
                       Finishes \<Rightarrow> (Handled True, w')
                     | TimesOut \<Rightarrow> replied (TookTooLong n) w'
                     | Cancels \<Rightarrow> (Propagates Cancels, w')
                     | Fails \<Rightarrow> (Propagates Fails, w'))"

subsection \<open>The adapters\<close>

text \<open>\<^verbatim>\<open>_split_command\<close>: the name ends at the first blank (no other white space counts).\<close>

definition split_command :: "string \<Rightarrow> string \<times> string" where
  "split_command text =
     (let stripped = py_strip text
      in case py_find '' '' stripped of
           Some i \<Rightarrow> (py_lower (take i stripped), drop (Suc i) stripped)
         | None \<Rightarrow> (py_lower stripped, []))"

text \<open>
  \<^verbatim>\<open>idle_guard_check\<close>: the answer is whether the command stops here.  \<open>idle\<close> is the state of the
  queue of the conversation.
\<close>

definition idle_guard :: "'h command_spec \<Rightarrow> bool \<Rightarrow> bool" where
  "idle_guard spec idle = (cs_idle spec \<and> \<not> idle)"

definition check_idle :: "bool \<Rightarrow> bool" where
  "check_idle idle = (\<not> idle)"

text \<open>
  \<^verbatim>\<open>handle\<close> of both adapters.  \<open>idle\<close> is \<^const>\<open>None\<close> where the channel has no queue.  What the
  adapters compute for the handler (the key of the session, the profile of the user, the last
  usage) is a part of the world.  A failing reply to a failed command is logged and dropped.
\<close>

definition adapter_handle ::
    "('h, 'w) command_world \<Rightarrow> 'h command_registry \<Rightarrow> string \<Rightarrow> bool option \<Rightarrow> string \<Rightarrow> 'w \<Rightarrow> dispatch_end \<times> 'w" where
  "adapter_handle W reg channel idle text w =
     (if text = [] \<or> \<not> starts_with ''/'' (py_strip text) then (Handled False, w)
      else let (n, args) = split_command text
           in case find_command reg n of
                None \<Rightarrow> (Handled False, w)
              | Some spec \<Rightarrow>
                  if (case idle of None \<Rightarrow> False | Some b \<Rightarrow> idle_guard spec b)
                  then let (sent, w') = cw_reply W MustBeIdle w
                       in (if sent then Handled True else Propagates Fails, w')
                  else case dispatch_command W reg channel n args w of
                         (Propagates Fails, w') \<Rightarrow>
                           (Handled True, snd (cw_reply W (CommandFailed n) w'))
                       | r \<Rightarrow> r)"

text \<open>The identity a channel gives to a command: user, key of the session and workspace (Feishu's are in its own theory).\<close>

definition web_command_user :: "string \<Rightarrow> string" where
  "web_command_user user = (if user = [] then ''unknown'' else user)"

definition web_command_key :: "string \<Rightarrow> string" where
  "web_command_key user = ''web:'' @ web_command_user user"

definition web_command_workspace :: string where
  "web_command_workspace = ''default''"

subsection \<open>Durations\<close>

text \<open>
  \<^verbatim>\<open>re.fullmatch\<close> with the two patterns for minutes and hours.  The Chinese word for off is not
  in the range of the model's characters.  \<^const>\<open>dec_val\<close> is \<^verbatim>\<open>int\<close> on digits.
\<close>

definition minute_units :: "string list" where
  "minute_units = [''m'', ''min'', ''mins'', ''minute'', ''minutes'']"

definition hour_units :: "string list" where
  "hour_units = [''h'', ''hour'', ''hours'']"

definition parse_idle_duration :: "string \<Rightarrow> int option" where
  "parse_idle_duration arg =
     (let s = py_lower (py_strip arg);
          ds = takeWhile is_digit s; u = dropWhile is_digit s
      in if s \<in> {''off'', ''0'', ''disable''} then Some 0
         else if ds \<noteq> [] \<and> u \<in> set minute_units then Some (int (dec_val ds))
         else if ds \<noteq> [] \<and> u \<in> set hour_units then Some (int (dec_val ds) * 60)
         else None)"

subsection \<open>The list of commands\<close>

text \<open>
  \<^verbatim>\<open>register_builtin_commands\<close>, in its order.  The handlers are named; the help texts are
  rendered in English, and the argument hints of two commands too.
\<close>

datatype builtin_handler =
    CmdNew | CmdReset | CmdStatus | CmdWhoami | CmdHistory | CmdHelp | CmdIdle | CmdTier | CmdExtract
  | CmdModel | CmdCompact | CmdExport | CmdTasks | CmdMcp | CmdAdmin | CmdMemory | CmdCurator
  | CmdSkills | CmdTools | CmdQueue | CmdContext | CmdResume | CmdSteer | CmdBtw

definition ALL_CHANNELS :: "string list" where
  "ALL_CHANNELS = [''feishu'', ''web'']"

definition builtin_command ::
    "string \<Rightarrow> builtin_handler \<Rightarrow> string \<Rightarrow> string \<Rightarrow> string list \<Rightarrow> string \<Rightarrow> bool \<Rightarrow> builtin_handler command_spec" where
  "builtin_command n h category help aliases hint idle =
     \<lparr>cs_name = n, cs_handler = h, cs_category = category, cs_help = help, cs_channels = ALL_CHANNELS,
      cs_aliases = aliases, cs_hint = hint, cs_idle = idle\<rparr>"

definition builtin_commands :: "builtin_handler command_spec list" where
  "builtin_commands =
     [builtin_command ''/new'' CmdNew ''session'' ''start a new session'' [] ''[message]'' True,
      builtin_command ''/reset'' CmdReset ''session'' ''reset the session'' [] ''[message]'' True,
      builtin_command ''/status'' CmdStatus ''inspection'' ''show the state of the session'' [] [] False,
      builtin_command ''/whoami'' CmdWhoami ''inspection'' ''show the identity'' [] [] False,
      builtin_command ''/history'' CmdHistory ''inspection'' ''list earlier sessions'' [] [] False,
      builtin_command ''/help'' CmdHelp ''inspection'' ''show this help'' [] [] False,
      builtin_command ''/idle'' CmdIdle ''config'' ''set the idle limit'' [] ''<duration>'' False,
      builtin_command ''/tier'' CmdTier ''config'' ''show or switch the permission tier'' []
        ''[read-only|approval|yolo]'' False,
      builtin_command ''/extract'' CmdExtract ''evolution'' ''extract procedures'' [''/learn''] [] True,
      builtin_command ''/model'' CmdModel ''model'' ''show or switch the model'' [''/models''] ''[name]'' False,
      builtin_command ''/compact'' CmdCompact ''context'' ''compact the context'' [] ''[focus]'' True,
      builtin_command ''/export'' CmdExport ''context'' ''export the session'' [] ''[markdown|json] [inline]'' True,
      builtin_command ''/tasks'' CmdTasks ''inspection'' ''list and kill tasks'' []
        ''list [--all] | kill <id> [--confirm]'' False,
      builtin_command ''/mcp'' CmdMcp ''config'' ''manage MCP servers'' [] ''list | restart <name> | logs <name>'' False,
      builtin_command ''/admin'' CmdAdmin ''config'' ''manage users and the sandbox'' []
        ''user set|list|show ... | sandbox check'' False,
      builtin_command ''/memory'' CmdMemory ''inspection'' ''show memories'' []
        ''list [--facts|--procedures|--all] [--limit N] | search <q> | stats'' False,
      builtin_command ''/curator'' CmdCurator ''evolution'' ''manage learned procedures'' []
        ''list --auto|--stale|--archived | preview | restore <id> [--confirm] | review-status | review-trigger [--confirm]''
        False,
      builtin_command ''/skills'' CmdSkills ''skills'' ''manage the skills'' []
        ''list | search <q> | install <slug> [--version V] [--confirm] | check [name]'' False,
      builtin_command ''/tools'' CmdTools ''inspection'' ''list the tools'' [] [] False,
      builtin_command ''/queue'' CmdQueue ''inspection'' ''show the queue'' [] [] False,
      builtin_command ''/context'' CmdContext ''inspection'' ''show the usage of the last run'' [] [] False,
      builtin_command ''/resume'' CmdResume ''session'' ''switch to an earlier session'' [] ''[index|suffix|current]'' True,
      builtin_command ''/steer'' CmdSteer ''steering'' ''steer the running agent'' [] ''<message>'' False,
      builtin_command ''/btw'' CmdBtw ''steering'' ''ask a side question'' [] ''<question>'' False]"

definition register_builtin_commands ::
    "builtin_handler command_registry \<Rightarrow> command_taken + builtin_handler command_registry" where
  "register_builtin_commands = register_commands builtin_commands"

subsection \<open>The help text\<close>

definition pad_right :: "nat \<Rightarrow> string \<Rightarrow> string" where
  "pad_right n s = s @ replicate (n - length s) CHR '' ''"

text \<open>The lock sign is written \<^verbatim>\<open>[lock]\<close>.\<close>

definition help_line :: "'h command_spec \<Rightarrow> string" where
  "help_line spec =
     ''  '' @ cs_name spec @ '' ''
     @ (if cs_hint spec \<noteq> [] then pad_right 23 (cs_hint spec @ '' '') else pad_right 23 [])
     @ cs_help spec
     @ (if cs_aliases spec \<noteq> [] then '' (aliases: '' @ py_join '', '' (cs_aliases spec) @ '')'' else [])
     @ (if cs_idle spec then '' [lock]'' else [])"

definition help_lines :: "'h command_registry \<Rightarrow> string list" where
  "help_lines reg =
     [''PyClaw commands'', []]
     @ concat (map (\<lambda>(category, ss). category # map help_line ss @ [[]]) (list_by_category reg))
     @ [''Runtime Operations'', ''  /stop '' @ pad_right 22 [] @ ''stop the run'', []]
     @ (if \<exists>g \<in> set (list_by_category reg). \<exists>s \<in> set (snd g). cs_idle s
        then [''commands marked [lock] need an idle runner''] else [])"

definition cmd_help :: "'h command_registry \<Rightarrow> string" where
  "cmd_help reg = rev (dropWhile py_space (rev (py_join nl (help_lines reg)))) @ nl"


subsection \<open>The registry is consistent\<close>

text \<open>
  The invariant: every name leads to a registered command that bears it, and every registered
  command is reached by all its names.
\<close>

definition commands_ok :: "'h command_registry \<Rightarrow> bool" where
  "commands_ok reg \<longleftrightarrow>
     distinct (map fst (cr_primary reg))
     \<and> (\<forall>n s. (n, s) \<in> set (cr_primary reg)
          \<longrightarrow> n = cs_name s \<and> (\<forall>m \<in> set (all_names s). map_of (cr_specs reg) m = Some s))
     \<and> (\<forall>n s. map_of (cr_specs reg) n = Some s \<longrightarrow> n \<in> set (all_names s) \<and> s \<in> snd ` set (cr_primary reg))"

lemma commands_ok_empty [simp]: "commands_ok no_commands"
  by (simp add: commands_ok_def no_commands_def)

lemma specs_fold_update:
  "map_of (fold (\<lambda>n. AList.update n v) ns d) k = (if k \<in> set ns then Some v else map_of d k)"
  by (induction ns arbitrary: d) auto

lemma register_command_Inr:
  assumes "register_command spec reg = Inr reg'"
  shows "\<forall>n \<in> set (all_names spec). find_command reg n = None"
    "find_command reg' n = (if n \<in> set (all_names spec) then Some spec else find_command reg n)"
    "cr_primary reg' = AList.update (cs_name spec) spec (cr_primary reg)"
  using assms
  by (auto simp: register_command_def find_None_iff find_command_def specs_fold_update split: option.splits)

lemma commands_ok_get:
  assumes ok: "commands_ok reg"
  shows "find_command reg n = Some s \<longleftrightarrow> s \<in> set (list_commands reg) \<and> n \<in> set (all_names s)"
proof
  assume "find_command reg n = Some s"
  with ok show "s \<in> set (list_commands reg) \<and> n \<in> set (all_names s)"
    unfolding commands_ok_def find_command_def list_commands_def set_map by blast
next
  assume s: "s \<in> set (list_commands reg) \<and> n \<in> set (all_names s)"
  then obtain m where "(m, s) \<in> set (cr_primary reg)" by (auto simp: list_commands_def)
  with ok s show "find_command reg n = Some s"
    unfolding commands_ok_def find_command_def by blast
qed

lemma register_command_keeps:
  assumes ok: "commands_ok reg" and r: "register_command spec reg = Inr reg'"
  shows "commands_ok reg'" "list_commands reg' = list_commands reg @ [spec]"
proof -
  note free = register_command_Inr(1) [OF r]
  have "cs_name spec \<notin> fst ` set (cr_primary reg)"
    using ok free by (fastforce simp: commands_ok_def find_command_def all_names_def)
  then have p: "cr_primary reg' = cr_primary reg @ [(cs_name spec, spec)]"
    by (simp add: register_command_Inr(3) [OF r] dict_update_fresh)
  then show "list_commands reg' = list_commands reg @ [spec]" by (simp add: list_commands_def)
  have get: "map_of (cr_specs reg') n = (if n \<in> set (all_names spec) then Some spec else map_of (cr_specs reg) n)" for n
    using register_command_Inr(2) [OF r] by (simp add: find_command_def)
  have none: "map_of (cr_specs reg) n = None" if "n \<in> set (all_names spec)" for n
    using free that by (simp add: find_command_def)
  show "commands_ok reg'"
    unfolding commands_ok_def get p
  proof (intro conjI allI impI)
    show "distinct (map fst (cr_primary reg @ [(cs_name spec, spec)]))"
      using ok \<open>cs_name spec \<notin> _\<close> by (simp add: commands_ok_def)
  next
    fix n s assume "(n, s) \<in> set (cr_primary reg @ [(cs_name spec, spec)])"
    then consider "(n, s) \<in> set (cr_primary reg)" | "n = cs_name spec" "s = spec" by auto
    then have "n = cs_name s \<and> (\<forall>m \<in> set (all_names s).
        (if m \<in> set (all_names spec) then Some spec else map_of (cr_specs reg) m) = Some s)"
    proof cases
      case 1
      then have n: "n = cs_name s" and m: "\<forall>m \<in> set (all_names s). map_of (cr_specs reg) m = Some s"
        using ok unfolding commands_ok_def by blast+
      then have "\<forall>m \<in> set (all_names s). m \<notin> set (all_names spec)" using none by force
      with n m show ?thesis by simp
    qed simp
    then show "n = cs_name s" "\<forall>m \<in> set (all_names s).
        (if m \<in> set (all_names spec) then Some spec else map_of (cr_specs reg) m) = Some s" by blast+
  next
    fix n s assume "(if n \<in> set (all_names spec) then Some spec else map_of (cr_specs reg) n) = Some s"
    then show "n \<in> set (all_names s)" "s \<in> snd ` set (cr_primary reg @ [(cs_name spec, spec)])"
      using ok by (auto simp: commands_ok_def split: if_splits)
  qed
qed

lemma register_commands_keeps:
  assumes "commands_ok reg" "register_commands specs reg = Inr reg'"
  shows "commands_ok reg' \<and> list_commands reg' = list_commands reg @ specs"
  using assms
proof (induction specs arbitrary: reg)
  case (Cons spec specs)
  then obtain r1 where "register_command spec reg = Inr r1" "register_commands specs r1 = Inr reg'"
    by (auto split: sum.splits)
  with Cons.IH [of r1] register_command_keeps [OF Cons.prems(1)] show ?case by simp
qed simp

text \<open>
  Names and commands.  When a list of commands is registered without an error, the
  registry holds just these commands in their order, and a name leads to a command exactly when
  the command is one of them and bears the name, as its own or as an alias; so no name is shared
  and none is lost.
\<close>

theorem names_lead_to_their_commands:
  assumes "register_commands specs no_commands = Inr reg"
  shows "list_commands reg = specs
     \<and> (\<forall>n s. find_command reg n = Some s \<longleftrightarrow> s \<in> set specs \<and> n \<in> set (all_names s))"
proof -
  from register_commands_keeps [OF commands_ok_empty assms] have ok: "commands_ok reg" "list_commands reg = specs"
    by (simp_all add: list_commands_def no_commands_def)
  then show ?thesis using commands_ok_get [OF ok(1)] by simp
qed

text \<open>The built-in commands register, because their names are distinct.\<close>

lemma specs_of_registered:
  "register_command spec reg = Inr reg'
     \<Longrightarrow> find_command reg' n = None \<longleftrightarrow> n \<notin> set (all_names spec) \<and> find_command reg n = None"
  by (auto simp: register_command_Inr(2))

lemma distinct_names_register:
  assumes "distinct (concat (map all_names specs))"
    and "\<forall>n \<in> set (concat (map all_names specs)). find_command reg n = None"
  shows "\<exists>reg'. register_commands specs reg = Inr reg'"
  using assms
proof (induction specs arbitrary: reg)
  case (Cons spec specs)
  have "find (\<lambda>n. map_of (cr_specs reg) n \<noteq> None) (all_names spec) = None"
    using Cons.prems(2) by (auto simp: find_None_iff find_command_def)
  then obtain r1 where r1: "register_command spec reg = Inr r1" by (simp add: register_command_def)
  have "\<forall>n \<in> set (concat (map all_names specs)). find_command r1 n = None"
    using Cons.prems specs_of_registered [OF r1] by (auto simp: disjoint_iff)
  with Cons.IH [of r1] Cons.prems(1) r1 show ?case by auto
qed simp

lemma builtin_names:
  "map all_names builtin_commands =
     [[''/new''], [''/reset''], [''/status''], [''/whoami''], [''/history''], [''/help''], [''/idle''], [''/tier''],
      [''/extract'', ''/learn''], [''/model'', ''/models''], [''/compact''], [''/export''], [''/tasks''], [''/mcp''],
      [''/admin''], [''/memory''], [''/curator''], [''/skills''], [''/tools''], [''/queue''], [''/context''],
      [''/resume''], [''/steer''], [''/btw'']]"
  by (simp add: builtin_commands_def builtin_command_def all_names_def)

definition the_builtin_commands :: "builtin_handler command_registry" where
  "the_builtin_commands = (case register_builtin_commands no_commands of Inr reg \<Rightarrow> reg | Inl _ \<Rightarrow> no_commands)"

lemma builtin_commands_register: "register_commands builtin_commands no_commands = Inr the_builtin_commands"
proof -
  have "\<exists>reg. register_commands builtin_commands no_commands = Inr reg"
    by (rule distinct_names_register) (simp_all add: builtin_names find_command_def no_commands_def)
  then show ?thesis by (auto simp: the_builtin_commands_def register_builtin_commands_def)
qed

lemma builtin_commands_listed: "list_commands the_builtin_commands = builtin_commands"
  and builtin_commands_ok: "commands_ok the_builtin_commands"
  using register_commands_keeps [OF commands_ok_empty builtin_commands_register]
  by (simp_all add: list_commands_def no_commands_def)

lemma find_builtin:
  "s \<in> set builtin_commands \<Longrightarrow> n \<in> set (all_names s) \<Longrightarrow> find_command the_builtin_commands n = Some s"
  by (simp add: commands_ok_get [OF builtin_commands_ok] builtin_commands_listed)

lemma find_no_builtin:
  assumes "n \<notin> set (concat (map all_names builtin_commands))"
  shows "find_command the_builtin_commands n = None"
proof (cases "find_command the_builtin_commands n")
  case (Some s)
  then have "s \<in> set builtin_commands" "n \<in> set (all_names s)"
    by (simp_all add: commands_ok_get [OF builtin_commands_ok] builtin_commands_listed)
  with assms show ?thesis by auto
qed

theorem names_lead_to_their_commands_witness:
  "list_commands the_builtin_commands = builtin_commands
   \<and> map_option cs_handler (find_command the_builtin_commands ''/learn'') = Some CmdExtract"
proof -
  let ?s = "builtin_command ''/extract'' CmdExtract ''evolution'' ''extract procedures'' [''/learn''] [] True"
  have "?s \<in> set builtin_commands" by (simp add: builtin_commands_def)
  moreover have "''/learn'' \<in> set (all_names ?s)" "cs_handler ?s = CmdExtract"
    by (simp_all add: builtin_command_def all_names_def)
  moreover note names_lead_to_their_commands [OF builtin_commands_register]
  ultimately show ?thesis by force
qed

subsection \<open>The help names every command once\<close>

lemma mset_add_to_group:
  "map_of g k = Some old
     \<Longrightarrow> mset (concat (map snd (AList.update k (old @ [s]) g))) = add_mset s (mset (concat (map snd g)))"
  by (induction g) auto

lemma mset_groups:
  "mset (concat (map snd (fold add_to_group ss g))) = mset (concat (map snd g)) + mset ss"
proof (induction ss arbitrary: g)
  case (Cons s ss)
  have "mset (concat (map snd (add_to_group s g))) = add_mset s (mset (concat (map snd g)))"
  proof (cases "map_of g (cs_category s)")
    case None
    then have "cs_category s \<notin> fst ` set g" by (simp add: map_of_eq_None_iff)
    with None show ?thesis by (simp add: add_to_group_def dict_update_fresh)
  qed (simp add: add_to_group_def mset_add_to_group)
  with Cons.IH show ?case by simp
qed simp

definition groups_ok :: "(string \<times> 'h command_spec list) list \<Rightarrow> bool" where
  "groups_ok g \<longleftrightarrow> distinct (map fst g) \<and> (\<forall>(c, ss) \<in> set g. \<forall>s \<in> set ss. cs_category s = c)"

lemma groups_ok_add: "groups_ok g \<Longrightarrow> groups_ok (add_to_group s g)"
proof -
  assume ok: "groups_ok g"
  let ?old = "case map_of g (cs_category s) of None \<Rightarrow> [] | Some ss \<Rightarrow> ss"
  have "\<forall>x \<in> set ?old. cs_category x = cs_category s"
    using ok by (cases "map_of g (cs_category s)") (auto simp: groups_ok_def dest: map_of_SomeD)
  moreover have "(c, ss) = (cs_category s, ?old @ [s]) \<or> (c, ss) \<in> set g" if "(c, ss) \<in> set (add_to_group s g)" for c ss
    using that set_dict_update_subset [of "cs_category s" "?old @ [s]" g] by (auto simp: add_to_group_def)
  ultimately have "\<forall>x \<in> set ss. cs_category x = c" if "(c, ss) \<in> set (add_to_group s g)" for c ss
    using that ok by (fastforce simp: groups_ok_def)
  moreover have "distinct (map fst (add_to_group s g))"
    using ok by (simp add: groups_ok_def add_to_group_def distinct_update)
  ultimately show "groups_ok (add_to_group s g)" unfolding groups_ok_def by blast
qed

lemma groups_ok_fold: "groups_ok g \<Longrightarrow> groups_ok (fold add_to_group ss g)"
  by (induction ss arbitrary: g) (simp_all add: groups_ok_add)

lemma mset_concat_perm: "mset xs = mset ys \<Longrightarrow> mset (concat xs) = mset (concat ys)"
  by (metis mset_concat mset_map sum_mset_sum_list)

lemma mset_sorted_groups:
  "mset (concat (map snd (sort_key fst (map (\<lambda>(c, ss). (c, sort_key f ss)) g)))) = mset (concat (map snd g))"
proof -
  have "mset (concat (map snd (sort_key fst (map (\<lambda>(c, ss). (c, sort_key f ss)) g))))
      = mset (concat (map snd (map (\<lambda>(c, ss). (c, sort_key f ss)) g)))"
    by (rule mset_concat_perm) (simp only: mset_map mset_sort)
  also have "\<dots> = mset (concat (map snd g))" by (induction g) auto
  finally show ?thesis .
qed

text \<open>
  The help.  The listing by category is the registered commands, each just once,
  under its own category; the categories are distinct and in order, and so are the commands of
  each of them.
\<close>

theorem help_lists_every_command_once:
  "mset (concat (map snd (list_by_category reg))) = mset (list_commands reg)
   \<and> sorted (map fst (list_by_category reg)) \<and> distinct (map fst (list_by_category reg))
   \<and> (\<forall>(c, ss) \<in> set (list_by_category reg). sorted (map cs_name ss) \<and> (\<forall>s \<in> set ss. cs_category s = c))"
proof (intro conjI)
  let ?g = "fold add_to_group (list_commands reg) []"
  have ok: "groups_ok ?g" by (rule groups_ok_fold) (simp add: groups_ok_def)
  show "mset (concat (map snd (list_by_category reg))) = mset (list_commands reg)"
    by (simp add: list_by_category_def mset_sorted_groups mset_groups)
  show "sorted (map fst (list_by_category reg))" by (simp add: list_by_category_def)
  have "mset (map fst (list_by_category reg)) = mset (map fst ?g)"
    by (simp add: list_by_category_def case_prod_unfold image_mset.compositionality comp_def)
  then show "distinct (map fst (list_by_category reg))"
    using ok by (metis groups_ok_def mset_eq_imp_distinct_iff)
  show "\<forall>(c, ss) \<in> set (list_by_category reg). sorted (map cs_name ss) \<and> (\<forall>s \<in> set ss. cs_category s = c)"
    using ok by (fastforce simp: list_by_category_def groups_ok_def)
qed

theorem help_lists_every_command_once_witness:
  "length (concat (map snd (list_by_category the_builtin_commands))) = 24
   \<and> sorted (map fst (list_by_category the_builtin_commands))"
proof -
  note w = help_lists_every_command_once [of the_builtin_commands]
  have "length builtin_commands = 24" by (simp add: builtin_commands_def)
  with w show ?thesis unfolding builtin_commands_listed by (metis size_mset)
qed

subsection \<open>What the adapters let through\<close>

text \<open>A text that the adapter takes for a command: its first word is a registered name.\<close>

definition command_text :: "'h command_registry \<Rightarrow> string \<Rightarrow> bool" where
  "command_text reg text \<longleftrightarrow>
     starts_with ''/'' (py_strip text) \<and> find_command reg (fst (split_command text)) \<noteq> None"

lemma adapter_not_command:
  assumes "\<not> command_text reg text"
  shows "adapter_handle W reg channel idle text w = (Handled False, w)"
proof (cases "text = [] \<or> \<not> starts_with ''/'' (py_strip text)")
  case False
  obtain n args where sp: "split_command text = (n, args)" by fastforce
  with assms False have "find_command reg n = None" by (simp add: command_text_def)
  with False sp show ?thesis by (simp add: adapter_handle_def)
qed (simp add: adapter_handle_def)

lemma adapter_command:
  assumes "command_text reg text" and "split_command text = (n, args)" and "find_command reg n = Some spec"
  shows "adapter_handle W reg channel idle text w =
     (if cs_idle spec \<and> idle = Some False
      then (if fst (cw_reply W MustBeIdle w) then Handled True else Propagates Fails, snd (cw_reply W MustBeIdle w))
      else case dispatch_command W reg channel n args w of
             (Propagates Fails, w') \<Rightarrow> (Handled True, snd (cw_reply W (CommandFailed n) w'))
           | r \<Rightarrow> r)"
proof -
  have t: "starts_with ''/'' (py_strip text)" using assms(1) by (simp add: command_text_def)
  then have "text \<noteq> []" by auto
  moreover have "(case idle of None \<Rightarrow> False | Some b \<Rightarrow> idle_guard spec b) = (cs_idle spec \<and> idle = Some False)"
    by (auto simp: idle_guard_def split: option.split)
  ultimately show ?thesis using t assms(2,3)
    by (cases "cw_reply W MustBeIdle w") (simp add: adapter_handle_def Let_def)
qed

lemma dispatch_outcome:
  assumes "find_command reg n = Some spec"
  shows "fst (dispatch_command W reg channel n args w) \<in> {Handled True, Propagates Cancels, Propagates Fails}"
  using assms by (simp add: dispatch_command_def Let_def case_prod_unfold split: handler_end.split)


text \<open>A world that records: the commands that ran and the notices that were sent.\<close>

definition demo_commands :: "(builtin_handler, (builtin_handler \<times> string) list \<times> nat) command_world" where
  "demo_commands =
     \<lparr>cw_run = (\<lambda>h args (ran, sent). (Finishes, (ran @ [(h, args)], sent))),
      cw_reply = (\<lambda>note (ran, sent). (True, (ran, Suc sent)))\<rparr>"


subsection \<open>Durations\<close>

lemma show_nat_digits: "list_all is_digit (show_nat n) \<and> show_nat n \<noteq> []"
proof (induction n rule: show_nat.induct)
  case (1 n)
  have "is_digit (char_of (48 + d))" if "d < 10" for d :: nat
    using that by (simp add: is_digit_def Let_def of_char_digit)
  with 1 show ?case by (simp add: show_nat.simps [of n])
qed

lemma digit_plain: "is_digit c \<Longrightarrow> \<not> py_space c \<and> lower_char c = c"
  by (auto simp: is_digit_def py_space_def lower_char_def Let_def)

lemma parse_number_and_unit:
  assumes "u \<in> set minute_units \<union> set hour_units"
  shows "parse_idle_duration (show_nat n @ u)
     = Some (int n * (if u \<in> set hour_units then 60 else 1))"
proof -
  have d: "list_all is_digit (show_nat n)" "show_nat n \<noteq> []" using show_nat_digits by auto
  have u: "u \<noteq> []" "\<not> is_digit (hd u)" "\<not> py_space (last u)" "py_lower u = u"
    "u \<in> set hour_units \<Longrightarrow> u \<notin> set minute_units"
    using assms unfolding minute_units_def hour_units_def
    by (auto simp: is_digit_def py_space_def py_lower_def lower_char_def Let_def)
  have "hd (show_nat n @ u) = hd (show_nat n)" "last (show_nat n @ u) = last u" using d u by simp_all
  moreover have "\<not> py_space (hd (show_nat n))"
    using d digit_plain by (cases "show_nat n") auto
  ultimately have "py_strip (show_nat n @ u) = show_nat n @ u" using u by (intro py_strip_id) auto
  moreover have "py_lower (show_nat n) = show_nat n"
    unfolding py_lower_def using d by (intro map_idI) (auto simp: list_all_iff digit_plain)
  ultimately have s: "py_lower (py_strip (show_nat n @ u)) = show_nat n @ u"
    using u by (simp add: py_lower_def)
  have td: "takeWhile is_digit (show_nat n @ u) = show_nat n" "dropWhile is_digit (show_nat n @ u) = u"
    using d u by (cases u; simp add: takeWhile_append2 dropWhile_append2 list_all_iff)+
  have "is_digit (hd (show_nat n @ u))" using d by (cases "show_nat n") auto
  then have ne: "show_nat n @ u \<notin> {''off'', ''disable''}" by (auto simp: is_digit_def Let_def)
  have "show_nat n @ u \<noteq> ''0''"
    using d u by (metis Nil_is_append_conv append_eq_Cons_conv)
  with ne s td d u assms show ?thesis
    by (auto simp: parse_idle_duration_def Let_def dec_val_show_nat)
qed

end
