(* ===== verification/SystemPrompt.thy ===== *)
theory SystemPrompt
  imports Steering SopStore
begin

section \<open>The system prompt\<close>

text \<open>
  \<^verbatim>\<open>core/agent/system_prompt.py\<close>: the sections of the frozen prefix, the budget that cuts them, the
  suffix of a turn and the prompt in one piece.  The long dash of the tool lines is written as a
  hyphen.
\<close>

subsection \<open>Sections\<close>

record skill_summary =
  su_name :: string
  su_description :: string
  su_location :: string

record prompt_inputs =
  pi_session :: string
  pi_workspace :: string
  pi_agent :: string
  pi_model :: string
  pi_tools :: "(string \<times> string) list"
  pi_skills :: "skill_summary list"
  pi_skills_prompt :: "string option"
  pi_path :: "string option"
  pi_now :: string
  pi_identity :: string

record prompt_section =
  sec_name :: string
  sec_text :: string
  sec_truncatable :: bool

abbreviation sec :: "string \<Rightarrow> string \<Rightarrow> bool \<Rightarrow> prompt_section" where
  "sec n tx b \<equiv> \<lparr>sec_name = n, sec_text = tx, sec_truncatable = b\<rparr>"

text \<open>\<^verbatim>\<open>estimated_tokens\<close>\<close>

definition sec_tokens :: "prompt_section \<Rightarrow> int" where
  "sec_tokens s = int (length (sec_text s) div 4)"

definition prompt_tokens :: "prompt_section list \<Rightarrow> int" where
  "prompt_tokens ss = sum_list (map sec_tokens ss)"

record prompt_result =
  pr_text :: string
  pr_sections :: "prompt_section list"
  pr_breakdown :: "(string \<times> int) list"

definition from_sections :: "prompt_section list \<Rightarrow> prompt_result" where
  "from_sections ss =
     \<lparr>pr_text = py_join (nl @ nl) (map sec_text ss), pr_sections = ss,
      pr_breakdown = fold (\<lambda>s. AList.update (sec_name s) (sec_tokens s)) ss []\<rparr>"

definition identity_section :: "prompt_inputs \<Rightarrow> string" where
  "identity_section inp = pi_identity inp"

definition first_line :: "string \<Rightarrow> string" where
  "first_line s = takeWhile (\<lambda>c. c \<noteq> CHR 0x0A) s"

definition tooling_section :: "prompt_inputs \<Rightarrow> string option" where
  "tooling_section inp =
     (if pi_tools inp = [] then None
      else Some (py_join nl
        ([''## Tools'', ''You have access to the following tools. Use them when helpful.'']
         @ map (\<lambda>(n, d). ''- `'' @ n @ ''` - '' @ py_strip (first_line d)) (pi_tools inp))))"

definition skill_block :: "skill_summary \<Rightarrow> string list" where
  "skill_block s =
     [''  <skill>'',
      ''    <name>'' @ xml_escape (su_name s) @ ''</name>'',
      ''    <description>'' @ xml_escape (su_description s) @ ''</description>'',
      ''    <location>'' @ xml_escape (su_location s) @ ''</location>'',
      ''  </skill>'']"

definition skills_section :: "prompt_inputs \<Rightarrow> string option" where
  "skills_section inp =
     (if pi_skills inp = [] then None
      else Some (py_join nl
        ([''## Available Skills'',
          ''Before replying, scan the skill descriptions below. '' @
          ''If one applies, read its SKILL.md file at the location with the read tool, then follow it.'',
          [], ''<available_skills>'']
         @ concat (map skill_block (pi_skills inp)) @ [''</available_skills>''])))"

definition workspace_section :: "prompt_inputs \<Rightarrow> string option" where
  "workspace_section inp =
     (if \<not> opt_truthy (pi_path inp) then None
      else Some (''## Workspace'' @ nl @ ''Working directory: `'' @ the (pi_path inp) @ ''`'' @ nl
                 @ ''Workspace id: `'' @ pi_workspace inp @ ''`''))"

text \<open>\<open>pi_now\<close> is the time given, or the reading of the clock where none is.\<close>

definition runtime_section :: "prompt_inputs \<Rightarrow> string" where
  "runtime_section inp =
     ''## Runtime'' @ nl @ ''agent='' @ pi_agent inp @ '' | model='' @ pi_model inp
     @ '' | session='' @ pi_session inp @ '' | time='' @ pi_now inp"

definition skills_text :: "prompt_inputs \<Rightarrow> string option" where
  "skills_text inp = (if opt_truthy (pi_skills_prompt inp) then pi_skills_prompt inp else skills_section inp)"

subsection \<open>The budget\<close>

definition TRUNCATION_PRIORITY :: "string list" where
  "TRUNCATION_PRIORITY = [''skills'', ''bootstrap'', ''l1_snapshot'', ''workspace'']"

text \<open>The inner loop: the first section of the name that may be cut is emptied or shortened.\<close>

fun cut_section :: "string \<Rightarrow> int \<Rightarrow> prompt_section list \<Rightarrow> prompt_section list \<times> int" where
  "cut_section n overflow [] = ([], overflow)"
| "cut_section n overflow (s # ss) =
     (if sec_name s \<noteq> n \<or> \<not> sec_truncatable s
      then let (ss', o') = cut_section n overflow ss in (s # ss', o')
      else if sec_tokens s \<le> overflow
      then (s\<lparr>sec_text := []\<rparr> # ss, overflow - sec_tokens s)
      else (s\<lparr>sec_text := take (nat (max 0 (int (length (sec_text s)) - overflow * 4))) (sec_text s)\<rparr> # ss, 0))"

fun cut_by_priority :: "string list \<Rightarrow> int \<Rightarrow> prompt_section list \<Rightarrow> prompt_section list \<times> int" where
  "cut_by_priority [] overflow ss = (ss, overflow)"
| "cut_by_priority (n # ns) overflow ss =
     (if overflow \<le> 0 then (ss, overflow)
      else let (ss', o') = cut_section n overflow ss in cut_by_priority ns o' ss')"

definition enforce_system_budget :: "prompt_section list \<Rightarrow> int \<Rightarrow> prompt_section list" where
  "enforce_system_budget ss budget =
     (if prompt_tokens ss \<le> budget then ss
      else filter (\<lambda>s. sec_text s \<noteq> []) (fst (cut_by_priority TRUNCATION_PRIORITY (prompt_tokens ss - budget) ss)))"

subsection \<open>The prompts\<close>

definition opt_section :: "string \<Rightarrow> bool \<Rightarrow> string option \<Rightarrow> prompt_section list" where
  "opt_section n b tx = (if opt_truthy tx then [sec n (the tx) b] else [])"

definition frozen_sections :: "prompt_inputs \<Rightarrow> string option \<Rightarrow> string option \<Rightarrow> prompt_section list" where
  "frozen_sections inp bootstrap l1_snapshot =
     opt_section ''identity'' False (Some (identity_section inp))
     @ opt_section ''tools'' False (tooling_section inp)
     @ opt_section ''skills'' True (skills_text inp)
     @ opt_section ''workspace'' True (workspace_section inp)
     @ opt_section ''bootstrap'' True bootstrap
     @ opt_section ''l1_snapshot'' True l1_snapshot"

definition build_frozen_prefix ::
    "prompt_inputs \<Rightarrow> int option \<Rightarrow> string option \<Rightarrow> string option \<Rightarrow> prompt_result" where
  "build_frozen_prefix inp budget bootstrap l1_snapshot =
     (let ss = frozen_sections inp bootstrap l1_snapshot
      in from_sections (case budget of None \<Rightarrow> ss | Some b \<Rightarrow> enforce_system_budget ss b))"

text \<open>\<open>hooks\<close> is what the prompt hooks add, before and after; nothing where there is no registry.\<close>

definition build_per_turn_suffix :: "prompt_inputs \<Rightarrow> string option \<times> string option \<Rightarrow> prompt_result" where
  "build_per_turn_suffix inp hooks =
     from_sections
       (opt_section ''hooks_prepend'' True (fst hooks)
        @ [sec ''runtime'' (runtime_section inp) True]
        @ opt_section ''hooks_append'' True (snd hooks))"

definition opt_part :: "string option \<Rightarrow> string list" where
  "opt_part tx = (if opt_truthy tx then [the tx] else [])"

definition build_system_prompt :: "prompt_inputs \<Rightarrow> string option \<times> string option \<Rightarrow> string" where
  "build_system_prompt inp hooks =
     py_join (nl @ nl)
       (opt_part (fst hooks)
        @ concat (map opt_part
            [Some (identity_section inp), tooling_section inp, skills_text inp, workspace_section inp,
             Some (runtime_section inp)])
        @ opt_part (snd hooks))"

subsection \<open>The budget is kept\<close>

lemma sec_tokens_nonneg [simp]: "0 \<le> sec_tokens s"
  by (simp add: sec_tokens_def)

lemma prompt_tokens_simps [simp]:
  "prompt_tokens [] = 0" "prompt_tokens (s # ss) = sec_tokens s + prompt_tokens ss"
  "prompt_tokens (xs @ ys) = prompt_tokens xs + prompt_tokens ys"
  by (simp_all add: prompt_tokens_def)

lemma prompt_tokens_nonneg: "0 \<le> prompt_tokens ss"
  by (induction ss) simp_all

lemma prompt_tokens_nonempty: "prompt_tokens (filter (\<lambda>s. sec_text s \<noteq> []) ss) = prompt_tokens ss"
  by (induction ss) (simp_all add: sec_tokens_def)

text \<open>Shortening by four characters for every token that is too much removes just these tokens.\<close>

lemma shortened_tokens:
  assumes "0 < overflow" "overflow < sec_tokens s"
  shows "int (length (take (nat (max 0 (int (length (sec_text s)) - overflow * 4))) (sec_text s)) div 4)
     = sec_tokens s - overflow"
  using assms by (simp add: sec_tokens_def)

lemma cut_section_tokens:
  assumes "0 < overflow" "cut_section n overflow ss = (ss', o')"
  shows "0 \<le> o' \<and> prompt_tokens ss' - o' = prompt_tokens ss - overflow"
  using assms(2)
proof (induction ss arbitrary: ss')
  case (Cons s ss)
  show ?case
  proof (cases "sec_name s \<noteq> n \<or> \<not> sec_truncatable s")
    case True
    then obtain ss1 where "cut_section n overflow ss = (ss1, o')" "ss' = s # ss1"
      using Cons.prems by (auto split: prod.splits)
    with Cons.IH show ?thesis by auto
  next
    case False
    show ?thesis
    proof (cases "sec_tokens s \<le> overflow")
      case True
      have "sec_tokens (s\<lparr>sec_text := []\<rparr>) = 0" by (simp add: sec_tokens_def)
      with False True Cons.prems show ?thesis by auto
    next
      case False': False
      let ?s = "s\<lparr>sec_text := take (nat (max 0 (int (length (sec_text s)) - overflow * 4))) (sec_text s)\<rparr>"
      have "sec_tokens ?s = sec_tokens s - overflow"
        using shortened_tokens [OF assms(1), of s] False' by (simp add: sec_tokens_def)
      moreover have "ss' = ?s # ss" "o' = 0" using False False' Cons.prems by auto
      ultimately show ?thesis by simp
    qed
  qed
qed (use assms in simp)

lemma cut_by_priority_tokens:
  assumes "0 \<le> overflow" "cut_by_priority ns overflow ss = (ss', o')"
  shows "0 \<le> o' \<and> prompt_tokens ss' - o' = prompt_tokens ss - overflow"
  using assms
proof (induction ns arbitrary: overflow ss)
  case (Cons n ns)
  show ?case
  proof (cases "overflow \<le> 0")
    case True
    with Cons.prems show ?thesis by auto
  next
    case False
    obtain s1 o1 where c: "cut_section n overflow ss = (s1, o1)" by fastforce
    with cut_section_tokens [OF _ c] False Cons.IH [of o1 s1] Cons.prems show ?thesis by auto
  qed
qed simp

text \<open>What a cut leaves as it is: names, and the sections that it may not touch.\<close>

definition cut_of :: "string set \<Rightarrow> prompt_section \<Rightarrow> prompt_section \<Rightarrow> bool" where
  "cut_of N s s' \<longleftrightarrow> sec_name s' = sec_name s \<and> sec_truncatable s' = sec_truncatable s
     \<and> (\<not> (sec_truncatable s \<and> sec_name s \<in> N) \<longrightarrow> s' = s)"

lemma cuts_refl: "list_all2 (cut_of N) ss ss"
  by (simp add: cut_of_def list_all2_refl)

lemma cuts_trans:
  assumes "list_all2 (cut_of M) xs ys" "list_all2 (cut_of N) ys zs"
  shows "list_all2 (cut_of (M \<union> N)) xs zs"
  by (rule list_all2_trans [OF _ assms]) (auto simp: cut_of_def)

lemma cuts_names: "list_all2 (cut_of N) xs ys \<Longrightarrow> map sec_name ys = map sec_name xs"
  by (induction rule: list_all2_induct) (auto simp: cut_of_def)

lemma cuts_keep:
  "list_all2 (cut_of N) xs ys \<Longrightarrow> \<not> (sec_truncatable s \<and> sec_name s \<in> N) \<Longrightarrow> s \<in> set xs \<longleftrightarrow> s \<in> set ys"
  by (induction rule: list_all2_induct) (auto simp: cut_of_def)

lemma cuts_emptied:
  assumes "list_all2 (cut_of N) xs ys"
    and "\<forall>s \<in> set ys. sec_truncatable s \<and> sec_name s \<in> N \<longrightarrow> sec_text s = []"
  shows "prompt_tokens ys = prompt_tokens (filter (\<lambda>s. \<not> (sec_truncatable s \<and> sec_name s \<in> N)) xs)"
  using assms by (induction rule: list_all2_induct) (auto simp: cut_of_def sec_tokens_def)

lemma cut_section_cuts:
  "cut_section n overflow ss = (ss', o') \<Longrightarrow> list_all2 (cut_of {n}) ss ss'"
proof (induction ss arbitrary: ss')
  case (Cons s ss)
  show ?case
  proof (cases "sec_name s \<noteq> n \<or> \<not> sec_truncatable s")
    case True
    then obtain s1 where "cut_section n overflow ss = (s1, o')" "ss' = s # s1"
      using Cons.prems by (auto split: prod.splits)
    with Cons.IH show ?thesis by (auto simp: cut_of_def)
  next
    case False
    with Cons.prems show ?thesis by (auto simp: cuts_refl cut_of_def [of _ s] split: if_splits)
  qed
qed simp

text \<open>With distinct names, a cut that leaves an overflow has emptied the sections of the name.\<close>

lemma cut_section_emptied:
  assumes "cut_section n overflow ss = (ss', o')" "0 < o'" "distinct (map sec_name ss)"
    and "s \<in> set ss'" "sec_name s = n" "sec_truncatable s"
  shows "sec_text s = []"
  using assms
proof (induction ss arbitrary: ss')
  case (Cons x xs)
  show ?case
  proof (cases "sec_name x \<noteq> n \<or> \<not> sec_truncatable x")
    case True
    then obtain s1 where "cut_section n overflow xs = (s1, o')" "ss' = x # s1"
      using Cons.prems(1) by (auto split: prod.splits)
    with Cons True show ?thesis by auto
  next
    case False
    then have "ss' = x\<lparr>sec_text := []\<rparr> # xs"
      using Cons.prems(1,2) by (cases "sec_tokens x \<le> overflow") simp_all
    moreover have "sec_name y \<noteq> n" if "y \<in> set xs" for y using that False Cons.prems(3) by force
    ultimately show ?thesis using Cons.prems(4,5) by auto
  qed
qed simp

lemma cut_by_priority_cuts:
  assumes "cut_by_priority ns overflow ss = (ss', o')" "0 \<le> overflow"
  shows "list_all2 (cut_of (set ns)) ss ss'
     \<and> (distinct (map sec_name ss) \<longrightarrow> 0 < o'
          \<longrightarrow> (\<forall>s \<in> set ss'. sec_truncatable s \<and> sec_name s \<in> set ns \<longrightarrow> sec_text s = []))"
  using assms
proof (induction ns arbitrary: overflow ss)
  case Nil
  then show ?case by (simp add: cuts_refl)
next
  case (Cons n ns)
  show ?case
  proof (cases "overflow \<le> 0")
    case True
    with Cons.prems have "ss' = ss" "o' \<le> 0" by auto
    then show ?thesis by (simp add: cuts_refl)
  next
    case False
    then obtain s1 o1 where c: "cut_section n overflow ss = (s1, o1)" "cut_by_priority ns o1 s1 = (ss', o')"
      using Cons.prems by (auto split: prod.splits)
    have o1: "0 \<le> o1" using cut_section_tokens [OF _ c(1)] False by simp
    note ih = Cons.IH [OF c(2) o1] and cs = cut_section_cuts [OF c(1)]
    have "list_all2 (cut_of (set (n # ns))) ss ss'"
      using cuts_trans [OF cs] ih by simp
    moreover have "sec_text s = []"
      if d: "distinct (map sec_name ss)" "0 < o'" and s: "s \<in> set ss'" "sec_truncatable s" "sec_name s \<in> set (n # ns)" for s
    proof (cases "sec_name s \<in> set ns")
      case True
      with ih d s cuts_names [OF cs] show ?thesis by simp
    next
      case False
      with s have "s \<in> set s1" "sec_name s = n" using cuts_keep [OF conjunct1 [OF ih], of s] by auto
      moreover have "0 < o1"
        using o1 c(2) d(2) by (cases "o1 = 0"; cases ns) auto
      ultimately show ?thesis using cut_section_emptied [OF c(1)] d(1) s(2) by simp
    qed
    ultimately show ?thesis by blast
  qed
qed

definition cuttable :: "prompt_section \<Rightarrow> bool" where
  "cuttable s \<longleftrightarrow> sec_truncatable s \<and> sec_name s \<in> set TRUNCATION_PRIORITY"

text \<open>
  Property C36.  The budget of the system prompt.  For sections of distinct names the sections that
  are left stay within the budget, or within what the sections that may not be cut need, if that
  is more; all of these sections stay as they are, and the order of the sections is kept.
\<close>

theorem system_budget_is_kept:
  assumes "distinct (map sec_name ss)"
  shows "prompt_tokens (enforce_system_budget ss budget) \<le> max budget (prompt_tokens (filter (\<lambda>s. \<not> cuttable s) ss))
     \<and> (\<forall>s. s \<in> set ss \<and> \<not> cuttable s \<and> sec_text s \<noteq> [] \<longrightarrow> s \<in> set (enforce_system_budget ss budget))
     \<and> subseq (map sec_name (enforce_system_budget ss budget)) (map sec_name ss)"
proof (cases "prompt_tokens ss \<le> budget")
  case True
  then show ?thesis by (simp add: enforce_system_budget_def)
next
  case False
  obtain ss' o' where c: "cut_by_priority TRUNCATION_PRIORITY (prompt_tokens ss - budget) ss = (ss', o')"
    by fastforce
  then have e: "enforce_system_budget ss budget = filter (\<lambda>s. sec_text s \<noteq> []) ss'"
    using False by (simp add: enforce_system_budget_def)
  have t: "0 \<le> o'" "prompt_tokens ss' = budget + o'"
    using cut_by_priority_tokens [OF _ c] False by auto
  have cuts: "list_all2 (cut_of (set TRUNCATION_PRIORITY)) ss ss'"
    and emp: "0 < o' \<Longrightarrow> \<forall>s \<in> set ss'. sec_truncatable s \<and> sec_name s \<in> set TRUNCATION_PRIORITY \<longrightarrow> sec_text s = []"
    using cut_by_priority_cuts [OF c] False assms by auto
  have "prompt_tokens ss' \<le> max budget (prompt_tokens (filter (\<lambda>s. \<not> cuttable s) ss))"
    using t cuts_emptied [OF cuts emp] by (cases "o' = 0") (auto simp: cuttable_def)
  moreover have "s \<in> set ss'" if "s \<in> set ss" "\<not> cuttable s" for s
    using cuts_keep [OF cuts, of s] that by (simp add: cuttable_def)
  moreover have "subseq (map sec_name (filter (\<lambda>s. sec_text s \<noteq> []) ss')) (map sec_name ss)"
    using subseq_map [OF subseq_filter_left, of sec_name _ ss'] by (simp add: cuts_names [OF cuts])
  ultimately show ?thesis by (simp add: e prompt_tokens_nonempty)
qed

lemma frozen_names: "distinct (map sec_name (frozen_sections inp bootstrap l1_snapshot))"
  by (simp add: frozen_sections_def opt_section_def)

definition demo_inputs :: prompt_inputs where
  "demo_inputs = \<lparr>pi_session = ''s'', pi_workspace = ''w'', pi_agent = ''a'', pi_model = ''m'',
     pi_tools = [(''bash'', ''run'')], pi_skills = [], pi_skills_prompt = Some (replicate 400 CHR ''x''),
     pi_path = Some ''/w'', pi_now = ''t'', pi_identity = ''You are PyClaw.''\<rparr>"

theorem system_budget_is_kept_witness:
  "prompt_tokens (enforce_system_budget (frozen_sections demo_inputs (Some ''AGENTS'') None) 60) \<le> 60"
proof -
  have "prompt_tokens (filter (\<lambda>s. \<not> cuttable s) (frozen_sections demo_inputs (Some ''AGENTS'') None)) \<le> 60"
    by code_simp
  with system_budget_is_kept [OF frozen_names, of demo_inputs "Some ''AGENTS''" None 60] show ?thesis by simp
qed

subsection \<open>One prompt or two\<close>

lemma join_append:
  "xs \<noteq> [] \<Longrightarrow> ys \<noteq> [] \<Longrightarrow> py_join sep (xs @ ys) = py_join sep xs @ sep @ py_join sep ys"
proof (induction sep xs rule: py_join.induct)
  case (2 sep x)
  then show ?case by (cases ys) simp_all
qed simp_all

lemma opt_part_None [simp]: "opt_part None = []"
  by (simp add: opt_part_def)

lemma map_opt_section: "map sec_text (opt_section n b tx) = opt_part tx"
  by (simp add: opt_section_def opt_part_def)

text \<open>
  The prompt in two pieces.  The frozen prefix without a budget, a bootstrap text or a
  snapshot, followed by the suffix of the turn, is the prompt that is built in one piece, unless a
  hook wants to be in front of it.
\<close>

theorem prefix_and_suffix_make_the_prompt:
  assumes "pi_identity inp \<noteq> []" and "\<not> opt_truthy (fst hooks)"
  shows "pr_text (build_frozen_prefix inp None None None) @ nl @ nl @ pr_text (build_per_turn_suffix inp hooks)
     = build_system_prompt inp hooks"
proof -
  let ?a = "concat (map opt_part [Some (identity_section inp), tooling_section inp, skills_text inp, workspace_section inp])"
  let ?b = "runtime_section inp # opt_part (snd hooks)"
  have "?a \<noteq> []" using assms(1) by (simp add: opt_part_def identity_section_def)
  then have "py_join (nl @ nl) (?a @ ?b) = py_join (nl @ nl) ?a @ (nl @ nl) @ py_join (nl @ nl) ?b"
    by (rule join_append) simp
  moreover have "pr_text (build_frozen_prefix inp None None None) = py_join (nl @ nl) ?a"
    by (simp add: build_frozen_prefix_def from_sections_def frozen_sections_def map_opt_section)
  moreover have "pr_text (build_per_turn_suffix inp hooks) = py_join (nl @ nl) ?b"
    using assms(2) by (simp add: build_per_turn_suffix_def from_sections_def map_opt_section) (simp add: opt_part_def)
  moreover have "build_system_prompt inp hooks = py_join (nl @ nl) (?a @ ?b)"
    using assms(2) by (simp add: build_system_prompt_def) (simp add: opt_part_def runtime_section_def)
  ultimately show ?thesis by simp
qed

theorem prefix_and_suffix_make_the_prompt_witness:
  "pr_text (build_frozen_prefix demo_inputs None None None) @ nl @ nl @ pr_text (build_per_turn_suffix demo_inputs (None, Some ''end''))
     = build_system_prompt demo_inputs (None, Some ''end'')"
  by (rule prefix_and_suffix_make_the_prompt) (simp_all add: demo_inputs_def)

end
