(* ===== verification/AdminCommands.thy ===== *)
theory AdminCommands
  imports Commands Curator Mcp WebChat Feishu
begin

section \<open>The commands that inspect and manage\<close>

text \<open>
  \<^verbatim>\<open>core/commands/tasks.py\<close>, \<^verbatim>\<open>admin.py\<close>, \<^verbatim>\<open>memory.py\<close>, \<^verbatim>\<open>curator.py\<close>, \<^verbatim>\<open>skills.py\<close> and the listings of
  \<^verbatim>\<open>readonly.py\<close>, with \<^verbatim>\<open>storage/memory/inspection.py\<close> and \<^verbatim>\<open>skills/management.py\<close> under them.  A handler
  answers a value of a datatype for its reply and the state it leaves.  \<^verbatim>\<open>shlex.split\<close>, dates and JSON
  text are arguments.
\<close>

subsection \<open>Words of a command\<close>

text \<open>\<^verbatim>\<open>args.strip().split()\<close>: the words between white space.\<close>

function words_of :: "string \<Rightarrow> string list" where
  "words_of s =
     (case dropWhile py_space s of
        [] \<Rightarrow> []
      | c # cs \<Rightarrow> (c # takeWhile (\<lambda>x. \<not> py_space x) cs) # words_of (dropWhile (\<lambda>x. \<not> py_space x) cs))"
  by pat_completeness auto
termination
proof (relation "measure length")
  fix s :: string and c cs
  assume "dropWhile py_space s = c # cs"
  then have "length (c # cs) \<le> length s" by (metis length_dropWhile_le)
  moreover have "length (dropWhile (\<lambda>x. \<not> py_space x) cs) \<le> length cs" by (rule length_dropWhile_le)
  ultimately show "(dropWhile (\<lambda>x. \<not> py_space x) cs, s) \<in> measure length" by simp
qed simp

declare words_of.simps [simp del]

subsection \<open>Tasks\<close>

definition PROTECTED_KILL_CATEGORIES :: "string list" where
  "PROTECTED_KILL_CATEGORIES = [''consumer'', ''heartbeat'', ''archive'']"

definition is_task_admin :: "string \<Rightarrow> string list \<Rightarrow> bool" where
  "is_task_admin user admins = (user \<in> set admins)"

datatype tasks_reply =
    TasksUsage
  | UnknownSub string
  | NoManager
  | AdminsOnly
  | NoTasks
  | TaskLines bool "task_info list"
  | KillUsage
  | NoSuchTask string
  | KillPreview task_info bool
  | KillRefused string
  | TaskCancelled string
  | TaskGone string

text \<open>\<open>outcome\<close> is how a task that is cancelled ends, if it does within the answer.\<close>

definition cmd_tasks_list ::
    "rat \<Rightarrow> string \<Rightarrow> string list \<Rightarrow> string \<Rightarrow> string list \<Rightarrow> task_manager option \<Rightarrow> tasks_reply" where
  "cmd_tasks_list now user admins skey rest tm =
     (case tm of
        None \<Rightarrow> NoManager
      | Some m \<Rightarrow>
          let show_all = (''--all'' \<in> set rest) in
          if show_all \<and> \<not> is_task_admin user admins then AdminsOnly
          else case (if show_all then list_all_tasks now tm False else list_for_owner now tm skey) of
                 Inl _ \<Rightarrow> NoManager
               | Inr infos \<Rightarrow> if infos = [] then NoTasks else TaskLines show_all infos)"

definition cmd_tasks_kill ::
    "rat \<Rightarrow> task_end option \<Rightarrow> string \<Rightarrow> string list \<Rightarrow> string list \<Rightarrow> task_manager option
       \<Rightarrow> tasks_reply \<times> task_manager option" where
  "cmd_tasks_kill now outcome user admins rest tm =
     (if \<not> is_task_admin user admins then (AdminsOnly, tm)
      else case rest of
        [] \<Rightarrow> (KillUsage, tm)
      | tid # opts \<Rightarrow>
          (case tm of
             None \<Rightarrow> (NoManager, tm)
           | Some m \<Rightarrow>
               (case describe_task now tm tid of
                  Inr (Some info) \<Rightarrow>
                    let protected = (ti_category info \<in> set PROTECTED_KILL_CATEGORIES) in
                    if ''--confirm'' \<notin> set opts then (KillPreview info protected, tm)
                    else if protected then (KillRefused (ti_category info), tm)
                    else let (cancelled, m') = cancel_task tid outcome m
                         in (if cancelled then TaskCancelled tid else TaskGone tid, Some m')
                | _ \<Rightarrow> (NoSuchTask tid, tm))))"

definition cmd_tasks ::
    "rat \<Rightarrow> task_end option \<Rightarrow> string \<Rightarrow> string list \<Rightarrow> string \<Rightarrow> string \<Rightarrow> task_manager option
       \<Rightarrow> tasks_reply \<times> task_manager option" where
  "cmd_tasks now outcome user admins skey args tm =
     (case words_of args of
        [] \<Rightarrow> (TasksUsage, tm)
      | sub # rest \<Rightarrow>
          if sub = ''list'' then (cmd_tasks_list now user admins skey rest tm, tm)
          else if sub = ''kill'' then cmd_tasks_kill now outcome user admins rest tm
          else (UnknownSub sub, tm))"

subsection \<open>Users\<close>

datatype admin_reply =
    AdminUsage
  | UnknownDomain string
  | Denied
  | UnknownAdminSub string
  | UserList string "user_profile list"
  | ShowUsage
  | ShownUser string
  | SetUsage
  | BadTier string
  | BadRole string
  | LastAdmin
  | UserUpdated string
  | UserNotStored string
  | SandboxReport "string list"

text \<open>\<open>role\<close> is the role the adapter has put into \<^verbatim>\<open>ctx.raw\<close>, if it is known.\<close>

definition is_admin :: "string option \<Rightarrow> string \<Rightarrow> string list \<Rightarrow> bool" where
  "is_admin role user admin_ids = (role = Some ''admin'' \<or> user \<in> set admin_ids)"

text \<open>\<^verbatim>\<open>token.partition("=")\<close>\<close>

definition parse_kv_args :: "string list \<Rightarrow> (string \<times> string) list" where
  "parse_kv_args parts =
     fold (\<lambda>token out.
       if CHR ''='' \<notin> set token then out
       else AList.update (py_lower (py_strip (takeWhile (\<lambda>c. c \<noteq> CHR ''='') token)))
              (py_strip (tl (dropWhile (\<lambda>c. c \<noteq> CHR ''='') token))) out) parts []"

fun list_channel :: "string \<Rightarrow> string list \<Rightarrow> string list \<Rightarrow> string" where
  "list_channel found all [] = found"
| "list_channel found all (token # rest) =
     list_channel
       (if starts_with ''--channel='' token then drop 10 token
        else if token = ''--channel''
        then (case py_find [''--channel''] all of
                Some i \<Rightarrow> if Suc i < length all then all ! Suc i else found
              | None \<Rightarrow> found)
        else found) all rest"

text \<open>The profile with the role and the tier that were typed.\<close>

definition updated_profile :: "(string \<times> string) list \<Rightarrow> user_profile \<Rightarrow> user_profile" where
  "updated_profile kvs current =
     current\<lparr>up_role := (case map_of kvs ''role'' of Some x \<Rightarrow> x | None \<Rightarrow> up_role current),
             up_tier := (case map_of kvs ''tier'' of Some x \<Rightarrow> tier_of_name x | None \<Rightarrow> up_tier current)\<rparr>"

definition handle_set ::
    "'r profile_store \<Rightarrow> string list \<Rightarrow> string \<Rightarrow> string \<Rightarrow> string list \<Rightarrow> 'r \<Rightarrow> admin_reply \<times> 'r" where
  "handle_set P keys channel user rest r =
     (case rest of
        [] \<Rightarrow> (SetUsage, r)
      | target # kv \<Rightarrow>
          let kvs = parse_kv_args kv; new_tier = map_of kvs ''tier''; new_role = map_of kvs ''role''
          in if new_tier \<noteq> None \<and> tier_of_name (the new_tier) = None then (BadTier (the new_tier), r)
             else if new_role \<noteq> None \<and> the new_role \<notin> {''admin'', ''member''} then (BadRole (the new_role), r)
             else
               let current = profile_get P channel target r; updated = updated_profile kvs current
               in if target = user \<and> up_role current = ''admin'' \<and> up_role updated \<noteq> ''admin''
                     \<and> card (up_user_id ` set (list_users P keys channel (Some ''admin'') r)) \<le> 1
                  then (LastAdmin, r)
                  else let (ok, r') = profile_set P None updated r
                       in (if ok then UserUpdated target else UserNotStored target, r'))"

definition handle_show :: "(json \<Rightarrow> string) \<Rightarrow> 'r profile_store \<Rightarrow> string \<Rightarrow> string list \<Rightarrow> 'r \<Rightarrow> admin_reply" where
  "handle_show dumps P channel rest r =
     (case rest of [] \<Rightarrow> ShowUsage | target # _ \<Rightarrow> ShownUser (dumps (profile_json (profile_get P channel target r))))"

definition handle_user_list :: "'r profile_store \<Rightarrow> (string \<Rightarrow> string list) \<Rightarrow> string \<Rightarrow> string list \<Rightarrow> 'r \<Rightarrow> admin_reply" where
  "handle_user_list P keys channel rest r =
     (let ch = list_channel channel rest rest in UserList ch (list_users P (keys ch) ch None r))"

text \<open>
  \<open>split\<close> is \<^verbatim>\<open>shlex.split\<close>, \<^const>\<open>None\<close> where it raises; then the command raises and only the adapter
  answers.  \<open>keys\<close> is what the scan of a channel yields and \<open>sandbox\<close> the lines of the sandbox check.
  The second answer says whether the refusal is written to the audit log.
\<close>

definition cmd_admin ::
    "(string \<Rightarrow> string list option) \<Rightarrow> (json \<Rightarrow> string) \<Rightarrow> string list \<Rightarrow> 'r profile_store \<Rightarrow> (string \<Rightarrow> string list)
       \<Rightarrow> string \<Rightarrow> string \<Rightarrow> string option \<Rightarrow> string list \<Rightarrow> string \<Rightarrow> 'r \<Rightarrow> (admin_reply \<times> bool) option \<times> 'r" where
  "cmd_admin split dumps sandbox P keys channel user role admin_ids args r =
     (case (if py_strip args \<noteq> [] then split (py_strip args) else Some []) of
        None \<Rightarrow> (None, r)
      | Some [] \<Rightarrow> (Some (AdminUsage, False), r)
      | Some (domain # sub_args) \<Rightarrow>
          if domain \<notin> {''user'', ''sandbox''} then (Some (UnknownDomain domain, False), r)
          else if \<not> is_admin role user admin_ids then (Some (Denied, False), r)
          else case sub_args of
                 [] \<Rightarrow> (Some (AdminUsage, False), r)
               | sub # rest \<Rightarrow>
                   if domain = ''sandbox''
                   then (Some (if sub = ''check'' then SandboxReport sandbox else UnknownAdminSub sub, False), r)
                   else if sub = ''list'' then (Some (handle_user_list P keys channel rest r, False), r)
                   else if sub = ''show'' then (Some (handle_show dumps P channel rest r, False), r)
                   else if sub = ''set''
                   then (let (note, r') = handle_set P (keys channel) channel user rest r
                         in (Some (note, note = LastAdmin), r'))
                   else (Some (UnknownAdminSub sub, False), r))"

subsection \<open>Memories\<close>

text \<open>\<^verbatim>\<open>int(token)\<close> as far as the limit needs it: an optional sign and digits, white space around.\<close>

definition int_of :: "string \<Rightarrow> int option" where
  "int_of token =
     (let s = py_strip token;
          ds = (if s \<noteq> [] \<and> hd s \<in> {CHR ''-'', CHR ''+''} then tl s else s)
      in if ds = [] \<or> \<not> list_all is_digit ds then None
         else Some (if hd s = CHR ''-'' then - int (dec_val ds) else int (dec_val ds)))"

fun parse_limit :: "string list \<Rightarrow> int \<Rightarrow> int" where
  "parse_limit (tok # val # rest) dflt =
     (if tok = ''--limit'' \<and> (case int_of val of Some n \<Rightarrow> 0 < n | None \<Rightarrow> False)
      then min (the (int_of val)) 200 else parse_limit (val # rest) dflt)"
| "parse_limit _ dflt = dflt"

definition parse_kind :: "string list \<Rightarrow> string" where
  "parse_kind rest =
     (if ''--facts'' \<in> set rest then ''facts'' else if ''--procedures'' \<in> set rest then ''procedures'' else ''all'')"

definition layers_for_kind :: "string \<Rightarrow> string list option" where
  "layers_for_kind kind = (if kind = ''facts'' then Some [''L2''] else if kind = ''procedures'' then Some [''L3''] else None)"

definition list_for_user :: "fts \<Rightarrow> string \<Rightarrow> int \<Rightarrow> rat \<Rightarrow> memories \<Rightarrow> memory_entry list \<times> memories" where
  "list_for_user X kind n now m =
     (let (found, db) = sqlite_search X [] (layers_for_kind kind) n None now (me_db m)
      in (py_take n found, m\<lparr>me_db := db\<rparr>))"

definition search_for_user :: "fts \<Rightarrow> string \<Rightarrow> int \<Rightarrow> rat \<Rightarrow> memories \<Rightarrow> memory_entry list \<times> memories" where
  "search_for_user X query n now m =
     (let (found, db) = sqlite_search X query None n None now (me_db m) in (found, m\<lparr>me_db := db\<rparr>))"

definition stats_for_user :: "string \<Rightarrow> memories \<Rightarrow> nat \<times> nat \<times> nat \<times> nat" where
  "stats_for_user skey m = (length (l1_index_get (me_l1 m)), count_by_layer skey (me_db m))"

text \<open>The line of a memory: layer, short id, uses, last use and a preview; the ellipsis is three dots.\<close>

definition preview_text :: "nat \<Rightarrow> string \<Rightarrow> string" where
  "preview_text n content =
     (let cleaned = py_strip (replace_char CHR 0x0A CHR '' '' content)
      in if length cleaned \<le> n then cleaned
         else rev (dropWhile py_space (rev (take n cleaned))) @ ''...'')"

definition format_memory :: "(rat \<Rightarrow> string) \<Rightarrow> memory_entry \<Rightarrow> string" where
  "format_memory when_text e =
     ''  ['' @ mem_layer e @ ''] '' @ take 8 (mem_id e) @ '' u='' @ show_int (mem_uses e) @ '' ''
     @ when_text (case mem_used e of Some t \<Rightarrow> if t \<noteq> 0 then t else mem_updated e | None \<Rightarrow> mem_updated e)
     @ '' . '' @ preview_text 120 (mem_content e)"

datatype memory_reply =
    MemoryUsage
  | UnknownMemorySub string
  | NoMemoryStore
  | NoMemories string
  | MemoryLines string int "string list"
  | SearchUsage
  | NothingFound string
  | FoundLines string "string list"
  | MemoryStats nat nat nat nat

definition cmd_memory ::
    "fts \<Rightarrow> (rat \<Rightarrow> string) \<Rightarrow> rat \<Rightarrow> string \<Rightarrow> string \<Rightarrow> memories option \<Rightarrow> memory_reply \<times> memories option" where
  "cmd_memory X when_text now skey args store =
     (case words_of args of
        [] \<Rightarrow> (MemoryUsage, store)
      | sub # rest \<Rightarrow>
          if sub \<notin> {''list'', ''search'', ''stats''} then (UnknownMemorySub sub, store)
          else case store of
            None \<Rightarrow> (NoMemoryStore, store)
          | Some m \<Rightarrow>
              if sub = ''list'' then
                (let kind = parse_kind rest; n = parse_limit rest 50; (es, m') = list_for_user X kind n now m
                 in (if es = [] then NoMemories kind else MemoryLines kind n (map (format_memory when_text) es), Some m'))
              else if sub = ''search'' then
                (let query = py_strip (py_join '' '' rest)
                 in if query = [] then (SearchUsage, store)
                    else let (es, m') = search_for_user X query 10 now m
                         in (if es = [] then NothingFound query else FoundLines query (map (format_memory when_text) es), Some m'))
              else (case stats_for_user skey m of (a, b, c, d) \<Rightarrow> MemoryStats a b c d, store))"

subsection \<open>The curator\<close>

datatype curator_reply =
    CuratorUsage
  | UnknownCuratorSub string
  | CuratorListUsage
  | NoSops string
  | SopLines string "(string \<times> int \<times> rat option \<times> string) list"
  | ArchivedLines "(string \<times> rat option \<times> string option \<times> string) list"
  | RestoreUsage
  | RestorePreview string
  | NotArchived string
  | SopRestored string
  | NoReview
  | LastReview rat
  | NoTaskManagerYet
  | NoLockManager
  | TriggerPreview
  | CuratorBusy
  | ReviewStarted string

definition sop_line :: "sop \<Rightarrow> string \<times> int \<times> rat option \<times> string" where
  "sop_line p = (take 8 (sp_id p), mem_uses (sp_mem p), mem_used (sp_mem p), preview_text 100 (mem_content (sp_mem p)))"

definition archived_line :: "sop \<Rightarrow> string \<times> rat option \<times> string option \<times> string" where
  "archived_line p = (take 8 (sp_id p), sp_archived_at p, sp_reason p, preview_text 100 (mem_content (sp_mem p)))"

definition cmd_curator_list :: "rat \<Rightarrow> rat \<Rightarrow> string list \<Rightarrow> memory_db \<Rightarrow> curator_reply" where
  "cmd_curator_list now stale_days rest db =
     (if ''--auto'' \<in> set rest
      then (let rows = list_auto_sops db in if rows = [] then NoSops ''auto'' else SopLines ''auto'' (map sop_line rows))
      else if ''--stale'' \<in> set rest
      then (let rows = list_stale_sops now stale_days db in if rows = [] then NoSops ''stale'' else SopLines ''stale'' (map sop_line rows))
      else if ''--archived'' \<in> set rest
      then (let rows = list_archived_sops db in if rows = [] then NoSops ''archived'' else ArchivedLines (map archived_line rows))
      else CuratorListUsage)"

definition cmd_curator_restore :: "string list \<Rightarrow> memory_db \<Rightarrow> curator_reply \<times> memory_db" where
  "cmd_curator_restore rest db =
     (case rest of
        [] \<Rightarrow> (RestoreUsage, db)
      | i # opts \<Rightarrow>
          if ''--confirm'' \<notin> set opts then (RestorePreview i, db)
          else let (found, db') = restore_sop i db
               in (if found then SopRestored i else NotArchived i, db'))"

text \<open>
  \<open>busy\<close> is what the idle check of the queue says, if the channel has one; spawning may be refused by a
  closed manager, which the adapter answers.
\<close>

definition cmd_review_trigger ::
    "rat \<Rightarrow> rat \<Rightarrow> bool \<Rightarrow> bool option \<Rightarrow> string \<Rightarrow> string list \<Rightarrow> task_manager option
       \<Rightarrow> curator_reply option \<times> task_manager option" where
  "cmd_review_trigger now now' locks idle skey rest tm =
     (case tm of
        None \<Rightarrow> (Some NoTaskManagerYet, tm)
      | Some m \<Rightarrow>
          if \<not> locks then (Some NoLockManager, tm)
          else if ''--confirm'' \<notin> set rest then (Some TriggerPreview, tm)
          else if (case idle of None \<Rightarrow> False | Some b \<Rightarrow> check_idle b) then (Some CuratorBusy, tm)
          else case spawn now now' (''curator-review-manual:'' @ skey) ''curator'' (Some skey) m of
                 (Inr tid, m') \<Rightarrow> (Some (ReviewStarted tid), Some m')
               | (Inl _, m') \<Rightarrow> (None, Some m'))"

subsection \<open>Skills\<close>

datatype skills_reply =
    SkillsUsage
  | UnknownSkillsSub string
  | NoSkills
  | SkillList "(string \<times> string) list" "(string \<times> string) list"
  | SkillInstallUsage
  | InstallPreview string "string option"
  | SkillsBusy
  | SkillInstalled string string
  | InstallFailed string
  | SkillNotFound string
  | SkillReports nat "(string \<times> eligibility_issue list) list"

definition list_discovered :: "host \<Rightarrow> skill list \<Rightarrow> (string \<times> string \<times> bool) list" where
  "list_discovered h skills =
     map (\<lambda>s. (sk_name s, take 200 (sk_description s), eligibility_issues h s = [])) skills"

definition cmd_skills_list :: "host \<Rightarrow> skill list \<Rightarrow> skills_reply" where
  "cmd_skills_list h skills =
     (if skills = [] then NoSkills
      else let rows = list_discovered h skills; pair = map (\<lambda>(n, d, e). (n, d))
           in SkillList (pair (filter (\<lambda>(n, d, e). e) rows)) (pair (filter (\<lambda>(n, d, e). \<not> e) rows)))"

definition check_eligibility :: "host \<Rightarrow> skill list \<Rightarrow> string option \<Rightarrow> (string \<times> eligibility_issue list) list" where
  "check_eligibility h skills wanted =
     map (\<lambda>s. (sk_name s, eligibility_issues h s))
       (case wanted of None \<Rightarrow> skills | Some n \<Rightarrow> filter (\<lambda>s. sk_name s = n) skills)"

definition cmd_skills_check :: "host \<Rightarrow> skill list \<Rightarrow> string list \<Rightarrow> skills_reply" where
  "cmd_skills_check h skills rest =
     (let wanted = (case rest of [] \<Rightarrow> None | n # _ \<Rightarrow> Some n);
          reports = check_eligibility h skills wanted
      in if reports = [] then (case wanted of Some n \<Rightarrow> if n \<noteq> [] then SkillNotFound n else NoSkills | None \<Rightarrow> NoSkills)
         else SkillReports (length (filter (\<lambda>(n, issues). issues = []) reports)) reports)"

fun parse_version :: "string list \<Rightarrow> string option" where
  "parse_version (tok # val # rest) = (if tok = ''--version'' then Some val else parse_version (val # rest))"
| "parse_version _ = None"

text \<open>
  \<open>install\<close> is \<^verbatim>\<open>skills.management.install\<close> into the folder of the workspace: an error, or the place of
  the skill, and the files afterwards.
\<close>

definition cmd_skills_install ::
    "(string \<Rightarrow> string option \<Rightarrow> 'f \<Rightarrow> (string + string) \<times> 'f) \<Rightarrow> bool option \<Rightarrow> string list \<Rightarrow> 'f \<Rightarrow> skills_reply \<times> 'f" where
  "cmd_skills_install install idle rest f =
     (case rest of
        [] \<Rightarrow> (SkillInstallUsage, f)
      | slug # opts \<Rightarrow>
          let version = parse_version opts
          in if ''--confirm'' \<notin> set opts then (InstallPreview slug version, f)
             else if (case idle of None \<Rightarrow> False | Some b \<Rightarrow> check_idle b) then (SkillsBusy, f)
             else case install slug version f of
                    (Inr dest, f') \<Rightarrow> (SkillInstalled slug dest, f')
                  | (Inl err, f') \<Rightarrow> (InstallFailed err, f'))"

subsection \<open>Listings\<close>

datatype tools_reply = NoTools | ToolLists nat "(string \<times> string) list" "(string \<times> string) list"

text \<open>The tools of the registry by name, those without and those with side effects.\<close>

definition cmd_tools :: "registry \<Rightarrow> tools_reply" where
  "cmd_tools reg =
     (let names = sort (map fst reg);
          found = List.map_filter (map_of reg) names;
          row = (\<lambda>t. (t_name t, py_strip (t_description t)))
      in if names = [] then NoTools
         else ToolLists (length names) (map row (filter (\<lambda>t. \<not> t_side_effect t) found))
                (map row (filter t_side_effect found)))"

datatype queue_reply = NoQueue | QueueIdle | QueueRunning | QueueBusy nat nat

definition cmd_queue :: "nat option \<Rightarrow> queue_reply" where
  "cmd_queue position =
     (case position of
        None \<Rightarrow> NoQueue
      | Some n \<Rightarrow> if n = 0 then QueueIdle else if n = 1 then QueueRunning else QueueBusy (n - 1) n)"

subsection \<open>Killing tasks\<close>

lemma cmd_tasks_list_keeps: "cmd_tasks now oc user admins skey args tm = (reply, tm') \<Longrightarrow> tm' \<noteq> tm \<Longrightarrow>
    \<exists>rest. words_of args = ''kill'' # rest \<and> cmd_tasks_kill now oc user admins rest tm = (reply, tm')"
  by (auto simp: cmd_tasks_def split: list.splits if_splits)

lemma cmd_tasks_kill_change:
  assumes "cmd_tasks_kill now oc user admins rest tm = (reply, tm')" "tm' \<noteq> tm"
  shows "\<exists>tid opts m info. rest = tid # opts \<and> ''--confirm'' \<in> set opts \<and> tm = Some m \<and> user \<in> set admins
     \<and> describe_task now tm tid = Inr (Some info) \<and> ti_category info \<notin> set PROTECTED_KILL_CATEGORIES
     \<and> tm' = Some (snd (cancel_task tid oc m))"
proof (cases "is_task_admin user admins")
  case False
  with assms show ?thesis by (simp add: cmd_tasks_kill_def)
next
  case True
  with assms obtain tid opts m where r: "rest = tid # opts" "tm = Some m"
    by (auto simp: cmd_tasks_kill_def split: list.splits option.splits)
  show ?thesis
  proof (cases "describe_task now tm tid")
    case (Inl e)
    with True assms r show ?thesis by (simp add: cmd_tasks_kill_def)
  next
    case d: (Inr oi)
    show ?thesis
    proof (cases oi)
      case None
      with d True assms r show ?thesis by (simp add: cmd_tasks_kill_def)
    next
      case (Some info)
      with d True assms r show ?thesis
        by (auto simp: cmd_tasks_kill_def Let_def is_task_admin_def case_prod_unfold split: if_splits)
    qed
  qed
qed

text \<open>
  Killing a task.  The command changes the task manager only for a user on the list of
  administrators who asks to kill one task and confirms it, and only when this task is not of a
  protected category; what changes then is just what cancelling that task changes.
\<close>

theorem only_admins_kill_unprotected_tasks:
  assumes "cmd_tasks now oc user admins skey args (Some m) = (reply, Some m')" and "m' \<noteq> m"
  shows "user \<in> set admins
     \<and> (\<exists>tid opts info. words_of args = ''kill'' # tid # opts \<and> ''--confirm'' \<in> set opts
          \<and> describe_task now (Some m) tid = Inr (Some info) \<and> ti_category info \<notin> set PROTECTED_KILL_CATEGORIES
          \<and> m' = snd (cancel_task tid oc m))"
proof -
  from cmd_tasks_list_keeps [OF assms(1)] assms(2) obtain rest where
    r: "words_of args = ''kill'' # rest" "cmd_tasks_kill now oc user admins rest (Some m) = (reply, Some m')" by auto
  from cmd_tasks_kill_change [OF r(2)] assms(2) r(1) show ?thesis by auto
qed

definition demo_tasks :: task_manager where
  "demo_tasks = snd (spawn 1 1 ''hb'' ''heartbeat'' None (snd (spawn 0 0 ''job'' ''curator'' (Some ''k'') (tm_init 0))))"

theorem only_admins_kill_unprotected_tasks_witness:
  "\<exists>reply m'. cmd_tasks 2 (Some IsCancelled) ''ann'' [''ann''] ''k'' ''kill t000000 --confirm'' (Some demo_tasks) = (reply, Some m')
     \<and> m' \<noteq> demo_tasks \<and> ''ann'' \<in> set [''ann'']"
proof -
  let ?c = "cmd_tasks 2 (Some IsCancelled) ''ann'' [''ann''] ''k'' ''kill t000000 --confirm'' (Some demo_tasks)"
  have "(case ?c of (reply, Some m') \<Rightarrow> get_state ''t000000'' m' = Some Cancelled \<and> get_state ''t000000'' demo_tasks = Some Running
           | _ \<Rightarrow> False)"
    by code_simp
  then obtain reply m' where c: "?c = (reply, Some m')" and st: "get_state ''t000000'' m' = Some Cancelled"
      "get_state ''t000000'' demo_tasks = Some Running"
    by (auto split: prod.splits option.splits)
  then have "m' \<noteq> demo_tasks" by auto
  with only_admins_kill_unprotected_tasks [OF c] c show ?thesis by blast
qed

subsection \<open>Managing users\<close>

text \<open>
  Managing users needs the role.  Of a user who is neither an administrator by role nor
  on the list, the command reads nothing, changes nothing and answers nothing of the stores.
\<close>

theorem admin_commands_need_the_role:
  assumes "\<not> is_admin role user admin_ids"
    and "cmd_admin split dumps sandbox P keys channel user role admin_ids args r = (answer, r')"
  shows "r' = r \<and> (case answer of None \<Rightarrow> True
     | Some (note, audited) \<Rightarrow> \<not> audited \<and> (note = AdminUsage \<or> note = Denied \<or> (\<exists>d. note = UnknownDomain d)))"
proof (cases "if py_strip args \<noteq> [] then split (py_strip args) else Some []")
  case None
  with assms(2) show ?thesis by (auto simp: cmd_admin_def)
next
  case (Some ws)
  show ?thesis
  proof (cases ws)
    case Nil
    with assms(2) Some show ?thesis by (auto simp: cmd_admin_def)
  next
    case (Cons domain sub_args)
    with assms Some show ?thesis by (cases "domain \<in> {''user'', ''sandbox''}") (auto simp: cmd_admin_def)
  qed
qed

definition words_or_fail :: "string \<Rightarrow> string list option" where
  "words_or_fail s = (if CHR 0x22 \<in> set s then None else Some (words_of s))"

theorem admin_commands_need_the_role_witness:
  "cmd_admin words_or_fail (\<lambda>_. []) [] demo_profiles (\<lambda>_. []) ''web'' ''bob'' (Some ''member'') [''ann'']
     ''user set bob role=admin'' demo_empty = (Some (Denied, False), demo_empty)"
proof -
  let ?c = "cmd_admin words_or_fail (\<lambda>_. []) [] demo_profiles (\<lambda>_. []) ''web'' ''bob'' (Some ''member'') [''ann'']
     ''user set bob role=admin'' demo_empty"
  have a: "\<not> is_admin (Some ''member'') ''bob'' [''ann'']" by (simp add: is_admin_def)
  obtain answer r' where c: "?c = (answer, r')" by (metis surj_pair)
  have "fst ?c = Some (Denied, False)" by code_simp
  with admin_commands_need_the_role [OF a c] c show ?thesis by simp
qed

lemma handle_set_updated:
  assumes "handle_set P keys channel user (target # kv) r = (UserUpdated target, r')"
  shows "profile_set P None (updated_profile (parse_kv_args kv) (profile_get P channel target r)) r = (True, r')
     \<and> (map_of (parse_kv_args kv) ''role'' = None \<or> the (map_of (parse_kv_args kv) ''role'') \<in> {''admin'', ''member''})
     \<and> (target = user \<and> up_role (profile_get P channel target r) = ''admin''
          \<and> up_role (updated_profile (parse_kv_args kv) (profile_get P channel target r)) \<noteq> ''admin''
          \<longrightarrow> 1 < card (up_user_id ` set (list_users P keys channel (Some ''admin'') r)))"
proof -
  let ?p = "updated_profile (parse_kv_args kv) (profile_get P channel target r)"
  obtain ok r1 where s: "profile_set P None ?p r = (ok, r1)" by fastforce
  have ok: "ok" "r1 = r'"
    using assms s by (auto simp: handle_set_def Let_def split: if_splits)
  have "map_of (parse_kv_args kv) ''role'' = None \<or> the (map_of (parse_kv_args kv) ''role'') \<in> {''admin'', ''member''}"
    using assms by (auto simp: handle_set_def Let_def split: if_splits)
  moreover have "\<not> (target = user \<and> up_role (profile_get P channel target r) = ''admin'' \<and> up_role ?p \<noteq> ''admin''
      \<and> card (up_user_id ` set (list_users P keys channel (Some ''admin'') r)) \<le> 1)"
    using assms by (auto simp: handle_set_def Let_def split: if_splits)
  ultimately show ?thesis using s ok by auto
qed

lemma other_admin_listed:
  assumes "1 < card (up_user_id ` set (list_users P keys channel (Some ''admin'') r))"
  shows "\<exists>p \<in> set (list_users P keys channel (Some ''admin'') r). up_user_id p \<noteq> user \<and> up_role p = ''admin''"
proof -
  let ?us = "list_users P keys channel (Some ''admin'') r"
  have "\<not> up_user_id ` set ?us \<subseteq> {user}"
    using assms card_mono [of "{user}" "up_user_id ` set ?us"] by auto
  then obtain q where "q \<in> set ?us" "up_user_id q \<noteq> user" by blast
  moreover have "up_role q = ''admin''" using calculation(1) by (simp add: list_users_def Let_def)
  ultimately show ?thesis by blast
qed

text \<open>
  Property C40.  The last administrator.  A change that is reported as done has the role and the tier
  that were typed, and leaves the profile of everyone else as it was.  An administrator who takes
  the role from himself succeeds only when another administrator of the channel is listed.
\<close>

theorem demotion_leaves_an_admin:
  assumes "\<forall>R. ps_redis P = Some R \<longrightarrow> redis_data_ok R"
    and "profile_get P channel target r = current" and "profile_valid current"
    and "up_channel current = channel" and "up_user_id current = target"
    and "updated_profile (parse_kv_args kv) current = updated"
    and "jc_loads (ps_codec P) (jc_dumps (ps_codec P) (profile_json updated)) = Some (profile_json updated)"
    and "handle_set P keys channel user (target # kv) r = (UserUpdated target, r')"
  shows "profile_get P channel target r' = updated
     \<and> (\<forall>u. u \<noteq> target \<longrightarrow> profile_get P channel u r' = profile_get P channel u r)
     \<and> (target = user \<and> up_role current = ''admin'' \<and> up_role updated \<noteq> ''admin''
          \<longrightarrow> (\<exists>p \<in> set (list_users P keys channel (Some ''admin'') r). up_user_id p \<noteq> user \<and> up_role p = ''admin''))"
proof -
  from handle_set_updated [OF assms(8)] have p: "profile_set P None updated r = (True, r')"
    and role: "map_of (parse_kv_args kv) ''role'' = None \<or> the (map_of (parse_kv_args kv) ''role'') \<in> {''admin'', ''member''}"
    and last: "target = user \<and> up_role current = ''admin'' \<and> up_role updated \<noteq> ''admin''
          \<longrightarrow> 1 < card (up_user_id ` set (list_users P keys channel (Some ''admin'') r))"
    unfolding assms(2,6) by blast+
  have ids: "up_channel updated = channel" "up_user_id updated = target"
    using assms(4,5) by (simp_all add: updated_profile_def flip: assms(6))
  have "up_role updated \<in> {''admin'', ''member''}"
    using role assms(3) by (auto simp: updated_profile_def profile_valid_def simp flip: assms(6) split: option.splits)
  with assms(3,4,5) ids have "profile_valid updated" by (simp add: profile_valid_def)
  from profile_set_get [OF assms(1) this assms(7) p] ids
  have "profile_get P channel target r' = updated
     \<and> (\<forall>u. u \<noteq> target \<longrightarrow> profile_get P channel u r' = profile_get P channel u r)" by simp
  moreover have "target = user \<and> up_role current = ''admin'' \<and> up_role updated \<noteq> ''admin''
      \<longrightarrow> (\<exists>p \<in> set (list_users P keys channel (Some ''admin'') r). up_user_id p \<noteq> user \<and> up_role p = ''admin'')"
  proof
    assume "target = user \<and> up_role current = ''admin'' \<and> up_role updated \<noteq> ''admin''"
    then have "1 < card (up_user_id ` set (list_users P keys channel (Some ''admin'') r))" by (rule mp [OF last])
    then show "\<exists>p \<in> set (list_users P keys channel (Some ''admin'') r). up_user_id p \<noteq> user \<and> up_role p = ''admin''"
      by (rule other_admin_listed)
  qed
  ultimately show ?thesis by (intro conjI) simp_all
qed

definition demo_admin :: "string \<Rightarrow> user_profile" where
  "demo_admin u = (default_profile ''web'' u)\<lparr>up_role := ''admin''\<rparr>"

definition demo_two_admins :: "demo_redis profile_store" where
  "demo_two_admins = \<lparr>ps_redis = Some demo_server, ps_reachable = True,
     ps_codec = \<lparr>jc_dumps = (\<lambda>_. ''J''), jc_loads = (\<lambda>_. Some (profile_json (default_profile ''web'' ''ann'')))\<rparr>,
     ps_json = [(''web'', [demo_admin ''ann'', demo_admin ''bob''])]\<rparr>"

theorem demotion_leaves_an_admin_witness:
  "\<exists>r'. handle_set demo_two_admins [] ''web'' ''ann'' [''ann'', ''role=member''] demo_empty = (UserUpdated ''ann'', r')
     \<and> up_role (profile_get demo_two_admins ''web'' ''ann'' r') = ''member''
     \<and> (\<exists>p \<in> set (list_users demo_two_admins [] ''web'' (Some ''admin'') demo_empty). up_user_id p \<noteq> ''ann'')"
proof -
  let ?u = "default_profile ''web'' ''ann''"
  have ok: "\<forall>R. ps_redis demo_two_admins = Some R \<longrightarrow> redis_data_ok R"
    by (simp add: demo_two_admins_def demo_data_ok)
  have get: "profile_get demo_two_admins ''web'' ''ann'' demo_empty = demo_admin ''ann''"
    by (simp add: profile_get_def redis_profile_def demo_two_admins_def demo_server_def demo_empty_def json_users_def
        demo_admin_def default_profile_def)
  have kv: "parse_kv_args [''role=member''] = [(''role'', ''member'')]" by code_simp
  have u: "updated_profile (parse_kv_args [''role=member'']) (demo_admin ''ann'') = ?u"
    by (simp add: kv updated_profile_def demo_admin_def default_profile_def)
  have c: "jc_loads (ps_codec demo_two_admins) (jc_dumps (ps_codec demo_two_admins) (profile_json ?u)) = Some (profile_json ?u)"
    by (simp add: demo_two_admins_def)
  have v: "profile_valid (demo_admin ''ann'')" "up_channel (demo_admin ''ann'') = ''web''"
    "up_user_id (demo_admin ''ann'') = ''ann''" "up_role (demo_admin ''ann'') = ''admin''"
    by (simp_all add: demo_admin_def default_profile_def profile_valid_def)
  have l: "up_user_id ` set (list_users demo_two_admins [] ''web'' (Some ''admin'') demo_empty) = {''ann'', ''bob''}"
    by (simp add: list_users_def scanned_profiles_def add_json_users_def json_users_def demo_two_admins_def
        demo_admin_def default_profile_def)
  obtain r' where "profile_set demo_two_admins None ?u demo_empty = (True, r')"
    by (simp add: profile_set_def demo_two_admins_def default_profile_def DEFAULT_TTL_SECONDS_def Let_def)
  then have h: "handle_set demo_two_admins [] ''web'' ''ann'' [''ann'', ''role=member''] demo_empty = (UserUpdated ''ann'', r')"
    using u by (simp add: handle_set_def kv get l)
  from demotion_leaves_an_admin [OF ok get v(1-3) u c h] h v(4) show ?thesis
    by (auto simp: default_profile_def)
qed

subsection \<open>Memories\<close>

lemma parse_limit_bounds: "1 \<le> d \<Longrightarrow> d \<le> 200 \<Longrightarrow> 1 \<le> parse_limit rest d \<and> parse_limit rest d \<le> 200"
  by (induction rest d rule: parse_limit.induct) (auto split: option.splits)

lemma length_py_take: "0 \<le> n \<Longrightarrow> int (length (py_take n xs)) \<le> n"
  by (simp add: py_take_def)

text \<open>
  What the memory command shows is bounded: a listing has a limit between one and two
  hundred, whatever was typed, and no more lines than it; a search has ten lines at most.
\<close>

theorem memory_replies_are_bounded:
  assumes "cmd_memory X when_text now skey args store = (reply, store')"
  shows "case reply of
       MemoryLines kind n ls \<Rightarrow> 1 \<le> n \<and> n \<le> 200 \<and> int (length ls) \<le> n
     | FoundLines q ls \<Rightarrow> length ls \<le> 10
     | _ \<Rightarrow> True"
proof (cases "words_of args")
  case Nil
  with assms show ?thesis by (auto simp: cmd_memory_def)
next
  case (Cons sub rest)
  show ?thesis
  proof (cases "sub \<in> {''list'', ''search'', ''stats''}")
    case False
    with assms Cons show ?thesis by (auto simp: cmd_memory_def)
  next
    case sub: True
    show ?thesis
    proof (cases store)
      case None
      with assms Cons sub show ?thesis by (auto simp: cmd_memory_def)
    next
      case (Some m)
      let ?n = "parse_limit rest 50"
      have n: "1 \<le> ?n" "?n \<le> 200" using parse_limit_bounds [of 50 rest] by auto
      have l: "int (length (fst (list_for_user X k ?n now m))) \<le> ?n" for k
        using n by (auto simp: list_for_user_def case_prod_unfold Let_def intro!: length_py_take)
      have "length (py_take 10 xs) \<le> 10" for xs :: "memory_entry list"
        using length_py_take [of 10 xs] by simp
      then have s: "length (fst (search_for_user X q 10 now m)) \<le> 10" for q
        by (simp add: search_for_user_def sqlite_search_def case_prod_unfold Let_def)
      from sub consider "sub = ''list''" | "sub = ''search''" | "sub = ''stats''" by blast
      then show ?thesis
      proof cases
        case 1
        with assms Cons Some n l [of "parse_kind rest"] show ?thesis
          by (auto simp: cmd_memory_def Let_def case_prod_unfold split: if_splits)
      next
        case 2
        with assms Cons Some s [of "py_strip (py_join '' '' rest)"] show ?thesis
          by (auto simp: cmd_memory_def Let_def case_prod_unfold split: if_splits)
      next
        case 3
        with assms Cons Some show ?thesis by (auto simp: cmd_memory_def case_prod_unfold)
      qed
    qed
  qed
qed

definition demo_text_fts :: fts where
  "demo_text_fts = \<lparr>fx_min_chars = 3, fx_query = (\<lambda>_. None), fx_rank = (\<lambda>_ _. [])\<rparr>"

theorem memory_replies_are_bounded_witness:
  "\<exists>ls store'. cmd_memory demo_text_fts (\<lambda>_. []) 9 ''k'' ''list --procedures --limit 999'' (Some demo_stored)
       = (MemoryLines ''procedures'' 200 ls, store') \<and> length ls \<le> 200"
proof -
  let ?l = "list_for_user demo_text_fts ''procedures'' 200 9 demo_stored"
  obtain es m' where l: "?l = (es, m')" by fastforce
  have "fst ?l \<noteq> []" by code_simp
  with l have es: "es \<noteq> []" by simp
  have w: "words_of ''list --procedures --limit 999'' = [''list'', ''--procedures'', ''--limit'', ''999'']" by code_simp
  have n: "parse_limit [''--procedures'', ''--limit'', ''999''] 50 = 200" by code_simp
  have k: "parse_kind [''--procedures'', ''--limit'', ''999''] = ''procedures''" by code_simp
  have c: "cmd_memory demo_text_fts (\<lambda>_. []) 9 ''k'' ''list --procedures --limit 999'' (Some demo_stored)
      = (MemoryLines ''procedures'' 200 (map (format_memory (\<lambda>_. [])) es), Some m')"
    using es by (simp add: cmd_memory_def w n k l Let_def del: parse_limit.simps)
  from memory_replies_are_bounded [OF c] c show ?thesis by auto
qed

text \<open>
  Looking is using.  Listing the procedures of a session counts as a use of every one
  that is shown, and dates it: the number that decides whether a procedure graduates to a skill
  grows, and its age as an unused one starts anew, each time the user looks.
\<close>

theorem listing_counts_as_use:
  assumes "list_for_user X ''procedures'' n now m = (es, m')" and "e \<in> set es" and "distinct (map sp_id (db_sops (me_db m)))"
  shows "\<exists>p \<in> set (db_sops (me_db m)). sp_id p = mem_id e \<and> mem_uses e = mem_uses (sp_mem p) + 1 \<and> mem_used e = Some now
     \<and> bump now p \<in> set (db_sops (me_db m'))"
proof -
  let ?rows = "matching X [] sp_mem sp_active n (db_sops (me_db m))"
  have l: "es = fst (list_for_user X ''procedures'' n now m)" "m' = snd (list_for_user X ''procedures'' n now m)"
    using assms(1) by simp_all
  have r: "es = py_take n (py_take n (map sp_mem (map (bump now) ?rows)))"
    "db_sops (me_db m') = update_where (\<lambda>p. sp_id p \<in> set (map sp_id ?rows)) (bump now) (db_sops (me_db m))"
    unfolding l
    by (simp_all add: list_for_user_def layers_for_kind_def sqlite_search_def search_procedures_def layer_limit_def Let_def)
  have sub: "set ?rows \<subseteq> set (db_sops (me_db m))"
    using matching_rows [of _ X "[]" sp_mem sp_active n "db_sops (me_db m)"] by auto
  have "set (py_take n xs) \<subseteq> set xs" for xs :: "memory_entry list"
    by (auto simp: py_take_def dest: in_set_takeD)
  then have "e \<in> set (map sp_mem (map (bump now) ?rows))" using r(1) assms(2) by blast
  then obtain p where p: "p \<in> set ?rows" "e = sp_mem (bump now p)" by auto
  then have "bump now p \<in> set (db_sops (me_db m'))"
    using sub r(2) by (auto simp: image_iff intro!: bexI [of _ p])
  with p sub show ?thesis by (auto simp: bump_def intro!: bexI [of _ p])
qed

theorem listing_counts_as_use_witness:
  "\<exists>es m' e. list_for_user demo_text_fts ''procedures'' 50 9 demo_stored = (es, m') \<and> e \<in> set es \<and> mem_id e = ''ab12''
     \<and> (\<exists>p \<in> set (db_sops (me_db demo_stored)). sp_id p = ''ab12'' \<and> mem_uses e = mem_uses (sp_mem p) + 1)"
proof -
  let ?l = "list_for_user demo_text_fts ''procedures'' 50 9 demo_stored"
  have "\<exists>e \<in> set (fst ?l). mem_id e = ''ab12''" "distinct (map sp_id (db_sops (me_db demo_stored)))" by code_simp+
  then obtain es m' e where e: "?l = (es, m')" "e \<in> set es" "mem_id e = ''ab12''"
    and d: "distinct (map sp_id (db_sops (me_db demo_stored)))" by (cases ?l) auto
  from listing_counts_as_use [OF e(1,2) d] e show ?thesis by auto
qed

subsection \<open>The idle check on the web\<close>

text \<open>
  The commands that check for an idle conversation themselves ask the queue for the id of the
  session; the queue of the web is kept by the id of the conversation.  Where these differ the
  check passes while the conversation is busy.
\<close>

lemma web_idle_check_misses_busy_conversations:
  assumes "web_session_id user conv = Some sid" and "\<not> starts_with ''web:'' conv" and "busy conv q"
    and "map_of (wq_busy q) sid = None" and "install slug None f = (Inr dest, f')"
  shows "sid \<noteq> conv \<and> cmd_skills_install install (Some (is_idle sid q)) [slug, ''--confirm''] f = (SkillInstalled slug dest, f')"
proof
  show "sid \<noteq> conv" using assms(1,2) by (auto simp: web_session_id_def split: if_splits)
  have "is_idle sid q" using assms(4) by (simp add: is_idle_def busy_def)
  with assms(5) show "cmd_skills_install install (Some (is_idle sid q)) [slug, ''--confirm''] f = (SkillInstalled slug dest, f')"
    by (simp add: cmd_skills_install_def check_idle_def)
qed

end
