(* ===== verification/SessionCommands.thy ===== *)
theory SessionCommands
  imports Commands SopExtraction RunnerProps WebChat Feishu
begin

section \<open>The commands on sessions\<close>

text \<open>
  The handlers of \<^verbatim>\<open>core/commands/builtin.py\<close>, \<^verbatim>\<open>readonly.py\<close> and \<^verbatim>\<open>_helpers.py\<close> that work on the
  session of the user: new, reset, history, idle, tier, resume, model, compact, extract.  A handler is a
  function of the texts the adapter gives it and of the stores it works on, and answers what it
  replies and the stores afterwards.  A reply is a value of a datatype, since the texts are Chinese.
  \<^verbatim>\<open>_truncate_utf8_bytes\<close> and the export are in a theory of their own.
\<close>

text \<open>The operations of a session store that the commands call.\<close>

record 's session_ops =
  sx_base :: "'s store_ops"
  sx_append :: "string \<Rightarrow> session_entry \<Rightarrow> string \<Rightarrow> 's \<Rightarrow> store_error + 's"
  sx_history :: "string \<Rightarrow> int \<Rightarrow> 's \<Rightarrow> history_summary list"

definition mem_session_ops :: "mem_store session_ops" where
  "mem_session_ops = \<lparr>sx_base = mem_ops, sx_append = mem_append_entry, sx_history = mem_list_history\<rparr>"

lemma mem_session_ops_sel [simp]:
  "sx_base mem_session_ops = mem_ops" "sx_append mem_session_ops = mem_append_entry"
  "sx_history mem_session_ops = mem_list_history"
  by (simp_all add: mem_session_ops_def)

datatype command_error = StoreRaised store_error | BadNumber | LlmRaised llm_exn

fun lift_store :: "store_error + 'a \<Rightarrow> command_error + 'a" where
  "lift_store (Inl e) = Inl (StoreRaised e)"
| "lift_store (Inr x) = Inr x"

subsection \<open>A new session\<close>

text \<open>
  \<^verbatim>\<open>cmd_new\<close> and \<^verbatim>\<open>cmd_reset\<close>, which differ in the text of the reply: the reply, the message that is
  dispatched afterwards, and the session the rotation callback is told of.
\<close>

datatype rotate_reply = SessionStarted | SessionReset

record 's rotated =
  ro_reply :: rotate_reply
  ro_followup :: "string option"
  ro_told :: "string option"
  ro_store :: 's

definition rotate_command ::
    "rotate_reply \<Rightarrow> 's session_ops \<Rightarrow> bool \<Rightarrow> moment \<Rightarrow> string \<Rightarrow> string \<Rightarrow> string \<Rightarrow> 's \<Rightarrow> 's rotated" where
  "rotate_command note ops cb mo skey ws args s =
     (let (_, told, s') = rotate_session (sx_base ops) cb mo skey ws ''default'' s;
          followup = py_strip args
      in \<lparr>ro_reply = note, ro_followup = (if followup \<noteq> [] then Some followup else None),
          ro_told = told, ro_store = s'\<rparr>)"

definition cmd_new ::
    "'s session_ops \<Rightarrow> bool \<Rightarrow> moment \<Rightarrow> string \<Rightarrow> string \<Rightarrow> string \<Rightarrow> 's \<Rightarrow> 's rotated" where
  "cmd_new = rotate_command SessionStarted"

definition cmd_reset ::
    "'s session_ops \<Rightarrow> bool \<Rightarrow> moment \<Rightarrow> string \<Rightarrow> string \<Rightarrow> string \<Rightarrow> 's \<Rightarrow> 's rotated" where
  "cmd_reset = rotate_command SessionReset"

subsection \<open>History\<close>

text \<open>\<^verbatim>\<open>s.split(":")[-1]\<close>, which is \<^verbatim>\<open>s.rsplit(":", 1)[-1]\<close>, and \<^verbatim>\<open>s[-n:]\<close>.\<close>

definition after_colon :: "string \<Rightarrow> string" where
  "after_colon s = rev (takeWhile (\<lambda>c. c \<noteq> CHR '':'') (rev s))"

definition last_chars :: "nat \<Rightarrow> string \<Rightarrow> string" where
  "last_chars n s = drop (length s - n) s"

definition short_id :: "string \<Rightarrow> string" where
  "short_id sid = (if CHR '':'' \<in> set sid then after_colon sid else last_chars 8 sid)"

definition short_time :: "string \<Rightarrow> string" where
  "short_time ts = replace_char CHR ''T'' CHR '' '' (take 19 ts)"

text \<open>A line: the number, the short id, the time and the number of messages.\<close>

datatype history_reply = OnlyThisSession | Sessions "(nat \<times> string \<times> string \<times> nat) list"

definition history_line :: "nat \<times> history_summary \<Rightarrow> nat \<times> string \<times> string \<times> nat" where
  "history_line p =
     (let (i, h) = p
      in (i, short_id (hs_session_id h),
          if hs_created_at h \<noteq> [] then short_time (hs_created_at h) else ''unknown'', hs_message_count h))"

definition cmd_history :: "'s session_ops \<Rightarrow> string \<Rightarrow> 's \<Rightarrow> history_reply" where
  "cmd_history ops skey s =
     (let summaries = sx_history ops skey 10 s
      in if summaries = [] then OnlyThisSession
         else Sessions (map history_line (zip [1..<Suc (length summaries)] summaries)))"

subsection \<open>The idle limit\<close>

datatype idle_reply = CannotParse | NoSession | IdleOff | IdleSet int

definition cmd_idle :: "'s session_ops \<Rightarrow> string \<Rightarrow> string \<Rightarrow> 's \<Rightarrow> store_error + idle_reply \<times> 's" where
  "cmd_idle ops sid args s =
     (case parse_idle_duration args of
        None \<Rightarrow> Inr (CannotParse, s)
      | Some minutes \<Rightarrow>
          try_bind (so_load (sx_base ops) sid s)
            (\<lambda>tree. case tree of
               None \<Rightarrow> Inr (NoSession, s)
             | Some t \<Rightarrow>
                 let t' = t\<lparr>header := (header t)\<lparr>idle_minutes_override := (if 0 < minutes then Some minutes else None)\<rparr>\<rparr>;
                     s' = so_save_header (sx_base ops) t' s
                 in Inr (if minutes = 0 then IdleOff else IdleSet minutes, s')))"

text \<open>How the limit is shown: minutes, hours, or both.\<close>

definition idle_unit :: "int \<Rightarrow> string" where
  "idle_unit minutes =
     (if minutes < 60 then show_int minutes @ '' min''
      else if minutes mod 60 = 0 then show_int (minutes div 60) @ '' h''
      else show_int (minutes div 60) @ '' h '' @ show_int (minutes mod 60) @ '' min'')"

subsection \<open>The permission tier\<close>

datatype tier_reply =
    WebTier string
  | CurrentTier string bool string
  | WebUsesDropdown
  | InvalidTier
  | TierNotStored
  | AlreadyTier string
  | TierChanged "string option" string string

text \<open>
  \<open>client\<close> is the Redis client if there is one, \<open>reachable\<close> whether it answers; \<open>default\<close> is the default
  of the channel.  The answer has the line of the audit log, from and to, if one is written.
\<close>

definition cmd_tier ::
    "'r redis option \<Rightarrow> bool \<Rightarrow> string \<Rightarrow> string \<Rightarrow> string option \<Rightarrow> string \<Rightarrow> 'r
       \<Rightarrow> (tier_reply \<times> (tier option \<times> tier) option) \<times> 'r" where
  "cmd_tier client reachable channel skey default_setting args r =
     (let arg = py_strip args;
          default_tier = (if opt_truthy default_setting then the default_setting else ''approval'');
          is_web = (channel = ''web'')
      in if arg = [] then
           (if is_web then ((WebTier default_tier, None), r)
            else let current = get_session_tier client reachable skey r
                 in ((CurrentTier (case current of Some t \<Rightarrow> tier_name t | None \<Rightarrow> default_tier)
                        (current \<noteq> None) default_tier, None), r))
         else if is_web then ((WebUsesDropdown, None), r)
         else case parse_tier_arg arg of
                None \<Rightarrow> ((InvalidTier, None), r)
              | Some new_tier \<Rightarrow>
                  let previous = get_session_tier client reachable skey r;
                      (ok, r') = set_session_tier client reachable skey (tier_name new_tier) (7 * 24 * 3600) r
                  in if \<not> ok then ((TierNotStored, None), r')
                     else ((if previous = Some new_tier then AlreadyTier (tier_name new_tier)
                            else TierChanged (map_option tier_name previous) default_tier (tier_name new_tier),
                            if previous \<noteq> Some new_tier then Some (previous, new_tier) else None), r'))"

subsection \<open>Going back to an earlier session\<close>

text \<open>\<^verbatim>\<open>str.isdigit\<close> also takes the superscripts two, three and one, which \<^verbatim>\<open>int\<close> then refuses.\<close>

definition isdigit_char :: "char \<Rightarrow> bool" where
  "isdigit_char c = (is_digit c \<or> (of_char c :: nat) \<in> {178, 179, 185})"

definition content_text :: "content \<Rightarrow> string" where
  "content_text c =
     (case c of
        CText s \<Rightarrow> s
      | CBlocks bs \<Rightarrow>
          py_join '' '' (filter (\<lambda>tx. tx \<noteq> []) (map (\<lambda>b. case b of TextBlock tx \<Rightarrow> tx | ImageBlock _ _ \<Rightarrow> []) bs)))"

text \<open>The sign of the ellipsis is written as three dots.\<close>

definition tail_line :: "session_entry \<Rightarrow> string" where
  "tail_line m =
     (let tx = replace_char CHR 0x0A CHR '' '' (content_text (me_content (body m)));
          tx' = (if 80 < length tx then take 80 tx @ ''...'' else tx)
      in ''  '' @ (if me_role (body m) = RUser then ''user'' else ''asst'') @ '' > '' @ tx')"

definition talk :: "session_entry \<Rightarrow> bool" where
  "talk e = (is_message e \<and> me_role (body e) \<in> {RUser, RAssistant})"

definition format_message_tail :: "session_tree \<Rightarrow> nat \<Rightarrow> string list" where
  "format_message_tail t n =
     (let recent_ids = drop (length (order t) - n * 3) (order t);
          msgs = filter talk (List.map_filter (\<lambda>i. map_of (entries t) i) recent_ids)
      in map tail_line (drop (length msgs - n) msgs))"

definition relative_time :: "(string \<Rightarrow> iso_read) \<Rightarrow> rat \<Rightarrow> string \<Rightarrow> string" where
  "relative_time iso_of now ts =
     (if ts = [] then ''unknown time''
      else case iso_of ts of
             NotIso \<Rightarrow> ts
           | r \<Rightarrow>
               let elapsed = now - (case r of AwareTime t \<Rightarrow> t | NaiveTime t \<Rightarrow> t | NotIso \<Rightarrow> 0)
               in if elapsed < 60 then ''just now''
                  else if elapsed < 3600 then show_int \<lfloor>elapsed / 60\<rfloor> @ '' min ago''
                  else if elapsed < 86400 then show_int \<lfloor>elapsed / 3600\<rfloor> @ '' h ago''
                  else show_int \<lfloor>elapsed / 86400\<rfloor> @ '' days ago'')"

datatype resume_reply =
    AlreadyCurrent string
  | NoHistory
  | Recent "(nat \<times> string \<times> string \<times> nat) list"
  | BadIndex nat nat
  | NoMatch string
  | ManyMatches string nat "string list"
  | SessionExpired
  | Resumed string "string list"

definition tail_of_id :: "nat \<Rightarrow> string \<Rightarrow> string" where
  "tail_of_id n sid = last_chars n (after_colon sid)"

text \<open>Which session an argument names: a refusal or the id of the session.\<close>

definition resume_target :: "history_summary list \<Rightarrow> string \<Rightarrow> command_error + (resume_reply + string)" where
  "resume_target past arg =
     (let recent = take 5 past in
      if arg \<noteq> [] \<and> list_all isdigit_char arg \<and> length arg \<le> 2
      then (if \<not> list_all is_digit arg then Inl BadNumber
            else let idx = dec_val arg
                 in Inr (if 1 \<le> idx \<and> idx \<le> length recent then Inr (hs_session_id (recent ! (idx - 1)))
                         else Inl (BadIndex idx (length recent))))
      else let matches = filter (\<lambda>sid. suffix arg sid) (map hs_session_id past)
           in Inr (case matches of
                     [] \<Rightarrow> Inl (NoMatch arg)
                   | [m] \<Rightarrow> Inr m
                   | _ \<Rightarrow> Inl (ManyMatches arg (length matches) (map (tail_of_id 12) (take 10 matches)))))"

definition cmd_resume ::
    "'s session_ops \<Rightarrow> (string \<Rightarrow> iso_read) \<Rightarrow> rat \<Rightarrow> string \<Rightarrow> string \<Rightarrow> string \<Rightarrow> 's
       \<Rightarrow> command_error + resume_reply \<times> 's" where
  "cmd_resume ops iso_of now sid skey args s =
     (let arg = py_strip args in
      if py_lower arg = ''current'' then Inr (AlreadyCurrent (tail_of_id 8 sid), s)
      else
        let past = sx_history ops skey 20 s;
            recent = take 5 past
        in if arg = [] then
             Inr (if recent = [] then NoHistory
                  else Recent (map (\<lambda>(i, h). (i, tail_of_id 8 (hs_session_id h),
                                              relative_time iso_of now (hs_created_at h), hs_message_count h))
                                   (zip [1..<Suc (length recent)] recent)), s)
           else try_bind (resume_target past arg)
                  (\<lambda>found. case found of
                     Inl note \<Rightarrow> Inr (note, s)
                   | Inr target \<Rightarrow>
                       try_bind (lift_store (so_load (sx_base ops) target s))
                         (\<lambda>tree. Inr (case tree of
                            None \<Rightarrow> (SessionExpired, s)
                          | Some t \<Rightarrow> (Resumed (tail_of_id 8 target) (format_message_tail t 5),
                                       so_set_current (sx_base ops) now skey target s)))))"


subsection \<open>The model of a session\<close>

datatype model_reply =
    ModelList string "(string \<times> (string \<times> string list) list) list"
  | NoProvider llm_exn
  | ModelNoSession
  | ModelSwitched string bool

text \<open>Modalities other than text, in order.\<close>

definition available_models :: "providers \<Rightarrow> (string \<times> (string \<times> string list) list) list" where
  "available_models ps =
     sort_key fst
       (map (\<lambda>(n, p). (n, map (\<lambda>(mid, ms). (mid, sort (remdups (filter (\<lambda>m. m \<noteq> ''text'') ms)))) (p_models p)))
            (filter (\<lambda>np. p_models (snd np) \<noteq> []) ps))"

text \<open>The provider written into the session: the first that declares the model.\<close>

definition provider_of :: "providers \<Rightarrow> string \<Rightarrow> string" where
  "provider_of ps target =
     (case find (\<lambda>np. target \<in> fst ` set (p_models (snd np))) ps of
        Some np \<Rightarrow> fst np | None \<Rightarrow> ''unknown'')"

text \<open>The id of a new entry and its time stamp are readings of the outside.\<close>

record entry_source =
  es_token4 :: "nat \<Rightarrow> string"
  es_token16 :: string
  es_stamp :: string

definition make_entry :: "entry_source \<Rightarrow> session_tree \<Rightarrow> entry_body \<Rightarrow> session_entry" where
  "make_entry es t b =
     \<lparr>entry_id = generate_entry_id (map fst (entries t)) 100 (es_token4 es) (es_token16 es),
      parent_id = leaf_id t, timestamp = es_stamp es, body = b\<rparr>"

definition cmd_model ::
    "'s session_ops \<Rightarrow> providers \<Rightarrow> string \<Rightarrow> entry_source \<Rightarrow> string \<Rightarrow> string \<Rightarrow> 's
       \<Rightarrow> command_error + model_reply \<times> 's" where
  "cmd_model ops ps default_model es sid args s =
     (let target = py_strip args; load = lift_store (so_load (sx_base ops) sid s) in
      if target = [] then
        try_bind load (\<lambda>tree.
          let current = (case Option.bind tree (\<lambda>t. model_override (header t)) of
                           Some m \<Rightarrow> if m \<noteq> [] then m else default_model | None \<Rightarrow> default_model)
          in Inr (ModelList current (available_models ps), s))
      else case (if ps \<noteq> [] then map_sum id (\<lambda>_. ()) (resolve_provider_for_model target ps None False) else Inr ()) of
             Inl e \<Rightarrow>
               if (case e of LLMError code _ \<Rightarrow> code = PROVIDER_NOT_FOUND | RawError _ \<Rightarrow> False)
               then Inr (NoProvider e, s) else Inl (LlmRaised e)
           | Inr _ \<Rightarrow>
               try_bind load (\<lambda>tree. case tree of
                 None \<Rightarrow> Inr (ModelNoSession, s)
               | Some t \<Rightarrow>
                   let s' = so_save_header (sx_base ops) (t\<lparr>header := (header t)\<lparr>model_override := Some target\<rparr>\<rparr>) s;
                       e = make_entry es t (ModelChangeEntry (provider_of ps target) target)
                   in try_bind (lift_store (sx_append ops sid e (entry_id e) s'))
                        (\<lambda>s''. Inr (ModelSwitched target
                                      (ps \<noteq> [] \<and> model_supports_input target ps ''image'' None False = Inr True), s''))))"

subsection \<open>Compaction by hand\<close>

datatype compact_reply =
    CoolingDown
  | CompactNoSession
  | NothingToCompact
  | CompactFailed string
  | NotNeeded string
  | Compacted int

text \<open>
  The focus is put in front of the messages, as a message of the system.
\<close>

definition with_focus :: "string \<Rightarrow> jobj list \<Rightarrow> jobj list" where
  "with_focus focus messages =
     (if focus = [] then messages
      else [(''role'', JStr ''system''), (''content'', JStr (''Compaction focus from user: '' @ focus))] # messages)"

text \<open>
  \<open>engine\<close> is the context engine at work on messages and a budget, \<^const>\<open>Inl\<close> where it raises;
  \<open>client\<close> is the Redis client if there is one and \<open>reachable\<close> whether it answers.  The walk over the branch
  ends on every well-formed tree; otherwise the handler does not return, which is \<^const>\<open>None\<close>.
\<close>

definition compact_cooldown :: "'r redis option \<Rightarrow> bool \<Rightarrow> string \<Rightarrow> 'r \<Rightarrow> bool \<times> 'r" where
  "compact_cooldown client reachable sid r =
     (case client of
        None \<Rightarrow> (True, r)
      | Some R \<Rightarrow> if \<not> reachable then (True, r)
                  else set_nx_ex R (''pyclaw:compact_cooldown:'' @ sid) 60 r)"

definition compact_outcome ::
    "'s session_ops \<Rightarrow> entry_source \<Rightarrow> string \<Rightarrow> session_tree \<Rightarrow> string + compact_result \<Rightarrow> 's
       \<Rightarrow> store_error + compact_reply \<times> 's" where
  "compact_outcome ops es sid t answer s =
     (case answer of
        Inl text \<Rightarrow> Inr (CompactFailed text, s)
      | Inr res \<Rightarrow>
          if \<not> cr_ok res then Inr (CompactFailed (or_default (cr_reason res) ''unknown''), s)
          else if \<not> cr_compacted res then Inr (NotNeeded (or_default (cr_reason res) ''within-budget''), s)
          else
            let saved = max 0 (cr_tokens_before res - (case cr_tokens_after res of Some n \<Rightarrow> n | None \<Rightarrow> 0));
                e = make_entry es t (CompactionEntry (the (cr_summary res)) (or_default (leaf_id t) [])
                                       (cr_tokens_before res) None)
            in if opt_truthy (cr_summary res)
               then try_bind (sx_append ops sid e (entry_id e) s) (\<lambda>s'. Inr (Compacted saved, s'))
               else Inr (Compacted saved, s))"

definition cmd_compact ::
    "'s session_ops \<Rightarrow> (jobj list \<Rightarrow> string + compact_result) \<Rightarrow> 'r redis option \<Rightarrow> bool \<Rightarrow> entry_source \<Rightarrow> string \<Rightarrow> string
       \<Rightarrow> 'r \<times> 's \<Rightarrow> (store_error + compact_reply \<times> 'r \<times> 's) option" where
  "cmd_compact ops engine client reachable es sid args st =
     (let (r, s) = st; (acquired, r') = compact_cooldown client reachable sid r in
      if \<not> acquired then Some (Inr (CoolingDown, r', s))
      else case so_load (sx_base ops) sid s of
             Inl e \<Rightarrow> Some (Inl e)
           | Inr None \<Rightarrow> Some (Inr (CompactNoSession, r', s))
           | Inr (Some t) \<Rightarrow>
               map_option (\<lambda>base.
                 if base = [] then Inr (NothingToCompact, r', s)
                 else try_bind (compact_outcome ops es sid t (engine (with_focus (py_strip args) base)) s)
                        (\<lambda>(note, s'). Inr (note, r', s'))) (build_session_context t))"

text \<open>The engine as the command calls it: forced, with an abort event that is never set.\<close>

definition forced_engine :: "py_env \<Rightarrow> engine \<Rightarrow> race \<Rightarrow> int \<Rightarrow> string option \<Rightarrow> jobj list \<Rightarrow> string + compact_result" where
  "forced_engine pe eng rc history_budget model messages =
     Inr (engine_compact pe eng False rc messages history_budget True model)"

subsection \<open>Extraction by hand\<close>

datatype extract_reply = ExtractTimedOut | ExtractDisabled | ExtractTooOften | Extracted string

text \<open>
  \<^verbatim>\<open>run_extract\<close>: \<open>wired\<close> says that none of the stores and clients is missing, \<open>late\<close> that the time limit
  cuts the extraction off, and \<open>sofar\<close> what it has done until then.
\<close>

definition run_extract ::
    "'r extraction \<Rightarrow> bool \<Rightarrow> bool \<Rightarrow> ('r \<times> memories \<Rightarrow> 'r \<times> memories) \<Rightarrow> string \<Rightarrow> nudge_hook option \<Rightarrow> 'r \<times> memories
       \<Rightarrow> extraction_result option \<times> nudge_hook option \<times> 'r \<times> memories" where
  "run_extract X wired late sofar sid nudge st =
     (if \<not> wired then (Some (skipped False ''disabled'' None), nudge, st)
      else let (r, m) = st; (allowed, r1) = check_user_ratelimit (xe_hash X) (derive_session_key sid) r
           in if \<not> allowed then (Some (skipped False ''rate_limited'' None), nudge, r1, m)
              else if late then (None, nudge, sofar (r1, m))
              else let (res, nudge', st') = extract_sops_sync X (Some 1) sid nudge (r1, m)
                   in (Some res, nudge', st'))"

definition cmd_extract ::
    "'r extraction \<Rightarrow> bool \<Rightarrow> bool \<Rightarrow> ('r \<times> memories \<Rightarrow> 'r \<times> memories) \<Rightarrow> string \<Rightarrow> nudge_hook option \<Rightarrow> 'r \<times> memories
       \<Rightarrow> extract_reply \<times> nudge_hook option \<times> 'r \<times> memories" where
  "cmd_extract X wired late sofar sid nudge st =
     (let (res, nudge', st') = run_extract X wired late sofar sid nudge st
      in (case res of
            None \<Rightarrow> ExtractTimedOut
          | Some x \<Rightarrow> if xr_skip x = Some ''disabled'' then ExtractDisabled
                      else if xr_skip x = Some ''rate_limited'' then ExtractTooOften
                      else Extracted (format_extraction_result x), nudge', st'))"

subsection \<open>What the commands guarantee\<close>

lemma idle_unit_hours: "0 < n \<Longrightarrow> idle_unit (60 * n) = show_int n @ '' h''"
  by (simp add: idle_unit_def)

text \<open>
  The idle limit.  A limit that is set is the limit of the session from then on, on
  every channel default.  Switching the limit off removes the session's own limit only, so that
  the default of the channel is in force again, which need not be off.  Every other answer
  leaves the store as it was, and no other session is touched.
\<close>

theorem idle_command_outcome:
  assumes "\<forall>t. mem_load sid s = Some t \<longrightarrow> hdr_id (header t) = sid"
    and "cmd_idle mem_session_ops sid args s = Inr (reply, s')"
  shows "(case reply of
            IdleSet m \<Rightarrow> parse_idle_duration args = Some m \<and> session_idle_minutes d (mem_load sid s') = (if 0 < m then m else d)
          | IdleOff \<Rightarrow> parse_idle_duration args = Some 0 \<and> session_idle_minutes d (mem_load sid s') = d
          | _ \<Rightarrow> s' = s)
     \<and> (\<forall>i. i \<noteq> sid \<longrightarrow> mem_load i s' = mem_load i s)"
proof (cases "parse_idle_duration args")
  case None
  with assms(2) show ?thesis by (auto simp: cmd_idle_def)
next
  case (Some m)
  show ?thesis
  proof (cases "mem_load sid s")
    case None
    with assms(2) Some show ?thesis by (auto simp: cmd_idle_def)
  next
    case t: (Some t)
    with assms(1) have "hdr_id (header t) = sid" by simp
    with assms(2) Some t show ?thesis
      by (auto simp: cmd_idle_def mem_load_save Let_def)
  qed
qed

definition demo_store :: mem_store where
  "demo_store = \<lparr>ms_trees = [(''web:ann:c'', demo_tree\<lparr>header := demo_header\<lparr>hdr_id := ''web:ann:c''\<rparr>\<rparr>)],
     ms_current = [], ms_history = [(''web:ann'', [(1, ''web:ann:s:00''), (2, ''web:ann:c'')])]\<rparr>"

theorem idle_command_outcome_witness:
  "\<exists>s'. cmd_idle mem_session_ops ''web:ann:c'' ''off'' demo_store = Inr (IdleOff, s')
     \<and> session_idle_minutes 30 (mem_load ''web:ann:c'' s') = 30"
proof -
  have h: "\<forall>t. mem_load ''web:ann:c'' demo_store = Some t \<longrightarrow> hdr_id (header t) = ''web:ann:c''"
    by (simp add: mem_load_def demo_store_def)
  have p: "parse_idle_duration ''off'' = Some 0" by code_simp
  obtain s' where c: "cmd_idle mem_session_ops ''web:ann:c'' ''off'' demo_store = Inr (IdleOff, s')"
    using p by (simp add: cmd_idle_def mem_load_def demo_store_def Let_def)
  from idle_command_outcome [OF h c, of 30] c show ?thesis by auto
qed

text \<open>
  The tier command.  On a channel other than the web, with Redis at hand, a command
  that names a tier makes it the tier of this session and of no other, and the audit log gets the
  change exactly when there is one; in every other case Redis is as it was and nothing is logged.
\<close>

theorem tier_command_sets_the_session_tier:
  assumes "redis_data_ok R" and "client = None \<or> client = Some R"
    and "cmd_tier client reachable channel skey dflt args r = ((reply, audit), r')"
  shows "if channel \<noteq> ''web'' \<and> client = Some R \<and> reachable \<and> skey \<noteq> [] \<and> parse_tier_arg args \<noteq> None
     then get_session_tier client reachable skey r' = parse_tier_arg args
        \<and> (\<forall>k. k \<noteq> skey \<longrightarrow> get_session_tier client reachable k r' = get_session_tier client reachable k r)
        \<and> audit = (if get_session_tier client reachable skey r = parse_tier_arg args then None
                   else Some (get_session_tier client reachable skey r, the (parse_tier_arg args)))
     else r' = r \<and> audit = None"
proof -
  have strip: "parse_tier_arg (py_strip args) = parse_tier_arg args" by (simp add: parse_tier_arg_def)
  have blank: "parse_tier_arg args \<noteq> None \<Longrightarrow> py_strip args \<noteq> []"
    by (auto simp: parse_tier_arg_def py_lower_def Let_def split: if_splits)
  show ?thesis
  proof (cases "channel \<noteq> ''web'' \<and> client = Some R \<and> reachable \<and> skey \<noteq> [] \<and> parse_tier_arg args \<noteq> None")
    case True
    then obtain t where t: "parse_tier_arg args = Some t" by blast
    define r1 where "r1 = rd_expire R (session_tier_key skey) (7 * 24 * 3600)
        (rd_set R (session_tier_key skey) (tier_name t) r)"
    have s: "set_session_tier client reachable skey (tier_name t) (7 * 24 * 3600) r = (True, r1)"
      using True by (simp add: set_session_tier_def r1_def)
    have g: "rd_get R (session_tier_key k) r1
        = (if k = skey then Some (tier_name t) else rd_get R (session_tier_key k) r)" for k
      by (auto simp: r1_def redis_expire_frame [OF assms(1)] redis_read [OF assms(1)] redis_frame [OF assms(1)]
          session_tier_key_def)
    from True t s strip blank assms(3) have r': "r' = r1"
      "audit = (if get_session_tier client reachable skey r = Some t then None
                else Some (get_session_tier client reachable skey r, t))"
      by (auto simp: cmd_tier_def Let_def)
    have "get_session_tier client reachable k r1
        = (if k = skey then Some t else get_session_tier client reachable k r)" for k
      using True g by (simp add: get_session_tier_def)
    with True t r' show ?thesis by simp
  next
    case False
    have "set_session_tier client reachable skey tn ttl r = (False, r)"
      if "client \<noteq> Some R \<or> \<not> reachable \<or> skey = []" for tn ttl
      using that assms(2) by (auto simp: set_session_tier_def)
    with False assms(3) strip show ?thesis
      by (auto simp: cmd_tier_def Let_def split: if_splits option.splits prod.splits)
  qed
qed

theorem tier_command_sets_the_session_tier_witness:
  "\<exists>reply audit r'. cmd_tier (Some demo_server) True ''feishu'' ''k'' None '' RO '' demo_empty = ((reply, audit), r')
     \<and> get_session_tier (Some demo_server) True ''k'' r' = Some ReadOnly \<and> audit = Some (None, ReadOnly)"
proof -
  obtain reply audit r' where c: "cmd_tier (Some demo_server) True ''feishu'' ''k'' None '' RO '' demo_empty = ((reply, audit), r')"
    by (metis surj_pair)
  have p: "parse_tier_arg '' RO '' = Some ReadOnly" by code_simp
  have n: "get_session_tier (Some demo_server) True ''k'' demo_empty = None" by code_simp
  from tier_command_sets_the_session_tier [OF demo_data_ok _ c] c p n show ?thesis by simp
qed

subsection \<open>Resuming\<close>

lemma resume_target_from_past:
  assumes "resume_target past arg = Inr (Inr target)"
  shows "target \<in> hs_session_id ` set past"
proof (cases "arg \<noteq> [] \<and> list_all isdigit_char arg \<and> length arg \<le> 2")
  case True
  with assms have d: "list_all is_digit arg" "1 \<le> dec_val arg" "dec_val arg \<le> length (take 5 past)"
    and t: "target = hs_session_id (take 5 past ! (dec_val arg - 1))"
    by (auto simp: resume_target_def Let_def split: if_splits)
  have "dec_val arg - 1 < length (take 5 past)" using d(2,3) by linarith
  then have "take 5 past ! (dec_val arg - 1) \<in> set (take 5 past)" by (rule nth_mem)
  with t show ?thesis by (auto dest: in_set_takeD)
next
  case False
  let ?ms = "filter (\<lambda>sid. suffix arg sid) (map hs_session_id past)"
  from False assms have "?ms = [target]"
    by (auto simp: resume_target_def Let_def split: list.splits if_splits)
  then have "target \<in> set ?ms" by simp
  then show ?thesis by auto
qed

lemma set_py_upto: "set (py_upto n xs) \<subseteq> set xs"
  by (auto simp: py_upto_def dest: in_set_takeD)

lemma history_ids: "hs_session_id ` set (mem_list_history skey n s) \<subseteq> snd ` set (history_of skey s)"
proof
  fix i assume "i \<in> hs_session_id ` set (mem_list_history skey n s)"
  then obtain p where "p \<in> set (py_upto n (sort_key (\<lambda>p. - fst p) (history_of skey s)))" "i = snd p"
    by (auto simp: mem_list_history_def missing_summary_def tree_summary_def split: option.splits)
  then show "i \<in> snd ` set (history_of skey s)" using set_py_upto by fastforce
qed

text \<open>
  Property C39.  Resuming.  Whatever the argument is, a resume command either leaves the store as it
  was, or it makes a session current that is stored and stands in the history of this very key;
  the sessions and the pointers of all other keys stay as they were.
\<close>

theorem resume_stays_in_the_history:
  assumes "cmd_resume mem_session_ops iso_of now sid skey args s = Inr (reply, s')"
  shows "(s' = s \<and> (\<forall>i ls. reply \<noteq> Resumed i ls))
     \<or> (\<exists>target t. target \<in> snd ` set (history_of skey s) \<and> mem_load target s = Some t
          \<and> reply = Resumed (tail_of_id 8 target) (format_message_tail t 5)
          \<and> (\<forall>k. mem_get_current k s' = (if k = skey then Some target else mem_get_current k s))
          \<and> (\<forall>i. mem_load i s' = mem_load i s))"
proof -
  let ?arg = "py_strip args" and ?past = "mem_list_history skey 20 s"
  show ?thesis
  proof (cases "py_lower ?arg = ''current'' \<or> ?arg = []")
    case True
    then consider "py_lower ?arg = ''current''" | "py_lower ?arg \<noteq> ''current''" "?arg = []" by blast
    then have "s' = s \<and> (\<forall>i ls. reply \<noteq> Resumed i ls)"
    proof cases
      case 1
      with assms show ?thesis by (auto simp: cmd_resume_def)
    next
      case 2
      with assms show ?thesis by (auto simp: cmd_resume_def Let_def split: if_splits)
    qed
    then show ?thesis by simp
  next
    case False
    with assms obtain found where f: "resume_target ?past ?arg = Inr found"
      and r: "(case found of
           Inl note \<Rightarrow> Inr (note, s)
         | Inr target \<Rightarrow>
             Inr (case mem_load target s of
                  None \<Rightarrow> (SessionExpired, s)
                | Some t \<Rightarrow> (Resumed (tail_of_id 8 target) (format_message_tail t 5),
                             so_set_current (sx_base mem_session_ops) now skey target s))) = (Inr (reply, s') :: command_error + _)"
      by (auto simp: cmd_resume_def Let_def try_bind_Inr_iff)
    show ?thesis
    proof (cases found)
      case (Inl ans)
      then have "\<forall>i ls. ans \<noteq> Resumed i ls"
        using f by (auto simp: resume_target_def Let_def split: if_splits list.splits)
      with Inl r show ?thesis by simp
    next
      case (Inr target)
      with resume_target_from_past f history_ids have tgt: "target \<in> snd ` set (history_of skey s)" by blast
      show ?thesis
      proof (cases "mem_load target s")
        case None
        with Inr r show ?thesis by simp
      next
        case (Some t)
        with Inr r have "reply = Resumed (tail_of_id 8 target) (format_message_tail t 5)"
          "s' = mem_set_current now skey target s" by simp_all
        with tgt Some show ?thesis by (intro disjI2 exI [of _ target] exI [of _ t]) simp
      qed
    qed
  qed
qed

theorem resume_stays_in_the_history_witness:
  "\<exists>s'. cmd_resume mem_session_ops (\<lambda>_. NotIso) 9 ''x'' ''web:ann'' '' 1 '' demo_store
       = Inr (Resumed ''c'' [''  user > hi'', ''  asst > ho''], s')
     \<and> mem_get_current ''web:ann'' s' = Some ''web:ann:c''"
proof -
  have "(case cmd_resume mem_session_ops (\<lambda>_. NotIso) 9 ''x'' ''web:ann'' '' 1 '' demo_store of
      Inr (reply, s') \<Rightarrow> reply = Resumed ''c'' [''  user > hi'', ''  asst > ho''] | Inl _ \<Rightarrow> False)"
    by code_simp
  then obtain s' where c: "cmd_resume mem_session_ops (\<lambda>_. NotIso) 9 ''x'' ''web:ann'' '' 1 '' demo_store
      = Inr (Resumed ''c'' [''  user > hi'', ''  asst > ho''], s')"
    by (auto split: sum.splits prod.splits)
  have h: "history_of ''web:ann'' demo_store = [(1, ''web:ann:s:00''), (2, ''web:ann:c'')]"
    "mem_load ''web:ann:s:00'' demo_store = None"
    by (simp_all add: history_of_def demo_store_def mem_load_def)
  from resume_stays_in_the_history [OF c] h c show ?thesis by auto
qed

subsection \<open>Starting anew on the web\<close>

text \<open>
  A reset on the web.  The command answers that the session was reset and moves the
  pointer of the user's key to a new session; the conversation it was typed in has its session by
  its own id, which no pointer is asked for, so the next message of the conversation goes to the
  very session that was to be left, with all its entries.
\<close>

theorem reset_on_web_keeps_the_conversation:
  assumes "web_session_id user conv = Some sid" and "mem_load sid s = Some t"
    and "mem_load (generate_session_id (web_command_key user) (mo_token mo)) s = None"
    and "cmd_reset mem_session_ops cb mo (web_command_key user) web_command_workspace args s = res"
  shows "ro_reply res = SessionReset
     \<and> mem_get_current (web_command_key user) (ro_store res)
         = Some (generate_session_id (web_command_key user) (mo_token mo))
     \<and> web_session_id user conv \<noteq> mem_get_current (web_command_key user) (ro_store res)
     \<and> mem_load sid (ro_store res) = Some t"
proof -
  obtain sid' t' told s' where rot: "rotate_session mem_ops cb mo (web_command_key user) web_command_workspace ''default'' s
      = ((sid', t'), told, s')" by (metis surj_pair)
  then have "sid' = generate_session_id (web_command_key user) (mo_token mo)"
    by (auto simp: rotate_session_def mem_create_new_session_def new_session_tree_def new_tree_def mk_header_def Let_def)
  moreover from this assms(2,3) have "sid \<noteq> sid'" by auto
  moreover note rotation_links_and_keeps [OF assms(3) rot]
  ultimately show ?thesis
    using assms(1,2) rot by (simp add: assms(4) [symmetric] cmd_reset_def rotate_command_def Let_def)
qed

theorem reset_on_web_keeps_the_conversation_witness:
  "\<exists>res. cmd_reset mem_session_ops False \<lparr>mo_now = 3, mo_iso = ''x'', mo_token = ''01''\<rparr> (web_command_key ''ann'')
       web_command_workspace [] demo_store = res
     \<and> ro_reply res = SessionReset \<and> mem_load ''web:ann:c'' (ro_store res) = mem_load ''web:ann:c'' demo_store"
proof -
  let ?mo = "\<lparr>mo_now = 3, mo_iso = ''x'', mo_token = ''01''\<rparr>"
  have w: "web_session_id ''ann'' ''c'' = Some ''web:ann:c''" by code_simp
  obtain t where t: "mem_load ''web:ann:c'' demo_store = Some t" by (simp add: mem_load_def demo_store_def)
  have f: "mem_load (generate_session_id (web_command_key ''ann'') (mo_token ?mo)) demo_store = None"
    by (simp add: mem_load_def demo_store_def generate_session_id_def web_command_key_def web_command_user_def)
  from reset_on_web_keeps_the_conversation [OF w t f refl] t show ?thesis by auto
qed

subsection \<open>Entries that commands append\<close>

lemma store_entry_append:
  "entry_id e \<notin> fst ` set (entries t) \<Longrightarrow> tree_append t e = Inr (store_entry e (entry_id e) t, entry_id e)"
  by (simp add: tree_append_def store_entry_def)

lemma header_update_tree [simp]:
  "tree_ok (t\<lparr>header := h\<rparr>) = tree_ok t" "get_branch (t\<lparr>header := h\<rparr>) i = get_branch t i"
  by (cases "leaf_id t"; simp add: tree_ok_def get_branch_def Let_def)
    (cases i; cases "leaf_id t"; simp add: get_branch_def Let_def)

text \<open>An entry that is neither a message nor a compaction does not show in the conversation.\<close>

lemma context_of_branch_snoc_other:
  assumes other: "\<not> is_message e" "\<not> is_compaction e" and fresh: "entry_id e \<notin> entry_id ` set b"
    and kept: "\<forall>c \<in> set b. is_compaction c \<longrightarrow> ce_first_kept (body c) \<noteq> entry_id e"
  shows "context_of_branch (b @ [e]) = context_of_branch b"
proof (cases "last_compaction b")
  case None
  with other show ?thesis by (simp add: context_of_branch_def last_compaction_snoc)
next
  case (Some ci)
  then have ci: "ci < length b" "is_compaction (b ! ci)" by (auto dest: last_compaction_bound)
  let ?c = "b ! ci"
  have "ce_first_kept (body ?c) \<noteq> entry_id e" using kept ci by auto
  then have idx: "index_of_id (ce_first_kept (body ?c)) (b @ [e]) = index_of_id (ce_first_kept (body ?c)) b"
    by (simp add: index_of_id_append split: option.splits)
  have "entry_id ?c \<noteq> entry_id e" using fresh ci(1) by (metis image_eqI nth_mem)
  moreover have "(case index_of_id (ce_first_kept (body ?c)) b of Some k \<Rightarrow> k | None \<Rightarrow> Suc ci)
      \<le> length b"
    using ci(1) by (auto dest!: index_of_id_Some split: option.splits)
  ultimately show ?thesis
    using Some ci other idx
    by (simp add: context_of_branch_def last_compaction_snoc nth_append Let_def)
qed

definition new_id_free :: "entry_source \<Rightarrow> session_tree \<Rightarrow> bool" where
  "new_id_free es t \<longleftrightarrow> (\<exists>k < 100. es_token4 es k \<notin> fst ` set (entries t))"

lemma make_entry_fresh:
  "new_id_free es t \<Longrightarrow> entry_id (make_entry es t b) \<notin> fst ` set (entries t)"
  using generate_entry_id_fresh [of _ 100 "es_token4 es" "map fst (entries t)" "es_token16 es"]
  by (auto simp: new_id_free_def make_entry_def)

lemma make_entry_stored:
  assumes "tree_ok t" and "new_id_free es t" and "e = make_entry es t b"
  shows "tree_ok (store_entry e (entry_id e) t)"
    "\<exists>br. get_branch t None = Some br \<and> get_branch (store_entry e (entry_id e) t) None = Some (br @ [e])
        \<and> entry_id e \<notin> entry_id ` set br"
proof -
  have fr: "entry_id e \<notin> fst ` set (entries t)" using make_entry_fresh assms(2,3) by simp
  note ap = store_entry_append [OF fr]
  have par: "parent_id e = leaf_id t" using assms(3) by (simp add: make_entry_def)
  from tree_append_ok [OF assms(1) ap leaf_parent_ok [OF assms(1) par]]
  show "tree_ok (store_entry e (entry_id e) t)" .
  from tree_append_branch [OF assms(1) ap par] fr
  show "\<exists>br. get_branch t None = Some br \<and> get_branch (store_entry e (entry_id e) t) None = Some (br @ [e])
        \<and> entry_id e \<notin> entry_id ` set br" by auto
qed

lemma mem_append_load:
  assumes "mem_append_entry sid e leaf s = Inr s'"
  shows "\<exists>t. mem_load sid s = Some t \<and> mem_load sid s' = Some (store_entry e leaf t)
     \<and> (\<forall>i. i \<noteq> sid \<longrightarrow> mem_load i s' = mem_load i s)"
  using assms by (auto simp: mem_append_entry_def mem_load_def split: option.splits)

lemma store_entry_header [simp]:
  "store_entry e leaf (t\<lparr>header := h\<rparr>) = (store_entry e leaf t)\<lparr>header := h\<rparr>"
  "header (store_entry e leaf t) = header t"
  by (simp_all add: store_entry_def)

lemma make_entry_sel [simp]:
  "body (make_entry es t b) = b" "parent_id (make_entry es t b) = leaf_id t"
  by (simp_all add: make_entry_def)

subsection \<open>Switching the model\<close>

lemma cmd_model_switched:
  assumes "cmd_model mem_session_ops ps dm es sid args s = Inr (ModelSwitched m v, s')"
  shows "m = py_strip args \<and> (\<exists>t. mem_load sid s = Some t
     \<and> (let e = make_entry es t (ModelChangeEntry (provider_of ps m) m)
        in mem_append_entry sid e (entry_id e)
             (mem_save_header (t\<lparr>header := (header t)\<lparr>model_override := Some m\<rparr>\<rparr>) s) = Inr s'))"
proof -
  have ls: "lift_store x = Inr y \<longleftrightarrow> x = Inr y" for x and y :: mem_store
    by (cases x) simp_all
  show ?thesis
    using assms
    by (auto simp: cmd_model_def Let_def try_bind_Inr_iff ls
        split: if_splits sum.splits option.splits llm_exn.splits)
qed

text \<open>
  Switching the model.  The session gets the name of the model and one entry more,
  stays well-formed, and its conversation, as the model is shown it, is the same as before; no
  other session is touched.
\<close>

theorem model_switch_keeps_the_conversation:
  assumes "mem_load sid s = Some t" and "tree_ok t" and "hdr_id (header t) = sid" and "new_id_free es t"
    and "\<forall>c \<in> snd ` set (entries t). is_compaction c
           \<longrightarrow> ce_first_kept (body c) \<noteq> generate_entry_id (map fst (entries t)) 100 (es_token4 es) (es_token16 es)"
    and "cmd_model mem_session_ops ps dm es sid args s = Inr (ModelSwitched m v, s')"
  shows "\<exists>t'. mem_load sid s' = Some t' \<and> tree_ok t' \<and> model_override (header t') = Some m
     \<and> length (entries t') = Suc (length (entries t)) \<and> build_session_context t' = build_session_context t
     \<and> (\<forall>i. i \<noteq> sid \<longrightarrow> mem_load i s' = mem_load i s)"
proof -
  define e where "e = make_entry es t (ModelChangeEntry (provider_of ps m) m)"
  let ?h = "(header t)\<lparr>model_override := Some m\<rparr>"
  let ?s = "mem_save_header (t\<lparr>header := ?h\<rparr>) s"
  from cmd_model_switched [OF assms(6)] assms(1) have "mem_append_entry sid e (entry_id e) ?s = Inr s'"
    unfolding e_def Let_def by (elim conjE exE) simp
  from mem_append_load [OF this] assms(1,3)
  have l: "mem_load sid s' = Some ((store_entry e (entry_id e) t)\<lparr>header := ?h\<rparr>)"
    "\<forall>i. i \<noteq> sid \<longrightarrow> mem_load i s' = mem_load i s"
    by (auto simp: mem_load_save)
  from make_entry_stored [OF assms(2,4) e_def] obtain br where ok: "tree_ok (store_entry e (entry_id e) t)"
    and br: "get_branch t None = Some br" "get_branch (store_entry e (entry_id e) t) None = Some (br @ [e])"
      "entry_id e \<notin> entry_id ` set br" by blast
  have "context_of_branch (br @ [e]) = context_of_branch br"
  proof (rule context_of_branch_snoc_other [OF _ _ br(3)])
    show "\<not> is_message e" "\<not> is_compaction e" by (simp_all add: e_def is_message_def is_compaction_def)
    show "\<forall>c \<in> set br. is_compaction c \<longrightarrow> ce_first_kept (body c) \<noteq> entry_id e"
      using branch_subset [OF assms(2) br(1)] assms(5) by (auto simp: e_def make_entry_def)
  qed
  moreover have "length (entries (store_entry e (entry_id e) t)) = Suc (length (entries t))"
    using make_entry_fresh [OF assms(4)] by (simp add: store_entry_def e_def dict_update_fresh)
  ultimately show ?thesis using l ok br by (simp add: build_session_context_def)
qed

definition demo_source :: entry_source where
  "demo_source = \<lparr>es_token4 = (\<lambda>k. ''m'' @ show_nat k), es_token16 = ''m'', es_stamp = ''t''\<rparr>"

theorem model_switch_keeps_the_conversation_witness:
  "\<exists>s' t' b. cmd_model mem_session_ops [] ''gpt'' demo_source ''web:ann:c'' '' o3 '' demo_store = Inr (ModelSwitched ''o3'' b, s')
     \<and> mem_load ''web:ann:c'' s' = Some t' \<and> build_session_context t' = build_session_context demo_tree"
proof -
  let ?t = "demo_tree\<lparr>header := demo_header\<lparr>hdr_id := ''web:ann:c''\<rparr>\<rparr>"
  have t: "mem_load ''web:ann:c'' demo_store = Some ?t" "tree_ok ?t" "hdr_id (header ?t) = ''web:ann:c''"
    using demo_tree_ok by (simp_all add: mem_load_def demo_store_def)
  have f: "new_id_free demo_source ?t" unfolding new_id_free_def
    by (rule exI [of _ 0]) (simp add: demo_source_def demo_tree_def show_nat.simps)
  have c: "\<forall>c \<in> snd ` set (entries ?t). is_compaction c
           \<longrightarrow> ce_first_kept (body c) \<noteq> generate_entry_id (map fst (entries ?t)) 100 (es_token4 demo_source) (es_token16 demo_source)"
    by (simp add: demo_tree_def SessionTree.demo_message_def is_compaction_def)
  have p: "py_strip '' o3 '' = ''o3''" by code_simp
  obtain s' where m: "cmd_model mem_session_ops [] ''gpt'' demo_source ''web:ann:c'' '' o3 '' demo_store
      = Inr (ModelSwitched ''o3'' False, s')"
    by (simp add: cmd_model_def p t mem_append_entry_def mem_save_header_def demo_store_def mem_load_def Let_def)
  from model_switch_keeps_the_conversation [OF t f c m] m show ?thesis
    by (auto simp: build_session_context_def)
qed

text \<open>
  The command does not wait for a running agent.  What the run appends between the command's
  reading of the session and its writing is no longer on the branch: both entries have the same
  parent, and the leaf is the one of the command.
\<close>

lemma late_model_entry_drops_the_run:
  "(let e = SessionTree.demo_message ''e3'' (leaf_id demo_tree) RAssistant ''done'';
        m = make_entry demo_source demo_tree (ModelChangeEntry ''p'' ''o3'');
        t = store_entry m (entry_id m) (store_entry e ''e3'' demo_tree)
    in map_option (map entry_id) (get_branch t None) = Some [''e1'', ''e2'', ''m0''])"
  by code_simp

subsection \<open>Compaction by hand\<close>

lemma compact_outcome_cases:
  assumes "compact_outcome ops es sid t answer s = Inr (note, s')"
  shows "(s' = s \<and> (case note of Compacted _ \<Rightarrow> \<exists>r. answer = Inr r \<and> cr_ok r \<and> cr_compacted r \<and> \<not> opt_truthy (cr_summary r)
                   | _ \<Rightarrow> True))
     \<or> (\<exists>r n. note = Compacted n \<and> answer = Inr r \<and> cr_ok r \<and> cr_compacted r \<and> opt_truthy (cr_summary r)
          \<and> (let e = make_entry es t (CompactionEntry (the (cr_summary r)) (or_default (leaf_id t) []) (cr_tokens_before r) None)
             in sx_append ops sid e (entry_id e) s = Inr s'))"
  using assms by (auto simp: compact_outcome_def Let_def try_bind_Inr_iff split: sum.splits if_splits)


definition demo_summary :: "jobj list \<Rightarrow> string + compact_result" where
  "demo_summary ms = Inr demo_answer"

lemma answered_case:
  assumes "case c of Some (Inr (a, r, s)) \<Rightarrow> Q a r s | _ \<Rightarrow> False"
  obtains a r s where "c = Some (Inr (a, r, s))" "Q a r s"
  using assms by (cases c rule: option.exhaust) (auto split: sum.splits)


text \<open>
  The cooldown is taken before anything is looked at: a command that finds nothing to compact, no
  session, or an engine that fails, has spent it.
\<close>

lemma cooldown_is_taken_first:
  assumes "redis_expiry_ok R"
    and "cmd_compact ops engine (Some R) True es sid args (r, s) = Some (Inr (note, r', s'))"
  shows "cmd_compact ops engine' (Some R) True es' sid args' (r', s'') = Some (Inr (CoolingDown, r', s''))"
proof -
  let ?k = "''pyclaw:compact_cooldown:'' @ sid"
  obtain got r1 where cd: "set_nx_ex R ?k 60 r = (got, r1)" by fastforce
  with assms(2) have "r' = r1"
    by (auto simp: cmd_compact_def compact_cooldown_def try_bind_Inr_iff split: if_splits sum.splits option.splits)
  note nx = redis_nx [OF assms(1), where n = "1000 * 60" and k = ?k and v = "''1''"]
  have "rd_get R ?k r1 \<noteq> None"
    using nx(2,3) [of r] cd by (cases "rd_get R ?k r") (auto simp: set_nx_ex_def)
  then have "set_nx_ex R ?k 60 r' = (False, r')"
    using nx(1,2) [of r'] \<open>r' = r1\<close> by (simp add: set_nx_ex_def prod_eq_iff)
  then show ?thesis by (simp add: cmd_compact_def compact_cooldown_def)
qed

end
