(* ===== verification/ContextAssembly.thy ===== *)
theory ContextAssembly
  imports SystemPrompt SessionCommands AdminCommands
begin

section \<open>What the context engine adds to a turn\<close>

text \<open>
  The stores of workspace files (\<^verbatim>\<open>storage/workspace/file.py\<close>, \<^verbatim>\<open>redis.py\<close>), the bootstrap text made of
  them (\<^verbatim>\<open>core/context/bootstrap.py\<close>), and of \<^verbatim>\<open>core/context_engine.py\<close> the caches, the snapshots of a
  session and the assembly of a turn with the memories that fit the prompt.  The search of words and
  of vectors is an argument, and so is the text of a similarity with two decimals.
\<close>

subsection \<open>Workspace files\<close>

text \<open>
  A store answers \<^const>\<open>None\<close> for a file that is not there and \<^const>\<open>Inl\<close> where it raises.  The contract is
  for names that a store keeps apart and for states without links.
\<close>

locale workspace_store =
  fixes get :: "string \<Rightarrow> string \<Rightarrow> 's \<Rightarrow> string + string option"
    and put :: "string \<Rightarrow> string \<Rightarrow> string \<Rightarrow> 's \<Rightarrow> (string + unit) \<times> 's"
    and name_ok :: "string \<Rightarrow> string \<Rightarrow> bool"
    and ok :: "'s \<Rightarrow> bool"
  assumes put_get: "\<lbrakk>ok s; name_ok ws f; put ws f c s = (Inr (), s')\<rbrakk> \<Longrightarrow> get ws f s' = Inr (Some c)"
    and put_other: "\<lbrakk>ok s; name_ok ws f; name_ok ws' f'; ws' \<noteq> ws \<or> f' \<noteq> f; put ws f c s = (Inr (), s')\<rbrakk>
      \<Longrightarrow> get ws' f' s' = get ws' f' s"

subsection \<open>The bootstrap text\<close>

fun bootstrap_files ::
    "(string \<Rightarrow> string \<Rightarrow> 's \<Rightarrow> string + string option) \<Rightarrow> string \<Rightarrow> string list \<Rightarrow> 's \<Rightarrow> string + (string \<times> string) list" where
  "bootstrap_files get ws [] s = Inr []"
| "bootstrap_files get ws (f # fs) s =
     try_bind (get ws f s) (\<lambda>found.
     try_bind (bootstrap_files get ws fs s) (\<lambda>rest.
       Inr (case found of
              None \<Rightarrow> rest
            | Some c \<Rightarrow> if py_strip c \<noteq> [] then (f, c) # rest else rest)))"

definition bootstrap_text :: "(string \<times> string) list \<Rightarrow> string" where
  "bootstrap_text found =
     (case found of
        [] \<Rightarrow> []
      | (f, c) # rest \<Rightarrow> py_join (nl @ nl) (c # map (\<lambda>(f, c). ''## '' @ f @ nl @ nl @ c) rest))"

definition load_bootstrap_context ::
    "(string \<Rightarrow> string \<Rightarrow> 's \<Rightarrow> string + string option) \<Rightarrow> string \<Rightarrow> string list \<Rightarrow> 's \<Rightarrow> string + string" where
  "load_bootstrap_context get ws fs s = try_bind (bootstrap_files get ws fs s) (\<lambda>found. Inr (bootstrap_text found))"

lemma bootstrap_files_cong:
  "(\<And>f. f \<in> set fs \<Longrightarrow> get ws f s' = get ws f s) \<Longrightarrow> bootstrap_files get ws fs s' = bootstrap_files get ws fs s"
  by (induction fs) auto

context workspace_store begin

lemma bootstrap_of_others:
  assumes "ok s" "name_ok ws f" "\<forall>g \<in> set fs. name_ok ws' g" "ws' \<noteq> ws \<or> f \<notin> set fs" "put ws f c s = (Inr (), s')"
  shows "load_bootstrap_context get ws' fs s' = load_bootstrap_context get ws' fs s"
proof -
  have "get ws' g s' = get ws' g s" if "g \<in> set fs" for g
    using put_other [OF assms(1,2) _ _ assms(5), of ws' g] assms(3,4) that by blast
  then have "bootstrap_files get ws' fs s' = bootstrap_files get ws' fs s" by (rule bootstrap_files_cong)
  then show ?thesis by (simp add: load_bootstrap_context_def)
qed

lemma bootstrap_of_file:
  assumes "ok s" "name_ok ws f" "py_strip c \<noteq> []" "put ws f c s = (Inr (), s')"
  shows "load_bootstrap_context get ws [f] s' = Inr c"
  using put_get [OF assms(1,2,4)] assms(3) by (simp add: load_bootstrap_context_def bootstrap_text_def)

lemma blank_file_is_no_bootstrap:
  assumes "ok s" "name_ok ws f" "py_strip c = []" "put ws f c s = (Inr (), s')"
  shows "load_bootstrap_context get ws [f] s' = Inr []"
  using put_get [OF assms(1,2,4)] assms(3) by (simp add: load_bootstrap_context_def bootstrap_text_def)

end

subsection \<open>The store in Redis\<close>

definition redis_file_key :: "string \<Rightarrow> string \<Rightarrow> string \<Rightarrow> string" where
  "redis_file_key pre ws f = pre @ ''workspace:'' @ ws @ '':'' @ f"

definition redis_get_file :: "'r redis \<Rightarrow> string \<Rightarrow> string \<Rightarrow> string \<Rightarrow> 'r \<Rightarrow> string + string option" where
  "redis_get_file R pre ws f r = Inr (rd_get R (redis_file_key pre ws f) r)"

definition redis_put_file :: "'r redis \<Rightarrow> string \<Rightarrow> string \<Rightarrow> string \<Rightarrow> string \<Rightarrow> 'r \<Rightarrow> (string + unit) \<times> 'r" where
  "redis_put_file R pre ws f c r = (Inr (), rd_set R (redis_file_key pre ws f) c r)"

lemma first_colon: "c \<notin> set xs \<Longrightarrow> c \<notin> set xs' \<Longrightarrow> xs @ c # ys = xs' @ c # ys' \<Longrightarrow> xs = xs' \<and> ys = ys'"
  by (induction xs arbitrary: xs') (auto simp: Cons_eq_append_conv)

lemma redis_file_key_eq:
  assumes "CHR '':'' \<notin> set ws" "CHR '':'' \<notin> set ws'"
  shows "redis_file_key pre ws f = redis_file_key pre ws' f' \<longleftrightarrow> ws = ws' \<and> f = f'"
  using first_colon [OF assms, of f f'] by (auto simp: redis_file_key_def)

interpretation redis_ws: workspace_store "redis_get_file R pre" "redis_put_file R pre"
    "\<lambda>ws f. CHR '':'' \<notin> set ws" "\<lambda>r. redis_data_ok R" for R :: "'r redis" and pre
proof unfold_locales
  fix s s' :: 'r and ws f c
  assume "redis_data_ok R" "redis_put_file R pre ws f c s = (Inr (), s')"
  then show "redis_get_file R pre ws f s' = Inr (Some c)"
    by (auto simp: redis_get_file_def redis_put_file_def redis_laws)
next
  fix s s' :: 'r and ws f ws' f' c
  assume "redis_data_ok R" "CHR '':'' \<notin> set ws" "CHR '':'' \<notin> set ws'" "ws' \<noteq> ws \<or> f' \<noteq> f"
    and "redis_put_file R pre ws f c s = (Inr (), s')"
  then show "redis_get_file R pre ws' f' s' = redis_get_file R pre ws' f' s"
    by (auto simp: redis_get_file_def redis_put_file_def redis_laws redis_file_key_eq)
qed

subsection \<open>The store in files\<close>

text \<open>\<open>base\<close> is the folder of the workspaces.  A name may lead out of it; the contract is for plain names.\<close>

definition file_get_file :: "'f fs \<Rightarrow> path \<Rightarrow> string \<Rightarrow> string \<Rightarrow> 'f \<Rightarrow> string + string option" where
  "file_get_file F base ws f s =
     (let p = path_join (path_join base ws) f
      in if \<not> fs_exists F p s then Inr None
         else case fs_read F p s of Inl err \<Rightarrow> Inl err | Inr c \<Rightarrow> Inr (Some c))"

definition file_put_file :: "'f fs \<Rightarrow> path \<Rightarrow> string \<Rightarrow> string \<Rightarrow> string \<Rightarrow> 'f \<Rightarrow> (string + unit) \<times> 'f" where
  "file_put_file F base ws f c s = fs_put F (path_join (path_join base ws) f) c s"

definition plain_name :: "string \<Rightarrow> bool" where
  "plain_name f \<longleftrightarrow> f \<noteq> [] \<and> CHR ''/'' \<notin> set f \<and> f \<noteq> ''.'' \<and> f \<noteq> ''..''"

text \<open>
  What is relied on of a file system: a file that was written is there and has the text; writing
  at one real path changes nothing at another, and only brings folders above the file to be.
\<close>

definition files_ok :: "'f fs \<Rightarrow> bool" where
  "files_ok F \<longleftrightarrow> fs_ok F
   \<and> (\<forall>p c s s'. fs_put F p c s = (Inr (), s') \<longrightarrow> fs_exists F p s' \<and> fs_read F p s' = Inr c)
   \<and> (\<forall>p q c s. \<not> starts_with (fs_real F q s) (fs_real F p s) \<longrightarrow> fs_exists F q (snd (fs_put F p c s)) = fs_exists F q s)"

definition no_links :: "'f fs \<Rightarrow> path \<Rightarrow> 'f \<Rightarrow> bool" where
  "no_links F base s \<longleftrightarrow>
     (\<forall>ws f. plain_name ws \<and> plain_name f \<longrightarrow> fs_real F (base @ [ws, f]) s = base @ [ws, f])"

lemma split_on_plain: "c \<notin> set s \<Longrightarrow> split_on c acc s = [acc @ s]"
  by (induction s arbitrary: acc) auto

lemma path_join_plain:
  assumes "plain_name f"
  shows "path_join base f = base @ [f]"
proof -
  have "\<not> starts_with ''/'' f" "\<not> starts_with ''//'' f"
    using assms by (cases f; auto simp: plain_name_def)+
  then show ?thesis
    using assms by (simp add: path_join_def path_of_def root_of_def split_on_plain plain_name_def)
qed

interpretation file_ws: workspace_store "file_get_file F base" "file_put_file F base"
    "\<lambda>ws f. plain_name ws \<and> plain_name f" "\<lambda>s. files_ok F \<and> no_links F base s" for F :: "'f fs" and base
proof unfold_locales
  fix s s' :: 'f and ws f c
  assume "files_ok F \<and> no_links F base s" "plain_name ws \<and> plain_name f" "file_put_file F base ws f c s = (Inr (), s')"
  then show "file_get_file F base ws f s' = Inr (Some c)"
    by (simp add: file_get_file_def file_put_file_def path_join_plain files_ok_def)
next
  fix s s' :: 'f and ws f ws' f' c
  assume ok: "files_ok F \<and> no_links F base s" "plain_name ws \<and> plain_name f" "plain_name ws' \<and> plain_name f'"
    and ne: "ws' \<noteq> ws \<or> f' \<noteq> f" and put: "file_put_file F base ws f c s = (Inr (), s')"
  let ?p = "base @ [ws, f]" and ?q = "base @ [ws', f']"
  have s': "s' = snd (fs_put F ?p c s)" using put ok by (simp add: file_put_file_def path_join_plain)
  have real: "fs_real F ?p s = ?p" "fs_real F ?q s = ?q" using ok by (auto simp: no_links_def)
  have "fs_real F ?q s \<noteq> fs_real F ?p s" using real ne by simp
  moreover have "\<not> starts_with (fs_real F ?q s) (fs_real F ?p s)"
    unfolding real starts_with_iff using ne by auto
  ultimately have "fs_read F ?q s' = fs_read F ?q s" "fs_exists F ?q s' = fs_exists F ?q s"
    using ok(1) unfolding files_ok_def fs_ok_def s' by blast+
  then show "file_get_file F base ws' f' s' = file_get_file F base ws' f' s"
    using ok by (simp add: file_get_file_def path_join_plain Let_def)
qed

subsection \<open>The caches of the engine\<close>

type_synonym archive_hits = "(archive \<times> rat \<times> rat) list"

record engine_caches =
  cc_bootstrap :: "(string \<times> string) list"
  cc_l1 :: "(string \<times> memory_entry list) list"
  cc_archive :: "(string \<times> string \<times> archive_hits) list"

definition no_caches :: engine_caches where
  "no_caches = \<lparr>cc_bootstrap = [], cc_l1 = [], cc_archive = []\<rparr>"

definition derive_workspace_id :: "string \<Rightarrow> string" where
  "derive_workspace_id sid = replace_char CHR '':'' CHR ''_'' (derive_session_key sid)"

definition non_empty :: "string \<Rightarrow> string option" where
  "non_empty s = (if s \<noteq> [] then Some s else None)"

text \<open>\<open>load\<close> reads the bootstrap text of a workspace, if there is a store of workspace files.\<close>

definition get_bootstrap ::
    "(string \<Rightarrow> string + string) option \<Rightarrow> string \<Rightarrow> engine_caches \<Rightarrow> (string + string option) \<times> engine_caches" where
  "get_bootstrap load sid c =
     (case load of
        None \<Rightarrow> (Inr None, c)
      | Some read \<Rightarrow>
          let ws = derive_workspace_id sid
          in case map_of (cc_bootstrap c) ws of
               Some tx \<Rightarrow> (Inr (non_empty tx), c)
             | None \<Rightarrow>
                 (case read ws of
                    Inl e \<Rightarrow> (Inl e, c)
                  | Inr tx \<Rightarrow> (Inr (non_empty tx), c\<lparr>cc_bootstrap := AList.update ws tx (cc_bootstrap c)\<rparr>)))"

text \<open>\<open>index\<close> is what the index of a session key answers, \<^const>\<open>None\<close> where it raises.\<close>

definition get_l1_snapshot ::
    "(string \<Rightarrow> memory_entry list option) option \<Rightarrow> string \<Rightarrow> engine_caches \<Rightarrow> memory_entry list \<times> engine_caches" where
  "get_l1_snapshot index sid c =
     (case index of
        None \<Rightarrow> ([], c)
      | Some look \<Rightarrow>
          (case map_of (cc_l1 c) sid of
             Some es \<Rightarrow> (es, c)
           | None \<Rightarrow>
               let es = (case look (derive_session_key sid) of None \<Rightarrow> [] | Some es \<Rightarrow> es)
               in (es, c\<lparr>cc_l1 := AList.update sid es (cc_l1 c)\<rparr>)))"

definition ARCHIVE_CACHE_MAX_ENTRIES :: nat where
  "ARCHIVE_CACHE_MAX_ENTRIES = 200"

definition remember_archives :: "string \<Rightarrow> string \<Rightarrow> archive_hits \<Rightarrow> engine_caches \<Rightarrow> engine_caches" where
  "remember_archives sid prompt hits c =
     (let d = cc_archive c;
          room = (if ARCHIVE_CACHE_MAX_ENTRIES \<le> length d then tl d else d)
      in c\<lparr>cc_archive := AList.update sid (prompt, hits) room\<rparr>)"

text \<open>The archives for a prompt; \<open>found\<close> is what the search answers, \<^const>\<open>None\<close> where it raises.\<close>

definition archives_for ::
    "string \<Rightarrow> string \<Rightarrow> archive_hits option \<Rightarrow> engine_caches \<Rightarrow> archive_hits \<times> engine_caches" where
  "archives_for sid prompt found c =
     (case map_of (cc_archive c) sid of
        Some (p, hits) \<Rightarrow>
          if p = prompt then (hits, c)
          else (case found of None \<Rightarrow> ([], c) | Some xs \<Rightarrow> (xs, remember_archives sid prompt xs c))
      | None \<Rightarrow> (case found of None \<Rightarrow> ([], c) | Some xs \<Rightarrow> (xs, remember_archives sid prompt xs c)))"

text \<open>When a turn is over, the archives of the session are forgotten.\<close>

definition after_turn :: "string \<Rightarrow> engine_caches \<Rightarrow> engine_caches" where
  "after_turn sid c = c\<lparr>cc_archive := AList.delete sid (cc_archive c)\<rparr>"

subsection \<open>The assembly of a turn\<close>

record memory_settings =
  mt_l2_quota :: int
  mt_l3_quota :: int
  mt_archive_enabled :: bool
  mt_archive_max :: int
  mt_archive_min :: rat

text \<open>
  The memories of a turn, as they are searched: \<open>X\<close> finds words, or the search raises; \<open>nearest\<close> finds the
  vectors near the prompt, or raises.
\<close>

record recall =
  rc_fts :: "fts option"
  rc_nearest :: "string \<Rightarrow> (nat \<Rightarrow> (string \<times> rat) list) option"

definition search_memories ::
    "recall \<Rightarrow> memory_settings \<Rightarrow> rat \<Rightarrow> string \<Rightarrow> memories \<Rightarrow> memory_entry list \<times> memories" where
  "search_memories rc cfg now prompt m =
     (case rc_fts rc of
        None \<Rightarrow> ([], m)
      | Some X \<Rightarrow>
          let (es, db) = sqlite_search X prompt (Some [''L2'', ''L3'']) 10
                           (Some [(''L2'', mt_l2_quota cfg), (''L3'', mt_l3_quota cfg)]) now (me_db m)
          in (es, m\<lparr>me_db := db\<rparr>))"

definition section_lines :: "string \<Rightarrow> ('a \<Rightarrow> string) \<Rightarrow> 'a list \<Rightarrow> string list" where
  "section_lines tag line xs =
     (if xs = [] then [] else [''<'' @ tag @ ''>''] @ map line xs @ [''</'' @ tag @ ''>''])"

definition fact_line :: "memory_entry \<Rightarrow> string" where
  "fact_line e = ''- ['' @ mem_type e @ ''] '' @ mem_content e"

definition procedure_line :: "memory_entry \<Rightarrow> string" where
  "procedure_line e = ''- ['' @ mem_type e @ ''|'' @ take 8 (mem_id e) @ ''] '' @ mem_content e"

definition archive_line :: "(rat \<Rightarrow> string) \<Rightarrow> archive \<times> rat \<times> rat \<Rightarrow> string" where
  "archive_line sim_text hit =
     (let (a, d, sim) = hit
      in ''- [session='' @ take 12 (after_colon (av_session a)) @ ''|sim='' @ sim_text sim @ ''] '' @ av_summary a)"

definition format_memory_context :: "(rat \<Rightarrow> string) \<Rightarrow> memory_entry list \<Rightarrow> archive_hits \<Rightarrow> string option" where
  "format_memory_context sim_text l2l3 archives =
     (let l2 = filter (\<lambda>e. mem_layer e = ''L2'') l2l3; l3 = filter (\<lambda>e. mem_layer e = ''L3'') l2l3
      in if l2 = [] \<and> l3 = [] \<and> archives = [] then None
         else Some (py_join nl
           ([''<memory_context>''] @ section_lines ''facts'' fact_line l2
            @ section_lines ''procedures'' procedure_line l3
            @ section_lines ''archives'' (archive_line sim_text) archives @ [''</memory_context>''])))"

definition archives_of_turn ::
    "recall \<Rightarrow> memory_settings \<Rightarrow> string \<Rightarrow> string \<Rightarrow> memories \<Rightarrow> engine_caches \<Rightarrow> archive_hits \<times> engine_caches" where
  "archives_of_turn rc cfg sid prompt m c =
     (if \<not> mt_archive_enabled cfg then ([], c)
      else archives_for sid prompt
             (map_option (\<lambda>near. search_archives near (mt_archive_max cfg) (mt_archive_min cfg) (me_db m))
                (rc_nearest rc prompt)) c)"

definition assemble ::
    "(rat \<Rightarrow> string) \<Rightarrow> recall \<Rightarrow> memory_settings \<Rightarrow> rat \<Rightarrow> string \<Rightarrow> 'm list \<Rightarrow> string option
       \<Rightarrow> memories option \<times> engine_caches \<Rightarrow> ('m list \<times> string option) \<times> memories option \<times> engine_caches" where
  "assemble sim_text rc cfg now sid messages prompt st =
     (case st of
        (Some m, c) \<Rightarrow>
          if opt_truthy prompt then
            let (l2l3, m') = search_memories rc cfg now (the prompt) m;
                (archives, c') = archives_of_turn rc cfg sid (the prompt) m' c
            in ((messages, format_memory_context sim_text l2l3 archives), Some m', c')
          else ((messages, None), Some m, c)
      | (None, c) \<Rightarrow> ((messages, None), None, c))"

text \<open>The calls that touch the caches, with what the stores answer at that moment.\<close>

datatype context_call =
    AskBootstrap "string \<Rightarrow> string + string" string
  | AskIndex "string \<Rightarrow> memory_entry list option" string
  | AskArchives string string "archive_hits option"
  | TurnOver string

fun context_step :: "context_call \<Rightarrow> engine_caches \<Rightarrow> engine_caches" where
  "context_step (AskBootstrap read sid) c = snd (get_bootstrap (Some read) sid c)"
| "context_step (AskIndex look sid) c = snd (get_l1_snapshot (Some look) sid c)"
| "context_step (AskArchives sid prompt found) c = snd (archives_for sid prompt found c)"
| "context_step (TurnOver sid) c = after_turn sid c"

subsection \<open>Frozen texts\<close>

lemma context_step_keeps:
  "map_of (cc_bootstrap c) \<subseteq>\<^sub>m map_of (cc_bootstrap (context_step k c))"
  "map_of (cc_l1 c) \<subseteq>\<^sub>m map_of (cc_l1 (context_step k c))"
  by (cases k; auto simp: get_bootstrap_def get_l1_snapshot_def archives_for_def remember_archives_def after_turn_def Let_def
        map_le_def domIff update_conv' split: option.splits sum.splits prod.splits)+

lemma context_steps_keep:
  "map_of (cc_bootstrap c) \<subseteq>\<^sub>m map_of (cc_bootstrap (fold context_step ks c))
   \<and> map_of (cc_l1 c) \<subseteq>\<^sub>m map_of (cc_l1 (fold context_step ks c))"
proof (induction ks arbitrary: c)
  case (Cons k ks)
  show ?case using context_step_keeps [of c k] Cons.IH [of "context_step k c"] by (auto intro: map_le_trans)
qed simp

lemma map_le_Some: "f \<subseteq>\<^sub>m g \<Longrightarrow> f x = Some y \<Longrightarrow> g x = Some y"
  by (metis domI map_le_def)

text \<open>
  Property C35.  Frozen texts.  Once a session has seen its bootstrap text and its snapshot of the
  index, it sees the same ones ever after, whatever the sessions ask in between and whatever the
  stores would answer now; so the prefix of the prompt that is built of them stays the same.
\<close>

theorem frozen_texts_are_stable:
  assumes "get_bootstrap (Some read) sid c = (Inr tx, c1)"
    and "get_l1_snapshot (Some look) sid c1 = (es, c2)"
  shows "fst (get_bootstrap (Some read') sid (fold context_step calls c2)) = Inr tx
     \<and> fst (get_l1_snapshot (Some look') sid (fold context_step calls c2)) = es"
proof -
  let ?c = "fold context_step calls c2"
  obtain raw where raw: "map_of (cc_bootstrap c1) (derive_workspace_id sid) = Some raw" "tx = non_empty raw"
    using assms(1) by (auto simp: get_bootstrap_def Let_def split: option.splits sum.splits)
  have "map_of (cc_bootstrap c1) \<subseteq>\<^sub>m map_of (cc_bootstrap c2)"
    using context_step_keeps(1) [of c1 "AskIndex look sid"] assms(2) by simp
  then have "map_of (cc_bootstrap ?c) (derive_workspace_id sid) = Some raw"
    using raw(1) context_steps_keep [of c2 calls] by (blast intro: map_le_Some)
  moreover have "map_of (cc_l1 c2) sid = Some es"
    using assms(2) by (auto simp: get_l1_snapshot_def Let_def split: option.splits)
  then have "map_of (cc_l1 ?c) sid = Some es"
    using context_steps_keep [of c2 calls] by (blast intro: map_le_Some)
  ultimately show ?thesis using raw(2) by (simp add: get_bootstrap_def get_l1_snapshot_def Let_def)
qed

theorem frozen_texts_are_stable_witness:
  "fst (get_bootstrap (Some (\<lambda>_. Inl ''gone'')) ''web:ann:c''
     (fold context_step [AskIndex (\<lambda>_. None) ''web:bob:d'', AskArchives ''web:ann:c'' ''hi'' (Some [])]
        (snd (get_l1_snapshot (Some (\<lambda>_. None)) ''web:ann:c''
           (snd (get_bootstrap (Some (\<lambda>_. Inr ''be kind'')) ''web:ann:c'' no_caches)))))) = Inr (Some ''be kind'')"
proof -
  let ?b = "get_bootstrap (Some (\<lambda>_. Inr ''be kind'')) ''web:ann:c'' no_caches"
  have b: "?b = (Inr (Some ''be kind''), snd ?b)"
    by (simp add: get_bootstrap_def no_caches_def non_empty_def Let_def)
  show ?thesis
    using frozen_texts_are_stable [OF b prod.collapse [symmetric], of "\<lambda>_. Inl ''gone''"
        "[AskIndex (\<lambda>_. None) ''web:bob:d'', AskArchives ''web:ann:c'' ''hi'' (Some [])]" "\<lambda>_. None"] by blast
qed

text \<open>An index that could not be read once is taken for an empty one as long as the engine lives.\<close>

lemma failed_snapshot_is_kept:
  assumes "map_of (cc_l1 c) sid = None" and "look (derive_session_key sid) = None"
  shows "fst (get_l1_snapshot (Some look') sid (snd (get_l1_snapshot (Some look) sid c))) = []"
  using assms by (simp add: get_l1_snapshot_def Let_def)

text \<open>
  On the web the files are asked for under the id of the conversation, not under the folder of the
  user that the tools work in.
\<close>

lemma web_bootstrap_misses_the_user_folder:
  assumes "web_session_id user conv = Some sid" and "\<not> starts_with ''web:'' conv" and "py_find '':s:'' sid = None"
  shows "derive_workspace_id sid \<noteq> ''web_'' @ user"
proof
  assume "derive_workspace_id sid = ''web_'' @ user"
  then have "length (derive_workspace_id sid) = length (''web_'' @ user)" by (rule arg_cong)
  with assms show False
    by (auto simp: web_session_id_def derive_workspace_id_def derive_session_key_def replace_char_def split: if_splits)
qed

subsection \<open>The cache of archives\<close>

definition caches_ok :: "int \<Rightarrow> engine_caches \<Rightarrow> bool" where
  "caches_ok n c \<longleftrightarrow> length (cc_archive c) \<le> ARCHIVE_CACHE_MAX_ENTRIES \<and> distinct (map fst (cc_archive c))
     \<and> (\<forall>(sid, prompt, hits) \<in> set (cc_archive c). int (length hits) \<le> n)"

lemma update_bounds:
  "length (AList.update k v d) \<le> Suc (length d)"
  "k \<in> fst ` set d \<Longrightarrow> length (AList.update k v d) = length d"
  by (induction d) auto

lemma set_update_subset: "set (AList.update k v d) \<subseteq> insert (k, v) (set d)"
  by (induction d) auto

lemma remember_archives_ok:
  assumes "caches_ok n c" "int (length hits) \<le> n"
  shows "caches_ok n (remember_archives sid prompt hits c)"
proof -
  define room where "room = (if ARCHIVE_CACHE_MAX_ENTRIES \<le> length (cc_archive c) then tl (cc_archive c) else cc_archive c)"
  have "set (tl (cc_archive c)) \<subseteq> set (cc_archive c)" by (cases "cc_archive c") auto
  then have room: "length room < ARCHIVE_CACHE_MAX_ENTRIES" "distinct (map fst room)" "set room \<subseteq> set (cc_archive c)"
    using assms(1) by (auto simp: room_def caches_ok_def ARCHIVE_CACHE_MAX_ENTRIES_def map_tl distinct_tl)
  have c: "cc_archive (remember_archives sid prompt hits c) = AList.update sid (prompt, hits) room"
    by (simp add: remember_archives_def room_def Let_def)
  have "length (AList.update sid (prompt, hits) room) \<le> ARCHIVE_CACHE_MAX_ENTRIES"
    using update_bounds(1) [of sid "(prompt, hits)" room] room(1) by linarith
  moreover have "\<forall>(s, p, h) \<in> set (AList.update sid (prompt, hits) room). int (length h) \<le> n"
    using set_update_subset [of sid "(prompt, hits)" room] room(3) assms by (fastforce simp: caches_ok_def)
  ultimately show ?thesis
    unfolding caches_ok_def c using room(2) by (simp add: distinct_update)
qed

lemma archives_for_ok:
  assumes "caches_ok n c" "\<forall>xs. found = Some xs \<longrightarrow> int (length xs) \<le> n" "0 \<le> n" "archives_for sid prompt found c = (hits, c')"
  shows "caches_ok n c' \<and> int (length hits) \<le> n"
proof (cases "map_of (cc_archive c) sid")
  case None
  with assms show ?thesis by (cases found) (auto simp: archives_for_def remember_archives_ok)
next
  case (Some ph)
  obtain p h where ph: "ph = (p, h)" by fastforce
  have "int (length h) \<le> n"
    using assms(1) map_of_SomeD [OF Some] by (auto simp: caches_ok_def ph)
  with Some assms show ?thesis
    by (cases found) (auto simp: archives_for_def ph remember_archives_ok split: if_splits)
qed

text \<open>
  Within a turn the archives for a prompt are searched once; the next turn searches anew.
\<close>

lemma archives_of_one_turn:
  assumes "archives_for sid prompt (Some xs) c = (hits, c')" and "map_of (cc_archive c) sid = None"
  shows "fst (archives_for sid prompt found c') = xs"
    "archives_for sid prompt found (after_turn sid c') =
       (case found of None \<Rightarrow> ([], after_turn sid c') | Some ys \<Rightarrow> (ys, remember_archives sid prompt ys (after_turn sid c')))"
  using assms
  by (auto simp: archives_for_def remember_archives_def after_turn_def Let_def map_of_delete split: option.splits)

lemma after_turn_ok: "caches_ok n c \<Longrightarrow> caches_ok n (after_turn sid c)"
proof -
  assume ok: "caches_ok n c"
  have "set (AList.delete sid d) \<subseteq> set d" "length (AList.delete sid d) \<le> length d" for d :: "(string \<times> string \<times> archive_hits) list"
    by (auto simp: AList.delete_eq)
  then show ?thesis
    using ok by (fastforce simp: caches_ok_def after_turn_def distinct_delete intro: le_trans)
qed

lemma length_matching: "0 \<le> n \<Longrightarrow> int (length (matching X query mem ok n rows)) \<le> n"
proof -
  assume n: "0 \<le> n"
  then have "int (length (sql_limit n xs)) \<le> n" for xs :: "'a list" by (auto simp: sql_limit_def min_def le_nat_iff)
  then show ?thesis using n by (simp add: matching_def split: option.split)
qed

text \<open>
  What a turn is given.  The assembly leaves the messages as they are and adds the
  memories that fit the prompt: never more facts and procedures than their quotas allow together,
  nor more archives than the settings say.  The cache of archives stays within two hundred
  sessions, each of them once.  Without a store or a prompt nothing is added and nothing touched.
\<close>

theorem assembled_memories_are_bounded:
  assumes "0 \<le> mt_l2_quota cfg" and "0 \<le> mt_l3_quota cfg" and "0 \<le> mt_archive_max cfg"
    and "caches_ok (mt_archive_max cfg) c"
    and "assemble sim_text rc cfg now sid messages prompt (store, c) = ((messages', addition), store', c')"
  shows "messages' = messages \<and> caches_ok (mt_archive_max cfg) c'
     \<and> (store = None \<or> \<not> opt_truthy prompt \<longrightarrow> addition = None \<and> store' = store \<and> c' = c)
     \<and> (\<exists>memories archives. addition = format_memory_context sim_text memories archives
          \<and> int (length memories) \<le> mt_l2_quota cfg + mt_l3_quota cfg
          \<and> int (length archives) \<le> mt_archive_max cfg)"
proof (cases "store = None \<or> \<not> opt_truthy prompt")
  case True
  with assms show ?thesis
    by (auto simp: assemble_def format_memory_context_def split: option.splits intro!: exI [of _ "[]"])
next
  case False
  then obtain m where m: "store = Some m" "opt_truthy prompt" by auto
  obtain es m1 where s: "search_memories rc cfg now (the prompt) m = (es, m1)" by fastforce
  obtain hits c1 where a: "archives_of_turn rc cfg sid (the prompt) m1 c = (hits, c1)" by fastforce
  have r: "messages' = messages" "addition = format_memory_context sim_text es hits" "c' = c1"
    using assms(5) m s a by (auto simp: assemble_def)
  have e: "int (length es) \<le> mt_l2_quota cfg + mt_l3_quota cfg"
  proof (cases "rc_fts rc")
    case None
    with s assms(1,2) show ?thesis by (simp add: search_memories_def)
  next
    case (Some X)
    let ?f = "matching X (the prompt) ft_mem (\<lambda>_. True) (mt_l2_quota cfg) (db_facts (me_db m))"
    let ?p = "matching X (the prompt) sp_mem sp_active (mt_l3_quota cfg) (db_sops (me_db m))"
    have "length es = length ?f + length ?p"
      using s Some by (auto simp: search_memories_def sqlite_search_def search_procedures_def layer_limit_def Let_def)
    then show ?thesis
      using length_matching [OF assms(1), of X "the prompt" ft_mem "\<lambda>_. True" "db_facts (me_db m)"]
        length_matching [OF assms(2), of X "the prompt" sp_mem sp_active "db_sops (me_db m)"] by linarith
  qed
  have "caches_ok (mt_archive_max cfg) c1 \<and> int (length hits) \<le> mt_archive_max cfg"
  proof (cases "mt_archive_enabled cfg")
    case False
    with a assms(3,4) show ?thesis by (simp add: archives_of_turn_def)
  next
    case True
    with a have "archives_for sid (the prompt) (map_option (\<lambda>near. search_archives near (mt_archive_max cfg)
        (mt_archive_min cfg) (me_db m1)) (rc_nearest rc (the prompt))) c = (hits, c1)"
      by (simp add: archives_of_turn_def)
    note found = archives_for_ok [OF assms(4) _ assms(3) this]
    have "int (length (search_archives near (mt_archive_max cfg) x db)) \<le> mt_archive_max cfg" for near x db
      by (simp add: search_archives_def Let_def length_py_take assms(3))
    then show ?thesis by (intro found) auto
  qed
  with r e False show ?thesis by blast
qed

definition demo_recall :: recall where
  "demo_recall = \<lparr>rc_fts = None, rc_nearest = (\<lambda>_. Some (\<lambda>k. [(''a1'', 1 / 4)]))\<rparr>"

definition demo_memory_settings :: memory_settings where
  "demo_memory_settings = \<lparr>mt_l2_quota = 3, mt_l3_quota = 2, mt_archive_enabled = True, mt_archive_max = 5, mt_archive_min = 1 / 2\<rparr>"

theorem assembled_memories_are_bounded_witness:
  "\<exists>tx store' c'. assemble (\<lambda>_. ''0.75'') demo_recall demo_memory_settings 9 ''web:ann:c'' [''hi''] (Some ''deploy'')
       (Some (demo_stored\<lparr>me_db := sqlite_archive_session ''a1'' 3 ''web:ann'' ''web:ann:b'' ''we deployed'' (me_db demo_stored)\<rparr>), no_caches)
     = (([''hi''], Some tx), store', c') \<and> length (cc_archive c') \<le> 200"
proof -
  let ?m = "demo_stored\<lparr>me_db := sqlite_archive_session ''a1'' 3 ''web:ann'' ''web:ann:b'' ''we deployed'' (me_db demo_stored)\<rparr>"
  let ?a = "assemble (\<lambda>_. ''0.75'') demo_recall demo_memory_settings 9 ''web:ann:c'' [''hi''] (Some ''deploy'') (Some ?m, no_caches)"
  obtain ms add store' c' where a: "?a = ((ms, add), store', c')" by (metis surj_pair)
  have q: "0 \<le> mt_l2_quota demo_memory_settings" "0 \<le> mt_l3_quota demo_memory_settings" "0 \<le> mt_archive_max demo_memory_settings"
    "caches_ok (mt_archive_max demo_memory_settings) no_caches"
    by (simp_all add: demo_memory_settings_def caches_ok_def no_caches_def)
  have "snd (fst ?a) \<noteq> None" by code_simp
  with a have "add \<noteq> None" by simp
  with assembled_memories_are_bounded [OF q a] a show ?thesis
    by (auto simp: caches_ok_def ARCHIVE_CACHE_MAX_ENTRIES_def)
qed

subsection \<open>Files of a workspace and the prompt\<close>

text \<open>
  A bootstrap file.  A text that is put into a workspace in Redis is the bootstrap text
  of the workspace, as it was put, if it is not blank and the only file asked for; the bootstrap
  text of every other workspace is the same as before.
\<close>

theorem redis_bootstrap_roundtrip:
  assumes "redis_data_ok R" and "CHR '':'' \<notin> set ws" and "redis_put_file R pre ws f c r = (Inr (), r')"
  shows "(py_strip c \<noteq> [] \<longrightarrow> load_bootstrap_context (redis_get_file R pre) ws [f] r' = Inr c)
     \<and> (\<forall>ws' fs. CHR '':'' \<notin> set ws' \<and> ws' \<noteq> ws \<longrightarrow>
          load_bootstrap_context (redis_get_file R pre) ws' fs r' = load_bootstrap_context (redis_get_file R pre) ws' fs r)"
  using redis_ws.bootstrap_of_file [OF assms(1,2) _ assms(3)]
    redis_ws.bootstrap_of_others [OF assms(1,2) _ _ assms(3)] by blast

theorem redis_bootstrap_roundtrip_witness:
  "load_bootstrap_context (redis_get_file demo_server ''pyclaw:'') ''web_ann'' [''AGENTS.md'']
     (snd (redis_put_file demo_server ''pyclaw:'' ''web_ann'' ''AGENTS.md'' ''be kind'' demo_empty)) = Inr ''be kind''"
proof -
  have p: "redis_put_file demo_server ''pyclaw:'' ''web_ann'' ''AGENTS.md'' ''be kind'' demo_empty
      = (Inr (), snd (redis_put_file demo_server ''pyclaw:'' ''web_ann'' ''AGENTS.md'' ''be kind'' demo_empty))"
    by (simp add: redis_put_file_def)
  have "py_strip ''be kind'' \<noteq> []" by code_simp
  with redis_bootstrap_roundtrip [OF demo_data_ok _ p] show ?thesis by simp
qed

end
