(* ===== verification/Export.thy ===== *)
theory Export
  imports FileTools SessionCommands AdminCommands
begin

section \<open>Exporting a session\<close>

text \<open>
  \<^verbatim>\<open>core/session_export.py\<close> and \<^verbatim>\<open>cmd_export\<close> of \<^verbatim>\<open>core/commands/builtin.py\<close>: the session as markdown, the
  cut at a number of bytes, the file in the workspace and the check that it stays there.  The JSON
  text is an argument, the long dash of the headings is written as a hyphen and the ellipsis as three
  dots.  \<^verbatim>\<open>json.dumps\<close> of an optional dictionary is an argument too.
\<close>

subsection \<open>Markdown\<close>

definition IMAGE_DATA_PREVIEW :: nat where "IMAGE_DATA_PREVIEW = 256"

definition format_content :: "content \<Rightarrow> string" where
  "format_content c =
     (case c of
        CText s \<Rightarrow> s
      | CBlocks bs \<Rightarrow>
          py_join nl (map (\<lambda>b. case b of
             ImageBlock d mime \<Rightarrow> ''[image: '' @ mime @ '', '' @ take IMAGE_DATA_PREVIEW d @ ''...]''
           | TextBlock tx \<Rightarrow> tx) bs))"

text \<open>\<^verbatim>\<open>str.splitlines\<close>: the line boundaries below 256; \<^verbatim>\<open>\r\n\<close> is one.\<close>

function splitlines :: "string \<Rightarrow> string list" where
  "splitlines s =
     (if s = [] then []
      else takeWhile (\<lambda>c. \<not> line_end c) s #
           (case dropWhile (\<lambda>c. \<not> line_end c) s of
              [] \<Rightarrow> []
            | c # cs \<Rightarrow> splitlines (if c = CHR 0x0D \<and> cs \<noteq> [] \<and> hd cs = CHR 0x0A then tl cs else cs)))"
  by pat_completeness auto
termination
proof (relation "measure length")
  fix s :: string and c cs
  assume "dropWhile (\<lambda>c. \<not> line_end c) s = c # cs"
  then have "length (c # cs) \<le> length s" by (metis length_dropWhile_le)
  then show "(if c = CHR 0x0D \<and> cs \<noteq> [] \<and> hd cs = CHR 0x0A then tl cs else cs, s) \<in> measure length"
    by (auto simp: less_Suc_eq_le)
qed simp

declare splitlines.simps [simp del]

definition indent_lines :: "nat \<Rightarrow> string \<Rightarrow> string" where
  "indent_lines n tx = py_join nl (map (\<lambda>l. replicate n CHR '' '' @ l) (splitlines tx))"

definition upper_role :: "role \<Rightarrow> string" where
  "upper_role r = (case r of RUser \<Rightarrow> ''USER'' | RAssistant \<Rightarrow> ''ASSISTANT'' | RTool \<Rightarrow> ''TOOL'')"

definition heading :: "string \<Rightarrow> session_entry \<Rightarrow> string" where
  "heading label e = ''## '' @ label @ '' - `'' @ entry_id e @ ''` ('' @ timestamp e @ '')''"

text \<open>
  The result of a tool by the id of its call: the last one on the branch.  \<open>show_json\<close> is
  \<^verbatim>\<open>json.dumps\<close>; an id or a name that is not a text is printed by \<open>show_py\<close>.
\<close>

definition tool_responses :: "session_entry list \<Rightarrow> (string \<times> session_entry) list" where
  "tool_responses branch =
     fold (\<lambda>e d. if is_message e \<and> me_role (body e) = RTool \<and> opt_truthy (me_tool_call_id (body e))
                 then AList.update (the (me_tool_call_id (body e))) e d else d) branch []"

definition call_lines ::
    "(json \<Rightarrow> string) \<Rightarrow> (json \<Rightarrow> string) \<Rightarrow> (string \<times> session_entry) list \<Rightarrow> jobj \<Rightarrow> string list" where
  "call_lines show_json show_py responses tc =
     (let tc_id = jget_or (JStr []) ''id'' tc;
          fn = (if truthy (jget ''function'' tc) then as_obj (jget ''function'' tc) else []);
          n = jget_or (JStr []) ''name'' fn;
          args = (case jget ''arguments'' fn of JStr s \<Rightarrow> s | v \<Rightarrow> show_json v);
          shown = (\<lambda>v. case v of JStr s \<Rightarrow> s | _ \<Rightarrow> show_py v)
      in [''- `'' @ shown n @ ''` (id=`'' @ shown tc_id @ ''`)'', ''  - args: `'' @ args @ ''`'']
         @ (case (case tc_id of JStr s \<Rightarrow> map_of responses s | _ \<Rightarrow> None) of
              None \<Rightarrow> []
            | Some e \<Rightarrow> [''  - result:'', indent_lines 4 (format_content (me_content (body e)))]))"

definition render_message ::
    "(json \<Rightarrow> string) \<Rightarrow> (json \<Rightarrow> string) \<Rightarrow> (string \<times> session_entry) list \<Rightarrow> session_entry \<Rightarrow> string list" where
  "render_message show_json show_py responses e =
     (let label = upper_role (me_role (body e)) @ (if me_partial (body e) then '' (interrupted)'' else []);
          calls = (case me_tool_calls (body e) of None \<Rightarrow> [] | Some tcs \<Rightarrow> tcs)
      in [heading label e, [], format_content (me_content (body e))]
         @ (if calls = [] then []
            else [[], ''**Tool calls**:''] @ concat (map (call_lines show_json show_py responses) calls)))"

definition render_entry ::
    "(json \<Rightarrow> string) \<Rightarrow> (json \<Rightarrow> string) \<Rightarrow> (string \<times> session_entry) list \<Rightarrow> session_entry \<Rightarrow> string list" where
  "render_entry show_json show_py responses e =
     (case body e of
        MessageEntry r _ _ _ _ \<Rightarrow> if r = RTool then [] else render_message show_json show_py responses e @ [[]]
      | CompactionEntry s first n _ \<Rightarrow>
          [heading ''COMPACTION'' e, [], ''- Tokens before: '' @ show_int n, ''- First kept entry: `'' @ first @ ''`'', [],
           ''**Summary**:'', [], s, []]
      | ModelChangeEntry p m \<Rightarrow>
          [heading ''MODEL_CHANGE'' e, [], ''- Provider: `'' @ p @ ''`'', ''- Model: `'' @ m @ ''`'', []]
      | CustomEntry ty d \<Rightarrow>
          [heading ''CUSTOM'' e, [], ''- Custom type: `'' @ ty @ ''`'', [], ''```json'',
           show_json (JObj (case d of None \<Rightarrow> [] | Some o' \<Rightarrow> o')), ''```'', []])"

definition header_lines :: "session_header \<Rightarrow> string list" where
  "header_lines h =
     [''# Session `'' @ hdr_id h @ ''`'', [], ''- Workspace: `'' @ workspace_id h @ ''`'',
      ''- Agent: `'' @ agent_id h @ ''`'', ''- Created: '' @ created_at h]
     @ (if opt_truthy (parent_session h) then [''- Parent session: `'' @ the (parent_session h) @ ''`''] else [])
     @ (if opt_truthy (model_override h) then [''- Model override: `'' @ the (model_override h) @ ''`''] else [])
     @ [[]]"

definition markdown_lines :: "(json \<Rightarrow> string) \<Rightarrow> (json \<Rightarrow> string) \<Rightarrow> session_header \<Rightarrow> session_entry list \<Rightarrow> string list" where
  "markdown_lines show_json show_py h branch =
     header_lines h @ concat (map (render_entry show_json show_py (tool_responses branch)) branch)"

definition render_session_markdown ::
    "(json \<Rightarrow> string) \<Rightarrow> (json \<Rightarrow> string) \<Rightarrow> session_tree \<Rightarrow> string option" where
  "render_session_markdown show_json show_py t =
     map_option (\<lambda>branch.
        rev (dropWhile py_space (rev (py_join nl (markdown_lines show_json show_py (header t) branch)))) @ nl)
       (get_branch t None)"

subsection \<open>The cut at a number of bytes\<close>

text \<open>A code point below 128 takes one byte in UTF-8, one below 256 two; a character that is cut in half is dropped.\<close>

definition utf8_size :: "char \<Rightarrow> nat" where
  "utf8_size c = (if (of_char c :: nat) < 128 then 1 else 2)"

definition utf8_length :: "string \<Rightarrow> nat" where
  "utf8_length s = sum_list (map utf8_size s)"

fun utf8_take :: "nat \<Rightarrow> string \<Rightarrow> string" where
  "utf8_take n [] = []"
| "utf8_take n (c # s) = (if utf8_size c \<le> n then c # utf8_take (n - utf8_size c) s else [])"

definition truncate_utf8_bytes :: "string \<Rightarrow> nat \<Rightarrow> string" where
  "truncate_utf8_bytes s max_bytes =
     (if utf8_length s \<le> max_bytes then s
      else utf8_take max_bytes s @ nl @ nl @ ''...(truncated)'')"

subsection \<open>The command\<close>

definition path_is_under :: "path \<Rightarrow> path \<Rightarrow> bool" where
  "path_is_under child parent = starts_with parent child"

datatype export_reply =
    ExportNoSession
  | ExportInline string
  | ExportsFolderEscapes path path
  | ExportEscapes path
  | Exported path

text \<open>
  The files the command works on: \<^verbatim>\<open>mkdir\<close> and \<^verbatim>\<open>unlink\<close> beside the operations of the file tools.  \<open>stamp\<close>
  is the random part and the time in the name of the file.  \<^const>\<open>None\<close> is a handler that raises, or
  that does not return because the tree has a cycle.
\<close>

record 'f export_fs =
  xf_fs :: "'f fs"
  xf_mkdir :: "path \<Rightarrow> 'f \<Rightarrow> 'f option"
  xf_unlink :: "path \<Rightarrow> 'f \<Rightarrow> 'f"

definition export_file ::
    "'f export_fs \<Rightarrow> path \<Rightarrow> string \<Rightarrow> string \<Rightarrow> 'f \<Rightarrow> (export_reply \<times> 'f) option" where
  "export_file X workspace file_name rendered f =
     (let F = xf_fs X; exports = workspace @ [''exports''] in
      case xf_mkdir X exports f of
        None \<Rightarrow> None
      | Some f1 \<Rightarrow>
          let root = fs_real F workspace f1; exports_real = fs_real F exports f1
          in if \<not> path_is_under exports_real root then Some (ExportsFolderEscapes exports_real root, f1)
             else
               let target = exports @ [file_name]
               in case fs_write_text F target rendered f1 of
                    (Inl _, f2) \<Rightarrow> None
                  | (Inr _, f2) \<Rightarrow>
                      let resolved = fs_real F target f2
                      in if \<not> path_is_under resolved root then Some (ExportEscapes resolved, xf_unlink X target f2)
                         else Some (Exported (drop (length root) resolved), f2))"

definition cmd_export ::
    "'s session_ops \<Rightarrow> (session_tree \<Rightarrow> string) \<Rightarrow> (json \<Rightarrow> string) \<Rightarrow> (json \<Rightarrow> string) \<Rightarrow> 'f export_fs
       \<Rightarrow> path \<Rightarrow> string \<Rightarrow> string \<Rightarrow> string \<Rightarrow> 's \<Rightarrow> 'f
       \<Rightarrow> store_error + (export_reply \<times> 'f) option" where
  "cmd_export ops tree_json show_json show_py X workspace stamp sid args s f =
     (let tokens = words_of (py_lower args);
          json = (''json'' \<in> set tokens)
      in try_bind (so_load (sx_base ops) sid s) (\<lambda>tree. Inr (case tree of
           None \<Rightarrow> Some (ExportNoSession, f)
         | Some t \<Rightarrow>
             (case (if json then Some (tree_json t) else render_session_markdown show_json show_py t) of
                None \<Rightarrow> None
              | Some rendered \<Rightarrow>
                  if ''inline'' \<in> set tokens then Some (ExportInline (truncate_utf8_bytes rendered 8192), f)
                  else export_file X workspace (''session-'' @ stamp @ (if json then ''.json'' else ''.md'')) rendered f))))"

subsection \<open>What an export guarantees\<close>

lemma utf8_length_simps [simp]:
  "utf8_length [] = 0" "utf8_length (c # s) = utf8_size c + utf8_length s"
  "utf8_length (a @ b) = utf8_length a + utf8_length b"
  by (simp_all add: utf8_length_def)

lemma utf8_take_spec:
  "utf8_length (utf8_take n s) \<le> n \<and> (\<exists>r. s = utf8_take n s @ r
     \<and> (r \<noteq> [] \<longrightarrow> n < utf8_length (utf8_take n s) + utf8_size (hd r)))"
proof (induction s arbitrary: n)
  case (Cons c s)
  show ?case
  proof (cases "utf8_size c \<le> n")
    case True
    from Cons.IH [of "n - utf8_size c"] obtain r where r: "s = utf8_take (n - utf8_size c) s @ r"
      "r \<noteq> [] \<longrightarrow> n - utf8_size c < utf8_length (utf8_take (n - utf8_size c) s) + utf8_size (hd r)"
      "utf8_length (utf8_take (n - utf8_size c) s) \<le> n - utf8_size c" by blast
    with True show ?thesis by (intro conjI exI [of _ r]) auto
  qed simp
qed simp

text \<open>
  The cut of an inline export.  A text that fits is sent as it is.  Of a longer one
  the longest beginning is sent that fits the bound in bytes and ends between two characters, and
  the mark of the cut after it.
\<close>

theorem inline_cut_is_exact:
  "if utf8_length s \<le> n then truncate_utf8_bytes s n = s
   else \<exists>a r. s = a @ r \<and> truncate_utf8_bytes s n = a @ nl @ nl @ ''...(truncated)''
          \<and> utf8_length a \<le> n \<and> r \<noteq> [] \<and> n < utf8_length a + utf8_size (hd r)"
proof (cases "utf8_length s \<le> n")
  case False
  from utf8_take_spec [of n s] obtain r where r: "s = utf8_take n s @ r" "utf8_length (utf8_take n s) \<le> n"
    "r \<noteq> [] \<longrightarrow> n < utf8_length (utf8_take n s) + utf8_size (hd r)" by blast
  moreover have "r \<noteq> []" using False r(1,2) by auto
  ultimately show ?thesis using False by (auto simp: truncate_utf8_bytes_def)
qed (simp add: truncate_utf8_bytes_def)

theorem inline_cut_is_exact_witness:
  "truncate_utf8_bytes (CHR ''a'' # [CHR 0xE9]) 2 = ''a'' @ nl @ nl @ ''...(truncated)''"
proof -
  have l: "\<not> utf8_length (CHR ''a'' # [CHR 0xE9]) \<le> 2" by code_simp
  from inline_cut_is_exact [of "CHR ''a'' # [CHR 0xE9]" 2] l obtain a r where
    "CHR ''a'' # [CHR 0xE9] = a @ r" "truncate_utf8_bytes (CHR ''a'' # [CHR 0xE9]) 2 = a @ nl @ nl @ ''...(truncated)''"
    "utf8_length a \<le> 2" "r \<noteq> []" "2 < utf8_length a + utf8_size (hd r)" by auto
  moreover have "utf8_size CHR ''a'' = 1" "utf8_size CHR 0xE9 = 2" by code_simp+
  ultimately show ?thesis by (auto simp: Cons_eq_append_conv)
qed

subsection \<open>What the markdown shows\<close>

lemma map_of_tool_responses:
  assumes "is_message e" "me_role (body e) = RTool" "me_tool_call_id (body e) = Some i" "i \<noteq> []"
    and "\<forall>e' \<in> set rest. \<not> (is_message e' \<and> me_role (body e') = RTool \<and> me_tool_call_id (body e') = Some i)"
  shows "map_of (tool_responses (before @ e # rest)) i = Some e"
proof -
  let ?f = "\<lambda>e d. if is_message e \<and> me_role (body e) = RTool \<and> opt_truthy (me_tool_call_id (body e))
                 then AList.update (the (me_tool_call_id (body e))) e d else d"
  have "map_of (fold ?f rest d) i = map_of d i" for d
    using assms(5)
  proof (induction rest arbitrary: d)
    case (Cons x xs)
    have "map_of (?f x d) i = map_of d i"
      using Cons.prems by (cases "me_tool_call_id (body x)") auto
    with Cons show ?case by simp
  qed simp
  then show ?thesis using assms(1-4) by (simp add: tool_responses_def)
qed

text \<open>
  The export is complete.  Every message of the user and of the model on the branch is
  shown with its heading and its whole text, and the result of a tool is shown, indented, whenever
  a call on the branch asked for it.
\<close>

theorem export_shows_the_conversation:
  assumes "get_branch t None = Some branch"
  shows "(\<forall>e \<in> set branch. talk e \<longrightarrow>
            (\<exists>label. heading label e \<in> set (markdown_lines show_json show_py (header t) branch))
            \<and> format_content (me_content (body e)) \<in> set (markdown_lines show_json show_py (header t) branch))
     \<and> (\<forall>before e rest i c tcs call. branch = before @ e # rest \<and> is_message e \<and> me_role (body e) = RTool
          \<and> me_tool_call_id (body e) = Some i \<and> i \<noteq> []
          \<and> (\<forall>e' \<in> set rest. \<not> (is_message e' \<and> me_role (body e') = RTool \<and> me_tool_call_id (body e') = Some i))
          \<and> c \<in> set branch \<and> talk c \<and> me_tool_calls (body c) = Some tcs \<and> call \<in> set tcs
          \<and> jget_or (JStr []) ''id'' call = JStr i
          \<longrightarrow> indent_lines 4 (format_content (me_content (body e))) \<in> set (markdown_lines show_json show_py (header t) branch))"
proof -
  let ?R = "tool_responses branch"
  have lines: "x \<in> set (markdown_lines show_json show_py (header t) branch)"
    if "e \<in> set branch" "x \<in> set (render_entry show_json show_py ?R e)" for x e
    using that by (auto simp: markdown_lines_def)
  have ent: "set (render_message show_json show_py ?R e) \<subseteq> set (render_entry show_json show_py ?R e)" if "talk e" for e
    using that by (auto simp: talk_def is_message_def render_entry_def split: entry_body.splits)
  have "(\<exists>label. heading label e \<in> set (markdown_lines show_json show_py (header t) branch))
      \<and> format_content (me_content (body e)) \<in> set (markdown_lines show_json show_py (header t) branch)"
    if e: "e \<in> set branch" "talk e" for e
  proof -
    have "\<exists>label. heading label e \<in> set (render_message show_json show_py ?R e)"
      "format_content (me_content (body e)) \<in> set (render_message show_json show_py ?R e)"
      by (auto simp: render_message_def Let_def)
    with ent [OF e(2)] lines [OF e(1)] show ?thesis by blast
  qed
  moreover have "indent_lines 4 (format_content (me_content (body e))) \<in> set (markdown_lines show_json show_py (header t) branch)"
    if b: "branch = before @ e # rest" "is_message e" "me_role (body e) = RTool"
        "me_tool_call_id (body e) = Some i" "i \<noteq> []"
        "\<forall>e' \<in> set rest. \<not> (is_message e' \<and> me_role (body e') = RTool \<and> me_tool_call_id (body e') = Some i)"
      and c: "c \<in> set branch" "talk c" "me_tool_calls (body c) = Some tcs" "call \<in> set tcs"
        "jget_or (JStr []) ''id'' call = JStr i"
    for before e rest i c tcs call
  proof -
    have "map_of ?R i = Some e" unfolding b(1) by (rule map_of_tool_responses [OF b(2-6)])
    then have "indent_lines 4 (format_content (me_content (body e))) \<in> set (call_lines show_json show_py ?R call)"
      using c(5) by (simp add: call_lines_def Let_def)
    moreover have "set (call_lines show_json show_py ?R call) \<subseteq> set (render_message show_json show_py ?R c)"
      using c(3,4) by (auto simp: render_message_def Let_def)
    ultimately show ?thesis using ent [OF c(2)] lines [OF c(1)] by blast
  qed
  ultimately show ?thesis by blast
qed

theorem export_shows_the_conversation_witness:
  "\<exists>branch. get_branch demo_tree None = Some branch
     \<and> ''ho'' \<in> set (markdown_lines (\<lambda>_. []) (\<lambda>_. []) (header demo_tree) branch)"
proof -
  let ?e = "SessionTree.demo_message ''e2'' (Some ''e1'') RAssistant ''ho''"
  have "map_option (map entry_id) (get_branch demo_tree None) = Some [''e1'', ''e2'']" by code_simp
  then obtain branch where b: "get_branch demo_tree None = Some branch" "map entry_id branch = [''e1'', ''e2'']" by auto
  from branch_subset [OF demo_tree_ok b(1)] b(2) have e: "?e \<in> set branch"
    by (auto simp: demo_tree_def SessionTree.demo_message_def map_eq_Cons_conv)
  have t: "talk ?e" "format_content (me_content (body ?e)) = ''ho''"
    by (simp_all add: talk_def is_message_def SessionTree.demo_message_def format_content_def)
  from bspec [OF conjunct1 [OF export_shows_the_conversation [OF b(1), of "\<lambda>_. []" "\<lambda>_. []"]] e] t(1)
  have "format_content (me_content (body ?e)) \<in> set (markdown_lines (\<lambda>_. []) (\<lambda>_. []) (header demo_tree) branch)"
    by blast
  with b(1) t(2) show ?thesis by simp
qed

subsection \<open>Where the file goes\<close>

text \<open>
  The behaviour of the files that is relied on: a write to a file changes no other file and makes no
  link, and making a folder changes no file.
\<close>

definition export_fs_ok :: "'f export_fs \<Rightarrow> bool" where
  "export_fs_ok X \<longleftrightarrow> fs_ok (xf_fs X)
     \<and> (\<forall>p q tx f. fs_real (xf_fs X) q (snd (fs_write_text (xf_fs X) p tx f)) = fs_real (xf_fs X) q f)
     \<and> (\<forall>p q f f'. xf_mkdir X p f = Some f' \<longrightarrow> fs_read (xf_fs X) q f' = fs_read (xf_fs X) q f)"

text \<open>
  An export stays in the workspace.  When the command reports a file, the file lies
  below the real folder of the workspace, and no file with another real path has changed.  When the
  folder of the exports leads out of the workspace, nothing is written.
\<close>

theorem export_stays_in_the_workspace:
  assumes "export_fs_ok X" and "export_file X workspace file_name rendered f = Some (reply, f')"
  shows "(\<forall>rel. reply = Exported rel \<longrightarrow>
            (\<exists>target f1. xf_mkdir X (workspace @ [''exports'']) f = Some f1
               \<and> fs_real (xf_fs X) target f' = fs_real (xf_fs X) workspace f1 @ rel
               \<and> (\<forall>q. fs_real (xf_fs X) q f1 \<noteq> fs_real (xf_fs X) target f1 \<longrightarrow> fs_read (xf_fs X) q f' = fs_read (xf_fs X) q f)))
     \<and> (\<forall>a b q. reply = ExportsFolderEscapes a b \<longrightarrow> fs_read (xf_fs X) q f' = fs_read (xf_fs X) q f)"
proof -
  let ?F = "xf_fs X" and ?target = "workspace @ [''exports'', file_name]"
  obtain f1 where f1: "xf_mkdir X (workspace @ [''exports'']) f = Some f1"
    using assms(2) by (auto simp: export_file_def Let_def split: option.splits)
  have frame: "fs_real ?F q (snd (fs_write_text ?F p tx g)) = fs_real ?F q g"
    "fs_real ?F q g \<noteq> fs_real ?F p g \<Longrightarrow> fs_read ?F q (snd (fs_write_text ?F p tx g)) = fs_read ?F q g"
    "fs_read ?F q f1 = fs_read ?F q f" for q p tx g
    using assms(1) f1 unfolding export_fs_ok_def fs_ok_def by blast+
  obtain res f2 where w: "fs_write_text ?F ?target rendered f1 = (res, f2)" by fastforce
  let ?root = "fs_real ?F workspace f1"
  show ?thesis
  proof (cases "path_is_under (fs_real ?F (workspace @ [''exports'']) f1) ?root")
    case False
    with assms(2) f1 frame(3) show ?thesis by (auto simp: export_file_def Let_def)
  next
    case True
    show ?thesis
    proof (cases "isl res \<or> \<not> path_is_under (fs_real ?F ?target f2) ?root")
      case True': True
      with assms(2) f1 w True show ?thesis by (cases res) (auto simp: export_file_def Let_def)
    next
      case False
      then obtain rel where "fs_real ?F ?target f2 = ?root @ rel"
        by (auto simp: path_is_under_def starts_with_iff)
      moreover from False have "reply = Exported (drop (length ?root) (fs_real ?F ?target f2))" "f' = f2"
        using assms(2) f1 w True by (cases res; auto simp: export_file_def Let_def)+
      moreover have "fs_read ?F q f2 = fs_read ?F q f" if "fs_real ?F q f1 \<noteq> fs_real ?F ?target f1" for q
        using frame(2) [of q f1 ?target rendered] frame(3) [of q] that w by simp
      ultimately show ?thesis using f1 by auto
    qed
  qed
qed

definition demo_export_fs :: "small_fs export_fs" where
  "demo_export_fs = \<lparr>xf_fs = small_server, xf_mkdir = (\<lambda>p f. Some (f\<lparr>sf_dirs := p # sf_dirs f\<rparr>)), xf_unlink = (\<lambda>_ f. f)\<rparr>"

theorem export_stays_in_the_workspace_witness:
  "\<exists>f'. export_file demo_export_fs [''/'', ''ws''] ''session.md'' ''text'' plain_fs
      = Some (Exported [''exports'', ''session.md''], f')
     \<and> fs_read small_server [''/'', ''etc'', ''passwd''] f' = Inr ''root''"
proof -
  have ok: "export_fs_ok demo_export_fs"
    using small_fs_ok by (auto simp: export_fs_ok_def demo_export_fs_def small_server_def small_real_def)
  have "(case export_file demo_export_fs [''/'', ''ws''] ''session.md'' ''text'' plain_fs of
      Some (reply, f') \<Rightarrow> reply = Exported [''exports'', ''session.md'']
        \<and> fs_read small_server [''/'', ''etc'', ''passwd''] f' = Inr ''root'' | None \<Rightarrow> False)"
    by code_simp
  then obtain f' where e: "export_file demo_export_fs [''/'', ''ws''] ''session.md'' ''text'' plain_fs
      = Some (Exported [''exports'', ''session.md''], f')"
      "fs_read small_server [''/'', ''etc'', ''passwd''] f' = Inr ''root''"
    by (auto split: option.splits prod.splits)
  with export_stays_in_the_workspace [OF ok e(1)] show ?thesis by blast
qed


end
