(* ===== verification/WebSocket.thy ===== *)
theory WebSocket
  imports WebApi
begin

section \<open>The sockets of the web channel\<close>

text \<open>
  \<^verbatim>\<open>websocket_endpoint\<close> and \<^verbatim>\<open>_dispatch_loop\<close> of \<^verbatim>\<open>channels/web/websocket.py\<close> for many sockets at a time:
  what each of them has sent, the registry of connections, the tasks that send heartbeats, and the
  operations that messages of the clients start.  The stretches between two awaits that matter are
  the steps.  A message with a field of the wrong type is not followed further, as in the parser.
\<close>

subsection \<open>The state of the server\<close>

datatype ws_phase = Waiting | Serving | Gone

text \<open>\<open>wc_user\<close> is empty until the handshake is over.\<close>

record ws_conn =
  wc_phase :: ws_phase
  wc_user :: string
  wc_seq :: nat
  wc_pong :: rat

datatype ws_frame = HelloFrame | ReadyFrame string | UnknownTypeFrame

text \<open>Frames carry the number \<^verbatim>\<open>send_event\<close> gives them; the first one has none, which is 0.\<close>

record ws_server =
  sv_conn :: "nat \<Rightarrow> ws_conn option"
  sv_reg :: "nat connections"
  sv_beats :: "nat list"
  sv_frames :: "(nat \<times> ws_frame \<times> nat) list"
  sv_acts :: "(nat \<times> string \<times> client_message) list"

definition no_sockets :: ws_server where
  "no_sockets = \<lparr>sv_conn = (\<lambda>_. None), sv_reg = [], sv_beats = [], sv_frames = [], sv_acts = []\<rparr>"

definition put_conn :: "nat \<Rightarrow> ws_conn \<Rightarrow> ws_server \<Rightarrow> ws_server" where
  "put_conn c k s = s\<lparr>sv_conn := (sv_conn s)(c \<mapsto> k)\<rparr>"

text \<open>\<^verbatim>\<open>send_event\<close>: the number is taken before the frame is sent, which may fail.\<close>

definition send_event :: "nat \<Rightarrow> ws_conn \<Rightarrow> ws_frame \<Rightarrow> bool \<Rightarrow> ws_server \<Rightarrow> ws_server" where
  "send_event c k fr sent s =
     (let k' = k\<lparr>wc_seq := Suc (wc_seq k)\<rparr>; s' = put_conn c k' s
      in if sent then s'\<lparr>sv_frames := sv_frames s' @ [(c, fr, wc_seq k')]\<rparr> else s')"

definition conn_at :: "nat \<Rightarrow> ws_server \<Rightarrow> ws_conn" where
  "conn_at c s = the (sv_conn s c)"

definition set_phase :: "nat \<Rightarrow> ws_phase \<Rightarrow> ws_server \<Rightarrow> ws_server" where
  "set_phase c p s = put_conn c ((conn_at c s)\<lparr>wc_phase := p\<rparr>) s"

text \<open>The \<^verbatim>\<open>finally\<close> of the endpoint.\<close>

definition leave :: "nat \<Rightarrow> ws_server \<Rightarrow> ws_server" where
  "leave c s =
     (let s' = set_phase c Gone s
      in s'\<lparr>sv_beats := filter (\<lambda>x. x \<noteq> c) (sv_beats s'),
            sv_reg := reg_disconnect (wc_user (conn_at c s)) c (sv_reg s')\<rparr>)"

subsection \<open>Events\<close>

text \<open>
  A socket opens; its first message comes within the time, or not, \<open>ready\<close> says whether the frame that
  the server is ready could be sent and \<open>spawned\<close> whether the task manager took the heartbeat; later
  messages, with the time and whether an answer could be sent; and the client leaves, or is closed
  for not answering the heartbeats.
\<close>

datatype ws_event =
    Opens nat rat
  | FirstMessage nat "parsed option" bool bool
  | NextMessage nat parsed rat bool
  | Drops nat

definition accept_first ::
    "(string \<Rightarrow> unit + string option) \<Rightarrow> nat \<Rightarrow> nat \<Rightarrow> ws_conn \<Rightarrow> parsed option \<Rightarrow> bool \<Rightarrow> bool \<Rightarrow> ws_server \<Rightarrow> ws_server" where
  "accept_first verify max_connections c k first ready spawned s =
     (case ws_handshake verify max_connections first c (sv_reg s) of
        (Ready user, r) \<Rightarrow>
          let s1 = send_event c (k\<lparr>wc_user := user\<rparr>) (ReadyFrame user) ready (s\<lparr>sv_reg := r\<rparr>)
          in if ready \<and> spawned then (set_phase c Serving s1)\<lparr>sv_beats := c # sv_beats s1\<rparr>
             else set_phase c Gone s1
      | (_, r) \<Rightarrow> set_phase c Gone s)"

definition dispatch_next :: "nat \<Rightarrow> ws_conn \<Rightarrow> parsed \<Rightarrow> rat \<Rightarrow> bool \<Rightarrow> ws_server \<Rightarrow> ws_server" where
  "dispatch_next c k p now sent s =
     (let unknown = (let s' = send_event c k UnknownTypeFrame sent s in if sent then s' else leave c s')
      in case p of
           Understood m \<Rightarrow>
             (case m of
                Pong \<Rightarrow> put_conn c (k\<lparr>wc_pong := now\<rparr>) s
              | Identify _ \<Rightarrow> unknown
              | _ \<Rightarrow> s\<lparr>sv_acts := sv_acts s @ [(c, wc_user k, m)]\<rparr>)
         | Unknown \<Rightarrow> unknown
         | ParserRaises \<Rightarrow> leave c s
         | Untyped \<Rightarrow> s)"

fun ws_step :: "(string \<Rightarrow> unit + string option) \<Rightarrow> nat \<Rightarrow> ws_event \<Rightarrow> ws_server \<Rightarrow> ws_server" where
  "ws_step verify n (Opens c now) s =
     (case sv_conn s c of
        Some _ \<Rightarrow> s
      | None \<Rightarrow> (put_conn c \<lparr>wc_phase = Waiting, wc_user = [], wc_seq = 0, wc_pong = now\<rparr> s)
                  \<lparr>sv_frames := sv_frames s @ [(c, HelloFrame, 0)]\<rparr>)"
| "ws_step verify n (FirstMessage c first ready spawned) s =
     (case sv_conn s c of
        Some k \<Rightarrow> if wc_phase k = Waiting then accept_first verify n c k first ready spawned s else s
      | None \<Rightarrow> s)"
| "ws_step verify n (NextMessage c p now sent) s =
     (case sv_conn s c of
        Some k \<Rightarrow> if wc_phase k = Serving then dispatch_next c k p now sent s else s
      | None \<Rightarrow> s)"
| "ws_step verify n (Drops c) s =
     (case sv_conn s c of
        Some k \<Rightarrow> (case wc_phase k of Serving \<Rightarrow> leave c s | Waiting \<Rightarrow> set_phase c Gone s | Gone \<Rightarrow> s)
      | None \<Rightarrow> s)"

subsection \<open>The registry\<close>

lemma conns_of_connect [simp]:
  "conns_of u (reg_connect v c r) = (if u = v then List.insert c (conns_of v r) else conns_of u r)"
  by (simp add: reg_connect_def conns_of_def update_conv')

lemma conns_of_disconnect [simp]:
  "conns_of u (reg_disconnect v c r) = (if u = v then filter (\<lambda>x. x \<noteq> c) (conns_of v r) else conns_of u r)"
  by (auto simp: reg_disconnect_def conns_of_def Let_def update_conv' delete_conv' split: option.split)

lemma ws_server_sel [simp]:
  "sv_conn (put_conn c k s) = (sv_conn s)(c \<mapsto> k)" "sv_reg (put_conn c k s) = sv_reg s"
  "sv_beats (put_conn c k s) = sv_beats s" "sv_frames (put_conn c k s) = sv_frames s"
  "sv_acts (put_conn c k s) = sv_acts s"
  "sv_conn (send_event c k fr sent s) = (sv_conn s)(c \<mapsto> k\<lparr>wc_seq := Suc (wc_seq k)\<rparr>)"
  "sv_reg (send_event c k fr sent s) = sv_reg s" "sv_beats (send_event c k fr sent s) = sv_beats s"
  "sv_acts (send_event c k fr sent s) = sv_acts s"
  "sv_frames (send_event c k fr sent s) = sv_frames s @ (if sent then [(c, fr, Suc (wc_seq k))] else [])"
  by (simp_all add: put_conn_def send_event_def Let_def)

lemma ws_handshake_Ready:
  assumes "ws_handshake verify n first c r = (Ready u, r')"
  shows "r' = reg_connect u c r \<and> (\<exists>token. verify token = Inr (Some u)) \<and> reg_count u r < n"
  using assms by (auto simp: ws_handshake_def split: option.splits parsed.splits client_message.splits sum.splits if_splits)

text \<open>What a step can do, in the six ways it can end.\<close>

datatype ws_effect =
    Nothing
  | Opened nat
  | Accepted nat string
  | Lost nat string
  | Left nat
  | Acted nat client_message

definition ws_effect_ok ::
    "(string \<Rightarrow> unit + string option) \<Rightarrow> nat \<Rightarrow> ws_event \<Rightarrow> ws_server \<Rightarrow> ws_server \<Rightarrow> ws_effect \<Rightarrow> bool" where
  "ws_effect_ok verify n ev s s' eff =
     (case eff of
        Nothing \<Rightarrow> sv_reg s' = sv_reg s \<and> sv_beats s' = sv_beats s \<and> sv_acts s' = sv_acts s
          \<and> (\<forall>c. map_option wc_phase (sv_conn s' c) = map_option wc_phase (sv_conn s c)
                  \<or> (map_option wc_phase (sv_conn s c) = Some Waiting \<and> map_option wc_phase (sv_conn s' c) = Some Gone))
          \<and> (\<forall>c. map_option wc_user (sv_conn s' c) = map_option wc_user (sv_conn s c))
      | Opened c \<Rightarrow> sv_reg s' = sv_reg s \<and> sv_beats s' = sv_beats s \<and> sv_acts s' = sv_acts s \<and> sv_conn s c = None
          \<and> (\<exists>k. sv_conn s' c = Some k \<and> sv_conn s' = (sv_conn s)(c \<mapsto> k) \<and> wc_phase k = Waiting)
      | Accepted c u \<Rightarrow> sv_reg s' = reg_connect u c (sv_reg s) \<and> sv_beats s' = c # sv_beats s \<and> sv_acts s' = sv_acts s
          \<and> map_option wc_phase (sv_conn s c) = Some Waiting \<and> (\<exists>token. verify token = Inr (Some u)) \<and> reg_count u (sv_reg s) < n
          \<and> (\<exists>k. sv_conn s' c = Some k \<and> sv_conn s' = (sv_conn s)(c \<mapsto> k) \<and> wc_phase k = Serving \<and> wc_user k = u)
      | Lost c u \<Rightarrow> sv_reg s' = reg_connect u c (sv_reg s) \<and> sv_beats s' = sv_beats s \<and> sv_acts s' = sv_acts s
          \<and> map_option wc_phase (sv_conn s c) = Some Waiting
          \<and> (\<exists>k. sv_conn s' c = Some k \<and> sv_conn s' = (sv_conn s)(c \<mapsto> k) \<and> wc_phase k = Gone \<and> wc_user k = u)
          \<and> (\<exists>first ready spawned. ev = FirstMessage c first ready spawned \<and> \<not> (ready \<and> spawned))
      | Left c \<Rightarrow> sv_acts s' = sv_acts s
          \<and> (\<exists>k k'. sv_conn s c = Some k \<and> wc_phase k = Serving \<and> sv_conn s' c = Some k' \<and> sv_conn s' = (sv_conn s)(c \<mapsto> k') \<and> wc_phase k' = Gone
               \<and> wc_user k' = wc_user k \<and> sv_reg s' = reg_disconnect (wc_user k) c (sv_reg s)
               \<and> sv_beats s' = filter (\<lambda>x. x \<noteq> c) (sv_beats s))
      | Acted c m \<Rightarrow> sv_reg s' = sv_reg s \<and> sv_beats s' = sv_beats s \<and> sv_conn s' = sv_conn s
          \<and> (\<exists>k. sv_conn s c = Some k \<and> wc_phase k = Serving \<and> sv_acts s' = sv_acts s @ [(c, wc_user k, m)]))"

lemma leave_effect:
  assumes "sv_conn s c = Some k" "wc_phase k = Serving"
  shows "ws_effect_ok verify n ev s (leave c s) (Left c)"
  using assms by (simp add: ws_effect_ok_def leave_def set_phase_def conn_at_def Let_def put_conn_def)

lemma send_then_leave_effect:
  assumes "sv_conn s c = Some k" "wc_phase k = Serving"
  shows "ws_effect_ok verify n ev s (leave c (send_event c k fr sent s)) (Left c)"
  using assms by (simp add: ws_effect_ok_def leave_def set_phase_def conn_at_def Let_def)

lemma accept_first_effect:
  assumes k: "sv_conn s c = Some k" "wc_phase k = Waiting"
  shows "\<exists>eff. ws_effect_ok verify n (FirstMessage c first ready spawned) s (accept_first verify n c k first ready spawned s) eff"
proof -
  obtain h r where h: "ws_handshake verify n first c (sv_reg s) = (h, r)" by fastforce
  show ?thesis
  proof (cases h)
    case (Ready u)
    note hs = ws_handshake_Ready [OF h [unfolded Ready]]
    show ?thesis
    proof (cases "ready \<and> spawned")
      case True
      have "ws_effect_ok verify n (FirstMessage c first ready spawned) s
          (accept_first verify n c k first ready spawned s) (Accepted c u)"
        using k h Ready hs True
        by (simp add: ws_effect_ok_def accept_first_def set_phase_def conn_at_def Let_def)
      then show ?thesis by blast
    next
      case False
      have "ws_effect_ok verify n (FirstMessage c first ready spawned) s
          (accept_first verify n c k first ready spawned s) (Lost c u)"
        using k h Ready hs False
        by (simp add: ws_effect_ok_def accept_first_def set_phase_def conn_at_def Let_def)
      then show ?thesis by blast
    qed
  next
    case (Closed x)
    then have "ws_effect_ok verify n (FirstMessage c first ready spawned) s
        (accept_first verify n c k first ready spawned s) Nothing"
      using k h by (simp add: ws_effect_ok_def accept_first_def set_phase_def conn_at_def)
    then show ?thesis by blast
  next
    case HandshakeRaises
    then have "ws_effect_ok verify n (FirstMessage c first ready spawned) s
        (accept_first verify n c k first ready spawned s) Nothing"
      using k h by (simp add: ws_effect_ok_def accept_first_def set_phase_def conn_at_def)
    then show ?thesis by blast
  qed
qed

lemma dispatch_next_effect:
  assumes k: "sv_conn s c = Some k" "wc_phase k = Serving"
  shows "\<exists>eff. ws_effect_ok verify n ev s (dispatch_next c k p now sent s) eff"
proof -
  have unknown: "\<exists>eff. ws_effect_ok verify n ev s
      (if sent then send_event c k UnknownTypeFrame sent s else leave c (send_event c k UnknownTypeFrame sent s)) eff"
  proof (cases sent)
    case True
    have "ws_effect_ok verify n ev s (send_event c k UnknownTypeFrame True s) Nothing"
      using k by (simp add: ws_effect_ok_def)
    with True show ?thesis by auto
  next
    case False
    with send_then_leave_effect [OF k, of verify n ev UnknownTypeFrame False] show ?thesis by auto
  qed
  have acted: "ws_effect_ok verify n ev s (s\<lparr>sv_acts := sv_acts s @ [(c, wc_user k, m)]\<rparr>) (Acted c m)" for m
    using k by (simp add: ws_effect_ok_def)
  have pong: "ws_effect_ok verify n ev s (put_conn c (k\<lparr>wc_pong := now\<rparr>) s) Nothing"
    using k by (simp add: ws_effect_ok_def)
  have same: "ws_effect_ok verify n ev s s Nothing" by (simp add: ws_effect_ok_def)
  show ?thesis
  proof (cases p)
    case (Understood m)
    then show ?thesis
      using unknown acted pong by (cases m) (auto simp: dispatch_next_def Let_def)
  next
    case Unknown
    then show ?thesis using unknown by (simp add: dispatch_next_def Let_def)
  next
    case Untyped
    then show ?thesis using same by (auto simp: dispatch_next_def Let_def)
  next
    case ParserRaises
    then show ?thesis using leave_effect [OF k] by (auto simp: dispatch_next_def Let_def)
  qed
qed

lemma ws_step_effect: "\<exists>eff. ws_effect_ok verify n ev s (ws_step verify n ev s) eff"
proof -
  have same: "\<exists>eff. ws_effect_ok verify n ev s s eff" by (rule exI [of _ Nothing]) (simp add: ws_effect_ok_def)
  show ?thesis
  proof (cases ev)
    case (Opens c now)
    show ?thesis
    proof (cases "sv_conn s c")
      case None
      then have "ws_effect_ok verify n ev s (ws_step verify n ev s) (Opened c)"
        using Opens by (simp add: ws_effect_ok_def)
      then show ?thesis by blast
    qed (use same Opens in auto)
  next
    case (FirstMessage c first ready spawned)
    show ?thesis
    proof (cases "sv_conn s c")
      case (Some k)
      with same FirstMessage accept_first_effect [OF Some] show ?thesis by auto
    qed (use same FirstMessage in auto)
  next
    case (NextMessage c p now sent)
    show ?thesis
    proof (cases "sv_conn s c")
      case (Some k)
      with same NextMessage dispatch_next_effect [OF Some] show ?thesis by auto
    qed (use same NextMessage in auto)
  next
    case (Drops c)
    show ?thesis
    proof (cases "sv_conn s c")
      case (Some k)
      have "ws_effect_ok verify n ev s (set_phase c Gone s) Nothing" if "wc_phase k = Waiting"
        using Some that by (simp add: ws_effect_ok_def set_phase_def conn_at_def)
      with same Drops Some leave_effect [OF Some] show ?thesis by (cases "wc_phase k") auto
    qed (use same Drops in auto)
  qed
qed


subsection \<open>Only users with a token act\<close>

definition phase_of :: "ws_server \<Rightarrow> nat \<Rightarrow> ws_phase option" where
  "phase_of s c = map_option wc_phase (sv_conn s c)"

definition user_of :: "ws_server \<Rightarrow> nat \<Rightarrow> string option" where
  "user_of s c = map_option wc_user (sv_conn s c)"

lemma views_update:
  assumes "sv_conn s' = (sv_conn s)(c \<mapsto> k)"
  shows "phase_of s' x = (if x = c then Some (wc_phase k) else phase_of s x)"
    "user_of s' x = (if x = c then Some (wc_user k) else user_of s x)"
  using assms by (simp_all add: phase_of_def user_of_def)

lemma views_some: "sv_conn s c = Some k \<Longrightarrow> phase_of s c = Some (wc_phase k) \<and> user_of s c = Some (wc_user k)"
  by (simp add: phase_of_def user_of_def)

text \<open>The effects of a step on the views.\<close>

lemma effect_views:
  assumes "ws_effect_ok verify n ev s s' eff"
  shows "case eff of
      Nothing \<Rightarrow> sv_reg s' = sv_reg s \<and> sv_beats s' = sv_beats s \<and> sv_acts s' = sv_acts s \<and> user_of s' = user_of s
        \<and> (\<forall>c. phase_of s' c = phase_of s c \<or> (phase_of s c = Some Waiting \<and> phase_of s' c = Some Gone))
    | Opened c \<Rightarrow> sv_reg s' = sv_reg s \<and> sv_beats s' = sv_beats s \<and> sv_acts s' = sv_acts s
        \<and> phase_of s c = None \<and> user_of s c = None
        \<and> phase_of s' = (phase_of s)(c \<mapsto> Waiting) \<and> (\<exists>v. user_of s' = (user_of s)(c \<mapsto> v))
    | Accepted c u \<Rightarrow> sv_reg s' = reg_connect u c (sv_reg s) \<and> sv_beats s' = c # sv_beats s \<and> sv_acts s' = sv_acts s
        \<and> phase_of s c = Some Waiting \<and> (\<exists>token. verify token = Inr (Some u)) \<and> reg_count u (sv_reg s) < n
        \<and> phase_of s' = (phase_of s)(c \<mapsto> Serving) \<and> user_of s' = (user_of s)(c \<mapsto> u)
    | Lost c u \<Rightarrow> sv_reg s' = reg_connect u c (sv_reg s) \<and> sv_beats s' = sv_beats s \<and> sv_acts s' = sv_acts s
        \<and> phase_of s c = Some Waiting \<and> phase_of s' = (phase_of s)(c \<mapsto> Gone) \<and> user_of s' = (user_of s)(c \<mapsto> u)
        \<and> (\<exists>first ready spawned. ev = FirstMessage c first ready spawned \<and> \<not> (ready \<and> spawned))
    | Left c \<Rightarrow> sv_acts s' = sv_acts s \<and> phase_of s c = Some Serving \<and> phase_of s' = (phase_of s)(c \<mapsto> Gone)
        \<and> user_of s' = user_of s \<and> sv_reg s' = reg_disconnect (the (user_of s c)) c (sv_reg s) \<and> user_of s c \<noteq> None
        \<and> sv_beats s' = filter (\<lambda>x. x \<noteq> c) (sv_beats s)
    | Acted c m \<Rightarrow> sv_reg s' = sv_reg s \<and> sv_beats s' = sv_beats s \<and> phase_of s' = phase_of s \<and> user_of s' = user_of s
        \<and> phase_of s c = Some Serving \<and> user_of s c \<noteq> None \<and> sv_acts s' = sv_acts s @ [(c, the (user_of s c), m)]"
  using assms
  by (cases eff) (auto simp: ws_effect_ok_def phase_of_def user_of_def fun_eq_iff)

definition server_ok :: "(string \<Rightarrow> unit + string option) \<Rightarrow> ws_server \<Rightarrow> bool" where
  "server_ok verify s \<longleftrightarrow>
     (\<forall>c u. phase_of s c = Some Serving \<longrightarrow> user_of s c = Some u \<longrightarrow> c \<in> set (conns_of u (sv_reg s)))
   \<and> (\<forall>c u. c \<in> set (conns_of u (sv_reg s)) \<longrightarrow> user_of s c = Some u)
   \<and> (\<forall>c. c \<in> set (sv_beats s) \<longleftrightarrow> phase_of s c = Some Serving)
   \<and> (\<forall>c u m. (c, u, m) \<in> set (sv_acts s) \<longrightarrow> (\<exists>token. verify token = Inr (Some u)))
   \<and> (\<forall>c u. phase_of s c = Some Serving \<longrightarrow> user_of s c = Some u \<longrightarrow> (\<exists>token. verify token = Inr (Some u)))
   \<and> (\<forall>c u. c \<in> set (conns_of u (sv_reg s)) \<longrightarrow> phase_of s c \<notin> {None, Some Waiting})"

lemma server_okD:
  assumes "server_ok verify s"
  shows "phase_of s c = Some Serving \<Longrightarrow> user_of s c = Some u \<Longrightarrow> c \<in> set (conns_of u (sv_reg s))"
    "c \<in> set (conns_of u (sv_reg s)) \<Longrightarrow> user_of s c = Some u"
    "c \<in> set (sv_beats s) \<longleftrightarrow> phase_of s c = Some Serving"
    "(c, u, m) \<in> set (sv_acts s) \<Longrightarrow> \<exists>token. verify token = Inr (Some u)"
    "phase_of s c = Some Serving \<Longrightarrow> user_of s c = Some u \<Longrightarrow> \<exists>token. verify token = Inr (Some u)"
    "c \<in> set (conns_of u (sv_reg s)) \<Longrightarrow> phase_of s c \<notin> {None, Some Waiting}"
  using assms unfolding server_ok_def by blast+

lemma server_okI:
  assumes "\<And>c u. phase_of s c = Some Serving \<Longrightarrow> user_of s c = Some u \<Longrightarrow> c \<in> set (conns_of u (sv_reg s))"
    and "\<And>c u. c \<in> set (conns_of u (sv_reg s)) \<Longrightarrow> user_of s c = Some u"
    and "\<And>c. c \<in> set (sv_beats s) \<longleftrightarrow> phase_of s c = Some Serving"
    and "\<And>c u m. (c, u, m) \<in> set (sv_acts s) \<Longrightarrow> \<exists>token. verify token = Inr (Some u)"
    and "\<And>c u. phase_of s c = Some Serving \<Longrightarrow> user_of s c = Some u \<Longrightarrow> \<exists>token. verify token = Inr (Some u)"
    and "\<And>c u. c \<in> set (conns_of u (sv_reg s)) \<Longrightarrow> phase_of s c \<notin> {None, Some Waiting}"
  shows "server_ok verify s"
  unfolding server_ok_def by (intro conjI allI impI; rule assms; assumption)

lemma server_ok_effect:
  assumes ok: "server_ok verify s" and eff: "ws_effect_ok verify n ev s s' eff"
  shows "server_ok verify s'"
proof (cases eff)
  case Nothing
  with effect_views [OF eff] have v: "sv_reg s' = sv_reg s" "sv_beats s' = sv_beats s" "sv_acts s' = sv_acts s"
    "user_of s' = user_of s"
    and p: "phase_of s' c = phase_of s c \<or> (phase_of s c = Some Waiting \<and> phase_of s' c = Some Gone)" for c by auto
  have ph: "phase_of s' c = Some Serving \<longleftrightarrow> phase_of s c = Some Serving"
    "phase_of s' c \<in> {None, Some Waiting} \<Longrightarrow> phase_of s c \<in> {None, Some Waiting}" for c
    using p [of c] by auto
  show ?thesis
  proof (rule server_okI)
    show "x \<in> set (conns_of u (sv_reg s'))" if "phase_of s' x = Some Serving" "user_of s' x = Some u" for x u
      using server_okD(1) [OF ok, of x u] that by (simp add: v ph(1))
    show "\<exists>token. verify token = Inr (Some u)" if "phase_of s' x = Some Serving" "user_of s' x = Some u" for x u
      using server_okD(5) [OF ok, of x u] that by (simp add: v ph(1))
    show "user_of s' x = Some u" if "x \<in> set (conns_of u (sv_reg s'))" for x u
      using server_okD(2) [OF ok, of x u] that by (simp add: v)
    show "phase_of s' x \<notin> {None, Some Waiting}" if "x \<in> set (conns_of u (sv_reg s'))" for x u
      using server_okD(6) [OF ok, of x u] ph(2) [of x] that unfolding v by blast
    show "x \<in> set (sv_beats s') \<longleftrightarrow> phase_of s' x = Some Serving" for x
      using server_okD(3) [OF ok, of x] by (simp add: v ph(1))
    show "\<exists>token. verify token = Inr (Some u)" if "(x, u, m) \<in> set (sv_acts s')" for x u m
      using server_okD(4) [OF ok, of x u m] that by (simp add: v)
  qed
next
  case (Opened c)
  with effect_views [OF eff] obtain v where e: "sv_reg s' = sv_reg s" "sv_beats s' = sv_beats s" "sv_acts s' = sv_acts s"
    "phase_of s c = None" "phase_of s' = (phase_of s)(c \<mapsto> Waiting)" "user_of s' = (user_of s)(c \<mapsto> v)"
    by auto
  have ph: "phase_of s' x = (if x = c then Some Waiting else phase_of s x)" "user_of s' x = (if x = c then Some v else user_of s x)" for x
    by (simp_all add: e)
  have new: "x \<noteq> c" if "x \<in> set (conns_of u (sv_reg s))" for x u using server_okD(6) [OF ok that] e(4) by auto
  have was: "x \<noteq> c \<and> phase_of s x = Some Serving \<and> user_of s x = Some u"
    if "phase_of s' x = Some Serving" "user_of s' x = Some u" for x u
    using that by (simp add: ph split: if_split_asm)
  show ?thesis
  proof (rule server_okI)
    show "x \<in> set (conns_of u (sv_reg s'))" if "phase_of s' x = Some Serving" "user_of s' x = Some u" for x u
      using was [OF that] server_okD(1) [OF ok, of x u] by (simp add: e(1))
    show "\<exists>token. verify token = Inr (Some u)" if "phase_of s' x = Some Serving" "user_of s' x = Some u" for x u
      using was [OF that] server_okD(5) [OF ok, of x u] by simp
    show "user_of s' x = Some u" if "x \<in> set (conns_of u (sv_reg s'))" for x u
      using server_okD(2) [OF ok, of x u] new [of x u] that by (simp add: e(1) ph)
    show "phase_of s' x \<notin> {None, Some Waiting}" if "x \<in> set (conns_of u (sv_reg s'))" for x u
      using server_okD(6) [OF ok, of x u] new [of x u] that by (simp add: e(1) ph)
    show "x \<in> set (sv_beats s') \<longleftrightarrow> phase_of s' x = Some Serving" for x
      using server_okD(3) [OF ok, of x] by (cases "x = c") (simp_all add: e)
    show "\<exists>token. verify token = Inr (Some u)" if "(x, u, m) \<in> set (sv_acts s')" for x u m
      using server_okD(4) [OF ok, of x u m] that by (simp add: e(3))
  qed
next
  case (Accepted c u)
  with effect_views [OF eff] have e: "sv_reg s' = reg_connect u c (sv_reg s)" "sv_beats s' = c # sv_beats s" "sv_acts s' = sv_acts s"
    "phase_of s c = Some Waiting" "phase_of s' = (phase_of s)(c \<mapsto> Serving)" "user_of s' = (user_of s)(c \<mapsto> u)"
    and tok: "\<exists>token. verify token = Inr (Some u)"
    by auto
  have ph: "phase_of s' x = (if x = c then Some Serving else phase_of s x)" "user_of s' x = (if x = c then Some u else user_of s x)" for x
    by (simp_all add: e)
  have cs: "x \<in> set (conns_of v (sv_reg s')) \<longleftrightarrow> (v = u \<and> x = c) \<or> x \<in> set (conns_of v (sv_reg s))" for x v by (auto simp: e)
  have new: "x \<noteq> c" if "x \<in> set (conns_of v (sv_reg s))" for x v using server_okD(6) [OF ok that] e(4) by auto
  show ?thesis
    by (rule server_okI; unfold cs e(2,3) ph) (auto split: if_splits dest: server_okD(1,2,4,5,6) [OF ok] new intro: tok iff: server_okD(3) [OF ok])
next
  case (Lost c u)
  with effect_views [OF eff] have e: "sv_reg s' = reg_connect u c (sv_reg s)" "sv_beats s' = sv_beats s" "sv_acts s' = sv_acts s"
    "phase_of s c = Some Waiting" "phase_of s' = (phase_of s)(c \<mapsto> Gone)" "user_of s' = (user_of s)(c \<mapsto> u)"
    by auto
  have ph: "phase_of s' x = (if x = c then Some Gone else phase_of s x)" "user_of s' x = (if x = c then Some u else user_of s x)" for x
    by (simp_all add: e)
  have cs: "x \<in> set (conns_of v (sv_reg s')) \<longleftrightarrow> (v = u \<and> x = c) \<or> x \<in> set (conns_of v (sv_reg s))" for x v by (auto simp: e)
  have new: "x \<noteq> c" if "x \<in> set (conns_of v (sv_reg s))" for x v using server_okD(6) [OF ok that] e(4) by auto
  have nob: "x \<noteq> c" if "phase_of s x = Some Serving" for x using that e(4) by auto
  show ?thesis
    by (rule server_okI; unfold cs e(2,3) ph) (auto split: if_splits dest: server_okD(1,2,4,5,6) [OF ok] new nob iff: server_okD(3) [OF ok])
next
  case (Left c)
  with effect_views [OF eff] obtain u where e: "sv_reg s' = reg_disconnect u c (sv_reg s)" "sv_beats s' = filter (\<lambda>x. x \<noteq> c) (sv_beats s)"
    "sv_acts s' = sv_acts s" "user_of s c = Some u" "phase_of s' = (phase_of s)(c \<mapsto> Gone)" "user_of s' = user_of s"
    by auto
  have ph: "phase_of s' x = (if x = c then Some Gone else phase_of s x)" for x by (simp add: e)
  have cs: "x \<in> set (conns_of v (sv_reg s')) \<longleftrightarrow> x \<in> set (conns_of v (sv_reg s)) \<and> \<not> (v = u \<and> x = c)" for x v by (auto simp: e)
  show ?thesis
    by (rule server_okI; unfold cs e(2,3,6) ph) (auto split: if_splits dest: server_okD(1,2,4,5,6) [OF ok] simp: e(4) iff: server_okD(3) [OF ok])
next
  case (Acted c m)
  with effect_views [OF eff] obtain u where e: "sv_reg s' = sv_reg s" "sv_beats s' = sv_beats s" "phase_of s' = phase_of s"
    "user_of s' = user_of s" "phase_of s c = Some Serving" "user_of s c = Some u" "sv_acts s' = sv_acts s @ [(c, u, m)]"
    by auto
  have ac: "(x, v, w) \<in> set (sv_acts s') \<longleftrightarrow> (x, v, w) \<in> set (sv_acts s) \<or> (x = c \<and> v = u \<and> w = m)" for x v w by (auto simp: e)
  show ?thesis
    by (rule server_okI; unfold ac e(1-4)) (use server_okD [OF ok] e(5,6) in blast)+
qed

lemma server_ok_steps: "server_ok verify s \<Longrightarrow> server_ok verify (fold (ws_step verify n) evs s)"
proof (induction evs arbitrary: s)
  case (Cons ev evs)
  from ws_step_effect [of verify n ev s] server_ok_effect [OF Cons.prems] have "server_ok verify (ws_step verify n ev s)"
    by blast
  from Cons.IH [OF this] show ?case by simp
qed simp

lemma server_ok_start: "server_ok verify no_sockets"
  by (simp add: server_ok_def no_sockets_def phase_of_def user_of_def conns_of_def)

text \<open>
  Who acts.  Whatever the clients send and whenever they come and go, an operation on a
  conversation is only started for a user for whom a token was verified, by a socket that counts
  as a connection of that user, and a socket gets heartbeats exactly while it is served.
\<close>

theorem only_token_holders_act:
  assumes "fold (ws_step verify n) evs no_sockets = s" and "ws_step verify n ev s = s'"
  shows "(\<forall>(c, u, m) \<in> set (sv_acts s'). \<exists>token. verify token = Inr (Some u))
     \<and> (\<forall>c u m. sv_acts s' = sv_acts s @ [(c, u, m)] \<longrightarrow> c \<in> set (conns_of u (sv_reg s)))
     \<and> (\<forall>c. c \<in> set (sv_beats s') \<longleftrightarrow> phase_of s' c = Some Serving)"
proof -
  have ok: "server_ok verify s" using server_ok_steps [OF server_ok_start, of verify n evs] assms(1) by simp
  obtain eff where eff: "ws_effect_ok verify n ev s s' eff" using ws_step_effect [of verify n ev s] assms(2) by auto
  have ok': "server_ok verify s'" by (rule server_ok_effect [OF ok eff])
  have acts: "c \<in> set (conns_of u (sv_reg s))" if "sv_acts s' = sv_acts s @ [(c, u, m)]" for c u m
  proof (cases eff)
    case (Acted c' m')
    with effect_views [OF eff] have a: "phase_of s c' = Some Serving" "user_of s c' \<noteq> None"
      "sv_acts s' = sv_acts s @ [(c', the (user_of s c'), m')]" by auto
    with that have "c' = c" "the (user_of s c') = u" by auto
    with a(1,2) show ?thesis using server_okD(1) [OF ok, of c u] by auto
  qed (use effect_views [OF eff] that in auto)
  have "\<forall>(c, u, m) \<in> set (sv_acts s'). \<exists>token. verify token = Inr (Some u)"
    by (auto dest: server_okD(4) [OF ok'])
  with acts server_okD(3) [OF ok'] show ?thesis by blast
qed

definition demo_verify :: "string \<Rightarrow> unit + string option" where
  "demo_verify token = Inr (if token = ''t'' then Some ''ann'' else None)"

theorem only_token_holders_act_witness:
  "sv_acts (ws_step demo_verify 2 (NextMessage 0 (Understood (ChatAbort ''c'')) 3 True)
     (fold (ws_step demo_verify 2) [Opens 0 1, Opens 1 1, NextMessage 1 (Understood (ChatAbort ''d'')) 2 True,
        FirstMessage 0 (Some (Understood (Identify ''t''))) True True] no_sockets)) = [(0, ''ann'', ChatAbort ''c'')]
   \<and> (0::nat) \<in> set (sv_beats (ws_step demo_verify 2 (NextMessage 0 (Understood (ChatAbort ''c'')) 3 True)
     (fold (ws_step demo_verify 2) [Opens 0 1, Opens 1 1, NextMessage 1 (Understood (ChatAbort ''d'')) 2 True,
        FirstMessage 0 (Some (Understood (Identify ''t''))) True True] no_sockets)))"
proof -
  let ?s = "fold (ws_step demo_verify 2) [Opens 0 1, Opens 1 1, NextMessage 1 (Understood (ChatAbort ''d'')) 2 True,
        FirstMessage 0 (Some (Understood (Identify ''t''))) True True] no_sockets"
  let ?s' = "ws_step demo_verify 2 (NextMessage 0 (Understood (ChatAbort ''c'')) 3 True) ?s"
  have "sv_acts ?s' = [(0, ''ann'', ChatAbort ''c'')]" "phase_of ?s' 0 = Some Serving" by code_simp+
  with only_token_holders_act [OF refl refl, where verify = demo_verify and n = 2 and evs = "[Opens 0 1, Opens 1 1,
      NextMessage 1 (Understood (ChatAbort ''d'')) 2 True, FirstMessage 0 (Some (Understood (Identify ''t''))) True True]"
      and ev = "NextMessage 0 (Understood (ChatAbort ''c'')) 3 True"] show ?thesis by blast
qed

subsection \<open>The registry counts the sockets that are served\<close>

definition no_leak :: "ws_server \<Rightarrow> bool" where
  "no_leak s \<longleftrightarrow> (\<forall>u c. c \<in> set (conns_of u (sv_reg s)) \<longrightarrow> phase_of s c = Some Serving)"

lemma no_leak_effect:
  assumes ok: "server_ok verify s" "no_leak s" and eff: "ws_effect_ok verify n ev s s' eff" and "\<forall>c u. eff \<noteq> Lost c u"
  shows "no_leak s'"
proof (cases eff)
  case Nothing
  with effect_views [OF eff] have v: "sv_reg s' = sv_reg s"
    and p: "phase_of s' c = phase_of s c \<or> (phase_of s c = Some Waiting \<and> phase_of s' c = Some Gone)" for c by auto
  have "phase_of s c = Some Serving \<Longrightarrow> phase_of s' c = Some Serving" for c using p [of c] by auto
  with ok(2) v show ?thesis by (simp add: no_leak_def)
next
  case (Opened c)
  with effect_views [OF eff] ok(2) show ?thesis by (auto simp: no_leak_def)
next
  case (Accepted c u)
  with effect_views [OF eff] ok(2) show ?thesis by (auto simp: no_leak_def)
next
  case (Left c)
  with effect_views [OF eff] obtain u where e: "user_of s c = Some u" "phase_of s' = (phase_of s)(c \<mapsto> Gone)"
    "sv_reg s' = reg_disconnect u c (sv_reg s)" by auto
  have "v = u" if "c \<in> set (conns_of v (sv_reg s))" for v using server_okD(2) [OF ok(1) that] e(1) by simp
  with ok(2) e show ?thesis by (auto simp: no_leak_def)
next
  case (Acted c m)
  with effect_views [OF eff] ok(2) show ?thesis by (simp add: no_leak_def)
qed (use assms(4) in simp)

text \<open>An event whose frame that the server is ready is sent, with a task manager that takes the heartbeat.\<close>

definition reaches :: "ws_event \<Rightarrow> bool" where
  "reaches ev = (case ev of FirstMessage c first ready spawned \<Rightarrow> ready \<and> spawned | _ \<Rightarrow> True)"

lemma no_leak_steps:
  "server_ok verify s \<Longrightarrow> no_leak s \<Longrightarrow> \<forall>ev \<in> set evs. reaches ev \<Longrightarrow> no_leak (fold (ws_step verify n) evs s)"
proof (induction evs arbitrary: s)
  case (Cons ev evs)
  obtain eff where eff: "ws_effect_ok verify n ev s (ws_step verify n ev s) eff" using ws_step_effect by blast
  have "\<forall>c u. eff \<noteq> Lost c u"
    using effect_views [OF eff] Cons.prems(3) by (auto simp: reaches_def)
  from no_leak_effect [OF Cons.prems(1,2) eff this] server_ok_effect [OF Cons.prems(1) eff] Cons.IH Cons.prems(3)
  show ?case by simp
qed simp

text \<open>
  Connections are counted exactly.  As long as the first frame reaches every client that
  is let in, the registry holds for each user exactly the sockets that are served for him, and
  never more than the limit.
\<close>

theorem registry_is_exact:
  assumes "\<forall>ev \<in> set evs. reaches ev" and "fold (ws_step verify n) evs no_sockets = s"
  shows "set (conns_of u (sv_reg s)) = {c. phase_of s c = Some Serving \<and> user_of s c = Some u}"
proof -
  have ok: "server_ok verify s" using server_ok_steps [OF server_ok_start, of verify n evs] assms(2) by simp
  have "no_leak no_sockets" by (simp add: no_leak_def no_sockets_def conns_of_def)
  from no_leak_steps [OF server_ok_start this assms(1), of verify n] assms(2) have "no_leak s" by simp
  then have "phase_of s c = Some Serving" if "c \<in> set (conns_of u (sv_reg s))" for c using that by (simp add: no_leak_def)
  with server_okD(1,2) [OF ok] show ?thesis by blast
qed

theorem registry_is_exact_witness:
  "set (conns_of ''ann'' (sv_reg (fold (ws_step demo_verify 2) [Opens 0 1, Opens 1 1,
      FirstMessage 0 (Some (Understood (Identify ''t''))) True True,
      FirstMessage 1 (Some (Understood (Identify ''t''))) True True, Drops 0] no_sockets)))
   = {c. phase_of (fold (ws_step demo_verify 2) [Opens 0 1, Opens 1 1,
      FirstMessage 0 (Some (Understood (Identify ''t''))) True True,
      FirstMessage 1 (Some (Understood (Identify ''t''))) True True, Drops 0] no_sockets) c = Some Serving
      \<and> user_of (fold (ws_step demo_verify 2) [Opens 0 1, Opens 1 1,
      FirstMessage 0 (Some (Understood (Identify ''t''))) True True,
      FirstMessage 1 (Some (Understood (Identify ''t''))) True True, Drops 0] no_sockets) c = Some ''ann''}"
  by (rule registry_is_exact [OF _ refl]) (simp add: reaches_def)

subsection \<open>Sockets that were lost\<close>

definition lost_socket :: "string \<Rightarrow> nat \<Rightarrow> ws_server \<Rightarrow> bool" where
  "lost_socket u c s \<longleftrightarrow> c \<in> set (conns_of u (sv_reg s)) \<and> phase_of s c = Some Gone"

lemma lost_socket_effect:
  assumes lost: "lost_socket u c s" and eff: "ws_effect_ok verify n ev s s' eff"
  shows "lost_socket u c s'"
proof (cases eff)
  case Nothing
  with effect_views [OF eff] have "sv_reg s' = sv_reg s"
    "phase_of s' c = phase_of s c \<or> (phase_of s c = Some Waiting \<and> phase_of s' c = Some Gone)" by auto
  with lost show ?thesis by (auto simp: lost_socket_def)
qed (use effect_views [OF eff] lost in \<open>auto simp: lost_socket_def\<close>)

lemma lost_socket_steps: "lost_socket u c s \<Longrightarrow> lost_socket u c (fold (ws_step verify n) evs s)"
proof (induction evs arbitrary: s)
  case (Cons ev evs)
  from ws_step_effect [of verify n ev s] lost_socket_effect [OF Cons.prems] have "lost_socket u c (ws_step verify n ev s)"
    by blast
  from Cons.IH [OF this] show ?case by simp
qed simp

text \<open>
  Lost sockets lock a user out.  A socket whose client has gone before the frame that the
  server is ready could be sent stays in the registry for good.  When as many have been lost as
  the limit allows, no later connection of the user is let in, whatever happens in between.
\<close>

theorem lost_sockets_lock_out:
  assumes "distinct cs" and "n \<le> length cs" and "\<forall>c \<in> set cs. lost_socket u c s"
    and "verify token = Inr (Some u)" and "fold (ws_step verify n) evs s = s'"
  shows "ws_handshake verify n (Some (Understood (Identify token))) c (sv_reg s') = (Closed 4004, sv_reg s')"
proof -
  have "set cs \<subseteq> set (conns_of u (sv_reg s'))"
    using lost_socket_steps [of u _ s verify n evs] assms(3,5) by (auto simp: lost_socket_def)
  then have "length cs \<le> reg_count u (sv_reg s')"
    unfolding reg_count_def using distinct_card [OF assms(1)] card_length [of "conns_of u (sv_reg s')"]
    by (metis card_mono finite_set le_trans)
  with assms(2,4) show ?thesis by (simp add: ws_handshake_def)
qed

theorem lost_sockets_lock_out_witness:
  "ws_handshake demo_verify 1 (Some (Understood (Identify ''t''))) 7
     (sv_reg (fold (ws_step demo_verify 1) [Drops 0, Opens 5 9]
        (fold (ws_step demo_verify 1) [Opens 0 1, FirstMessage 0 (Some (Understood (Identify ''t''))) False True] no_sockets)))
   = (Closed 4004, sv_reg (fold (ws_step demo_verify 1) [Drops 0, Opens 5 9]
        (fold (ws_step demo_verify 1) [Opens 0 1, FirstMessage 0 (Some (Understood (Identify ''t''))) False True] no_sockets)))"
proof -
  have "lost_socket ''ann'' 0 (fold (ws_step demo_verify 1)
      [Opens 0 1, FirstMessage 0 (Some (Understood (Identify ''t''))) False True] no_sockets)"
    by code_simp
  then show ?thesis
    by (intro lost_sockets_lock_out [where cs = "[0]", OF _ _ _ _ refl]) (auto simp: demo_verify_def)
qed

end
