(* ===== verification/FeishuCard.thy ===== *)
theory FeishuCard
  imports PyPrelude
begin

section \<open>Cards that are written while the model answers\<close>

text \<open>
  \<^verbatim>\<open>FeishuStreamingCard\<close> of \<^verbatim>\<open>channels/feishu/streaming.py\<close>: a card is created and sent as a reply, its
  text is replaced as the answer grows, at most every few milliseconds, and at the end it is given
  the final text and closed.  How each request to the server ends is an argument.
\<close>

subsection \<open>The card\<close>

definition DEFAULT_THROTTLE_MS :: rat where "DEFAULT_THROTTLE_MS = 100"

definition STREAMING_ELEMENT_ID :: string where "STREAMING_ELEMENT_ID = ''streaming_content''"

record streaming_config =
  sg_print_frequency_ms :: int
  sg_print_step :: int
  sg_print_strategy :: string
  sg_summary :: string
  sg_throttle_ms :: rat

definition default_streaming :: streaming_config where
  "default_streaming = \<lparr>sg_print_frequency_ms = 50, sg_print_step = 2, sg_print_strategy = ''fast'', sg_summary = [],
     sg_throttle_ms = DEFAULT_THROTTLE_MS\<rparr>"

definition build_initial_card :: "streaming_config \<Rightarrow> jobj" where
  "build_initial_card cfg =
     [(''schema'', JStr ''2.0''),
      (''config'', JObj [(''streaming_mode'', JBool True), (''summary'', JObj [(''content'', JStr (sg_summary cfg))]),
         (''streaming_config'', JObj
            [(''print_frequency_ms'', JObj [(''default'', JInt (sg_print_frequency_ms cfg))]),
             (''print_step'', JObj [(''default'', JInt (sg_print_step cfg))]),
             (''print_strategy'', JStr (sg_print_strategy cfg))])]),
      (''body'', JObj [(''elements'', JList [JObj [(''tag'', JStr ''markdown''),
         (''element_id'', JStr STREAMING_ELEMENT_ID), (''content'', JStr ''...'')]])])]"

text \<open>The requests, with the id of the card and their sequence number, and the time of an update.\<close>

datatype card_request =
    CreateCard jobj
  | ReplyCard string string
  | ContentUpdate string string nat "rat option"
  | CloseStreaming string nat

datatype request_end = Succeeds | IsRefused | Raises

record streaming_card =
  sc_reply_to :: string
  sc_card :: "string option"
  sc_seq :: nat
  sc_last :: rat
  sc_tracked :: "string list"
  sc_sent :: "card_request list"

definition new_card :: "string \<Rightarrow> streaming_card" where
  "new_card reply_to = \<lparr>sc_reply_to = reply_to, sc_card = None, sc_seq = 1, sc_last = 0, sc_tracked = [], sc_sent = []\<rparr>"

definition card_sends :: "card_request \<Rightarrow> streaming_card \<Rightarrow> streaming_card" where
  "card_sends q c = c\<lparr>sc_sent := sc_sent c @ [q]\<rparr>"

subsection \<open>The operations\<close>

text \<open>
  \<open>created\<close> is the id in the answer, if the card was created, and \<open>replied\<close> how the reply ended and the id
  of its message.  A request that raises leaves the operation; the first answer says so.
\<close>

datatype card_error = NotCreated | NoCardId | RequestRaised

definition card_start ::
    "streaming_config \<Rightarrow> (request_end \<times> string option) \<Rightarrow> (request_end \<times> string option) \<Rightarrow> streaming_card
       \<Rightarrow> card_error option \<times> streaming_card" where
  "card_start cfg created replied c =
     (let c1 = card_sends (CreateCard (build_initial_card cfg)) c in
      case created of
        (Raises, _) \<Rightarrow> (Some RequestRaised, c1)
      | (IsRefused, _) \<Rightarrow> (Some NotCreated, c1)
      | (Succeeds, i) \<Rightarrow>
          let c2 = c1\<lparr>sc_card := i\<rparr>
          in if \<not> opt_truthy i then (Some NoCardId, c2)
             else let c3 = card_sends (ReplyCard (sc_reply_to c) (the i)) c2
                  in case replied of
                       (Raises, _) \<Rightarrow> (Some RequestRaised, c3)
                     | (IsRefused, _) \<Rightarrow> (None, c3)
                     | (Succeeds, m) \<Rightarrow>
                         (None, if opt_truthy m then c3\<lparr>sc_tracked := sc_tracked c3 @ [the m]\<rparr> else c3))"

definition send_content_update :: "string \<Rightarrow> rat option \<Rightarrow> streaming_card \<Rightarrow> streaming_card" where
  "send_content_update tx at_time c =
     (card_sends (ContentUpdate (the (sc_card c)) tx (sc_seq c) at_time) c)\<lparr>sc_seq := Suc (sc_seq c)\<rparr>"

definition close_streaming :: "streaming_card \<Rightarrow> streaming_card" where
  "close_streaming c = (card_sends (CloseStreaming (the (sc_card c)) (sc_seq c)) c)\<lparr>sc_seq := Suc (sc_seq c)\<rparr>"

definition card_update :: "streaming_config \<Rightarrow> rat \<Rightarrow> request_end \<Rightarrow> string \<Rightarrow> streaming_card \<Rightarrow> bool \<times> streaming_card" where
  "card_update cfg now outcome tx c =
     (if \<not> opt_truthy (sc_card c) then (False, c)
      else if now - sc_last c < sg_throttle_ms cfg then (False, c)
      else (outcome = Raises, send_content_update tx (Some now) (c\<lparr>sc_last := now\<rparr>)))"

text \<open>The last text, and the close unless the last text raised.\<close>

definition card_finish :: "request_end \<Rightarrow> request_end \<Rightarrow> string \<Rightarrow> streaming_card \<Rightarrow> bool \<times> streaming_card" where
  "card_finish outcome ending tx c =
     (if \<not> opt_truthy (sc_card c) then (False, c)
      else let c1 = send_content_update tx None c
           in if outcome = Raises then (True, c1) else (ending = Raises, close_streaming c1))"

text \<open>The mark of an error is a cross, here a letter.\<close>

definition card_fail :: "request_end \<Rightarrow> request_end \<Rightarrow> string \<Rightarrow> streaming_card \<Rightarrow> bool \<times> streaming_card" where
  "card_fail outcome ending message c = card_finish outcome ending (''x '' @ message) c"

datatype card_step =
    Grows rat request_end string
  | Ends request_end request_end string
  | FailsWith request_end request_end string

definition card_step :: "streaming_config \<Rightarrow> card_step \<Rightarrow> streaming_card \<Rightarrow> streaming_card" where
  "card_step cfg st c =
     snd (case st of
            Grows now outcome tx \<Rightarrow> card_update cfg now outcome tx c
          | Ends outcome ending tx \<Rightarrow> card_finish outcome ending tx c
          | FailsWith outcome ending message \<Rightarrow> card_fail outcome ending message c)"

subsection \<open>The order of the requests\<close>

fun number_of :: "card_request \<Rightarrow> nat option" where
  "number_of (ContentUpdate _ _ n _) = Some n"
| "number_of (CloseStreaming _ n) = Some n"
| "number_of _ = None"

fun time_of :: "card_request \<Rightarrow> rat option" where
  "time_of (ContentUpdate _ _ _ t) = t"
| "time_of _ = None"

definition numbers :: "streaming_card \<Rightarrow> nat list" where
  "numbers c = List.map_filter number_of (sc_sent c)"

definition update_times :: "streaming_card \<Rightarrow> rat list" where
  "update_times c = List.map_filter time_of (sc_sent c)"

lemma map_filter_snoc: "List.map_filter f (xs @ [x]) = List.map_filter f xs @ (case f x of None \<Rightarrow> [] | Some y \<Rightarrow> [y])"
  by (simp add: List.map_filter_def split: option.split)

lemma card_fields [simp]:
  "sc_card (card_sends q c) = sc_card c" "sc_seq (card_sends q c) = sc_seq c" "sc_last (card_sends q c) = sc_last c"
  "sc_sent (card_sends q c) = sc_sent c @ [q]" "sc_reply_to (card_sends q c) = sc_reply_to c"
  "sc_card (send_content_update tx t c) = sc_card c" "sc_seq (send_content_update tx t c) = Suc (sc_seq c)"
  "sc_last (send_content_update tx t c) = sc_last c"
  "sc_sent (send_content_update tx t c) = sc_sent c @ [ContentUpdate (the (sc_card c)) tx (sc_seq c) t]"
  "sc_card (close_streaming c) = sc_card c" "sc_seq (close_streaming c) = Suc (sc_seq c)"
  "sc_last (close_streaming c) = sc_last c"
  "sc_sent (close_streaming c) = sc_sent c @ [CloseStreaming (the (sc_card c)) (sc_seq c)]"
  by (simp_all add: card_sends_def send_content_update_def close_streaming_def)

definition card_ok :: "streaming_config \<Rightarrow> streaming_card \<Rightarrow> bool" where
  "card_ok cfg c \<longleftrightarrow> 1 \<le> sc_seq c \<and> numbers c = [1..<sc_seq c]
     \<and> (update_times c \<noteq> [] \<longrightarrow> sc_last c = last (update_times c))
     \<and> (\<forall>i. Suc i < length (update_times c) \<longrightarrow> update_times c ! i + sg_throttle_ms cfg \<le> update_times c ! Suc i)"

lemma card_ok_start:
  assumes "sc_sent c = []" "sc_seq c = 1" "card_start cfg created replied c = (res, c')"
  shows "card_ok cfg c'"
  using assms
  by (auto simp: card_ok_def card_start_def numbers_def update_times_def List.map_filter_def Let_def
      split: prod.splits request_end.splits if_splits)

lemma spaced_snoc:
  assumes "\<forall>i. Suc i < length ts \<longrightarrow> ts ! i + w \<le> ts ! Suc i" "ts \<noteq> [] \<Longrightarrow> last ts + w \<le> t"
  shows "\<forall>i. Suc i < length (ts @ [t]) \<longrightarrow> (ts @ [t]) ! i + w \<le> (ts @ [t]) ! Suc i"
proof (intro allI impI)
  fix i assume i: "Suc i < length (ts @ [t])"
  show "(ts @ [t]) ! i + w \<le> (ts @ [t]) ! Suc i"
  proof (cases "Suc i < length ts")
    case True
    with assms(1) show ?thesis by (simp add: nth_append)
  next
    case False
    with i have l: "Suc i = length ts" by simp
    then have ne: "ts \<noteq> []" by auto
    moreover have "ts ! i = last ts" using l last_conv_nth [OF ne] by (metis diff_Suc_1)
    ultimately show ?thesis using assms(2) l by (simp add: nth_append)
  qed
qed

lemma card_ok_content:
  assumes ok: "card_ok cfg c" and "\<forall>now. t = Some now \<longrightarrow> sc_last c = now"
    and "\<forall>now. t = Some now \<longrightarrow> update_times c \<noteq> [] \<longrightarrow> last (update_times c) + sg_throttle_ms cfg \<le> now"
  shows "card_ok cfg (send_content_update tx t c)"
  using assms
  by (cases t) (simp_all add: card_ok_def numbers_def update_times_def map_filter_snoc spaced_snoc)

lemma card_ok_close: "card_ok cfg c \<Longrightarrow> card_ok cfg (close_streaming c)"
  by (simp add: card_ok_def numbers_def update_times_def map_filter_snoc)

lemma card_ok_finish: "card_ok cfg c \<Longrightarrow> card_ok cfg (snd (card_finish outcome ending tx c))"
  by (simp add: card_finish_def Let_def card_ok_content card_ok_close)

lemma card_ok_step:
  assumes "card_ok cfg c"
  shows "card_ok cfg (card_step cfg st c)"
proof (cases st)
  case (Grows now outcome tx)
  show ?thesis
  proof (cases "opt_truthy (sc_card c) \<and> \<not> now - sc_last c < sg_throttle_ms cfg")
    case False
    with assms Grows show ?thesis by (auto simp: card_step_def card_update_def)
  next
    case True
    let ?c = "c\<lparr>sc_last := now\<rparr>"
    have t: "update_times ?c = update_times c" "numbers ?c = numbers c" by (simp_all add: update_times_def numbers_def)
    have "last (update_times c) + sg_throttle_ms cfg \<le> now" if "update_times c \<noteq> []"
      using True assms that by (simp add: card_ok_def)
    then have "card_ok cfg (send_content_update tx (Some now) ?c)"
      using assms by (simp add: card_ok_def numbers_def update_times_def map_filter_snoc spaced_snoc)
    with True Grows show ?thesis by (simp add: card_step_def card_update_def)
  qed
qed (use assms card_ok_finish in \<open>simp_all add: card_step_def card_fail_def\<close>)

lemma card_ok_steps: "card_ok cfg c \<Longrightarrow> card_ok cfg (fold (card_step cfg) sts c)"
  by (induction sts arbitrary: c) (simp_all add: card_ok_step)

text \<open>
  The requests of a card.  However the requests end, those that change a card bear the
  numbers one, two and so on in the order they are sent, as the server asks for, and two texts of
  a growing answer are sent at least the throttle apart.
\<close>

theorem card_requests_are_numbered:
  assumes "card_start cfg created replied (new_card m) = (res, c)" and "fold (card_step cfg) sts c = c'"
  shows "numbers c' = [1..<sc_seq c']
     \<and> (\<forall>i. Suc i < length (update_times c') \<longrightarrow> update_times c' ! i + sg_throttle_ms cfg \<le> update_times c' ! Suc i)"
proof -
  have "card_ok cfg c" by (rule card_ok_start [OF _ _ assms(1)]) (simp_all add: new_card_def)
  then have "card_ok cfg c'" using card_ok_steps assms(2) by blast
  then show ?thesis by (simp add: card_ok_def)
qed

definition demo_card :: streaming_card where
  "demo_card = snd (card_start default_streaming (Succeeds, Some ''card1'') (Succeeds, Some ''om1'') (new_card ''om0''))"

theorem card_requests_are_numbered_witness:
  "numbers (fold (card_step default_streaming)
     [Grows 500 Succeeds ''a'', Grows 550 Succeeds ''ab'', Grows 700 IsRefused ''abc'', Ends Succeeds Succeeds ''abcd''] demo_card)
   = [1, 2, 3, 4]"
proof -
  let ?sts = "[Grows 500 Succeeds ''a'', Grows 550 Succeeds ''ab'', Grows 700 IsRefused ''abc'', Ends Succeeds Succeeds ''abcd'']"
  have "card_start default_streaming (Succeeds, Some ''card1'') (Succeeds, Some ''om1'') (new_card ''om0'') = (None, demo_card)"
    by (simp add: demo_card_def card_start_def Let_def)
  note w = card_requests_are_numbered [OF this refl, of ?sts]
  have "sc_seq (fold (card_step default_streaming) ?sts demo_card) = 5" by code_simp
  with w show ?thesis by (simp add: upt_rec)
qed

text \<open>
  The end of an answer.  A card that was created and is finished without an exception
  ends with the final text and the request that closes it, however much of the answer was
  throttled away before.
\<close>

theorem finished_cards_show_the_answer:
  assumes "card_start cfg created replied (new_card m) = (None, c)" and "fold (card_step cfg) sts c = c'"
    and "card_finish outcome ending tx c' = (False, c'')"
  shows "\<exists>i. sc_card c'' = Some i
     \<and> sc_sent c'' = sc_sent c' @ [ContentUpdate i tx (sc_seq c') None, CloseStreaming i (Suc (sc_seq c'))]"
proof -
  have keep: "sc_card (card_step cfg st d) = sc_card d" for st d
    by (cases st) (simp_all add: card_step_def card_update_def card_fail_def card_finish_def Let_def)
  have "sc_card (fold (card_step cfg) sts d) = sc_card d" for d
    by (induction sts arbitrary: d) (simp_all add: keep)
  then have "sc_card c' = sc_card c" using assms(2) by blast
  moreover have "opt_truthy (sc_card c)"
    using assms(1) by (auto simp: card_start_def Let_def split: prod.splits request_end.splits if_splits)
  ultimately show ?thesis
    using assms(3) by (cases "sc_card c") (auto simp: card_finish_def Let_def split: if_splits)
qed

theorem finished_cards_show_the_answer_witness:
  "\<exists>c''. card_finish Succeeds IsRefused ''done'' (fold (card_step default_streaming) [Grows 50 Succeeds ''d''] demo_card) = (False, c'')
     \<and> last (butlast (sc_sent c'')) = ContentUpdate ''card1'' ''done'' 1 None"
proof -
  have s: "card_start default_streaming (Succeeds, Some ''card1'') (Succeeds, Some ''om1'') (new_card ''om0'') = (None, demo_card)"
    by (simp add: demo_card_def card_start_def Let_def)
  let ?c = "fold (card_step default_streaming) [Grows 50 Succeeds ''d''] demo_card"
  obtain b c'' where f: "card_finish Succeeds IsRefused ''done'' ?c = (b, c'')" by fastforce
  have "fst (card_finish Succeeds IsRefused ''done'' ?c) = False" "sc_seq ?c = 1"
    "sc_card (snd (card_finish Succeeds IsRefused ''done'' ?c)) = Some ''card1''" by code_simp+
  with f have b: "b = False" "sc_card c'' = Some ''card1''" by simp_all
  with finished_cards_show_the_answer [OF s refl f [unfolded b(1)]] f \<open>sc_seq ?c = 1\<close> show ?thesis
    by (auto simp: butlast_append)
qed

end
