(* ===== verification/AgentSetup.thy ===== *)
theory AgentSetup
  imports Steering Sandbox Llm
begin

section \<open>How the application is put together\<close>

text \<open>
  The budgets and the workspaces of \<^verbatim>\<open>models/config.py\<close>, the corrections that \<^verbatim>\<open>infra/settings.py\<close> makes to
  what was configured, the hooks that are told of a run (\<^verbatim>\<open>core/hooks.py\<close>), the tools and hooks of
  the agent (\<^verbatim>\<open>core/agent/factory.py\<close>), and which parts of the application start and stop in which
  order (\<^verbatim>\<open>app.py\<close>, with the factories of the stores).  The parts themselves are in their own
  theories; here they are names.
\<close>

subsection \<open>Budgets\<close>

record budget_config =
  bc_system :: int
  bc_dynamic :: int
  bc_reserve :: "int option"
  bc_ratio :: rat

definition default_budget :: budget_config where
  "default_budget = \<lparr>bc_system = 4096, bc_dynamic = 4096, bc_reserve = None, bc_ratio = 3 / 10\<rparr>"

text \<open>Whether the zones fit; the code raises with their sum where they do not.\<close>

definition validate_against_context_window :: "budget_config \<Rightarrow> int \<Rightarrow> int + unit" where
  "validate_against_context_window b window =
     (case bc_reserve b of
        None \<Rightarrow> Inr ()
      | Some r \<Rightarrow>
          let zones = bc_system b + bc_dynamic b + r
          in if zones > window then Inl zones else Inr ())"

text \<open>\<^verbatim>\<open>int(x)\<close> cuts towards zero.\<close>

definition int_of_rat :: "rat \<Rightarrow> int" where
  "int_of_rat x = (if 0 \<le> x then \<lfloor>x\<rfloor> else \<lceil>x\<rceil>)"

definition output_reserve :: "budget_config \<Rightarrow> int \<Rightarrow> int option \<Rightarrow> int" where
  "output_reserve b window model_max_output =
     (case bc_reserve b of
        Some r \<Rightarrow> r
      | None \<Rightarrow>
          (case model_max_output of
             Some m \<Rightarrow> m
           | None \<Rightarrow> int_of_rat (of_int (window - bc_system b - bc_dynamic b) * bc_ratio b)))"

definition compute_history_budget :: "budget_config \<Rightarrow> int \<Rightarrow> int option \<Rightarrow> int" where
  "compute_history_budget b window model_max_output =
     max 0 (window - bc_system b - bc_dynamic b - output_reserve b window model_max_output)"

text \<open>\<^verbatim>\<open>_migrate_threshold\<close>: the old name of the threshold counts where the new one has its default.\<close>

definition migrate_threshold :: "rat option \<Rightarrow> rat \<Rightarrow> rat" where
  "migrate_threshold old history_threshold =
     (case old of Some x \<Rightarrow> if history_threshold = 8 / 10 then x else history_threshold | None \<Rightarrow> history_threshold)"

definition resolve_workspace_path :: "(string \<times> string) list \<Rightarrow> string \<Rightarrow> string" where
  "resolve_workspace_path workspaces wid =
     (case map_of workspaces wid of
        Some p \<Rightarrow> if p \<noteq> [] then p else (case map_of workspaces ''default'' of Some d \<Rightarrow> d | None \<Rightarrow> ''.'')
      | None \<Rightarrow> (case map_of workspaces ''default'' of Some d \<Rightarrow> d | None \<Rightarrow> ''.''))"

text \<open>\<^verbatim>\<open>_flatten_admin\<close>; \<^verbatim>\<open>list\<close> of a text is the list of its letters, of a dictionary that of its keys.\<close>

definition json_elements :: "json \<Rightarrow> json list option" where
  "json_elements j =
     (case j of
        JList xs \<Rightarrow> Some xs
      | JStr s \<Rightarrow> Some (map (\<lambda>c. JStr [c]) s)
      | JObj d \<Rightarrow> Some (map (\<lambda>p. JStr (fst p)) d)
      | _ \<Rightarrow> None)"

definition flatten_admin :: "jobj \<Rightarrow> jobj option" where
  "flatten_admin data =
     (case map_of data ''admin'' of
        Some (JObj block) \<Rightarrow>
          let rest = AList.delete ''admin'' data;
              ids = (if truthy (jget ''userIds'' block) then jget ''userIds'' block
                     else if truthy (jget ''user_ids'' block) then jget ''user_ids'' block else JList [])
          in if ''admin_user_ids'' \<in> fst ` set rest then Some rest
             else map_option (\<lambda>xs. AList.update ''admin_user_ids'' (JList xs) rest) (json_elements ids)
      | _ \<Rightarrow> Some data)"

subsection \<open>Hooks that are told\<close>

text \<open>
  A hook has some of the methods; a call of one changes the world and may raise, which is logged.
  \<open>method\<close> is \<^const>\<open>None\<close> where the hook does not have it.
\<close>

fun notify_hooks :: "('h \<Rightarrow> ('w \<Rightarrow> bool \<times> 'w) option) \<Rightarrow> 'h list \<Rightarrow> 'w \<Rightarrow> 'w" where
  "notify_hooks method [] w = w"
| "notify_hooks method (h # hs) w =
     (case method h of
        None \<Rightarrow> notify_hooks method hs w
      | Some call \<Rightarrow> (case call w of (raised, w') \<Rightarrow> notify_hooks method hs w'))"

subsection \<open>Tools and hooks of the agent\<close>

datatype agent_hook = WorkingMemoryHook | MemoryNudgeHook | SopCandidateTracker | SteerHook

record agent_settings =
  ag_default_model :: string
  ag_providers :: providers
  ag_default_provider :: "string option"
  ag_default_policy :: bool
  ag_window :: int
  ag_budget :: budget_config
  ag_progressive :: bool
  ag_evolution :: bool

datatype setup_error =
    UnknownSessionBackend string
  | SessionNeedsRedis
  | UnknownWorkspaceBackend string
  | WorkspaceNeedsRedis
  | SandboxMissing
  | ModelNotRouted llm_exn
  | ZonesExceed int

definition builtin_tools :: "string list" where
  "builtin_tools = [''bash'', ''read'', ''write'', ''edit'']"

definition agent_tools :: "agent_settings \<Rightarrow> bool \<Rightarrow> bool \<Rightarrow> string list" where
  "agent_tools ag memory redis =
     builtin_tools @ (if ag_progressive ag then [''skill_view''] else [])
     @ (if memory then [''memorize'', ''forget''] @ (if redis then [''update_working_memory''] else []) else [])"

definition agent_hooks :: "agent_settings \<Rightarrow> bool \<Rightarrow> bool \<Rightarrow> agent_hook list" where
  "agent_hooks ag memory redis =
     (if memory then (if redis then [WorkingMemoryHook] else []) @ [MemoryNudgeHook]
        @ (if redis \<and> ag_evolution ag then [SopCandidateTracker] else []) else []) @ [SteerHook]"

definition create_agent_runner_deps ::
    "agent_settings \<Rightarrow> bool \<Rightarrow> bool \<Rightarrow> setup_error + (string list \<times> agent_hook list)" where
  "create_agent_runner_deps ag memory redis =
     (case (if ag_providers ag = [] then Inr ()
            else map_sum id (\<lambda>_. ())
                   (resolve_provider_for_model (ag_default_model ag) (ag_providers ag) (ag_default_provider ag) (ag_default_policy ag))) of
        Inl e \<Rightarrow> Inl (ModelNotRouted e)
      | Inr _ \<Rightarrow>
          (case validate_against_context_window (ag_budget ag) (ag_window ag) of
             Inl zones \<Rightarrow> Inl (ZonesExceed zones)
           | Inr _ \<Rightarrow> Inr (agent_tools ag memory redis, agent_hooks ag memory redis)))"

subsection \<open>Starting and stopping\<close>

datatype service =
    WorkerRegistration | WorkerHeartbeat | McpBackground | ForwardConsumer | FeishuChannel | WebChannel | CuratorLoop

record app_settings =
  st_session_backend :: string
  st_memory_backend :: string
  st_workspace_backend :: string
  st_agent :: agent_settings
  st_curator :: bool
  st_affinity :: bool
  st_mcp :: bool
  st_feishu :: bool
  st_web :: bool

record running_app =
  ra_redis :: bool
  ra_memory :: bool
  ra_tools :: "string list"
  ra_hooks :: "agent_hook list"
  ra_services :: "service list"

text \<open>
  The part of \<^verbatim>\<open>_lifespan\<close> before it yields.  \<open>sandbox_ok\<close> says that no required sandbox is missing, and
  \<open>memory_ok\<close> that the memory store could be made, which is logged otherwise.  The answer has the
  services in the order they are started, those of a start that fails as well.
\<close>

definition create_session_store :: "string \<Rightarrow> bool \<Rightarrow> setup_error + unit" where
  "create_session_store backend redis =
     (if backend = ''memory'' then Inr ()
      else if backend = ''redis'' then (if redis then Inr () else Inl SessionNeedsRedis)
      else Inl (UnknownSessionBackend backend))"

definition create_workspace_store :: "string \<Rightarrow> bool \<Rightarrow> setup_error + unit" where
  "create_workspace_store backend redis =
     (if backend = ''file'' then Inr ()
      else if backend = ''redis'' then (if redis then Inr () else Inl WorkspaceNeedsRedis)
      else Inl (UnknownWorkspaceBackend backend))"

definition create_memory_store :: "string \<Rightarrow> bool \<Rightarrow> bool \<Rightarrow> bool" where
  "create_memory_store backend redis memory_ok = (redis \<and> backend = ''sqlite'' \<and> memory_ok)"

definition services_after_setup :: "app_settings \<Rightarrow> bool \<Rightarrow> bool \<Rightarrow> service list" where
  "services_after_setup st redis memory =
     (if st_affinity st \<and> redis then [ForwardConsumer] else [])
     @ (if st_feishu st then [FeishuChannel] else []) @ (if st_web st then [WebChannel] else [])
     @ (if ag_evolution (st_agent st) \<and> st_curator st \<and> redis \<and> memory then [CuratorLoop] else [])"

definition start_app :: "app_settings \<Rightarrow> bool \<Rightarrow> bool \<Rightarrow> (setup_error + running_app) \<times> service list" where
  "start_app st sandbox_ok memory_ok =
     (let redis = (st_session_backend st = ''redis'') in
      case create_session_store (st_session_backend st) redis of
        Inl e \<Rightarrow> (Inl e, [])
      | Inr _ \<Rightarrow>
          if \<not> sandbox_ok then (Inl SandboxMissing, [])
          else
            let s1 = (if redis then [WorkerRegistration, WorkerHeartbeat] else []) in
            case create_workspace_store (st_workspace_backend st) redis of
              Inl e \<Rightarrow> (Inl e, s1)
            | Inr _ \<Rightarrow>
                let memory = create_memory_store (st_memory_backend st) redis memory_ok;
                    s2 = s1 @ (if st_mcp st then [McpBackground] else [])
                in case create_agent_runner_deps (st_agent st) memory redis of
                     Inl e \<Rightarrow> (Inl e, s2)
                   | Inr (tools, hooks) \<Rightarrow>
                       let s3 = s2 @ services_after_setup st redis memory
                       in (Inr \<lparr>ra_redis = redis, ra_memory = memory, ra_tools = tools, ra_hooks = hooks, ra_services = s3\<rparr>, s3))"

datatype stop_step = Deregister | StopFeishu | StopMcp | DrainTasks | CloseMemory | CloseRedis

definition stop_app :: "app_settings \<Rightarrow> running_app \<Rightarrow> stop_step list" where
  "stop_app st a =
     [Deregister] @ (if st_feishu st then [StopFeishu] else []) @ (if st_mcp st then [StopMcp] else [])
     @ [DrainTasks] @ (if ra_memory a then [CloseMemory] else []) @ (if ra_redis a then [CloseRedis] else [])"

subsection \<open>What the budgets guarantee\<close>

text \<open>
  The history budget.  The budget for the history is what the zones and the reserve
  leave of the window, and never negative.  Where the settings name the reserve and were accepted
  at the start, the four parts fill the window exactly.
\<close>

theorem history_budget_fits:
  assumes "compute_history_budget b window model_max = h"
  shows "0 \<le> h
     \<and> (0 < h \<longrightarrow> bc_system b + bc_dynamic b + output_reserve b window model_max + h = window)
     \<and> (bc_reserve b \<noteq> None \<and> validate_against_context_window b window = Inr ()
          \<longrightarrow> bc_system b + bc_dynamic b + the (bc_reserve b) + h = window)"
proof (cases "bc_reserve b")
  case None
  with assms show ?thesis by (auto simp: compute_history_budget_def)
next
  case (Some r)
  with assms show ?thesis
    by (auto simp: compute_history_budget_def output_reserve_def validate_against_context_window_def Let_def split: if_splits)
qed

theorem history_budget_fits_witness:
  "compute_history_budget (default_budget\<lparr>bc_reserve := Some 1000\<rparr>) 128000 None = 118808
   \<and> 4096 + 4096 + 1000 + (118808::int) = 128000"
proof -
  have c: "compute_history_budget (default_budget\<lparr>bc_reserve := Some 1000\<rparr>) 128000 None = 118808"
    by (simp add: compute_history_budget_def output_reserve_def default_budget_def)
  from history_budget_fits [OF c] c show ?thesis
    by (simp add: validate_against_context_window_def default_budget_def)
qed

text \<open>
  With the default ratio a share of at least seven tenths of what the zones leave stays for the
  history.  A model whose answers may fill the window leaves nothing, and a budget of nothing
  switches the check before a request off.
\<close>

lemma default_share_of_history:
  assumes "bc_reserve b = None" "0 \<le> bc_ratio b" "bc_ratio b \<le> 1" "0 \<le> window - bc_system b - bc_dynamic b"
  shows "of_int (compute_history_budget b window None) \<ge> (1 - bc_ratio b) * of_int (window - bc_system b - bc_dynamic b)"
proof -
  let ?n = "window - bc_system b - bc_dynamic b"
  have "0 \<le> of_int ?n * bc_ratio b" using assms by simp
  then have r: "output_reserve b window None = \<lfloor>of_int ?n * bc_ratio b\<rfloor>"
    using assms(1) by (simp add: output_reserve_def int_of_rat_def)
  have "of_int \<lfloor>of_int ?n * bc_ratio b\<rfloor> \<le> of_int ?n * bc_ratio b" by (rule of_int_floor_le)
  then have "(1 - bc_ratio b) * of_int ?n \<le> of_int ?n - of_int (output_reserve b window None)"
    unfolding r by (simp add: algebra_simps)
  also have "\<dots> = of_int (?n - output_reserve b window None)" by simp
  also have "\<dots> \<le> of_int (compute_history_budget b window None)"
    unfolding compute_history_budget_def of_int_le_iff by (rule max.cobounded2)
  finally show ?thesis .
qed

lemma no_budget_for_large_answers:
  "bc_reserve b = None \<Longrightarrow> window - bc_system b - bc_dynamic b \<le> m \<Longrightarrow> compute_history_budget b window (Some m) = 0"
  by (simp add: compute_history_budget_def output_reserve_def)

text \<open>The default, when it is written down, loses against the old name; a text for a list becomes its letters.\<close>

lemma written_default_is_overridden: "migrate_threshold (Some x) (8 / 10) = x"
  by (simp add: migrate_threshold_def)

lemma admin_text_becomes_letters:
  "flatten_admin [(''admin'', JObj [(''userIds'', JStr ''ann'')])]
     = Some [(''admin_user_ids'', JList [JStr ''a'', JStr ''n'', JStr ''n''])]"
  by (simp add: flatten_admin_def jget_def json_elements_def)

subsection \<open>What the hooks hear\<close>

text \<open>
  Notifications.  Every hook that has the method is called exactly once, in the order
  of registration, also when hooks before it have raised.
\<close>

theorem every_hook_is_notified:
  assumes "\<forall>h \<in> set hs. method h \<noteq> None \<longrightarrow> (\<forall>heard. snd (the (method h) heard) = heard @ [h])"
  shows "notify_hooks method hs [] = filter (\<lambda>h. method h \<noteq> None) hs"
proof -
  have "notify_hooks method hs heard = heard @ filter (\<lambda>h. method h \<noteq> None) hs" for heard
    using assms by (induction hs arbitrary: heard) (auto simp: case_prod_unfold split: option.split)
  then show ?thesis by simp
qed

theorem every_hook_is_notified_witness:
  "notify_hooks (\<lambda>h. if h = MemoryNudgeHook then None else Some (\<lambda>heard. (h = WorkingMemoryHook, heard @ [h])))
     [WorkingMemoryHook, MemoryNudgeHook, SteerHook] [] = [WorkingMemoryHook, SteerHook]"
proof -
  let ?m = "\<lambda>h. if h = MemoryNudgeHook then None else Some (\<lambda>heard. (h = WorkingMemoryHook, heard @ [h]))"
  have "notify_hooks ?m [WorkingMemoryHook, MemoryNudgeHook, SteerHook] []
      = filter (\<lambda>h. ?m h \<noteq> None) [WorkingMemoryHook, MemoryNudgeHook, SteerHook]"
    by (rule every_hook_is_notified) auto
  then show ?thesis by simp
qed

subsection \<open>What starts\<close>

lemma create_deps_Inr:
  assumes "create_agent_runner_deps ag memory redis = Inr (tools, hooks)"
  shows "tools = agent_tools ag memory redis \<and> hooks = agent_hooks ag memory redis
     \<and> (ag_providers ag = [] \<or> (\<exists>np. resolve_provider_for_model (ag_default_model ag) (ag_providers ag)
          (ag_default_provider ag) (ag_default_policy ag) = Inr np))
     \<and> validate_against_context_window (ag_budget ag) (ag_window ag) = Inr ()"
proof (cases "validate_against_context_window (ag_budget ag) (ag_window ag)")
  case (Inl z)
  with assms show ?thesis by (simp add: create_agent_runner_deps_def split: sum.splits)
next
  case v: (Inr u)
  show ?thesis
  proof (cases "ag_providers ag = []")
    case True
    with assms v show ?thesis by (simp add: create_agent_runner_deps_def)
  next
    case False
    with assms v show ?thesis
      by (cases "resolve_provider_for_model (ag_default_model ag) (ag_providers ag) (ag_default_provider ag) (ag_default_policy ag)")
        (simp_all add: create_agent_runner_deps_def)
  qed
qed

text \<open>
  A start that succeeds.  The default model has a provider and the zones fit the window.
  The agent has the tools and the hooks of the memory exactly if there is a memory store, which needs
  Redis; no two tools share a name, the hook for steering is the last one, and the curator runs only
  on a memory store.
\<close>

theorem started_app_is_consistent:
  assumes "start_app st sandbox_ok memory_ok = (Inr a, started)"
  shows "sandbox_ok \<and> started = ra_services a \<and> distinct (ra_tools a) \<and> last (ra_hooks a) = SteerHook
     \<and> validate_against_context_window (ag_budget (st_agent st)) (ag_window (st_agent st)) = Inr ()
     \<and> (ag_providers (st_agent st) = [] \<or> (\<exists>np. resolve_provider_for_model (ag_default_model (st_agent st))
          (ag_providers (st_agent st)) (ag_default_provider (st_agent st)) (ag_default_policy (st_agent st)) = Inr np))
     \<and> (ra_memory a \<longrightarrow> ra_redis a)
     \<and> (''memorize'' \<in> set (ra_tools a) \<longleftrightarrow> ra_memory a)
     \<and> (MemoryNudgeHook \<in> set (ra_hooks a) \<longleftrightarrow> ra_memory a)
     \<and> (CuratorLoop \<in> set started \<longrightarrow> ra_memory a \<and> WorkerHeartbeat \<in> set started)"
proof -
  let ?redis = "st_session_backend st = ''redis''"
  let ?memory = "create_memory_store (st_memory_backend st) ?redis memory_ok"
  have c: "create_session_store (st_session_backend st) ?redis = Inr ()" and ok: "sandbox_ok"
    and w: "create_workspace_store (st_workspace_backend st) ?redis = Inr ()"
    using assms by (simp_all add: start_app_def Let_def split: sum.splits if_splits)
  obtain r where r: "create_agent_runner_deps (st_agent st) ?memory ?redis = Inr r"
    using assms c ok w
    by (cases "create_agent_runner_deps (st_agent st) ?memory ?redis") (simp_all add: start_app_def Let_def)
  obtain tools hooks where "r = (tools, hooks)" by (cases r)
  with r have d: "create_agent_runner_deps (st_agent st) ?memory ?redis = Inr (tools, hooks)" by simp
  from assms c ok w d have a: "sandbox_ok" "started = ra_services a" "ra_tools a = tools" "ra_hooks a = hooks" "ra_redis a = ?redis"
    "ra_memory a = ?memory"
    "ra_services a = ((if ?redis then [WorkerRegistration, WorkerHeartbeat] else []) @ (if st_mcp st then [McpBackground] else []))
       @ services_after_setup st ?redis ?memory"
    by (auto simp: start_app_def Let_def)
  note t = create_deps_Inr [OF d]
  have "ra_memory a \<longrightarrow> ra_redis a" by (simp add: a create_memory_store_def)
  moreover have "distinct (ra_tools a)" "''memorize'' \<in> set (ra_tools a) \<longleftrightarrow> ra_memory a"
    using t by (auto simp: a agent_tools_def builtin_tools_def)
  moreover have "last (ra_hooks a) = SteerHook" "MemoryNudgeHook \<in> set (ra_hooks a) \<longleftrightarrow> ra_memory a"
    using t by (auto simp: a agent_hooks_def)
  moreover have "CuratorLoop \<in> set started \<longrightarrow> ra_memory a \<and> WorkerHeartbeat \<in> set started"
    by (auto simp: a services_after_setup_def split: if_splits)
  ultimately show ?thesis using t a(1,2) by blast
qed

definition demo_agent_settings :: agent_settings where
  "demo_agent_settings = \<lparr>ag_default_model = ''gpt'', ag_providers = [], ag_default_provider = None, ag_default_policy = False,
     ag_window = 128000, ag_budget = default_budget, ag_progressive = True, ag_evolution = True\<rparr>"

definition demo_app_settings :: app_settings where
  "demo_app_settings = \<lparr>st_session_backend = ''redis'', st_memory_backend = ''sqlite'', st_workspace_backend = ''file'',
     st_agent = demo_agent_settings, st_curator = True, st_affinity = False, st_mcp = True, st_feishu = False, st_web = True\<rparr>"

theorem started_app_is_consistent_witness:
  "\<exists>a. fst (start_app demo_app_settings True True) = Inr a \<and> ra_memory a \<and> distinct (ra_tools a) \<and> ''memorize'' \<in> set (ra_tools a)"
proof -
  have "case fst (start_app demo_app_settings True True) of Inr a \<Rightarrow> ra_memory a | Inl _ \<Rightarrow> False"
    by (simp add: start_app_def demo_app_settings_def demo_agent_settings_def create_session_store_def create_workspace_store_def
        create_memory_store_def create_agent_runner_deps_def validate_against_context_window_def default_budget_def Let_def)
  then obtain a started where s: "start_app demo_app_settings True True = (Inr a, started)" "ra_memory a"
    by (cases "start_app demo_app_settings True True") (auto split: sum.splits)
  from started_app_is_consistent [OF s(1)] s show ?thesis by simp
qed

text \<open>
  A start that fails after the worker was registered leaves it registered: nothing undoes what was
  started, and the part that stops the services is never reached.
\<close>

lemma failed_start_leaves_the_worker_registered:
  "start_app (demo_app_settings\<lparr>st_agent := demo_agent_settings\<lparr>ag_window := 1, ag_budget := default_budget\<lparr>bc_reserve := Some 0\<rparr>\<rparr>\<rparr>) True True
     = (Inl (ZonesExceed 8192), [WorkerRegistration, WorkerHeartbeat, McpBackground])"
  by (simp add: start_app_def demo_app_settings_def demo_agent_settings_def create_session_store_def create_workspace_store_def
      create_memory_store_def create_agent_runner_deps_def validate_against_context_window_def default_budget_def Let_def)

text \<open>Stopping closes Redis after everything that uses it, and takes no new work before it drains the tasks.\<close>

lemma stop_order:
  "ra_redis a \<Longrightarrow> last (stop_app st a) = CloseRedis"
  "hd (stop_app st a) = Deregister"
  by (auto simp: stop_app_def)

end
