(* ===== verification/Spec2Isabelle.thy ===== *)
theory Spec2Isabelle
  imports SessionTree Compaction Runtime Tools Llm TurnClass Gate Runner RunnerProps
    RedisApi SessionStore RedisStore Lock Tasks Mutex Sandbox FileTools BashTool Auth Steering MemoryIndex
    WebQueue WebChat WebApi FeishuApproval Gateway Feishu SopStore Skills Curator SopExtraction Mcp
    Commands SystemPrompt AdminCommands SessionCommands ContextAssembly Export
    WebSocket FeishuCard AgentSetup
begin

text \<open>
  A verification library for PyClaw.
\<close>

section \<open>Properties that span components\<close>

subsection \<open>Runs and the session store\<close>

lemma put_entry_is_store_entry: "put_entry = (\<lambda>e. store_entry e (entry_id e))"
  by (intro ext) (simp add: put_entry_def store_entry_def)

text \<open>
  Property C4.  A persisted run can be resumed.  Let the session be in the in-memory store, let
  a run on its tree return, and let the entries the run handed to the store be appended there
  one by one: then every append succeeds, and loading the session gives the very tree the run
  ended with, while no other session changed.
\<close>

theorem persisted_run_can_be_resumed:
  assumes "\<forall>e. \<not> re_store_fails env e" and "mem_load sid st = Some t"
    and "run_agent_stream env rq t w = Return s"
  shows "\<exists>st'. mem_append_all sid (rs_store s) st = Inr st'
     \<and> mem_load sid st' = Some (rs_tree s)
     \<and> (\<forall>i. i \<noteq> sid \<longrightarrow> mem_load i st' = mem_load i st)"
proof -
  from run_rebuilds_tree [OF assms(1), of t rq w]
  have "rs_tree s = fold put_entry (rs_store s) t" unfolding assms(3) by simp
  then have "rs_tree s = fold (\<lambda>e. store_entry e (entry_id e)) (rs_store s) t"
    unfolding put_entry_is_store_entry .
  with mem_append_all_load [OF assms(2), of "rs_store s"] show ?thesis by metis
qed

theorem persisted_run_can_be_resumed_witness:
  "\<exists>s st'. run_agent_stream demo_run demo_request (new_tree demo_header) 5 = Return s
     \<and> mem_append_all ''s'' (rs_store s) (mem_empty\<lparr>ms_trees := [(''s'', new_tree demo_header)]\<rparr>) = Inr st'
     \<and> mem_load ''s'' st' = Some (rs_tree s)"
proof -
  let ?st = "mem_empty\<lparr>ms_trees := [(''s'', new_tree demo_header)]\<rparr>"
  obtain s where s: "run_agent_stream demo_run demo_request (new_tree demo_header) 5 = Return s"
    by (rule demo_returns)
  have ok: "\<forall>e. \<not> re_store_fails demo_run e" by (simp add: demo_run_def)
  have l: "mem_load ''s'' ?st = Some (new_tree demo_header)" by (simp add: mem_load_def)
  obtain st' where "mem_append_all ''s'' (rs_store s) ?st = Inr st'"
    "mem_load ''s'' st' = Some (rs_tree s)"
    using persisted_run_can_be_resumed [OF ok l s] by (elim exE conjE)
  with s show ?thesis by (intro exI conjI)
qed

end
